(* ===== verification/Prelude.thy ===== *)
theory Prelude
  imports Main "HOL-Library.Word" "HOL-Library.Product_Lexorder" "HOL-Library.Multiset"
begin

text \<open>
  Shared vocabulary of the VIO development: the fact collections the component
  proofs draw on, the names of the machine types, and the generic lemmas on lists,
  options and words that more than one component needs.

  \<^item> \<^verbatim>\<open>std::size_t\<close> and \<^verbatim>\<open>std::uint64_t\<close> values that the code increments, adds or compares
    against their maximum are 64-bit words, so that \<^verbatim>\<open>++\<close> and \<^verbatim>\<open>+\<close> wrap as they do in C++;
    limits that the code only compares with a container's size are \<open>nat\<close>.
  \<^item> a \<^verbatim>\<open>continuation\<close> (\<^verbatim>\<open>move_only_function<void()>\<close>) is an optional work item: \<open>None\<close> is the
    empty function, for which the code's \<^verbatim>\<open>operator bool\<close> answers false. What running a
    work item does is user code, so it is always a parameter of the model.
\<close>

section \<open>Fact collections\<close>

named_theorems vio_invs \<open>preservation of the component invariants\<close>
named_theorems vio_defs \<open>unfoldings of the straight-line operations\<close>

section \<open>Machine types\<close>

type_synonym size_t = "64 word"
type_synonym uint64 = "64 word"
type_synonym uint32 = "32 word"
type_synonym byte = "8 word"

type_synonym 'w continuation = "'w option"

section \<open>Lists\<close>

lemma list_update_swap_nth:
  assumes "i < length xs" and "j < length xs" and "k < length xs"
  shows "xs[i := xs ! j, j := xs ! i] ! k =
    (if k = j then xs ! i else if k = i then xs ! j else xs ! k)"
  using assms by (auto simp: nth_list_update)

lemma mset_list_update_swap:
  assumes "i < length xs" and "j < length xs"
  shows "mset (xs[i := xs ! j, j := xs ! i]) = mset xs"
  using assms by (simp add: mset_swap)

lemma filter_partition_mset:
  "mset (filter P xs) + mset (filter (\<lambda>x. \<not> P x) xs) = mset xs"
  by simp

lemma distinct_map_filter_disjoint:
  assumes "distinct (map f xs)"
  shows "set (map f (filter P xs)) \<inter> set (map f (filter (\<lambda>x. \<not> P x) xs)) = {}"
  using assms by (induction xs) auto

lemma take_min_length: "take (min n (length xs)) xs = take n xs"
  by (simp add: min_def)

section \<open>Words\<close>

lemma word_add_one_gt:
  fixes n :: size_t
  assumes "n \<noteq> - 1"
  shows "n < n + 1"
  using assms by (meson inc_less_eq_triv_imp not_le)

lemma unat_add_one:
  fixes n :: size_t
  assumes "n \<noteq> - 1"
  shows "unat (n + 1) = Suc (unat n)"
  using assms by (simp add: add.commute add_eq_0_iff unatSuc)

lemma unat_max_size: "unat (- 1 :: size_t) = 2 ^ 64 - 1"
  by (simp add: unsigned_minus_1_eq_mask mask_eq_exp_minus_1)

lemma sint_neg_iff:
  fixes w :: "64 word"
  shows "sint w < 0 \<longleftrightarrow> 2 ^ 63 \<le> unat w"
proof -
  have lt: "uint w < 2 ^ 64" using uint_lt2p [of w] by simp
  have "sint w = signed_take_bit 63 (uint w)"
    by (simp add: sint_uint)
  then have "sint w < 0 \<longleftrightarrow> odd (uint w div 2 ^ 63)"
    by (simp add: signed_take_bit_negative_iff bit_iff_odd)
  also have "\<dots> \<longleftrightarrow> 2 ^ 63 \<le> uint w"
  proof
    assume "odd (uint w div 2 ^ 63)"
    then show "2 ^ 63 \<le> uint w"
      by (metis div_pos_pos_trivial even_zero not_le uint_ge_0)
  next
    assume "2 ^ 63 \<le> uint w"
    then have "uint w div 2 ^ 63 = 1" using lt by (simp add: div_pos_geq div_pos_pos_trivial)
    then show "odd (uint w div 2 ^ 63)" by simp
  qed
  also have "\<dots> \<longleftrightarrow> (2 :: int) ^ 63 \<le> int (unat w)" by simp
  also have "\<dots> \<longleftrightarrow> 2 ^ 63 \<le> unat w"
    by (metis of_nat_le_iff of_nat_numeral of_nat_power)
  finally show ?thesis .
qed

end
