(* ===== verification/Heap_Order.thy ===== *)
theory Heap_Order
  imports Prelude
begin

text \<open>
  Array binary heaps over a linear order, on the list of keys: the heap property, the
  weakened properties that hold while \<^verbatim>\<open>sift_up\<close> and \<^verbatim>\<open>sift_down\<close> carry one misplaced key
  towards its position, and the effect of one exchange on each of them.
\<close>

definition parent :: "nat \<Rightarrow> nat" where
  "parent i = (i - 1) div 2"

definition swap_at :: "'a list \<Rightarrow> nat \<Rightarrow> nat \<Rightarrow> 'a list" where
  "swap_at xs i j = xs[i := xs ! j, j := xs ! i]"

lemma parent_less [simp]: "0 < i \<Longrightarrow> parent i < i"
  by (auto simp: parent_def)

lemma parent_less_trans [simp]: "0 < i \<Longrightarrow> i < n \<Longrightarrow> parent i < n"
  using less_trans parent_less by blast

lemma parent_neq [simp]: "0 < i \<Longrightarrow> parent i \<noteq> i"
  by (rule less_imp_neq) simp

lemma parent_child [simp]: "parent (2 * i + 1) = i" "parent (2 * i + 2) = i"
  by (simp_all add: parent_def)

lemma parent_eqD: "parent c = i \<Longrightarrow> 0 < c \<Longrightarrow> c = 2 * i + 1 \<or> c = 2 * i + 2"
  by (auto simp: parent_def)

lemma swap_at_length [simp]: "length (swap_at xs i j) = length xs"
  by (simp add: swap_at_def)

lemma swap_at_same [simp]: "swap_at xs i i = xs"
  by (simp add: swap_at_def)

lemma swap_at_nth:
  assumes "i < length xs" and "j < length xs" and "k < length xs"
  shows "swap_at xs i j ! k = (if k = j then xs ! i else if k = i then xs ! j else xs ! k)"
  using assms by (simp add: swap_at_def list_update_swap_nth)

lemma swap_at_mset [simp]:
  "i < length xs \<Longrightarrow> j < length xs \<Longrightarrow> mset (swap_at xs i j) = mset xs"
  by (simp add: swap_at_def mset_list_update_swap)

lemma swap_at_map:
  "i < length xs \<Longrightarrow> j < length xs \<Longrightarrow> map f (swap_at xs i j) = swap_at (map f xs) i j"
  by (simp add: swap_at_def map_update)

section \<open>Heap properties\<close>

definition is_heap :: "'k::linorder list \<Rightarrow> bool" where
  "is_heap ks \<longleftrightarrow> (\<forall>i<length ks. 0 < i \<longrightarrow> ks ! parent i \<le> ks ! i)"

text \<open>Ordered everywhere except possibly between \<open>k\<close> and its parent.\<close>

definition heap_up :: "'k::linorder list \<Rightarrow> nat \<Rightarrow> bool" where
  "heap_up ks k \<longleftrightarrow> (\<forall>i<length ks. 0 < i \<longrightarrow> i \<noteq> k \<longrightarrow> ks ! parent i \<le> ks ! i) \<and>
     (\<forall>i<length ks. 0 < i \<longrightarrow> parent i = k \<longrightarrow> 0 < k \<longrightarrow> ks ! parent k \<le> ks ! i)"

text \<open>Ordered everywhere except possibly between \<open>k\<close> and its children.\<close>

definition heap_down :: "'k::linorder list \<Rightarrow> nat \<Rightarrow> bool" where
  "heap_down ks k \<longleftrightarrow> (\<forall>i<length ks. 0 < i \<longrightarrow> parent i \<noteq> k \<longrightarrow> ks ! parent i \<le> ks ! i) \<and>
     (\<forall>i<length ks. 0 < i \<longrightarrow> parent i = k \<longrightarrow> 0 < k \<longrightarrow> ks ! parent k \<le> ks ! i)"

text \<open>Ordered everywhere except possibly around \<open>k\<close>.\<close>

definition heap_hole :: "'k::linorder list \<Rightarrow> nat \<Rightarrow> bool" where
  "heap_hole ks k \<longleftrightarrow>
     (\<forall>i<length ks. 0 < i \<longrightarrow> i \<noteq> k \<longrightarrow> parent i \<noteq> k \<longrightarrow> ks ! parent i \<le> ks ! i) \<and>
     (\<forall>i<length ks. 0 < i \<longrightarrow> parent i = k \<longrightarrow> 0 < k \<longrightarrow> ks ! parent k \<le> ks ! i)"

lemma is_heap_root_least:
  assumes "is_heap ks" and "i < length ks"
  shows "ks ! 0 \<le> ks ! i"
  using assms(2)
proof (induction i rule: less_induct)
  case (less i)
  show ?case
  proof (cases "i = 0")
    case False
    then have "ks ! 0 \<le> ks ! parent i"
      using less by (meson parent_less gr0I less_trans)
    moreover have "ks ! parent i \<le> ks ! i"
      using assms(1) less.prems False by (simp add: is_heap_def)
    ultimately show ?thesis by order
  qed simp
qed

lemma heap_up_append: "is_heap ks \<Longrightarrow> heap_up (ks @ [k]) (length ks)"
  unfolding is_heap_def heap_up_def
proof (intro conjI allI impI)
  fix i
  assume "\<forall>i<length ks. 0 < i \<longrightarrow> ks ! parent i \<le> ks ! i"
    and "i < length (ks @ [k])" and "0 < i" and "i \<noteq> length ks"
  then show "(ks @ [k]) ! parent i \<le> (ks @ [k]) ! i"
    by (simp add: nth_append)
next
  fix i
  assume "i < length (ks @ [k])" and "0 < i" and "parent i = length ks"
  then show "(ks @ [k]) ! parent (length ks) \<le> (ks @ [k]) ! i"
    using parent_less [of i] by (simp add: less_Suc_eq_le)
qed

lemma heap_up_done:
  assumes "heap_up ks k" and "k = 0 \<or> ks ! parent k \<le> ks ! k"
  shows "is_heap ks"
  using assms by (auto simp: heap_up_def is_heap_def)

lemma heap_up_step:
  assumes "heap_up ks k" and "0 < k" and "k < length ks" and "ks ! k < ks ! parent k"
  shows "heap_up (swap_at ks k (parent k)) (parent k)"
proof -
  have p: "parent k < length ks" "parent k < k"
    using assms by (auto intro: less_trans [OF parent_less])
  note sw = swap_at_nth [OF assms(3) p(1)]
  have up: "\<And>i. i < length ks \<Longrightarrow> 0 < i \<Longrightarrow> i \<noteq> k \<Longrightarrow> ks ! parent i \<le> ks ! i"
    and gp: "\<And>i. i < length ks \<Longrightarrow> 0 < i \<Longrightarrow> parent i = k \<Longrightarrow> ks ! parent k \<le> ks ! i"
    using assms(1,2) by (auto simp: heap_up_def)
  show ?thesis
    unfolding heap_up_def swap_at_length
  proof (intro conjI allI impI)
    fix i assume i: "i < length ks" "0 < i" "i \<noteq> parent k"
    then have pi: "parent i < length ks" by (meson less_trans parent_less)
    show "swap_at ks k (parent k) ! parent i \<le> swap_at ks k (parent k) ! i"
      using i pi sw up [of i] gp [of i] assms(4)
      by (auto simp: order.strict_implies_order intro: order.trans less_imp_le)
  next
    fix i assume i: "i < length ks" "0 < i" "parent i = parent k" "0 < parent k"
    have "parent (parent k) < k" using i(4) p by simp
    then have neq: "parent (parent k) \<noteq> k" by (rule less_imp_neq)
    have gpk: "parent (parent k) < length ks" "parent (parent k) \<noteq> parent k"
      using i(4) p by simp_all
    have "parent k \<noteq> i" using i by auto
    then show "swap_at ks k (parent k) ! parent (parent k) \<le> swap_at ks k (parent k) ! i"
      using i gpk neq sw up [of "parent k"] up [of i] p assms(4)
      by (auto intro: order.trans)
  qed
qed

lemma heap_down_done:
  assumes "heap_down ks k"
    and "\<And>c. c < length ks \<Longrightarrow> 0 < c \<Longrightarrow> parent c = k \<Longrightarrow> ks ! k \<le> ks ! c"
  shows "is_heap ks"
  using assms by (auto simp: heap_down_def is_heap_def)

lemma heap_down_step:
  assumes "heap_down ks k" and "c < length ks" and "0 < c" and "parent c = k"
    and "ks ! c < ks ! k"
    and least: "\<And>d. d < length ks \<Longrightarrow> 0 < d \<Longrightarrow> parent d = k \<Longrightarrow> ks ! c \<le> ks ! d"
  shows "heap_down (swap_at ks k c) c"
proof -
  have k: "k < length ks" "k < c"
    using assms(2-4) parent_less [of c] by auto
  note sw = swap_at_nth [OF k(1) assms(2)]
  have down: "\<And>i. i < length ks \<Longrightarrow> 0 < i \<Longrightarrow> parent i \<noteq> k \<Longrightarrow> ks ! parent i \<le> ks ! i"
    and gp: "\<And>i. i < length ks \<Longrightarrow> 0 < i \<Longrightarrow> parent i = k \<Longrightarrow> 0 < k \<Longrightarrow> ks ! parent k \<le> ks ! i"
    using assms(1) by (auto simp: heap_down_def)
  show ?thesis
    unfolding heap_down_def swap_at_length
  proof (intro conjI allI impI)
    fix i assume i: "i < length ks" "0 < i" "parent i \<noteq> c"
    then have pi: "parent i < length ks" "parent i \<noteq> i"
      by simp_all
    show "swap_at ks k c ! parent i \<le> swap_at ks k c ! i"
      using i pi sw down [of i] gp [of c] least [of i] assms(2-5)
      by (auto intro: less_imp_le)
  next
    fix i assume i: "i < length ks" "0 < i" "parent i = c" "0 < c"
    then have "c < i" using parent_less by blast
    then have "i \<noteq> k" "i \<noteq> c" using k by simp_all
    then show "swap_at ks k c ! parent c \<le> swap_at ks k c ! i"
      using i sw down [of i] k assms(4) by auto
  qed
qed

text \<open>A hole is repaired upwards or downwards, whichever side is out of order.\<close>

lemma heap_hole_up:
  assumes "heap_hole ks k" and "0 < k" and "ks ! k < ks ! parent k"
  shows "heap_up ks k"
  using assms unfolding heap_hole_def heap_up_def
  by (metis less_imp_le order.trans)

lemma heap_hole_down:
  assumes "heap_hole ks k" and "k = 0 \<or> ks ! parent k \<le> ks ! k"
  shows "heap_down ks k"
  using assms unfolding heap_hole_def heap_down_def by blast

text \<open>Moving the last key into position \<open>k\<close> and dropping the last position.\<close>

lemma is_heap_erase_hole:
  assumes "is_heap ks" and "k < length ks"
  shows "heap_hole (butlast (swap_at ks k (length ks - 1))) k"
proof -
  let ?n = "length ks - 1"
  have n: "?n < length ks" using assms(2) by simp
  have nth: "butlast (swap_at ks k ?n) ! i = (if i = k then ks ! ?n else ks ! i)" if "i < ?n" for i
    using that swap_at_nth [OF assms(2) n, of i] by (simp add: nth_butlast)
  have ord: "\<And>i. i < length ks \<Longrightarrow> 0 < i \<Longrightarrow> ks ! parent i \<le> ks ! i"
    using assms(1) by (simp add: is_heap_def)
  show ?thesis
    unfolding heap_hole_def
  proof (intro conjI allI impI)
    fix i assume i: "i < length (butlast (swap_at ks k ?n))" "0 < i" "i \<noteq> k" "parent i \<noteq> k"
    then show "butlast (swap_at ks k ?n) ! parent i \<le> butlast (swap_at ks k ?n) ! i"
      using nth [of i] nth [of "parent i"] ord [of i] parent_less [of i] by simp
  next
    fix i assume i: "i < length (butlast (swap_at ks k ?n))" "0 < i" "parent i = k" "0 < k"
    then have "k < i" and pk: "parent k < k" using parent_less [of i] by auto
    then have "butlast (swap_at ks k ?n) ! parent k = ks ! parent k"
        "butlast (swap_at ks k ?n) ! i = ks ! i"
      using i nth [of i] nth [of "parent k"] by simp_all
    moreover have "ks ! parent k \<le> ks ! k" "ks ! k \<le> ks ! i"
      using i ord [of k] ord [of i] assms(2) by simp_all
    ultimately show "butlast (swap_at ks k ?n) ! parent k \<le> butlast (swap_at ks k ?n) ! i"
      by simp
  qed
qed

lemma is_heap_butlast: "is_heap ks \<Longrightarrow> is_heap (butlast ks)"
  by (simp add: is_heap_def nth_butlast)

end
