(* ===== verification/Vio_Error.thy ===== *)
theory Vio_Error
  imports Prelude "HOL-Library.Option_ord"
begin

text \<open>
  The error values of \<^verbatim>\<open>include/voris/io/error.hpp\<close> and \<^verbatim>\<open>src/error.cpp\<close>: the stable
  classification, the error record, the result types and the comparison operators.
  \<^verbatim>\<open>std::expected<T, vio_error>\<close> is the sum \<open>vio_error + 'a\<close>, with \<open>Inl\<close> for
  \<^verbatim>\<open>std::unexpected\<close>. The \<^verbatim>\<open>source_location\<close> member is filled by the compiler at each
  construction and read by no operation, so the record leaves it out.
\<close>

section \<open>Classification\<close>

datatype vio_error_code =
    none
  | invalid_state
  | cancelled
  | deadline_exceeded
  | resource_exhausted
  | operation_in_progress
  | closed
  | backend_failure
  | unsupported

fun error_code_value :: "vio_error_code \<Rightarrow> 8 word" where
  "error_code_value none = 0"
| "error_code_value invalid_state = 1"
| "error_code_value cancelled = 2"
| "error_code_value deadline_exceeded = 3"
| "error_code_value resource_exhausted = 4"
| "error_code_value operation_in_progress = 5"
| "error_code_value closed = 6"
| "error_code_value backend_failure = 7"
| "error_code_value unsupported = 8"

fun error_to_string :: "vio_error_code \<Rightarrow> string" where
  "error_to_string none = ''none''"
| "error_to_string invalid_state = ''invalid_state''"
| "error_to_string cancelled = ''cancelled''"
| "error_to_string deadline_exceeded = ''deadline_exceeded''"
| "error_to_string resource_exhausted = ''resource_exhausted''"
| "error_to_string operation_in_progress = ''operation_in_progress''"
| "error_to_string closed = ''closed''"
| "error_to_string backend_failure = ''backend_failure''"
| "error_to_string unsupported = ''unsupported''"

lemma error_code_value_inject [simp]:
  "error_code_value a = error_code_value b \<longleftrightarrow> a = b"
  by (cases a; cases b) simp_all

instantiation vio_error_code :: linorder
begin

definition less_eq_vio_error_code :: "vio_error_code \<Rightarrow> vio_error_code \<Rightarrow> bool" where
  "less_eq_vio_error_code a b \<longleftrightarrow> error_code_value a \<le> error_code_value b"

definition less_vio_error_code :: "vio_error_code \<Rightarrow> vio_error_code \<Rightarrow> bool" where
  "less_vio_error_code a b \<longleftrightarrow> error_code_value a < error_code_value b"

instance
  by standard
    (auto simp: less_eq_vio_error_code_def less_vio_error_code_def dest: order.antisym)

end

section \<open>Error values and results\<close>

record vio_error =
  classification :: vio_error_code
  provider_code :: "int option"
  diagnostic :: string

type_synonym 'a io_result = "vio_error + 'a"
type_synonym void_result = "vio_error + unit"

definition make_error :: "vio_error_code \<Rightarrow> int option \<Rightarrow> string \<Rightarrow> vio_error" where
  "make_error c p d = \<lparr>classification = c, provider_code = p, diagnostic = d\<rparr>"

definition make_error_provider :: "vio_error_code \<Rightarrow> int \<Rightarrow> string \<Rightarrow> vio_error" where
  "make_error_provider c p d = make_error c (Some p) d"

definition make_error_diagnostic :: "vio_error_code \<Rightarrow> string \<Rightarrow> vio_error" where
  "make_error_diagnostic c d = make_error c None d"

lemma make_error_sel [simp]:
  "classification (make_error c p d) = c"
  "provider_code (make_error c p d) = p"
  "diagnostic (make_error c p d) = d"
  "classification (make_error_provider c q d) = c"
  "provider_code (make_error_provider c q d) = Some q"
  "classification (make_error_diagnostic c d) = c"
  "provider_code (make_error_diagnostic c d) = None"
  by (simp_all add: make_error_def make_error_provider_def make_error_diagnostic_def)

section \<open>Comparison\<close>

datatype strong_ordering = Less | Equal | Greater

definition vio_error_eq :: "vio_error \<Rightarrow> vio_error \<Rightarrow> bool" where
  "vio_error_eq l r \<longleftrightarrow>
     classification l = classification r \<and> provider_code l = provider_code r"

definition three_way :: "'a::linorder \<Rightarrow> 'a \<Rightarrow> strong_ordering" where
  "three_way a b = (if a < b then Less else if a = b then Equal else Greater)"

text \<open>\<^verbatim>\<open>std::optional\<close> orders \<^verbatim>\<open>nullopt\<close> below every value, as the \<open>option\<close> order does.\<close>

definition vio_error_compare :: "vio_error \<Rightarrow> vio_error \<Rightarrow> strong_ordering" where
  "vio_error_compare l r =
     (let order = three_way (error_code_value (classification l))
                            (error_code_value (classification r))
      in if order \<noteq> Equal then order
         else three_way (provider_code l) (provider_code r))"

definition error_key :: "vio_error \<Rightarrow> vio_error_code \<times> int option" where
  "error_key e = (classification e, provider_code e)"

lemma three_way_Equal [simp]: "three_way a b = Equal \<longleftrightarrow> a = b"
  by (auto simp: three_way_def)

lemma vio_error_compare_key:
  "vio_error_compare l r = three_way (error_key l) (error_key r)"
  by (auto simp: vio_error_compare_def Let_def three_way_def error_key_def less_prod_def
      less_eq_vio_error_code_def less_vio_error_code_def order.order_iff_strict split: if_splits)

end
