(* ===== verification/Loop_Budget.thy ===== *)
theory Loop_Budget
  imports Vio_Error
begin

text \<open>
  \<^verbatim>\<open>include/voris/io/loop_budget.hpp\<close>: the per-iteration limits of the scheduler loop and
  the slice that counts what an iteration has consumed.
\<close>

record loop_budget =
  task_budget :: nat
  completion_budget :: nat
  timer_budget :: nat

definition default_loop_budget :: loop_budget where
  "default_loop_budget = \<lparr>task_budget = 64, completion_budget = 64, timer_budget = 64\<rparr>"

definition loop_budget_validate :: "loop_budget \<Rightarrow> void_result" where
  "loop_budget_validate b =
     (if task_budget b = 0 \<or> completion_budget b = 0 \<or> timer_budget b = 0
      then Inl (make_error_diagnostic invalid_state
        ''loop budgets require non-zero task, completion, and timer limits'')
      else Inr ())"

record loop_budget_slice =
  slice_budget :: loop_budget
  consumed_tasks :: nat
  consumed_completions :: nat
  consumed_timers :: nat

definition slice_create :: "loop_budget \<Rightarrow> loop_budget_slice io_result" where
  "slice_create b =
     (case loop_budget_validate b of
        Inl e \<Rightarrow> Inl e
      | Inr _ \<Rightarrow> Inr \<lparr>slice_budget = b, consumed_tasks = 0, consumed_completions = 0,
                      consumed_timers = 0\<rparr>)"

text \<open>\<^verbatim>\<open>consume(limit, consumed)\<close> returns whether a unit was left and the new count.\<close>

definition slice_consume :: "nat \<Rightarrow> nat \<Rightarrow> bool \<times> nat" where
  "slice_consume limit consumed =
     (if consumed \<ge> limit then (False, consumed) else (True, consumed + 1))"

definition slice_remaining :: "nat \<Rightarrow> nat \<Rightarrow> nat" where
  "slice_remaining limit consumed = (if consumed \<ge> limit then 0 else limit - consumed)"

definition consume_task :: "loop_budget_slice \<Rightarrow> bool \<times> loop_budget_slice" where
  "consume_task s =
     (let (ok, n) = slice_consume (task_budget (slice_budget s)) (consumed_tasks s)
      in (ok, s\<lparr>consumed_tasks := n\<rparr>))"

definition consume_completion :: "loop_budget_slice \<Rightarrow> bool \<times> loop_budget_slice" where
  "consume_completion s =
     (let (ok, n) = slice_consume (completion_budget (slice_budget s)) (consumed_completions s)
      in (ok, s\<lparr>consumed_completions := n\<rparr>))"

definition consume_timer :: "loop_budget_slice \<Rightarrow> bool \<times> loop_budget_slice" where
  "consume_timer s =
     (let (ok, n) = slice_consume (timer_budget (slice_budget s)) (consumed_timers s)
      in (ok, s\<lparr>consumed_timers := n\<rparr>))"

definition remaining_tasks :: "loop_budget_slice \<Rightarrow> nat" where
  "remaining_tasks s = slice_remaining (task_budget (slice_budget s)) (consumed_tasks s)"

definition remaining_completions :: "loop_budget_slice \<Rightarrow> nat" where
  "remaining_completions s =
     slice_remaining (completion_budget (slice_budget s)) (consumed_completions s)"

definition remaining_timers :: "loop_budget_slice \<Rightarrow> nat" where
  "remaining_timers s = slice_remaining (timer_budget (slice_budget s)) (consumed_timers s)"

lemmas slice_defs = slice_consume_def slice_remaining_def consume_task_def consume_completion_def
  consume_timer_def remaining_tasks_def remaining_completions_def remaining_timers_def Let_def

definition slice_inv :: "loop_budget_slice \<Rightarrow> bool" where
  "slice_inv s \<longleftrightarrow>
     consumed_tasks s \<le> task_budget (slice_budget s) \<and>
     consumed_completions s \<le> completion_budget (slice_budget s) \<and>
     consumed_timers s \<le> timer_budget (slice_budget s)"

lemma slice_create_inv [vio_invs]: "slice_create b = Inr s \<Longrightarrow> slice_inv s"
  by (auto simp: slice_create_def slice_inv_def split: sum.splits)

lemma consume_inv [vio_invs]:
  "slice_inv s \<Longrightarrow> slice_inv (snd (consume_task s))"
  "slice_inv s \<Longrightarrow> slice_inv (snd (consume_completion s))"
  "slice_inv s \<Longrightarrow> slice_inv (snd (consume_timer s))"
  by (auto simp: slice_inv_def slice_defs)

lemma slice_create_remaining:
  assumes "slice_create b = Inr s"
  shows "remaining_tasks s = task_budget b" "remaining_timers s = timer_budget b"
    "remaining_completions s = completion_budget b" "0 < task_budget b"
  using assms by (auto simp: slice_create_def loop_budget_validate_def slice_defs
      split: sum.splits if_splits)

lemma consume_task_ok:
  "fst (consume_task s) \<longleftrightarrow> 0 < remaining_tasks s"
  "0 < remaining_tasks s \<Longrightarrow> remaining_tasks (snd (consume_task s)) = remaining_tasks s - 1"
  by (auto simp: slice_defs)

lemma consume_timer_ok:
  "fst (consume_timer s) \<longleftrightarrow> 0 < remaining_timers s"
  "0 < remaining_timers s \<Longrightarrow> remaining_timers (snd (consume_timer s)) = remaining_timers s - 1"
  "\<not> fst (consume_timer s) \<Longrightarrow> snd (consume_timer s) = s"
  by (auto simp: slice_defs)

end
