(* ===== verification/Timer_Heap.thy ===== *)
theory Timer_Heap
  imports Heap_Order Loop_Budget
begin

text \<open>
  \<^verbatim>\<open>include/voris/io/timer.hpp\<close> and \<^verbatim>\<open>src/timer.cpp\<close>: the indexed binary timer heap. The
  vector of entries is a list, the \<^verbatim>\<open>unordered_map\<close> from timer ids to positions a partial
  map. A \<^verbatim>\<open>time_point\<close> (nanoseconds) is only compared here, so it is an \<open>int\<close>; timer and
  owner ids are \<^verbatim>\<open>size_t\<close> counters and stay 64-bit words.
\<close>

section \<open>State\<close>

record timer_handle =
  owner_id :: size_t
  handle_id :: size_t

definition handle_valid :: "timer_handle \<Rightarrow> bool" where
  "handle_valid t \<longleftrightarrow> owner_id t \<noteq> 0 \<and> handle_id t \<noteq> 0"

record timer_entry =
  deadline :: int
  entry_id :: size_t

record timer_heap =
  th_owner_id :: size_t
  th_next_id :: size_t
  th_entries :: "timer_entry list"
  th_indices :: "size_t \<rightharpoonup> nat"

text \<open>
  \<^verbatim>\<open>allocate_owner_id\<close> increments a process-wide atomic, passed explicitly: the function
  returns the id and the new counter.
\<close>

definition allocate_owner_id :: "size_t \<Rightarrow> size_t \<times> size_t" where
  "allocate_owner_id next_owner_id = (next_owner_id, next_owner_id + 1)"

definition th_create :: "size_t \<Rightarrow> timer_heap \<times> size_t" where
  "th_create next_owner_id =
     (let (owner, next_owner_id') = allocate_owner_id next_owner_id
      in (\<lparr>th_owner_id = owner, th_next_id = 1, th_entries = [], th_indices = Map.empty\<rparr>,
          next_owner_id'))"

text \<open>The moved-to heap, the moved-from heap and the owner counter.\<close>

definition th_move_construct ::
  "timer_heap \<Rightarrow> size_t \<Rightarrow> timer_heap \<times> timer_heap \<times> size_t" where
  "th_move_construct other next_owner_id =
     (let (owner, next_owner_id') = allocate_owner_id next_owner_id
      in (other,
          \<lparr>th_owner_id = owner, th_next_id = 1, th_entries = [], th_indices = Map.empty\<rparr>,
          next_owner_id'))"

definition th_move_assign ::
  "bool \<Rightarrow> timer_heap \<Rightarrow> timer_heap \<Rightarrow> size_t \<Rightarrow> timer_heap \<times> timer_heap \<times> size_t" where
  "th_move_assign same_object this other next_owner_id =
     (if same_object then (this, other, next_owner_id)
      else th_move_construct other next_owner_id)"

section \<open>Ordering and exchange\<close>

definition entry_less :: "timer_entry \<Rightarrow> timer_entry \<Rightarrow> bool" where
  "entry_less l r =
     (if deadline l < deadline r then True
      else if deadline r < deadline l then False
      else entry_id l < entry_id r)"

text \<open>\<^verbatim>\<open>indices_.find(id)->second = position\<close>: assigns an existing mapping.\<close>

definition assign_index :: "size_t \<Rightarrow> nat \<Rightarrow> (size_t \<rightharpoonup> nat) \<Rightarrow> (size_t \<rightharpoonup> nat)" where
  "assign_index k i m = (case m k of None \<Rightarrow> m | Some _ \<Rightarrow> m(k \<mapsto> i))"

definition th_swap_entries :: "timer_heap \<Rightarrow> nat \<Rightarrow> nat \<Rightarrow> timer_heap" where
  "th_swap_entries h lhs rhs =
     (if lhs = rhs then h
      else let es = swap_at (th_entries h) lhs rhs
           in h\<lparr>th_entries := es,
                th_indices := assign_index (entry_id (es ! rhs)) rhs
                  (assign_index (entry_id (es ! lhs)) lhs (th_indices h))\<rparr>)"

lemma th_swap_entries_length [simp]:
  "length (th_entries (th_swap_entries h i j)) = length (th_entries h)"
  by (simp add: th_swap_entries_def Let_def)

fun th_sift_up :: "timer_heap \<Rightarrow> nat \<Rightarrow> timer_heap" where
  "th_sift_up h index =
     (if index > 0 then
        (let p = parent index
         in if \<not> entry_less (th_entries h ! index) (th_entries h ! p) then h
            else th_sift_up (th_swap_entries h index p) p)
      else h)"

function th_sift_down :: "timer_heap \<Rightarrow> nat \<Rightarrow> timer_heap" where
  "th_sift_down h index =
     (let count = length (th_entries h); left = index * 2 + 1
      in if left \<ge> count then h
         else
           (let right = left + 1;
                smallest = (if right < count \<and>
                    entry_less (th_entries h ! right) (th_entries h ! left)
                  then right else left)
            in if \<not> entry_less (th_entries h ! smallest) (th_entries h ! index) then h
               else th_sift_down (th_swap_entries h index smallest) smallest))"
  by pat_completeness auto
termination
  by (relation "measure (\<lambda>(h, index). length (th_entries h) - index)") (auto simp: Let_def)

declare th_sift_up.simps [simp del] th_sift_down.simps [simp del]

definition th_repair_at :: "timer_heap \<Rightarrow> nat \<Rightarrow> timer_heap" where
  "th_repair_at h index =
     (if index \<ge> length (th_entries h) then h
      else if index > 0 \<and> entry_less (th_entries h ! index) (th_entries h ! parent index)
      then th_sift_up h index
      else th_sift_down h index)"

definition th_erase_at :: "timer_heap \<Rightarrow> nat \<Rightarrow> timer_heap" where
  "th_erase_at h index =
     (let removed_id = entry_id (th_entries h ! index);
          last_index = length (th_entries h) - 1;
          h1 = (if index \<noteq> last_index then th_swap_entries h index last_index else h)
      in th_repair_at
           (h1\<lparr>th_indices := (th_indices h1)(removed_id := None),
               th_entries := butlast (th_entries h1)\<rparr>) index)"

section \<open>Lengths, frames and the multiset of entries\<close>

lemma th_swap_entries_frame [simp]:
  "th_owner_id (th_swap_entries h i j) = th_owner_id h"
  "th_next_id (th_swap_entries h i j) = th_next_id h"
  by (simp_all add: th_swap_entries_def Let_def)

lemma th_swap_entries_mset:
  "i < length (th_entries h) \<Longrightarrow> j < length (th_entries h) \<Longrightarrow>
   mset (th_entries (th_swap_entries h i j)) = mset (th_entries h)"
  by (simp add: th_swap_entries_def Let_def)

lemma th_sift_up_frame [simp]:
  "th_owner_id (th_sift_up h i) = th_owner_id h \<and> th_next_id (th_sift_up h i) = th_next_id h \<and>
   length (th_entries (th_sift_up h i)) = length (th_entries h)"
  by (induction h i rule: th_sift_up.induct) (subst (1 2 3) th_sift_up.simps, simp add: Let_def)

lemma th_sift_down_frame [simp]:
  "th_owner_id (th_sift_down h i) = th_owner_id h \<and>
   th_next_id (th_sift_down h i) = th_next_id h \<and>
   length (th_entries (th_sift_down h i)) = length (th_entries h)"
  by (induction h i rule: th_sift_down.induct)
    (subst (1 2 3) th_sift_down.simps, simp add: Let_def)

lemma th_repair_at_frame [simp]:
  "th_owner_id (th_repair_at h i) = th_owner_id h"
  "th_next_id (th_repair_at h i) = th_next_id h"
  "length (th_entries (th_repair_at h i)) = length (th_entries h)"
  by (simp_all add: th_repair_at_def)

lemma th_erase_at_frame [simp]:
  "th_owner_id (th_erase_at h i) = th_owner_id h"
  "th_next_id (th_erase_at h i) = th_next_id h"
  "length (th_entries (th_erase_at h i)) = length (th_entries h) - 1"
  by (simp_all add: th_erase_at_def Let_def)

section \<open>Operations\<close>

text \<open>
  \<^verbatim>\<open>add\<close> may fail to allocate: \<open>push_ok\<close> and \<open>emplace_ok\<close> say whether \<^verbatim>\<open>push_back\<close> and
  \<^verbatim>\<open>emplace\<close> succeed. A failure is the result \<open>None\<close> (the exception leaves \<^verbatim>\<open>add\<close>), after the
  rollback in the \<^verbatim>\<open>catch\<close> block. \<^verbatim>\<open>emplace\<close> does nothing when the key is present.
\<close>

definition th_add :: "bool \<Rightarrow> bool \<Rightarrow> int \<Rightarrow> timer_heap \<Rightarrow> timer_handle option \<times> timer_heap" where
  "th_add push_ok emplace_ok d h =
     (let handle = \<lparr>owner_id = th_owner_id h, handle_id = th_next_id h\<rparr>;
          h0 = h\<lparr>th_next_id := th_next_id h + 1\<rparr>;
          index = length (th_entries h0)
      in if \<not> push_ok then (None, h0)
         else
           (let h1 = h0\<lparr>th_entries :=
                  th_entries h0 @ [\<lparr>deadline = d, entry_id = handle_id handle\<rparr>]\<rparr>
            in if \<not> emplace_ok then (None, h1\<lparr>th_entries := butlast (th_entries h1)\<rparr>)
               else
                 (let h2 = (case th_indices h1 (handle_id handle) of
                        None \<Rightarrow> h1\<lparr>th_indices := (th_indices h1)(handle_id handle \<mapsto> index)\<rparr>
                      | Some _ \<Rightarrow> h1)
                  in (Some handle, th_sift_up h2 index))))"

definition th_cancel :: "timer_handle \<Rightarrow> timer_heap \<Rightarrow> bool \<times> timer_heap" where
  "th_cancel handle h =
     (if \<not> handle_valid handle \<or> owner_id handle \<noteq> th_owner_id h then (False, h)
      else case th_indices h (handle_id handle) of
             None \<Rightarrow> (False, h)
           | Some index \<Rightarrow> (True, th_erase_at h index))"

function th_pop_deadline_batch ::
  "timer_heap \<Rightarrow> int \<Rightarrow> timer_handle list \<Rightarrow> timer_handle list \<times> timer_heap" where
  "th_pop_deadline_batch h d ready =
     (case th_entries h of
        [] \<Rightarrow> (ready, h)
      | e # _ \<Rightarrow>
          if deadline e = d
          then th_pop_deadline_batch (th_erase_at h 0) d
                 (ready @ [\<lparr>owner_id = th_owner_id h, handle_id = entry_id e\<rparr>])
          else (ready, h))"
  by pat_completeness auto
termination
  by (relation "measure (\<lambda>(h, _, _). length (th_entries h))") auto

declare th_pop_deadline_batch.simps [simp del]

section \<open>Planning the ready batches\<close>

record ready_batch_plan =
  batch_count :: nat
  timer_count :: nat

definition current_deadline_batch_size :: "timer_entry list \<Rightarrow> int \<Rightarrow> nat" where
  "current_deadline_batch_size es d =
     fold (\<lambda>e count. if deadline e = d then count + 1 else count) es 0"

definition next_ready_deadline_after :: "timer_entry list \<Rightarrow> int \<Rightarrow> int \<Rightarrow> int option" where
  "next_ready_deadline_after es d now =
     fold (\<lambda>e next_deadline.
         if d < deadline e \<and> deadline e \<le> now \<and>
            (next_deadline = None \<or> deadline e < the next_deadline)
         then Some (deadline e) else next_deadline) es None"

function plan_loop ::
  "timer_entry list \<Rightarrow> int \<Rightarrow> nat \<Rightarrow> int \<Rightarrow> ready_batch_plan \<Rightarrow> ready_batch_plan" where
  "plan_loop es now max_batches d plan =
     (if batch_count plan < max_batches then
        (let batch_size = current_deadline_batch_size es d
         in if batch_size = 0 then plan
            else
              (let plan' = plan\<lparr>timer_count := timer_count plan + batch_size,
                                batch_count := batch_count plan + 1\<rparr>
               in case next_ready_deadline_after es d now of
                    None \<Rightarrow> plan'
                  | Some d' \<Rightarrow> plan_loop es now max_batches d' plan'))
      else plan)"
  by pat_completeness auto
termination
  by (relation "measure (\<lambda>(_, _, m, _, plan). m - batch_count plan)") auto

declare plan_loop.simps [simp del]

definition plan_ready_batches :: "timer_heap \<Rightarrow> int \<Rightarrow> nat \<Rightarrow> ready_batch_plan" where
  "plan_ready_batches h now max_batches =
     (let plan = \<lparr>batch_count = 0, timer_count = 0\<rparr>
      in if max_batches = 0 \<or> th_entries h = [] \<or> now < deadline (hd (th_entries h)) then plan
         else plan_loop (th_entries h) now max_batches (deadline (hd (th_entries h))) plan)"

text \<open>
  The two \<^verbatim>\<open>for\<close> loops over the planned batches. \<^verbatim>\<open>entries_.front()\<close> needs an entry; the plan
  never asks for more batches than there are, so the empty branch is not reached.
\<close>

fun th_pop_batches ::
  "nat \<Rightarrow> timer_heap \<Rightarrow> timer_handle list \<Rightarrow> timer_handle list \<times> timer_heap" where
  "th_pop_batches 0 h ready = (ready, h)"
| "th_pop_batches (Suc n) h ready =
     (case th_entries h of
        [] \<Rightarrow> (ready, h)
      | e # _ \<Rightarrow>
          (let (ready', h') = th_pop_deadline_batch h (deadline e) ready
           in th_pop_batches n h' ready'))"

definition th_pop_ready :: "int \<Rightarrow> timer_heap \<Rightarrow> timer_handle list \<times> timer_heap" where
  "th_pop_ready now h =
     (let plan = plan_ready_batches h now (length (th_entries h))
      in th_pop_batches (batch_count plan) h [])"

fun th_pop_batches_budget ::
  "nat \<Rightarrow> loop_budget_slice \<Rightarrow> timer_heap \<Rightarrow> timer_handle list \<Rightarrow>
     timer_handle list \<times> loop_budget_slice \<times> timer_heap" where
  "th_pop_batches_budget 0 budget h ready = (ready, budget, h)"
| "th_pop_batches_budget (Suc n) budget h ready =
     (case consume_timer budget of
        (False, budget') \<Rightarrow> (ready, budget', h)
      | (True, budget') \<Rightarrow>
          (case th_entries h of
             [] \<Rightarrow> (ready, budget', h)
           | e # _ \<Rightarrow>
               (let (ready', h') = th_pop_deadline_batch h (deadline e) ready
                in th_pop_batches_budget n budget' h' ready')))"

definition th_pop_ready_budget ::
  "int \<Rightarrow> loop_budget_slice \<Rightarrow> timer_heap \<Rightarrow>
     timer_handle list \<times> loop_budget_slice \<times> timer_heap" where
  "th_pop_ready_budget now budget h =
     (let plan = plan_ready_batches h now (remaining_timers budget)
      in th_pop_batches_budget (batch_count plan) budget h [])"

definition th_next_deadline :: "timer_heap \<Rightarrow> int option" where
  "th_next_deadline h = (case th_entries h of [] \<Rightarrow> None | e # _ \<Rightarrow> Some (deadline e))"

definition th_size :: "timer_heap \<Rightarrow> nat" where
  "th_size h = length (th_entries h)"

end
