(* ===== verification/Timer_Heap_Correct.thy ===== *)
theory Timer_Heap_Correct
  imports Timer_Heap
begin

text \<open>
  Correctness of the timer heap: the structural invariant (heap order, and an index map
  that names each entry's position), its preservation by every operation, and the
  refinement to the sorted list of live timers.
\<close>

section \<open>Invariant\<close>

definition entry_key :: "timer_entry \<Rightarrow> int \<times> size_t" where
  "entry_key e = (deadline e, entry_id e)"

abbreviation th_keys :: "timer_heap \<Rightarrow> (int \<times> size_t) list" where
  "th_keys h \<equiv> map entry_key (th_entries h)"

definition index_ok :: "timer_entry list \<Rightarrow> (size_t \<rightharpoonup> nat) \<Rightarrow> bool" where
  "index_ok es m \<longleftrightarrow> (\<forall>i<length es. m (entry_id (es ! i)) = Some i) \<and>
     (\<forall>k i. m k = Some i \<longrightarrow> i < length es \<and> entry_id (es ! i) = k)"

definition th_inv :: "timer_heap \<Rightarrow> bool" where
  "th_inv h \<longleftrightarrow> is_heap (th_keys h) \<and> index_ok (th_entries h) (th_indices h) \<and>
     th_next_id h \<noteq> 0 \<and> (\<forall>e\<in>set (th_entries h). entry_id e \<noteq> 0 \<and> entry_id e < th_next_id h)"

lemma entry_less_key: "entry_less a b \<longleftrightarrow> entry_key a < entry_key b"
  by (auto simp: entry_less_def entry_key_def less_prod_def)

lemma index_ok_distinct:
  assumes "index_ok es m"
  shows "distinct (map entry_id es)"
proof -
  have "i = j" if "i < length es" "j < length es" "entry_id (es ! i) = entry_id (es ! j)" for i j
    using that assms unfolding index_ok_def by (metis option.inject)
  then show ?thesis by (auto simp: distinct_conv_nth)
qed

lemma index_ok_live:
  assumes "index_ok es m" and "k \<in> entry_id ` set es"
  shows "m k \<noteq> None"
proof -
  obtain e where "e \<in> set es" and k: "k = entry_id e" using assms(2) by blast
  then obtain i where "i < length es" "es ! i = e" by (auto simp: in_set_conv_nth)
  then have "m k = Some i" using assms(1) unfolding index_ok_def k by blast
  then show ?thesis by simp
qed

lemma keys_distinct: "distinct (map entry_id es) \<Longrightarrow> distinct (map entry_key es)"
  by (auto simp: distinct_map inj_on_def entry_key_def)

section \<open>Exchange\<close>

lemma th_swap_entries_entries:
  "i < length (th_entries h) \<Longrightarrow> j < length (th_entries h) \<Longrightarrow>
   th_entries (th_swap_entries h i j) = swap_at (th_entries h) i j"
  by (auto simp: th_swap_entries_def Let_def swap_at_def)

lemma th_swap_entries_keys:
  "i < length (th_entries h) \<Longrightarrow> j < length (th_entries h) \<Longrightarrow>
   th_keys (th_swap_entries h i j) = swap_at (th_keys h) i j"
  by (simp add: th_swap_entries_entries swap_at_map)

lemma th_swap_entries_index_ok:
  assumes ok: "index_ok (th_entries h) (th_indices h)"
    and i: "i < length (th_entries h)" and j: "j < length (th_entries h)"
  shows "index_ok (th_entries (th_swap_entries h i j)) (th_indices (th_swap_entries h i j))"
proof (cases "i = j")
  case True
  then show ?thesis using ok by (simp add: th_swap_entries_def)
next
  case False
  let ?es = "th_entries h" and ?m = "th_indices h"
  note sw = swap_at_nth [OF i j]
  have m: "\<And>k. k < length ?es \<Longrightarrow> ?m (entry_id (?es ! k)) = Some k"
    and m': "\<And>k n. ?m k = Some n \<Longrightarrow> n < length ?es \<and> entry_id (?es ! n) = k"
    using ok by (auto simp: index_ok_def)
  have neq: "entry_id (?es ! a) \<noteq> entry_id (?es ! b)"
    if "a < length ?es" "b < length ?es" "a \<noteq> b" for a b
    using m [OF that(1)] m [OF that(2)] that(3) by auto
  have ind: "th_indices (th_swap_entries h i j) =
      ?m(entry_id (?es ! j) \<mapsto> i, entry_id (?es ! i) \<mapsto> j)"
    using False i j m neq [OF i j False]
    by (simp add: th_swap_entries_def Let_def assign_index_def sw)
  show ?thesis
    unfolding index_ok_def ind th_swap_entries_entries [OF i j] swap_at_length
  proof (intro conjI allI impI)
    fix k assume "k < length ?es"
    then show "(?m(entry_id (?es ! j) \<mapsto> i, entry_id (?es ! i) \<mapsto> j))
        (entry_id (swap_at ?es i j ! k)) = Some k"
      using False i j m neq by (auto simp: sw)
  next
    fix k n assume "(?m(entry_id (?es ! j) \<mapsto> i, entry_id (?es ! i) \<mapsto> j)) k = Some n"
    then show "n < length ?es" and "entry_id (swap_at ?es i j ! n) = k"
      using False i j m m' neq [of _ i] neq [of _ j]
      by (auto simp: swap_at_nth split: if_splits)
  qed
qed

lemmas swap_lemmas = th_swap_entries_keys th_swap_entries_index_ok th_swap_entries_mset

section \<open>Sifting\<close>

lemma th_sift_up_correct:
  assumes "heap_up (th_keys h) i" and "index_ok (th_entries h) (th_indices h)"
    and "i < length (th_entries h)"
  shows "is_heap (th_keys (th_sift_up h i)) \<and>
    index_ok (th_entries (th_sift_up h i)) (th_indices (th_sift_up h i)) \<and>
    mset (th_entries (th_sift_up h i)) = mset (th_entries h)"
  using assms
proof (induction h i rule: th_sift_up.induct)
  case (1 h i)
  show ?case
  proof (cases "0 < i \<and> entry_less (th_entries h ! i) (th_entries h ! parent i)")
    case True
    then have p: "parent i < length (th_entries h)" and
      lt: "th_keys h ! i < th_keys h ! parent i"
      using "1.prems"(3) by (simp_all add: entry_less_key)
    have "heap_up (th_keys (th_swap_entries h i (parent i))) (parent i)"
      using heap_up_step [OF "1.prems"(1) _ _ lt] "1.prems"(3) True p
      by (simp add: th_swap_entries_keys)
    then show ?thesis
      using "1.IH" [OF _ refl] True p "1.prems"(2,3)
      by (simp add: th_sift_up.simps [of h i] Let_def swap_lemmas)
  next
    case False
    then have "i = 0 \<or> th_keys h ! parent i \<le> th_keys h ! i"
      using "1.prems"(3) by (cases "i = 0") (simp_all add: entry_less_key not_less)
    then show ?thesis
      using heap_up_done [OF "1.prems"(1)] "1.prems"(2) False
      by (auto simp: th_sift_up.simps [of h i] Let_def)
  qed
qed

lemma th_sift_down_correct:
  assumes "heap_down (th_keys h) i" and "index_ok (th_entries h) (th_indices h)"
    and "i < length (th_entries h)"
  shows "is_heap (th_keys (th_sift_down h i)) \<and>
    index_ok (th_entries (th_sift_down h i)) (th_indices (th_sift_down h i)) \<and>
    mset (th_entries (th_sift_down h i)) = mset (th_entries h)"
  using assms
proof (induction h i rule: th_sift_down.induct)
  case (1 h i)
  let ?n = "length (th_entries h)" and ?l = "i * 2 + 1"
  define c where "c = (if ?l + 1 < ?n \<and> entry_less (th_entries h ! (?l + 1)) (th_entries h ! ?l)
    then ?l + 1 else ?l)"
  show ?case
  proof (cases "?l < ?n \<and> entry_less (th_entries h ! c) (th_entries h ! i)")
    case True
    then have c: "c < ?n" "0 < c" "parent c = i"
      by (auto simp: c_def parent_def)
    have lt: "th_keys h ! c < th_keys h ! i"
      using True c "1.prems"(3) by (simp add: entry_less_key)
    have least: "th_keys h ! c \<le> th_keys h ! d" if "d < ?n" "0 < d" "parent d = i" for d
      using parent_eqD [OF that(3,2)] that(1) True
      by (auto simp: c_def entry_less_key mult.commute)
    have "heap_down (th_keys (th_swap_entries h i c)) c"
      using heap_down_step [OF "1.prems"(1), of c] c lt least "1.prems"(3)
      by (simp add: th_swap_entries_keys)
    moreover have "th_sift_down h i = th_sift_down (th_swap_entries h i c) c"
      using True unfolding c_def by (subst th_sift_down.simps) (auto simp: Let_def)
    ultimately show ?thesis
      using "1.IH" [OF refl refl _ refl c_def] True c "1.prems"(2,3) by (simp add: swap_lemmas)
  next
    case False
    have "th_keys h ! i \<le> th_keys h ! d" if "d < ?n" "0 < d" "parent d = i" for d
      using parent_eqD [OF that(3,2)] that(1) False "1.prems"(3)
      by (auto simp: c_def entry_less_key mult.commute not_less split: if_splits)
    then have "is_heap (th_keys h)"
      using heap_down_done [OF "1.prems"(1)] by simp
    moreover have "th_sift_down h i = h"
      using False by (auto simp: th_sift_down.simps [of h i] Let_def c_def)
    ultimately show ?thesis using "1.prems"(2) by simp
  qed
qed

section \<open>Erasing and adding\<close>

lemma th_repair_at_correct:
  assumes ok: "index_ok (th_entries h) (th_indices h)"
    and hole: "i < length (th_entries h) \<Longrightarrow> heap_hole (th_keys h) i"
    and whole: "length (th_entries h) \<le> i \<Longrightarrow> is_heap (th_keys h)"
  shows "is_heap (th_keys (th_repair_at h i)) \<and>
    index_ok (th_entries (th_repair_at h i)) (th_indices (th_repair_at h i)) \<and>
    mset (th_entries (th_repair_at h i)) = mset (th_entries h)"
proof (cases "i < length (th_entries h)")
  case False
  then show ?thesis using ok whole by (simp add: th_repair_at_def)
next
  case True
  note hole = hole [OF True]
  show ?thesis
  proof (cases "0 < i \<and> entry_less (th_entries h ! i) (th_entries h ! parent i)")
    case up: True
    then have "heap_up (th_keys h) i"
      using True by (intro heap_hole_up [OF hole]) (simp_all add: entry_less_key)
    from th_sift_up_correct [OF this ok True] show ?thesis
      using up True by (simp add: th_repair_at_def)
  next
    case down: False
    then have "heap_down (th_keys h) i"
      using True by (intro heap_hole_down [OF hole], cases "i = 0")
        (simp_all add: entry_less_key not_less)
    from th_sift_down_correct [OF this ok True] show ?thesis
      using down True by (auto simp: th_repair_at_def)
  qed
qed

lemma index_ok_butlast:
  assumes "index_ok es m" and "es \<noteq> []"
  shows "index_ok (butlast es) (m(entry_id (last es) := None))"
proof -
  have len: "length es - 1 < length es" and last: "last es = es ! (length es - 1)"
    using assms(2) by (simp_all add: last_conv_nth)
  have m: "\<And>k. k < length es \<Longrightarrow> m (entry_id (es ! k)) = Some k"
    and m': "\<And>k n. m k = Some n \<Longrightarrow> n < length es \<and> entry_id (es ! n) = k"
    using assms(1) by (auto simp: index_ok_def)
  show ?thesis
    unfolding index_ok_def
  proof (intro conjI allI impI)
    fix i assume i: "i < length (butlast es)"
    then have "entry_id (es ! i) \<noteq> entry_id (last es)"
      using m [of i] m [OF len] i len unfolding last by auto
    then show "(m(entry_id (last es) := None)) (entry_id (butlast es ! i)) = Some i"
      using i m [of i] by (simp add: nth_butlast)
  next
    fix k n assume "(m(entry_id (last es) := None)) k = Some n"
    then have "m k = Some n" "k \<noteq> entry_id (last es)" by (auto split: if_splits)
    then have "n < length es" "entry_id (es ! n) = k" "n \<noteq> length es - 1"
      using m' [of k n] by (auto simp: last)
    then have "n < length es - 1" "entry_id (es ! n) = k" by linarith+
    then show "n < length (butlast es)" and "entry_id (butlast es ! n) = k"
      by (simp_all add: nth_butlast)
  qed
qed

lemma index_ok_append:
  assumes "index_ok es m" and "m (entry_id e) = None"
  shows "index_ok (es @ [e]) (m(entry_id e \<mapsto> length es))"
proof -
  have m: "\<And>k. k < length es \<Longrightarrow> m (entry_id (es ! k)) = Some k"
    and m': "\<And>k n. m k = Some n \<Longrightarrow> n < length es \<and> entry_id (es ! n) = k"
    using assms(1) by (auto simp: index_ok_def)
  have "entry_id (es ! k) \<noteq> entry_id e" if "k < length es" for k
    using m [OF that] assms(2) by auto
  then show ?thesis
    using m by (auto simp: index_ok_def nth_append less_Suc_eq dest!: m')
qed

text \<open>The state in which \<^verbatim>\<open>erase_at\<close> calls \<^verbatim>\<open>repair_at\<close>.\<close>

lemma th_erase_at_swap:
  assumes "i < length (th_entries h)"
  shows "th_erase_at h i =
    (let h1 = th_swap_entries h i (length (th_entries h) - 1)
     in th_repair_at (h1\<lparr>th_indices := (th_indices h1)(entry_id (last (th_entries h1)) := None),
          th_entries := butlast (th_entries h1)\<rparr>) i)"
proof -
  let ?n = "length (th_entries h) - 1"
  have n: "?n < length (th_entries h)" using assms by simp
  have "last (th_entries (th_swap_entries h i ?n)) = th_entries h ! i"
    using assms n by (subst last_conv_nth)
      (auto simp: th_swap_entries_entries swap_at_nth simp flip: length_greater_0_conv)
  then show ?thesis
    by (simp add: th_erase_at_def Let_def) (simp add: th_swap_entries_def)
qed

lemma mset_butlast_minus: "xs \<noteq> [] \<Longrightarrow> mset (butlast xs) = mset xs - {#last xs#}"
  by (induction xs rule: rev_induct) simp_all

lemma th_erase_at_correct:
  assumes "is_heap (th_keys h)" and ok: "index_ok (th_entries h) (th_indices h)"
    and i: "i < length (th_entries h)"
  shows "is_heap (th_keys (th_erase_at h i)) \<and>
    index_ok (th_entries (th_erase_at h i)) (th_indices (th_erase_at h i)) \<and>
    mset (th_entries (th_erase_at h i)) = mset (th_entries h) - {#th_entries h ! i#}"
proof -
  let ?n = "length (th_entries h) - 1"
  define h1 where "h1 = th_swap_entries h i ?n"
  define h2 where "h2 = h1\<lparr>th_indices := (th_indices h1)(entry_id (last (th_entries h1)) := None),
    th_entries := butlast (th_entries h1)\<rparr>"
  have n: "?n < length (th_entries h)" using i by simp
  have es1: "th_entries h1 = swap_at (th_entries h) i ?n" "th_entries h1 \<noteq> []"
    using i n unfolding h1_def
    by (simp_all add: th_swap_entries_entries flip: length_greater_0_conv)
  have last1: "last (th_entries h1) = th_entries h ! i"
    using es1 i n by (simp add: last_conv_nth swap_at_nth)
  have erase: "th_erase_at h i = th_repair_at h2 i"
    unfolding th_erase_at_swap [OF i] h1_def [symmetric] by (simp add: Let_def h2_def)
  have ok2: "index_ok (th_entries h2) (th_indices h2)"
    using index_ok_butlast [OF th_swap_entries_index_ok [OF ok i n]] es1(2)
    by (simp add: h2_def h1_def)
  have keys2: "th_keys h2 = butlast (swap_at (th_keys h) i (length (th_keys h) - 1))"
    using es1(1) i n by (simp add: h2_def map_butlast swap_at_map)
  have hole: "heap_hole (th_keys h2) i"
    unfolding keys2 using assms(1) i by (intro is_heap_erase_hole) simp_all
  have whole: "is_heap (th_keys h2)" if "length (th_entries h2) \<le> i"
  proof -
    have "i = ?n" using that i es1(1) by (simp add: h2_def)
    then show ?thesis
      using is_heap_butlast [OF assms(1)] unfolding keys2 by (simp add: swap_at_same)
  qed
  have "mset (th_entries h2) = mset (th_entries h) - {#th_entries h ! i#}"
    using es1 last1 i n by (simp add: h2_def mset_butlast_minus)
  then show ?thesis
    using th_repair_at_correct [OF ok2 hole whole] unfolding erase by simp
qed

lemma th_inv_erase_at [vio_invs]:
  assumes "th_inv h" and "i < length (th_entries h)"
  shows "th_inv (th_erase_at h i)"
proof -
  have "set (th_entries (th_erase_at h i)) \<subseteq> set (th_entries h)"
    using th_erase_at_correct [of h i] assms
    by (metis diff_subset_eq_self mset_subset_eqD set_mset_mset subsetI th_inv_def)
  then show ?thesis
    using th_erase_at_correct [of h i] assms by (auto simp: th_inv_def)
qed

lemma th_inv_create [vio_invs]: "th_inv (fst (th_create n))"
  by (simp add: th_create_def allocate_owner_id_def th_inv_def is_heap_def index_ok_def)

lemma th_add_ok_correct:
  assumes inv: "th_inv h" and fresh: "th_next_id h \<noteq> - 1"
    and add: "th_add True True d h = (r, h')"
  shows "th_inv h' \<and> r = Some \<lparr>owner_id = th_owner_id h, handle_id = th_next_id h\<rparr> \<and>
    mset (th_entries h') = add_mset \<lparr>deadline = d, entry_id = th_next_id h\<rparr> (mset (th_entries h)) \<and>
    th_owner_id h' = th_owner_id h \<and> th_next_id h' = th_next_id h + 1"
proof -
  let ?e = "\<lparr>deadline = d, entry_id = th_next_id h\<rparr>" and ?n = "length (th_entries h)"
  define h2 where "h2 = h\<lparr>th_next_id := th_next_id h + 1, th_entries := th_entries h @ [?e],
    th_indices := (th_indices h)(th_next_id h \<mapsto> ?n)\<rparr>"
  have new: "th_indices h (th_next_id h) = None"
    using inv unfolding th_inv_def index_ok_def
    by (metis less_irrefl not_None_eq nth_mem)
  have h': "h' = th_sift_up h2 ?n" "r = Some \<lparr>owner_id = th_owner_id h, handle_id = th_next_id h\<rparr>"
    using add new by (simp_all add: th_add_def Let_def h2_def)
  have ok: "index_ok (th_entries h2) (th_indices h2)"
    using inv new index_ok_append [of "th_entries h" "th_indices h" ?e]
    by (simp add: th_inv_def h2_def)
  have "heap_up (th_keys h2) ?n"
    using inv heap_up_append [of "th_keys h"] by (simp add: th_inv_def h2_def)
  from th_sift_up_correct [OF this ok]
  have up: "is_heap (th_keys h')" "index_ok (th_entries h') (th_indices h')"
    "mset (th_entries h') = mset (th_entries h2)"
    by (simp_all add: h2_def h')
  have "entry_id e \<noteq> 0 \<and> entry_id e < th_next_id h + 1" if "e \<in> set (th_entries h')" for e
  proof -
    have "e \<in> set (th_entries h2)" using that up(3) by (metis set_mset_mset)
    then show ?thesis
      using inv word_add_one_gt [OF fresh]
      by (auto simp: h2_def th_inv_def intro: less_trans)
  qed
  moreover have "th_next_id h + 1 \<noteq> 0"
    using word_add_one_gt [OF fresh] by auto
  ultimately show ?thesis
    using up by (simp add: th_inv_def h' h2_def)
qed

section \<open>Refinement to the sorted list of live timers\<close>

definition th_timers :: "timer_heap \<Rightarrow> (int \<times> size_t) list" where
  "th_timers h = sorted_list_of_set (set (th_keys h))"

definition mk_handle :: "size_t \<Rightarrow> int \<times> size_t \<Rightarrow> timer_handle" where
  "mk_handle owner k = \<lparr>owner_id = owner, handle_id = snd k\<rparr>"

lemma th_timers_set [simp]: "set (th_timers h) = set (th_keys h)"
  by (simp add: th_timers_def)

lemma th_timers_sorted [simp]: "sorted (th_timers h)" "distinct (th_timers h)"
  by (simp_all add: th_timers_def)

lemma th_inv_distinct_keys: "th_inv h \<Longrightarrow> distinct (th_keys h)"
  using keys_distinct index_ok_distinct by (auto simp: th_inv_def)

lemma th_timers_length: "th_inv h \<Longrightarrow> length (th_timers h) = th_size h"
  by (simp add: th_timers_def th_size_def distinct_card [OF th_inv_distinct_keys, simplified])

lemma th_timers_erase:
  assumes "th_inv h" and "i < length (th_entries h)"
  shows "th_timers (th_erase_at h i) = remove1 (entry_key (th_entries h ! i)) (th_timers h)"
proof -
  let ?k = "entry_key (th_entries h ! i)"
  have "mset (th_keys (th_erase_at h i)) = mset (th_keys h) - {#?k#}"
    using th_erase_at_correct [of h i] assms nth_mem [OF assms(2)]
    by (simp add: th_inv_def image_mset_Diff del: nth_mem)
  then have "set (th_keys (th_erase_at h i)) = set (remove1 ?k (th_keys h))"
    by (metis mset_remove1 set_mset_mset)
  then show ?thesis
    using th_inv_distinct_keys [OF assms(1)]
    by (simp add: th_timers_def set_remove1_eq sorted_list_of_set_remove)
qed

lemma th_front_least:
  assumes "th_inv h" and "th_entries h = e # es"
  shows "entry_key e = Min (set (th_keys h))"
proof (rule Min_eqI [symmetric])
  fix k assume "k \<in> set (th_keys h)"
  then obtain i where "i < length (th_keys h)" "k = th_keys h ! i"
    by (metis in_set_conv_nth)
  then show "entry_key e \<le> k"
    using is_heap_root_least [of "th_keys h" i] assms by (simp add: th_inv_def)
qed (simp_all add: assms)

lemma th_timers_front:
  assumes "th_inv h" and "th_entries h = e # es"
  shows "th_timers h = entry_key e # th_timers (th_erase_at h 0)"
proof -
  have ne: "set (th_keys h) \<noteq> {}" using assms(2) by simp
  have "th_timers h = entry_key e # sorted_list_of_set (set (th_keys h) - {entry_key e})"
    using sorted_list_of_set_nonempty [OF _ ne] th_front_least [OF assms]
    by (simp add: th_timers_def)
  moreover have "th_timers (th_erase_at h 0) =
      sorted_list_of_set (set (th_keys h) - {entry_key e})"
    using th_timers_erase [OF assms(1), of 0] assms(2)
    by (simp add: th_timers_def [of h] sorted_list_of_set_remove)
  ultimately show ?thesis by (simp only:)
qed

lemma th_timers_Nil: "th_timers h = [] \<longleftrightarrow> th_entries h = []"
  by (simp add: th_timers_def)

lemma th_pop_deadline_batch_correct:
  assumes "th_inv h"
  shows "\<exists>h'. th_pop_deadline_batch h d ready =
      (ready @ map (mk_handle (th_owner_id h)) (takeWhile (\<lambda>k. fst k = d) (th_timers h)), h') \<and>
    th_inv h' \<and> th_timers h' = dropWhile (\<lambda>k. fst k = d) (th_timers h) \<and>
    th_owner_id h' = th_owner_id h \<and> th_next_id h' = th_next_id h"
  using assms
proof (induction h d ready rule: th_pop_deadline_batch.induct)
  case (1 h d ready)
  show ?case
  proof (cases "th_entries h")
    case Nil
    then show ?thesis
      using "1.prems" th_timers_Nil [of h] by (simp add: th_pop_deadline_batch.simps [of h])
  next
    case (Cons e es)
    note front = th_timers_front [OF "1.prems" Cons]
    show ?thesis
    proof (cases "deadline e = d")
      case True
      then show ?thesis
        using "1.IH" [OF Cons True] th_inv_erase_at [OF "1.prems", of 0] Cons front
        by (auto simp: th_pop_deadline_batch.simps [of h] entry_key_def mk_handle_def)
    next
      case False
      then show ?thesis
        using "1.prems" Cons front
        by (simp add: th_pop_deadline_batch.simps [of h] entry_key_def)
    qed
  qed
qed

section \<open>The plan\<close>

abbreviation deadlines :: "timer_entry list \<Rightarrow> int set" where
  "deadlines es \<equiv> deadline ` set es"

lemma batch_size_count:
  "current_deadline_batch_size es d = length (filter (\<lambda>e. deadline e = d) es)"
proof -
  have "fold (\<lambda>e count. if deadline e = d then count + 1 else count) es n =
      n + length (filter (\<lambda>e. deadline e = d) es)" for n
    by (induction es arbitrary: n) simp_all
  then show ?thesis by (simp add: current_deadline_batch_size_def)
qed

lemma batch_size_pos: "0 < current_deadline_batch_size es d \<longleftrightarrow> d \<in> deadlines es"
  by (auto simp: batch_size_count filter_empty_conv)

lemma next_ready_deadline_spec:
  "case next_ready_deadline_after es d now of
     None \<Rightarrow> {x \<in> deadlines es. d < x \<and> x \<le> now} = {}
   | Some x \<Rightarrow> x \<in> deadlines es \<and> d < x \<and> x \<le> now \<and>
       (\<forall>y\<in>deadlines es. d < y \<longrightarrow> y \<le> now \<longrightarrow> x \<le> y)"
  unfolding next_ready_deadline_after_def
  by (induction es rule: rev_induct) (auto split: option.splits if_splits)

lemma plan_loop_count:
  assumes "d \<in> deadlines es" and "d \<le> now" and "batch_count plan \<le> max_batches"
  shows "batch_count (plan_loop es now max_batches d plan) =
    min max_batches (batch_count plan + card {x \<in> deadlines es. d \<le> x \<and> x \<le> now})"
  using assms
proof (induction es now max_batches d plan rule: plan_loop.induct)
  case (1 es now m d plan)
  let ?R = "\<lambda>d. {x \<in> deadlines es. d \<le> x \<and> x \<le> now}"
  have pos: "current_deadline_batch_size es d \<noteq> 0"
    using "1.prems"(1) batch_size_pos [of es d] by simp
  show ?case
  proof (cases "batch_count plan < m")
    case False
    then show ?thesis
      using "1.prems"(3) by (simp add: plan_loop.simps [of es now m d plan])
  next
    case True
    show ?thesis
    proof (cases "next_ready_deadline_after es d now")
      case None
      then have "?R d = {d}"
        using next_ready_deadline_spec [of es d now] "1.prems"(1,2) by force
      then have "card (?R d) = 1" by simp
      then show ?thesis
        using True None pos by (simp add: plan_loop.simps [of es now m d plan] Let_def)
    next
      case (Some d')
      then have d': "d' \<in> deadlines es" "d < d'" "d' \<le> now"
        "\<And>y. y \<in> deadlines es \<Longrightarrow> d < y \<Longrightarrow> y \<le> now \<Longrightarrow> d' \<le> y"
        using next_ready_deadline_spec [of es d now] by auto
      then have "?R d = insert d (?R d')" "d \<notin> ?R d'" "finite (?R d')"
        using "1.prems"(1,2) by force+
      then have "card (?R d) = Suc (card (?R d'))" by simp
      then show ?thesis
        using "1.IH" [OF True refl pos refl Some] True Some d' pos
        by (simp add: plan_loop.simps [of es now m d plan] Let_def)
    qed
  qed
qed

lemma plan_ready_count:
  assumes "th_inv h"
  shows "batch_count (plan_ready_batches h now m) =
    min m (card {d \<in> deadlines (th_entries h). d \<le> now})"
proof (cases "th_entries h")
  case Nil
  then show ?thesis by (simp add: plan_ready_batches_def)
next
  case (Cons e es)
  have least: "deadline e \<le> d" if d: "d \<in> deadlines (th_entries h)" for d
  proof -
    obtain f where f: "f \<in> set (th_entries h)" "d = deadline f" using d by blast
    then have "entry_key e \<le> entry_key f"
      using th_front_least [OF assms Cons] by simp
    then show ?thesis by (auto simp: entry_key_def less_eq_prod_def f(2))
  qed
  show ?thesis
  proof (cases "now < deadline e \<or> m = 0")
    case True
    moreover have "card {d \<in> deadlines (th_entries h). d \<le> now} = 0" if "now < deadline e"
    proof -
      have "{d \<in> deadlines (th_entries h). d \<le> now} = {}" using that least by fastforce
      then show ?thesis by (simp only: card.empty)
    qed
    ultimately have zero: "min m (card {d \<in> deadlines (th_entries h). d \<le> now}) = 0"
      by (metis min_0L min_0R)
    show ?thesis
      unfolding zero using True Cons by (auto simp: plan_ready_batches_def Let_def)
  next
    case False
    then have "{x \<in> deadlines (th_entries h). deadline e \<le> x \<and> x \<le> now} =
        {d \<in> deadlines (th_entries h). d \<le> now}"
      using least by blast
    then show ?thesis
      using False Cons plan_loop_count [of "deadline e" "th_entries h" now]
      by (simp add: plan_ready_batches_def Let_def)
  qed
qed

section \<open>Popping whole batches\<close>

text \<open>In a sorted list the timers of the least deadline are a prefix.\<close>

lemma first_batch_prefix:
  fixes T :: "(int \<times> size_t) list"
  assumes "sorted (k # T)"
  shows "takeWhile (\<lambda>x. fst x = fst k) (k # T) = filter (\<lambda>x. fst x = fst k) (k # T)"
    and "dropWhile (\<lambda>x. fst x = fst k) (k # T) = filter (\<lambda>x. fst x \<noteq> fst k) (k # T)"
proof -
  have "takeWhile (\<lambda>x. fst x = d) T = filter (\<lambda>x. fst x = d) T \<and>
      dropWhile (\<lambda>x. fst x = d) T = filter (\<lambda>x. fst x \<noteq> d) T"
    if "sorted T" "\<forall>x\<in>set T. d \<le> fst x" for d
    using that
  proof (induction T)
    case (Cons x T)
    show ?case
    proof (cases "fst x = d")
      case False
      with Cons.prems have "d < fst y" if "y \<in> set T" for y
        using that by (fastforce simp: less_eq_prod_def)
      then have "filter (\<lambda>x. fst x = d) T = []" "filter (\<lambda>x. fst x \<noteq> d) T = T"
        by (auto simp: filter_empty_conv filter_id_conv)
      then show ?thesis using False by simp
    qed (use Cons in simp)
  qed simp
  moreover have "sorted T" "\<forall>x\<in>set T. fst k \<le> fst x"
    using assms by (auto simp: less_eq_prod_def)
  ultimately show "takeWhile (\<lambda>x. fst x = fst k) (k # T) = filter (\<lambda>x. fst x = fst k) (k # T)"
    and "dropWhile (\<lambda>x. fst x = fst k) (k # T) = filter (\<lambda>x. fst x \<noteq> fst k) (k # T)"
    by simp_all
qed

abbreviation sorted_deadlines :: "(int \<times> size_t) list \<Rightarrow> int list" where
  "sorted_deadlines T \<equiv> sorted_list_of_set (fst ` set T)"

lemma sorted_deadlines_Cons:
  fixes T :: "(int \<times> size_t) list"
  assumes "sorted (k # T)"
  shows "sorted_deadlines (k # T) =
    fst k # sorted_deadlines (filter (\<lambda>x. fst x \<noteq> fst k) (k # T))"
proof -
  have "Min (fst ` set (k # T)) = fst k"
    using assms by (intro Min_eqI) (auto simp: less_eq_prod_def)
  moreover have "fst ` set (k # T) - {fst k} = fst ` set (filter (\<lambda>x. fst x \<noteq> fst k) (k # T))"
    by auto
  ultimately show ?thesis
    using sorted_list_of_set_nonempty [of "fst ` set (k # T)"] by simp
qed

text \<open>The timers whose deadline is among the \<open>n\<close> earliest, and the others.\<close>

definition in_batches :: "nat \<Rightarrow> (int \<times> size_t) list \<Rightarrow> int \<times> size_t \<Rightarrow> bool" where
  "in_batches n T k \<longleftrightarrow> fst k \<in> set (take n (sorted_deadlines T))"

lemma in_batches_0 [simp]: "in_batches 0 T = (\<lambda>_. False)"
  by (simp add: in_batches_def fun_eq_iff)

lemma in_batches_Suc:
  fixes T :: "(int \<times> size_t) list"
  assumes "sorted (k # T)" and "R = filter (\<lambda>x. fst x \<noteq> fst k) (k # T)"
  shows "filter (in_batches (Suc n) (k # T)) (k # T) =
      filter (\<lambda>x. fst x = fst k) (k # T) @ filter (in_batches n R) R"
    and "filter (\<lambda>x. \<not> in_batches (Suc n) (k # T) x) (k # T) =
      filter (\<lambda>x. \<not> in_batches n R x) R"
proof -
  let ?A = "filter (\<lambda>x. fst x = fst k) (k # T)"
  have split: "k # T = ?A @ R"
    using takeWhile_dropWhile_id [of "\<lambda>x. fst x = fst k" "k # T", symmetric]
    unfolding first_batch_prefix [OF assms(1)] assms(2) .
  have ib: "in_batches (Suc n) (k # T) x \<longleftrightarrow> fst x = fst k \<or> in_batches n R x" for x
    using sorted_deadlines_Cons [OF assms(1)] assms(2) by (simp add: in_batches_def)
  have A: "filter (in_batches (Suc n) (k # T)) ?A = ?A"
      "filter (\<lambda>x. \<not> in_batches (Suc n) (k # T) x) ?A = []"
    by (rule filter_True, simp add: ib) (rule filter_False, simp add: ib)
  have R: "filter (in_batches (Suc n) (k # T)) R = filter (in_batches n R) R"
      "filter (\<lambda>x. \<not> in_batches (Suc n) (k # T) x) R = filter (\<lambda>x. \<not> in_batches n R x) R"
    using assms(2) by (auto simp: ib intro!: filter_cong)
  show "filter (in_batches (Suc n) (k # T)) (k # T) = ?A @ filter (in_batches n R) R"
    by (subst (2) split) (simp only: filter_append A R)
  show "filter (\<lambda>x. \<not> in_batches (Suc n) (k # T) x) (k # T) =
      filter (\<lambda>x. \<not> in_batches n R x) R"
    by (subst (2) split) (simp only: filter_append A R append_Nil)
qed

lemma th_pop_batches_correct:
  assumes "th_inv h"
  shows "\<exists>h'. th_pop_batches n h ready =
      (ready @ map (mk_handle (th_owner_id h)) (filter (in_batches n (th_timers h)) (th_timers h)), h') \<and>
    th_inv h' \<and> th_timers h' = filter (\<lambda>k. \<not> in_batches n (th_timers h) k) (th_timers h) \<and>
    th_owner_id h' = th_owner_id h \<and> th_next_id h' = th_next_id h"
  using assms
proof (induction n arbitrary: h ready)
  case 0
  then show ?case by simp
next
  case (Suc n)
  show ?case
  proof (cases "th_entries h")
    case Nil
    then show ?thesis using Suc.prems th_timers_Nil [of h] by simp
  next
    case (Cons e es)
    obtain T where T: "th_timers h = entry_key e # T"
      using th_timers_front [OF Suc.prems Cons] by blast
    have srt: "sorted (entry_key e # T)" using th_timers_sorted(1) [of h] T by simp
    let ?R = "filter (\<lambda>x. fst x \<noteq> fst (entry_key e)) (entry_key e # T)"
    obtain h1 where h1: "th_pop_deadline_batch h (deadline e) ready =
        (ready @ map (mk_handle (th_owner_id h))
          (filter (\<lambda>x. fst x = fst (entry_key e)) (entry_key e # T)), h1)"
      "th_inv h1" "th_timers h1 = ?R" "th_owner_id h1 = th_owner_id h"
      "th_next_id h1 = th_next_id h"
      using th_pop_deadline_batch_correct [OF Suc.prems, of "deadline e" ready] T
        first_batch_prefix [OF srt] by (auto simp: entry_key_def)
    show ?thesis
      using Suc.IH [OF h1(2), of "ready @ map (mk_handle (th_owner_id h))
          (filter (\<lambda>x. fst x = fst (entry_key e)) (entry_key e # T))"]
        h1 Cons T in_batches_Suc [OF srt refl, of n]
      by (auto simp del: filter.simps)
  qed
qed

lemma th_pop_batches_budget_eq:
  assumes "n \<le> remaining_timers budget" and "n \<le> card (deadlines (th_entries h))" and "th_inv h"
  shows "\<exists>budget'. th_pop_batches_budget n budget h ready =
      (fst (th_pop_batches n h ready), budget', snd (th_pop_batches n h ready)) \<and>
    remaining_timers budget' = remaining_timers budget - n"
  using assms
proof (induction n arbitrary: budget h ready)
  case 0
  then show ?case by simp
next
  case (Suc n)
  obtain e es where Cons: "th_entries h = e # es"
    using Suc.prems(2) by (cases "th_entries h") auto
  obtain b' where b': "consume_timer budget = (True, b')" "remaining_timers b' = remaining_timers budget - 1"
    using Suc.prems(1) consume_timer_ok [of budget] by (cases "consume_timer budget") auto
  obtain r1 h1 where h1: "th_pop_deadline_batch h (deadline e) ready = (r1, h1)" by fastforce
  have inv: "th_inv h1" "th_timers h1 = dropWhile (\<lambda>k. fst k = deadline e) (th_timers h)"
    using th_pop_deadline_batch_correct [OF Suc.prems(3), of "deadline e" ready] h1 by auto
  have sub: "deadlines (th_entries h) \<subseteq> insert (deadline e) (deadlines (th_entries h1))"
  proof
    fix d assume "d \<in> deadlines (th_entries h)"
    then obtain k where k: "k \<in> set (th_timers h)" "fst k = d" by (force simp: entry_key_def)
    moreover have "k \<in> set (takeWhile (\<lambda>k. fst k = deadline e) (th_timers h)) \<or> k \<in> set (th_timers h1)"
      using k(1) inv(2) by (metis Un_iff set_append takeWhile_dropWhile_id)
    ultimately show "d \<in> insert (deadline e) (deadlines (th_entries h1))"
      by (auto simp: entry_key_def dest: set_takeWhileD)
  qed
  have "card (deadlines (th_entries h)) \<le> card (insert (deadline e) (deadlines (th_entries h1)))"
    by (rule card_mono [OF _ sub]) simp
  also have "\<dots> \<le> Suc (card (deadlines (th_entries h1)))"
    by (simp add: card_insert_if)
  finally show ?case
    using Suc.IH [of b' h1 r1] Suc.prems b' h1 inv(1) Cons by auto
qed

lemma take_card_sorted:
  fixes D :: "int list"
  assumes "sorted D" and "distinct D"
  shows "set (take (card {d \<in> set D. d \<le> now}) D) = {d \<in> set D. d \<le> now}"
  using assms
proof (induction D)
  case (Cons d D)
  show ?case
  proof (cases "d \<le> now")
    case True
    then have "{x \<in> set (d # D). x \<le> now} = insert d {x \<in> set D. x \<le> now}" by auto
    then show ?thesis using Cons by simp
  next
    case False
    then have "{x \<in> set (d # D). x \<le> now} = {}" using Cons.prems by fastforce
    then show ?thesis by (metis card.empty set_empty2 take0)
  qed
qed simp

lemma deadlines_timers: "fst ` set (th_timers h) = deadlines (th_entries h)"
  by (force simp: entry_key_def)

lemma in_batches_ready:
  assumes "k \<in> set (th_timers h)"
  shows "in_batches (card {d \<in> deadlines (th_entries h). d \<le> now}) (th_timers h) k \<longleftrightarrow>
    fst k \<le> now"
proof -
  have "set (take (card {d \<in> deadlines (th_entries h). d \<le> now}) (sorted_deadlines (th_timers h))) =
      {d \<in> deadlines (th_entries h). d \<le> now}"
    using take_card_sorted [of "sorted_deadlines (th_timers h)" now]
    unfolding deadlines_timers by simp
  moreover have "fst k \<in> deadlines (th_entries h)"
    using assms deadlines_timers by blast
  ultimately show ?thesis by (simp add: in_batches_def)
qed

lemma th_pop_ready_frame [vio_invs]:
  assumes "th_inv h"
  shows "th_inv (snd (th_pop_ready now h))" "th_next_id (snd (th_pop_ready now h)) = th_next_id h"
  using th_pop_batches_correct [OF assms] by (metis snd_conv th_pop_ready_def)+

lemma th_pop_ready_budget_frame [vio_invs]:
  assumes "th_inv h"
  shows "th_inv (snd (snd (th_pop_ready_budget now budget h)))"
    "th_next_id (snd (snd (th_pop_ready_budget now budget h))) = th_next_id h"
proof -
  let ?n = "batch_count (plan_ready_batches h now (remaining_timers budget))"
  have "?n \<le> card (deadlines (th_entries h))" "?n \<le> remaining_timers budget"
    by (auto simp: plan_ready_count [OF assms] intro: min.coboundedI2 card_mono)
  then obtain b where "th_pop_ready_budget now budget h =
      (fst (th_pop_batches ?n h []), b, snd (th_pop_batches ?n h []))"
    using th_pop_batches_budget_eq [OF _ _ assms] unfolding th_pop_ready_budget_def Let_def by blast
  then show "th_inv (snd (snd (th_pop_ready_budget now budget h)))"
    "th_next_id (snd (snd (th_pop_ready_budget now budget h))) = th_next_id h"
    using th_pop_batches_correct [OF assms, of ?n "[]"] by auto
qed

lemma th_cancel_frame [vio_invs]:
  assumes "th_inv h"
  shows "th_inv (snd (th_cancel t h))" "th_next_id (snd (th_cancel t h)) = th_next_id h"
proof -
  have "i < length (th_entries h)" if "th_indices h k = Some i" for k i
    using that assms by (auto simp: th_inv_def index_ok_def)
  then show "th_inv (snd (th_cancel t h))" "th_next_id (snd (th_cancel t h)) = th_next_id h"
    using assms by (auto simp: th_cancel_def th_inv_erase_at split: option.splits)
qed

lemma th_add_failed:
  assumes "\<not> (push_ok \<and> emplace_ok)"
  shows "th_add push_ok emplace_ok d h = (None, h\<lparr>th_next_id := th_next_id h + 1\<rparr>)"
  using assms by (auto simp: th_add_def Let_def)

lemma th_add_frame [vio_invs]:
  assumes "th_inv h" and "th_next_id h \<noteq> - 1"
  shows "th_inv (snd (th_add p q d h))" "th_next_id (snd (th_add p q d h)) = th_next_id h + 1"
proof -
  have gt: "th_next_id h < th_next_id h + 1" by (rule word_add_one_gt [OF assms(2)])
  have "th_inv (h\<lparr>th_next_id := th_next_id h + 1\<rparr>)"
    using assms(1) gt by (auto simp: th_inv_def intro: less_trans)
  then show "th_inv (snd (th_add p q d h))" "th_next_id (snd (th_add p q d h)) = th_next_id h + 1"
    using th_add_ok_correct [OF assms, of d "fst (th_add True True d h)" "snd (th_add True True d h)"]
    by (cases "p \<and> q"; simp add: th_add_failed)+
qed

section \<open>Operation sequences\<close>

datatype timer_op =
    Op_add bool bool int
  | Op_cancel timer_handle
  | Op_pop_ready int
  | Op_pop_ready_budget int loop_budget_slice

fun th_apply :: "timer_op \<Rightarrow> timer_heap \<Rightarrow> timer_heap" where
  "th_apply (Op_add p q d) h = snd (th_add p q d h)"
| "th_apply (Op_cancel t) h = snd (th_cancel t h)"
| "th_apply (Op_pop_ready now) h = snd (th_pop_ready now h)"
| "th_apply (Op_pop_ready_budget now b) h = snd (snd (th_pop_ready_budget now b h))"

lemma th_apply_inv:
  assumes "th_inv h" and "th_next_id h \<noteq> - 1"
  shows "th_inv (th_apply op h)" "unat (th_next_id (th_apply op h)) \<le> Suc (unat (th_next_id h))"
  using assms unat_add_one [OF assms(2)] by (cases op; simp add: vio_invs)+

lemma th_run_inv:
  assumes "th_inv h" and "unat (th_next_id h) + length ops < 2 ^ 64"
  shows "th_inv (fold th_apply ops h)"
  using assms
proof (induction ops arbitrary: h)
  case (Cons op ops)
  have "th_next_id h \<noteq> - 1"
    using Cons.prems(2) by (auto simp: unat_max_size)
  from th_apply_inv [OF Cons.prems(1) this, of op] Cons show ?case by simp
qed simp

text \<open>How many deadline batches a call may pop: one per unit of budget and ready deadline.\<close>

definition batch_allowance :: "loop_budget_slice \<Rightarrow> int \<Rightarrow> timer_heap \<Rightarrow> nat" where
  "batch_allowance budget now h =
     min (remaining_timers budget) (card {d \<in> deadlines (th_entries h). d \<le> now})"

section \<open>Theorems\<close>

text \<open>
  C1. \<^verbatim>\<open>timer_heap::pop_ready(now)\<close> returns exactly the live timers whose deadline is not
  later than \<^verbatim>\<open>now\<close>, ordered by deadline and, within a deadline, by id (the order in which
  they were added), keeps every later timer, and keeps the heap's invariant.
\<close>

theorem timer_pop_ready_correct:
  assumes "th_inv h"
  shows "\<exists>h'. th_pop_ready now h =
      (map (mk_handle (th_owner_id h)) (filter (\<lambda>k. fst k \<le> now) (th_timers h)), h') \<and>
    th_inv h' \<and> th_timers h' = filter (\<lambda>k. now < fst k) (th_timers h)"
proof -
  let ?n = "card {d \<in> deadlines (th_entries h). d \<le> now}"
  have "?n \<le> length (th_entries h)"
    by (rule le_trans [OF card_mono [of "deadlines (th_entries h)"]])
      (auto intro: le_trans [OF card_image_le] card_length)
  then have "batch_count (plan_ready_batches h now (length (th_entries h))) = ?n"
    by (simp add: plan_ready_count [OF assms])
  moreover have "filter (in_batches ?n (th_timers h)) (th_timers h) =
      filter (\<lambda>k. fst k \<le> now) (th_timers h)"
    "filter (\<lambda>k. \<not> in_batches ?n (th_timers h) k) (th_timers h) =
      filter (\<lambda>k. now < fst k) (th_timers h)"
    using in_batches_ready [of _ h now] by (auto intro!: filter_cong simp del: th_timers_set)
  ultimately show ?thesis
    using th_pop_batches_correct [OF assms, of ?n "[]"]
    by (auto simp: th_pop_ready_def Let_def)
qed

text \<open>
  C2. The budgeted \<^verbatim>\<open>pop_ready(now, budget)\<close> consumes one timer unit per distinct ready
  deadline, as many as the budget and the ready deadlines allow, and returns exactly the
  timers of those earliest deadlines: a deadline's timers are never split across calls.
\<close>

theorem timer_pop_ready_budget_correct:
  assumes "th_inv h"
  shows "\<exists>h' budget'. th_pop_ready_budget now budget h =
      (map (mk_handle (th_owner_id h))
         (filter (in_batches (batch_allowance budget now h) (th_timers h)) (th_timers h)),
       budget', h') \<and>
    remaining_timers budget' = remaining_timers budget - batch_allowance budget now h \<and>
    th_inv h' \<and> th_timers h' =
      filter (\<lambda>k. \<not> in_batches (batch_allowance budget now h) (th_timers h) k) (th_timers h)"
proof -
  let ?n = "batch_allowance budget now h"
  have count: "batch_count (plan_ready_batches h now (remaining_timers budget)) = ?n"
    by (simp add: plan_ready_count [OF assms(1)] batch_allowance_def)
  have "?n \<le> remaining_timers budget" "?n \<le> card (deadlines (th_entries h))"
    unfolding batch_allowance_def by (auto intro: min.coboundedI2 card_mono)
  then show ?thesis
    using th_pop_batches_budget_eq [of ?n budget h "[]"] th_pop_batches_correct [OF assms, of ?n "[]"]
      count assms
    by (auto simp: th_pop_ready_budget_def Let_def)
qed

text \<open>
  C4. \<^verbatim>\<open>timer_heap::cancel\<close> succeeds exactly on a valid handle of this heap whose timer is
  live, and then removes that timer and no other; otherwise the heap is unchanged.
\<close>

theorem timer_cancel_correct:
  assumes "th_inv h"
  shows "case th_cancel t h of (success, h') \<Rightarrow>
    (success \<longleftrightarrow> handle_valid t \<and> owner_id t = th_owner_id h \<and>
       handle_id t \<in> snd ` set (th_timers h)) \<and>
    (if success then th_inv h' \<and>
       th_timers h' = filter (\<lambda>k. snd k \<noteq> handle_id t) (th_timers h) \<and>
       length (th_timers h) = Suc (length (th_timers h'))
     else h' = h)"
proof -
  have ids: "snd ` set (th_timers h) = entry_id ` set (th_entries h)"
    by (force simp: entry_key_def)
  have ok: "index_ok (th_entries h) (th_indices h)" using assms by (simp add: th_inv_def)
  show ?thesis
  proof (cases "th_indices h (handle_id t)")
    case None
    then have "handle_id t \<notin> entry_id ` set (th_entries h)"
      using index_ok_live [OF ok] by blast
    then show ?thesis using None by (simp add: th_cancel_def ids del: th_timers_set)
  next
    case (Some i)
    then have i: "i < length (th_entries h)" "entry_id (th_entries h ! i) = handle_id t"
      using ok by (auto simp: index_ok_def)
    let ?k = "entry_key (th_entries h ! i)"
    have inj: "k = ?k" if "k \<in> set (th_timers h)" "snd k = handle_id t" for k
      using that i index_ok_distinct [OF ok]
      by (auto simp: entry_key_def) (metis distinct_map inj_on_eq_iff nth_mem)
    have k: "?k \<in> set (th_timers h)" using i by simp
    have "th_timers (th_erase_at h i) = filter (\<lambda>x. ?k \<noteq> x) (th_timers h)"
      unfolding th_timers_erase [OF assms i(1)]
      by (simp add: distinct_remove1_removeAll removeAll_filter_not_eq)
    also have "\<dots> = filter (\<lambda>k. snd k \<noteq> handle_id t) (th_timers h)"
    proof (rule filter_cong [OF refl])
      fix k assume "k \<in> set (th_timers h)"
      then show "?k \<noteq> k \<longleftrightarrow> snd k \<noteq> handle_id t"
        using inj [of k] i(2) by (auto simp: entry_key_def)
    qed
    finally have fil: "th_timers (th_erase_at h i) = filter (\<lambda>k. snd k \<noteq> handle_id t) (th_timers h)" .
    have "length (th_timers h) = Suc (length (th_timers (th_erase_at h i)))"
      using th_timers_erase [OF assms i(1)] k length_pos_if_in_set [OF k]
      by (simp add: length_remove1 del: th_timers_set)
    then show ?thesis
      using Some i fil th_inv_erase_at [OF assms i(1)] imageI [OF nth_mem [OF i(1)], of entry_id]
      by (simp add: th_cancel_def ids del: th_timers_set)
  qed
qed

text \<open>
  C3. Whatever sequence of adds (including adds that fail to allocate), cancellations and
  budgeted or unbudgeted pops runs on a fresh heap, the structural invariant holds: heap
  order by deadline and id, the index map naming exactly the position of each live timer,
  and every live id below the next id. The bound on the number of operations is the point
  where the 64-bit id counter would wrap.
\<close>

theorem timer_heap_invariant:
  assumes "length ops < 2 ^ 64 - 1"
  shows "th_inv (fold th_apply ops (fst (th_create owner)))"
  using th_run_inv [OF th_inv_create, of owner ops] assms
  by (simp add: th_create_def allocate_owner_id_def)

theorem timer_heap_invariant_witness:
  "th_inv (fold th_apply [Op_add True True 9, Op_add True True 5, Op_add True False 1,
     Op_cancel \<lparr>owner_id = 1, handle_id = 1\<rparr>, Op_pop_ready 7] (fst (th_create 1)))"
  by (rule timer_heap_invariant) simp

text \<open>
  \<^verbatim>\<open>timer_heap::add\<close> inserts exactly one new timer with a fresh id and returns its handle;
  when an allocation fails it returns nothing and leaves the set of live timers, the index
  map and the heap order as they were.
\<close>

theorem timer_add_correct:
  assumes "th_inv h" and "th_next_id h \<noteq> - 1"
  shows "case th_add push_ok emplace_ok d h of (r, h') \<Rightarrow> th_inv h' \<and>
    (if push_ok \<and> emplace_ok
     then r = Some (mk_handle (th_owner_id h) (d, th_next_id h)) \<and>
       (d, th_next_id h) \<notin> set (th_timers h) \<and>
       th_timers h' = insort (d, th_next_id h) (th_timers h)
     else r = None \<and> th_timers h' = th_timers h)"
proof (cases "push_ok \<and> emplace_ok")
  case True
  have new: "(d, th_next_id h) \<notin> set (th_timers h)"
    using assms(1) by (auto simp: th_inv_def entry_key_def)
  obtain r h' where add: "th_add True True d h = (r, h')" by fastforce
  note ok = th_add_ok_correct [OF assms add]
  have "set (th_keys h') = insert (d, th_next_id h) (set (th_keys h))"
    using ok by (metis (no_types, lifting) entry_key_def image_insert list.set_map
        set_mset_add_mset_insert set_mset_mset timer_entry.select_convs(1,2))
  then have "th_timers h' = insort (d, th_next_id h) (th_timers h)"
    using new by (simp add: th_timers_def)
  then show ?thesis using True add ok new by (simp add: mk_handle_def)
next
  case False
  then show ?thesis
    using th_add_frame [OF assms, of push_ok emplace_ok d]
    by (auto simp: th_add_failed th_timers_def)
qed

section \<open>A concrete heap\<close>

definition example_heap :: timer_heap where
  "example_heap = \<lparr>th_owner_id = 7, th_next_id = 4,
     th_entries = [\<lparr>deadline = 5, entry_id = 1\<rparr>, \<lparr>deadline = 9, entry_id = 2\<rparr>,
                   \<lparr>deadline = 5, entry_id = 3\<rparr>],
     th_indices = [1 \<mapsto> 0, 2 \<mapsto> 1, 3 \<mapsto> 2]\<rparr>"

lemma example_heap_inv: "th_inv example_heap"
  by (auto simp: th_inv_def example_heap_def is_heap_def index_ok_def less_Suc_eq nth_Cons'
      parent_def entry_key_def less_eq_prod_def split: if_splits)

lemma example_heap_timers: "th_timers example_heap = [(5, 1), (5, 3), (9, 2)]"
  unfolding th_timers_def example_heap_def
  by (simp add: entry_key_def less_eq_prod_def less_prod_def)

theorem timer_pop_ready_correct_witness:
  "fst (th_pop_ready 6 example_heap) =
     [\<lparr>owner_id = 7, handle_id = 1\<rparr>, \<lparr>owner_id = 7, handle_id = 3\<rparr>] \<and>
   th_timers (snd (th_pop_ready 6 example_heap)) = [(9, 2)]"
  using timer_pop_ready_correct [OF example_heap_inv, of 6]
  by (auto simp: example_heap_timers mk_handle_def) (simp_all add: example_heap_def)

theorem timer_pop_ready_budget_correct_witness:
  "\<exists>h' budget'. th_pop_ready_budget 20
      \<lparr>slice_budget = default_loop_budget, consumed_tasks = 0, consumed_completions = 0,
       consumed_timers = 63\<rparr> example_heap =
     ([\<lparr>owner_id = 7, handle_id = 1\<rparr>, \<lparr>owner_id = 7, handle_id = 3\<rparr>], budget', h') \<and>
     remaining_timers budget' = 0"
proof -
  let ?b = "\<lparr>slice_budget = default_loop_budget, consumed_tasks = 0, consumed_completions = 0,
    consumed_timers = 63\<rparr>"
  have D: "{d \<in> deadlines (th_entries example_heap). d \<le> 20} = {5, 9}"
    by (auto simp: example_heap_def)
  have n: "batch_allowance ?b 20 example_heap = 1"
    unfolding batch_allowance_def D by (simp add: slice_defs default_loop_budget_def)
  have r: "remaining_timers ?b = 1" by (simp add: slice_defs default_loop_budget_def)
  have o7: "th_owner_id example_heap = 7" by (simp add: example_heap_def)
  show ?thesis
    using timer_pop_ready_budget_correct [OF example_heap_inv, of 20 ?b]
    unfolding n r o7 example_heap_timers by (auto simp: in_batches_def mk_handle_def)
qed

theorem timer_cancel_correct_witness:
  "fst (th_cancel \<lparr>owner_id = 7, handle_id = 2\<rparr> example_heap) \<and>
   th_timers (snd (th_cancel \<lparr>owner_id = 7, handle_id = 2\<rparr> example_heap)) = [(5, 1), (5, 3)]"
  using timer_cancel_correct [OF example_heap_inv, of "\<lparr>owner_id = 7, handle_id = 2\<rparr>"]
  unfolding example_heap_timers
  by (auto simp: handle_valid_def example_heap_def split: prod.splits)

theorem timer_add_correct_witness:
  "th_timers (snd (th_add True True 7 example_heap)) = [(5, 1), (5, 3), (7, 4), (9, 2)]"
  using timer_add_correct [OF example_heap_inv, of True True 7]
  unfolding example_heap_timers
  by (auto simp: example_heap_def less_eq_prod_def split: prod.splits)

end
