(* ===== verification/Cancel_State.thy ===== *)
theory Cancel_State
  imports Vio_Error
begin

text \<open>
  \<^verbatim>\<open>include/voris/io/cancellation.hpp\<close> and \<^verbatim>\<open>src/cancellation.cpp\<close>. The state shared by a
  source, its tokens and its registrations is one record with an explicit store of
  callback slots, since registrations and the state alias the same slots. Slots are
  addressed by allocation order. A null \<^verbatim>\<open>state_\<close> pointer is the argument \<open>bound = False\<close>.
  User callbacks are the parameter \<open>exec\<close>; a callback may call back into the state.
\<close>

section \<open>State\<close>

datatype cancellation_reason =
    manual | deadline_reason | scope_shutdown | runtime_shutdown | backend_abort

fun reason_value :: "cancellation_reason \<Rightarrow> 8 word" where
  "reason_value manual = 1"
| "reason_value deadline_reason = 2"
| "reason_value scope_shutdown = 3"
| "reason_value runtime_shutdown = 4"
| "reason_value backend_abort = 5"

fun reason_to_string :: "cancellation_reason \<Rightarrow> string" where
  "reason_to_string manual = ''manual''"
| "reason_to_string deadline_reason = ''deadline''"
| "reason_to_string scope_shutdown = ''scope_shutdown''"
| "reason_to_string runtime_shutdown = ''runtime_shutdown''"
| "reason_to_string backend_abort = ''backend_abort''"

record 'c callback_slot =
  slot_callback :: "'c option"
  slot_registered :: bool

record 'c cancellation_state =
  cs_requested :: bool
  cs_reason :: "cancellation_reason option"
  cs_callbacks :: "nat list"
  cs_slots :: "nat \<rightharpoonup> 'c callback_slot"
  cs_next_slot :: nat
  cs_locked :: bool

type_synonym ('c, 'e) callback_exec =
  "'c \<Rightarrow> cancellation_reason \<Rightarrow> ('c, 'e) cancellation_state_scheme \<Rightarrow>
     ('c, 'e) cancellation_state_scheme"

definition cs_init :: "'c cancellation_state" where
  "cs_init = \<lparr>cs_requested = False, cs_reason = None, cs_callbacks = [], cs_slots = Map.empty,
     cs_next_slot = 0, cs_locked = False\<rparr>"

text \<open>
  A critical section under \<^verbatim>\<open>cancellation_state_lock\<close>: \<open>cs_locked\<close> is the thread-local marker
  that the internal lock is held.
\<close>

definition with_state_lock ::
  "(('c, 'e) cancellation_state_scheme \<Rightarrow> 'r \<times> ('c, 'e) cancellation_state_scheme) \<Rightarrow>
     ('c, 'e) cancellation_state_scheme \<Rightarrow> 'r \<times> ('c, 'e) cancellation_state_scheme" where
  "with_state_lock body s =
     (let (r, s') = body (s\<lparr>cs_locked := True\<rparr>) in (r, s'\<lparr>cs_locked := cs_locked s\<rparr>))"

definition internal_lock_held :: "bool \<Rightarrow> ('c, 'e) cancellation_state_scheme \<Rightarrow> bool" where
  "internal_lock_held bound s \<longleftrightarrow> bound \<and> cs_locked s"

definition set_registered ::
  "nat \<Rightarrow> bool \<Rightarrow> ('c, 'e) cancellation_state_scheme \<Rightarrow> ('c, 'e) cancellation_state_scheme" where
  "set_registered n b s =
     (case cs_slots s n of
        None \<Rightarrow> s
      | Some sl \<Rightarrow> s\<lparr>cs_slots := (cs_slots s)(n \<mapsto> sl\<lparr>slot_registered := b\<rparr>)\<rparr>)"

definition is_registered :: "('c, 'e) cancellation_state_scheme \<Rightarrow> nat \<Rightarrow> bool" where
  "is_registered s n = (case cs_slots s n of None \<Rightarrow> False | Some sl \<Rightarrow> slot_registered sl)"

section \<open>Registrations and tokens\<close>

text \<open>A registration holds a slot or nothing; \<^verbatim>\<open>unregister\<close> empties it.\<close>

type_synonym registration = "nat option"

definition cs_unregister ::
  "registration \<Rightarrow> ('c, 'e) cancellation_state_scheme \<Rightarrow> ('c, 'e) cancellation_state_scheme" where
  "cs_unregister reg s =
     (case reg of
        None \<Rightarrow> s
      | Some slot \<Rightarrow>
          snd (with_state_lock (\<lambda>s.
            if \<not> is_registered s slot then ((), s)
            else let s' = set_registered slot False s
                 in ((), s'\<lparr>cs_callbacks := removeAll slot (cs_callbacks s')\<rparr>)) s))"

definition cs_active :: "registration \<Rightarrow> ('c, 'e) cancellation_state_scheme \<Rightarrow> bool" where
  "cs_active reg s =
     (case reg of None \<Rightarrow> False | Some slot \<Rightarrow> fst (with_state_lock (\<lambda>s. (is_registered s slot, s)) s))"

text \<open>Move assignment: the old registration is withdrawn, the other one is taken over.\<close>

definition reg_move_assign ::
  "bool \<Rightarrow> registration \<Rightarrow> registration \<Rightarrow> ('c, 'e) cancellation_state_scheme \<Rightarrow>
     registration \<times> registration \<times> ('c, 'e) cancellation_state_scheme" where
  "reg_move_assign same_object this other s =
     (if same_object then (this, other, s) else (other, None, cs_unregister this s))"

definition token_cancellation_requested ::
  "bool \<Rightarrow> ('c, 'e) cancellation_state_scheme \<Rightarrow> bool" where
  "token_cancellation_requested bound s =
     (if \<not> bound then False else fst (with_state_lock (\<lambda>s. (cs_requested s, s)) s))"

definition token_reason ::
  "bool \<Rightarrow> ('c, 'e) cancellation_state_scheme \<Rightarrow> cancellation_reason option" where
  "token_reason bound s =
     (if \<not> bound then None else fst (with_state_lock (\<lambda>s. (cs_reason s, s)) s))"

definition register_callback ::
  "bool \<Rightarrow> ('c, 'e) callback_exec \<Rightarrow> 'c option \<Rightarrow> ('c, 'e) cancellation_state_scheme \<Rightarrow>
     registration \<times> ('c, 'e) cancellation_state_scheme" where
  "register_callback bound exec callback s =
     (if \<not> bound \<or> callback = None then (None, s)
      else
        (let slot = cs_next_slot s;
             s1 = s\<lparr>cs_slots := (cs_slots s)(slot \<mapsto>
                      \<lparr>slot_callback = callback, slot_registered = True\<rparr>),
                    cs_next_slot := slot + 1\<rparr>;
             (done_early, immediate_reason, s2) =
               (let ((b, r), s') = with_state_lock (\<lambda>s.
                    if \<not> cs_requested s
                    then ((True, None), s\<lparr>cs_callbacks := cs_callbacks s @ [slot]\<rparr>)
                    else ((False, cs_reason s), s)) s1
                in (b, r, s'))
         in if done_early then (Some slot, s2)
            else
              (let s3 = set_registered slot False s2
               in (None, case immediate_reason of
                           None \<Rightarrow> s3
                         | Some r \<Rightarrow> exec (the callback) r s3))))"

section \<open>Requesting cancellation\<close>

text \<open>The selection loop: registered slots are claimed, in list order.\<close>

fun select_callbacks ::
  "nat list \<Rightarrow> ('c, 'e) cancellation_state_scheme \<Rightarrow>
     nat list \<times> ('c, 'e) cancellation_state_scheme" where
  "select_callbacks [] s = ([], s)"
| "select_callbacks (n # ns) s =
     (if is_registered s n
      then let (sel, s') = select_callbacks ns (set_registered n False s) in (n # sel, s')
      else select_callbacks ns s)"

definition run_slot ::
  "('c, 'e) callback_exec \<Rightarrow> cancellation_reason \<Rightarrow> nat \<Rightarrow> ('c, 'e) cancellation_state_scheme \<Rightarrow>
     ('c, 'e) cancellation_state_scheme" where
  "run_slot exec r n s =
     (case cs_slots s n of
        None \<Rightarrow> s
      | Some sl \<Rightarrow> (case slot_callback sl of None \<Rightarrow> s | Some c \<Rightarrow> exec c r s))"

definition request_cancellation ::
  "bool \<Rightarrow> ('c, 'e) callback_exec \<Rightarrow> cancellation_reason \<Rightarrow>
     ('c, 'e) cancellation_state_scheme \<Rightarrow> bool \<times> ('c, 'e) cancellation_state_scheme" where
  "request_cancellation bound exec requested_reason s =
     (if \<not> bound then (False, s)
      else
        (case with_state_lock (\<lambda>s.
             if cs_requested s then (None, s)
             else
               (let s1 = s\<lparr>cs_requested := True, cs_reason := Some requested_reason\<rparr>;
                    (sel, s2) = select_callbacks (cs_callbacks s1) s1
                in (Some sel, s2\<lparr>cs_callbacks := []\<rparr>))) s of
           (None, s') \<Rightarrow> (False, s')
         | (Some callbacks, s') \<Rightarrow> (True, fold (run_slot exec requested_reason) callbacks s')))"

section \<open>Invariant\<close>

text \<open>
  The listed slots are exactly the registered ones, each listed once; a requested state
  lists none and has a reason.
\<close>

definition cs_inv :: "('c, 'e) cancellation_state_scheme \<Rightarrow> bool" where
  "cs_inv s \<longleftrightarrow> distinct (cs_callbacks s) \<and> set (cs_callbacks s) = {n. is_registered s n} \<and>
     (\<forall>n. cs_slots s n \<noteq> None \<longrightarrow> n < cs_next_slot s) \<and>
     (cs_requested s \<longleftrightarrow> cs_reason s \<noteq> None) \<and> (cs_requested s \<longrightarrow> cs_callbacks s = [])"

lemma cs_inv_init [vio_invs]: "cs_inv cs_init"
  by (simp add: cs_inv_def cs_init_def is_registered_def)

lemma set_registered_frame [simp]:
  "cs_requested (set_registered n b s) = cs_requested s"
  "cs_reason (set_registered n b s) = cs_reason s"
  "cs_callbacks (set_registered n b s) = cs_callbacks s"
  "cs_next_slot (set_registered n b s) = cs_next_slot s"
  "cs_locked (set_registered n b s) = cs_locked s"
  "cancellation_state.more (set_registered n b s) = cancellation_state.more s"
  "cs_slots (set_registered n b s) k = None \<longleftrightarrow> cs_slots s k = None"
  "(\<exists>y. cs_slots (set_registered n b s) k = Some y) \<longleftrightarrow> (\<exists>y. cs_slots s k = Some y)"
  "map_option slot_callback (cs_slots (set_registered n b s) k) =
     map_option slot_callback (cs_slots s k)"
  by (auto simp: set_registered_def split: option.splits)

lemma is_registered_set [simp]:
  "is_registered (set_registered n False s) k \<longleftrightarrow> is_registered s k \<and> k \<noteq> n"
  by (auto simp: set_registered_def is_registered_def split: option.splits)

lemma is_registered_cong [simp]:
  "is_registered (s\<lparr>cs_locked := b\<rparr>) = is_registered s"
  "is_registered (s\<lparr>cs_callbacks := l\<rparr>) = is_registered s"
  "is_registered (s\<lparr>cs_requested := q, cs_reason := r\<rparr>) = is_registered s"
  by (simp_all add: is_registered_def fun_eq_iff)

lemma cs_unregister_Some:
  "cs_unregister (Some n) s =
     (if is_registered s n
      then (set_registered n False s)\<lparr>cs_callbacks := removeAll n (cs_callbacks s)\<rparr> else s)"
  by (auto simp: cs_unregister_def with_state_lock_def Let_def set_registered_def
      split: option.splits)

lemma cs_inv_unregister [vio_invs]:
  assumes "cs_inv s"
  shows "cs_inv (cs_unregister reg s)"
proof (cases reg)
  case None
  then show ?thesis using assms by (simp add: cs_unregister_def)
next
  case (Some n)
  then show ?thesis
    using assms by (simp add: cs_inv_def cs_unregister_Some distinct_removeAll) auto
qed

lemma register_pending:
  assumes "\<not> cs_requested s"
  shows "register_callback True exec (Some c) s =
    (Some (cs_next_slot s),
     s\<lparr>cs_slots := (cs_slots s)(cs_next_slot s \<mapsto> \<lparr>slot_callback = Some c, slot_registered = True\<rparr>),
       cs_next_slot := cs_next_slot s + 1,
       cs_callbacks := cs_callbacks s @ [cs_next_slot s]\<rparr>)"
  using assms by (simp add: register_callback_def with_state_lock_def Let_def)

lemma cs_inv_register_pending [vio_invs]:
  assumes "cs_inv s" and "\<not> cs_requested s"
  shows "cs_inv (snd (register_callback True exec (Some c) s))"
proof -
  have "\<not> is_registered s (cs_next_slot s)"
    using assms(1) by (auto simp: cs_inv_def is_registered_def split: option.splits)
  then show ?thesis
    using assms unfolding register_pending [OF assms(2)]
    by (auto simp: cs_inv_def is_registered_def less_Suc_eq)
qed

lemma select_callbacks_all:
  assumes "distinct ns" and "\<forall>n\<in>set ns. is_registered s n"
  shows "\<exists>s'. select_callbacks ns s = (ns, s') \<and>
    (\<forall>k. is_registered s' k \<longleftrightarrow> is_registered s k \<and> k \<notin> set ns) \<and>
    (\<forall>k. map_option slot_callback (cs_slots s' k) = map_option slot_callback (cs_slots s k)) \<and>
    (\<forall>k. cs_slots s' k = None \<longleftrightarrow> cs_slots s k = None) \<and>
    cs_requested s' = cs_requested s \<and> cs_reason s' = cs_reason s \<and>
    cs_next_slot s' = cs_next_slot s \<and> cs_locked s' = cs_locked s \<and>
    cancellation_state.more s' = cancellation_state.more s"
  using assms
proof (induction ns arbitrary: s)
  case Nil
  then show ?case by simp
next
  case (Cons n ns)
  have "\<forall>k\<in>set ns. is_registered (set_registered n False s) k"
    using Cons.prems by auto
  then obtain s' where s': "select_callbacks ns (set_registered n False s) = (ns, s')"
    "\<forall>k. is_registered s' k \<longleftrightarrow> is_registered (set_registered n False s) k \<and> k \<notin> set ns"
    "\<forall>k. map_option slot_callback (cs_slots s' k) =
       map_option slot_callback (cs_slots (set_registered n False s) k)"
    "\<forall>k. cs_slots s' k = None \<longleftrightarrow> cs_slots (set_registered n False s) k = None"
    "cs_requested s' = cs_requested s" "cs_reason s' = cs_reason s"
    "cs_next_slot s' = cs_next_slot s" "cs_locked s' = cs_locked s"
    "cancellation_state.more s' = cancellation_state.more s"
    using Cons.IH [of "set_registered n False s"] Cons.prems by auto
  then show ?case using Cons.prems by auto
qed

text \<open>The state in which the callbacks start to run.\<close>

lemma request_first:
  assumes inv: "cs_inv s" and fresh: "\<not> cs_requested s"
  shows "\<exists>s'. request_cancellation True exec r s =
      (True, fold (run_slot exec r) (cs_callbacks s) s') \<and>
    cs_inv s' \<and> cs_requested s' \<and> cs_reason s' = Some r \<and> cs_locked s' = cs_locked s \<and>
    (\<forall>k. map_option slot_callback (cs_slots s' k) = map_option slot_callback (cs_slots s k)) \<and>
    cancellation_state.more s' = cancellation_state.more s"
proof -
  let ?s1 = "s\<lparr>cs_locked := True, cs_requested := True, cs_reason := Some r\<rparr>"
  have reg: "is_registered ?s1 = is_registered s" by (simp add: is_registered_def fun_eq_iff)
  have "distinct (cs_callbacks s)" "\<forall>n\<in>set (cs_callbacks s). is_registered ?s1 n"
    using inv unfolding reg by (auto simp: cs_inv_def)
  from select_callbacks_all [OF this] obtain s2
    where s2: "select_callbacks (cs_callbacks s) ?s1 = (cs_callbacks s, s2)"
    "\<forall>k. is_registered s2 k \<longleftrightarrow> is_registered s k \<and> k \<notin> set (cs_callbacks s)"
    "\<forall>k. map_option slot_callback (cs_slots s2 k) = map_option slot_callback (cs_slots s k)"
    "\<forall>k. cs_slots s2 k = None \<longleftrightarrow> cs_slots s k = None"
    "cs_requested s2" "cs_reason s2 = Some r" "cs_next_slot s2 = cs_next_slot s"
    "cancellation_state.more s2 = cancellation_state.more s"
    unfolding reg by auto
  let ?s' = "s2\<lparr>cs_callbacks := [], cs_locked := cs_locked s\<rparr>"
  have "request_cancellation True exec r s = (True, fold (run_slot exec r) (cs_callbacks s) ?s')"
    using fresh s2(1) by (simp add: request_cancellation_def with_state_lock_def Let_def)
  moreover have "cs_inv ?s'"
    using inv s2 by (auto simp: cs_inv_def is_registered_def)
  ultimately show ?thesis using s2 by auto
qed

lemma request_again:
  assumes "cs_requested s"
  shows "request_cancellation bound exec r s = (False, s)"
  using assms by (simp add: request_cancellation_def with_state_lock_def Let_def)

lemma fold_run_slot:
  assumes "\<And>n. n \<in> set ns \<Longrightarrow> map_option slot_callback (cs_slots s n) = Some (Some (cb n))"
    and keep: "\<And>c s n. map_option slot_callback (cs_slots s n) \<noteq> None \<Longrightarrow>
      map_option slot_callback (cs_slots (exec c r s) n) = map_option slot_callback (cs_slots s n)"
    and eff: "\<And>c s. cancellation_state.more (exec c r s) = f c (cancellation_state.more s)"
  shows "cancellation_state.more (fold (run_slot exec r) ns s) =
    fold f (map cb ns) (cancellation_state.more s)"
  using assms(1)
proof (induction ns arbitrary: s)
  case Nil
  then show ?case by simp
next
  case (Cons n ns)
  have run: "run_slot exec r n s = exec (cb n) r s"
    using Cons.prems [of n] by (auto simp: run_slot_def split: option.splits)
  have "map_option slot_callback (cs_slots (exec (cb n) r s) k) = Some (Some (cb k))"
    if "k \<in> set ns" for k
    using keep [where s = s and n = k and c = "cb n"] Cons.prems [of k] that by simp
  from Cons.IH [OF this] show ?case by (simp add: run eff)
qed

section \<open>Theorems\<close>

text \<open>
  C18. Cancellation is delivered exactly once. On a consistent state that is not yet
  cancelled, \<^verbatim>\<open>request_cancellation\<close> succeeds and runs the callback of every registered slot
  exactly once, in registration order, with the requested reason, whatever else the
  callbacks do through the API; a second request fails and changes nothing. The callbacks
  see the state already cancelled with the first reason, and no registered slot left.
\<close>

theorem cancellation_exactly_once:
  assumes "cs_inv s" and "\<not> cs_requested s"
    and "\<And>n. n \<in> set (cs_callbacks s) \<Longrightarrow>
      map_option slot_callback (cs_slots s n) = Some (Some (cb n))"
    and "\<And>c t n. map_option slot_callback (cs_slots t n) \<noteq> None \<Longrightarrow>
      map_option slot_callback (cs_slots (exec c r t) n) = map_option slot_callback (cs_slots t n)"
    and "\<And>c t. cancellation_state.more (exec c r t) = f c (cancellation_state.more t)"
    and "\<And>c t. cs_requested t \<Longrightarrow> cs_requested (exec c r t)"
  shows "\<exists>s'. request_cancellation True exec r s = (True, s') \<and>
    cancellation_state.more s' = fold f (map cb (cs_callbacks s)) (cancellation_state.more s) \<and>
    request_cancellation True exec r' s' = (False, s')"
proof -
  obtain s1 where s1: "request_cancellation True exec r s =
      (True, fold (run_slot exec r) (cs_callbacks s) s1)"
    "cs_requested s1"
    "\<forall>k. map_option slot_callback (cs_slots s1 k) = map_option slot_callback (cs_slots s k)"
    "cancellation_state.more s1 = cancellation_state.more s"
    using request_first [OF assms(1,2)] by blast
  have "cancellation_state.more (fold (run_slot exec r) (cs_callbacks s) s1) =
      fold f (map cb (cs_callbacks s)) (cancellation_state.more s)"
    using fold_run_slot [of "cs_callbacks s" s1 cb exec r f] assms(3-5) s1 by simp
  moreover have "cs_requested (run_slot exec r n t)" if "cs_requested t" for n t
    using that assms(6) by (auto simp: run_slot_def split: option.splits)
  then have "cs_requested (fold (run_slot exec r) ns t)" if "cs_requested t" for ns t
    using that by (induction ns arbitrary: t) auto
  ultimately show ?thesis
    using s1 request_again by metis
qed

theorem cancellation_exactly_once_witness:
  "\<exists>s'. request_cancellation True
      (\<lambda>c r t. t\<lparr>cancellation_state.more := cancellation_state.more t @ [(c, r)]\<rparr>) manual
      \<lparr>cs_requested = False, cs_reason = None, cs_callbacks = [0, 1],
       cs_slots = [0 \<mapsto> \<lparr>slot_callback = Some (10::nat), slot_registered = True\<rparr>,
                   1 \<mapsto> \<lparr>slot_callback = Some 11, slot_registered = True\<rparr>],
       cs_next_slot = 2, cs_locked = False, \<dots> = []\<rparr> = (True, s') \<and>
     cancellation_state.more s' = [(10, manual), (11, manual)]"
proof -
  let ?s = "\<lparr>cs_requested = False, cs_reason = None, cs_callbacks = [0, 1],
       cs_slots = [0 \<mapsto> \<lparr>slot_callback = Some (10::nat), slot_registered = True\<rparr>,
                   1 \<mapsto> \<lparr>slot_callback = Some 11, slot_registered = True\<rparr>],
       cs_next_slot = 2, cs_locked = False, \<dots> = ([] :: (nat \<times> cancellation_reason) list)\<rparr>"
  have "cs_inv ?s"
    by (auto simp: cs_inv_def is_registered_def split: if_splits)
  then have "\<exists>s'. request_cancellation True
        (\<lambda>c r t. t\<lparr>cancellation_state.more := cancellation_state.more t @ [(c, r)]\<rparr>) manual ?s =
          (True, s') \<and>
      cancellation_state.more s' = fold (\<lambda>c l. l @ [(c, manual)])
        (map (\<lambda>n. n + 10) (cs_callbacks ?s)) (cancellation_state.more ?s) \<and>
      request_cancellation True
        (\<lambda>c r t. t\<lparr>cancellation_state.more := cancellation_state.more t @ [(c, r)]\<rparr>) manual s' =
          (False, s')"
    by (rule cancellation_exactly_once) auto
  then show ?thesis by auto
qed

text \<open>
  The first request wins: once a state is cancelled, no later request, registration or
  unregistration changes the stored reason or clears the request; late registrations run
  their callback immediately with that first reason and leave nothing registered.
\<close>

theorem cancellation_first_reason_wins:
  assumes "cs_inv s" and "cs_requested s"
    and "cs_reason s = Some r0"
  shows "request_cancellation bound exec r s = (False, s) \<and>
    cs_reason (cs_unregister reg s) = Some r0 \<and> cs_requested (cs_unregister reg s) \<and>
    (\<exists>s1. register_callback True exec (Some c) s = (None, exec c r0 s1) \<and> cs_inv s1 \<and>
       cs_requested s1 \<and> cs_reason s1 = Some r0 \<and> cs_callbacks s1 = [] \<and>
       cancellation_state.more s1 = cancellation_state.more s \<and> cs_locked s1 = cs_locked s)"
proof -
  let ?s1 = "set_registered (cs_next_slot s) False
    (s\<lparr>cs_slots := (cs_slots s)(cs_next_slot s \<mapsto>
         \<lparr>slot_callback = Some c, slot_registered = True\<rparr>),
       cs_next_slot := cs_next_slot s + 1\<rparr>)"
  have reg: "register_callback True exec (Some c) s = (None, exec c r0 ?s1)"
    using assms(2,3) by (simp add: register_callback_def with_state_lock_def Let_def)
  have none: "\<not> is_registered s n" for n
    using assms(1,2) by (auto simp: cs_inv_def)
  have "is_registered ?s1 n \<longleftrightarrow> False" for n
    using none [of n] by (simp only: is_registered_set) (auto simp: is_registered_def)
  then have "cs_inv ?s1"
    using assms by (auto simp: cs_inv_def less_Suc_eq)
  moreover have "cs_reason (cs_unregister reg s) = Some r0 \<and> cs_requested (cs_unregister reg s)"
    using assms none by (cases reg) (simp_all add: cs_unregister_Some, simp add: cs_unregister_def)
  moreover have "cs_requested ?s1" "cs_reason ?s1 = Some r0" "cs_callbacks ?s1 = []"
    "cancellation_state.more ?s1 = cancellation_state.more s" "cs_locked ?s1 = cs_locked s"
    using assms by (simp_all add: cs_inv_def)
  ultimately show ?thesis
    using reg request_again [OF assms(2)] by blast
qed

theorem cancellation_first_reason_wins_witness:
  "fst (register_callback True (\<lambda>c r t. t\<lparr>cancellation_state.more := Some r\<rparr>) (Some (1::nat))
      \<lparr>cs_requested = True, cs_reason = Some scope_shutdown, cs_callbacks = [],
       cs_slots = Map.empty, cs_next_slot = 0, cs_locked = False, \<dots> = None\<rparr>) = None"
proof -
  let ?s = "\<lparr>cs_requested = True, cs_reason = Some scope_shutdown, cs_callbacks = [],
       cs_slots = (Map.empty :: nat \<rightharpoonup> nat callback_slot), cs_next_slot = 0, cs_locked = False, \<dots> = (None :: cancellation_reason option)\<rparr>"
  have "cs_inv ?s" by (simp add: cs_inv_def is_registered_def)
  from cancellation_first_reason_wins [OF this, of scope_shutdown True
      "\<lambda>c r t. t\<lparr>cancellation_state.more := Some r\<rparr>" manual None "1::nat"]
  show ?thesis by auto
qed

end
