(* ===== verification/Clock.thy ===== *)
theory Clock
  imports Cancel_State
begin

text \<open>
  \<^verbatim>\<open>include/voris/io/virtual_clock.hpp\<close>, \<^verbatim>\<open>include/voris/io/deadline.hpp\<close>, \<^verbatim>\<open>src/deadline.cpp\<close>
  and the sleep coroutines of \<^verbatim>\<open>src/timer.cpp\<close>. Time points and durations are nanosecond
  counts in \<open>int\<close>: the source computes them in a signed 64-bit count, whose overflow is
  undefined in C++, so \<open>within_rep\<close> states where the two agree. A coroutine body that never
  suspends is the function of its effect.
\<close>

section \<open>Virtual clock\<close>

definition within_rep :: "int \<Rightarrow> bool" where
  "within_rep t \<longleftrightarrow> - (2 ^ 63) \<le> t \<and> t < 2 ^ 63"

record virtual_clock =
  vc_current :: int

definition vc_create :: "int \<Rightarrow> virtual_clock" where
  "vc_create initial = \<lparr>vc_current = initial\<rparr>"

definition vc_now :: "virtual_clock \<Rightarrow> int" where
  "vc_now c = vc_current c"

definition vc_advance_to :: "int \<Rightarrow> virtual_clock \<Rightarrow> int io_result \<times> virtual_clock" where
  "vc_advance_to target c =
     (if target < vc_current c
      then (Inl (make_error_diagnostic invalid_state ''virtual clock cannot move backwards''), c)
      else let c' = c\<lparr>vc_current := target\<rparr> in (Inr (vc_current c'), c'))"

definition vc_advance_by :: "int \<Rightarrow> virtual_clock \<Rightarrow> int io_result \<times> virtual_clock" where
  "vc_advance_by delta c =
     (if delta < 0
      then (Inl (make_error_diagnostic invalid_state ''virtual clock cannot move backwards''), c)
      else vc_advance_to (vc_current c + delta) c)"

definition sleep_until :: "int \<Rightarrow> virtual_clock \<Rightarrow> virtual_clock" where
  "sleep_until t c = (if vc_now c < t then snd (vc_advance_to t c) else c)"

definition sleep_for :: "int \<Rightarrow> virtual_clock \<Rightarrow> virtual_clock" where
  "sleep_for d c = (if d < 0 then c else snd (vc_advance_by d c))"

section \<open>Deadlines\<close>

text \<open>
  \<open>normalize num den p\<close> is \<^verbatim>\<open>duration_cast\<close> of a count of ticks of \<open>num/den\<close> seconds to
  nanoseconds: multiply, then divide truncating towards zero.
\<close>

definition normalize :: "nat \<Rightarrow> nat \<Rightarrow> int \<Rightarrow> int" where
  "normalize num den p =
     (let x = p * (int num * 10 ^ 9); d = int den
      in if 0 \<le> x then x div d else - ((- x) div d))"

record deadline_limit =
  when_time :: "int option"

definition deadline_none :: deadline_limit where
  "deadline_none = \<lparr>when_time = None\<rparr>"

definition make_deadline :: "nat \<Rightarrow> nat \<Rightarrow> int \<Rightarrow> deadline_limit" where
  "make_deadline num den p = \<lparr>when_time = Some (normalize num den p)\<rparr>"

definition deadline_has_value :: "deadline_limit \<Rightarrow> bool" where
  "deadline_has_value d \<longleftrightarrow> when_time d \<noteq> None"

definition deadline_time :: "deadline_limit \<Rightarrow> int option" where
  "deadline_time d = when_time d"

definition deadline_expired :: "nat \<Rightarrow> nat \<Rightarrow> deadline_limit \<Rightarrow> int \<Rightarrow> bool" where
  "deadline_expired num den d now =
     (case when_time d of None \<Rightarrow> False | Some w \<Rightarrow> normalize num den now \<ge> w)"

definition deadline_remaining :: "nat \<Rightarrow> nat \<Rightarrow> deadline_limit \<Rightarrow> int \<Rightarrow> int option" where
  "deadline_remaining num den d now =
     (case when_time d of
        None \<Rightarrow> None
      | Some w \<Rightarrow>
          (let normalized_now = normalize num den now
           in if normalized_now \<ge> w then Some 0 else Some (w - normalized_now)))"

definition deadline_cancellation_error :: vio_error where
  "deadline_cancellation_error = make_error_diagnostic deadline_exceeded ''deadline exceeded''"

definition deadline_cancellation_reason :: cancellation_reason where
  "deadline_cancellation_reason = deadline_reason"

definition request_cancellation_if_expired ::
  "bool \<Rightarrow> ('c, 'e) callback_exec \<Rightarrow> nat \<Rightarrow> nat \<Rightarrow> deadline_limit \<Rightarrow> int \<Rightarrow>
     ('c, 'e) cancellation_state_scheme \<Rightarrow> bool \<times> ('c, 'e) cancellation_state_scheme" where
  "request_cancellation_if_expired bound exec num den limit now s =
     (if \<not> deadline_expired num den limit now then (False, s)
      else request_cancellation bound exec deadline_cancellation_reason s)"

section \<open>Lemmas\<close>

lemma vc_advance_to_monotone: "vc_current c \<le> vc_current (snd (vc_advance_to t c))"
  by (simp add: vc_advance_to_def Let_def)

lemma vc_advance_by_monotone: "vc_current c \<le> vc_current (snd (vc_advance_by d c))"
  by (simp add: vc_advance_by_def vc_advance_to_monotone)

lemma normalize_mono:
  assumes "p \<le> q"
  shows "normalize num den p \<le> normalize num den q"
proof -
  have le: "p * (int num * 10 ^ 9) \<le> q * (int num * 10 ^ 9)"
    using assms by (intro mult_right_mono) auto
  have neg: "- ((- (p * (int num * 10 ^ 9))) div int den) \<le> 0" if "p * (int num * 10 ^ 9) < 0"
    using that by (simp add: pos_imp_zdiv_nonneg_iff div_int_pos_iff)
  show ?thesis
    using le neg unfolding normalize_def Let_def
    by (cases "den = 0")
      (auto intro!: zdiv_mono1 dest: order.trans simp: pos_imp_zdiv_nonneg_iff
        intro: order.trans [of _ 0])
qed

text \<open>A sequence of clock operations; each one reports the clock it leaves.\<close>

datatype clock_op = Advance_to int | Advance_by int | Sleep_until int | Sleep_for int

fun clock_step :: "clock_op \<Rightarrow> virtual_clock \<Rightarrow> virtual_clock" where
  "clock_step (Advance_to t) c = snd (vc_advance_to t c)"
| "clock_step (Advance_by d) c = snd (vc_advance_by d c)"
| "clock_step (Sleep_until t) c = sleep_until t c"
| "clock_step (Sleep_for d) c = sleep_for d c"

lemma clock_step_monotone: "vc_current c \<le> vc_current (clock_step op c)"
  by (cases op) (auto simp: vc_advance_to_monotone vc_advance_by_monotone sleep_until_def
      sleep_for_def)

section \<open>Theorems\<close>

text \<open>
  The virtual clock is monotonic: no sequence of advances and sleeps, failed ones
  included, moves it backwards; and a sleep always returns with the clock at or after its
  target.
\<close>

theorem virtual_clock_monotonic:
  "vc_now c \<le> vc_now (fold clock_step ops c) \<and>
   vc_now (sleep_until t c) = max t (vc_now c) \<and>
   vc_now (sleep_for d c) = vc_now c + max 0 d"
proof -
  have "vc_current c \<le> vc_current (fold clock_step ops c)"
    by (induction ops arbitrary: c) (auto intro: order.trans clock_step_monotone)
  then show ?thesis
    by (simp add: vc_now_def sleep_until_def sleep_for_def vc_advance_to_def vc_advance_by_def
        Let_def)
qed

text \<open>
  A deadline and its remaining time agree, and expiry is stable: the remaining time is
  never negative, is zero exactly from the deadline on, an expired deadline stays expired at
  every later time of any steady clock, and only an expired deadline requests cancellation,
  with the deadline reason, the first time it does.
\<close>

theorem deadline_expiry_stable:
  assumes "now \<le> later"
  shows "(deadline_expired num den d now \<longrightarrow> deadline_expired num den d later) \<and>
    (deadline_expired num den d now \<longleftrightarrow> deadline_remaining num den d now = Some 0) \<and>
    (\<forall>x. deadline_remaining num den d now = Some x \<longrightarrow> 0 \<le> x) \<and>
    (deadline_remaining num den d now = None \<longleftrightarrow> \<not> deadline_has_value d) \<and>
    (\<not> deadline_expired num den d now \<longrightarrow>
       request_cancellation_if_expired bound exec num den d now s = (False, s)) \<and>
    (deadline_expired num den d now \<and> cs_requested s \<longrightarrow>
       request_cancellation_if_expired bound exec num den d now s = (False, s)) \<and>
    (deadline_expired num den d now \<longrightarrow> cs_inv s \<longrightarrow> \<not> cs_requested s \<longrightarrow>
       (\<exists>s1. request_cancellation_if_expired True exec num den d now s =
          (True, fold (run_slot exec deadline_reason) (cs_callbacks s) s1) \<and>
          cs_reason s1 = Some deadline_reason))"
proof -
  have "deadline_expired num den d later" if "deadline_expired num den d now"
    using that normalize_mono [OF assms, of num den]
    by (auto simp: deadline_expired_def split: option.splits)
  moreover have "\<exists>s1. request_cancellation_if_expired True exec num den d now s =
      (True, fold (run_slot exec deadline_reason) (cs_callbacks s) s1) \<and>
      cs_reason s1 = Some deadline_reason"
    if "deadline_expired num den d now" "cs_inv s" "\<not> cs_requested s"
    using request_first [OF that(2,3), of exec deadline_reason] that(1)
    by (auto simp: request_cancellation_if_expired_def deadline_cancellation_reason_def)
  ultimately show ?thesis
    by (auto simp: deadline_expired_def deadline_remaining_def deadline_has_value_def Let_def
        request_cancellation_if_expired_def request_again split: option.splits)
qed

theorem deadline_expiry_stable_witness:
  "deadline_expired 1 1000 (make_deadline 1 1000000000 1999999) 2 \<and>
   \<not> deadline_expired 1 1000 (make_deadline 1 1000000000 1999999) 1 \<and>
   deadline_remaining 1 1000 (make_deadline 1 1000000000 1999999) 1 = Some 999999 \<and>
   deadline_expired 1 1000 (make_deadline 1 1000000000 1999999) 5"
proof -
  have "deadline_expired 1 1000 (make_deadline 1 1000000000 1999999) 2"
    by (simp add: deadline_expired_def make_deadline_def normalize_def)
  moreover have "deadline_expired 1 1000 (make_deadline 1 1000000000 1999999) 5"
    using deadline_expiry_stable [where now = 2 and later = 5 and num = 1 and den = 1000
        and d = "make_deadline 1 1000000000 1999999" and bound = True
        and exec = "\<lambda>c r t. t" and s = "cs_init :: nat cancellation_state"] calculation by simp
  ultimately show ?thesis
    by (simp add: deadline_expired_def deadline_remaining_def make_deadline_def normalize_def)
qed

end
