(* ===== verification/Handle_Registry.thy ===== *)
theory Handle_Registry
  imports Vio_Error
begin

text \<open>
  \<^verbatim>\<open>include/voris/io/detail/native_handle_registry.hpp\<close> and \<^verbatim>\<open>src/native_handle_registry.cpp\<close>:
  the table that tells a current native handle from a stale one after the operating system
  has reused the descriptor. The generation is a \<^verbatim>\<open>std::size_t\<close> that \<^verbatim>\<open>++\<close> wraps.
\<close>

section \<open>Operations\<close>

record native_handle_token =
  tok_id :: size_t
  tok_generation :: size_t

record registry_entry =
  re_generation :: size_t
  re_open :: bool

type_synonym native_handle_registry = "size_t \<rightharpoonup> registry_entry"

text \<open>\<^verbatim>\<open>entries_[native_handle]\<close> inserts a default entry when there is none.\<close>

definition reg_lookup :: "native_handle_registry \<Rightarrow> size_t \<Rightarrow> registry_entry" where
  "reg_lookup r h =
     (case r h of None \<Rightarrow> \<lparr>re_generation = 0, re_open = False\<rparr> | Some e \<Rightarrow> e)"

definition reg_register ::
  "size_t \<Rightarrow> native_handle_registry \<Rightarrow> native_handle_token io_result \<times> native_handle_registry" where
  "reg_register native_handle r =
     (if native_handle = 0
      then (Inl (make_error_diagnostic invalid_state ''native handle id must be non-zero''), r)
      else
        (let e = reg_lookup r native_handle; r1 = r(native_handle \<mapsto> e)
         in if re_open e
            then (Inl (make_error_diagnostic invalid_state ''native handle is already registered''),
                  r1)
            else
              (let e' = \<lparr>re_generation = re_generation e + 1, re_open = True\<rparr>
               in (Inr \<lparr>tok_id = native_handle, tok_generation = re_generation e'\<rparr>,
                   r1(native_handle \<mapsto> e')))))"

definition reg_close ::
  "native_handle_token \<Rightarrow> native_handle_registry \<Rightarrow> void_result \<times> native_handle_registry" where
  "reg_close token r =
     (case r (tok_id token) of
        None \<Rightarrow> (Inl (make_error_diagnostic invalid_state ''stale native handle token''), r)
      | Some e \<Rightarrow>
          if re_generation e \<noteq> tok_generation token \<or> \<not> re_open e
          then (Inl (make_error_diagnostic invalid_state ''stale native handle token''), r)
          else (Inr (), r(tok_id token \<mapsto> e\<lparr>re_open := False\<rparr>)))"

definition reg_is_current :: "native_handle_token \<Rightarrow> native_handle_registry \<Rightarrow> bool" where
  "reg_is_current token r =
     (case r (tok_id token) of
        None \<Rightarrow> False
      | Some e \<Rightarrow> re_open e \<and> re_generation e = tok_generation token)"

definition reg_generation :: "size_t \<Rightarrow> native_handle_registry \<Rightarrow> size_t" where
  "reg_generation native_handle r =
     (case r native_handle of None \<Rightarrow> 0 | Some e \<Rightarrow> re_generation e)"

section \<open>Runs of registry operations\<close>

datatype registry_op = Register size_t | Close native_handle_token

text \<open>A run also counts the successful registrations of the handle \<open>h\<close>.\<close>

fun reg_run :: "size_t \<Rightarrow> registry_op list \<Rightarrow> native_handle_registry \<Rightarrow> nat \<times> native_handle_registry"
  where
  "reg_run h [] r = (0, r)"
| "reg_run h (Register k # ops) r =
     (let (res, r1) = reg_register k r; (n, r2) = reg_run h ops r1
      in (if k = h \<and> isl res = False then Suc n else n, r2))"
| "reg_run h (Close t # ops) r = reg_run h ops (snd (reg_close t r))"

definition reg_open :: "size_t \<Rightarrow> native_handle_registry \<Rightarrow> bool" where
  "reg_open h r = re_open (reg_lookup r h)"

lemma reg_is_current_alt:
  "reg_is_current t r \<longleftrightarrow> reg_open (tok_id t) r \<and> reg_generation (tok_id t) r = tok_generation t"
  by (auto simp: reg_is_current_def reg_open_def reg_lookup_def reg_generation_def
      split: option.splits)

lemma reg_register_effect:
  assumes "reg_register k r = (res, r')"
  shows "reg_generation h r' =
      (if k = h \<and> \<not> isl res then reg_generation h r + 1 else reg_generation h r)"
    and "reg_open h r' \<longleftrightarrow> reg_open h r \<or> (k = h \<and> \<not> isl res)"
    and "isl res \<longleftrightarrow> k = 0 \<or> reg_open k r"
    and "\<not> isl res \<Longrightarrow> reg_is_current (projr res) r'"
  using assms
  by (auto simp: reg_register_def reg_generation_def reg_open_def reg_lookup_def Let_def
      reg_is_current_def split: if_splits option.splits)

lemma reg_close_effect:
  assumes "reg_close t r = (res, r')"
  shows "reg_generation h r' = reg_generation h r"
    and "isl res \<longleftrightarrow> \<not> reg_is_current t r"
    and "reg_open h r' \<longleftrightarrow> reg_open h r \<and> (isl res \<or> h \<noteq> tok_id t)"
  using assms
  by (auto simp: reg_close_def reg_generation_def reg_open_def reg_lookup_def reg_is_current_def
      split: if_splits option.splits)

lemma reg_run_effect:
  assumes "reg_run h ops r = (n, r')"
  shows "reg_generation h r' = reg_generation h r + of_nat n \<and>
    (n = 0 \<longrightarrow> reg_open h r' \<longrightarrow> reg_open h r)"
  using assms
proof (induction ops arbitrary: r n)
  case Nil
  then show ?case by simp
next
  case (Cons op ops)
  show ?case
  proof (cases op)
    case (Register k)
    obtain res r1 m where r1: "reg_register k r = (res, r1)" and run: "reg_run h ops r1 = (m, r')"
      and n: "n = (if k = h \<and> \<not> isl res then Suc m else m)"
      using Cons.prems Register by (auto simp: Let_def split: prod.splits)
    then show ?thesis
      using Cons.IH [OF run] reg_register_effect(1,2) [OF r1, of h] by (auto split: if_splits)
  next
    case (Close t)
    obtain res r1 where r1: "reg_close t r = (res, r1)" by fastforce
    then have run: "reg_run h ops r1 = (n, r')" using Cons.prems Close by simp
    then show ?thesis
      using Cons.IH [OF run] reg_close_effect(1,3) [OF r1, of h] by auto
  qed
qed

lemma of_nat_size_t_eq_0:
  assumes "(of_nat n :: size_t) = 0" and "n < 2 ^ 64"
  shows "n = 0"
  using assms by (auto simp: word_of_nat_eq_0_iff dest: nat_dvd_not_less)

section \<open>Theorems\<close>

text \<open>
  C20. Stale handle tokens are never current again. A registration returns a current token;
  once that token has been closed, no sequence of further registrations and closings makes
  it current, as long as its handle is registered successfully fewer than \<open>2 ^ 64\<close> times,
  the period of the generation counter.
\<close>

theorem stale_token_never_current:
  assumes "reg_register h r = (Inr t, r1)" and "reg_run h ops r1 = (n1, r2)"
    and "reg_close t r2 = (Inr (), r3)" and "reg_run h ops' r3 = (n, r4)" and "n < 2 ^ 64"
  shows "reg_is_current t r1 \<and> \<not> reg_is_current t r4"
proof -
  have tok: "tok_id t = h"
    using assms(1) by (auto simp: reg_register_def Let_def split: if_splits)
  have cur: "reg_is_current t r2"
    using reg_close_effect(2) [OF assms(3)] by simp
  have shut: "\<not> reg_open h r3" "reg_generation h r3 = tok_generation t"
    using reg_close_effect(1,3) [OF assms(3), of h] cur tok by (auto simp: reg_is_current_alt)
  have "\<not> reg_is_current t r4"
  proof
    assume "reg_is_current t r4"
    then have "(of_nat n :: size_t) = 0" "reg_open h r4"
      using reg_run_effect [OF assms(4)] shut(2) tok by (auto simp: reg_is_current_alt)
    then show False
      using of_nat_size_t_eq_0 [OF _ assms(5)] reg_run_effect [OF assms(4)] shut(1) by blast
  qed
  then show ?thesis
    using reg_register_effect(4) [OF assms(1)] by simp
qed

theorem stale_token_never_current_witness:
  "reg_is_current \<lparr>tok_id = 7, tok_generation = 1\<rparr> (snd (reg_register 7 Map.empty)) \<and>
   \<not> reg_is_current \<lparr>tok_id = 7, tok_generation = 1\<rparr>
      (snd (reg_run 7 [Register 7]
        (snd (reg_close \<lparr>tok_id = 7, tok_generation = 1\<rparr> (snd (reg_register 7 Map.empty))))))"
proof -
  let ?t = "\<lparr>tok_id = 7, tok_generation = 1\<rparr> :: native_handle_token"
  let ?r1 = "snd (reg_register 7 Map.empty)"
  let ?r3 = "snd (reg_close ?t ?r1)"
  have "reg_register 7 Map.empty = (Inr ?t, ?r1)" "reg_run 7 [] ?r1 = (0, ?r1)"
    "reg_close ?t ?r1 = (Inr (), ?r3)"
    "reg_run 7 [Register 7] ?r3 = (1, snd (reg_run 7 [Register 7] ?r3))"
    by (simp_all add: reg_register_def reg_lookup_def reg_close_def Let_def)
  from stale_token_never_current [OF this] show ?thesis by simp
qed

end
