(* ===== verification/Ledger.thy ===== *)
theory Ledger
  imports Prelude
begin

text \<open>
  The contract every backend makes with its callers: an operation that \<^verbatim>\<open>submit\<close> accepts
  is delivered by \<^verbatim>\<open>drain_completions\<close> exactly once. One step of a backend reports the
  identifiers it accepted and those it delivered; the outstanding ones are its pending
  operations and its undelivered completions. The locale is interpreted for every backend
  of the development.
\<close>

text \<open>A run returns all accepted identifiers, all delivered ones, and the final state.\<close>

fun ledger_run :: "('op \<Rightarrow> 's \<Rightarrow> 'i list \<times> 'i list \<times> 's) \<Rightarrow> 'op list \<Rightarrow> 's \<Rightarrow>
    'i list \<times> 'i list \<times> 's" where
  "ledger_run step [] s = ([], [], s)"
| "ledger_run step (op # ops) s =
     (let (a, d, s1) = step op s; (as, ds, s2) = ledger_run step ops s1 in (a @ as, d @ ds, s2))"

lemma ledger_run_append:
  assumes "ledger_run step ops s = (a, d, s1)" and "ledger_run step ops' s1 = (a', d', s2)"
  shows "ledger_run step (ops @ ops') s = (a @ a', d @ d', s2)"
  using assms
  by (induction ops arbitrary: s a d) (auto simp: Let_def split: prod.splits)

locale operation_ledger =
  fixes step :: "'op \<Rightarrow> 's \<Rightarrow> 'i list \<times> 'i list \<times> 's"
    and outstanding :: "'s \<Rightarrow> 'i list"
    and ok :: "'s \<Rightarrow> bool"
  assumes step_ok: "ok s \<Longrightarrow> step op s = (a, d, s') \<Longrightarrow> ok s'"
    and step_balance: "ok s \<Longrightarrow> step op s = (a, d, s') \<Longrightarrow>
      mset (outstanding s) + mset a = mset (outstanding s') + mset d"
    and unique: "ok s \<Longrightarrow> distinct (outstanding s)"
begin

lemma run_balance:
  assumes "ok s" and "ledger_run step ops s = (as, ds, s')"
  shows "ok s' \<and> mset (outstanding s) + mset as = mset (outstanding s') + mset ds"
  using assms
proof (induction ops arbitrary: s as ds)
  case Nil
  then show ?case by simp
next
  case (Cons op ops)
  obtain a d s1 as1 ds1 where st: "step op s = (a, d, s1)"
    and run: "ledger_run step ops s1 = (as1, ds1, s')" and eq: "as = a @ as1" "ds = d @ ds1"
    using Cons.prems by (auto simp: Let_def split: prod.splits)
  have "ok s1" using step_ok Cons.prems st by blast
  from Cons.IH [OF this run] have ih: "ok s'"
    "mset (outstanding s1) + mset as1 = mset (outstanding s') + mset ds1" by auto
  have "mset (outstanding s) + mset as = mset (outstanding s1) + mset d + mset as1"
    using step_balance [OF Cons.prems(1) st] by (simp add: eq union_assoc [symmetric])
  also have "\<dots> = mset (outstanding s') + mset ds"
    using ih(2) by (simp add: eq union_assoc union_commute [of "mset d"])
  finally show ?case using ih(1) by simp
qed

text \<open>From an empty state: what was accepted was delivered, or is outstanding exactly once.\<close>

lemma run_exactly_once:
  assumes "ok s" and "outstanding s = []" and "ledger_run step ops s = (as, ds, s')"
  shows "mset as = mset ds + mset (outstanding s') \<and> distinct (outstanding s')"
  using run_balance [OF assms(1,3)] unique assms(2) by (simp add: ac_simps)

lemma run_drained:
  assumes "ok s" and "outstanding s = []" and "ledger_run step ops s = (as, ds, s')"
    and "outstanding s' = []"
  shows "mset as = mset ds"
  using run_exactly_once [OF assms(1-3)] assms(4) by simp

end

end
