(* ===== verification/Backend.thy ===== *)
theory Backend
  imports Handle_Registry Ledger Cancel_State
begin

text \<open>
  \<^verbatim>\<open>include/voris/io/backend.hpp\<close> and \<^verbatim>\<open>src/backend.cpp\<close>: operations, completions and the
  deterministic \<^verbatim>\<open>virtual_backend\<close>, which the operating-system backends also use for their
  bookkeeping. A borrowed buffer is a span: an address and a size. The scheduler carried by
  an operation is a type parameter, since no backend looks inside it. An output span is the
  list of its cells, returned with the cells the call has overwritten.
\<close>

section \<open>Operations and completions\<close>

datatype backend_operation_kind =
    op_read | op_write | op_accept | op_connect | op_fsync | op_close | op_wake

datatype backend_operation_target = target_socket | target_file

record backend_handle_token =
  native_handle :: size_t
  generation :: size_t

record byte_span =
  span_data :: size_t
  span_size :: size_t

record 'r backend_operation =
  op_id :: size_t
  op_kind :: backend_operation_kind
  op_target :: backend_operation_target
  op_scheduler :: 'r
  op_handle :: backend_handle_token
  op_read_buffer :: byte_span
  op_write_buffer :: byte_span
  op_socket_address :: byte_span
  op_offset :: uint64

record backend_completion =
  bc_operation_id :: size_t
  bc_result :: void_result
  bc_bytes_transferred :: size_t
  bc_accepted_native_handle :: size_t

definition make_completion :: "size_t \<Rightarrow> void_result \<Rightarrow> backend_completion" where
  "make_completion i res = \<lparr>bc_operation_id = i, bc_result = res, bc_bytes_transferred = 0,
     bc_accepted_native_handle = 0\<rparr>"

definition is_socket_backend_operation :: "('r, 'z) backend_operation_scheme \<Rightarrow> bool" where
  "is_socket_backend_operation operation =
     (if op_target operation \<noteq> target_socket then False
      else (case op_kind operation of
              op_read \<Rightarrow> True | op_write \<Rightarrow> True | op_accept \<Rightarrow> True | op_connect \<Rightarrow> True
            | op_fsync \<Rightarrow> False | op_close \<Rightarrow> False | op_wake \<Rightarrow> False))"

definition is_file_backend_operation :: "('r, 'z) backend_operation_scheme \<Rightarrow> bool" where
  "is_file_backend_operation operation =
     (if op_target operation \<noteq> target_file then False
      else (case op_kind operation of
              op_read \<Rightarrow> True | op_write \<Rightarrow> True | op_fsync \<Rightarrow> True
            | op_accept \<Rightarrow> False | op_connect \<Rightarrow> False | op_close \<Rightarrow> False | op_wake \<Rightarrow> False))"

definition is_valid_backend_operation_shape :: "('r, 'z) backend_operation_scheme \<Rightarrow> bool" where
  "is_valid_backend_operation_shape operation \<longleftrightarrow>
     is_socket_backend_operation operation \<or> is_file_backend_operation operation"

definition to_native_token :: "backend_handle_token \<Rightarrow> native_handle_token" where
  "to_native_token token = \<lparr>tok_id = native_handle token, tok_generation = generation token\<rparr>"

definition to_backend_token :: "native_handle_token \<Rightarrow> backend_handle_token" where
  "to_backend_token token = \<lparr>native_handle = tok_id token, generation = tok_generation token\<rparr>"

definition closed_completion :: void_result where
  "closed_completion = Inl (make_error closed None [])"

definition invalid_state_result :: "string \<Rightarrow> void_result" where
  "invalid_state_result d = Inl (make_error_diagnostic invalid_state d)"

section \<open>The virtual backend\<close>

record 'r virtual_backend =
  vb_registry :: native_handle_registry
  vb_pending :: "'r backend_operation list"
  vb_completions :: "backend_completion list"
  vb_active_ids :: "size_t set"
  vb_registered :: size_t
  vb_submitted :: size_t
  vb_cancelled :: size_t
  vb_wakeups :: size_t
  vb_stopped :: bool

definition vb_init :: "'r virtual_backend" where
  "vb_init = \<lparr>vb_registry = Map.empty, vb_pending = [], vb_completions = [], vb_active_ids = {},
     vb_registered = 0, vb_submitted = 0, vb_cancelled = 0, vb_wakeups = 0, vb_stopped = False\<rparr>"

definition vb_is_current_handle :: "backend_handle_token \<Rightarrow> 'r virtual_backend \<Rightarrow> bool" where
  "vb_is_current_handle token b = reg_is_current (to_native_token token) (vb_registry b)"

definition vb_register_handle ::
  "size_t \<Rightarrow> 'r virtual_backend \<Rightarrow> backend_handle_token io_result \<times> 'r virtual_backend" where
  "vb_register_handle h b =
     (if vb_stopped b then (Inl (make_error closed None []), b)
      else
        (case reg_register h (vb_registry b) of
           (Inl e, r) \<Rightarrow> (Inl e, b\<lparr>vb_registry := r\<rparr>)
         | (Inr t, r) \<Rightarrow>
             (Inr (to_backend_token t),
              b\<lparr>vb_registry := r, vb_registered := vb_registered b + 1\<rparr>)))"

definition vb_submit ::
  "'r backend_operation \<Rightarrow> 'r virtual_backend \<Rightarrow> void_result \<times> 'r virtual_backend" where
  "vb_submit operation b =
     (if vb_stopped b then (Inl (make_error closed None []), b)
      else if op_id operation = 0
      then (invalid_state_result ''operation id must be non-zero'', b)
      else if \<not> is_valid_backend_operation_shape operation
      then (invalid_state_result ''operation kind and target are incompatible'', b)
      else if \<not> vb_is_current_handle (op_handle operation) b
      then (invalid_state_result ''operation handle token is not current'', b)
      else if op_id operation \<in> vb_active_ids b
      then (invalid_state_result ''operation id is already active'', b)
      else
        (Inr (), b\<lparr>vb_active_ids := insert (op_id operation) (vb_active_ids b),
                   vb_pending := vb_pending b @ [operation],
                   vb_submitted := vb_submitted b + 1\<rparr>))"

definition vb_cancel ::
  "size_t \<Rightarrow> cancellation_reason \<Rightarrow> 'r virtual_backend \<Rightarrow> void_result \<times> 'r virtual_backend" where
  "vb_cancel operation_id reason b =
     (if vb_stopped b then (Inl (make_error closed None []), b)
      else if operation_id = 0
      then (invalid_state_result ''operation id must be non-zero'', b)
      else
        (case find (\<lambda>p. op_id p = operation_id) (vb_pending b) of
           None \<Rightarrow> (invalid_state_result ''operation id is not pending'', b)
         | Some _ \<Rightarrow> (Inr (), b\<lparr>vb_cancelled := vb_cancelled b + 1\<rparr>)))"

text \<open>
  The two \<^verbatim>\<open>complete_pending\<close> loops: the iterator erases the matching operations and appends
  a completion for each.
\<close>

fun complete_loop ::
  "('r backend_operation \<Rightarrow> bool) \<Rightarrow> void_result \<Rightarrow> 'r backend_operation list \<Rightarrow>
     backend_completion list \<Rightarrow> 'r backend_operation list \<times> backend_completion list" where
  "complete_loop matches res [] completions = ([], completions)"
| "complete_loop matches res (p # ps) completions =
     (if matches p
      then complete_loop matches res ps (completions @ [make_completion (op_id p) res])
      else let (kept, cs) = complete_loop matches res ps completions in (p # kept, cs))"

definition vb_complete_pending ::
  "backend_handle_token \<Rightarrow> void_result \<Rightarrow> 'r virtual_backend \<Rightarrow> 'r virtual_backend" where
  "vb_complete_pending token res b =
     (let (ps, cs) = complete_loop (\<lambda>p. op_handle p = token) res (vb_pending b) (vb_completions b)
      in b\<lparr>vb_pending := ps, vb_completions := cs\<rparr>)"

definition kind_matches ::
  "backend_operation_kind \<Rightarrow> 'r backend_operation \<Rightarrow> bool" where
  "kind_matches readiness_kind p \<longleftrightarrow>
     is_socket_backend_operation p \<and>
     ((readiness_kind = op_read \<and> (op_kind p = op_read \<or> op_kind p = op_accept)) \<or>
      (readiness_kind = op_write \<and> (op_kind p = op_write \<or> op_kind p = op_connect)))"

definition vb_complete_pending_kind ::
  "backend_handle_token \<Rightarrow> backend_operation_kind \<Rightarrow> void_result \<Rightarrow> 'r virtual_backend \<Rightarrow>
     'r virtual_backend" where
  "vb_complete_pending_kind token readiness_kind res b =
     (let (ps, cs) = complete_loop (\<lambda>p. op_handle p = token \<and> kind_matches readiness_kind p) res
                       (vb_pending b) (vb_completions b)
      in b\<lparr>vb_pending := ps, vb_completions := cs\<rparr>)"

definition vb_complete_ready ::
  "backend_handle_token \<Rightarrow> backend_operation_kind \<Rightarrow> 'r virtual_backend \<Rightarrow>
     void_result \<times> 'r virtual_backend" where
  "vb_complete_ready token readiness_kind b =
     (if \<not> vb_is_current_handle token b
      then (invalid_state_result ''operation handle token is not current'', b)
      else (Inr (), vb_complete_pending_kind token readiness_kind (Inr ()) b))"

definition vb_close_handle ::
  "backend_handle_token \<Rightarrow> 'r virtual_backend \<Rightarrow> void_result \<times> 'r virtual_backend" where
  "vb_close_handle token b =
     (if vb_stopped b then (Inl (make_error closed None []), b)
      else
        (case reg_close (to_native_token token) (vb_registry b) of
           (Inl e, r) \<Rightarrow> (Inl e, b\<lparr>vb_registry := r\<rparr>)
         | (Inr _, r) \<Rightarrow> (Inr (), vb_complete_pending token closed_completion (b\<lparr>vb_registry := r\<rparr>))))"

definition vb_poll :: "'r virtual_backend \<Rightarrow> size_t io_result" where
  "vb_poll b = Inr (of_nat (length (vb_completions b)))"

text \<open>The drain loop, for the indices \<open>index \<dots> index + count - 1\<close>.\<close>

fun vb_drain_loop ::
  "nat \<Rightarrow> nat \<Rightarrow> backend_completion list \<Rightarrow> 'r virtual_backend \<Rightarrow>
     backend_completion list \<times> 'r virtual_backend" where
  "vb_drain_loop 0 index out b = (out, b)"
| "vb_drain_loop (Suc k) index out b =
     (let c = hd (vb_completions b)
      in vb_drain_loop k (Suc index) (out[index := c])
           (b\<lparr>vb_active_ids := vb_active_ids b - {bc_operation_id c},
              vb_completions := tl (vb_completions b)\<rparr>))"

definition vb_drain_completions ::
  "backend_completion list \<Rightarrow> 'r virtual_backend \<Rightarrow>
     size_t io_result \<times> backend_completion list \<times> 'r virtual_backend" where
  "vb_drain_completions out b =
     (if out = []
      then (Inl (make_error_diagnostic invalid_state ''completion drain output must not be empty''),
            out, b)
      else
        (let count = min (length out) (length (vb_completions b));
             (out', b') = vb_drain_loop count 0 out b
         in (Inr (of_nat count), out', b')))"

definition vb_wake :: "'r virtual_backend \<Rightarrow> void_result \<times> 'r virtual_backend" where
  "vb_wake b =
     (if vb_stopped b then (Inl (make_error closed None []), b)
      else (Inr (), b\<lparr>vb_wakeups := vb_wakeups b + 1\<rparr>))"

text \<open>The shutdown loop moves the pending operations, first to last.\<close>

fun shutdown_loop ::
  "'r backend_operation list \<Rightarrow> backend_completion list \<Rightarrow> backend_completion list" where
  "shutdown_loop [] completions = completions"
| "shutdown_loop (p # ps) completions =
     shutdown_loop ps (completions @ [make_completion (op_id p) closed_completion])"

definition vb_shutdown :: "'r virtual_backend \<Rightarrow> void_result \<times> 'r virtual_backend" where
  "vb_shutdown b =
     (if vb_stopped b then (Inr (), b)
      else (Inr (), b\<lparr>vb_stopped := True,
                     vb_completions := shutdown_loop (vb_pending b) (vb_completions b),
                     vb_pending := []\<rparr>))"

definition vb_get_submitted :: "'r virtual_backend \<Rightarrow> size_t" where
  "vb_get_submitted b = vb_submitted b"

definition vb_get_cancelled :: "'r virtual_backend \<Rightarrow> size_t" where
  "vb_get_cancelled b = vb_cancelled b"

definition vb_get_stopped :: "'r virtual_backend \<Rightarrow> bool" where
  "vb_get_stopped b = vb_stopped b"

section \<open>Loops\<close>

lemma complete_loop_eq:
  "complete_loop matches res ps cs =
     (filter (\<lambda>p. \<not> matches p) ps,
      cs @ map (\<lambda>p. make_completion (op_id p) res) (filter matches ps))"
  by (induction ps arbitrary: cs) auto

lemma shutdown_loop_eq:
  "shutdown_loop ps cs = cs @ map (\<lambda>p. make_completion (op_id p) closed_completion) ps"
  by (induction ps arbitrary: cs) auto

lemma make_completion_id [simp]: "bc_operation_id (make_completion i res) = i"
  by (simp add: make_completion_def)

lemma vb_drain_loop_eq:
  assumes "n \<le> length (vb_completions b)" and "index + n \<le> length out"
  shows "vb_drain_loop n index out b =
    (take index out @ take n (vb_completions b) @ drop (index + n) out,
     b\<lparr>vb_active_ids := vb_active_ids b - set (map bc_operation_id (take n (vb_completions b))),
       vb_completions := drop n (vb_completions b)\<rparr>)"
  using assms
proof (induction n arbitrary: index out b)
  case 0
  then show ?case by simp
next
  case (Suc n)
  obtain c cs where cs: "vb_completions b = c # cs"
    using Suc.prems(1) by (cases "vb_completions b") auto
  have idx: "index < length out" using Suc.prems by simp
  have upd: "take (Suc index) (out[index := c]) = take index out @ [c]"
    using idx by (simp add: take_Suc_conv_app_nth)
  show ?case
    using Suc cs upd by (simp add: Let_def Diff_insert2 [symmetric] insert_Diff_if)
qed

lemma vb_drain_completions_eq:
  assumes "out \<noteq> []" and "n = min (length out) (length (vb_completions b))"
  shows "vb_drain_completions out b =
    (Inr (of_nat n), take n (vb_completions b) @ drop n out,
     b\<lparr>vb_active_ids := vb_active_ids b - set (map bc_operation_id (take n (vb_completions b))),
       vb_completions := drop n (vb_completions b)\<rparr>)"
  using assms by (simp add: vb_drain_completions_def Let_def vb_drain_loop_eq)

section \<open>Invariant\<close>

text \<open>
  The active identifiers are exactly those of the pending operations and the undelivered
  completions, each once.
\<close>

definition vb_outstanding :: "'r virtual_backend \<Rightarrow> size_t list" where
  "vb_outstanding b = map op_id (vb_pending b) @ map bc_operation_id (vb_completions b)"

definition vb_inv :: "'r virtual_backend \<Rightarrow> bool" where
  "vb_inv b \<longleftrightarrow> vb_active_ids b = set (vb_outstanding b) \<and> distinct (vb_outstanding b) \<and>
     0 \<notin> vb_active_ids b \<and> (vb_stopped b \<longrightarrow> vb_pending b = [])"

lemma vb_inv_init [vio_invs]: "vb_inv vb_init"
  by (simp add: vb_inv_def vb_init_def vb_outstanding_def)

text \<open>Moving matching operations to the completion queue permutes the outstanding ones.\<close>

lemma filter_to_completions:
  assumes "vb_pending b' = filter (\<lambda>p. \<not> P p) (vb_pending b)"
    and "vb_completions b' = vb_completions b @ map (\<lambda>p. make_completion (op_id p) res)
      (filter P (vb_pending b))"
  shows "mset (vb_outstanding b') = mset (vb_outstanding b)"
proof -
  have "mset (map op_id (filter (\<lambda>p. \<not> P p) (vb_pending b))) + mset (map op_id (filter P (vb_pending b))) =
      mset (map op_id (vb_pending b))"
    by (induction "vb_pending b") (auto simp: image_mset_union [symmetric])
  then show ?thesis
    by (simp add: vb_outstanding_def assms multiset.map_comp comp_def ac_simps)
qed

lemma complete_pending_mset [simp]:
  "mset (vb_outstanding (vb_complete_pending t res b)) = mset (vb_outstanding b)"
  "mset (vb_outstanding (vb_complete_pending_kind t k res b)) = mset (vb_outstanding b)"
  by (rule filter_to_completions [where P = "\<lambda>p. op_handle p = t" and res = res],
      simp_all add: vb_complete_pending_def complete_loop_eq)
    (rule filter_to_completions [where P = "\<lambda>p. op_handle p = t \<and> kind_matches k p" and res = res],
      simp_all add: vb_complete_pending_kind_def complete_loop_eq)

lemma vb_outstanding_registry [simp]: "vb_outstanding (b\<lparr>vb_registry := r\<rparr>) = vb_outstanding b"
  by (simp add: vb_outstanding_def)

lemma vb_inv_mset:
  assumes "vb_inv b" and "mset (vb_outstanding b') = mset (vb_outstanding b)"
    and "vb_active_ids b' = vb_active_ids b" and "vb_stopped b' \<longrightarrow> vb_pending b' = []"
  shows "vb_inv b'"
  using assms mset_eq_setD [OF assms(2)] mset_eq_imp_distinct_iff [OF assms(2)]
  unfolding vb_inv_def by metis

lemma vb_frame:
  assumes "vb_inv b" and "vb_pending b' = vb_pending b" and "vb_completions b' = vb_completions b"
    and "vb_active_ids b' = vb_active_ids b" and "vb_stopped b' = vb_stopped b"
  shows "vb_inv b' \<and> vb_outstanding b' = vb_outstanding b"
proof -
  have "vb_outstanding b' = vb_outstanding b" using assms by (simp add: vb_outstanding_def)
  then show ?thesis using assms unfolding vb_inv_def by metis
qed

lemma vb_calls_frame [simp]:
  "vb_pending (snd (vb_register_handle h b)) = vb_pending b"
  "vb_completions (snd (vb_register_handle h b)) = vb_completions b"
  "vb_active_ids (snd (vb_register_handle h b)) = vb_active_ids b"
  "vb_stopped (snd (vb_register_handle h b)) = vb_stopped b"
  "vb_pending (snd (vb_cancel i reason b)) = vb_pending b"
  "vb_completions (snd (vb_cancel i reason b)) = vb_completions b"
  "vb_active_ids (snd (vb_cancel i reason b)) = vb_active_ids b"
  "vb_stopped (snd (vb_cancel i reason b)) = vb_stopped b"
  "vb_pending (snd (vb_wake b)) = vb_pending b"
  "vb_completions (snd (vb_wake b)) = vb_completions b"
  "vb_active_ids (snd (vb_wake b)) = vb_active_ids b"
  "vb_stopped (snd (vb_wake b)) = vb_stopped b"
  by (simp_all add: vb_register_handle_def vb_cancel_def vb_wake_def
      split: prod.split sum.split option.split)

lemma vb_shutdown_mset: "mset (vb_outstanding (snd (vb_shutdown b))) = mset (vb_outstanding b)"
  by (simp add: vb_shutdown_def vb_outstanding_def shutdown_loop_eq multiset.map_comp comp_def)

section \<open>Runs of the backend\<close>

datatype 'r backend_op =
    Register_handle size_t
  | Submit "'r backend_operation"
  | Cancel size_t cancellation_reason
  | Close_handle backend_handle_token
  | Complete_ready backend_handle_token backend_operation_kind
  | Drain "backend_completion list"
  | Wake
  | Shutdown

text \<open>One call: the identifiers it accepts, the identifiers it delivers, the new state.\<close>

fun vb_step :: "'r backend_op \<Rightarrow> 'r virtual_backend \<Rightarrow> size_t list \<times> size_t list \<times> 'r virtual_backend"
  where
  "vb_step (Register_handle h) b = ([], [], snd (vb_register_handle h b))"
| "vb_step (Submit operation) b =
     (let (r, b') = vb_submit operation b
      in (case r of Inl _ \<Rightarrow> [] | Inr _ \<Rightarrow> [op_id operation], [], b'))"
| "vb_step (Cancel i reason) b = ([], [], snd (vb_cancel i reason b))"
| "vb_step (Close_handle t) b = ([], [], snd (vb_close_handle t b))"
| "vb_step (Complete_ready t k) b = ([], [], snd (vb_complete_ready t k b))"
| "vb_step (Drain out) b =
     (let (r, out', b') = vb_drain_completions out b
      in ([], case r of Inl _ \<Rightarrow> [] | Inr n \<Rightarrow> map bc_operation_id
                 (take (min (length out) (length (vb_completions b))) out'), b'))"
| "vb_step Wake b = ([], [], snd (vb_wake b))"
| "vb_step Shutdown b = ([], [], snd (vb_shutdown b))"

lemma vb_submit_spec:
  assumes "vb_inv b" and "vb_submit operation b = (r, b')"
  shows "case r of
      Inl _ \<Rightarrow> b' = b
    | Inr _ \<Rightarrow> vb_inv b' \<and>
        mset (vb_outstanding b') = add_mset (op_id operation) (mset (vb_outstanding b))"
proof (cases r)
  case (Inl e)
  then show ?thesis
    using assms(2) by (auto simp: vb_submit_def split: if_splits)
next
  case (Inr u)
  then have b': "b' = b\<lparr>vb_active_ids := insert (op_id operation) (vb_active_ids b),
      vb_pending := vb_pending b @ [operation], vb_submitted := vb_submitted b + 1\<rparr>"
    and fresh: "op_id operation \<notin> vb_active_ids b" "op_id operation \<noteq> 0" "\<not> vb_stopped b"
    using assms(2) by (auto simp: vb_submit_def invalid_state_result_def split: if_splits)
  have m: "mset (vb_outstanding b') = mset (op_id operation # vb_outstanding b)"
    by (simp add: b' vb_outstanding_def)
  then show ?thesis
    using assms(1) fresh Inr mset_eq_setD [OF m] mset_eq_imp_distinct_iff [OF m]
    by (auto simp: vb_inv_def b')
qed

lemma vb_step_spec:
  assumes "vb_inv b" and "vb_step op b = (a, d, b')"
  shows "vb_inv b' \<and> mset (vb_outstanding b) + mset a = mset (vb_outstanding b') + mset d"
proof (cases op)
  case (Register_handle h)
  then show ?thesis using assms(2) vb_frame [OF assms(1), of b'] by auto
next
  case (Submit operation)
  then show ?thesis using assms vb_submit_spec [OF assms(1), of operation]
    by (auto split: prod.splits sum.splits)
next
  case (Cancel i reason)
  then show ?thesis using assms(2) vb_frame [OF assms(1), of b'] by auto
next
  case (Close_handle t)
  have "mset (vb_outstanding (snd (vb_close_handle t b))) = mset (vb_outstanding b)"
    by (auto simp: vb_close_handle_def split: prod.splits sum.splits)
  moreover have "vb_active_ids (snd (vb_close_handle t b)) = vb_active_ids b"
    "vb_stopped (snd (vb_close_handle t b)) \<longrightarrow> vb_pending (snd (vb_close_handle t b)) = []"
    using assms(1)
    by (auto simp: vb_close_handle_def vb_complete_pending_def complete_loop_eq vb_inv_def
        split: if_splits prod.splits sum.splits)
  ultimately show ?thesis using assms Close_handle vb_inv_mset by fastforce
next
  case (Complete_ready t k)
  have "mset (vb_outstanding (snd (vb_complete_ready t k b))) = mset (vb_outstanding b)"
    by (simp add: vb_complete_ready_def)
  moreover have "vb_active_ids (snd (vb_complete_ready t k b)) = vb_active_ids b"
    "vb_stopped (snd (vb_complete_ready t k b)) \<longrightarrow> vb_pending (snd (vb_complete_ready t k b)) = []"
    using assms(1)
    by (auto simp: vb_complete_ready_def vb_complete_pending_kind_def complete_loop_eq vb_inv_def
        split: if_splits)
  ultimately show ?thesis using assms Complete_ready vb_inv_mset by fastforce
next
  case (Drain out)
  show ?thesis
  proof (cases "out = []")
    case True
    then show ?thesis using assms Drain by (auto simp: vb_drain_completions_def)
  next
    case False
    define n where "n = min (length out) (length (vb_completions b))"
    note eq = vb_drain_completions_eq [OF False n_def]
    have b': "b' = b\<lparr>vb_active_ids := vb_active_ids b - set (map bc_operation_id (take n (vb_completions b))),
        vb_completions := drop n (vb_completions b)\<rparr>"
      and ad: "a = []" "d = map bc_operation_id (take n (vb_completions b))"
      using assms(2) Drain eq by (auto simp: n_def [symmetric]) (simp add: n_def)
    have split: "map bc_operation_id (vb_completions b) =
        d @ map bc_operation_id (drop n (vb_completions b))"
      by (simp add: ad map_append [symmetric] del: map_append)
    have "set d \<inter> set (map op_id (vb_pending b) @ map bc_operation_id (drop n (vb_completions b))) = {}"
      using assms(1) unfolding vb_inv_def vb_outstanding_def split by auto
    then have "vb_inv b'"
      using assms(1) unfolding vb_inv_def vb_outstanding_def split
      by (auto simp: b' ad(2) [symmetric])
    then show ?thesis
      using split by (simp add: b' ad vb_outstanding_def)
  qed
next
  case Wake
  then show ?thesis using assms(2) vb_frame [OF assms(1), of b'] by auto
next
  case Shutdown
  have "vb_active_ids (snd (vb_shutdown b)) = vb_active_ids b"
    "vb_stopped (snd (vb_shutdown b)) \<longrightarrow> vb_pending (snd (vb_shutdown b)) = []"
    using assms(1) by (auto simp: vb_shutdown_def vb_inv_def)
  then show ?thesis using assms Shutdown vb_shutdown_mset [of b] vb_inv_mset by fastforce
qed

interpretation vb: operation_ledger vb_step vb_outstanding vb_inv
proof
  fix s :: "'r virtual_backend" and op a d s'
  assume "vb_inv s" "vb_step op s = (a, d, s')"
  then show "vb_inv s'" "mset (vb_outstanding s) + mset a = mset (vb_outstanding s') + mset d"
    using vb_step_spec by blast+
next
  fix s :: "'r virtual_backend"
  assume "vb_inv s"
  then show "distinct (vb_outstanding s)" by (simp add: vb_inv_def)
qed

section \<open>Theorems\<close>

text \<open>
  C7. The virtual backend delivers every accepted operation exactly once. After any sequence
  of calls on a fresh backend, the accepted identifiers are, counted with multiplicity, the
  delivered ones together with those still outstanding, and no identifier is outstanding
  twice; so once nothing is outstanding, deliveries and acceptances agree.
\<close>

theorem backend_exactly_once:
  assumes "ledger_run vb_step ops vb_init = (accepted, delivered, b)"
  shows "mset accepted = mset delivered + mset (map op_id (vb_pending b)) +
      mset (map bc_operation_id (vb_completions b)) \<and>
    distinct (map op_id (vb_pending b) @ map bc_operation_id (vb_completions b)) \<and>
    (vb_pending b = [] \<and> vb_completions b = [] \<longrightarrow> mset accepted = mset delivered)"
  using vb.run_exactly_once [OF vb_inv_init _ assms]
  by (simp add: vb_outstanding_def vb_init_def)

theorem backend_exactly_once_witness:
  "\<exists>b. ledger_run vb_step
     [Register_handle 5,
      Submit \<lparr>op_id = 9, op_kind = op_read, op_target = target_socket, op_scheduler = (),
        op_handle = \<lparr>native_handle = 5, generation = 1\<rparr>,
        op_read_buffer = \<lparr>span_data = 0, span_size = 0\<rparr>,
        op_write_buffer = \<lparr>span_data = 0, span_size = 0\<rparr>,
        op_socket_address = \<lparr>span_data = 0, span_size = 0\<rparr>, op_offset = 0\<rparr>,
      Close_handle \<lparr>native_handle = 5, generation = 1\<rparr>,
      Drain [make_completion 0 (Inr ())]] vb_init = ([9], [9], b) \<and>
    mset (map op_id (vb_pending b)) + mset (map bc_operation_id (vb_completions b)) = {#}"
proof -
  let ?ops = "[Register_handle 5,
      Submit \<lparr>op_id = 9, op_kind = op_read, op_target = target_socket, op_scheduler = (),
        op_handle = \<lparr>native_handle = 5, generation = 1\<rparr>,
        op_read_buffer = \<lparr>span_data = 0, span_size = 0\<rparr>,
        op_write_buffer = \<lparr>span_data = 0, span_size = 0\<rparr>,
        op_socket_address = \<lparr>span_data = 0, span_size = 0\<rparr>, op_offset = 0\<rparr>,
      Close_handle \<lparr>native_handle = 5, generation = 1\<rparr>,
      Drain [make_completion 0 (Inr ())]]"
  obtain b where run: "ledger_run vb_step ?ops vb_init = ([9], [9], b)"
    by (simp add: vb_register_handle_def vb_init_def reg_register_def reg_lookup_def Let_def
        to_backend_token_def vb_submit_def is_valid_backend_operation_shape_def
        is_socket_backend_operation_def vb_is_current_handle_def reg_is_current_def
        to_native_token_def vb_close_handle_def reg_close_def vb_complete_pending_def
        vb_drain_completions_def make_completion_def)
  from backend_exactly_once [OF run] have "{#9#} = {#9#} + mset (map op_id (vb_pending b)) +
      mset (map bc_operation_id (vb_completions b))" by simp
  then show ?thesis
    using run by (metis add.right_neutral add_left_cancel union_assoc)
qed

text \<open>
  Closing a current handle completes exactly the operations submitted on that token, in
  submission order and with the \<^verbatim>\<open>closed\<close> error, leaves every other pending operation in
  place, and makes the token stale, so that later submissions on it are refused without
  effect; closing a stale token changes nothing.
\<close>

theorem backend_close_handle:
  "\<not> vb_stopped b \<Longrightarrow>
   (if vb_is_current_handle t b
    then \<exists>b'. vb_close_handle t b = (Inr (), b') \<and>
      vb_pending b' = filter (\<lambda>p. op_handle p \<noteq> t) (vb_pending b) \<and>
      vb_completions b' = vb_completions b @
        map (\<lambda>p. make_completion (op_id p) (Inl (make_error closed None [])))
          (filter (\<lambda>p. op_handle p = t) (vb_pending b)) \<and>
      \<not> vb_is_current_handle t b' \<and>
      (op_handle operation = t \<longrightarrow> (\<exists>e. vb_submit operation b' = (Inl e, b') \<and>
         classification e = invalid_state))
    else \<exists>e. vb_close_handle t b = (Inl e, b) \<and> classification e = invalid_state)"
proof -
  assume run: "\<not> vb_stopped b"
  show ?thesis
  proof (cases "vb_is_current_handle t b")
    case True
    define r where "r = (vb_registry b)(native_handle t \<mapsto>
        (the (vb_registry b (native_handle t)))\<lparr>re_open := False\<rparr>)"
    define b' where "b' = vb_complete_pending t closed_completion (b\<lparr>vb_registry := r\<rparr>)"
    have close: "vb_close_handle t b = (Inr (), b')"
      using True run
      by (auto simp: vb_close_handle_def reg_close_def vb_is_current_handle_def reg_is_current_def
          to_native_token_def r_def b'_def split: option.splits)
    have sel: "vb_registry b' = r" "vb_stopped b' = False"
      "vb_pending b' = filter (\<lambda>p. op_handle p \<noteq> t) (vb_pending b)"
      "vb_completions b' = vb_completions b @ map (\<lambda>p. make_completion (op_id p)
        closed_completion) (filter (\<lambda>p. op_handle p = t) (vb_pending b))"
      using run by (simp_all add: b'_def vb_complete_pending_def complete_loop_eq)
    then have stale: "\<not> vb_is_current_handle t b'"
      by (simp add: vb_is_current_handle_def reg_is_current_def r_def to_native_token_def)
    then have "op_handle operation = t \<longrightarrow> (\<exists>e. vb_submit operation b' = (Inl e, b') \<and>
        classification e = invalid_state)"
      using sel(2) by (auto simp: vb_submit_def invalid_state_result_def)
    with True close sel stale show ?thesis
      by (auto simp: closed_completion_def)
  next
    case False
    then show ?thesis using run
      by (auto simp: vb_close_handle_def reg_close_def vb_is_current_handle_def reg_is_current_def
          to_native_token_def split: option.splits)
  qed
qed

theorem backend_close_handle_witness:
  "\<not> vb_is_current_handle \<lparr>native_handle = 5, generation = 1\<rparr>
     (snd (vb_close_handle \<lparr>native_handle = 5, generation = 1\<rparr>
        (snd (vb_register_handle 5 (vb_init :: unit virtual_backend)))))"
proof -
  let ?t = "\<lparr>native_handle = 5, generation = 1\<rparr>"
  let ?b = "snd (vb_register_handle 5 (vb_init :: unit virtual_backend))"
  have b: "\<not> vb_stopped ?b" "vb_is_current_handle ?t ?b"
    by (simp_all add: vb_init_def vb_register_handle_def reg_register_def reg_lookup_def Let_def
        vb_is_current_handle_def reg_is_current_def to_native_token_def)
  from backend_close_handle [OF b(1), where t = ?t and operation = undefined] b(2)
  show ?thesis by auto
qed

text \<open>
  Shutdown is complete and idempotent: it stops the backend, turns every pending
  operation into a \<^verbatim>\<open>closed\<close> completion in order, a second shutdown changes nothing, every
  further registration, submission, cancellation, closing and wake is refused with
  \<^verbatim>\<open>closed\<close>, and one drain into a large enough span then delivers everything that was
  outstanding and clears all active identifiers.
\<close>

theorem backend_shutdown_complete:
  assumes "vb_inv b" and "\<not> vb_stopped b"
    and "length out = length (vb_pending b) + length (vb_completions b)" and "out \<noteq> []"
    and "vb_shutdown b = (r, b')"
  shows "r = Inr () \<and> vb_stopped b' \<and> vb_pending b' = [] \<and> vb_shutdown b' = (Inr (), b') \<and>
    vb_completions b' = vb_completions b @
      map (\<lambda>p. make_completion (op_id p) (Inl (make_error closed None []))) (vb_pending b) \<and>
    (\<forall>h operation i reason t. vb_register_handle h b' = (Inl (make_error closed None []), b') \<and>
       vb_submit operation b' = (Inl (make_error closed None []), b') \<and>
       vb_cancel i reason b' = (Inl (make_error closed None []), b') \<and>
       vb_close_handle t b' = (Inl (make_error closed None []), b') \<and>
       vb_wake b' = (Inl (make_error closed None []), b')) \<and>
    (\<exists>b''. vb_drain_completions out b' =
       (Inr (of_nat (length out)), vb_completions b', b'') \<and> vb_completions b'' = [] \<and>
       vb_active_ids b'' = {})"
proof -
  have b': "r = Inr ()" "b' = b\<lparr>vb_stopped := True,
      vb_completions := shutdown_loop (vb_pending b) (vb_completions b), vb_pending := []\<rparr>"
    using assms(2,5) by (auto simp: vb_shutdown_def)
  have sel: "vb_stopped b'" "vb_pending b' = []"
    "vb_completions b' = vb_completions b @
      map (\<lambda>p. make_completion (op_id p) (Inl (make_error closed None []))) (vb_pending b)"
    by (simp_all add: b' shutdown_loop_eq closed_completion_def)
  then have len: "length (vb_completions b') = length out" using assms(3) by simp
  have "vb_active_ids b' = set (vb_outstanding b)"
    using assms(1) by (simp add: b' vb_inv_def)
  also have "\<dots> = set (map bc_operation_id (vb_completions b'))"
    by (auto simp: sel vb_outstanding_def)
  finally have "vb_active_ids b' - set (map bc_operation_id (vb_completions b')) = {}" by simp
  then have "\<exists>b''. vb_drain_completions out b' =
       (Inr (of_nat (length out)), vb_completions b', b'') \<and> vb_completions b'' = [] \<and>
       vb_active_ids b'' = {}"
    using vb_drain_completions_eq [OF assms(4), of "length out" b'] len by simp
  then show ?thesis
    using sel b'(1) by (simp add: vb_shutdown_def vb_register_handle_def vb_submit_def
        vb_cancel_def vb_close_handle_def vb_wake_def)
qed

theorem backend_shutdown_complete_witness:
  "vb_stopped (snd (vb_shutdown ((vb_init :: unit virtual_backend)
      \<lparr>vb_completions := [make_completion 3 (Inr ())], vb_active_ids := {3}\<rparr>)))"
proof -
  let ?b = "(vb_init :: unit virtual_backend)
      \<lparr>vb_completions := [make_completion 3 (Inr ())], vb_active_ids := {3}\<rparr>"
  have "vb_inv ?b" "\<not> vb_stopped ?b"
    by (simp_all add: vb_inv_def vb_init_def vb_outstanding_def)
  from backend_shutdown_complete [OF this, of "[make_completion 0 (Inr ())]",
      OF _ _ surjective_pairing]
  show ?thesis by (simp add: vb_init_def)
qed

end
