(* ===== verification/Backend_Refinement.thy ===== *)
theory Backend_Refinement
  imports Backend
begin

text \<open>
  The readiness backends keep their operations in a \<^verbatim>\<open>virtual_backend\<close> and decide, from what the
  kernel reports, which of its operations to call. Such a backend refines the virtual one: each
  of its calls performs the virtual calls that \<open>performs\<close> names. The locale draws the consequences
  once, and is interpreted for the epoll and the kqueue backend.
\<close>

definition complete_if ::
  "bool \<Rightarrow> backend_handle_token \<Rightarrow> backend_operation_kind \<Rightarrow> 'r virtual_backend \<Rightarrow>
     void_result \<times> 'r virtual_backend" where
  "complete_if ready token kind f = (if ready then vb_complete_ready token kind f else (Inr (), f))"

text \<open>\<open>simulates a d f f'\<close>: some calls on the virtual backend lead from \<open>f\<close> to \<open>f'\<close>.\<close>

definition simulates :: "size_t list \<Rightarrow> size_t list \<Rightarrow> 'r virtual_backend \<Rightarrow> 'r virtual_backend \<Rightarrow> bool"
  where "simulates a d f f' \<longleftrightarrow> (\<exists>ops. ledger_run vb_step ops f = (a, d, f'))"

lemma simulates_refl [intro, simp]: "simulates [] [] f f"
  unfolding simulates_def by (rule exI [of _ "[]"]) simp

lemma simulates_step: "vb_step op f = (a, d, f') \<Longrightarrow> simulates a d f f'"
  unfolding simulates_def by (rule exI [of _ "[op]"]) simp

lemma simulates_trans:
  assumes "simulates [] [] f f1" and "simulates a d f1 f2"
  shows "simulates a d f f2"
proof -
  obtain ops ops' where "ledger_run vb_step ops f = ([], [], f1)"
    "ledger_run vb_step ops' f1 = (a, d, f2)"
    using assms unfolding simulates_def by auto
  from ledger_run_append [OF this] show ?thesis unfolding simulates_def by auto
qed

lemma simulates_calls [intro]:
  "simulates [] [] f (snd (vb_register_handle h f))"
  "simulates [] [] f (snd (vb_close_handle t f))"
  "simulates [] [] f (snd (vb_cancel i reason f))"
  "simulates [] [] f (snd (complete_if ready t kind f))"
  "simulates [] [] f (snd (vb_shutdown f))"
  by (simp_all add: complete_if_def simulates_step [OF vb_step.simps(1)]
      simulates_step [OF vb_step.simps(3)] simulates_step [OF vb_step.simps(4)]
      simulates_step [OF vb_step.simps(5)] simulates_step [OF vb_step.simps(8)])

section \<open>The calls of a readiness backend\<close>

datatype 'r readiness_op =
    Rb_register size_t
  | Rb_submit "'r backend_operation"
  | Rb_cancel size_t cancellation_reason
  | Rb_close backend_handle_token
  | Rb_poll
  | Rb_drain "backend_completion list"
  | Rb_wake
  | Rb_shutdown

text \<open>Completing what is ready, handle by handle; a token that is not current completes nothing.\<close>

definition complete_all ::
  "(backend_handle_token \<times> backend_operation_kind) list \<Rightarrow> 'r virtual_backend \<Rightarrow> 'r virtual_backend" where
  "complete_all ready f = fold (\<lambda>(t, kind) f. snd (vb_complete_ready t kind f)) ready f"

text \<open>
  \<open>performs usable ready call ok f f'\<close>: what a call does to the virtual backend, from \<open>f\<close> to \<open>f'\<close>, when it
  is answered with success exactly if \<open>ok\<close>. \<open>usable\<close> says that the backend is initialised and not shut
  down, \<open>ready\<close> is the readiness the kernel reports to a poll. A registration that the kernel refuses
  is taken back; a submission or cancellation of a usable backend is the virtual one with its answer; a
  close that succeeds closes the handle, and one that fails changes nothing; a poll completes what
  the kernel reported, all of it if it succeeds and a prefix of it otherwise; a shutdown shuts the
  virtual backend down.
\<close>

fun performs ::
  "bool \<Rightarrow> (backend_handle_token \<times> backend_operation_kind) list \<Rightarrow> 'r readiness_op \<Rightarrow> bool \<Rightarrow>
     'r virtual_backend \<Rightarrow> 'r virtual_backend \<Rightarrow> bool" where
  "performs usable ready (Rb_register h) ok f f' \<longleftrightarrow>
     (case vb_register_handle h f of
        (Inl _, f1) \<Rightarrow> \<not> ok \<and> (f' = f \<or> f' = f1)
      | (Inr t, f1) \<Rightarrow>
          if ok then usable \<and> f' = f1 else f' = f \<or> f' = snd (vb_close_handle t f1))"
| "performs usable ready (Rb_submit operation) ok f f' \<longleftrightarrow>
     (if usable \<and> is_socket_backend_operation operation
      then ok = (\<not> isl (fst (vb_submit operation f))) \<and> f' = snd (vb_submit operation f)
      else \<not> ok \<and> f' = f)"
| "performs usable ready (Rb_cancel i reason) ok f f' \<longleftrightarrow>
     (if usable then ok = (\<not> isl (fst (vb_cancel i reason f))) \<and> f' = snd (vb_cancel i reason f)
      else \<not> ok \<and> f' = f)"
| "performs usable ready (Rb_close t) ok f f' \<longleftrightarrow>
     (if ok then usable \<and> vb_is_current_handle t f \<and> vb_close_handle t f = (Inr (), f') else f' = f)"
| "performs usable ready Rb_poll ok f f' \<longleftrightarrow>
     (if ok then f' = complete_all ready f
      else \<exists>n \<le> length ready. f' = complete_all (take n ready) f)"
| "performs usable ready (Rb_drain out) ok f f' \<longleftrightarrow>
     ok = (\<not> isl (fst (vb_drain_completions out f))) \<and> f' = snd (snd (vb_drain_completions out f))"
| "performs usable ready Rb_wake ok f f' \<longleftrightarrow> (ok \<longrightarrow> usable) \<and> f' = f"
| "performs usable ready Rb_shutdown ok f f' \<longleftrightarrow> ok \<and> f' = snd (vb_shutdown f)"

text \<open>The identifiers a call accepts and delivers.\<close>

fun call_accepts :: "'r readiness_op \<Rightarrow> bool \<Rightarrow> size_t list" where
  "call_accepts (Rb_submit operation) ok = (if ok then [op_id operation] else [])"
| "call_accepts call ok = []"

fun call_delivers :: "'r readiness_op \<Rightarrow> 'r virtual_backend \<Rightarrow> size_t list" where
  "call_delivers (Rb_drain out) f = fst (snd (vb_step (Drain out) f))"
| "call_delivers call f = []"

lemma complete_all_Cons [simp]:
  "complete_all ((t, kind) # ready) f = complete_all ready (snd (vb_complete_ready t kind f))"
  by (simp add: complete_all_def)

lemma complete_all_Nil [simp]: "complete_all [] f = f"
  by (simp add: complete_all_def)

lemma complete_all_append: "complete_all (xs @ ys) f = complete_all ys (complete_all xs f)"
  by (simp add: complete_all_def)

lemma simulates_complete_all: "simulates [] [] f (complete_all ready f)"
proof (induction ready arbitrary: f)
  case (Cons x ready)
  obtain t kind where x: "x = (t, kind)" by fastforce
  have "simulates [] [] f (snd (vb_complete_ready t kind f))"
    using simulates_step [of "Complete_ready t kind" f] by simp
  from simulates_trans [OF this Cons.IH] show ?case by (simp add: x)
qed simp

text \<open>What is performed is a sequence of virtual calls.\<close>

lemma performs_simulates:
  assumes "performs usable ready call ok f f'"
  shows "simulates (call_accepts call ok) (call_delivers call f) f f'"
proof (cases call)
  case (Rb_register h)
  obtain r f1 where reg: "vb_register_handle h f = (r, f1)" by fastforce
  have f1: "simulates [] [] f f1" using simulates_calls(1) [of f h] by (simp add: reg)
  moreover have "simulates [] [] f (snd (vb_close_handle t f1))" for t
    using simulates_trans [OF f1] simulates_calls(2) by blast
  ultimately show ?thesis using assms Rb_register reg by (auto split: sum.splits if_splits)
next
  case (Rb_submit operation)
  obtain r f1 where sub: "vb_submit operation f = (r, f1)" by fastforce
  then have "simulates (if isl r then [] else [op_id operation]) [] f f1"
    using simulates_step [of "Submit operation" f] by (cases r) simp_all
  then show ?thesis using assms Rb_submit sub by (auto split: if_splits)
next
  case (Rb_cancel i reason)
  then show ?thesis using assms simulates_calls(3) [of f i reason] by (auto split: if_splits)
next
  case (Rb_close t)
  then show ?thesis using assms simulates_calls(2) [of f t] by (auto split: if_splits)
next
  case Rb_poll
  then show ?thesis using assms simulates_complete_all by (auto split: if_splits)
next
  case (Rb_drain out)
  then show ?thesis
    using assms simulates_step [of "Drain out" f] by (auto simp: Let_def split: prod.splits)
next
  case Rb_wake
  then show ?thesis using assms by simp
next
  case Rb_shutdown
  then show ?thesis using assms simulates_calls(5) [of f] by simp
qed

text \<open>What the virtual calls keep.\<close>

lemma complete_ready_stale:
  "\<not> vb_is_current_handle t f \<Longrightarrow> snd (vb_complete_ready t kind f) = f"
  by (simp add: vb_complete_ready_def)

lemma complete_ready_frame [simp]:
  "vb_is_current_handle t (snd (vb_complete_ready t' kind f)) = vb_is_current_handle t f"
  "vb_stopped (snd (vb_complete_ready t' kind f)) = vb_stopped f"
  "isl (fst (vb_complete_ready t' kind f)) \<longleftrightarrow> \<not> vb_is_current_handle t' f"
  by (simp_all add: vb_complete_ready_def vb_complete_pending_kind_def vb_is_current_handle_def
      complete_loop_eq invalid_state_result_def)

lemma complete_if_current:
  assumes "vb_is_current_handle t f"
  shows "complete_if ready t kind f =
    (Inr (), complete_all (if ready then [(t, kind)] else []) f)"
  using assms complete_ready_frame(3) [of t kind f]
  by (cases "vb_complete_ready t kind f") (auto simp: complete_if_def vb_complete_ready_def)

lemma complete_all_stopped [simp]: "vb_stopped (complete_all ready f) = vb_stopped f"
proof (induction ready arbitrary: f)
  case (Cons x ready)
  then show ?case by (cases x) simp
qed simp

lemma vb_frame_stopped [simp]:
  "vb_stopped (snd (vb_register_handle h f)) = vb_stopped f"
  "vb_stopped (snd (vb_submit operation f)) = vb_stopped f"
  "vb_stopped (snd (vb_cancel i reason f)) = vb_stopped f"
  "vb_stopped (snd (vb_close_handle t f)) = vb_stopped f"
  "vb_stopped (snd (vb_shutdown f))"
  by (auto simp: vb_register_handle_def vb_submit_def vb_cancel_def vb_close_handle_def vb_shutdown_def
      vb_complete_pending_def complete_loop_eq split: prod.splits sum.splits option.splits)

lemma vb_drain_stopped [simp]: "vb_stopped (snd (snd (vb_drain_completions out f))) = vb_stopped f"
proof -
  have "vb_stopped (snd (vb_drain_loop n i out f)) = vb_stopped f" for n i out
    by (induction n i out f rule: vb_drain_loop.induct) (simp_all add: Let_def)
  then show ?thesis by (auto simp: vb_drain_completions_def Let_def split: prod.splits)
qed

lemma vb_close_current:
  assumes "vb_is_current_handle t f" and "\<not> vb_stopped f"
  shows "fst (vb_close_handle t f) = Inr ()"
  using assms
  by (auto simp: vb_close_handle_def vb_is_current_handle_def reg_is_current_def reg_close_def
      split: prod.splits sum.splits option.splits)

text \<open>A socket read on a handle, for concrete runs.\<close>

definition socket_read :: "size_t \<Rightarrow> backend_handle_token \<Rightarrow> unit backend_operation" where
  "socket_read i token = \<lparr>op_id = i, op_kind = op_read, op_target = target_socket, op_scheduler = (),
     op_handle = token, op_read_buffer = \<lparr>span_data = 0, span_size = 0\<rparr>,
     op_write_buffer = \<lparr>span_data = 0, span_size = 0\<rparr>,
     op_socket_address = \<lparr>span_data = 0, span_size = 0\<rparr>, op_offset = 0\<rparr>"

lemmas virtual_run_defs = vb_register_handle_def vb_init_def reg_register_def reg_lookup_def Let_def
  to_backend_token_def vb_submit_def is_valid_backend_operation_shape_def
  is_socket_backend_operation_def vb_is_current_handle_def reg_is_current_def to_native_token_def
  vb_complete_ready_def vb_complete_pending_kind_def kind_matches_def vb_drain_completions_def
  make_completion_def socket_read_def

section \<open>The contract\<close>

text \<open>A backend is stopped exactly when its virtual backend is.\<close>

locale backend_refinement =
  fixes step :: "'r readiness_op \<Rightarrow> 's \<Rightarrow> size_t list \<times> size_t list \<times> 's"
    and fallback :: "'s \<Rightarrow> 'r virtual_backend"
    and stopped :: "'s \<Rightarrow> bool"
    and usable :: "'s \<Rightarrow> bool"
    and ready :: "'s \<Rightarrow> (backend_handle_token \<times> backend_operation_kind) list"
    and answer :: "'r readiness_op \<Rightarrow> 's \<Rightarrow> bool"
  assumes step_performs: "\<lbrakk>stopped s = vb_stopped (fallback s); step call s = (a, d, s')\<rbrakk> \<Longrightarrow>
      performs (usable s) (ready s) call (answer call s) (fallback s) (fallback s') \<and>
      a = call_accepts call (answer call s) \<and> d = call_delivers call (fallback s) \<and>
      stopped s' = vb_stopped (fallback s')"
begin

lemma step_simulates:
  assumes "stopped s = vb_stopped (fallback s)" and "step call s = (a, d, s')"
  shows "simulates a d (fallback s) (fallback s')"
  using step_performs [OF assms] performs_simulates by blast

end

sublocale backend_refinement \<subseteq> operation_ledger step "\<lambda>s. vb_outstanding (fallback s)"
  "\<lambda>s. vb_inv (fallback s) \<and> stopped s = vb_stopped (fallback s)"
proof
  fix s s' op a d
  assume inv: "vb_inv (fallback s) \<and> stopped s = vb_stopped (fallback s)" and st: "step op s = (a, d, s')"
  obtain ops where "ledger_run vb_step ops (fallback s) = (a, d, fallback s')"
    using step_simulates [OF conjunct2 [OF inv] st] unfolding simulates_def by blast
  from vb.run_balance [OF conjunct1 [OF inv] this] step_performs [OF conjunct2 [OF inv] st]
  show "vb_inv (fallback s') \<and> stopped s' = vb_stopped (fallback s')"
    "mset (vb_outstanding (fallback s)) + mset a = mset (vb_outstanding (fallback s')) + mset d"
    by auto
next
  fix s
  assume "vb_inv (fallback s) \<and> stopped s = vb_stopped (fallback s)"
  then show "distinct (vb_outstanding (fallback s))" using vb.unique by blast
qed

context backend_refinement
begin

lemma run_simulates:
  assumes "stopped s = vb_stopped (fallback s)" and "ledger_run step ops s = (as, ds, s')"
  shows "(\<exists>vops. ledger_run vb_step vops (fallback s) = (as, ds, fallback s')) \<and>
    stopped s' = vb_stopped (fallback s')"
  using assms
proof (induction ops arbitrary: s as ds)
  case Nil
  then show ?case by (auto intro: exI [of _ "[]"])
next
  case (Cons op ops)
  obtain a d s1 as1 ds1 where st: "step op s = (a, d, s1)"
    and run: "ledger_run step ops s1 = (as1, ds1, s')" and eq: "as = a @ as1" "ds = d @ ds1"
    using Cons.prems(2) by (auto simp: Let_def split: prod.splits)
  have "stopped s1 = vb_stopped (fallback s1)" using step_performs [OF Cons.prems(1) st] by blast
  note rest = Cons.IH [OF this run]
  obtain v1 v2 where "ledger_run vb_step v1 (fallback s) = (a, d, fallback s1)"
    "ledger_run vb_step v2 (fallback s1) = (as1, ds1, fallback s')"
    using rest step_simulates [OF Cons.prems(1) st] unfolding simulates_def by blast
  from ledger_run_append [OF this] rest show ?case unfolding eq by blast
qed

text \<open>A run that starts with an empty virtual backend, and the next call after it.\<close>

lemma run_from_init:
  assumes "fallback s = vb_init" and "\<not> stopped s" and "ledger_run step ops s = (as, ds, s')"
  shows "(\<exists>vops. ledger_run vb_step vops vb_init = (as, ds, fallback s')) \<and>
    mset as = mset ds + mset (map op_id (vb_pending (fallback s'))) +
      mset (map bc_operation_id (vb_completions (fallback s'))) \<and>
    distinct (map op_id (vb_pending (fallback s')) @ map bc_operation_id (vb_completions (fallback s'))) \<and>
    stopped s' = vb_stopped (fallback s') \<and>
    performs (usable s') (ready s') call (answer call s') (fallback s') (fallback (snd (snd (step call s'))))"
proof -
  have agree: "stopped s = vb_stopped (fallback s)" using assms(1,2) by (simp add: vb_init_def)
  have "vb_inv (fallback s) \<and> stopped s = vb_stopped (fallback s)" "vb_outstanding (fallback s) = []"
    using assms(1) agree by (simp_all add: vb_inv_init) (simp add: vb_init_def vb_outstanding_def)
  note once = run_exactly_once [OF this assms(3)]
  note run = run_simulates [OF agree assms(3)]
  obtain a d s'' where "step call s' = (a, d, s'')" by (metis prod_cases3)
  with step_performs [OF conjunct2 [OF run] this]
  have "performs (usable s') (ready s') call (answer call s') (fallback s') (fallback (snd (snd (step call s'))))"
    by simp
  then show ?thesis using once run assms(1) by (simp add: vb_outstanding_def)
qed

end

end
