(* ===== verification/Os_Calls.thy ===== *)
theory Os_Calls
  imports Vio_Error
begin

text \<open>
  What the operating-system backends share: error numbers, the errors made of them, and the
  loop that repeats a system call while it is interrupted. That loop is partial: it does not
  return if the kernel interrupts the call for ever.
\<close>

type_synonym errno = int

definition EINTR :: errno where "EINTR = 4"
definition EBADF :: errno where "EBADF = 9"
definition ENOENT :: errno where "ENOENT = 2"
definition EAGAIN :: errno where "EAGAIN = 11"
definition EIO :: errno where "EIO = 5"

definition INT_MAX :: size_t where
  "INT_MAX = 0x7fffffff"

definition provider_failure :: "errno \<Rightarrow> vio_error" where
  "provider_failure code = make_error_provider backend_failure code []"

definition closed_error :: void_result where
  "closed_error = Inl (make_error closed None [])"

partial_function (option) retry_interrupted ::
  "('o \<Rightarrow> (errno + 'v) \<times> 'o) \<Rightarrow> 'o \<Rightarrow> ((errno + 'v) \<times> 'o) option" where
  "retry_interrupted call k =
     (case call k of
        (Inr v, k1) \<Rightarrow> Some (Inr v, k1)
      | (Inl code, k1) \<Rightarrow> if code = EINTR then retry_interrupted call k1 else Some (Inl code, k1))"

text \<open>A kernel that interrupts a call only finitely often lets it return.\<close>

lemma retry_interrupted_returns:
  assumes "\<And>k k'. call k = (Inl EINTR, k') \<Longrightarrow> \<mu> k' < (\<mu> k :: nat)"
  shows "\<exists>r k'. retry_interrupted call k = Some (r, k')"
proof (induction "\<mu> k" arbitrary: k rule: less_induct)
  case less
  then show ?case using assms
    by (subst retry_interrupted.simps) (auto split: prod.split sum.split)
qed

end
