(* ===== verification/Epoll_Backend.thy ===== *)
theory Epoll_Backend
  imports Backend_Refinement Os_Calls
begin

text \<open>
  \<^verbatim>\<open>include/voris/io/backends/epoll_backend.hpp\<close> and \<^verbatim>\<open>src/backends_epoll_backend.cpp\<close>, the Linux
  build: readiness events from the kernel complete the operations kept by a
  \<^verbatim>\<open>virtual_backend\<close>. The kernel is the record \<open>epoll_sys\<close> of system calls over an opaque
  kernel state; a failing call is \<open>Inl errno\<close>. The two retry loops around \<^verbatim>\<open>eventfd\<close> may run
  for ever if the kernel keeps interrupting them, so they are partial.
\<close>

unbundle bit_operations_syntax

section \<open>Kernel interface\<close>

definition EPOLLIN :: uint32 where "EPOLLIN = 0x1"
definition EPOLLOUT :: uint32 where "EPOLLOUT = 0x4"
definition EPOLLERR :: uint32 where "EPOLLERR = 0x8"
definition EPOLLHUP :: uint32 where "EPOLLHUP = 0x10"
definition EPOLLRDHUP :: uint32 where "EPOLLRDHUP = 0x2000"

datatype epoll_ctl_op = Ctl_add | Ctl_del

record epoll_event =
  ev_events :: uint32
  ev_u64 :: uint64

record 'o epoll_sys =
  sys_epoll_create1 :: "'o \<Rightarrow> (errno + int) \<times> 'o"
  sys_eventfd :: "'o \<Rightarrow> (errno + int) \<times> 'o"
  sys_epoll_ctl :: "int \<Rightarrow> epoll_ctl_op \<Rightarrow> int \<Rightarrow> epoll_event option \<Rightarrow> 'o \<Rightarrow> (errno + unit) \<times> 'o"
  sys_epoll_wait :: "int \<Rightarrow> nat \<Rightarrow> 'o \<Rightarrow> (errno + epoll_event list) \<times> 'o"
  sys_eventfd_read :: "int \<Rightarrow> 'o \<Rightarrow> (errno + uint64) \<times> 'o"
  sys_eventfd_write :: "int \<Rightarrow> uint64 \<Rightarrow> 'o \<Rightarrow> (errno + unit) \<times> 'o"
  sys_close :: "int \<Rightarrow> 'o \<Rightarrow> 'o"

section \<open>Event cookies\<close>

definition wake_event_cookie :: uint64 where
  "wake_event_cookie = - 1"

definition token_low_mask :: uint64 where
  "token_low_mask = push_bit 32 1 - 1"

definition pack_event_cookie :: "backend_handle_token \<Rightarrow> uint64 io_result" where
  "pack_event_cookie token =
     (if native_handle token = 0 \<or> generation token = 0 \<or>
         native_handle token > token_low_mask \<or> generation token > token_low_mask
      then Inl (make_error_diagnostic invalid_state ''backend handle token cannot be encoded'')
      else Inr (push_bit 32 (generation token) OR native_handle token))"

definition unpack_event_cookie :: "uint64 \<Rightarrow> backend_handle_token" where
  "unpack_event_cookie cookie =
     \<lparr>native_handle = cookie AND token_low_mask, generation = drop_bit 32 cookie\<rparr>"

definition has_read_readiness :: "uint32 \<Rightarrow> bool" where
  "has_read_readiness events \<longleftrightarrow>
     events AND (EPOLLIN OR EPOLLERR OR EPOLLHUP OR EPOLLRDHUP) \<noteq> 0"

definition has_write_readiness :: "uint32 \<Rightarrow> bool" where
  "has_write_readiness events \<longleftrightarrow> events AND (EPOLLOUT OR EPOLLERR OR EPOLLHUP) \<noteq> 0"

section \<open>Backend state and operations\<close>

record 'r epoll_backend =
  eb_fallback :: "'r virtual_backend"
  eb_epoll_fd :: int
  eb_wake_fd :: int
  eb_stopped :: bool
  eb_initialization_error :: "vio_error option"

definition eb_close_owned_descriptors ::
  "'o epoll_sys \<Rightarrow> 'r epoll_backend \<times> 'o \<Rightarrow> 'r epoll_backend \<times> 'o" where
  "eb_close_owned_descriptors sys = (\<lambda>(b, k).
     let (b1, k1) = (if eb_wake_fd b \<ge> 0
                     then (b\<lparr>eb_wake_fd := - 1\<rparr>, sys_close sys (eb_wake_fd b) k) else (b, k))
     in if eb_epoll_fd b1 \<ge> 0
        then (b1\<lparr>eb_epoll_fd := - 1\<rparr>, sys_close sys (eb_epoll_fd b1) k1) else (b1, k1))"

definition eb_create :: "'o epoll_sys \<Rightarrow> 'o \<Rightarrow> 'r epoll_backend \<times> 'o" where
  "eb_create sys k =
     (let b = \<lparr>eb_fallback = vb_init, eb_epoll_fd = - 1, eb_wake_fd = - 1, eb_stopped = False,
               eb_initialization_error = None\<rparr>
      in case sys_epoll_create1 sys k of
           (Inl e, k1) \<Rightarrow> (b\<lparr>eb_initialization_error := Some (provider_failure e)\<rparr>, k1)
         | (Inr epfd, k1) \<Rightarrow>
             (let b1 = b\<lparr>eb_epoll_fd := epfd\<rparr>
              in case sys_eventfd sys k1 of
                   (Inl e, k2) \<Rightarrow> eb_close_owned_descriptors sys
                     (b1\<lparr>eb_initialization_error := Some (provider_failure e)\<rparr>, k2)
                 | (Inr wfd, k2) \<Rightarrow>
                     (let b2 = b1\<lparr>eb_wake_fd := wfd\<rparr>
                      in case sys_epoll_ctl sys epfd Ctl_add wfd
                            (Some \<lparr>ev_events = EPOLLIN, ev_u64 = wake_event_cookie\<rparr>) k2 of
                           (Inl e, k3) \<Rightarrow> eb_close_owned_descriptors sys
                             (b2\<lparr>eb_initialization_error := Some (provider_failure e)\<rparr>, k3)
                         | (Inr _, k3) \<Rightarrow> (b2, k3))))"

definition eb_initialization_result :: "'r epoll_backend \<Rightarrow> void_result" where
  "eb_initialization_result b =
     (case eb_initialization_error b of Some e \<Rightarrow> Inl e | None \<Rightarrow> Inr ())"

definition eb_register_handle ::
  "'o epoll_sys \<Rightarrow> size_t \<Rightarrow> 'r epoll_backend \<times> 'o \<Rightarrow>
     backend_handle_token io_result \<times> 'r epoll_backend \<times> 'o" where
  "eb_register_handle sys h = (\<lambda>(b, k).
     if eb_stopped b then (Inl (make_error closed None []), b, k)
     else if h = 0 \<or> h > INT_MAX
     then (Inl (make_error_diagnostic invalid_state
                  ''native handle id must be a valid file descriptor''), b, k)
     else (case eb_initialization_result b of
       Inl e \<Rightarrow> (Inl e, b, k)
     | Inr _ \<Rightarrow>
         (case vb_register_handle h (eb_fallback b) of
            (Inl e, f) \<Rightarrow> (Inl e, b\<lparr>eb_fallback := f\<rparr>, k)
          | (Inr token, f) \<Rightarrow>
              (case pack_event_cookie token of
                 Inl e \<Rightarrow> (Inl e, b\<lparr>eb_fallback := snd (vb_close_handle token f)\<rparr>, k)
               | Inr cookie \<Rightarrow>
                   (case sys_epoll_ctl sys (eb_epoll_fd b) Ctl_add (sint h)
                      (Some \<lparr>ev_events = EPOLLIN OR EPOLLOUT OR EPOLLRDHUP OR EPOLLERR OR EPOLLHUP,
                             ev_u64 = cookie\<rparr>) k of
                      (Inl e, k1) \<Rightarrow> (Inl (provider_failure e),
                                      b\<lparr>eb_fallback := snd (vb_close_handle token f)\<rparr>, k1)
                    | (Inr _, k1) \<Rightarrow> (Inr token, b\<lparr>eb_fallback := f\<rparr>, k1))))))"

definition eb_submit ::
  "'r backend_operation \<Rightarrow> 'r epoll_backend \<Rightarrow> void_result \<times> 'r epoll_backend" where
  "eb_submit operation b =
     (if eb_stopped b then (closed_error, b)
      else (case eb_initialization_result b of
        Inl e \<Rightarrow> (Inl e, b)
      | Inr _ \<Rightarrow>
          if \<not> is_socket_backend_operation operation
          then (Inl (make_error_diagnostic invalid_state
                       ''epoll backend accepts socket readiness operations only''), b)
          else let (r, f) = vb_submit operation (eb_fallback b) in (r, b\<lparr>eb_fallback := f\<rparr>)))"

definition eb_cancel ::
  "size_t \<Rightarrow> cancellation_reason \<Rightarrow> 'r epoll_backend \<Rightarrow> void_result \<times> 'r epoll_backend" where
  "eb_cancel operation_id reason b =
     (if eb_stopped b then (closed_error, b)
      else (case eb_initialization_result b of
        Inl e \<Rightarrow> (Inl e, b)
      | Inr _ \<Rightarrow>
          let (r, f) = vb_cancel operation_id reason (eb_fallback b) in (r, b\<lparr>eb_fallback := f\<rparr>)))"

definition eb_close_handle ::
  "'o epoll_sys \<Rightarrow> backend_handle_token \<Rightarrow> 'r epoll_backend \<times> 'o \<Rightarrow>
     void_result \<times> 'r epoll_backend \<times> 'o" where
  "eb_close_handle sys token = (\<lambda>(b, k).
     if eb_stopped b then (closed_error, b, k)
     else (case eb_initialization_result b of
       Inl e \<Rightarrow> (Inl e, b, k)
     | Inr _ \<Rightarrow>
         if native_handle token = 0 \<or> native_handle token > INT_MAX \<or>
            \<not> vb_is_current_handle token (eb_fallback b)
         then (Inl (make_error_diagnostic invalid_state ''backend handle token is not current''),
               b, k)
         else
           (case sys_epoll_ctl sys (eb_epoll_fd b) Ctl_del (sint (native_handle token)) None k of
              (res, k1) \<Rightarrow>
                if isl res \<and> projl res \<noteq> EBADF \<and> projl res \<noteq> ENOENT
                then (Inl (provider_failure (projl res)), b, k1)
                else let (r, f) = vb_close_handle token (eb_fallback b)
                     in (r, b\<lparr>eb_fallback := f\<rparr>, k1))))"

text \<open>\<^verbatim>\<open>for (;;)\<close> around \<^verbatim>\<open>eventfd_read\<close>: read until the counter is empty.\<close>

partial_function (option) drain_wake_fd ::
  "'o epoll_sys \<Rightarrow> int \<Rightarrow> 'o \<Rightarrow> (void_result \<times> 'o) option" where
  "drain_wake_fd sys fd k =
     (case sys_eventfd_read sys fd k of
        (Inr _, k1) \<Rightarrow> drain_wake_fd sys fd k1
      | (Inl e, k1) \<Rightarrow>
          if e = EINTR then drain_wake_fd sys fd k1
          else if e = EAGAIN then Some (Inr (), k1)
          else Some (Inl (provider_failure e), k1))"

text \<open>The event loop of \<^verbatim>\<open>poll\<close>, over the events the kernel returned.\<close>

fun poll_events ::
  "'o epoll_sys \<Rightarrow> epoll_event list \<Rightarrow> size_t \<Rightarrow> 'r epoll_backend \<times> 'o \<Rightarrow>
     (size_t io_result \<times> 'r epoll_backend \<times> 'o) option" where
  "poll_events sys [] observed (b, k) = Some (Inr observed, b, k)"
| "poll_events sys (event # events) observed (b, k) =
     (if ev_u64 event \<noteq> wake_event_cookie
      then
        (let token = unpack_event_cookie (ev_u64 event)
         in if \<not> vb_is_current_handle token (eb_fallback b)
            then poll_events sys events observed (b, k)
            else
              (case complete_if (has_read_readiness (ev_events event)) token op_read
                      (eb_fallback b) of
                 (Inl e, f) \<Rightarrow> Some (Inl e, b\<lparr>eb_fallback := f\<rparr>, k)
               | (Inr _, f) \<Rightarrow>
                   (case complete_if (has_write_readiness (ev_events event)) token op_write f of
                      (Inl e, f') \<Rightarrow> Some (Inl e, b\<lparr>eb_fallback := f'\<rparr>, k)
                    | (Inr _, f') \<Rightarrow>
                        poll_events sys events (observed + 1) (b\<lparr>eb_fallback := f'\<rparr>, k))))
      else
        (case drain_wake_fd sys (eb_wake_fd b) k of
           None \<Rightarrow> None
         | Some (Inl e, k1) \<Rightarrow> Some (Inl e, b, k1)
         | Some (Inr _, k1) \<Rightarrow> poll_events sys events (observed + 1) (b, k1)))"

definition eb_poll ::
  "'o epoll_sys \<Rightarrow> 'r epoll_backend \<times> 'o \<Rightarrow> (size_t io_result \<times> 'r epoll_backend \<times> 'o) option" where
  "eb_poll sys = (\<lambda>(b, k).
     if eb_stopped b then Some (Inr 0, b, k)
     else (case eb_initialization_error b of
       Some e \<Rightarrow> Some (Inl e, b, k)
     | None \<Rightarrow>
         (case sys_epoll_wait sys (eb_epoll_fd b) 64 k of
            (Inl e, k1) \<Rightarrow> if e = EINTR then Some (Inr 0, b, k1)
                            else Some (Inl (provider_failure e), b, k1)
          | (Inr events, k1) \<Rightarrow> poll_events sys events 0 (b, k1))))"

definition eb_drain_completions ::
  "backend_completion list \<Rightarrow> 'r epoll_backend \<Rightarrow>
     size_t io_result \<times> backend_completion list \<times> 'r epoll_backend" where
  "eb_drain_completions out b =
     (let (r, out', f) = vb_drain_completions out (eb_fallback b) in (r, out', b\<lparr>eb_fallback := f\<rparr>))"

partial_function (option) write_wake_fd ::
  "'o epoll_sys \<Rightarrow> int \<Rightarrow> 'o \<Rightarrow> (void_result \<times> 'o) option" where
  "write_wake_fd sys fd k =
     (case sys_eventfd_write sys fd 1 k of
        (Inr _, k1) \<Rightarrow> Some (Inr (), k1)
      | (Inl e, k1) \<Rightarrow>
          if e = EINTR then write_wake_fd sys fd k1
          else if e = EAGAIN then Some (Inr (), k1)
          else Some (Inl (provider_failure e), k1))"

definition eb_wake ::
  "'o epoll_sys \<Rightarrow> 'r epoll_backend \<times> 'o \<Rightarrow> (void_result \<times> 'r epoll_backend \<times> 'o) option" where
  "eb_wake sys = (\<lambda>(b, k).
     if eb_stopped b then Some (closed_error, b, k)
     else (case eb_initialization_result b of
       Inl e \<Rightarrow> Some (Inl e, b, k)
     | Inr _ \<Rightarrow> map_option (\<lambda>(r, k1). (r, b, k1)) (write_wake_fd sys (eb_wake_fd b) k)))"

definition eb_shutdown ::
  "'o epoll_sys \<Rightarrow> 'r epoll_backend \<times> 'o \<Rightarrow> void_result \<times> 'r epoll_backend \<times> 'o" where
  "eb_shutdown sys = (\<lambda>(b, k).
     if eb_stopped b then (Inr (), b, k)
     else (Inr (), eb_close_owned_descriptors sys
       (b\<lparr>eb_stopped := True, eb_fallback := snd (vb_shutdown (eb_fallback b))\<rparr>, k)))"

section \<open>Refinement of the virtual backend\<close>

text \<open>
  One call, with the identifiers it accepts and delivers. A call that never returns leaves
  the state as the caller last saw it.
\<close>

fun eb_step :: "'o epoll_sys \<Rightarrow> 'r readiness_op \<Rightarrow> 'r epoll_backend \<times> 'o \<Rightarrow>
    size_t list \<times> size_t list \<times> 'r epoll_backend \<times> 'o" where
  "eb_step sys (Rb_register h) s = ([], [], snd (eb_register_handle sys h s))"
| "eb_step sys (Rb_submit operation) (b, k) =
     (let (r, b') = eb_submit operation b
      in (case r of Inl _ \<Rightarrow> [] | Inr _ \<Rightarrow> [op_id operation], [], b', k))"
| "eb_step sys (Rb_cancel i reason) (b, k) = ([], [], snd (eb_cancel i reason b), k)"
| "eb_step sys (Rb_close t) s = ([], [], snd (eb_close_handle sys t s))"
| "eb_step sys Rb_poll s =
     ([], [], case eb_poll sys s of None \<Rightarrow> s | Some (_, s') \<Rightarrow> s')"
| "eb_step sys (Rb_drain out) (b, k) =
     (let (r, out', b') = eb_drain_completions out b
      in ([], case r of Inl _ \<Rightarrow> [] | Inr n \<Rightarrow> map bc_operation_id
                 (take (min (length out) (length (vb_completions (eb_fallback b)))) out'), b', k))"
| "eb_step sys Rb_wake s = ([], [], case eb_wake sys s of None \<Rightarrow> s | Some (_, s') \<Rightarrow> s')"
| "eb_step sys Rb_shutdown s = ([], [], snd (eb_shutdown sys s))"

text \<open>Whether a call is answered with success; a call that never returns is not.\<close>

fun eb_answer :: "'o epoll_sys \<Rightarrow> 'r readiness_op \<Rightarrow> 'r epoll_backend \<times> 'o \<Rightarrow> bool" where
  "eb_answer sys (Rb_register h) s \<longleftrightarrow> \<not> isl (fst (eb_register_handle sys h s))"
| "eb_answer sys (Rb_submit operation) s \<longleftrightarrow> \<not> isl (fst (eb_submit operation (fst s)))"
| "eb_answer sys (Rb_cancel i reason) s \<longleftrightarrow> \<not> isl (fst (eb_cancel i reason (fst s)))"
| "eb_answer sys (Rb_close t) s \<longleftrightarrow> \<not> isl (fst (eb_close_handle sys t s))"
| "eb_answer sys Rb_poll s \<longleftrightarrow> (case eb_poll sys s of None \<Rightarrow> False | Some (r, _) \<Rightarrow> \<not> isl r)"
| "eb_answer sys (Rb_drain out) s \<longleftrightarrow> \<not> isl (fst (eb_drain_completions out (fst s)))"
| "eb_answer sys Rb_wake s \<longleftrightarrow> (case eb_wake sys s of None \<Rightarrow> False | Some (r, _) \<Rightarrow> \<not> isl r)"
| "eb_answer sys Rb_shutdown s \<longleftrightarrow> \<not> isl (fst (eb_shutdown sys s))"

definition eb_usable :: "'r epoll_backend \<Rightarrow> bool" where
  "eb_usable b \<longleftrightarrow> \<not> eb_stopped b \<and> eb_initialization_error b = None"

text \<open>
  The readiness an event reports, and all that a poll is told: errors and hang-ups make a handle
  ready in both directions, the peer's end of sending only for reading.
\<close>

definition event_readiness ::
  "epoll_event \<Rightarrow> (backend_handle_token \<times> backend_operation_kind) list" where
  "event_readiness event =
     (let t = unpack_event_cookie (ev_u64 event); flag = (\<lambda>m. ev_events event AND m \<noteq> 0)
      in if ev_u64 event = wake_event_cookie then []
         else (if flag EPOLLIN \<or> flag EPOLLERR \<or> flag EPOLLHUP \<or> flag EPOLLRDHUP then [(t, op_read)] else []) @
              (if flag EPOLLOUT \<or> flag EPOLLERR \<or> flag EPOLLHUP then [(t, op_write)] else []))"

definition eb_ready ::
  "'o epoll_sys \<Rightarrow> 'r epoll_backend \<times> 'o \<Rightarrow> (backend_handle_token \<times> backend_operation_kind) list" where
  "eb_ready sys s =
     (if \<not> eb_usable (fst s) then []
      else case fst (sys_epoll_wait sys (eb_epoll_fd (fst s)) 64 (snd s)) of
        Inl _ \<Rightarrow> []
      | Inr events \<Rightarrow> concat (map event_readiness events))"

lemma close_owned_fallback [simp]:
  "eb_fallback (fst (eb_close_owned_descriptors sys s)) = eb_fallback (fst s)"
  "eb_stopped (fst (eb_close_owned_descriptors sys s)) = eb_stopped (fst s)"
  by (simp_all add: eb_close_owned_descriptors_def Let_def split: prod.split)

lemma and_or_zero:
  fixes x a b :: uint32
  shows "x AND (a OR b) = 0 \<longleftrightarrow> x AND a = 0 \<and> x AND b = 0"
proof -
  have "x AND (a OR b) = (x AND a) OR (x AND b)" by (rule bit.conj_disj_distrib)
  then show ?thesis by (simp add: or_eq_0_iff)
qed

lemma event_readiness_eq:
  "event_readiness event =
     (if ev_u64 event = wake_event_cookie then []
      else (if has_read_readiness (ev_events event) then [(unpack_event_cookie (ev_u64 event), op_read)] else []) @
           (if has_write_readiness (ev_events event) then [(unpack_event_cookie (ev_u64 event), op_write)] else []))"
  by (simp add: event_readiness_def has_read_readiness_def has_write_readiness_def and_or_zero Let_def)

lemma event_stale:
  "\<not> vb_is_current_handle (unpack_event_cookie (ev_u64 event)) f \<Longrightarrow>
     complete_all (event_readiness event) f = f"
  by (simp add: event_readiness_eq complete_ready_stale)

text \<open>One event is processed as its readiness says.\<close>

lemma poll_events_Cons:
  "poll_events sys (event # events) observed (b, k) =
     (if ev_u64 event = wake_event_cookie
      then (case drain_wake_fd sys (eb_wake_fd b) k of
           None \<Rightarrow> None
         | Some (Inl e, k1) \<Rightarrow> Some (Inl e, b, k1)
         | Some (Inr _, k1) \<Rightarrow> poll_events sys events (observed + 1) (b, k1))
      else poll_events sys events
        (if vb_is_current_handle (unpack_event_cookie (ev_u64 event)) (eb_fallback b)
         then observed + 1 else observed)
        (b\<lparr>eb_fallback := complete_all (event_readiness event) (eb_fallback b)\<rparr>, k))"
proof (cases "ev_u64 event = wake_event_cookie")
  case False
  let ?t = "unpack_event_cookie (ev_u64 event)"
  show ?thesis
  proof (cases "vb_is_current_handle ?t (eb_fallback b)")
    case True
    then show ?thesis
      using False by (simp add: Let_def complete_if_current event_readiness_eq)
  next
    case stale: False
    then show ?thesis using False event_stale [OF stale] by simp
  qed
qed simp

lemma poll_events_completes:
  assumes "poll_events sys events observed s = Some (r, s')"
  shows "eb_stopped (fst s') = eb_stopped (fst s) \<and>
    (if isl r then \<exists>n \<le> length (concat (map event_readiness events)).
         eb_fallback (fst s') = complete_all (take n (concat (map event_readiness events))) (eb_fallback (fst s))
     else eb_fallback (fst s') = complete_all (concat (map event_readiness events)) (eb_fallback (fst s)))"
  using assms
proof (induction events arbitrary: observed s)
  case Nil
  then show ?case by (cases s) auto
next
  case (Cons event events)
  obtain b k where s: "s = (b, k)" by fastforce
  let ?c = "complete_all (event_readiness event) (eb_fallback b)"
  have later: ?case if run: "poll_events sys events m (b\<lparr>eb_fallback := ?c\<rparr>, k1) = Some (r, s')" for m k1
  proof (cases "isl r")
    case True
    obtain n where "n \<le> length (concat (map event_readiness events))"
      "eb_fallback (fst s') = complete_all (take n (concat (map event_readiness events))) ?c"
      using Cons.IH [OF run] True by auto
    then show ?thesis
      using Cons.IH [OF run] True
      by (intro conjI) (simp_all add: s complete_all_append [symmetric],
          intro exI [of _ "length (event_readiness event) + n"], simp)
  next
    case False
    then show ?thesis using Cons.IH [OF run] by (simp add: s complete_all_append)
  qed
  have wake: "b\<lparr>eb_fallback := ?c\<rparr> = b" if "ev_u64 event = wake_event_cookie"
    using that by (simp add: event_readiness_eq)
  show ?case
  proof (cases "ev_u64 event = wake_event_cookie")
    case True
    obtain rw k1 where dr: "drain_wake_fd sys (eb_wake_fd b) k = Some (rw, k1)"
      using Cons.prems True by (auto simp: s poll_events_Cons simp del: poll_events.simps split: option.splits)
    show ?thesis
    proof (cases rw)
      case (Inl e)
      then have "r = Inl e" "s' = (b, k1)"
        using Cons.prems True dr by (auto simp: s poll_events_Cons simp del: poll_events.simps)
      then show ?thesis by (auto simp: s intro: exI [of _ 0])
    next
      case (Inr u)
      then have "poll_events sys events (observed + 1) (b, k1) = Some (r, s')"
        using Cons.prems True dr by (simp add: s poll_events_Cons del: poll_events.simps)
      then show ?thesis using wake [OF True] by (intro later [of "observed + 1" k1]) simp
    qed
  next
    case False
    show ?thesis by (rule later [OF Cons.prems [unfolded s poll_events_Cons if_not_P [OF False]]])
  qed
qed

lemma eb_poll_performs:
  "performs (eb_usable (fst s)) (eb_ready sys s) Rb_poll (eb_answer sys Rb_poll s) (eb_fallback (fst s))
     (eb_fallback (fst (snd (snd (eb_step sys Rb_poll s))))) \<and>
   eb_stopped (fst (snd (snd (eb_step sys Rb_poll s)))) = eb_stopped (fst s)"
proof -
  obtain b k where s: "s = (b, k)" by fastforce
  obtain w k1 where w: "sys_epoll_wait sys (eb_epoll_fd b) 64 k = (w, k1)" by fastforce
  show ?thesis
  proof (cases "eb_usable b \<and> \<not> isl w")
    case True
    then obtain events where events: "w = Inr events" by (cases w) auto
    then have ready: "eb_ready sys (b, k) = concat (map event_readiness events)"
      and poll: "eb_poll sys (b, k) = poll_events sys events 0 (b, k1)"
      using True by (auto simp: s w eb_ready_def eb_poll_def eb_usable_def)
    show ?thesis
    proof (cases "poll_events sys events 0 (b, k1)")
      case None
      then show ?thesis by (auto simp: poll s intro: exI [of _ 0])
    next
      case (Some rs)
      obtain r s' where rs: "rs = (r, s')" by (rule prod.exhaust)
      note run = poll_events_completes [OF Some [unfolded rs]]
      show ?thesis using run by (cases "isl r") (simp_all add: ready poll Some rs s)
    qed
  next
    case False
    then have ready: "eb_ready sys (b, k) = []" by (cases w) (auto simp: w eb_ready_def)
    have "\<exists>r k'. eb_poll sys (b, k) = Some (r, b, k')"
      using False w by (cases w) (auto simp: eb_poll_def eb_usable_def split: option.splits)
    then show ?thesis by (auto simp: ready s)
  qed
qed

text \<open>Every call of the epoll backend performs the virtual calls that its specification names.\<close>

lemma eb_step_performs:
  assumes agree: "eb_stopped (fst s) = vb_stopped (eb_fallback (fst s))"
    and step: "eb_step sys call s = (a, d, s')"
  shows "performs (eb_usable (fst s)) (eb_ready sys s) call (eb_answer sys call s)
      (eb_fallback (fst s)) (eb_fallback (fst s')) \<and>
    a = call_accepts call (eb_answer sys call s) \<and> d = call_delivers call (eb_fallback (fst s)) \<and>
    eb_stopped (fst s') = vb_stopped (eb_fallback (fst s'))"
proof -
  obtain b k where s: "s = (b, k)" by fastforce
  show ?thesis
  proof (cases call)
    case (Rb_register h)
    obtain r f where reg: "vb_register_handle h (eb_fallback b) = (r, f)" by fastforce
    have "vb_stopped f = vb_stopped (eb_fallback b)" using vb_frame_stopped(1) [of h "eb_fallback b"] reg by simp
    then show ?thesis
      using step agree Rb_register reg
      by (auto simp: s eb_register_handle_def eb_usable_def eb_initialization_result_def
          split: if_splits option.splits sum.splits prod.splits)
  next
    case (Rb_submit operation)
    obtain r f where sub: "vb_submit operation (eb_fallback b) = (r, f)" by fastforce
    have "vb_stopped f = vb_stopped (eb_fallback b)" using vb_frame_stopped(2) [of operation "eb_fallback b"] sub by simp
    then show ?thesis
      using step agree Rb_submit sub
      by (auto simp: s eb_submit_def eb_usable_def eb_initialization_result_def closed_error_def
          split: if_splits option.splits sum.splits)
  next
    case (Rb_cancel i reason)
    obtain r f where c: "vb_cancel i reason (eb_fallback b) = (r, f)" by fastforce
    have "vb_stopped f = vb_stopped (eb_fallback b)" using vb_frame_stopped(3) [of i reason "eb_fallback b"] c by simp
    then show ?thesis
      using step agree Rb_cancel c
      by (auto simp: s eb_cancel_def eb_usable_def eb_initialization_result_def closed_error_def
          split: if_splits option.splits prod.splits)
  next
    case (Rb_close t)
    obtain r f where cl: "vb_close_handle t (eb_fallback b) = (r, f)" by fastforce
    have "vb_stopped f = vb_stopped (eb_fallback b)" using vb_frame_stopped(4) [of t "eb_fallback b"] cl by simp
    moreover have "r = Inr ()" if "vb_is_current_handle t (eb_fallback b)" "\<not> eb_stopped b"
      using vb_close_current [of t "eb_fallback b"] that agree cl by (simp add: s)
    ultimately show ?thesis
      using step agree Rb_close cl
      by (auto simp: s eb_close_handle_def eb_usable_def eb_initialization_result_def closed_error_def
          split: if_splits option.splits prod.splits)
  next
    case Rb_poll
    note poll = eb_poll_performs [of s sys]
    have "vb_stopped (eb_fallback (fst s')) = vb_stopped (eb_fallback (fst s))"
      using poll step Rb_poll by (auto split: if_splits)
    then show ?thesis using poll step Rb_poll agree by auto
  next
    case (Rb_drain out)
    obtain r out' f where dr: "vb_drain_completions out (eb_fallback b) = (r, out', f)" by (metis prod_cases3)
    have "vb_stopped f = vb_stopped (eb_fallback b)" using vb_drain_stopped [of out "eb_fallback b"] dr by simp
    then show ?thesis
      using step agree Rb_drain dr by (auto simp: s eb_drain_completions_def)
  next
    case Rb_wake
    then show ?thesis
      using step agree
      by (auto simp: s eb_wake_def eb_usable_def eb_initialization_result_def closed_error_def
          split: option.splits sum.splits if_splits)
  next
    case Rb_shutdown
    then show ?thesis
      using step agree by (auto simp: s eb_shutdown_def vb_shutdown_def)
  qed
qed

interpretation eb: backend_refinement "eb_step sys" "\<lambda>s. eb_fallback (fst s)" "\<lambda>s. eb_stopped (fst s)"
  "\<lambda>s. eb_usable (fst s)" "eb_ready sys" "eb_answer sys" for sys
  by unfold_locales (rule eb_step_performs)

lemma eb_create_fallback:
  "eb_fallback (fst (eb_create sys k)) = vb_init" "\<not> eb_stopped (fst (eb_create sys k))"
  by (simp_all add: eb_create_def Let_def split: sum.split prod.split)

section \<open>Cookies\<close>

lemma token_low_mask_alt: "token_low_mask = mask 32"
  by (simp add: token_low_mask_def mask_eq_exp_minus_1)

lemma low_mask_bit:
  assumes "(x :: size_t) \<le> token_low_mask" and "32 \<le> n"
  shows "\<not> bit x n"
proof -
  have "unat x < 2 ^ 32"
    using assms(1) by (simp add: token_low_mask_def word_le_nat_alt)
  also have "\<dots> \<le> 2 ^ n" using assms(2) by (rule power_increasing) simp
  finally have "\<not> bit (unat x) n" by (simp add: bit_iff_odd)
  then show ?thesis by (simp add: bit_unsigned_iff)
qed

lemma cookie_round_trip:
  assumes "pack_event_cookie t = Inr c"
  shows "unpack_event_cookie c = t"
proof -
  have bounds: "native_handle t \<le> token_low_mask" "generation t \<le> token_low_mask"
    and c: "c = push_bit 32 (generation t) OR native_handle t"
    using assms by (auto simp: pack_event_cookie_def split: if_splits)
  have "c AND mask 32 = native_handle t"
    using low_mask_bit [OF bounds(1)]
    by (intro bit_word_eqI)
      (auto simp: c bit_and_iff bit_or_iff bit_push_bit_iff bit_mask_iff not_less not_le [symmetric])
  moreover have "drop_bit 32 c = generation t"
    using low_mask_bit [OF bounds(1)] low_mask_bit [OF bounds(2)]
    by (intro bit_word_eqI)
      (auto simp: c bit_or_iff bit_push_bit_iff bit_drop_bit_eq not_le [symmetric])
  ultimately show ?thesis
    by (simp add: unpack_event_cookie_def token_low_mask_alt)
qed

section \<open>An example kernel\<close>

text \<open>
  A kernel whose only state is the counter of the event descriptor: a read returns and resets
  a non-zero counter, and every descriptor can be added.
\<close>

definition counter_kernel :: "nat epoll_sys" where
  "counter_kernel = \<lparr>sys_epoll_create1 = (\<lambda>k. (Inr 3, k)), sys_eventfd = (\<lambda>k. (Inr 4, k)),
     sys_epoll_ctl = (\<lambda>epfd op fd ev k. (Inr (), k)),
     sys_epoll_wait = (\<lambda>epfd n k. (Inr (if k = 0 then [] else
        [\<lparr>ev_events = EPOLLIN, ev_u64 = wake_event_cookie\<rparr>]), k)),
     sys_eventfd_read = (\<lambda>fd k. if k = 0 then (Inl EAGAIN, k) else (Inr (of_nat k), 0)),
     sys_eventfd_write = (\<lambda>fd v k. (Inr (), k + unat v)),
     sys_close = (\<lambda>fd k. k)\<rparr>"

text \<open>A kernel that reports the handle 7, registered first, readable.\<close>

definition readable_kernel :: "nat epoll_sys" where
  "readable_kernel = counter_kernel\<lparr>sys_epoll_wait := (\<lambda>epfd n k.
     (Inr [\<lparr>ev_events = EPOLLIN, ev_u64 = 0x100000007\<rparr>], k))\<rparr>"

section \<open>Theorems\<close>

text \<open>
  Event cookies are faithful: packing succeeds exactly for tokens whose handle and
  generation are non-zero 32-bit numbers, unpacking gives the token back, distinct tokens get
  distinct cookies, and the cookie of a handle that the backend registers is never the wake
  cookie.
\<close>

theorem event_cookie_roundtrip:
  assumes "native_handle t \<le> INT_MAX"
  shows "((\<exists>c. pack_event_cookie t = Inr c) \<longleftrightarrow>
      0 < unat (native_handle t) \<and> 0 < unat (generation t) \<and> unat (generation t) < 2 ^ 32) \<and>
    (\<forall>c. pack_event_cookie t = Inr c \<longrightarrow> unpack_event_cookie c = t \<and> c \<noteq> wake_event_cookie) \<and>
    (\<forall>c t'. pack_event_cookie t = Inr c \<and> pack_event_cookie t' = Inr c \<longrightarrow> t = t')"
proof -
  have low: "native_handle t \<le> token_low_mask"
    using assms by (simp add: token_low_mask_def INT_MAX_def word_le_nat_alt)
  have "(\<exists>c. pack_event_cookie t = Inr c) \<longleftrightarrow>
      0 < unat (native_handle t) \<and> 0 < unat (generation t) \<and> unat (generation t) < 2 ^ 32"
    using low by (auto simp: pack_event_cookie_def token_low_mask_def word_less_nat_alt
        unat_gt_0 not_less word_le_nat_alt)
  moreover have "c \<noteq> wake_event_cookie" if "pack_event_cookie t = Inr c" for c
  proof
    assume "c = wake_event_cookie"
    then have "native_handle t = token_low_mask"
      using cookie_round_trip [OF that]
      by (auto simp: unpack_event_cookie_def wake_event_cookie_def)
    then show False
      using assms by (simp add: token_low_mask_def INT_MAX_def word_le_nat_alt)
  qed
  ultimately show ?thesis using cookie_round_trip by metis
qed

theorem event_cookie_roundtrip_witness:
  "unpack_event_cookie 0x300000007 = \<lparr>native_handle = 7, generation = 3\<rparr> \<and>
   (0x300000007 :: uint64) \<noteq> wake_event_cookie"
proof -
  have "pack_event_cookie \<lparr>native_handle = 7, generation = 3\<rparr> = Inr 0x300000007"
    by (simp add: pack_event_cookie_def token_low_mask_def)
  moreover have "native_handle \<lparr>native_handle = 7, generation = 3\<rparr> \<le> INT_MAX"
    by (simp add: INT_MAX_def)
  ultimately show ?thesis
    using event_cookie_roundtrip [of "\<lparr>native_handle = 7, generation = 3\<rparr>"] by blast
qed

text \<open>
  C8. The epoll backend refines the virtual backend whatever the kernel answers: after any
  sequence of calls on a newly constructed backend, polls with arbitrary, duplicate or stale
  events included, every accepted operation has been delivered exactly once or is still
  outstanding exactly once; the bookkeeping state is one the virtual backend reaches with the same
  acceptances and deliveries; backend and virtual backend are stopped together; and the next
  call, whichever it is, performs exactly the virtual calls of its specification \<open>performs\<close>: a
  registration registers the handle and takes it back if the kernel refuses, submitting and
  cancelling are the virtual calls with their answers, a successful close closes the handle, a
  poll completes what the kernel reported in the direction it reported, and shutting down shuts
  the virtual backend down.
\<close>

theorem epoll_refines_virtual:
  assumes "ledger_run (eb_step sys) ops (eb_create sys k) = (accepted, delivered, b, k')"
  shows "(\<exists>vops. ledger_run vb_step vops vb_init = (accepted, delivered, eb_fallback b)) \<and>
    mset accepted = mset delivered + mset (map op_id (vb_pending (eb_fallback b))) +
      mset (map bc_operation_id (vb_completions (eb_fallback b))) \<and>
    distinct (map op_id (vb_pending (eb_fallback b)) @
      map bc_operation_id (vb_completions (eb_fallback b))) \<and>
    eb_stopped b = vb_stopped (eb_fallback b) \<and>
    performs (eb_usable b) (eb_ready sys (b, k')) call (eb_answer sys call (b, k')) (eb_fallback b)
      (eb_fallback (fst (snd (snd (eb_step sys call (b, k'))))))"
  using eb.run_from_init [OF eb_create_fallback assms, of call] by simp

theorem epoll_refines_virtual_witness:
  "\<exists>b k. ledger_run (eb_step readable_kernel)
      [Rb_register 7, Rb_submit (socket_read 9 \<lparr>native_handle = 7, generation = 1\<rparr>), Rb_poll,
       Rb_drain [make_completion 0 (Inr ())]] (eb_create readable_kernel 0) = ([9], [9], b, k) \<and>
    mset (map op_id (vb_pending (eb_fallback b))) +
      mset (map bc_operation_id (vb_completions (eb_fallback b))) = {#} \<and>
    \<not> eb_stopped b \<and> vb_stopped (eb_fallback (fst (snd (eb_shutdown readable_kernel (b, k)))))"
proof -
  let ?t = "\<lparr>native_handle = 7, generation = 1\<rparr>"
  let ?ops = "[Rb_register 7, Rb_submit (socket_read 9 ?t), Rb_poll, Rb_drain [make_completion 0 (Inr ())]]"
  obtain b k where run: "ledger_run (eb_step readable_kernel) ?ops (eb_create readable_kernel 0) = ([9], [9], b, k)"
    and on: "\<not> eb_stopped b"
    by (simp add: eb_create_def readable_kernel_def counter_kernel_def eb_register_handle_def INT_MAX_def
        eb_initialization_result_def pack_event_cookie_def token_low_mask_def eb_submit_def eb_poll_def
        wake_event_cookie_def unpack_event_cookie_def complete_if_def has_read_readiness_def
        has_write_readiness_def EPOLLIN_def EPOLLOUT_def EPOLLERR_def EPOLLHUP_def EPOLLRDHUP_def
        eb_drain_completions_def virtual_run_defs)
  note all = epoll_refines_virtual [OF run, of Rb_shutdown]
  then have "vb_stopped (eb_fallback (fst (snd (eb_shutdown readable_kernel (b, k)))))" by simp
  then show ?thesis using all run on by auto
qed

text \<open>
  A failed registration leaves no handle open: if \<^verbatim>\<open>register_handle\<close> of the epoll backend
  fails, for whatever reason, exactly the same tokens are current as before; if it succeeds,
  the new token is current, names the handle, and can be encoded as an event cookie.
\<close>

theorem epoll_register_atomic:
  assumes "eb_register_handle sys h (b, k) = (r, b', k')"
  shows "case r of
      Inl _ \<Rightarrow> vb_is_current_handle t (eb_fallback b') = vb_is_current_handle t (eb_fallback b)
    | Inr new \<Rightarrow> vb_is_current_handle new (eb_fallback b') \<and> native_handle new = h \<and>
        (\<exists>c. pack_event_cookie new = Inr c) \<and>
        \<not> vb_is_current_handle new (eb_fallback b)"
proof -
  obtain r0 f where reg: "vb_register_handle h (eb_fallback b) = (r0, f)" by fastforce
  show ?thesis
  proof (cases r0)
    case (Inl e)
    then have "vb_is_current_handle t f = vb_is_current_handle t (eb_fallback b)"
      using reg by (auto simp: vb_register_handle_def vb_is_current_handle_def reg_register_def
          reg_is_current_def reg_lookup_def Let_def split: if_splits prod.splits sum.splits
          option.splits)
    then show ?thesis
      using assms reg Inl
      by (auto simp: eb_register_handle_def split: if_splits sum.splits)
  next
    case (Inr new)
    have stopped: "\<not> vb_stopped (eb_fallback b)" "\<not> vb_stopped f"
      and new: "native_handle new = h" "vb_is_current_handle new f"
        "\<not> vb_is_current_handle new (eb_fallback b)" "\<not> reg_open h (vb_registry (eb_fallback b))"
      and other: "\<And>t. native_handle t \<noteq> h \<Longrightarrow>
        vb_is_current_handle t f = vb_is_current_handle t (eb_fallback b)"
      using reg Inr
      by (auto simp: vb_register_handle_def vb_is_current_handle_def reg_register_def
          reg_is_current_def reg_lookup_def reg_open_def Let_def to_backend_token_def
          to_native_token_def split: if_splits prod.splits sum.splits option.splits)
    have undo: "vb_is_current_handle t (snd (vb_close_handle new f)) =
        vb_is_current_handle t (eb_fallback b)"
    proof (cases "native_handle t = h")
      case True
      then show ?thesis
        using stopped new
        by (auto simp: vb_close_handle_def reg_close_def vb_is_current_handle_def
            reg_is_current_def reg_open_def reg_lookup_def to_native_token_def
            vb_complete_pending_def complete_loop_eq split: option.splits)
    next
      case False
      then show ?thesis
        using other [OF False] new(1)
        by (auto simp: vb_close_handle_def reg_close_def vb_is_current_handle_def
            reg_is_current_def to_native_token_def vb_complete_pending_def complete_loop_eq
            split: option.splits)
    qed
    then show ?thesis
      using assms reg Inr new
      by (auto simp: eb_register_handle_def split: if_splits sum.splits prod.splits)
  qed
qed

theorem epoll_register_atomic_witness:
  "vb_is_current_handle \<lparr>native_handle = 7, generation = 1\<rparr>
     (eb_fallback (fst (snd (eb_register_handle counter_kernel 7
        (eb_create counter_kernel 0 :: unit epoll_backend \<times> nat)))))"
proof -
  let ?s = "eb_create counter_kernel 0 :: unit epoll_backend \<times> nat"
  obtain b k where s: "?s = (b, k)" by fastforce
  obtain b' k' where "eb_register_handle counter_kernel 7 (b, k) =
      (Inr \<lparr>native_handle = 7, generation = 1\<rparr>, b', k')"
    using s [symmetric]
    by (simp add: eb_register_handle_def eb_create_def counter_kernel_def Let_def INT_MAX_def
        eb_initialization_result_def vb_register_handle_def vb_init_def reg_register_def
        reg_lookup_def to_backend_token_def pack_event_cookie_def token_low_mask_def)
  from epoll_register_atomic [OF this] this s show ?thesis by simp
qed

text \<open>
  C21. A wake-up is drained in finitely many reads and polling returns: if every successful
  or interrupted read of the event counter lowers some measure of the kernel state, as a read
  that resets the counter does, \<^verbatim>\<open>poll\<close> always returns, whatever events the kernel reports.
\<close>

theorem epoll_poll_returns:
  assumes "\<And>fd k v k'. sys_eventfd_read sys fd k = (Inr v, k') \<Longrightarrow> \<mu> k' < (\<mu> k :: nat)"
    and "\<And>fd k k'. sys_eventfd_read sys fd k = (Inl EINTR, k') \<Longrightarrow> \<mu> k' < \<mu> k"
  shows "\<exists>r s'. eb_poll sys s = Some (r, s')"
proof -
  have wake: "\<exists>r k'. drain_wake_fd sys fd k = Some (r, k')" for fd k
  proof (induction "\<mu> k" arbitrary: k rule: less_induct)
    case less
    then show ?case
      using assms by (subst drain_wake_fd.simps) (auto split: prod.split sum.split)
  qed
  have "\<exists>r s'. poll_events sys events n s = Some (r, s')" for events n s
  proof (induction events arbitrary: n s)
    case Nil
    then show ?case by (cases s) simp
  next
    case (Cons event events)
    obtain b k where s: "s = (b, k)" by fastforce
    obtain r1 k1 where "drain_wake_fd sys (eb_wake_fd b) k = Some (r1, k1)" using wake by blast
    then show ?case using Cons
      by (auto simp: s Let_def split: prod.split sum.split)
  qed
  then show ?thesis
    by (cases s) (auto simp: eb_poll_def split: option.split prod.split sum.split)
qed

theorem epoll_poll_returns_witness:
  "\<exists>r s'. eb_poll counter_kernel (eb_create counter_kernel 5 :: unit epoll_backend \<times> nat) =
     Some (r, s')"
  by (rule epoll_poll_returns [where \<mu> = "\<lambda>k. k"])
    (auto simp: counter_kernel_def EINTR_def EAGAIN_def split: if_splits)

end
