(* ===== verification/Kqueue_Backend.thy ===== *)
theory Kqueue_Backend
  imports Epoll_Backend
begin

text \<open>
  \<^verbatim>\<open>include/voris/io/backends/kqueue_backend.hpp\<close> and \<^verbatim>\<open>src/backends_kqueue_backend.cpp\<close>, the BSD and
  macOS build on 64-bit machines: readiness from \<^verbatim>\<open>kevent\<close> completes the operations kept by a
  \<^verbatim>\<open>virtual_backend\<close>. The kernel is the record \<open>kqueue_sys\<close>; \<open>kq_change\<close> is \<^verbatim>\<open>kevent\<close> with one change
  and room for one receipt, \<open>kq_wait\<close> the poll for events, \<open>kq_trigger\<close> the change without room for
  events. The loops that retry interrupted calls are partial; a registration that never returns
  leaves the state as the caller last saw it.
\<close>

section \<open>Kernel interface\<close>

datatype kqueue_filter = Evfilt_read | Evfilt_write | Evfilt_user | Evfilt_other

record kevent =
  ke_ident :: uint64
  ke_filter :: kqueue_filter
  ke_flags :: "16 word"
  ke_fflags :: uint32
  ke_data :: int
  ke_udata :: uint64

definition EV_ADD :: "16 word" where "EV_ADD = 0x1"
definition EV_DELETE :: "16 word" where "EV_DELETE = 0x2"
definition EV_ENABLE :: "16 word" where "EV_ENABLE = 0x4"
definition EV_CLEAR :: "16 word" where "EV_CLEAR = 0x20"
definition EV_RECEIPT :: "16 word" where "EV_RECEIPT = 0x40"
definition EV_ERROR :: "16 word" where "EV_ERROR = 0x4000"
definition NOTE_TRIGGER :: uint32 where "NOTE_TRIGGER = 0x1000000"

record 'o kqueue_sys =
  kq_kqueue :: "'o \<Rightarrow> (errno + int) \<times> 'o"
  kq_getfd :: "int \<Rightarrow> 'o \<Rightarrow> (errno + int) \<times> 'o"
  kq_setfd_cloexec :: "int \<Rightarrow> int \<Rightarrow> 'o \<Rightarrow> (errno + unit) \<times> 'o"
  kq_change :: "int \<Rightarrow> kevent \<Rightarrow> 'o \<Rightarrow> (errno + kevent list) \<times> 'o"
  kq_trigger :: "int \<Rightarrow> kevent \<Rightarrow> 'o \<Rightarrow> (errno + unit) \<times> 'o"
  kq_wait :: "int \<Rightarrow> nat \<Rightarrow> 'o \<Rightarrow> (errno + kevent list) \<times> 'o"
  kq_close :: "int \<Rightarrow> 'o \<Rightarrow> 'o"

section \<open>Cookies and changes\<close>

definition wake_event_ident :: uint64 where
  "wake_event_ident = 1"

definition kq_pack_event_cookie :: "backend_handle_token \<Rightarrow> uint64 io_result" where
  "kq_pack_event_cookie token =
     (if native_handle token = 0 \<or> generation token = 0 \<or>
         native_handle token > token_low_mask \<or> generation token > token_low_mask
      then Inl (make_error_diagnostic invalid_state ''backend handle token cannot be encoded'')
      else
        (let cookie = push_bit 32 (generation token) OR native_handle token
         in if cookie = wake_event_cookie
            then Inl (make_error_diagnostic invalid_state
                        ''backend handle token conflicts with wake cookie'')
            else Inr cookie))"

definition kq_unpack_event_cookie :: "uint64 \<Rightarrow> backend_handle_token" where
  "kq_unpack_event_cookie cookie =
     \<lparr>native_handle = cookie AND token_low_mask, generation = drop_bit 32 cookie\<rparr>"

definition set_event ::
  "uint64 \<Rightarrow> kqueue_filter \<Rightarrow> 16 word \<Rightarrow> uint32 \<Rightarrow> int \<Rightarrow> uint64 \<Rightarrow> kevent" where
  "set_event ident filt flags fflags data cookie =
     \<lparr>ke_ident = ident, ke_filter = filt, ke_flags = flags, ke_fflags = fflags, ke_data = data,
      ke_udata = cookie\<rparr>"

datatype change_error_policy = Strict | Cleanup

definition receipt_error :: "errno \<Rightarrow> change_error_policy \<Rightarrow> void_result" where
  "receipt_error code policy =
     (if policy = Cleanup \<and> (code = EBADF \<or> code = ENOENT) then Inr ()
      else Inl (provider_failure code))"

text \<open>\<^verbatim>\<open>static_cast<int>\<close> of an \<^verbatim>\<open>intptr_t\<close>.\<close>

definition int_cast :: "int \<Rightarrow> int" where
  "int_cast x = signed_take_bit 31 x"

text \<open>The loop of \<^verbatim>\<open>apply_filter_change\<close>, with the receipt flag set in the change.\<close>

partial_function (option) filter_change_loop ::
  "'o kqueue_sys \<Rightarrow> int \<Rightarrow> kevent \<Rightarrow> change_error_policy \<Rightarrow> 'o \<Rightarrow> (void_result \<times> 'o) option" where
  "filter_change_loop sys fd change policy k =
     (case kq_change sys fd change k of
        (Inl code, k1) \<Rightarrow>
          if code = EINTR then filter_change_loop sys fd change policy k1
          else Some (receipt_error code policy, k1)
      | (Inr received, k1) \<Rightarrow>
          (case received of
             [receipt] \<Rightarrow>
               if ke_flags receipt AND EV_ERROR = 0
               then Some (Inl (make_error_diagnostic backend_failure
                                 ''kqueue did not return a filter-change receipt''), k1)
               else if ke_data receipt = 0 then Some (Inr (), k1)
               else Some (receipt_error (int_cast (ke_data receipt)) policy, k1)
           | _ \<Rightarrow> Some (Inl (make_error_diagnostic backend_failure
                               ''kqueue did not return a filter-change receipt''), k1)))"

definition apply_filter_change ::
  "'o kqueue_sys \<Rightarrow> int \<Rightarrow> kevent \<Rightarrow> change_error_policy \<Rightarrow> 'o \<Rightarrow> (void_result \<times> 'o) option" where
  "apply_filter_change sys fd change policy k =
     filter_change_loop sys fd (change\<lparr>ke_flags := ke_flags change OR EV_RECEIPT\<rparr>) policy k"

definition set_close_on_exec :: "'o kqueue_sys \<Rightarrow> int \<Rightarrow> 'o \<Rightarrow> (void_result \<times> 'o) option" where
  "set_close_on_exec sys fd k =
     (case retry_interrupted (kq_getfd sys fd) k of
        None \<Rightarrow> None
      | Some (Inl code, k1) \<Rightarrow> Some (Inl (provider_failure code), k1)
      | Some (Inr flags, k1) \<Rightarrow>
          (case retry_interrupted (kq_setfd_cloexec sys fd flags) k1 of
             None \<Rightarrow> None
           | Some (Inl code, k2) \<Rightarrow> Some (Inl (provider_failure code), k2)
           | Some (Inr _, k2) \<Rightarrow> Some (Inr (), k2)))"

definition delete_filter ::
  "'o kqueue_sys \<Rightarrow> int \<Rightarrow> uint64 \<Rightarrow> kqueue_filter \<Rightarrow> 'o \<Rightarrow> (void_result \<times> 'o) option" where
  "delete_filter sys fd ident filt k =
     apply_filter_change sys fd (set_event ident filt EV_DELETE 0 0 0) Cleanup k"

definition is_read_readiness :: "kevent \<Rightarrow> bool" where
  "is_read_readiness event \<longleftrightarrow> ke_filter event = Evfilt_read"

definition is_write_readiness :: "kevent \<Rightarrow> bool" where
  "is_write_readiness event \<longleftrightarrow> ke_filter event = Evfilt_write"

section \<open>Backend state and operations\<close>

record 'r kqueue_backend =
  kb_fallback :: "'r virtual_backend"
  kb_kqueue_fd :: int
  kb_stopped :: bool
  kb_initialization_error :: "vio_error option"

definition kb_close_owned_descriptor ::
  "'o kqueue_sys \<Rightarrow> 'r kqueue_backend \<times> 'o \<Rightarrow> 'r kqueue_backend \<times> 'o" where
  "kb_close_owned_descriptor sys = (\<lambda>(b, k).
     if kb_kqueue_fd b \<ge> 0
     then (b\<lparr>kb_kqueue_fd := - 1\<rparr>, kq_close sys (kb_kqueue_fd b) k) else (b, k))"

definition kb_create :: "'o kqueue_sys \<Rightarrow> 'o \<Rightarrow> ('r kqueue_backend \<times> 'o) option" where
  "kb_create sys k =
     (let b = \<lparr>kb_fallback = vb_init, kb_kqueue_fd = - 1, kb_stopped = False,
               kb_initialization_error = None\<rparr>
      in case kq_kqueue sys k of
           (Inl e, k1) \<Rightarrow> Some (b\<lparr>kb_initialization_error := Some (provider_failure e)\<rparr>, k1)
         | (Inr fd, k1) \<Rightarrow>
             (let b1 = b\<lparr>kb_kqueue_fd := fd\<rparr>
              in case set_close_on_exec sys fd k1 of
                   None \<Rightarrow> None
                 | Some (Inl e, k2) \<Rightarrow> Some (kb_close_owned_descriptor sys
                     (b1\<lparr>kb_initialization_error := Some e\<rparr>, k2))
                 | Some (Inr _, k2) \<Rightarrow>
                     (case apply_filter_change sys fd
                             (set_event wake_event_ident Evfilt_user (EV_ADD OR EV_CLEAR) 0 0
                                wake_event_cookie) Strict k2 of
                        None \<Rightarrow> None
                      | Some (Inl e, k3) \<Rightarrow> Some (kb_close_owned_descriptor sys
                          (b1\<lparr>kb_initialization_error := Some e\<rparr>, k3))
                      | Some (Inr _, k3) \<Rightarrow> Some (b1, k3))))"

definition kb_initialization_result :: "'r kqueue_backend \<Rightarrow> void_result" where
  "kb_initialization_result b =
     (case kb_initialization_error b of Some e \<Rightarrow> Inl e | None \<Rightarrow> Inr ())"

definition kb_register_handle ::
  "'o kqueue_sys \<Rightarrow> size_t \<Rightarrow> 'r kqueue_backend \<times> 'o \<Rightarrow>
     (backend_handle_token io_result \<times> 'r kqueue_backend \<times> 'o) option" where
  "kb_register_handle sys h = (\<lambda>(b, k).
     if kb_stopped b then Some (Inl (make_error closed None []), b, k)
     else if h = 0 \<or> h > INT_MAX
     then Some (Inl (make_error_diagnostic invalid_state
                       ''native handle id must be a valid file descriptor''), b, k)
     else (case kb_initialization_result b of
       Inl e \<Rightarrow> Some (Inl e, b, k)
     | Inr _ \<Rightarrow>
         (case vb_register_handle h (kb_fallback b) of
            (Inl e, f) \<Rightarrow> Some (Inl e, b\<lparr>kb_fallback := f\<rparr>, k)
          | (Inr token, f) \<Rightarrow>
              (let undo = b\<lparr>kb_fallback := snd (vb_close_handle token f)\<rparr>
               in case kq_pack_event_cookie token of
                 Inl e \<Rightarrow> Some (Inl e, undo, k)
               | Inr cookie \<Rightarrow>
                   (case apply_filter_change sys (kb_kqueue_fd b)
                           (set_event h Evfilt_read (EV_ADD OR EV_ENABLE) 0 0 cookie) Strict k of
                      None \<Rightarrow> None
                    | Some (Inl e, k1) \<Rightarrow> Some (Inl e, undo, k1)
                    | Some (Inr _, k1) \<Rightarrow>
                        (case apply_filter_change sys (kb_kqueue_fd b)
                                (set_event h Evfilt_write (EV_ADD OR EV_ENABLE) 0 0 cookie) Strict k1 of
                           None \<Rightarrow> None
                         | Some (Inl e, k2) \<Rightarrow>
                             (case delete_filter sys (kb_kqueue_fd b) h Evfilt_read k2 of
                                None \<Rightarrow> None
                              | Some (_, k3) \<Rightarrow> Some (Inl e, undo, k3))
                         | Some (Inr _, k2) \<Rightarrow>
                             Some (Inr token, b\<lparr>kb_fallback := f\<rparr>, k2)))))))"

definition kb_submit ::
  "'r backend_operation \<Rightarrow> 'r kqueue_backend \<Rightarrow> void_result \<times> 'r kqueue_backend" where
  "kb_submit operation b =
     (if kb_stopped b then (closed_error, b)
      else (case kb_initialization_result b of
        Inl e \<Rightarrow> (Inl e, b)
      | Inr _ \<Rightarrow>
          if \<not> is_socket_backend_operation operation
          then (Inl (make_error_diagnostic invalid_state
                       ''kqueue backend accepts socket readiness operations only''), b)
          else let (r, f) = vb_submit operation (kb_fallback b) in (r, b\<lparr>kb_fallback := f\<rparr>)))"

definition kb_cancel ::
  "size_t \<Rightarrow> cancellation_reason \<Rightarrow> 'r kqueue_backend \<Rightarrow> void_result \<times> 'r kqueue_backend" where
  "kb_cancel operation_id reason b =
     (if kb_stopped b then (closed_error, b)
      else (case kb_initialization_result b of
        Inl e \<Rightarrow> (Inl e, b)
      | Inr _ \<Rightarrow>
          let (r, f) = vb_cancel operation_id reason (kb_fallback b) in (r, b\<lparr>kb_fallback := f\<rparr>)))"

definition kb_close_handle ::
  "'o kqueue_sys \<Rightarrow> backend_handle_token \<Rightarrow> 'r kqueue_backend \<times> 'o \<Rightarrow>
     (void_result \<times> 'r kqueue_backend \<times> 'o) option" where
  "kb_close_handle sys token = (\<lambda>(b, k).
     if kb_stopped b then Some (closed_error, b, k)
     else (case kb_initialization_result b of
       Inl e \<Rightarrow> Some (Inl e, b, k)
     | Inr _ \<Rightarrow>
         if native_handle token = 0 \<or> native_handle token > INT_MAX \<or>
            \<not> vb_is_current_handle token (kb_fallback b)
         then Some (Inl (make_error_diagnostic invalid_state ''backend handle token is not current''),
                    b, k)
         else
           (case delete_filter sys (kb_kqueue_fd b) (native_handle token) Evfilt_read k of
              None \<Rightarrow> None
            | Some (Inl e, k1) \<Rightarrow> Some (Inl e, b, k1)
            | Some (Inr _, k1) \<Rightarrow>
                (case delete_filter sys (kb_kqueue_fd b) (native_handle token) Evfilt_write k1 of
                   None \<Rightarrow> None
                 | Some (Inl e, k2) \<Rightarrow> Some (Inl e, b, k2)
                 | Some (Inr _, k2) \<Rightarrow>
                     (let (r, f) = vb_close_handle token (kb_fallback b)
                      in Some (r, b\<lparr>kb_fallback := f\<rparr>, k2))))))"

text \<open>The loop of \<^verbatim>\<open>poll\<close> over the events.\<close>

fun kb_poll_events ::
  "kevent list \<Rightarrow> size_t \<Rightarrow> 'r kqueue_backend \<Rightarrow> size_t io_result \<times> 'r kqueue_backend" where
  "kb_poll_events [] observed b = (Inr observed, b)"
| "kb_poll_events (event # events) observed b =
     (if ke_filter event = Evfilt_user \<and> ke_ident event = wake_event_ident
      then kb_poll_events events (observed + 1) b
      else if ke_flags event AND EV_ERROR \<noteq> 0 \<and> ke_data event \<noteq> 0
      then (Inl (provider_failure (int_cast (ke_data event))), b)
      else
        (let token = kq_unpack_event_cookie (ke_udata event)
         in if \<not> vb_is_current_handle token (kb_fallback b) then kb_poll_events events observed b
            else if is_read_readiness event
            then (case vb_complete_ready token op_read (kb_fallback b) of
                    (Inl e, f) \<Rightarrow> (Inl e, b\<lparr>kb_fallback := f\<rparr>)
                  | (Inr _, f) \<Rightarrow> kb_poll_events events (observed + 1) (b\<lparr>kb_fallback := f\<rparr>))
            else if is_write_readiness event
            then (case vb_complete_ready token op_write (kb_fallback b) of
                    (Inl e, f) \<Rightarrow> (Inl e, b\<lparr>kb_fallback := f\<rparr>)
                  | (Inr _, f) \<Rightarrow> kb_poll_events events (observed + 1) (b\<lparr>kb_fallback := f\<rparr>))
            else kb_poll_events events (observed + 1) b))"

definition kb_poll ::
  "'o kqueue_sys \<Rightarrow> 'r kqueue_backend \<times> 'o \<Rightarrow> size_t io_result \<times> 'r kqueue_backend \<times> 'o" where
  "kb_poll sys = (\<lambda>(b, k).
     if kb_stopped b then (Inr 0, b, k)
     else (case kb_initialization_error b of
       Some e \<Rightarrow> (Inl e, b, k)
     | None \<Rightarrow>
         (case kq_wait sys (kb_kqueue_fd b) 64 k of
            (Inl e, k1) \<Rightarrow> (if e = EINTR then Inr 0 else Inl (provider_failure e), b, k1)
          | (Inr events, k1) \<Rightarrow>
              (case kb_poll_events events 0 b of (r, b1) \<Rightarrow> (r, b1, k1)))))"

definition kb_drain_completions ::
  "backend_completion list \<Rightarrow> 'r kqueue_backend \<Rightarrow>
     size_t io_result \<times> backend_completion list \<times> 'r kqueue_backend" where
  "kb_drain_completions out b =
     (let (r, out', f) = vb_drain_completions out (kb_fallback b) in (r, out', b\<lparr>kb_fallback := f\<rparr>))"

definition kb_wake ::
  "'o kqueue_sys \<Rightarrow> 'r kqueue_backend \<times> 'o \<Rightarrow> (void_result \<times> 'r kqueue_backend \<times> 'o) option" where
  "kb_wake sys = (\<lambda>(b, k).
     if kb_stopped b then Some (closed_error, b, k)
     else (case kb_initialization_result b of
       Inl e \<Rightarrow> Some (Inl e, b, k)
     | Inr _ \<Rightarrow>
         (case retry_interrupted (kq_trigger sys (kb_kqueue_fd b)
                 (set_event wake_event_ident Evfilt_user 0 NOTE_TRIGGER 0 wake_event_cookie)) k of
            None \<Rightarrow> None
          | Some (Inl code, k1) \<Rightarrow> Some (Inl (provider_failure code), b, k1)
          | Some (Inr _, k1) \<Rightarrow> Some (Inr (), b, k1))))"

definition kb_shutdown ::
  "'o kqueue_sys \<Rightarrow> 'r kqueue_backend \<times> 'o \<Rightarrow> void_result \<times> 'r kqueue_backend \<times> 'o" where
  "kb_shutdown sys = (\<lambda>(b, k).
     if kb_stopped b then (Inr (), b, k)
     else (Inr (), kb_close_owned_descriptor sys
       (b\<lparr>kb_stopped := True, kb_fallback := snd (vb_shutdown (kb_fallback b))\<rparr>, k)))"

section \<open>Refinement of the virtual backend\<close>

fun kb_step :: "'o kqueue_sys \<Rightarrow> 'r readiness_op \<Rightarrow> 'r kqueue_backend \<times> 'o \<Rightarrow>
    size_t list \<times> size_t list \<times> 'r kqueue_backend \<times> 'o" where
  "kb_step sys (Rb_register h) s =
     ([], [], case kb_register_handle sys h s of None \<Rightarrow> s | Some (_, s') \<Rightarrow> s')"
| "kb_step sys (Rb_submit operation) (b, k) =
     (let (r, b') = kb_submit operation b
      in (case r of Inl _ \<Rightarrow> [] | Inr _ \<Rightarrow> [op_id operation], [], b', k))"
| "kb_step sys (Rb_cancel i reason) (b, k) = ([], [], snd (kb_cancel i reason b), k)"
| "kb_step sys (Rb_close t) s =
     ([], [], case kb_close_handle sys t s of None \<Rightarrow> s | Some (_, s') \<Rightarrow> s')"
| "kb_step sys Rb_poll s = ([], [], snd (kb_poll sys s))"
| "kb_step sys (Rb_drain out) (b, k) =
     (let (r, out', b') = kb_drain_completions out b
      in ([], case r of Inl _ \<Rightarrow> [] | Inr n \<Rightarrow> map bc_operation_id
                 (take (min (length out) (length (vb_completions (kb_fallback b)))) out'), b', k))"
| "kb_step sys Rb_wake s = ([], [], case kb_wake sys s of None \<Rightarrow> s | Some (_, s') \<Rightarrow> s')"
| "kb_step sys Rb_shutdown s = ([], [], snd (kb_shutdown sys s))"

text \<open>Whether a call is answered with success, and the readiness a poll is told.\<close>

fun kb_answer :: "'o kqueue_sys \<Rightarrow> 'r readiness_op \<Rightarrow> 'r kqueue_backend \<times> 'o \<Rightarrow> bool" where
  "kb_answer sys (Rb_register h) s \<longleftrightarrow>
     (case kb_register_handle sys h s of None \<Rightarrow> False | Some (r, _) \<Rightarrow> \<not> isl r)"
| "kb_answer sys (Rb_submit operation) s \<longleftrightarrow> \<not> isl (fst (kb_submit operation (fst s)))"
| "kb_answer sys (Rb_cancel i reason) s \<longleftrightarrow> \<not> isl (fst (kb_cancel i reason (fst s)))"
| "kb_answer sys (Rb_close t) s \<longleftrightarrow>
     (case kb_close_handle sys t s of None \<Rightarrow> False | Some (r, _) \<Rightarrow> \<not> isl r)"
| "kb_answer sys Rb_poll s \<longleftrightarrow> \<not> isl (fst (kb_poll sys s))"
| "kb_answer sys (Rb_drain out) s \<longleftrightarrow> \<not> isl (fst (kb_drain_completions out (fst s)))"
| "kb_answer sys Rb_wake s \<longleftrightarrow> (case kb_wake sys s of None \<Rightarrow> False | Some (r, _) \<Rightarrow> \<not> isl r)"
| "kb_answer sys Rb_shutdown s \<longleftrightarrow> \<not> isl (fst (kb_shutdown sys s))"

definition kb_usable :: "'r kqueue_backend \<Rightarrow> bool" where
  "kb_usable b \<longleftrightarrow> \<not> kb_stopped b \<and> kb_initialization_error b = None"

text \<open>A filter reports one direction; the wake-up event reports none.\<close>

definition kevent_readiness :: "kevent \<Rightarrow> (backend_handle_token \<times> backend_operation_kind) list" where
  "kevent_readiness event =
     (let t = kq_unpack_event_cookie (ke_udata event)
      in case ke_filter event of
           Evfilt_read \<Rightarrow> [(t, op_read)] | Evfilt_write \<Rightarrow> [(t, op_write)]
         | Evfilt_user \<Rightarrow> [] | Evfilt_other \<Rightarrow> [])"

definition kb_ready ::
  "'o kqueue_sys \<Rightarrow> 'r kqueue_backend \<times> 'o \<Rightarrow> (backend_handle_token \<times> backend_operation_kind) list" where
  "kb_ready sys s =
     (if \<not> kb_usable (fst s) then []
      else case fst (kq_wait sys (kb_kqueue_fd (fst s)) 64 (snd s)) of
        Inl _ \<Rightarrow> []
      | Inr events \<Rightarrow> concat (map kevent_readiness events))"

lemma kb_close_owned_fallback [simp]:
  "kb_fallback (fst (kb_close_owned_descriptor sys s)) = kb_fallback (fst s)"
  "kb_stopped (fst (kb_close_owned_descriptor sys s)) = kb_stopped (fst s)"
  by (simp_all add: kb_close_owned_descriptor_def split: prod.split)

lemma complete_ready_current:
  "vb_is_current_handle t f \<Longrightarrow> vb_complete_ready t kind f = (Inr (), vb_complete_pending_kind t kind (Inr ()) f)"
  by (simp add: vb_complete_ready_def)

text \<open>One event is processed as its readiness says, unless it reports an error.\<close>

lemma kb_poll_events_Cons:
  "kb_poll_events (event # events) observed b =
     (let current = vb_is_current_handle (kq_unpack_event_cookie (ke_udata event)) (kb_fallback b);
          wake = (ke_filter event = Evfilt_user \<and> ke_ident event = wake_event_ident)
      in if \<not> wake \<and> ke_flags event AND EV_ERROR \<noteq> 0 \<and> ke_data event \<noteq> 0
         then (Inl (provider_failure (int_cast (ke_data event))), b)
         else kb_poll_events events (if wake \<or> current then observed + 1 else observed)
                (b\<lparr>kb_fallback := complete_all (kevent_readiness event) (kb_fallback b)\<rparr>))"
proof (cases "vb_is_current_handle (kq_unpack_event_cookie (ke_udata event)) (kb_fallback b)")
  case True
  then show ?thesis
    by (cases "ke_filter event")
      (simp_all add: kevent_readiness_def is_read_readiness_def is_write_readiness_def
        complete_ready_current Let_def)
next
  case False
  then have "complete_all (kevent_readiness event) (kb_fallback b) = kb_fallback b"
    by (simp add: kevent_readiness_def complete_ready_stale Let_def split: kqueue_filter.split)
  then show ?thesis using False by (simp add: Let_def)
qed

lemma kb_poll_events_completes:
  assumes "kb_poll_events events observed b = (r, b')"
  shows "kb_stopped b' = kb_stopped b \<and>
    (if isl r then \<exists>n \<le> length (concat (map kevent_readiness events)).
         kb_fallback b' = complete_all (take n (concat (map kevent_readiness events))) (kb_fallback b)
     else kb_fallback b' = complete_all (concat (map kevent_readiness events)) (kb_fallback b))"
  using assms
proof (induction events arbitrary: observed b)
  case (Cons event events)
  let ?c = "complete_all (kevent_readiness event) (kb_fallback b)"
  have later: ?case if run: "kb_poll_events events m (b\<lparr>kb_fallback := ?c\<rparr>) = (r, b')" for m
  proof (cases "isl r")
    case True
    obtain n where "n \<le> length (concat (map kevent_readiness events))"
      "kb_fallback b' = complete_all (take n (concat (map kevent_readiness events))) ?c"
      using Cons.IH [OF run] True by auto
    then show ?thesis
      using Cons.IH [OF run] True
      by (intro conjI) (simp_all add: complete_all_append [symmetric],
          intro exI [of _ "length (kevent_readiness event) + n"], simp)
  next
    case False
    then show ?thesis using Cons.IH [OF run] by (simp add: complete_all_append)
  qed
  show ?case
  proof (cases "\<not> (ke_filter event = Evfilt_user \<and> ke_ident event = wake_event_ident) \<and>
      ke_flags event AND EV_ERROR \<noteq> 0 \<and> ke_data event \<noteq> 0")
    case True
    then have "isl r \<and> b' = b" using Cons.prems [unfolded kb_poll_events_Cons Let_def if_P [OF True]] by auto
    then show ?thesis by (auto intro: exI [of _ 0])
  next
    case False
    show ?thesis by (rule later [OF Cons.prems [unfolded kb_poll_events_Cons Let_def if_not_P [OF False]]])
  qed
qed auto

lemma kb_poll_performs:
  "performs (kb_usable (fst s)) (kb_ready sys s) Rb_poll (kb_answer sys Rb_poll s) (kb_fallback (fst s))
     (kb_fallback (fst (snd (snd (kb_step sys Rb_poll s))))) \<and>
   kb_stopped (fst (snd (snd (kb_step sys Rb_poll s)))) = kb_stopped (fst s)"
proof -
  obtain b k where s: "s = (b, k)" by fastforce
  obtain w k1 where w: "kq_wait sys (kb_kqueue_fd b) 64 k = (w, k1)" by fastforce
  show ?thesis
  proof (cases "kb_usable b \<and> \<not> isl w")
    case True
    then obtain events where events: "w = Inr events" by (cases w) auto
    obtain r b' where run: "kb_poll_events events 0 b = (r, b')" by fastforce
    have ready: "kb_ready sys (b, k) = concat (map kevent_readiness events)"
      and poll: "kb_poll sys (b, k) = (r, b', k1)"
      using True events run by (auto simp: w kb_ready_def kb_poll_def kb_usable_def)
    show ?thesis
      using kb_poll_events_completes [OF run] by (cases "isl r") (simp_all add: ready poll s)
  next
    case False
    then have ready: "kb_ready sys (b, k) = []" by (cases w) (auto simp: w kb_ready_def)
    have "\<exists>r k'. kb_poll sys (b, k) = (r, b, k')"
      using False w by (cases w) (auto simp: kb_poll_def kb_usable_def split: option.splits)
    then show ?thesis by (auto simp: ready s)
  qed
qed

text \<open>Every call of the kqueue backend performs the virtual calls that its specification names.\<close>

lemma kb_step_performs:
  assumes agree: "kb_stopped (fst s) = vb_stopped (kb_fallback (fst s))"
    and step: "kb_step sys call s = (a, d, s')"
  shows "performs (kb_usable (fst s)) (kb_ready sys s) call (kb_answer sys call s)
      (kb_fallback (fst s)) (kb_fallback (fst s')) \<and>
    a = call_accepts call (kb_answer sys call s) \<and> d = call_delivers call (kb_fallback (fst s)) \<and>
    kb_stopped (fst s') = vb_stopped (kb_fallback (fst s'))"
proof -
  obtain b k where s: "s = (b, k)" by fastforce
  show ?thesis
  proof (cases call)
    case (Rb_register h)
    obtain r f where reg: "vb_register_handle h (kb_fallback b) = (r, f)" by fastforce
    have "vb_stopped f = vb_stopped (kb_fallback b)" using vb_frame_stopped(1) [of h "kb_fallback b"] reg by simp
    then show ?thesis
      using step agree Rb_register reg
      by (auto simp: s kb_register_handle_def kb_usable_def kb_initialization_result_def Let_def
          split: if_splits option.splits sum.splits prod.splits)
  next
    case (Rb_submit operation)
    obtain r f where sub: "vb_submit operation (kb_fallback b) = (r, f)" by fastforce
    have "vb_stopped f = vb_stopped (kb_fallback b)" using vb_frame_stopped(2) [of operation "kb_fallback b"] sub by simp
    then show ?thesis
      using step agree Rb_submit sub
      by (auto simp: s kb_submit_def kb_usable_def kb_initialization_result_def closed_error_def
          split: if_splits option.splits sum.splits)
  next
    case (Rb_cancel i reason)
    obtain r f where c: "vb_cancel i reason (kb_fallback b) = (r, f)" by fastforce
    have "vb_stopped f = vb_stopped (kb_fallback b)" using vb_frame_stopped(3) [of i reason "kb_fallback b"] c by simp
    then show ?thesis
      using step agree Rb_cancel c
      by (auto simp: s kb_cancel_def kb_usable_def kb_initialization_result_def closed_error_def
          split: if_splits option.splits prod.splits)
  next
    case (Rb_close t)
    obtain r f where cl: "vb_close_handle t (kb_fallback b) = (r, f)" by fastforce
    have "vb_stopped f = vb_stopped (kb_fallback b)" using vb_frame_stopped(4) [of t "kb_fallback b"] cl by simp
    moreover have "r = Inr ()" if "vb_is_current_handle t (kb_fallback b)" "\<not> kb_stopped b"
      using vb_close_current [of t "kb_fallback b"] that agree cl by (simp add: s)
    ultimately show ?thesis
      using step agree Rb_close cl
      by (auto simp: s kb_close_handle_def kb_usable_def kb_initialization_result_def closed_error_def
          Let_def split: if_splits option.splits prod.splits sum.splits)
  next
    case Rb_poll
    note poll = kb_poll_performs [of s sys]
    have "vb_stopped (kb_fallback (fst s')) = vb_stopped (kb_fallback (fst s))"
      using poll step Rb_poll by (auto split: if_splits)
    then show ?thesis using poll step Rb_poll agree by auto
  next
    case (Rb_drain out)
    obtain r out' f where dr: "vb_drain_completions out (kb_fallback b) = (r, out', f)" by (metis prod_cases3)
    have "vb_stopped f = vb_stopped (kb_fallback b)" using vb_drain_stopped [of out "kb_fallback b"] dr by simp
    then show ?thesis
      using step agree Rb_drain dr by (auto simp: s kb_drain_completions_def)
  next
    case Rb_wake
    then show ?thesis
      using step agree
      by (auto simp: s kb_wake_def kb_usable_def kb_initialization_result_def closed_error_def
          split: option.splits sum.splits if_splits)
  next
    case Rb_shutdown
    then show ?thesis
      using step agree by (auto simp: s kb_shutdown_def vb_shutdown_def)
  qed
qed

interpretation kb: backend_refinement "kb_step sys" "\<lambda>s. kb_fallback (fst s)" "\<lambda>s. kb_stopped (fst s)"
  "\<lambda>s. kb_usable (fst s)" "kb_ready sys" "kb_answer sys" for sys
  by unfold_locales (rule kb_step_performs)

lemma kb_create_fallback:
  assumes "kb_create sys k = Some s"
  shows "kb_fallback (fst s) = vb_init" "\<not> kb_stopped (fst s)"
  using assms
  by (auto simp: kb_create_def Let_def kb_close_owned_descriptor_def
      split: sum.splits prod.splits option.splits if_splits)

section \<open>An example kernel\<close>

text \<open>
  A kernel that accepts every change with a receipt; its state is the list of registered filters,
  in the order of registration, and the handle 7, registered first, is readable.
\<close>

definition receipt_kernel :: "(uint64 \<times> kqueue_filter) list kqueue_sys" where
  "receipt_kernel = \<lparr>kq_kqueue = (\<lambda>k. (Inr 3, k)), kq_getfd = (\<lambda>fd k. (Inr 0, k)),
     kq_setfd_cloexec = (\<lambda>fd flags k. (Inr (), k)),
     kq_change = (\<lambda>fd change k. (Inr [change\<lparr>ke_flags := EV_ERROR, ke_data := 0\<rparr>],
        if ke_flags change AND EV_DELETE \<noteq> 0
        then [x \<leftarrow> k. x \<noteq> (ke_ident change, ke_filter change)]
        else k @ [(ke_ident change, ke_filter change)])),
     kq_trigger = (\<lambda>fd change k. (Inr (), k)), kq_wait = (\<lambda>fd n k. (Inr (if (7, Evfilt_read) \<in> set k
        then [set_event 7 Evfilt_read 0 0 1 0x100000007] else []), k)),
     kq_close = (\<lambda>fd k. [])\<rparr>"

section \<open>Theorems\<close>

lemma receipt_kernel_create:
  "kb_create receipt_kernel [] = Some (\<lparr>kb_fallback = vb_init, kb_kqueue_fd = 3, kb_stopped = False,
     kb_initialization_error = None\<rparr>, [(1, Evfilt_user)])"
  by (simp add: kb_create_def receipt_kernel_def set_close_on_exec_def retry_interrupted.simps
      apply_filter_change_def filter_change_loop.simps set_event_def wake_event_ident_def
      EV_ADD_def EV_CLEAR_def EV_RECEIPT_def EV_DELETE_def EV_ERROR_def Let_def)

text \<open>
  C9. The kqueue backend refines the virtual backend whatever the kernel answers: after any
  sequence of calls on a newly constructed backend every accepted operation has been delivered
  exactly once or is still outstanding exactly once; the bookkeeping state is one the virtual
  backend reaches with the same acceptances and deliveries; backend and virtual backend are
  stopped together; and the next call, whichever it is, performs exactly the virtual calls of its
  specification \<open>performs\<close>: a registration registers the handle and takes it back if the kernel
  refuses one of the filters, submitting and cancelling are the virtual calls with their answers,
  a successful close closes the handle, a poll completes what the kernel reported in the direction
  it reported, and shutting down shuts the virtual backend down.
\<close>

theorem kqueue_refines_virtual:
  assumes "kb_create sys k = Some s"
    and "ledger_run (kb_step sys) ops s = (accepted, delivered, b, k')"
  shows "(\<exists>vops. ledger_run vb_step vops vb_init = (accepted, delivered, kb_fallback b)) \<and>
    mset accepted = mset delivered + mset (map op_id (vb_pending (kb_fallback b))) +
      mset (map bc_operation_id (vb_completions (kb_fallback b))) \<and>
    distinct (map op_id (vb_pending (kb_fallback b)) @
      map bc_operation_id (vb_completions (kb_fallback b))) \<and>
    kb_stopped b = vb_stopped (kb_fallback b) \<and>
    performs (kb_usable b) (kb_ready sys (b, k')) call (kb_answer sys call (b, k')) (kb_fallback b)
      (kb_fallback (fst (snd (snd (kb_step sys call (b, k'))))))"
  using kb.run_from_init [OF kb_create_fallback [OF assms(1)] assms(2), of call] by simp

theorem kqueue_refines_virtual_witness:
  "\<exists>b k. ledger_run (kb_step receipt_kernel)
      [Rb_register 7, Rb_submit (socket_read 9 \<lparr>native_handle = 7, generation = 1\<rparr>), Rb_poll,
       Rb_drain [make_completion 0 (Inr ())]] (the (kb_create receipt_kernel [])) = ([9], [9], b, k) \<and>
    mset (map op_id (vb_pending (kb_fallback b))) +
      mset (map bc_operation_id (vb_completions (kb_fallback b))) = {#} \<and>
    \<not> kb_stopped b \<and> vb_stopped (kb_fallback (fst (snd (kb_shutdown receipt_kernel (b, k)))))"
proof -
  let ?t = "\<lparr>native_handle = 7, generation = 1\<rparr>"
  let ?ops = "[Rb_register 7, Rb_submit (socket_read 9 ?t), Rb_poll, Rb_drain [make_completion 0 (Inr ())]]"
  let ?s = "(\<lparr>kb_fallback = vb_init, kb_kqueue_fd = 3, kb_stopped = False, kb_initialization_error = None\<rparr>,
    [(1, Evfilt_user)]) :: unit kqueue_backend \<times> (uint64 \<times> kqueue_filter) list"
  obtain b k where run: "ledger_run (kb_step receipt_kernel) ?ops ?s = ([9], [9], b, k)"
    and on: "\<not> kb_stopped b"
    by (simp add: receipt_kernel_def kb_register_handle_def INT_MAX_def kb_initialization_result_def
        kq_pack_event_cookie_def token_low_mask_def wake_event_cookie_def kb_submit_def kb_poll_def
        kq_unpack_event_cookie_def apply_filter_change_def filter_change_loop.simps set_event_def
        wake_event_ident_def EV_ADD_def EV_CLEAR_def EV_RECEIPT_def EV_DELETE_def EV_ERROR_def
        EV_ENABLE_def is_read_readiness_def kb_drain_completions_def virtual_run_defs)
  note all = kqueue_refines_virtual [OF receipt_kernel_create run, of Rb_shutdown]
  then have "vb_stopped (kb_fallback (fst (snd (kb_shutdown receipt_kernel (b, k)))))" by simp
  then show ?thesis using all run on unfolding receipt_kernel_create option.sel by (intro exI [of _ b] exI [of _ k]) simp
qed

end
