(* ===== verification/Fifo.thy ===== *)
theory Fifo
  imports Vio_Error
begin

text \<open>
  The contract of the bounded FIFO queues of the runtime. Several components keep a
  \<^verbatim>\<open>std::deque\<close> behind a size limit (\<^verbatim>\<open>bounded_queue\<close>, the socket operation queues, the
  executors); each reports \<^verbatim>\<open>resource_exhausted\<close> when full and serves its items in arrival
  order. The locale states that contract once; \<open>fifo_run\<close> executes an arbitrary
  sequence of pushes and pops, and the lemmas show what every such run guarantees.
\<close>

datatype 'a fifo_op = Push 'a | Pop

text \<open>A run returns the accepted items, the delivered items and the final queue.\<close>

fun fifo_run :: "('q \<Rightarrow> 'a \<Rightarrow> void_result \<times> 'q) \<Rightarrow> ('q \<Rightarrow> 'a option \<times> 'q) \<Rightarrow>
    'q \<Rightarrow> 'a fifo_op list \<Rightarrow> 'a list \<times> 'a list \<times> 'q" where
  "fifo_run push pop q [] = ([], [], q)"
| "fifo_run push pop q (Push x # ops) =
     (let (r, q') = push q x; (acc, out, q'') = fifo_run push pop q' ops
      in (case r of Inl _ \<Rightarrow> acc | Inr _ \<Rightarrow> x # acc, out, q''))"
| "fifo_run push pop q (Pop # ops) =
     (let (v, q') = pop q; (acc, out, q'') = fifo_run push pop q' ops
      in (acc, case v of None \<Rightarrow> out | Some x \<Rightarrow> x # out, q''))"

text \<open>
  What every such queue does, bounded or not, on the states it reaches (\<open>ok\<close>): a
  successful push appends, a pop takes the head, and a failure changes no item.
\<close>

locale fifo_queue =
  fixes push :: "'q \<Rightarrow> 'a \<Rightarrow> void_result \<times> 'q"
    and pop :: "'q \<Rightarrow> 'a option \<times> 'q"
    and contents :: "'q \<Rightarrow> 'a list"
    and ok :: "'q \<Rightarrow> bool"
  assumes push_step: "ok q \<Longrightarrow> push q x = (r, q') \<Longrightarrow>
      ok q' \<and> contents q' = (case r of Inl _ \<Rightarrow> contents q | Inr _ \<Rightarrow> contents q @ [x])"
    and pop_step: "ok q \<Longrightarrow> pop q = (v, q') \<Longrightarrow>
      ok q' \<and> contents q = (case v of None \<Rightarrow> contents q' | Some x \<Rightarrow> x # contents q')"
begin

text \<open>
  Whatever the sequence of operations: the items held at the start followed by the
  accepted ones are the delivered ones followed by what is still held. Nothing is lost,
  duplicated or reordered.
\<close>

lemma run_conserves:
  assumes "ok q" and "fifo_run push pop q ops = (acc, out, q')"
  shows "ok q' \<and> contents q @ acc = out @ contents q'"
  using assms
proof (induction ops arbitrary: q acc out)
  case Nil
  then show ?case by simp
next
  case (Cons op ops)
  show ?case
  proof (cases op)
    case (Push x)
    obtain r q1 acc' where step: "push q x = (r, q1)"
      and run: "fifo_run push pop q1 ops = (acc', out, q')"
      and acc: "acc = (case r of Inl _ \<Rightarrow> acc' | Inr _ \<Rightarrow> x # acc')"
      using Cons.prems Push by (auto simp: Let_def split: prod.splits)
    show ?thesis
      using Cons.IH [OF _ run] push_step [OF Cons.prems(1) step] acc by (cases r) auto
  next
    case Pop
    obtain v q1 out' where step: "pop q = (v, q1)"
      and run: "fifo_run push pop q1 ops = (acc, out', q')"
      and out: "out = (case v of None \<Rightarrow> out' | Some x \<Rightarrow> x # out')"
      using Cons.prems Pop by (auto simp: Let_def split: prod.splits)
    show ?thesis
      using Cons.IH [OF _ run] pop_step [OF Cons.prems(1) step] out by (cases v) auto
  qed
qed

end

text \<open>A bounded queue moreover accepts exactly while there is room.\<close>

locale bounded_fifo =
  fixes push :: "'q \<Rightarrow> 'a \<Rightarrow> void_result \<times> 'q"
    and pop :: "'q \<Rightarrow> 'a option \<times> 'q"
    and contents :: "'q \<Rightarrow> 'a list"
    and limit :: "'q \<Rightarrow> nat"
  assumes push_accepts: "length (contents q) < limit q \<Longrightarrow>
      fst (push q x) = Inr () \<and> contents (snd (push q x)) = contents q @ [x]"
    and push_rejects: "limit q \<le> length (contents q) \<Longrightarrow>
      \<exists>e. fst (push q x) = Inl e \<and> classification e = resource_exhausted \<and>
          contents (snd (push q x)) = contents q"
    and push_limit: "limit (snd (push q x)) = limit q"
    and pop_empty: "contents q = [] \<Longrightarrow> fst (pop q) = None \<and> contents (snd (pop q)) = []"
    and pop_head: "contents q = x # xs \<Longrightarrow> fst (pop q) = Some x \<and> contents (snd (pop q)) = xs"
    and pop_limit: "limit (snd (pop q)) = limit q"
begin

lemma push_within:
  assumes "length (contents q) \<le> limit q"
  shows "length (contents (snd (push q x))) \<le> limit q"
proof (cases "length (contents q) < limit q")
  case True
  then show ?thesis using push_accepts [of q x] by simp
next
  case False
  then show ?thesis using push_rejects [of q x] assms by auto
qed

lemma pop_within:
  assumes "length (contents q) \<le> limit q"
  shows "length (contents (snd (pop q))) \<le> limit q"
  using assms pop_empty [of q] pop_head [of q] by (cases "contents q") auto

lemma run_within:
  assumes "fifo_run push pop q ops = (acc, out, q')" and "length (contents q) \<le> limit q"
  shows "length (contents q') \<le> limit q' \<and> limit q' = limit q"
  using assms
proof (induction ops arbitrary: q acc out)
  case Nil
  then show ?case by simp
next
  case (Cons op ops)
  show ?case
  proof (cases op)
    case (Push x)
    then obtain acc' where "fifo_run push pop (snd (push q x)) ops = (acc', out, q')"
      using Cons.prems by (auto simp: Let_def split: prod.splits)
    then show ?thesis
      using Cons.IH push_limit push_within Cons.prems(2) by metis
  next
    case Pop
    then obtain out' where "fifo_run push pop (snd (pop q)) ops = (acc, out', q')"
      using Cons.prems by (auto simp: Let_def split: prod.splits)
    then show ?thesis
      using Cons.IH pop_limit pop_within Cons.prems(2) by metis
  qed
qed

end

sublocale bounded_fifo \<subseteq> fifo_queue push pop contents "\<lambda>_. True"
proof
  fix q x r q'
  assume "push q x = (r, q')"
  then show "True \<and> contents q' = (case r of Inl _ \<Rightarrow> contents q | Inr _ \<Rightarrow> contents q @ [x])"
    using push_accepts [of q x] push_rejects [of q x]
    by (cases "length (contents q) < limit q") auto
next
  fix q v q'
  assume "pop q = (v, q')"
  then show "True \<and> contents q = (case v of None \<Rightarrow> contents q' | Some x \<Rightarrow> x # contents q')"
    using pop_empty [of q] pop_head [of q] by (cases "contents q") auto
qed

end
