(* ===== verification/Bounded_Queue.thy ===== *)
theory Bounded_Queue
  imports Fifo
begin

text \<open>
  \<^verbatim>\<open>include/voris/io/detail/bounded_queue.hpp\<close>: the mutex-protected bounded deque behind the
  mailboxes. Every public operation holds the mutex for its whole body, so each is one
  atomic function on the state. Besides FIFO order and the size bound, the queue keeps a
  saturating count of failed pushes (the pressure), reset whenever it accepts or frees.
\<close>

record 'a bounded_queue =
  bq_capacity :: nat
  bq_items :: "'a list"
  bq_capacity_waiters :: nat

definition bq_create :: "nat \<Rightarrow> 'a bounded_queue" where
  "bq_create capacity = \<lparr>bq_capacity = capacity, bq_items = [], bq_capacity_waiters = 0\<rparr>"

definition bq_size :: "'a bounded_queue \<Rightarrow> nat" where
  "bq_size q = length (bq_items q)"

definition bq_empty :: "'a bounded_queue \<Rightarrow> bool" where
  "bq_empty q \<longleftrightarrow> bq_items q = []"

definition bq_full :: "'a bounded_queue \<Rightarrow> bool" where
  "bq_full q \<longleftrightarrow> length (bq_items q) \<ge> bq_capacity q"

definition record_full_pressure_locked :: "'a bounded_queue \<Rightarrow> 'a bounded_queue" where
  "record_full_pressure_locked q =
     (let pressure_limit = (if bq_capacity q = 0 then 1 else bq_capacity q)
      in if bq_capacity_waiters q < pressure_limit
         then q\<lparr>bq_capacity_waiters := bq_capacity_waiters q + 1\<rparr> else q)"

definition bq_try_push :: "'a bounded_queue \<Rightarrow> 'a \<Rightarrow> void_result \<times> 'a bounded_queue" where
  "bq_try_push q value =
     (if bq_capacity q = 0 \<or> length (bq_items q) \<ge> bq_capacity q
      then (Inl (make_error_diagnostic resource_exhausted ''bounded queue is full''),
            record_full_pressure_locked q)
      else (Inr (), q\<lparr>bq_items := bq_items q @ [value], bq_capacity_waiters := 0\<rparr>))"

definition bq_pop :: "'a bounded_queue \<Rightarrow> 'a option \<times> 'a bounded_queue" where
  "bq_pop q =
     (case bq_items q of
        [] \<Rightarrow> (None, q)
      | x # xs \<Rightarrow> (Some x, q\<lparr>bq_items := xs, bq_capacity_waiters := 0\<rparr>))"

definition bq_full_pressure :: "'a bounded_queue \<Rightarrow> nat" where
  "bq_full_pressure q = bq_capacity_waiters q"

section \<open>Invariant\<close>

definition bq_inv :: "'a bounded_queue \<Rightarrow> bool" where
  "bq_inv q \<longleftrightarrow> length (bq_items q) \<le> bq_capacity q \<and>
     bq_capacity_waiters q \<le> max 1 (bq_capacity q) \<and>
     (0 < bq_capacity_waiters q \<longrightarrow> bq_full q)"

lemmas bq_op_defs = bq_create_def bq_full_def record_full_pressure_locked_def bq_try_push_def
  bq_pop_def Let_def

lemma bq_inv_create [vio_invs]: "bq_inv (bq_create n)"
  by (simp add: bq_inv_def bq_op_defs)

lemma bq_inv_try_push [vio_invs]: "bq_inv q \<Longrightarrow> bq_inv (snd (bq_try_push q x))"
  by (auto simp: bq_inv_def bq_op_defs)

lemma bq_inv_pop [vio_invs]: "bq_inv q \<Longrightarrow> bq_inv (snd (bq_pop q))"
  by (auto simp: bq_inv_def bq_op_defs split: list.splits)

lemma bq_capacity_fixed [simp]:
  "bq_capacity (snd (bq_try_push q x)) = bq_capacity q"
  "bq_capacity (snd (bq_pop q)) = bq_capacity q"
  by (auto simp: bq_op_defs split: list.splits)

lemma bq_pop_simps [simp]:
  "bq_items q = [] \<Longrightarrow> bq_pop q = (None, q)"
  "bq_items q = x # xs \<Longrightarrow> bq_pop q = (Some x, q\<lparr>bq_items := xs, bq_capacity_waiters := 0\<rparr>)"
  by (simp_all add: bq_pop_def)

section \<open>The FIFO contract\<close>

interpretation bq: bounded_fifo bq_try_push bq_pop bq_items bq_capacity
  by unfold_locales (auto simp: bq_op_defs split: list.splits)

text \<open>
  C5. A bounded queue started empty conserves its items: for any sequence of
  \<^verbatim>\<open>try_push\<close> and \<^verbatim>\<open>pop\<close>, the accepted values are exactly the popped values, in the same
  order, followed by the values still queued, and the queue never exceeds its capacity.
\<close>

theorem bounded_queue_fifo:
  "case fifo_run bq_try_push bq_pop (bq_create n) ops of
     (accepted, popped, q) \<Rightarrow>
       accepted = popped @ bq_items q \<and> bq_size q \<le> n"
proof -
  obtain acc out q where run: "fifo_run bq_try_push bq_pop (bq_create n) ops = (acc, out, q)"
    by (metis prod_cases3)
  then show ?thesis
    using bq.run_conserves [OF TrueI run] bq.run_within [OF run]
    by (simp add: bq_create_def bq_size_def)
qed

text \<open>The pressure counter: what a failed push observes and what resets it.\<close>

lemma bq_full_push_pressure:
  assumes "bq_full q"
  shows "bq_full_pressure (snd (bq_try_push q x)) =
    (if bq_full_pressure q < max 1 (bq_capacity q) then bq_full_pressure q + 1
     else bq_full_pressure q)"
  using assms by (auto simp: bq_full_pressure_def bq_op_defs)

lemma bq_progress_resets_pressure:
  "fst (bq_try_push q x) = Inr () \<Longrightarrow> bq_full_pressure (snd (bq_try_push q x)) = 0"
  "fst (bq_pop q) = Some y \<Longrightarrow> bq_full_pressure (snd (bq_pop q)) = 0"
  by (auto simp: bq_full_pressure_def bq_op_defs split: if_splits list.splits)

end
