(* ===== verification/Run_Loop.thy ===== *)
theory Run_Loop
  imports Prelude
begin

text \<open>
  The work loops of the runtime. \<^verbatim>\<open>default_scheduler\<close>, \<^verbatim>\<open>test_scheduler\<close>, \<^verbatim>\<open>mailbox\<close>,
  \<^verbatim>\<open>compute_executor\<close>, \<^verbatim>\<open>shard::drain\<close> and the trampoline all run
  \<^verbatim>\<open>while (run_one()) ++ran;\<close> over a queue of continuations that the running user code may
  refill. Such a loop need not end, so it is a partial function into \<open>option\<close>; the
  locale \<open>work_source\<close> states what one iteration does and the lemmas show when the loop
  returns and that it runs the queued work in order, each item once.

  User code is the parameter \<open>exec :: 'w \<Rightarrow> 's \<Rightarrow> 's\<close>: running a work item may change
  the whole state, the queue included.
\<close>

section \<open>Running one continuation\<close>

text \<open>\<^verbatim>\<open>if (next) next();\<close>\<close>

definition run_if_set :: "('w \<Rightarrow> 's \<Rightarrow> 's) \<Rightarrow> 'w continuation \<Rightarrow> 's \<Rightarrow> 's" where
  "run_if_set exec k s = (case k of None \<Rightarrow> s | Some w \<Rightarrow> exec w s)"

lemma run_if_set_simps [simp]:
  "run_if_set exec None s = s"
  "run_if_set exec (Some w) s = exec w s"
  by (simp_all add: run_if_set_def)

definition set_works :: "'w continuation list \<Rightarrow> 'w list" where
  "set_works ks = map the (filter (\<lambda>k. k \<noteq> None) ks)"

lemma set_works_simps [simp]:
  "set_works [] = []"
  "set_works (None # ks) = set_works ks"
  "set_works (Some w # ks) = w # set_works ks"
  "set_works (ks @ ls) = set_works ks @ set_works ls"
  by (simp_all add: set_works_def)

section \<open>The counting loop\<close>

partial_function (option) count_while ::
  "('s \<Rightarrow> bool \<times> 's) \<Rightarrow> nat \<Rightarrow> 's \<Rightarrow> (nat \<times> 's) option" where
  "count_while step n s =
     (case step s of
        (more_work, s') \<Rightarrow> if more_work then count_while step (Suc n) s' else Some (n, s'))"

lemma count_while_stop:
  "step s = (False, s') \<Longrightarrow> count_while step n s = Some (n, s')"
  by (subst count_while.simps) simp

lemma count_while_step:
  "step s = (True, s') \<Longrightarrow> count_while step n s = count_while step (Suc n) s'"
  by (subst count_while.simps) simp

section \<open>The contract of one iteration\<close>

text \<open>
  \<open>pending\<close> is the work queued in the state, in the order it will run, and \<open>env\<close> the part
  of the state that belongs to user code. An iteration on an empty queue reports false;
  otherwise it removes the first item, runs it, and reports true. Bookkeeping before and
  after the run may change the rest of the state.
\<close>

locale work_source =
  fixes step :: "('w \<Rightarrow> 's \<Rightarrow> 's) \<Rightarrow> 's \<Rightarrow> bool \<times> 's"
    and pending :: "'s \<Rightarrow> 'w continuation list"
    and env :: "'s \<Rightarrow> 'e"
  assumes step_idle: "pending s = [] \<Longrightarrow>
      \<exists>s'. step exec s = (False, s') \<and> pending s' = [] \<and> env s' = env s"
    and step_work: "pending s = k # ks \<Longrightarrow>
      \<exists>s0 s'. pending s0 = ks \<and> env s0 = env s \<and> step exec s = (True, s') \<and>
        pending s' = pending (run_if_set exec k s0) \<and> env s' = env (run_if_set exec k s0)"
begin

text \<open>
  If no work item queues further work, the loop returns, having run every queued item
  once, in order: the user state is the fold of the items' effects.
\<close>

lemma quiet_drain:
  assumes quiet: "\<And>w s. pending (exec w s) = pending s"
    and effect: "\<And>w s. env (exec w s) = f w (env s)"
  shows "\<exists>s'. count_while (step exec) n s = Some (n + length (pending s), s') \<and>
    pending s' = [] \<and> env s' = fold f (set_works (pending s)) (env s)"
proof (induction "pending s" arbitrary: n s)
  case Nil
  obtain s' where "step exec s = (False, s')" "pending s' = []" "env s' = env s"
    using step_idle Nil [symmetric] by blast
  then show ?case
    using Nil [symmetric] by (simp add: count_while_stop)
next
  case (Cons k ks)
  obtain s0 s1 where s0: "pending s0 = ks" "env s0 = env s" and st: "step exec s = (True, s1)"
    and s1: "pending s1 = pending (run_if_set exec k s0)"
      "env s1 = env (run_if_set exec k s0)"
    using step_work Cons.hyps(2) [symmetric] by blast
  have pend: "pending s1 = ks"
    using s0 s1 quiet by (cases k) simp_all
  obtain s' where "count_while (step exec) (Suc n) s1 = Some (Suc n + length ks, s')"
      "pending s' = []" "env s' = fold f (set_works ks) (env s1)"
    using Cons.hyps(1) [of s1 "Suc n"] pend by auto
  moreover have "fold f (set_works (k # ks)) (env s) = fold f (set_works ks) (env s1)"
    using s0 s1 effect by (cases k) simp_all
  ultimately show ?case
    using Cons.hyps(2) [symmetric] by (simp add: count_while_step [of "step exec", OF st])
qed

text \<open>
  In general items may queue more items. If every item carries a weight that exceeds the
  weight of what it adds (a finite tree of spawned work), the loop still returns with an
  empty queue.
\<close>

lemma weighted_drain:
  assumes shrink: "\<And>w s. (\<Sum>k\<leftarrow>pending (exec w s). Suc (weight k))
      \<le> weight (Some w) + (\<Sum>k\<leftarrow>pending s. Suc (weight k))"
  shows "\<exists>m s'. count_while (step exec) n s = Some (m, s') \<and> pending s' = []"
proof (induction "\<Sum>k\<leftarrow>pending s. Suc (weight k)" arbitrary: n s rule: less_induct)
  case less
  show ?case
  proof (cases "pending s")
    case Nil
    then obtain s' where "step exec s = (False, s')" "pending s' = []"
      using step_idle by blast
    then show ?thesis by (auto simp: count_while_stop)
  next
    case (Cons k ks)
    then obtain s0 s1 where "pending s0 = ks" and st: "step exec s = (True, s1)"
      and "pending s1 = pending (run_if_set exec k s0)"
      using step_work by blast
    then have "(\<Sum>k\<leftarrow>pending s1. Suc (weight k)) < (\<Sum>k\<leftarrow>pending s. Suc (weight k))"
      using shrink [of _ s0] Cons by (cases k) (auto simp: less_Suc_eq_le)
    from less [OF this] show ?thesis
      by (simp add: count_while_step [of "step exec", OF st])
  qed
qed

end

end
