(* ===== verification/Mailbox.thy ===== *)
theory Mailbox
  imports Bounded_Queue Run_Loop Loop_Budget
begin

text \<open>
  \<^verbatim>\<open>include/voris/io/detail/mailbox.hpp\<close>: the two-lane mailbox of a shard. The system lane
  is reserved for completions of already admitted operations and is served before the
  user lane. \<^verbatim>\<open>clock::now()\<close> is an argument of the operations that read it; the record is
  extensible, and its extension is the state that belongs to user code.
\<close>

record 'w message =
  msg_work :: "'w continuation"
  msg_enqueued_at :: int

record 'w mailbox =
  mb_queue :: "'w message bounded_queue"
  mb_system_queue :: "'w message bounded_queue"

definition system_capacity_for :: "nat \<Rightarrow> nat" where
  "system_capacity_for user_capacity = user_capacity"

definition mb_create :: "nat \<Rightarrow> 'w mailbox" where
  "mb_create capacity = \<lparr>mb_queue = bq_create capacity,
     mb_system_queue = bq_create (system_capacity_for capacity)\<rparr>"

definition make_message :: "int \<Rightarrow> 'w continuation \<Rightarrow> 'w message" where
  "make_message now work = \<lparr>msg_work = work, msg_enqueued_at = now\<rparr>"

definition mb_submit ::
  "int \<Rightarrow> 'w continuation \<Rightarrow> ('w, 'e) mailbox_scheme \<Rightarrow> void_result \<times> ('w, 'e) mailbox_scheme" where
  "mb_submit now work mb =
     (let (r, q) = bq_try_push (mb_queue mb) (make_message now work)
      in (r, mb\<lparr>mb_queue := q\<rparr>))"

definition mb_submit_system ::
  "int \<Rightarrow> 'w continuation \<Rightarrow> ('w, 'e) mailbox_scheme \<Rightarrow> void_result \<times> ('w, 'e) mailbox_scheme" where
  "mb_submit_system now work mb =
     (let (r, q) = bq_try_push (mb_system_queue mb) (make_message now work)
      in (r, mb\<lparr>mb_system_queue := q\<rparr>))"

definition mb_pop_next ::
  "('w, 'e) mailbox_scheme \<Rightarrow> 'w message option \<times> ('w, 'e) mailbox_scheme" where
  "mb_pop_next mb =
     (let (next, sq) = bq_pop (mb_system_queue mb); mb' = mb\<lparr>mb_system_queue := sq\<rparr>
      in case next of
           Some m \<Rightarrow> (Some m, mb')
         | None \<Rightarrow> (let (next', q) = bq_pop (mb_queue mb') in (next', mb'\<lparr>mb_queue := q\<rparr>)))"

definition mb_run_one ::
  "('w \<Rightarrow> ('w, 'e) mailbox_scheme \<Rightarrow> ('w, 'e) mailbox_scheme) \<Rightarrow> ('w, 'e) mailbox_scheme \<Rightarrow>
     bool \<times> ('w, 'e) mailbox_scheme" where
  "mb_run_one exec mb =
     (case mb_pop_next mb of
        (None, mb') \<Rightarrow> (False, mb')
      | (Some m, mb') \<Rightarrow> (True, run_if_set exec (msg_work m) mb'))"

text \<open>The budgeted loop: one unit of task budget per message, so it always ends.\<close>

function mb_run_for_budget ::
  "('w \<Rightarrow> ('w, 'e) mailbox_scheme \<Rightarrow> ('w, 'e) mailbox_scheme) \<Rightarrow> loop_budget_slice \<Rightarrow> nat \<Rightarrow>
     ('w, 'e) mailbox_scheme \<Rightarrow> nat \<times> loop_budget_slice \<times> ('w, 'e) mailbox_scheme" where
  "mb_run_for_budget exec budget n mb =
     (if remaining_tasks budget > 0 then
        case mb_pop_next mb of
          (None, mb') \<Rightarrow> (n, budget, mb')
        | (Some m, mb') \<Rightarrow>
            mb_run_for_budget exec (snd (consume_task budget)) (n + 1)
              (run_if_set exec (msg_work m) mb')
      else (n, budget, mb))"
  by pat_completeness auto
termination
  by (relation "measure (\<lambda>(_, budget, _, _). remaining_tasks budget)")
    (auto simp: consume_task_ok(2))

declare mb_run_for_budget.simps [simp del]

definition mb_run_until_idle ::
  "('w \<Rightarrow> ('w, 'e) mailbox_scheme \<Rightarrow> ('w, 'e) mailbox_scheme) \<Rightarrow> ('w, 'e) mailbox_scheme \<Rightarrow>
     (nat \<times> ('w, 'e) mailbox_scheme) option" where
  "mb_run_until_idle exec mb = count_while (mb_run_one exec) 0 mb"

definition mb_size :: "('w, 'e) mailbox_scheme \<Rightarrow> nat" where
  "mb_size mb = bq_size (mb_queue mb) + bq_size (mb_system_queue mb)"

definition mb_capacity :: "('w, 'e) mailbox_scheme \<Rightarrow> nat" where
  "mb_capacity mb = bq_capacity (mb_queue mb)"

definition mb_full :: "('w, 'e) mailbox_scheme \<Rightarrow> bool" where
  "mb_full mb = bq_full (mb_queue mb)"

definition mb_full_pressure :: "('w, 'e) mailbox_scheme \<Rightarrow> nat" where
  "mb_full_pressure mb = bq_full_pressure (mb_queue mb)"

section \<open>Invariant and service order\<close>

definition mb_inv :: "('w, 'e) mailbox_scheme \<Rightarrow> bool" where
  "mb_inv mb \<longleftrightarrow> bq_inv (mb_queue mb) \<and> bq_inv (mb_system_queue mb) \<and>
     bq_capacity (mb_system_queue mb) = system_capacity_for (bq_capacity (mb_queue mb))"

definition mb_messages :: "('w, 'e) mailbox_scheme \<Rightarrow> 'w message list" where
  "mb_messages mb = bq_items (mb_system_queue mb) @ bq_items (mb_queue mb)"

abbreviation mb_pending :: "('w, 'e) mailbox_scheme \<Rightarrow> 'w continuation list" where
  "mb_pending mb \<equiv> map msg_work (mb_messages mb)"

lemma mb_inv_create [vio_invs]: "mb_inv (mb_create n)"
  by (simp add: mb_inv_def mb_create_def bq_inv_create) (simp add: bq_create_def system_capacity_for_def)

lemma mb_inv_submit [vio_invs]:
  "mb_inv mb \<Longrightarrow> mb_inv (snd (mb_submit now w mb))"
  "mb_inv mb \<Longrightarrow> mb_inv (snd (mb_submit_system now w mb))"
  by (simp_all add: mb_inv_def mb_submit_def mb_submit_system_def Let_def case_prod_beta
      bq_inv_try_push)

lemma mb_inv_pop_next [vio_invs]: "mb_inv mb \<Longrightarrow> mb_inv (snd (mb_pop_next mb))"
  by (simp add: mb_inv_def mb_pop_next_def Let_def case_prod_beta bq_inv_pop
      split: option.splits)

text \<open>\<^verbatim>\<open>pop_next\<close> serves the head of the system lane, then of the user lane.\<close>

lemma mb_pop_next_empty:
  "mb_messages mb = [] \<Longrightarrow> mb_pop_next mb = (None, mb)"
  by (simp add: mb_messages_def mb_pop_next_def)

lemma mb_pop_next_head:
  assumes "mb_messages mb = m # ms"
  shows "\<exists>mb'. mb_pop_next mb = (Some m, mb') \<and> mb_messages mb' = ms \<and>
    mailbox.more mb' = mailbox.more mb"
  using assms
  by (cases "bq_items (mb_system_queue mb)")
    (auto simp: mb_messages_def mb_pop_next_def)

lemma mb_size_messages: "mb_size mb = length (mb_messages mb)"
  by (simp add: mb_size_def mb_messages_def bq_size_def)

lemma mb_inv_size:
  assumes "mb_inv mb"
  shows "mb_size mb \<le> 2 * mb_capacity mb"
  using assms by (simp add: mb_inv_def bq_inv_def mb_size_def bq_size_def mb_capacity_def
      system_capacity_for_def)

interpretation mb: work_source mb_run_one mb_pending mailbox.more
proof
  fix exec and s :: "('w, 'e) mailbox_scheme"
  assume "mb_pending s = []"
  then show "\<exists>s'. mb_run_one exec s = (False, s') \<and> mb_pending s' = [] \<and>
      mailbox.more s' = mailbox.more s"
    by (simp add: mb_run_one_def mb_pop_next_empty)
next
  fix exec k ks and s :: "('w, 'e) mailbox_scheme"
  assume "mb_pending s = k # ks"
  then obtain m ms where s: "mb_messages s = m # ms" and k: "k = msg_work m" "ks = map msg_work ms"
    by (auto simp: map_eq_Cons_conv)
  with mb_pop_next_head [OF s]
  show "\<exists>s0 s'. mb_pending s0 = ks \<and> mailbox.more s0 = mailbox.more s \<and>
      mb_run_one exec s = (True, s') \<and> mb_pending s' = mb_pending (run_if_set exec k s0) \<and>
      mailbox.more s' = mailbox.more (run_if_set exec k s0)"
    by (auto simp: mb_run_one_def)
qed

lemma mb_run_for_budget_bound:
  "mb_run_for_budget exec budget n mb = (n', budget', mb') \<Longrightarrow>
   n \<le> n' \<and> n' + remaining_tasks budget' = n + remaining_tasks budget"
proof (induction exec budget n mb rule: mb_run_for_budget.induct)
  case (1 exec budget n mb)
  show ?case
  proof (cases "remaining_tasks budget > 0")
    case True
    show ?thesis
    proof (cases "mb_pop_next mb")
      case (Pair nxt mb1)
      then show ?thesis
        using 1 True consume_task_ok(2) [of budget]
        by (cases nxt) (fastforce simp: mb_run_for_budget.simps [of exec budget])+
    qed
  next
    case False
    with 1 show ?thesis by (simp add: mb_run_for_budget.simps [of exec budget])
  qed
qed

text \<open>
  C6. Draining a mailbox whose work submits nothing further returns, has run exactly the
  queued messages (the returned count is the mailbox size), and has run them in service
  order: the whole system lane first, then the user lane, each lane first-in first-out.
\<close>

theorem mailbox_drain_order:
  assumes "\<And>w s. mb_messages (exec w s) = mb_messages s"
    and "\<And>w s. mailbox.more (exec w s) = f w (mailbox.more s)"
  shows "\<exists>mb'. mb_run_until_idle exec mb = Some (mb_size mb, mb') \<and> mb_messages mb' = [] \<and>
    mailbox.more mb' =
      fold f (set_works (map msg_work (bq_items (mb_system_queue mb))) @
              set_works (map msg_work (bq_items (mb_queue mb)))) (mailbox.more mb)"
  using mb.quiet_drain [of exec f 0 mb] assms
  by (auto simp: mb_run_until_idle_def mb_size_messages) (simp add: mb_messages_def)

theorem mailbox_drain_order_witness:
  "\<exists>mb'. mb_run_until_idle (\<lambda>w s. s\<lparr>mailbox.more := mailbox.more s @ [w]\<rparr>)
       \<lparr>mb_queue = \<lparr>bq_capacity = 2, bq_items = [make_message 0 (Some 7)], bq_capacity_waiters = 0\<rparr>,
        mb_system_queue = \<lparr>bq_capacity = 2, bq_items = [make_message 5 (Some (8::nat))],
          bq_capacity_waiters = 0\<rparr>, \<dots> = []\<rparr> = Some (2, mb') \<and> mailbox.more mb' = [8, 7]"
  using mailbox_drain_order [of "\<lambda>w s. s\<lparr>mailbox.more := mailbox.more s @ [w]\<rparr>" "\<lambda>w l. l @ [w]"
      "\<lparr>mb_queue = \<lparr>bq_capacity = 2, bq_items = [make_message 0 (Some 7)], bq_capacity_waiters = 0\<rparr>,
        mb_system_queue = \<lparr>bq_capacity = 2, bq_items = [make_message 5 (Some (8::nat))],
          bq_capacity_waiters = 0\<rparr>, \<dots> = []\<rparr>"]
  by (auto simp: mb_messages_def make_message_def mb_size_def bq_size_def)

end
