(* ===== verification/Scheduler.thy ===== *)
theory Scheduler
  imports Vio_Error Run_Loop
begin

text \<open>
  \<^verbatim>\<open>include/voris/io/scheduler.hpp\<close>, \<^verbatim>\<open>src/scheduler.cpp\<close>, \<^verbatim>\<open>test_scheduler.hpp\<close> and
  \<^verbatim>\<open>trampoline.hpp\<close> / \<^verbatim>\<open>src/trampoline.cpp\<close>: the type-erased scheduler reference, the
  thread-local current scheduler, the two single-threaded schedulers and the trampoline
  that keeps recursive completion chains flat.
\<close>

section \<open>The type-erased scheduler reference\<close>

text \<open>
  What a scheduler class offers decides at compile time how a continuation reaches it.
  The operations a class may have are the fields; \<^verbatim>\<open>enqueue\<close> is the fallback that the
  constructor's \<^verbatim>\<open>requires\<close> clause guarantees when the other two are missing.
\<close>

record ('s, 'w) scheduler_type =
  st_submit :: "('s \<Rightarrow> 'w continuation \<Rightarrow> void_result \<times> 's) option"
  st_submit_system :: "('s \<Rightarrow> 'w continuation \<Rightarrow> void_result \<times> 's) option"
  st_result_enqueue :: "('s \<Rightarrow> 'w continuation \<Rightarrow> void_result \<times> 's) option"
  st_enqueue :: "'s \<Rightarrow> 'w continuation \<Rightarrow> 's"

definition schedule_user_continuation ::
  "('s, 'w) scheduler_type \<Rightarrow> 's \<Rightarrow> 'w continuation \<Rightarrow> void_result \<times> 's" where
  "schedule_user_continuation ty scheduler next =
     (case st_submit ty of
        Some submit \<Rightarrow> submit scheduler next
      | None \<Rightarrow>
         (case st_result_enqueue ty of
            Some enqueue \<Rightarrow> enqueue scheduler next
          | None \<Rightarrow> (Inr (), st_enqueue ty scheduler next)))"

definition schedule_system_continuation ::
  "('s, 'w) scheduler_type \<Rightarrow> 's \<Rightarrow> 'w continuation \<Rightarrow> void_result \<times> 's" where
  "schedule_system_continuation ty scheduler next =
     (case st_submit_system ty of
        Some submit_system \<Rightarrow> submit_system scheduler next
      | None \<Rightarrow> schedule_user_continuation ty scheduler next)"

record ('s, 'w) scheduler_ref =
  sr_object :: "nat option"
  sr_schedule :: "('s \<Rightarrow> 'w continuation \<Rightarrow> void_result \<times> 's) option"
  sr_schedule_system :: "('s \<Rightarrow> 'w continuation \<Rightarrow> void_result \<times> 's) option"

definition empty_scheduler_ref :: "('s, 'w) scheduler_ref" where
  "empty_scheduler_ref = \<lparr>sr_object = None, sr_schedule = None, sr_schedule_system = None\<rparr>"

definition make_scheduler_ref :: "('s, 'w) scheduler_type \<Rightarrow> nat \<Rightarrow> ('s, 'w) scheduler_ref" where
  "make_scheduler_ref ty object =
     \<lparr>sr_object = Some object,
      sr_schedule = Some (schedule_user_continuation ty),
      sr_schedule_system = Some (schedule_system_continuation ty)\<rparr>"

definition sr_valid :: "('s, 'w) scheduler_ref \<Rightarrow> bool" where
  "sr_valid r \<longleftrightarrow> sr_object r \<noteq> None \<and> sr_schedule r \<noteq> None \<and> sr_schedule_system r \<noteq> None"

definition sr_do_schedule ::
  "('s, 'w) scheduler_ref \<Rightarrow> 's \<Rightarrow> 'w continuation \<Rightarrow> void_result \<times> 's" where
  "sr_do_schedule r s next =
     (if \<not> sr_valid r \<or> next = None then (Inl (make_error invalid_state None []), s)
      else the (sr_schedule r) s next)"

definition sr_do_schedule_system ::
  "('s, 'w) scheduler_ref \<Rightarrow> 's \<Rightarrow> 'w continuation \<Rightarrow> void_result \<times> 's" where
  "sr_do_schedule_system r s next =
     (if \<not> sr_valid r \<or> next = None then (Inl (make_error invalid_state None []), s)
      else the (sr_schedule_system r) s next)"

lemma empty_ref_rejects:
  "sr_do_schedule empty_scheduler_ref s k = (Inl (make_error invalid_state None []), s)"
  "sr_do_schedule_system empty_scheduler_ref s k = (Inl (make_error invalid_state None []), s)"
  by (simp_all add: sr_do_schedule_def sr_do_schedule_system_def sr_valid_def
      empty_scheduler_ref_def)

lemma made_ref_schedules:
  "sr_do_schedule (make_scheduler_ref ty i) s (Some w) = schedule_user_continuation ty s (Some w)"
  "sr_do_schedule_system (make_scheduler_ref ty i) s (Some w) =
     schedule_system_continuation ty s (Some w)"
  by (simp_all add: sr_do_schedule_def sr_do_schedule_system_def sr_valid_def
      make_scheduler_ref_def)

section \<open>The current scheduler of a thread\<close>

text \<open>
  A scheduler is named by its \<^verbatim>\<open>identity()\<close>. The thread's state carries the thread-local
  variable; the state of the code that runs on the thread extends the record.
\<close>

type_synonym scheduler_id = nat

record thread_state =
  tls_current_scheduler :: "scheduler_id option"

definition require_current_scheduler :: "'e thread_state_scheme \<Rightarrow> scheduler_id io_result" where
  "require_current_scheduler t =
     (case tls_current_scheduler t of
        Some s \<Rightarrow> Inr s | None \<Rightarrow> Inl (make_error invalid_state None []))"

definition scope_enter ::
  "scheduler_id \<Rightarrow> 'e thread_state_scheme \<Rightarrow> scheduler_id option \<times> 'e thread_state_scheme" where
  "scope_enter scheduler t =
     (tls_current_scheduler t, t\<lparr>tls_current_scheduler := Some scheduler\<rparr>)"

definition scope_leave ::
  "scheduler_id option \<Rightarrow> 'e thread_state_scheme \<Rightarrow> 'e thread_state_scheme" where
  "scope_leave previous t = t\<lparr>tls_current_scheduler := previous\<rparr>"

text \<open>A block of code run inside a \<^verbatim>\<open>current_scheduler_scope\<close>.\<close>

definition in_scheduler_scope ::
  "scheduler_id \<Rightarrow> ('e thread_state_scheme \<Rightarrow> 'e thread_state_scheme) \<Rightarrow>
     'e thread_state_scheme \<Rightarrow> 'e thread_state_scheme" where
  "in_scheduler_scope scheduler body t =
     (let (previous, t') = scope_enter scheduler t in scope_leave previous (body t'))"

lemma in_scheduler_scope_restores [simp]:
  "tls_current_scheduler (in_scheduler_scope i body t) = tls_current_scheduler t"
  by (simp add: in_scheduler_scope_def scope_enter_def scope_leave_def)

lemma in_scheduler_scope_body:
  "in_scheduler_scope i (\<lambda>t. if tls_current_scheduler t = Some i then body t else other t) t =
     in_scheduler_scope i body t"
  by (simp add: in_scheduler_scope_def scope_enter_def)

section \<open>The default scheduler\<close>

record 'w default_scheduler = thread_state +
  ds_ready :: "'w continuation list"

definition ds_enqueue ::
  "'w continuation \<Rightarrow> ('w, 'e) default_scheduler_scheme \<Rightarrow> ('w, 'e) default_scheduler_scheme" where
  "ds_enqueue next s = s\<lparr>ds_ready := ds_ready s @ [next]\<rparr>"

definition ds_run_one ::
  "scheduler_id \<Rightarrow> ('w \<Rightarrow> ('w, 'e) default_scheduler_scheme \<Rightarrow> ('w, 'e) default_scheduler_scheme) \<Rightarrow>
     ('w, 'e) default_scheduler_scheme \<Rightarrow> bool \<times> ('w, 'e) default_scheduler_scheme" where
  "ds_run_one self exec s =
     (case ds_ready s of
        [] \<Rightarrow> (False, s)
      | next # rest \<Rightarrow>
          (let s' = s\<lparr>ds_ready := rest\<rparr>
           in (True, case next of
                 None \<Rightarrow> s'
               | Some w \<Rightarrow> in_scheduler_scope self (exec w) s')))"

definition ds_run_until_idle ::
  "scheduler_id \<Rightarrow> ('w \<Rightarrow> ('w, 'e) default_scheduler_scheme \<Rightarrow> ('w, 'e) default_scheduler_scheme) \<Rightarrow>
     ('w, 'e) default_scheduler_scheme \<Rightarrow> (nat \<times> ('w, 'e) default_scheduler_scheme) option" where
  "ds_run_until_idle self exec s = count_while (ds_run_one self exec) 0 s"

definition ds_ready_count :: "('w, 'e) default_scheduler_scheme \<Rightarrow> nat" where
  "ds_ready_count s = length (ds_ready s)"

lemma ds_scope_frame [simp]:
  "ds_ready (in_scheduler_scope i body s) =
     ds_ready (body (s\<lparr>tls_current_scheduler := Some i\<rparr>))"
  "default_scheduler.more (in_scheduler_scope i body s) =
     default_scheduler.more (body (s\<lparr>tls_current_scheduler := Some i\<rparr>))"
  by (simp_all add: in_scheduler_scope_def scope_enter_def scope_leave_def)

interpretation ds: work_source "ds_run_one self" ds_ready default_scheduler.more for self
proof
  fix exec and s :: "('w, 'e) default_scheduler_scheme"
  assume "ds_ready s = []"
  then show "\<exists>s'. ds_run_one self exec s = (False, s') \<and> ds_ready s' = [] \<and>
      default_scheduler.more s' = default_scheduler.more s"
    by (simp add: ds_run_one_def)
next
  fix exec k ks and s :: "('w, 'e) default_scheduler_scheme"
  assume "ds_ready s = k # ks"
  then show "\<exists>s0 s'. ds_ready s0 = ks \<and> default_scheduler.more s0 = default_scheduler.more s \<and>
      ds_run_one self exec s = (True, s') \<and> ds_ready s' = ds_ready (run_if_set exec k s0) \<and>
      default_scheduler.more s' = default_scheduler.more (run_if_set exec k s0)"
    by - (rule exI [of _ "s\<lparr>ds_ready := ks, tls_current_scheduler := Some self\<rparr>"],
      (cases k; simp add: ds_run_one_def Let_def))
qed

text \<open>
  User code runs under its own scheduler: whenever \<^verbatim>\<open>default_scheduler::run_one\<close> invokes
  a continuation the thread's current scheduler is this scheduler (behaviour under any
  other current scheduler is irrelevant to the result), and on return the thread's
  previous current scheduler is back.
\<close>

theorem default_scheduler_scoped:
  "ds_run_one self (\<lambda>w t. if tls_current_scheduler t = Some self then exec w t else other w t) s =
     ds_run_one self exec s \<and>
   tls_current_scheduler (snd (ds_run_one self exec s)) = tls_current_scheduler s"
  by (auto simp: ds_run_one_def Let_def in_scheduler_scope_body split: list.splits option.splits)

section \<open>The deterministic test scheduler\<close>

record 'w test_scheduler =
  ts_ready :: "'w continuation list"

definition ts_enqueue ::
  "'w continuation \<Rightarrow> ('w, 'e) test_scheduler_scheme \<Rightarrow> ('w, 'e) test_scheduler_scheme" where
  "ts_enqueue next s = s\<lparr>ts_ready := ts_ready s @ [next]\<rparr>"

definition ts_run_one ::
  "('w \<Rightarrow> ('w, 'e) test_scheduler_scheme \<Rightarrow> ('w, 'e) test_scheduler_scheme) \<Rightarrow>
     ('w, 'e) test_scheduler_scheme \<Rightarrow> bool \<times> ('w, 'e) test_scheduler_scheme" where
  "ts_run_one exec s =
     (case ts_ready s of
        [] \<Rightarrow> (False, s)
      | next # rest \<Rightarrow> (True, run_if_set exec next (s\<lparr>ts_ready := rest\<rparr>)))"

text \<open>\<^verbatim>\<open>while (ran < ready_count && run_one()) ++ran;\<close> with \<open>fuel = ready_count - ran\<close>.\<close>

fun ts_run_ready_loop ::
  "('w \<Rightarrow> ('w, 'e) test_scheduler_scheme \<Rightarrow> ('w, 'e) test_scheduler_scheme) \<Rightarrow>
     nat \<Rightarrow> nat \<Rightarrow> ('w, 'e) test_scheduler_scheme \<Rightarrow> nat \<times> ('w, 'e) test_scheduler_scheme" where
  "ts_run_ready_loop exec 0 n s = (n, s)"
| "ts_run_ready_loop exec (Suc left) n s =
     (case ts_run_one exec s of
        (False, s') \<Rightarrow> (n, s')
      | (True, s') \<Rightarrow> ts_run_ready_loop exec left (n + 1) s')"

definition ts_run_ready ::
  "('w \<Rightarrow> ('w, 'e) test_scheduler_scheme \<Rightarrow> ('w, 'e) test_scheduler_scheme) \<Rightarrow>
     ('w, 'e) test_scheduler_scheme \<Rightarrow> nat \<times> ('w, 'e) test_scheduler_scheme" where
  "ts_run_ready exec s = ts_run_ready_loop exec (length (ts_ready s)) 0 s"

definition ts_run_until_idle ::
  "('w \<Rightarrow> ('w, 'e) test_scheduler_scheme \<Rightarrow> ('w, 'e) test_scheduler_scheme) \<Rightarrow>
     ('w, 'e) test_scheduler_scheme \<Rightarrow> (nat \<times> ('w, 'e) test_scheduler_scheme) option" where
  "ts_run_until_idle exec s = count_while (ts_run_one exec) 0 s"

interpretation ts: work_source ts_run_one ts_ready test_scheduler.more
proof
  fix exec and s :: "('w, 'e) test_scheduler_scheme"
  assume "ts_ready s = []"
  then show "\<exists>s'. ts_run_one exec s = (False, s') \<and> ts_ready s' = [] \<and>
      test_scheduler.more s' = test_scheduler.more s"
    by (simp add: ts_run_one_def)
next
  fix exec k ks and s :: "('w, 'e) test_scheduler_scheme"
  assume "ts_ready s = k # ks"
  then show "\<exists>s0 s'. ts_ready s0 = ks \<and> test_scheduler.more s0 = test_scheduler.more s \<and>
      ts_run_one exec s = (True, s') \<and> ts_ready s' = ts_ready (run_if_set exec k s0) \<and>
      test_scheduler.more s' = test_scheduler.more (run_if_set exec k s0)"
    by - (rule exI [of _ "s\<lparr>ts_ready := ks\<rparr>"], simp add: ts_run_one_def)
qed

text \<open>
  \<^verbatim>\<open>run_ready\<close> is one scheduler turn: if user code only appends, it runs exactly the items
  that were ready at the start, and what they appended is left for the next turn.
\<close>

lemma ts_run_ready_loop_turn:
  assumes app: "\<And>w s. ts_ready (exec w s) = ts_ready s @ added w"
    and eff: "\<And>w s. test_scheduler.more (exec w s) = f w (test_scheduler.more s)"
    and "ts_ready s = ks @ ls"
  shows "fst (ts_run_ready_loop exec (length ks) n s) = n + length ks \<and>
    ts_ready (snd (ts_run_ready_loop exec (length ks) n s)) =
      ls @ concat (map added (set_works ks)) \<and>
    test_scheduler.more (snd (ts_run_ready_loop exec (length ks) n s)) =
      fold f (set_works ks) (test_scheduler.more s)"
  using assms(3)
proof (induction ks arbitrary: n s ls)
  case Nil
  then show ?case by simp
next
  case (Cons k ks)
  let ?s0 = "s\<lparr>ts_ready := ks @ ls\<rparr>"
  have st: "ts_run_one exec s = (True, run_if_set exec k ?s0)"
    using Cons.prems by (simp add: ts_run_one_def)
  show ?case
    using Cons.IH [of "run_if_set exec k ?s0" "case k of None \<Rightarrow> ls | Some w \<Rightarrow> ls @ added w"
        "n + 1"] st
    by (cases k) (simp_all add: app eff)
qed

section \<open>The trampoline\<close>

record 'w trampoline_state =
  tr_draining :: bool
  tr_deferred :: "'w continuation list"

definition tr_step ::
  "('w \<Rightarrow> ('w, 'e) trampoline_state_scheme \<Rightarrow> ('w, 'e) trampoline_state_scheme) \<Rightarrow>
     ('w, 'e) trampoline_state_scheme \<Rightarrow> bool \<times> ('w, 'e) trampoline_state_scheme" where
  "tr_step exec s =
     (case tr_deferred s of
        [] \<Rightarrow> (False, s)
      | deferred # rest \<Rightarrow> (True, run_if_set exec deferred (s\<lparr>tr_deferred := rest\<rparr>)))"

definition run_continuation ::
  "('w \<Rightarrow> ('w, 'e) trampoline_state_scheme \<Rightarrow> ('w, 'e) trampoline_state_scheme) \<Rightarrow>
     'w continuation \<Rightarrow> ('w, 'e) trampoline_state_scheme \<Rightarrow>
     ('w, 'e) trampoline_state_scheme option" where
  "run_continuation exec next s =
     (case next of
        None \<Rightarrow> Some s
      | Some w \<Rightarrow>
          if tr_draining s then Some (s\<lparr>tr_deferred := tr_deferred s @ [next]\<rparr>)
          else (case count_while (tr_step exec) 0 (exec w (s\<lparr>tr_draining := True\<rparr>)) of
                  None \<Rightarrow> None
                | Some (_, s') \<Rightarrow> Some (s'\<lparr>tr_draining := False\<rparr>)))"

text \<open>
  \<^verbatim>\<open>trampoline::schedule\<close> and \<^verbatim>\<open>schedule_system\<close> hand the scheduler a closure that, when the
  scheduler runs it, calls \<open>run_continuation\<close> on the captured continuation. The closure is
  never empty, so the reference's emptiness check only concerns the scheduler.
\<close>

definition tr_schedule ::
  "('s, 'w continuation) scheduler_ref \<Rightarrow> 's \<Rightarrow> 'w continuation \<Rightarrow> void_result \<times> 's" where
  "tr_schedule r s next = sr_do_schedule r s (Some next)"

definition tr_schedule_system ::
  "('s, 'w continuation) scheduler_ref \<Rightarrow> 's \<Rightarrow> 'w continuation \<Rightarrow> void_result \<times> 's" where
  "tr_schedule_system r s next = sr_do_schedule_system r s (Some next)"

interpretation tr: work_source tr_step tr_deferred trampoline_state.more
proof
  fix exec and s :: "('w, 'e) trampoline_state_scheme"
  assume "tr_deferred s = []"
  then show "\<exists>s'. tr_step exec s = (False, s') \<and> tr_deferred s' = [] \<and>
      trampoline_state.more s' = trampoline_state.more s"
    by (simp add: tr_step_def)
next
  fix exec k ks and s :: "('w, 'e) trampoline_state_scheme"
  assume "tr_deferred s = k # ks"
  then show "\<exists>s0 s'. tr_deferred s0 = ks \<and> trampoline_state.more s0 = trampoline_state.more s \<and>
      tr_step exec s = (True, s') \<and> tr_deferred s' = tr_deferred (run_if_set exec k s0) \<and>
      trampoline_state.more s' = trampoline_state.more (run_if_set exec k s0)"
    by - (rule exI [of _ "s\<lparr>tr_deferred := ks\<rparr>"], simp add: tr_step_def)
qed

text \<open>
  Completion chains are flat and complete. If running any work item only ever defers
  further continuations through the trampoline, and the work spawned is finite (each
  item outweighs what it defers), then an outermost \<^verbatim>\<open>run_continuation\<close> returns, with the
  deferred queue empty and the draining flag cleared; and a nested call never runs its
  continuation inline but only appends it.
\<close>

theorem trampoline_flat:
  assumes "\<And>w t. (\<Sum>k\<leftarrow>tr_deferred (exec w t). Suc (weight k))
      \<le> weight (Some w) + (\<Sum>k\<leftarrow>tr_deferred t. Suc (weight k))"
    and "\<not> tr_draining s"
  shows "(\<exists>s'. run_continuation exec (Some w) s = Some s' \<and>
           tr_deferred s' = [] \<and> \<not> tr_draining s') \<and>
    (\<forall>t. tr_draining t \<longrightarrow> run_continuation exec (Some w) t =
           Some (t\<lparr>tr_deferred := tr_deferred t @ [Some w]\<rparr>))"
proof -
  obtain m s' where "count_while (tr_step exec) 0 (exec w (s\<lparr>tr_draining := True\<rparr>)) = Some (m, s')"
      "tr_deferred s' = []"
    using tr.weighted_drain [where exec = exec and weight = weight] assms(1) by blast
  then show ?thesis
    using assms(2) by (auto simp: run_continuation_def)
qed

theorem trampoline_flat_witness:
  "\<exists>s'. run_continuation
      (\<lambda>w t. if w = 0 then t else t\<lparr>tr_deferred := tr_deferred t @ [Some (w - 1)]\<rparr>) (Some (3::nat))
      \<lparr>tr_draining = False, tr_deferred = []\<rparr> = Some s' \<and> tr_deferred s' = [] \<and> \<not> tr_draining s'"
  using trampoline_flat [of
      "\<lambda>k. case k of None \<Rightarrow> 0 | Some w \<Rightarrow> w"
      "\<lambda>w t. if w = 0 then t else t\<lparr>tr_deferred := tr_deferred t @ [Some (w - 1)]\<rparr>" "\<lparr>tr_draining = False, tr_deferred = []\<rparr>" 3]
  by simp

end
