(* ===== verification/Wakeup.thy ===== *)
theory Wakeup
  imports Prelude
begin

text \<open>
  \<^verbatim>\<open>include/voris/io/backend_wakeup.hpp\<close>: the counting wake-up a shard's worker parks on. Each
  critical section of the mutex is one function. A wait is two sections around the
  condition variable: \<open>wk_wait_enter\<close> up to the blocking call and \<open>wk_wait_resume\<close> or
  \<open>wk_wait_timeout\<close> after it; the condition of the wait decides when resuming is possible.
\<close>

record backend_wakeup =
  wk_pending :: size_t
  wk_waiters :: size_t

definition wk_init :: backend_wakeup where
  "wk_init = \<lparr>wk_pending = 0, wk_waiters = 0\<rparr>"

definition wk_wake :: "backend_wakeup \<Rightarrow> backend_wakeup" where
  "wk_wake w = w\<lparr>wk_pending := wk_pending w + 1\<rparr>"

definition wk_try_consume :: "backend_wakeup \<Rightarrow> bool \<times> backend_wakeup" where
  "wk_try_consume w =
     (if wk_pending w = 0 then (False, w) else (True, w\<lparr>wk_pending := wk_pending w - 1\<rparr>))"

definition wk_consume_all :: "backend_wakeup \<Rightarrow> size_t \<times> backend_wakeup" where
  "wk_consume_all w = (wk_pending w, w\<lparr>wk_pending := 0\<rparr>)"

definition wk_consume :: "backend_wakeup \<Rightarrow> backend_wakeup" where
  "wk_consume w = snd (wk_try_consume w)"

text \<open>\<open>True\<close>: a wake-up was pending and is taken; \<open>False\<close>: the caller blocks.\<close>

definition wk_wait_enter :: "backend_wakeup \<Rightarrow> bool \<times> backend_wakeup" where
  "wk_wait_enter w =
     (if wk_pending w = 0 then (False, w\<lparr>wk_waiters := wk_waiters w + 1\<rparr>)
      else (True, w\<lparr>wk_pending := wk_pending w - 1\<rparr>))"

text \<open>The waiter wakes with its predicate true, or stays blocked.\<close>

definition wk_wait_resume :: "backend_wakeup \<Rightarrow> backend_wakeup option" where
  "wk_wait_resume w =
     (if wk_pending w \<noteq> 0
      then Some (w\<lparr>wk_waiters := wk_waiters w - 1, wk_pending := wk_pending w - 1\<rparr>)
      else None)"

text \<open>\<^verbatim>\<open>wait_for\<close>: at the time-out the predicate is evaluated once more.\<close>

definition wk_wait_timeout :: "backend_wakeup \<Rightarrow> bool \<times> backend_wakeup" where
  "wk_wait_timeout w =
     (let signaled = wk_pending w \<noteq> 0; w' = w\<lparr>wk_waiters := wk_waiters w - 1\<rparr>
      in if \<not> signaled then (False, w') else (True, w'\<lparr>wk_pending := wk_pending w' - 1\<rparr>))"

definition wk_pending_count :: "backend_wakeup \<Rightarrow> size_t" where
  "wk_pending_count w = wk_pending w"

definition wk_wake_count :: "backend_wakeup \<Rightarrow> size_t" where
  "wk_wake_count w = wk_pending_count w"

definition wk_waiter_count_reached :: "size_t \<Rightarrow> backend_wakeup \<Rightarrow> bool" where
  "wk_waiter_count_reached minimum_waiters w \<longleftrightarrow> wk_waiters w \<ge> minimum_waiters"

lemma wk_wake_pending: "wk_pending w \<noteq> - 1 \<Longrightarrow> wk_pending (wk_wake w) \<noteq> 0"
  by (simp add: wk_wake_def eq_neg_iff_add_eq_0)

end
