(* ===== verification/Shard.thy ===== *)
theory Shard
  imports Mailbox Scheduler Wakeup
begin

text \<open>
  \<^verbatim>\<open>include/voris/io/shard.hpp\<close>, \<^verbatim>\<open>src/shard.cpp\<close>, \<^verbatim>\<open>include/voris/io/runtime_metrics.hpp\<close> and
  \<^verbatim>\<open>include/voris/io/submit.hpp\<close>: a shard owns a mailbox, a loop budget and a worker thread.
  The record extends the state of the thread that runs the shard's code, and is itself
  extensible by the state of user code, which may call every operation of the shard.
  The monotonic clock is the sequence of its successive readings. The worker's loop, which
  runs concurrently with submitters, is in \<open>Shard_Protocol\<close>.
\<close>

section \<open>State\<close>

record runtime_metrics_config =
  long_task_threshold :: int

definition default_metrics_config :: runtime_metrics_config where
  "default_metrics_config = \<lparr>long_task_threshold = 10 ^ 9\<rparr>"

record runtime_metrics =
  submitted_tasks :: size_t
  completed_tasks :: size_t
  queue_depth :: size_t
  long_tasks :: size_t
  scheduler_lag :: int

definition zero_metrics :: runtime_metrics where
  "zero_metrics = \<lparr>submitted_tasks = 0, completed_tasks = 0, queue_depth = 0, long_tasks = 0,
     scheduler_lag = 0\<rparr>"

record 'w shard = thread_state +
  sh_id :: scheduler_id
  sh_mailbox :: "'w mailbox"
  sh_budget :: loop_budget
  sh_metrics_config :: runtime_metrics_config
  sh_wakeup :: backend_wakeup
  sh_metrics :: runtime_metrics
  sh_loop_error :: "vio_error option"
  sh_running :: bool
  sh_stop_requested :: bool
  sh_joinable :: bool
  sh_clock :: "nat \<Rightarrow> int"
  sh_clock_reads :: nat

definition sh_create ::
  "scheduler_id \<Rightarrow> (nat \<Rightarrow> int) \<Rightarrow> nat \<Rightarrow> loop_budget \<Rightarrow> runtime_metrics_config \<Rightarrow> 'w shard" where
  "sh_create i clock queue_limit budget metrics_config =
     \<lparr>tls_current_scheduler = None, sh_id = i, sh_mailbox = mb_create queue_limit,
      sh_budget = budget, sh_metrics_config = metrics_config, sh_wakeup = wk_init,
      sh_metrics = zero_metrics, sh_loop_error = None, sh_running = False,
      sh_stop_requested = False, sh_joinable = False, sh_clock = clock, sh_clock_reads = 0\<rparr>"

definition sh_now :: "('w, 'e) shard_scheme \<Rightarrow> int \<times> ('w, 'e) shard_scheme" where
  "sh_now s = (sh_clock s (sh_clock_reads s), s\<lparr>sh_clock_reads := sh_clock_reads s + 1\<rparr>)"

section \<open>Submission\<close>

text \<open>The critical section of \<^verbatim>\<open>submit\<close> under the lifecycle mutex.\<close>

definition sh_note_depth :: "('w, 'e) shard_scheme \<Rightarrow> ('w, 'e) shard_scheme" where
  "sh_note_depth s =
     s\<lparr>sh_metrics := (sh_metrics s)\<lparr>queue_depth := of_nat (mb_size (sh_mailbox s))\<rparr>\<rparr>"

definition sh_submit_locked ::
  "(int \<Rightarrow> 'w continuation \<Rightarrow> 'w mailbox \<Rightarrow> void_result \<times> 'w mailbox) \<Rightarrow> 'w continuation \<Rightarrow>
     ('w, 'e) shard_scheme \<Rightarrow> void_result \<times> ('w, 'e) shard_scheme" where
  "sh_submit_locked lane next s =
     (if sh_stop_requested s
      then (Inl (make_error_diagnostic invalid_state ''shard is stopped''), s)
      else
        (let (now, s1) = sh_now s;
             (r, mb) = lane now next (sh_mailbox s1);
             s2 = sh_note_depth (s1\<lparr>sh_mailbox := mb\<rparr>)
         in (r, case r of
                  Inl _ \<Rightarrow> s2
                | Inr _ \<Rightarrow> s2\<lparr>sh_metrics := (sh_metrics s2)
                    \<lparr>submitted_tasks := submitted_tasks (sh_metrics s2) + 1\<rparr>\<rparr>)))"

definition sh_wake :: "('w, 'e) shard_scheme \<Rightarrow> ('w, 'e) shard_scheme" where
  "sh_wake s = s\<lparr>sh_wakeup := wk_wake (sh_wakeup s)\<rparr>"

definition sh_submit ::
  "'w continuation \<Rightarrow> ('w, 'e) shard_scheme \<Rightarrow> void_result \<times> ('w, 'e) shard_scheme" where
  "sh_submit next s =
     (if next = None then (Inl (make_error invalid_state None []), s)
      else
        (let (r, s1) = sh_submit_locked mb_submit next s
         in (r, case r of Inl _ \<Rightarrow> s1 | Inr _ \<Rightarrow> sh_wake s1)))"

definition sh_submit_system ::
  "'w continuation \<Rightarrow> ('w, 'e) shard_scheme \<Rightarrow> void_result \<times> ('w, 'e) shard_scheme" where
  "sh_submit_system next s =
     (if next = None then (Inl (make_error invalid_state None []), s)
      else
        (let (r, s1) = sh_submit_locked mb_submit_system next s
         in (r, case r of Inl _ \<Rightarrow> s1 | Inr _ \<Rightarrow> sh_wake s1)))"

definition sh_enqueue ::
  "'w continuation \<Rightarrow> ('w, 'e) shard_scheme \<Rightarrow> void_result \<times> ('w, 'e) shard_scheme" where
  "sh_enqueue next s = sh_submit next s"

text \<open>\<^verbatim>\<open>scheduler()\<close>: a shard has \<^verbatim>\<open>submit\<close> and \<^verbatim>\<open>submit_system\<close>, so the reference uses these.\<close>

definition shard_type :: "(('w, 'e) shard_scheme, 'w) scheduler_type" where
  "shard_type = \<lparr>st_submit = Some (\<lambda>s k. sh_submit k s),
     st_submit_system = Some (\<lambda>s k. sh_submit_system k s),
     st_result_enqueue = Some (\<lambda>s k. sh_enqueue k s),
     st_enqueue = (\<lambda>s k. snd (sh_enqueue k s))\<rparr>"

definition sh_scheduler ::
  "('w, 'e) shard_scheme \<Rightarrow> (('w, 'e) shard_scheme, 'w) scheduler_ref" where
  "sh_scheduler s = make_scheduler_ref shard_type (sh_id s)"

definition submit_to_ref ::
  "('s, 'w) scheduler_ref \<Rightarrow> 'w continuation \<Rightarrow> 's \<Rightarrow> void_result \<times> 's" where
  "submit_to_ref target message s = sr_do_schedule target s message"

definition submit_to ::
  "'w continuation \<Rightarrow> ('w, 'e) shard_scheme \<Rightarrow> void_result \<times> ('w, 'e) shard_scheme" where
  "submit_to message s = submit_to_ref (sh_scheduler s) message s"

section \<open>Running queued messages\<close>

definition run_queued_message ::
  "('w \<Rightarrow> ('w, 'e) shard_scheme \<Rightarrow> ('w, 'e) shard_scheme) \<Rightarrow> 'w message \<Rightarrow>
     ('w, 'e) shard_scheme \<Rightarrow> ('w, 'e) shard_scheme" where
  "run_queued_message exec m s =
     (let (run_started, s1) = sh_now s;
          lag = run_started - msg_enqueued_at m;
          s2 = sh_note_depth s1;
          s3 = (if scheduler_lag (sh_metrics s2) < lag
                then s2\<lparr>sh_metrics := (sh_metrics s2)\<lparr>scheduler_lag := lag\<rparr>\<rparr> else s2);
          (task_duration, s4) =
            (case msg_work m of
               None \<Rightarrow> (0, s3)
             | Some w \<Rightarrow>
                 (let (task_started, t1) = sh_now s3;
                      (finished, t2) = sh_now (exec w t1)
                  in (finished - task_started, t2)));
          s5 = s4\<lparr>sh_metrics := (sh_metrics s4)
                 \<lparr>completed_tasks := completed_tasks (sh_metrics s4) + 1\<rparr>\<rparr>
      in if task_duration > long_task_threshold (sh_metrics_config s5)
         then s5\<lparr>sh_metrics := (sh_metrics s5)\<lparr>long_tasks := long_tasks (sh_metrics s5) + 1\<rparr>\<rparr>
         else s5)"

definition sh_pop_next ::
  "('w, 'e) shard_scheme \<Rightarrow> 'w message option \<times> ('w, 'e) shard_scheme" where
  "sh_pop_next s =
     (let (m, mb) = mb_pop_next (sh_mailbox s) in (m, s\<lparr>sh_mailbox := mb\<rparr>))"

definition run_one_queued_message ::
  "('w \<Rightarrow> ('w, 'e) shard_scheme \<Rightarrow> ('w, 'e) shard_scheme) \<Rightarrow> ('w, 'e) shard_scheme \<Rightarrow>
     bool \<times> ('w, 'e) shard_scheme" where
  "run_one_queued_message exec s =
     (case sh_pop_next s of
        (None, s1) \<Rightarrow> (False, sh_note_depth s1)
      | (Some m, s1) \<Rightarrow> (True, run_queued_message exec m s1))"

definition sh_drain ::
  "('w \<Rightarrow> ('w, 'e) shard_scheme \<Rightarrow> ('w, 'e) shard_scheme) \<Rightarrow> ('w, 'e) shard_scheme \<Rightarrow>
     (nat \<times> ('w, 'e) shard_scheme) option" where
  "sh_drain exec s = count_while (run_one_queued_message exec) 0 s"

text \<open>One budgeted iteration: each message takes a unit of task budget before it runs.\<close>

function iteration_loop ::
  "('w \<Rightarrow> ('w, 'e) shard_scheme \<Rightarrow> ('w, 'e) shard_scheme) \<Rightarrow> loop_budget_slice \<Rightarrow> nat \<Rightarrow>
     ('w, 'e) shard_scheme \<Rightarrow> nat \<times> ('w, 'e) shard_scheme" where
  "iteration_loop exec sl n s =
     (if remaining_tasks sl > 0 then
        case sh_pop_next s of
          (None, s1) \<Rightarrow> (n, s1)
        | (Some m, s1) \<Rightarrow>
            iteration_loop exec (snd (consume_task sl)) (n + 1) (run_queued_message exec m s1)
      else (n, s))"
  by pat_completeness auto
termination
  by (relation "measure (\<lambda>(_, sl, _, _). remaining_tasks sl)")
    (auto simp: consume_task_ok(2))

declare iteration_loop.simps [simp del]

definition run_one_loop_iteration_under_current_scheduler ::
  "('w \<Rightarrow> ('w, 'e) shard_scheme \<Rightarrow> ('w, 'e) shard_scheme) \<Rightarrow> ('w, 'e) shard_scheme \<Rightarrow>
     nat io_result \<times> ('w, 'e) shard_scheme" where
  "run_one_loop_iteration_under_current_scheduler exec s =
     (case slice_create (sh_budget s) of
        Inl e \<Rightarrow> (Inl e, s)
      | Inr sl \<Rightarrow> (let (n, s') = iteration_loop exec sl 0 s in (Inr n, s')))"

definition run_one_loop_iteration ::
  "('w \<Rightarrow> ('w, 'e) shard_scheme \<Rightarrow> ('w, 'e) shard_scheme) \<Rightarrow> ('w, 'e) shard_scheme \<Rightarrow>
     nat io_result \<times> ('w, 'e) shard_scheme" where
  "run_one_loop_iteration exec s =
     (let (previous, s1) = scope_enter (sh_id s) s;
          (r, s2) = run_one_loop_iteration_under_current_scheduler exec s1
      in (r, scope_leave previous s2))"

section \<open>Lifecycle\<close>

text \<open>\<open>sh_start\<close> reports whether a new worker thread was created.\<close>

definition sh_start :: "('w, 'e) shard_scheme \<Rightarrow> bool \<times> ('w, 'e) shard_scheme" where
  "sh_start s =
     (if sh_running s then (False, s)
      else (True, s\<lparr>sh_running := True, sh_loop_error := None, sh_stop_requested := False,
                    sh_joinable := True\<rparr>))"

definition sh_request_stop_locked :: "('w, 'e) shard_scheme \<Rightarrow> ('w, 'e) shard_scheme" where
  "sh_request_stop_locked s = s\<lparr>sh_stop_requested := True\<rparr>"

definition sh_request_stop :: "('w, 'e) shard_scheme \<Rightarrow> ('w, 'e) shard_scheme" where
  "sh_request_stop s = sh_wake (sh_request_stop_locked s)"

text \<open>\<^verbatim>\<open>join\<close> after the worker has returned.\<close>

definition sh_join :: "('w, 'e) shard_scheme \<Rightarrow> ('w, 'e) shard_scheme" where
  "sh_join s = (if sh_joinable s then s\<lparr>sh_joinable := False\<rparr> else s)\<lparr>sh_running := False\<rparr>"

definition sh_get_metrics :: "('w, 'e) shard_scheme \<Rightarrow> runtime_metrics" where
  "sh_get_metrics s = sh_metrics s"

definition sh_last_loop_error :: "('w, 'e) shard_scheme \<Rightarrow> vio_error option" where
  "sh_last_loop_error s = sh_loop_error s"

definition sh_is_running :: "('w, 'e) shard_scheme \<Rightarrow> bool" where
  "sh_is_running s = sh_running s"

definition wait_until_parked :: "('w, 'e) shard_scheme \<Rightarrow> bool" where
  "wait_until_parked s = wk_waiter_count_reached 1 (sh_wakeup s)"

section \<open>Draining as a work source\<close>

definition sh_pending :: "('w, 'e) shard_scheme \<Rightarrow> 'w continuation list" where
  "sh_pending s = mb_pending (sh_mailbox s)"

lemma sh_bookkeeping [simp]:
  "sh_mailbox (sh_note_depth s) = sh_mailbox s" "shard.more (sh_note_depth s) = shard.more s"
  "sh_mailbox (snd (sh_now s)) = sh_mailbox s" "shard.more (snd (sh_now s)) = shard.more s"
  "sh_pending (sh_note_depth s) = sh_pending s"
  by (simp_all add: sh_note_depth_def sh_now_def sh_pending_def)

lemma run_queued_message_effect:
  "\<exists>s0. sh_mailbox s0 = sh_mailbox s \<and> shard.more s0 = shard.more s \<and>
     tls_current_scheduler s0 = tls_current_scheduler s \<and>
     sh_mailbox (run_queued_message exec m s) = sh_mailbox (run_if_set exec (msg_work m) s0) \<and>
     shard.more (run_queued_message exec m s) = shard.more (run_if_set exec (msg_work m) s0) \<and>
     completed_tasks (sh_metrics (run_queued_message exec m s)) =
       completed_tasks (sh_metrics (run_if_set exec (msg_work m) s0)) + 1"
proof -
  let ?s2 = "sh_note_depth (snd (sh_now s))"
  let ?lag = "fst (sh_now s) - msg_enqueued_at m"
  let ?s3 = "if scheduler_lag (sh_metrics ?s2) < ?lag
    then ?s2\<lparr>sh_metrics := (sh_metrics ?s2)\<lparr>scheduler_lag := ?lag\<rparr>\<rparr> else ?s2"
  have s3: "sh_mailbox ?s3 = sh_mailbox s" "shard.more ?s3 = shard.more s"
    "tls_current_scheduler ?s3 = tls_current_scheduler s"
    by (simp_all add: sh_now_def sh_note_depth_def)
  show ?thesis
  proof (cases "msg_work m")
    case None
    then show ?thesis
      using s3 by - (rule exI [of _ ?s3], simp add: run_queued_message_def Let_def case_prod_beta)
  next
    case (Some w)
    then show ?thesis
      using s3 by - (rule exI [of _ "snd (sh_now ?s3)"],
        simp add: run_queued_message_def Let_def case_prod_beta sh_now_def)
  qed
qed

lemma sh_pop_next_empty: "sh_pending s = [] \<Longrightarrow> sh_pop_next s = (None, s)"
  by (simp add: sh_pending_def sh_pop_next_def mb_pop_next_empty)

lemma sh_pop_next_head:
  assumes "mb_messages (sh_mailbox s) = m # ms"
  shows "\<exists>mb. sh_pop_next s = (Some m, s\<lparr>sh_mailbox := mb\<rparr>) \<and> mb_messages mb = ms"
  using mb_pop_next_head [OF assms] by (auto simp: sh_pop_next_def)

interpretation sh: work_source run_one_queued_message sh_pending shard.more
proof
  fix exec and s :: "('w, 'e) shard_scheme"
  assume "sh_pending s = []"
  then show "\<exists>s'. run_one_queued_message exec s = (False, s') \<and> sh_pending s' = [] \<and>
      shard.more s' = shard.more s"
    by (simp add: run_one_queued_message_def sh_pop_next_empty)
next
  fix exec k ks and s :: "('w, 'e) shard_scheme"
  assume "sh_pending s = k # ks"
  then obtain m ms where s: "mb_messages (sh_mailbox s) = m # ms"
    and k: "k = msg_work m" "ks = map msg_work ms"
    by (auto simp: sh_pending_def map_eq_Cons_conv)
  then obtain mb where pop: "sh_pop_next s = (Some m, s\<lparr>sh_mailbox := mb\<rparr>)" "mb_messages mb = ms"
    using sh_pop_next_head by blast
  obtain s0 where "sh_mailbox s0 = mb" "shard.more s0 = shard.more s"
    "sh_mailbox (run_queued_message exec m (s\<lparr>sh_mailbox := mb\<rparr>)) =
       sh_mailbox (run_if_set exec (msg_work m) s0)"
    "shard.more (run_queued_message exec m (s\<lparr>sh_mailbox := mb\<rparr>)) =
       shard.more (run_if_set exec (msg_work m) s0)"
    using run_queued_message_effect [of "s\<lparr>sh_mailbox := mb\<rparr>" exec m] by auto
  then show "\<exists>s0 s'. sh_pending s0 = ks \<and> shard.more s0 = shard.more s \<and>
      run_one_queued_message exec s = (True, s') \<and> sh_pending s' = sh_pending (run_if_set exec k s0) \<and>
      shard.more s' = shard.more (run_if_set exec k s0)"
    using pop k
    by - (rule exI [of _ s0], rule exI [of _ "run_queued_message exec m (s\<lparr>sh_mailbox := mb\<rparr>)"],
      simp add: run_one_queued_message_def sh_pending_def)
qed

section \<open>Frame lemmas\<close>

text \<open>
  \<^verbatim>\<open>pop_next\<close> is two critical sections, one per lane; these are its halves on a shard.
\<close>

definition sh_pop_system ::
  "('w, 'e) shard_scheme \<Rightarrow> 'w message option \<times> ('w, 'e) shard_scheme" where
  "sh_pop_system s =
     (let (m, q) = bq_pop (mb_system_queue (sh_mailbox s))
      in (m, s\<lparr>sh_mailbox := (sh_mailbox s)\<lparr>mb_system_queue := q\<rparr>\<rparr>))"

definition sh_pop_user ::
  "('w, 'e) shard_scheme \<Rightarrow> 'w message option \<times> ('w, 'e) shard_scheme" where
  "sh_pop_user s =
     (let (m, q) = bq_pop (mb_queue (sh_mailbox s))
      in (m, s\<lparr>sh_mailbox := (sh_mailbox s)\<lparr>mb_queue := q\<rparr>\<rparr>))"

lemma sh_pop_next_halves:
  "sh_pop_next s =
     (case sh_pop_system s of (Some m, s1) \<Rightarrow> (Some m, s1) | (None, s1) \<Rightarrow> sh_pop_user s1)"
  by (simp add: sh_pop_next_def sh_pop_system_def sh_pop_user_def mb_pop_next_def Let_def
      case_prod_beta split: option.split)

abbreviation sh_system_items :: "('w, 'e) shard_scheme \<Rightarrow> 'w message list" where
  "sh_system_items s \<equiv> bq_items (mb_system_queue (sh_mailbox s))"

abbreviation sh_user_items :: "('w, 'e) shard_scheme \<Rightarrow> 'w message list" where
  "sh_user_items s \<equiv> bq_items (mb_queue (sh_mailbox s))"

lemma sh_pending_lanes:
  "sh_pending s = map msg_work (sh_system_items s) @ map msg_work (sh_user_items s)"
  by (simp add: sh_pending_def mb_messages_def)

lemma sh_pop_system_cases:
  assumes "sh_pop_system s = (r, s')"
  shows "sh_user_items s' = sh_user_items s" "sh_wakeup s' = sh_wakeup s"
    "sh_stop_requested s' = sh_stop_requested s"
    "case r of None \<Rightarrow> s' = s \<and> sh_system_items s = []
       | Some m \<Rightarrow> sh_system_items s = m # sh_system_items s'"
  using assms
  by (auto simp: sh_pop_system_def bq_pop_def split: list.splits)

lemma sh_pop_user_cases:
  assumes "sh_pop_user s = (r, s')"
  shows "sh_system_items s' = sh_system_items s" "sh_wakeup s' = sh_wakeup s"
    "sh_stop_requested s' = sh_stop_requested s"
    "case r of None \<Rightarrow> s' = s \<and> sh_user_items s = []
       | Some m \<Rightarrow> sh_user_items s = m # sh_user_items s'"
  using assms
  by (auto simp: sh_pop_user_def bq_pop_def split: list.splits)

lemma sh_submit_locked_cases:
  assumes "sh_submit_locked lane (Some w) s = (r, s')"
    and "lane = mb_submit \<or> lane = mb_submit_system"
  shows "sh_wakeup s' = sh_wakeup s" "sh_stop_requested s' = sh_stop_requested s"
    "case r of Inl _ \<Rightarrow> sh_system_items s' = sh_system_items s \<and> sh_user_items s' = sh_user_items s
       | Inr _ \<Rightarrow> \<not> sh_stop_requested s \<and>
           mset (set_works (sh_pending s')) = add_mset w (mset (set_works (sh_pending s)))"
  using assms
  by (auto simp: sh_submit_locked_def Let_def sh_now_def sh_note_depth_def mb_submit_def
      mb_submit_system_def bq_try_push_def record_full_pressure_locked_def sh_pending_lanes
      make_message_def split: if_splits)

lemma run_queued_idle_frame:
  "sh_mailbox (run_queued_message (\<lambda>w s. s) m s) = sh_mailbox s"
  "sh_wakeup (run_queued_message (\<lambda>w s. s) m s) = sh_wakeup s"
  "sh_stop_requested (run_queued_message (\<lambda>w s. s) m s) = sh_stop_requested s"
  "sh_budget (run_queued_message (\<lambda>w s. s) m s) = sh_budget s"
  by (simp_all add: run_queued_message_def Let_def sh_now_def sh_note_depth_def case_prod_beta
      split: option.split)

section \<open>Budgeted iterations\<close>

lemma iteration_loop_quiet:
  assumes quiet: "\<And>w s. sh_mailbox (exec w s) = sh_mailbox s"
    and effect: "\<And>w s. shard.more (exec w s) = f w (shard.more s)"
  shows "\<exists>s'. iteration_loop exec sl n s =
      (n + min (remaining_tasks sl) (mb_size (sh_mailbox s)), s') \<and>
    mb_messages (sh_mailbox s') = drop (remaining_tasks sl) (mb_messages (sh_mailbox s)) \<and>
    shard.more s' = fold f (set_works (take (remaining_tasks sl) (sh_pending s))) (shard.more s)"
proof (induction "remaining_tasks sl" arbitrary: sl n s)
  case 0
  then show ?case by (simp add: iteration_loop.simps [of exec sl])
next
  case (Suc k)
  have rem: "remaining_tasks sl = Suc k" using Suc.hyps(2) by simp
  show ?case
  proof (cases "mb_messages (sh_mailbox s)")
    case Nil
    then show ?thesis
      by (simp add: iteration_loop.simps [of exec sl] rem sh_pop_next_empty sh_pending_def
          mb_size_messages)
  next
    case (Cons m ms)
    then obtain mb where pop: "sh_pop_next s = (Some m, s\<lparr>sh_mailbox := mb\<rparr>)"
      and mb: "mb_messages mb = ms"
      using sh_pop_next_head by blast
    let ?s1 = "run_queued_message exec m (s\<lparr>sh_mailbox := mb\<rparr>)"
    obtain s0 where s0: "sh_mailbox s0 = mb" "shard.more s0 = shard.more s"
      "sh_mailbox ?s1 = sh_mailbox (run_if_set exec (msg_work m) s0)"
      "shard.more ?s1 = shard.more (run_if_set exec (msg_work m) s0)"
      using run_queued_message_effect [of "s\<lparr>sh_mailbox := mb\<rparr>" exec m] by auto
    then have mb1: "sh_mailbox ?s1 = mb" using quiet by (cases "msg_work m") simp_all
    have rem1: "k = remaining_tasks (snd (consume_task sl))"
      using consume_task_ok(2) [of sl] rem by simp
    obtain s' where "iteration_loop exec (snd (consume_task sl)) (n + 1) ?s1 =
        (n + 1 + min k (length ms), s')" "mb_messages (sh_mailbox s') = drop k ms"
      "shard.more s' = fold f (set_works (take k (map msg_work ms))) (shard.more ?s1)"
      using Suc.hyps(1) [OF rem1, of "n + 1" ?s1] mb mb1 rem1
      by (auto simp: mb_size_messages sh_pending_def)
    moreover have "fold f (set_works (take (Suc k) (sh_pending s))) (shard.more s) =
        fold f (set_works (take k (map msg_work ms))) (shard.more ?s1)"
      using s0 effect Cons by (cases "msg_work m") (simp_all add: sh_pending_def)
    ultimately show ?thesis
      using Cons by (simp add: iteration_loop.simps [of exec sl] rem pop mb_size_messages)
  qed
qed

section \<open>Theorems\<close>

text \<open>
  One scheduler-loop iteration is budgeted and ordered: with an invalid budget it reports
  the validation error and changes nothing; otherwise it runs exactly as many queued messages
  as the task budget and the mailbox allow, in service order, each once, leaves the rest
  queued, and restores the thread's current scheduler.
\<close>

theorem shard_iteration_budgeted:
  assumes "\<And>w s. sh_mailbox (exec w s) = sh_mailbox s"
    and "\<And>w s. shard.more (exec w s) = f w (shard.more s)"
  shows "case loop_budget_validate (sh_budget s) of
      Inl e \<Rightarrow> run_one_loop_iteration exec s = (Inl e, s)
    | Inr _ \<Rightarrow> \<exists>s'. run_one_loop_iteration exec s =
          (Inr (min (task_budget (sh_budget s)) (mb_size (sh_mailbox s))), s') \<and>
        mb_messages (sh_mailbox s') =
          drop (task_budget (sh_budget s)) (mb_messages (sh_mailbox s)) \<and>
        shard.more s' = fold f (set_works (take (task_budget (sh_budget s)) (sh_pending s)))
          (shard.more s) \<and>
        tls_current_scheduler s' = tls_current_scheduler s"
proof (cases "slice_create (sh_budget s)")
  case (Inl e)
  then show ?thesis
    by (auto simp: run_one_loop_iteration_def run_one_loop_iteration_under_current_scheduler_def
        scope_enter_def scope_leave_def slice_create_def split: sum.splits)
next
  case (Inr sl)
  let ?s1 = "s\<lparr>tls_current_scheduler := Some (sh_id s)\<rparr>"
  obtain s' where "iteration_loop exec sl 0 ?s1 =
      (0 + min (remaining_tasks sl) (mb_size (sh_mailbox ?s1)), s')"
    "mb_messages (sh_mailbox s') = drop (remaining_tasks sl) (mb_messages (sh_mailbox ?s1))"
    "shard.more s' = fold f (set_works (take (remaining_tasks sl) (sh_pending ?s1))) (shard.more ?s1)"
    using iteration_loop_quiet [of exec f sl 0 ?s1] assms by auto
  moreover have "remaining_tasks sl = task_budget (sh_budget s)"
    using slice_create_remaining(1) [OF Inr] .
  moreover have "loop_budget_validate (sh_budget s) = Inr ()"
    using Inr by (auto simp: slice_create_def split: sum.splits)
  ultimately show ?thesis
    using Inr by (simp add: run_one_loop_iteration_def scope_enter_def scope_leave_def sh_pending_def
        run_one_loop_iteration_under_current_scheduler_def)
qed

theorem shard_iteration_budgeted_witness:
  "\<exists>s'. run_one_loop_iteration (\<lambda>w s. s\<lparr>shard.more := shard.more s @ [w]\<rparr>)
     (shard.extend ((sh_create 1 (\<lambda>n. int n) 4
          \<lparr>task_budget = 1, completion_budget = 1, timer_budget = 1\<rparr> default_metrics_config)
        \<lparr>sh_mailbox := \<lparr>mb_queue = \<lparr>bq_capacity = 4, bq_items = [make_message 0 (Some 7),
             make_message 0 (Some (8 :: nat))], bq_capacity_waiters = 0\<rparr>,
           mb_system_queue = bq_create 4\<rparr>\<rparr>) []) = (Inr 1, s') \<and> shard.more s' = [7]"
proof -
  let ?s = "shard.extend ((sh_create 1 (\<lambda>n. int n) 4
          \<lparr>task_budget = 1, completion_budget = 1, timer_budget = 1\<rparr> default_metrics_config)
        \<lparr>sh_mailbox := \<lparr>mb_queue = \<lparr>bq_capacity = 4, bq_items = [make_message 0 (Some 7),
             make_message 0 (Some (8 :: nat))], bq_capacity_waiters = 0\<rparr>,
           mb_system_queue = bq_create 4\<rparr>\<rparr>) ([] :: nat list)"
  have "loop_budget_validate (sh_budget ?s) = Inr ()" "task_budget (sh_budget ?s) = 1"
    "mb_size (sh_mailbox ?s) = 2" "sh_pending ?s = [Some 7, Some 8]" "shard.more ?s = []"
    by (simp_all add: shard.defs sh_create_def loop_budget_validate_def mb_size_def bq_size_def
        bq_create_def sh_pending_def mb_messages_def make_message_def)
  then show ?thesis
    using shard_iteration_budgeted [where exec = "\<lambda>w s. s\<lparr>shard.more := shard.more s @ [w]\<rparr>"
        and f = "\<lambda>w l. l @ [w]" and s = ?s] by auto
qed

end
