(* ===== verification/Shard_Protocol.thy ===== *)
theory Shard_Protocol
  imports Shard
begin

text \<open>
  The worker loop of \<^verbatim>\<open>src/shard.cpp\<close> (\<^verbatim>\<open>run_loop\<close>) running concurrently with submitters and
  with threads that call \<^verbatim>\<open>start\<close>, \<^verbatim>\<open>request_stop\<close> and \<^verbatim>\<open>join\<close>. A step of the relation is one
  critical section or atomic access of the source, by the worker or by a client, in any
  interleaving. \<^verbatim>\<open>submit\<close> and \<^verbatim>\<open>request_stop\<close> are two steps each: the section under the
  lifecycle mutex, and the wake-up after it, which is in flight in between. User work runs
  while the worker is in \<open>Running\<close>; what it does to the shard are client steps. Taking the
  next message is two steps, since the two lanes have a mutex each. The state
  also records the accepted and the executed work.
\<close>

section \<open>States and steps\<close>

datatype 'w worker_pc =
    No_thread
  | Loop_head
  | Iterating loop_budget_slice nat
  | Iterating_user loop_budget_slice nat
  | Running "'w message" loop_budget_slice nat
  | Wait_entry
  | Parked
  | Consuming
  | Draining
  | Draining_user
  | Drain_running "'w message"
  | Exited bool

record 'w shard_sys =
  ss_shard :: "'w shard"
  ss_pc :: "'w worker_pc"
  ss_inflight :: nat
  ss_accepted :: "'w list"
  ss_executed :: "'w list"

definition ss_init :: "'w shard \<Rightarrow> 'w shard_sys" where
  "ss_init s = \<lparr>ss_shard = s, ss_pc = No_thread, ss_inflight = 0, ss_accepted = [],
     ss_executed = []\<rparr>"

datatype actor = Client | Worker

abbreviation message_work :: "'w message \<Rightarrow> 'w list" where
  "message_work m \<equiv> set_works [msg_work m]"

inductive shard_step :: "actor \<Rightarrow> 'w shard_sys \<Rightarrow> 'w shard_sys \<Rightarrow> bool" where
  submit_accepted:
    "\<lbrakk>lane = mb_submit \<or> lane = mb_submit_system;
      sh_submit_locked lane (Some w) (ss_shard g) = (Inr (), s)\<rbrakk> \<Longrightarrow>
     shard_step Client g (g\<lparr>ss_shard := s, ss_inflight := ss_inflight g + 1,
                            ss_accepted := ss_accepted g @ [w]\<rparr>)"
| submit_rejected:
    "\<lbrakk>lane = mb_submit \<or> lane = mb_submit_system;
      sh_submit_locked lane (Some w) (ss_shard g) = (Inl e, s)\<rbrakk> \<Longrightarrow>
     shard_step Client g (g\<lparr>ss_shard := s\<rparr>)"
| stop:
    "shard_step Client g (g\<lparr>ss_shard := sh_request_stop_locked (ss_shard g),
                            ss_inflight := ss_inflight g + 1\<rparr>)"
| deliver_wake:
    "\<lbrakk>ss_inflight g = Suc n; wk_pending (sh_wakeup (ss_shard g)) \<noteq> - 1\<rbrakk> \<Longrightarrow>
     shard_step Client g (g\<lparr>ss_shard := sh_wake (ss_shard g), ss_inflight := n\<rparr>)"
| start:
    "\<lbrakk>ss_pc g = No_thread; sh_start (ss_shard g) = (True, s)\<rbrakk> \<Longrightarrow>
     shard_step Client g (g\<lparr>ss_shard := s, ss_pc := Loop_head\<rparr>)"
| join:
    "ss_pc g = Exited drained \<Longrightarrow>
     shard_step Client g (g\<lparr>ss_shard := sh_join (ss_shard g), ss_pc := No_thread\<rparr>)"
| loop_iterate:
    "\<lbrakk>ss_pc g = Loop_head; \<not> sh_stop_requested (ss_shard g);
      slice_create (sh_budget (ss_shard g)) = Inr sl\<rbrakk> \<Longrightarrow>
     shard_step Worker g (g\<lparr>ss_pc := Iterating sl 0\<rparr>)"
| loop_fail:
    "\<lbrakk>ss_pc g = Loop_head; \<not> sh_stop_requested (ss_shard g);
      slice_create (sh_budget (ss_shard g)) = Inl e\<rbrakk> \<Longrightarrow>
     shard_step Worker g
       (g\<lparr>ss_shard := (sh_note_depth ((ss_shard g)\<lparr>sh_loop_error := Some e\<rparr>))
            \<lparr>sh_stop_requested := True\<rparr>, ss_pc := Exited False\<rparr>)"
| loop_stop:
    "\<lbrakk>ss_pc g = Loop_head; sh_stop_requested (ss_shard g)\<rbrakk> \<Longrightarrow>
     shard_step Worker g (g\<lparr>ss_pc := Draining\<rparr>)"
| iterate_pop_system:
    "\<lbrakk>ss_pc g = Iterating sl n; remaining_tasks sl > 0;
      sh_pop_system (ss_shard g) = (Some m, s)\<rbrakk> \<Longrightarrow>
     shard_step Worker g (g\<lparr>ss_shard := s, ss_pc := Running m (snd (consume_task sl)) n\<rparr>)"
| iterate_system_empty:
    "\<lbrakk>ss_pc g = Iterating sl n; remaining_tasks sl > 0;
      sh_pop_system (ss_shard g) = (None, s)\<rbrakk> \<Longrightarrow>
     shard_step Worker g (g\<lparr>ss_shard := s, ss_pc := Iterating_user sl n\<rparr>)"
| iterate_pop_user:
    "\<lbrakk>ss_pc g = Iterating_user sl n; sh_pop_user (ss_shard g) = (Some m, s)\<rbrakk> \<Longrightarrow>
     shard_step Worker g (g\<lparr>ss_shard := s, ss_pc := Running m (snd (consume_task sl)) n\<rparr>)"
| iterate_user_empty:
    "\<lbrakk>ss_pc g = Iterating_user sl n; sh_pop_user (ss_shard g) = (None, s)\<rbrakk> \<Longrightarrow>
     shard_step Worker g (g\<lparr>ss_shard := s, ss_pc := (if n = 0 then Wait_entry else Loop_head)\<rparr>)"
| iterate_run:
    "ss_pc g = Running m sl n \<Longrightarrow>
     shard_step Worker g
       (g\<lparr>ss_shard := run_queued_message (\<lambda>w s. s) m (ss_shard g), ss_pc := Iterating sl (n + 1),
          ss_executed := ss_executed g @ message_work m\<rparr>)"
| iterate_exhausted:
    "\<lbrakk>ss_pc g = Iterating sl n; remaining_tasks sl = 0\<rbrakk> \<Longrightarrow>
     shard_step Worker g (g\<lparr>ss_pc := (if n = 0 then Wait_entry else Loop_head)\<rparr>)"
| wait_taken:
    "\<lbrakk>ss_pc g = Wait_entry; wk_wait_enter (sh_wakeup (ss_shard g)) = (True, w)\<rbrakk> \<Longrightarrow>
     shard_step Worker g (g\<lparr>ss_shard := (ss_shard g)\<lparr>sh_wakeup := w\<rparr>, ss_pc := Consuming\<rparr>)"
| wait_parks:
    "\<lbrakk>ss_pc g = Wait_entry; wk_wait_enter (sh_wakeup (ss_shard g)) = (False, w)\<rbrakk> \<Longrightarrow>
     shard_step Worker g (g\<lparr>ss_shard := (ss_shard g)\<lparr>sh_wakeup := w\<rparr>, ss_pc := Parked\<rparr>)"
| wait_resumes:
    "\<lbrakk>ss_pc g = Parked; wk_wait_resume (sh_wakeup (ss_shard g)) = Some w\<rbrakk> \<Longrightarrow>
     shard_step Worker g (g\<lparr>ss_shard := (ss_shard g)\<lparr>sh_wakeup := w\<rparr>, ss_pc := Consuming\<rparr>)"
| consume_wakes:
    "ss_pc g = Consuming \<Longrightarrow>
     shard_step Worker g (g\<lparr>ss_shard := (ss_shard g)\<lparr>sh_wakeup :=
         snd (wk_consume_all (sh_wakeup (ss_shard g)))\<rparr>, ss_pc := Loop_head\<rparr>)"
| drain_pop_system:
    "\<lbrakk>ss_pc g = Draining; sh_pop_system (ss_shard g) = (Some m, s)\<rbrakk> \<Longrightarrow>
     shard_step Worker g (g\<lparr>ss_shard := s, ss_pc := Drain_running m\<rparr>)"
| drain_system_empty:
    "\<lbrakk>ss_pc g = Draining; sh_pop_system (ss_shard g) = (None, s)\<rbrakk> \<Longrightarrow>
     shard_step Worker g (g\<lparr>ss_shard := s, ss_pc := Draining_user\<rparr>)"
| drain_pop_user:
    "\<lbrakk>ss_pc g = Draining_user; sh_pop_user (ss_shard g) = (Some m, s)\<rbrakk> \<Longrightarrow>
     shard_step Worker g (g\<lparr>ss_shard := s, ss_pc := Drain_running m\<rparr>)"
| drain_run:
    "ss_pc g = Drain_running m \<Longrightarrow>
     shard_step Worker g
       (g\<lparr>ss_shard := run_queued_message (\<lambda>w s. s) m (ss_shard g), ss_pc := Draining,
          ss_executed := ss_executed g @ message_work m\<rparr>)"
| drain_done:
    "\<lbrakk>ss_pc g = Draining_user; sh_pop_user (ss_shard g) = (None, s)\<rbrakk> \<Longrightarrow>
     shard_step Worker g (g\<lparr>ss_shard := sh_note_depth s, ss_pc := Exited True\<rparr>)"

inductive_cases shard_step_client [elim]: "shard_step Client g g'"
inductive_cases shard_step_worker [elim]: "shard_step Worker g g'"

inductive shard_reachable :: "'w shard \<Rightarrow> 'w shard_sys \<Rightarrow> bool" for s0 where
  initial: "shard_reachable s0 (ss_init s0)"
| step: "\<lbrakk>shard_reachable s0 g; shard_step who g g'\<rbrakk> \<Longrightarrow> shard_reachable s0 g'"

section \<open>Invariant\<close>

fun pc_work :: "'w worker_pc \<Rightarrow> 'w list" where
  "pc_work (Running m sl n) = message_work m"
| "pc_work (Drain_running m) = message_work m"
| "pc_work pc = []"

text \<open>The worker has passed the test of the stop flag and not yet waited.\<close>

fun pc_past_check :: "'w worker_pc \<Rightarrow> bool" where
  "pc_past_check (Iterating sl n) = True"
| "pc_past_check (Iterating_user sl n) = True"
| "pc_past_check (Running m sl n) = True"
| "pc_past_check Wait_entry = True"
| "pc_past_check Parked = True"
| "pc_past_check pc = False"

fun pc_stopping :: "'w worker_pc \<Rightarrow> bool" where
  "pc_stopping Draining = True"
| "pc_stopping Draining_user = True"
| "pc_stopping (Drain_running m) = True"
| "pc_stopping (Exited d) = True"
| "pc_stopping pc = False"

abbreviation ss_wake_coming :: "'w shard_sys \<Rightarrow> bool" where
  "ss_wake_coming g \<equiv> wk_pending (sh_wakeup (ss_shard g)) \<noteq> 0 \<or> 0 < ss_inflight g"

abbreviation ss_queued :: "'w shard_sys \<Rightarrow> 'w list" where
  "ss_queued g \<equiv> set_works (sh_pending (ss_shard g))"

definition ss_inv :: "'w shard_sys \<Rightarrow> bool" where
  "ss_inv g \<longleftrightarrow>
     mset (ss_accepted g) = mset (ss_executed g) + mset (pc_work (ss_pc g)) + mset (ss_queued g) \<and>
     (pc_past_check (ss_pc g) \<longrightarrow> sh_stop_requested (ss_shard g) \<longrightarrow> ss_wake_coming g) \<and>
     (ss_pc g = Wait_entry \<or> ss_pc g = Parked \<longrightarrow> sh_pending (ss_shard g) \<noteq> [] \<longrightarrow>
        ss_wake_coming g) \<and>
     (\<forall>sl n. ss_pc g = Iterating_user sl n \<longrightarrow> sh_system_items (ss_shard g) \<noteq> [] \<longrightarrow>
        ss_wake_coming g) \<and>
     (pc_stopping (ss_pc g) \<longrightarrow> sh_stop_requested (ss_shard g)) \<and>
     (ss_pc g = Draining_user \<longrightarrow> sh_system_items (ss_shard g) = []) \<and>
     (ss_pc g = Exited True \<longrightarrow> sh_pending (ss_shard g) = []) \<and>
     (\<forall>sl. ss_pc g = Iterating sl 0 \<longrightarrow> 0 < remaining_tasks sl)"

lemma ss_inv_init: "sh_pending s = [] \<Longrightarrow> ss_inv (ss_init s)"
  by (simp add: ss_inv_def ss_init_def)

lemma ss_inv_client:
  assumes "ss_inv g" and "shard_step Client g g'"
  shows "ss_inv g'"
  using assms(2)
proof cases
  case (submit_accepted lane w s)
  note sub = sh_submit_locked_cases [OF submit_accepted(3,2)]
  then have run: "\<not> sh_stop_requested (ss_shard g)" by simp
  then have "\<not> pc_stopping (ss_pc g)" using assms(1) by (simp add: ss_inv_def)
  then have "ss_pc g \<noteq> Draining_user" "ss_pc g \<noteq> Exited True" by auto
  with submit_accepted(1) run sub assms(1) show ?thesis by (simp add: ss_inv_def)
next
  case (submit_rejected lane w e s)
  then show ?thesis
    using assms(1) sh_submit_locked_cases [OF submit_rejected(3,2)]
    by (simp add: ss_inv_def sh_pending_lanes)
next
  case stop
  then show ?thesis
    using assms(1) by (auto simp: ss_inv_def sh_request_stop_locked_def sh_pending_lanes)
next
  case (deliver_wake n)
  then show ?thesis
    using assms(1) wk_wake_pending [of "sh_wakeup (ss_shard g)"]
    by (auto simp: ss_inv_def sh_wake_def sh_pending_lanes)
next
  case (start s)
  then show ?thesis
    using assms(1) by (auto simp: ss_inv_def sh_start_def sh_pending_lanes split: if_splits)
next
  case (join drained)
  then show ?thesis
    using assms(1) by (auto simp: ss_inv_def sh_join_def sh_pending_lanes)
qed

lemma ss_inv_worker:
  assumes "ss_inv g" and "shard_step Worker g g'"
  shows "ss_inv g'"
  using assms(2)
proof cases
  case (loop_iterate sl)
  then show ?thesis
    using assms(1) slice_create_remaining [OF loop_iterate(4)] by (auto simp: ss_inv_def)
next
  case (loop_fail e)
  then show ?thesis
    using assms(1) by (auto simp: ss_inv_def sh_note_depth_def sh_pending_lanes)
next
  case loop_stop
  then show ?thesis using assms(1) by (auto simp: ss_inv_def)
next
  case (iterate_pop_system sl n m s)
  then show ?thesis
    using assms(1) sh_pop_system_cases [OF iterate_pop_system(4)]
    by (auto simp: ss_inv_def sh_pending_lanes set_works_def)
next
  case (iterate_system_empty sl n s)
  then show ?thesis
    using assms(1) sh_pop_system_cases [OF iterate_system_empty(4)] by (auto simp: ss_inv_def)
next
  case (iterate_pop_user sl n m s)
  then show ?thesis
    using assms(1) sh_pop_user_cases [OF iterate_pop_user(3)]
    by (auto simp: ss_inv_def sh_pending_lanes set_works_def)
next
  case (iterate_user_empty sl n s)
  then show ?thesis
    using assms(1) sh_pop_user_cases [OF iterate_user_empty(3)]
    by (auto simp: ss_inv_def sh_pending_lanes)
next
  case (iterate_run m sl n)
  then show ?thesis
    using assms(1) by (auto simp: ss_inv_def run_queued_idle_frame sh_pending_def)
next
  case (iterate_exhausted sl n)
  then show ?thesis using assms(1) by (auto simp: ss_inv_def)
next
  case (wait_taken w)
  then show ?thesis using assms(1) by (auto simp: ss_inv_def sh_pending_def)
next
  case (wait_parks w)
  then show ?thesis
    using assms(1) by (auto simp: ss_inv_def sh_pending_def wk_wait_enter_def split: if_splits)
next
  case (wait_resumes w)
  then show ?thesis using assms(1) by (auto simp: ss_inv_def sh_pending_def)
next
  case consume_wakes
  then show ?thesis using assms(1) by (auto simp: ss_inv_def sh_pending_def)
next
  case (drain_pop_system m s)
  then show ?thesis
    using assms(1) sh_pop_system_cases [OF drain_pop_system(3)]
    by (auto simp: ss_inv_def sh_pending_lanes set_works_def)
next
  case (drain_system_empty s)
  then show ?thesis
    using assms(1) sh_pop_system_cases [OF drain_system_empty(3)] by (auto simp: ss_inv_def)
next
  case (drain_pop_user m s)
  then show ?thesis
    using assms(1) sh_pop_user_cases [OF drain_pop_user(3)]
    by (auto simp: ss_inv_def sh_pending_lanes set_works_def)
next
  case (drain_run m)
  then show ?thesis
    using assms(1) by (auto simp: ss_inv_def run_queued_idle_frame sh_pending_def)
next
  case (drain_done s)
  then show ?thesis
    using assms(1) sh_pop_user_cases [OF drain_done(3)]
    by (auto simp: ss_inv_def sh_pending_lanes sh_note_depth_def)
qed

lemma ss_inv_reachable:
  assumes "shard_reachable s0 g" and "sh_pending s0 = []"
  shows "ss_inv g"
  using assms(1)
proof induction
  case initial
  then show ?case using ss_inv_init assms(2) .
next
  case (step g who g')
  then show ?case using ss_inv_client ss_inv_worker by (cases who) blast+
qed

section \<open>Progress\<close>

text \<open>The distance of a stopping worker from its exit.\<close>

fun pc_rank :: "'w worker_pc \<Rightarrow> nat" where
  "pc_rank (Running m sl n) = 12"
| "pc_rank (Iterating sl n) = 11"
| "pc_rank (Iterating_user sl n) = 10"
| "pc_rank Wait_entry = 9"
| "pc_rank Parked = 8"
| "pc_rank Consuming = 7"
| "pc_rank Loop_head = 6"
| "pc_rank (Drain_running m) = 5"
| "pc_rank Draining = 4"
| "pc_rank Draining_user = 3"
| "pc_rank No_thread = 0"
| "pc_rank (Exited d) = 0"

definition ss_measure :: "'w shard_sys \<Rightarrow> nat" where
  "ss_measure g = 3 * length (sh_pending (ss_shard g)) + pc_rank (ss_pc g)"

lemma worker_step_decreases:
  assumes "shard_step Worker g g'" and "sh_stop_requested (ss_shard g)"
  shows "ss_measure g' < ss_measure g \<and> sh_stop_requested (ss_shard g') \<and>
    ss_inflight g' = ss_inflight g"
  using assms(1)
proof cases
  case (iterate_pop_system sl n m s)
  then show ?thesis using assms(2) sh_pop_system_cases [OF iterate_pop_system(4)]
    by (simp add: ss_measure_def sh_pending_lanes)
next
  case (iterate_system_empty sl n s)
  then show ?thesis using assms(2) sh_pop_system_cases [OF iterate_system_empty(4)]
    by (simp add: ss_measure_def sh_pending_lanes)
next
  case (iterate_pop_user sl n m s)
  then show ?thesis using assms(2) sh_pop_user_cases [OF iterate_pop_user(3)]
    by (simp add: ss_measure_def sh_pending_lanes)
next
  case (iterate_user_empty sl n s)
  then show ?thesis using assms(2) sh_pop_user_cases [OF iterate_user_empty(3)]
    by (simp add: ss_measure_def sh_pending_lanes)
next
  case (drain_pop_system m s)
  then show ?thesis using assms(2) sh_pop_system_cases [OF drain_pop_system(3)]
    by (simp add: ss_measure_def sh_pending_lanes)
next
  case (drain_system_empty s)
  then show ?thesis using assms(2) sh_pop_system_cases [OF drain_system_empty(3)]
    by (simp add: ss_measure_def sh_pending_lanes)
next
  case (drain_pop_user m s)
  then show ?thesis using assms(2) sh_pop_user_cases [OF drain_pop_user(3)]
    by (simp add: ss_measure_def sh_pending_lanes)
next
  case (drain_done s)
  then show ?thesis using assms(2) sh_pop_user_cases [OF drain_done(3)]
    by (simp add: ss_measure_def sh_pending_lanes sh_note_depth_def)
qed (use assms(2) in \<open>auto simp: ss_measure_def sh_pending_def run_queued_idle_frame
    sh_note_depth_def\<close>)

text \<open>A worker that has a thread can move, unless it is parked with no wake-up pending.\<close>

lemma worker_not_stuck:
  assumes "ss_pc g \<noteq> No_thread" and "\<forall>d. ss_pc g \<noteq> Exited d"
    and "ss_pc g = Parked \<longrightarrow> wk_pending (sh_wakeup (ss_shard g)) \<noteq> 0"
  shows "\<exists>g'. shard_step Worker g g'"
proof (cases "ss_pc g")
  case Loop_head
  then show ?thesis
    by (cases "sh_stop_requested (ss_shard g)"; cases "slice_create (sh_budget (ss_shard g))")
      (blast intro: loop_iterate loop_fail loop_stop)+
next
  case (Iterating sl n)
  obtain r s where "sh_pop_system (ss_shard g) = (r, s)" by fastforce
  with Iterating show ?thesis
    by (cases r; cases "remaining_tasks sl = 0")
      (blast intro: iterate_exhausted iterate_pop_system iterate_system_empty)+
next
  case (Iterating_user sl n)
  obtain r s where "sh_pop_user (ss_shard g) = (r, s)" by fastforce
  with Iterating_user show ?thesis
    by (cases r) (blast intro: iterate_pop_user iterate_user_empty)+
next
  case (Running m sl n)
  then show ?thesis by (blast intro: iterate_run)
next
  case Wait_entry
  obtain b w where "wk_wait_enter (sh_wakeup (ss_shard g)) = (b, w)" by fastforce
  with Wait_entry show ?thesis by (cases b) (metis wait_taken wait_parks)+
next
  case Parked
  then show ?thesis
    using assms(3) wait_resumes [OF Parked] by (simp add: wk_wait_resume_def) blast
next
  case Consuming
  then show ?thesis by (blast intro: consume_wakes)
next
  case Draining
  obtain r s where "sh_pop_system (ss_shard g) = (r, s)" by fastforce
  with Draining show ?thesis by (cases r) (blast intro: drain_pop_system drain_system_empty)+
next
  case Draining_user
  obtain r s where "sh_pop_user (ss_shard g) = (r, s)" by fastforce
  with Draining_user show ?thesis by (cases r) (blast intro: drain_pop_user drain_done)+
next
  case (Drain_running m)
  then show ?thesis by (blast intro: drain_run)
qed (use assms in auto)

inductive worker_runs :: "'w shard_sys \<Rightarrow> 'w shard_sys \<Rightarrow> bool" where
  refl: "worker_runs g g"
| step: "\<lbrakk>shard_step Worker g g1; worker_runs g1 g2\<rbrakk> \<Longrightarrow> worker_runs g g2"

lemma worker_never_makes_thread:
  assumes "shard_step Worker g g'"
  shows "ss_pc g' \<noteq> No_thread"
  using assms by cases auto

lemma stopping_worker_exits:
  assumes "ss_inv g" and "sh_stop_requested (ss_shard g)" and "ss_inflight g = 0"
    and "ss_pc g \<noteq> No_thread"
  shows "\<exists>g' d. worker_runs g g' \<and> ss_pc g' = Exited d"
  using assms
proof (induction "ss_measure g" arbitrary: g rule: less_induct)
  case less
  show ?case
  proof (cases "\<exists>d. ss_pc g = Exited d")
    case True
    then show ?thesis using worker_runs.refl by blast
  next
    case False
    have "ss_pc g = Parked \<longrightarrow> wk_pending (sh_wakeup (ss_shard g)) \<noteq> 0"
      using less.prems by (auto simp: ss_inv_def)
    then obtain g1 where g1: "shard_step Worker g g1"
      using worker_not_stuck less.prems(4) False by blast
    have "\<exists>g' d. worker_runs g1 g' \<and> ss_pc g' = Exited d"
      using less.hyps worker_step_decreases [OF g1 less.prems(2)]
        ss_inv_worker [OF less.prems(1) g1] worker_never_makes_thread [OF g1] less.prems(3)
      by metis
    then show ?thesis using worker_runs.step [OF g1] by blast
  qed
qed

section \<open>Theorems\<close>

text \<open>
  C23. No lost wake-up: in every interleaving of submitters, stop requests and the worker, a
  worker that is parked while no wake-up is pending or about to be delivered has an empty
  mailbox and has not been asked to stop.
\<close>

theorem shard_no_lost_wakeup:
  assumes "shard_reachable (sh_create i clock limit budget config) g"
    and "ss_pc g = Parked" and "wk_pending (sh_wakeup (ss_shard g)) = 0" and "ss_inflight g = 0"
  shows "mb_messages (sh_mailbox (ss_shard g)) = [] \<and> \<not> sh_stop_requested (ss_shard g)"
proof -
  have "sh_pending (sh_create i clock limit budget config) = []"
    by (simp add: sh_create_def sh_pending_def mb_create_def mb_messages_def bq_create_def)
  then have "ss_inv g" using ss_inv_reachable assms(1) by blast
  then show ?thesis using assms(2-4) by (auto simp: ss_inv_def sh_pending_def)
qed

theorem shard_no_lost_wakeup_witness:
  "\<exists>g. shard_reachable (sh_create 1 int 4 default_loop_budget default_metrics_config) g \<and>
     ss_pc g = Parked \<and> mb_messages (sh_mailbox (ss_shard (g :: nat shard_sys))) = [] \<and>
     \<not> sh_stop_requested (ss_shard g)"
proof -
  let ?s0 = "sh_create 1 int 4 default_loop_budget default_metrics_config :: nat shard"
  let ?sl = "\<lparr>slice_budget = default_loop_budget, consumed_tasks = 0, consumed_completions = 0,
      consumed_timers = 0\<rparr>"
  let ?s1 = "snd (sh_start ?s0)"
  let ?g = "\<lambda>s pc. \<lparr>ss_shard = s, ss_pc = pc, ss_inflight = 0, ss_accepted = [],
      ss_executed = []\<rparr> :: nat shard_sys"
  let ?s2 = "?s1\<lparr>sh_wakeup := \<lparr>wk_pending = 0, wk_waiters = 1\<rparr>\<rparr>"
  note eval = sh_create_def sh_start_def ss_init_def slice_create_def loop_budget_validate_def
    default_loop_budget_def slice_defs sh_pop_system_def sh_pop_user_def mb_create_def
    bq_create_def bq_pop_def wk_wait_enter_def wk_init_def
  have "shard_reachable ?s0 (?g ?s0 No_thread)"
    using shard_reachable.initial [of ?s0] by (simp add: ss_init_def)
  moreover have "shard_step Client (?g ?s0 No_thread) (?g ?s1 Loop_head)"
    using shard_step.start [of "?g ?s0 No_thread" ?s1] by (simp add: eval)
  moreover have "shard_step Worker (?g ?s1 Loop_head) (?g ?s1 (Iterating ?sl 0))"
    using shard_step.loop_iterate [of "?g ?s1 Loop_head" ?sl] by (simp add: eval)
  moreover have "shard_step Worker (?g ?s1 (Iterating ?sl 0)) (?g ?s1 (Iterating_user ?sl 0))"
    using shard_step.iterate_system_empty [of "?g ?s1 (Iterating ?sl 0)" ?sl 0 ?s1]
    by (simp add: eval)
  moreover have "shard_step Worker (?g ?s1 (Iterating_user ?sl 0)) (?g ?s1 Wait_entry)"
    using shard_step.iterate_user_empty [of "?g ?s1 (Iterating_user ?sl 0)" ?sl 0 ?s1]
    by (simp add: eval)
  moreover have "shard_step Worker (?g ?s1 Wait_entry) (?g ?s2 Parked)"
    using shard_step.wait_parks [of "?g ?s1 Wait_entry" "\<lparr>wk_pending = 0, wk_waiters = 1\<rparr>"]
    by (simp add: eval)
  ultimately have reach: "shard_reachable ?s0 (?g ?s2 Parked)"
    by (meson shard_reachable.step)
  have "mb_messages (sh_mailbox ?s2) = [] \<and> \<not> sh_stop_requested ?s2"
    using shard_no_lost_wakeup [OF reach] by simp
  with reach show ?thesis by (intro exI [of _ "?g ?s2 Parked"]) simp
qed

text \<open>
  C22. No accepted work is lost or run twice: in every reachable state the accepted
  continuations are, counted with multiplicity, the executed ones, the one being run and
  those still queued; and when the worker has exited after draining, exactly the accepted
  continuations have been executed.
\<close>

theorem shard_runs_accepted_exactly_once:
  assumes "shard_reachable (sh_create i clock limit budget config) g"
  shows "mset (ss_accepted g) = mset (ss_executed g) + mset (pc_work (ss_pc g)) +
      mset (set_works (map msg_work (mb_messages (sh_mailbox (ss_shard g))))) \<and>
    (ss_pc g = Exited True \<longrightarrow> mset (ss_executed g) = mset (ss_accepted g))"
proof -
  have "sh_pending (sh_create i clock limit budget config) = []"
    by (simp add: sh_create_def sh_pending_def mb_create_def mb_messages_def bq_create_def)
  then have "ss_inv g" using ss_inv_reachable assms(1) by blast
  then show ?thesis by (auto simp: ss_inv_def sh_pending_def)
qed

theorem shard_runs_accepted_exactly_once_witness:
  "\<exists>g. shard_reachable (sh_create 1 int 4 default_loop_budget default_metrics_config) g \<and>
     ss_pc g = Exited True \<and> ss_accepted g = [7 :: nat] \<and> ss_executed g = [7]"
proof -
  let ?s0 = "sh_create 1 int 4 default_loop_budget default_metrics_config :: nat shard"
  let ?s1 = "snd (sh_start ?s0)"
  let ?s2 = "snd (sh_submit_locked mb_submit (Some 7) ?s1)"
  let ?s3 = "sh_request_stop_locked ?s2"
  let ?m = "the (fst (sh_pop_user ?s3))"
  let ?s4 = "snd (sh_pop_user ?s3)"
  let ?s5 = "run_queued_message (\<lambda>w s. s) ?m ?s4"
  let ?g = "\<lambda>s pc n acc ex. \<lparr>ss_shard = s, ss_pc = pc, ss_inflight = n, ss_accepted = acc,
      ss_executed = ex\<rparr> :: nat shard_sys"
  note eval = sh_create_def sh_start_def sh_submit_locked_def sh_now_def mb_submit_def mb_create_def
    bq_create_def bq_try_push_def make_message_def sh_note_depth_def sh_request_stop_locked_def sh_pop_system_def
    sh_pop_user_def bq_pop_def Let_def
  have pops: "sh_pop_system ?s3 = (None, ?s3)" "sh_pop_user ?s3 = (Some ?m, ?s4)"
    "message_work ?m = [7]" "sh_submit_locked mb_submit (Some 7) ?s1 = (Inr (), ?s2)"
    by (simp_all add: eval)
  have done_pops: "sh_pop_system ?s5 = (None, ?s5)" "sh_pop_user ?s5 = (None, ?s5)"
    by (simp_all add: eval run_queued_message_def split: prod.split)
  have "shard_reachable ?s0 (?g ?s0 No_thread 0 [] [])"
    using shard_reachable.initial [of ?s0] by (simp add: ss_init_def)
  moreover have "shard_step Client (?g ?s0 No_thread 0 [] []) (?g ?s1 Loop_head 0 [] [])"
    using shard_step.start [of "?g ?s0 No_thread 0 [] []" ?s1] by (simp add: sh_create_def sh_start_def)
  moreover have "shard_step Client (?g ?s1 Loop_head 0 [] []) (?g ?s2 Loop_head 1 [7] [])"
    using shard_step.submit_accepted [of mb_submit 7 "?g ?s1 Loop_head 0 [] []" ?s2] pops(4) by simp
  moreover have "shard_step Client (?g ?s2 Loop_head 1 [7] []) (?g ?s3 Loop_head 2 [7] [])"
    using shard_step.stop [of "?g ?s2 Loop_head 1 [7] []"] by (simp add: numeral_2_eq_2)
  moreover have "shard_step Worker (?g ?s3 Loop_head 2 [7] []) (?g ?s3 Draining 2 [7] [])"
    using shard_step.loop_stop [of "?g ?s3 Loop_head 2 [7] []"] by (simp add: sh_request_stop_locked_def)
  moreover have "shard_step Worker (?g ?s3 Draining 2 [7] []) (?g ?s3 Draining_user 2 [7] [])"
    using shard_step.drain_system_empty [of "?g ?s3 Draining 2 [7] []" ?s3] pops(1) by simp
  moreover have "shard_step Worker (?g ?s3 Draining_user 2 [7] []) (?g ?s4 (Drain_running ?m) 2 [7] [])"
    using shard_step.drain_pop_user [of "?g ?s3 Draining_user 2 [7] []" ?m ?s4] pops(2) by simp
  moreover have "shard_step Worker (?g ?s4 (Drain_running ?m) 2 [7] []) (?g ?s5 Draining 2 [7] [7])"
    using shard_step.drain_run [of "?g ?s4 (Drain_running ?m) 2 [7] []" ?m] pops(3) by simp
  moreover have "shard_step Worker (?g ?s5 Draining 2 [7] [7]) (?g ?s5 Draining_user 2 [7] [7])"
    using shard_step.drain_system_empty [of "?g ?s5 Draining 2 [7] [7]" ?s5] done_pops(1) by simp
  moreover have "shard_step Worker (?g ?s5 Draining_user 2 [7] [7]) (?g (sh_note_depth ?s5) (Exited True) 2 [7] [7])"
    using shard_step.drain_done [of "?g ?s5 Draining_user 2 [7] [7]" ?s5] done_pops(2) by simp
  ultimately have reach: "shard_reachable ?s0 (?g (sh_note_depth ?s5) (Exited True) 2 [7] [7])"
    by (meson shard_reachable.step)
  have "mset (ss_executed (?g (sh_note_depth ?s5) (Exited True) 2 [7] [7])) = {#7#}"
    using shard_runs_accepted_exactly_once [OF reach] by simp
  with reach show ?thesis by (intro exI [of _ "?g (sh_note_depth ?s5) (Exited True) 2 [7] [7]"]) simp
qed

text \<open>
  C24. A stopped shard shuts down: from every reachable state with a worker thread in which a
  stop has been requested and its wake-up delivered, the worker exits, and it cannot run for
  ever: each of its steps lowers a measure, so no execution has more worker steps than that.
\<close>

theorem shard_stop_terminates:
  assumes "shard_reachable (sh_create i clock limit budget config) g"
    and "sh_stop_requested (ss_shard g)" and "ss_inflight g = 0" and "ss_pc g \<noteq> No_thread"
  shows "(\<exists>g' d. worker_runs g g' \<and> ss_pc g' = Exited d) \<and>
    (\<forall>g'. shard_step Worker g g' \<longrightarrow> ss_measure g' < ss_measure g \<and>
       sh_stop_requested (ss_shard g') \<and> ss_inflight g' = 0)"
proof -
  have "sh_pending (sh_create i clock limit budget config) = []"
    by (simp add: sh_create_def sh_pending_def mb_create_def mb_messages_def bq_create_def)
  then have "ss_inv g" using ss_inv_reachable assms(1) by blast
  then show ?thesis
    using stopping_worker_exits worker_step_decreases assms(2-4) by metis
qed

theorem shard_stop_terminates_witness:
  "\<exists>g g' d. shard_reachable (sh_create 1 int 4 default_loop_budget default_metrics_config) g \<and>
     sh_stop_requested (ss_shard g) \<and> worker_runs g g' \<and>
     ss_pc (g' :: nat shard_sys) = Exited d"
proof -
  let ?s0 = "sh_create 1 int 4 default_loop_budget default_metrics_config :: nat shard"
  let ?s1 = "snd (sh_start ?s0)"
  let ?s2 = "sh_request_stop_locked ?s1"
  let ?g = "\<lambda>s pc n. \<lparr>ss_shard = s, ss_pc = pc, ss_inflight = n, ss_accepted = [],
      ss_executed = []\<rparr> :: nat shard_sys"
  have "shard_reachable ?s0 (?g ?s0 No_thread 0)"
    using shard_reachable.initial [of ?s0] by (simp add: ss_init_def)
  moreover have "shard_step Client (?g ?s0 No_thread 0) (?g ?s1 Loop_head 0)"
    using shard_step.start [of "?g ?s0 No_thread 0" ?s1] by (simp add: sh_create_def sh_start_def)
  moreover have "shard_step Client (?g ?s1 Loop_head 0) (?g ?s2 Loop_head 1)"
    using shard_step.stop [of "?g ?s1 Loop_head 0"] by simp
  moreover have "shard_step Client (?g ?s2 Loop_head 1) (?g (sh_wake ?s2) Loop_head 0)"
    using shard_step.deliver_wake [of "?g ?s2 Loop_head 1" 0]
    by (simp add: sh_create_def sh_start_def sh_request_stop_locked_def wk_init_def)
  ultimately have reach: "shard_reachable ?s0 (?g (sh_wake ?s2) Loop_head 0)"
    by (meson shard_reachable.step)
  have "sh_stop_requested (sh_wake ?s2)"
    by (simp add: sh_request_stop_locked_def sh_wake_def)
  then show ?thesis using shard_stop_terminates [OF reach] reach by fastforce
qed

end
