(* ===== verification/Vio_Runtime.thy ===== *)
theory Vio_Runtime
  imports Shard_Protocol
begin

text \<open>
  \<^verbatim>\<open>include/voris/io/runtime_options.hpp\<close>, \<^verbatim>\<open>src/runtime_options.cpp\<close>,
  \<^verbatim>\<open>include/voris/io/runtime.hpp\<close> and \<^verbatim>\<open>src/runtime.cpp\<close>: the validated options and the set of
  shards. \<^verbatim>\<open>vector::at\<close> throws out of range: the value \<open>None\<close> of an outer option.
\<close>

record runtime_options =
  opt_shard_count :: size_t
  opt_queue_limit :: size_t
  opt_cpu_affinity_start :: "size_t option"
  opt_scheduler_budget :: loop_budget
  opt_metrics_config :: runtime_metrics_config

definition default_runtime_options :: runtime_options where
  "default_runtime_options = \<lparr>opt_shard_count = 1, opt_queue_limit = 1024,
     opt_cpu_affinity_start = None, opt_scheduler_budget = default_loop_budget,
     opt_metrics_config = default_metrics_config\<rparr>"

definition options_validate :: "runtime_options \<Rightarrow> void_result" where
  "options_validate opts =
     (if opt_shard_count opts = 0 \<or> opt_queue_limit opts = 0
      then Inl (make_error_diagnostic invalid_state ''runtime options require non-zero limits'')
      else if (case opt_cpu_affinity_start opts of
                 None \<Rightarrow> False
               | Some start \<Rightarrow> - 1 - start < opt_shard_count opts - 1)
      then Inl (make_error_diagnostic invalid_state ''runtime CPU affinity request range overflows'')
      else (case loop_budget_validate (opt_scheduler_budget opts) of
              Inl e \<Rightarrow> Inl e
            | Inr _ \<Rightarrow> Inr ()))"

record 'w runtime =
  rt_options :: runtime_options
  rt_shards :: "'w shard list"

text \<open>The constructor's loop; shard \<open>i\<close> is identified by its index.\<close>

definition rt_construct :: "(nat \<Rightarrow> int) \<Rightarrow> runtime_options \<Rightarrow> 'w runtime" where
  "rt_construct clock opts =
     \<lparr>rt_options = opts,
      rt_shards = map (\<lambda>i. sh_create i clock (unat (opt_queue_limit opts)) (opt_scheduler_budget opts)
                         (opt_metrics_config opts)) [0..<unat (opt_shard_count opts)]\<rparr>"

definition rt_create :: "(nat \<Rightarrow> int) \<Rightarrow> runtime_options \<Rightarrow> 'w runtime io_result" where
  "rt_create clock opts =
     (case options_validate opts of Inl e \<Rightarrow> Inl e | Inr _ \<Rightarrow> Inr (rt_construct clock opts))"

definition rt_start :: "'w runtime \<Rightarrow> 'w runtime" where
  "rt_start r = r\<lparr>rt_shards := map (\<lambda>s. snd (sh_start s)) (rt_shards r)\<rparr>"

definition rt_request_stop :: "'w runtime \<Rightarrow> 'w runtime" where
  "rt_request_stop r = r\<lparr>rt_shards := map sh_request_stop (rt_shards r)\<rparr>"

definition rt_join :: "'w runtime \<Rightarrow> 'w runtime" where
  "rt_join r = r\<lparr>rt_shards := map sh_join (rt_shards r)\<rparr>"

definition rt_destroy :: "'w runtime \<Rightarrow> 'w runtime" where
  "rt_destroy r = rt_join (rt_request_stop r)"

definition rt_shard_count :: "'w runtime \<Rightarrow> size_t" where
  "rt_shard_count r = of_nat (length (rt_shards r))"

definition rt_get_shard :: "size_t \<Rightarrow> 'w runtime \<Rightarrow> 'w shard option" where
  "rt_get_shard index r =
     (if unat index < length (rt_shards r) then Some (rt_shards r ! unat index) else None)"

definition requested_shard_cpu_affinity :: "size_t \<Rightarrow> 'w runtime \<Rightarrow> size_t option option" where
  "requested_shard_cpu_affinity index r =
     (case rt_get_shard index r of
        None \<Rightarrow> None
      | Some _ \<Rightarrow>
          (case opt_cpu_affinity_start (rt_options r) of
             None \<Rightarrow> Some None
           | Some start \<Rightarrow> Some (Some (start + index))))"

section \<open>Lemmas\<close>

lemma validate_affinity:
  assumes "options_validate opts = Inr ()" and "opt_cpu_affinity_start opts = Some start"
  shows "unat start + unat (opt_shard_count opts) \<le> 2 ^ 64"
proof -
  have nz: "opt_shard_count opts \<noteq> 0" and le: "opt_shard_count opts - 1 \<le> - 1 - start"
    using assms by (auto simp: options_validate_def not_less split: if_splits)
  have "unat (opt_shard_count opts - 1) = unat (opt_shard_count opts) - 1"
    using nz by (simp add: unat_minus_one)
  moreover have "unat (- 1 - start) = 2 ^ 64 - 1 - unat start"
    using unat_sub [of start "- 1"] unat_max_size by simp
  moreover have "unat start < 2 ^ 64" using unsigned_less [of start] by simp
  moreover have "0 < unat (opt_shard_count opts)" using nz by (simp add: unat_gt_0)
  ultimately show ?thesis using le by (simp add: word_le_nat_alt)
qed

lemma rt_construct_sel [simp]:
  "rt_options (rt_construct clock opts) = opts"
  "length (rt_shards (rt_construct clock opts)) = unat (opt_shard_count opts)"
  by (simp_all add: rt_construct_def)

section \<open>Theorems\<close>

text \<open>
  A created runtime has exactly the requested shards, each fresh, not running and
  accepting work, each index below the count has a shard and every other index throws; and
  the CPU requested for shard \<open>i\<close> is the start plus \<open>i\<close> without wrap-around, so distinct
  shards get distinct CPUs.
\<close>

theorem runtime_create_correct:
  assumes "rt_create clock opts = Inr r"
  shows "rt_shard_count r = opt_shard_count opts \<and> 0 < rt_shard_count r \<and>
    (\<forall>i. rt_get_shard i r =
       (if i < opt_shard_count opts
        then Some (sh_create (unat i) clock (unat (opt_queue_limit opts)) (opt_scheduler_budget opts)
               (opt_metrics_config opts)) else None)) \<and>
    (\<forall>i start. i < opt_shard_count opts \<and> opt_cpu_affinity_start opts = Some start \<longrightarrow>
       (\<exists>cpu. requested_shard_cpu_affinity i r = Some (Some cpu) \<and>
          unat cpu = unat start + unat i)) \<and>
    (\<forall>i. \<not> i < opt_shard_count opts \<longrightarrow> requested_shard_cpu_affinity i r = None)"
proof -
  have valid: "options_validate opts = Inr ()" and r: "r = rt_construct clock opts"
    using assms by (auto simp: rt_create_def split: sum.splits)
  have nz: "opt_shard_count opts \<noteq> 0"
    using valid by (auto simp: options_validate_def)
  have get: "rt_get_shard i r = (if i < opt_shard_count opts
      then Some (sh_create (unat i) clock (unat (opt_queue_limit opts)) (opt_scheduler_budget opts)
               (opt_metrics_config opts)) else None)" for i
    unfolding r by (simp add: rt_get_shard_def word_less_nat_alt) (simp add: rt_construct_def)
  have "unat (start + i) = unat start + unat i"
    if "i < opt_shard_count opts" "opt_cpu_affinity_start opts = Some start" for i start
    using validate_affinity [OF valid that(2)] that(1)
    by (intro unat_add_lem [THEN iffD1]) (simp add: word_less_nat_alt)
  then show ?thesis
    using nz get by (auto simp: requested_shard_cpu_affinity_def r rt_shard_count_def word_neq_0_conv)
qed

theorem runtime_create_correct_witness:
  "requested_shard_cpu_affinity 1 (rt_construct int (default_runtime_options
      \<lparr>opt_shard_count := 2, opt_cpu_affinity_start := Some (- 2)\<rparr>) :: nat runtime) =
     Some (Some (- 1))"
proof -
  let ?o = "default_runtime_options
      \<lparr>opt_shard_count := 2, opt_cpu_affinity_start := Some (- 2)\<rparr>"
  have "rt_create int ?o = Inr (rt_construct int ?o :: nat runtime)"
    by (simp add: rt_create_def options_validate_def default_runtime_options_def
        loop_budget_validate_def default_loop_budget_def)
  moreover have "1 < opt_shard_count ?o \<and> opt_cpu_affinity_start ?o = Some (- 2)"
    by (simp add: default_runtime_options_def)
  ultimately obtain cpu where
    cpu: "requested_shard_cpu_affinity 1 (rt_construct int ?o :: nat runtime) = Some (Some cpu)"
    "unat cpu = unat (- 2 :: size_t) + unat (1 :: size_t)"
    using runtime_create_correct [where opts = ?o] by blast
  have "unat (- 2 :: size_t) + unat (1 :: size_t) = unat (- 1 :: size_t)"
    using unat_max_size by simp
  then have "cpu = - 1" using cpu(2) by (metis word_unat_eq_iff)
  then show ?thesis using cpu(1) by simp
qed

text \<open>
  Invalid options are refused: creation fails with \<^verbatim>\<open>invalid_state\<close> exactly when a limit
  or a loop budget is zero or the requested CPU range does not fit in a \<^verbatim>\<open>std::size_t\<close>; and a
  runtime whose destructor has run has no joinable thread and accepts no submission.
\<close>

theorem runtime_validation_complete:
  "((\<exists>e. rt_create clock opts = Inl e) \<longleftrightarrow>
      opt_shard_count opts = 0 \<or> opt_queue_limit opts = 0 \<or>
      (\<exists>start. opt_cpu_affinity_start opts = Some start \<and>
         2 ^ 64 < unat start + unat (opt_shard_count opts)) \<or>
      task_budget (opt_scheduler_budget opts) = 0 \<or>
      completion_budget (opt_scheduler_budget opts) = 0 \<or> timer_budget (opt_scheduler_budget opts) = 0) \<and>
   (\<forall>e. rt_create clock opts = Inl e \<longrightarrow> classification e = invalid_state) \<and>
   (\<forall>s \<in> set (rt_shards (rt_destroy r)). \<not> sh_joinable s \<and> \<not> sh_running s \<and>
      (\<forall>w. \<exists>e. sh_submit (Some w) s = (Inl e, s)))"
proof -
  have aff: "- 1 - start < opt_shard_count opts - 1 \<longleftrightarrow> 2 ^ 64 < unat start + unat (opt_shard_count opts)"
    if nz: "opt_shard_count opts \<noteq> 0" for start :: size_t
  proof -
    have "unat (opt_shard_count opts - 1) = unat (opt_shard_count opts) - 1"
      using nz by (simp add: unat_minus_one)
    moreover have "unat (- 1 - start) = 2 ^ 64 - 1 - unat start"
      using unat_sub [of start "- 1"] unat_max_size by simp
    moreover have "unat start < 2 ^ 64" using unsigned_less [of start] by simp
    moreover have "0 < unat (opt_shard_count opts)" using nz by (simp add: unat_gt_0)
    ultimately show ?thesis by (simp add: word_less_nat_alt) linarith
  qed
  have "\<forall>s \<in> set (rt_shards (rt_destroy r)). \<not> sh_joinable s \<and> \<not> sh_running s \<and>
      (\<forall>w. \<exists>e. sh_submit (Some w) s = (Inl e, s))"
    by (auto simp: rt_destroy_def rt_join_def rt_request_stop_def sh_join_def sh_submit_def
        sh_request_stop_def sh_request_stop_locked_def sh_wake_def sh_submit_locked_def)
  then show ?thesis
    using aff by (auto simp: rt_create_def options_validate_def loop_budget_validate_def
        split: if_splits option.splits)
qed

theorem runtime_validation_complete_witness:
  "(\<exists>e. (rt_create int (default_runtime_options\<lparr>opt_shard_count := 2,
      opt_cpu_affinity_start := Some (- 1)\<rparr>) :: nat runtime io_result) = Inl e) \<and>
   \<not> (\<exists>e. (rt_create int default_runtime_options :: nat runtime io_result) = Inl e)"
proof -
  let ?o = "default_runtime_options\<lparr>opt_shard_count := 2, opt_cpu_affinity_start := Some (- 1)\<rparr>"
  have "opt_cpu_affinity_start ?o = Some (- 1) \<and>
      2 ^ 64 < unat (- 1 :: size_t) + unat (opt_shard_count ?o)"
    using unat_max_size by (simp add: default_runtime_options_def)
  moreover have "opt_shard_count default_runtime_options \<noteq> 0"
    "opt_queue_limit default_runtime_options \<noteq> 0"
    "opt_cpu_affinity_start default_runtime_options = None"
    "opt_scheduler_budget default_runtime_options = default_loop_budget"
    by (simp_all add: default_runtime_options_def)
  ultimately show ?thesis
    using runtime_validation_complete [where clock = int and opts = ?o
        and r = "undefined :: nat runtime"]
      runtime_validation_complete [where clock = int and opts = default_runtime_options
        and r = "undefined :: nat runtime"]
    by (auto simp: default_loop_budget_def)
qed

end
