(* ===== verification/Waiter.thy ===== *)
theory Waiter
  imports Vio_Error
begin

text \<open>
  What \<^verbatim>\<open>async_semaphore.hpp\<close> and \<^verbatim>\<open>async_mutex.hpp\<close> have in common. Both keep a queue of
  shared waiter states, which the awaiting operation, the queue and the scheduled resumption
  alias; so the waiter states live in a store and are named by their allocation order.

  \<^item> an operation object holds a waiter or nothing: \<open>nat option\<close>;
  \<^item> the weak reference of a waiter to its owner locks while the owner exists;
  \<^item> \<open>wp_jobs\<close> are the resumptions handed to schedulers and not yet run, in order;
  \<^item> \<open>wp_accepts\<close> says which schedulers take a system continuation; the code calls
    \<^verbatim>\<open>std::terminate\<close> when one does not, recorded in \<open>wp_terminated\<close>.

  Coroutine handles and schedulers are type parameters. The locale at the end is the
  accounting argument that the semaphore and the mutex share.
\<close>

section \<open>Waiter states\<close>

record ('k, 'r) waiter_state =
  w_owner :: bool
  w_continuation :: "'k option"
  w_scheduler :: "'r option"
  w_result :: void_result
  w_has_result :: bool
  w_enqueued :: bool
  w_detached :: bool
  w_observing :: bool
  w_reserved :: bool

definition w_init :: "bool \<Rightarrow> ('k, 'r) waiter_state" where
  "w_init owner = \<lparr>w_owner = owner, w_continuation = None, w_scheduler = None, w_result = Inr (),
     w_has_result = False, w_enqueued = False, w_detached = False, w_observing = False,
     w_reserved = False\<rparr>"

definition w_complete :: "void_result \<Rightarrow> ('k, 'r) waiter_state \<Rightarrow> ('k, 'r) waiter_state" where
  "w_complete v w = (if w_has_result w then w else w\<lparr>w_result := v, w_has_result := True\<rparr>)"

section \<open>The pool of waiters of one owner\<close>

record ('k, 'r) waiter_pool =
  wp_store :: "nat \<rightharpoonup> ('k, 'r) waiter_state"
  wp_next :: nat
  wp_waiters :: "nat list"
  wp_alive :: bool
  wp_exists :: bool
  wp_jobs :: "(nat \<times> 'r) list"
  wp_accepts :: "'r \<Rightarrow> bool"
  wp_terminated :: bool

type_synonym operation = "nat option"

definition wp_upd ::
  "nat \<Rightarrow> (('k, 'r) waiter_state \<Rightarrow> ('k, 'r) waiter_state) \<Rightarrow> ('k, 'r, 'e) waiter_pool_scheme \<Rightarrow>
     ('k, 'r, 'e) waiter_pool_scheme" where
  "wp_upd n f s = s\<lparr>wp_store := (wp_store s)(n := map_option f (wp_store s n))\<rparr>"

definition wp_at ::
  "('k, 'r, 'e) waiter_pool_scheme \<Rightarrow> nat \<Rightarrow> (('k, 'r) waiter_state \<Rightarrow> bool) \<Rightarrow> bool" where
  "wp_at s n P = (case wp_store s n of None \<Rightarrow> False | Some w \<Rightarrow> P w)"

definition new_operation ::
  "('k, 'r, 'e) waiter_pool_scheme \<Rightarrow> operation \<times> ('k, 'r, 'e) waiter_pool_scheme" where
  "new_operation s =
     (Some (wp_next s), s\<lparr>wp_store := (wp_store s)(wp_next s \<mapsto> w_init True),
                          wp_next := wp_next s + 1\<rparr>)"

text \<open>\<^verbatim>\<open>owner.lock()\<close> of a waiter, and whether that owner is alive.\<close>

definition owner_lock :: "nat \<Rightarrow> ('k, 'r, 'e) waiter_pool_scheme \<Rightarrow> bool" where
  "owner_lock n s \<longleftrightarrow> wp_at s n w_owner \<and> wp_exists s"

definition complete_and_release ::
  "nat \<Rightarrow> void_result \<Rightarrow> ('k, 'r, 'e) waiter_pool_scheme \<Rightarrow> ('k, 'r, 'e) waiter_pool_scheme" where
  "complete_and_release n v = wp_upd n (\<lambda>w. (w_complete v w)\<lparr>w_owner := False\<rparr>)"

definition prepare_waiter_for_resume ::
  "nat \<Rightarrow> ('k, 'r, 'e) waiter_pool_scheme \<Rightarrow> bool \<times> ('k, 'r, 'e) waiter_pool_scheme" where
  "prepare_waiter_for_resume n s =
     (let s1 = wp_upd n (\<lambda>w. w\<lparr>w_enqueued := False\<rparr>) s
      in if wp_at s1 n (\<lambda>w. \<not> w_detached w \<and> w_continuation w \<noteq> None \<and> w_scheduler w \<noteq> None)
         then (True, s1) else (False, wp_upd n (\<lambda>w. w\<lparr>w_owner := False\<rparr>) s1))"

definition waiter_scheduler :: "nat \<Rightarrow> ('k, 'r, 'e) waiter_pool_scheme \<Rightarrow> 'r" where
  "waiter_scheduler n s = the (w_scheduler (the (wp_store s n)))"

definition schedule_waiter ::
  "nat \<Rightarrow> 'r \<Rightarrow> ('k, 'r, 'e) waiter_pool_scheme \<Rightarrow> ('k, 'r, 'e) waiter_pool_scheme" where
  "schedule_waiter n r s =
     (if wp_accepts s r then s\<lparr>wp_jobs := wp_jobs s @ [(n, r)]\<rparr> else s\<lparr>wp_terminated := True\<rparr>)"

text \<open>Running a scheduled resumption takes the continuation out, if it is still to be resumed.\<close>

definition resume_waiter ::
  "nat \<Rightarrow> ('k, 'r, 'e) waiter_pool_scheme \<Rightarrow> 'k option \<times> ('k, 'r, 'e) waiter_pool_scheme" where
  "resume_waiter n s =
     (if wp_at s n (\<lambda>w. \<not> w_detached w \<and> \<not> w_observing w \<and> w_continuation w \<noteq> None)
      then (w_continuation (the (wp_store s n)),
            wp_upd n (\<lambda>w. w\<lparr>w_continuation := None, w_scheduler := None\<rparr>) s)
      else (None, s))"

section \<open>Frame lemmas\<close>

lemma wp_upd_frame [simp]:
  "wp_next (wp_upd n f s) = wp_next s" "wp_waiters (wp_upd n f s) = wp_waiters s"
  "wp_alive (wp_upd n f s) = wp_alive s" "wp_exists (wp_upd n f s) = wp_exists s"
  "wp_jobs (wp_upd n f s) = wp_jobs s" "wp_accepts (wp_upd n f s) = wp_accepts s"
  "wp_terminated (wp_upd n f s) = wp_terminated s"
  "waiter_pool.more (wp_upd n f s) = waiter_pool.more s"
  by (simp_all add: wp_upd_def)

lemma wp_store_upd:
  "wp_store (wp_upd n f s) k = (if k = n then map_option f (wp_store s n) else wp_store s k)"
  by (simp add: wp_upd_def)

lemma schedule_waiter_frame [simp]:
  "wp_store (schedule_waiter n r s) = wp_store s" "wp_next (schedule_waiter n r s) = wp_next s"
  "wp_waiters (schedule_waiter n r s) = wp_waiters s"
  "wp_alive (schedule_waiter n r s) = wp_alive s"
  "wp_exists (schedule_waiter n r s) = wp_exists s"
  "wp_accepts (schedule_waiter n r s) = wp_accepts s"
  "waiter_pool.more (schedule_waiter n r s) = waiter_pool.more s"
  by (simp_all add: schedule_waiter_def)

lemma prepare_waiter_frame [simp]:
  "wp_waiters (snd (prepare_waiter_for_resume n s)) = wp_waiters s"
  "waiter_pool.more (snd (prepare_waiter_for_resume n s)) = waiter_pool.more s"
  by (simp_all add: prepare_waiter_for_resume_def Let_def)

lemma prepare_waiter_shrinks:
  assumes "(b, s1) = prepare_waiter_for_resume n (s\<lparr>wp_waiters := tl (wp_waiters s)\<rparr>)"
    and "wp_waiters s \<noteq> []"
  shows "length (wp_waiters s1) < length (wp_waiters s)"
proof -
  have "wp_waiters s1 = tl (wp_waiters s)"
    using prepare_waiter_frame(1) [of n "s\<lparr>wp_waiters := tl (wp_waiters s)\<rparr>"]
    by (simp add: assms(1) [symmetric])
  then show ?thesis using assms(2) by simp
qed

section \<open>Well-formed pools\<close>

text \<open>
  A queued waiter is waiting: it has a continuation and a scheduler and no result, and it is
  queued once. A reserved waiter has been handed what it waited for and nobody has observed
  or abandoned it yet. \<open>handed\<close> is what a reserved waiter's result slot holds.
\<close>

definition waiting :: "('k, 'r) waiter_state \<Rightarrow> bool" where
  "waiting w \<longleftrightarrow> w_owner w \<and> w_continuation w \<noteq> None \<and> w_scheduler w \<noteq> None \<and>
     \<not> w_has_result w \<and> w_enqueued w \<and> \<not> w_detached w \<and> \<not> w_observing w \<and> \<not> w_reserved w"

text \<open>A success has been handed over, observed or abandoned.\<close>

definition settled :: "('k, 'r) waiter_state \<Rightarrow> bool" where
  "settled w \<longleftrightarrow>
     (w_has_result w \<and> w_result w = Inr () \<longrightarrow> w_reserved w \<or> w_observing w \<or> w_detached w)"

definition job_ids :: "('k, 'r, 'e) waiter_pool_scheme \<Rightarrow> nat set" where
  "job_ids s = fst ` set (wp_jobs s)"

definition wp_inv :: "(('k, 'r) waiter_state \<Rightarrow> bool) \<Rightarrow> ('k, 'r, 'e) waiter_pool_scheme \<Rightarrow> bool" where
  "wp_inv handed s \<longleftrightarrow>
     distinct (wp_waiters s) \<and>
     (\<forall>n \<in> set (wp_waiters s). wp_at s n waiting) \<and>
     (\<forall>n \<in> job_ids s. n < wp_next s \<and> n \<notin> set (wp_waiters s)) \<and>
     (\<forall>n w. wp_store s n = Some w \<longrightarrow> n < wp_next s \<and> (w_enqueued w \<longrightarrow> n \<in> set (wp_waiters s)) \<and>
        (w_reserved w \<longrightarrow> handed w \<and> \<not> w_detached w \<and> \<not> w_observing w) \<and> settled w)"

definition reserved_set :: "('k, 'r, 'e) waiter_pool_scheme \<Rightarrow> nat set" where
  "reserved_set s = {n. wp_at s n w_reserved}"

definition reserved_count :: "('k, 'r, 'e) waiter_pool_scheme \<Rightarrow> nat" where
  "reserved_count s = card (reserved_set s)"

lemma finite_reserved:
  assumes "wp_inv handed s"
  shows "finite (reserved_set s)"
proof (rule finite_subset)
  show "reserved_set s \<subseteq> {..<wp_next s}"
    using assms by (auto simp: reserved_set_def wp_inv_def wp_at_def split: option.splits)
qed simp

lemma reserved_set_upd:
  "reserved_set (wp_upd n f s) =
     (if wp_at s n (\<lambda>w. w_reserved (f w)) then insert n (reserved_set s) else reserved_set s - {n})"
  by (auto simp: reserved_set_def wp_at_def wp_store_upd split: option.splits if_splits)

lemma unreserve_count:
  assumes "wp_inv handed s" and "wp_store s n = Some w" and "\<not> w_reserved (f w)"
  shows "reserved_count (wp_upd n f s) + (if w_reserved w then 1 else 0) = reserved_count s"
proof -
  have "n \<in> reserved_set s \<longleftrightarrow> w_reserved w"
    using assms(2) by (simp add: reserved_set_def wp_at_def)
  moreover have "reserved_set (wp_upd n f s) = reserved_set s - {n}"
    using assms(2,3) by (simp add: reserved_set_upd wp_at_def)
  ultimately show ?thesis
    using card_Suc_Diff1 [OF finite_reserved [OF assms(1)], of n]
    by (simp add: reserved_count_def)
qed

lemma wp_upd_upd: "wp_upd n f (wp_upd n g s) = wp_upd n (f \<circ> g) s"
  by (simp add: wp_upd_def option.map_comp)

text \<open>
  The change of one waiter that leaves the queue, or was not in it: every operation below is
  an instance.
\<close>

lemma wp_inv_change:
  assumes inv: "wp_inv handed s"
    and store: "wp_store s' = (wp_store s)(n := map_option f (wp_store s n))"
    and nxt: "wp_next s' = wp_next s"
    and ws: "distinct (wp_waiters s')" "set (wp_waiters s') = set (wp_waiters s) - {n}"
    and jobs: "job_ids s' \<subseteq> insert n (job_ids s)"
      "n \<in> job_ids s' \<longrightarrow> n < wp_next s"
    and f: "\<And>w. wp_store s n = Some w \<Longrightarrow> \<not> w_enqueued (f w) \<and>
      (w_reserved (f w) \<longrightarrow> handed (f w) \<and> \<not> w_detached (f w) \<and> \<not> w_observing (f w)) \<and>
      settled (f w)"
  shows "wp_inv handed s'"
proof -
  have "wp_at s' k waiting" if "k \<in> set (wp_waiters s')" for k
    using that inv by (auto simp: wp_inv_def wp_at_def store ws)
  moreover have "k < wp_next s' \<and> (w_enqueued w \<longrightarrow> k \<in> set (wp_waiters s')) \<and>
      (w_reserved w \<longrightarrow> handed w \<and> \<not> w_detached w \<and> \<not> w_observing w) \<and> settled w"
    if "wp_store s' k = Some w" for k w
  proof (cases "k = n")
    case True
    then show ?thesis using that f inv by (auto simp: store nxt wp_inv_def)
  next
    case False
    then show ?thesis using that inv by (auto simp: store nxt wp_inv_def ws)
  qed
  moreover have "k < wp_next s' \<and> k \<notin> set (wp_waiters s')" if "k \<in> job_ids s'" for k
    using that jobs inv by (auto simp: wp_inv_def nxt ws)
  ultimately show ?thesis using ws(1) unfolding wp_inv_def by blast
qed

text \<open>A new waiter, not queued or queued last.\<close>

lemma wp_inv_fresh:
  assumes inv: "wp_inv handed s"
    and store: "wp_store s' = (wp_store s)(wp_next s \<mapsto> w)"
    and nxt: "wp_next s' = wp_next s + 1" and jobs: "wp_jobs s' = wp_jobs s"
    and "\<not> w_reserved w" "settled w"
    and ws: "if w_enqueued w then waiting w \<and> wp_waiters s' = wp_waiters s @ [wp_next s]
      else wp_waiters s' = wp_waiters s"
  shows "wp_inv handed s'" and "reserved_set s' = reserved_set s"
proof -
  have ids: "job_ids s' = job_ids s" by (simp add: job_ids_def jobs)
  have fresh: "wp_store s (wp_next s) = None" "wp_next s \<notin> set (wp_waiters s)"
    "wp_next s \<notin> job_ids s"
    using inv by (fastforce simp: wp_inv_def wp_at_def split: option.splits)+
  show "reserved_set s' = reserved_set s"
    using assms(5) fresh by (auto simp: reserved_set_def wp_at_def store)
  have "distinct (wp_waiters s')" "wp_next s \<in> set (wp_waiters s') \<longleftrightarrow> w_enqueued w"
    "set (wp_waiters s') - {wp_next s} = set (wp_waiters s)"
    using inv fresh ws by (auto simp: wp_inv_def split: if_splits)
  then show "wp_inv handed s'"
    using inv fresh assms(5,6) ws
    by (fastforce simp: wp_inv_def wp_at_def store nxt ids less_Suc_eq split: if_splits)
qed

lemma queued_waiting:
  assumes "wp_inv handed s" and "n \<in> set (wp_waiters s)"
  shows "\<exists>w. wp_store s n = Some w \<and> waiting w"
  using assms by (auto simp: wp_inv_def wp_at_def split: option.splits)

lemma queued_not_reserved:
  assumes "wp_inv handed s"
  shows "reserved_set s \<inter> set (wp_waiters s) = {}"
  using assms queued_waiting [OF assms]
  by (auto simp: reserved_set_def wp_at_def waiting_def split: option.splits)

lemma not_enqueued_not_queued:
  assumes "wp_inv handed s" and "wp_store s n = Some w" and "\<not> w_enqueued w"
  shows "n \<notin> set (wp_waiters s)"
  using queued_waiting [OF assms(1), of n] assms(2,3) by (auto simp: waiting_def)

lemma prepare_queued:
  assumes "wp_store s n = Some w" and "waiting w"
  shows "prepare_waiter_for_resume n s = (True, wp_upd n (\<lambda>w. w\<lparr>w_enqueued := False\<rparr>) s)"
  using assms by (simp add: prepare_waiter_for_resume_def Let_def wp_at_def wp_store_upd waiting_def)

section \<open>Accounting\<close>

text \<open>
  A lock or a semaphore hands out units. One step acquires some units and gives back some;
  \<open>available\<close> counts the units that nobody holds, reserved ones included. A run is
  disciplined if no step gives back more than the limit allows.
\<close>

fun account_run :: "('op \<Rightarrow> 's \<Rightarrow> nat \<times> nat \<times> 's) \<Rightarrow> 'op list \<Rightarrow> 's \<Rightarrow> nat \<times> nat \<times> 's" where
  "account_run step [] s = (0, 0, s)"
| "account_run step (op # ops) s =
     (let (a, r, s1) = step op s; (as, rs, s2) = account_run step ops s1 in (a + as, r + rs, s2))"

fun disciplined :: "('op \<Rightarrow> 's \<Rightarrow> nat \<times> nat \<times> 's) \<Rightarrow> ('s \<Rightarrow> nat) \<Rightarrow> nat \<Rightarrow> 'op list \<Rightarrow> 's \<Rightarrow> bool" where
  "disciplined step available limit [] s = True"
| "disciplined step available limit (op # ops) s =
     (let (a, r, s1) = step op s
      in available s + r \<le> limit \<and> disciplined step available limit ops s1)"

locale permit_account =
  fixes step :: "'op \<Rightarrow> 's \<Rightarrow> nat \<times> nat \<times> 's"
    and available :: "'s \<Rightarrow> nat"
    and limit :: nat
    and ok :: "'s \<Rightarrow> bool"
  assumes step_ok: "ok s \<Longrightarrow> step op s = (a, r, s') \<Longrightarrow> available s + r \<le> limit \<Longrightarrow>
      ok s' \<and> available s' + a = available s + r"
begin

lemma run_conserves:
  assumes "ok s" and "disciplined step available limit ops s"
    and "account_run step ops s = (as, rs, s')"
  shows "ok s' \<and> available s' + as = available s + rs"
  using assms
proof (induction ops arbitrary: s as rs)
  case Nil
  then show ?case by simp
next
  case (Cons op ops)
  obtain a r s1 as1 rs1 where st: "step op s = (a, r, s1)"
    and run: "account_run step ops s1 = (as1, rs1, s')" and eq: "as = a + as1" "rs = r + rs1"
    using Cons.prems by (auto simp: Let_def split: prod.splits)
  have "available s + r \<le> limit" "disciplined step available limit ops s1"
    using Cons.prems(2) st by auto
  with step_ok [OF Cons.prems(1) st] Cons.IH [OF _ _ run] show ?case by (simp add: eq)
qed

text \<open>Units held are what was acquired and not given back: never more than there are.\<close>

lemma run_held:
  assumes "ok s" and "disciplined step available limit ops s"
    and "account_run step ops s = (as, rs, s')"
  shows "as \<le> available s + rs"
  using run_conserves [OF assms] by simp

end

end
