(* ===== verification/Semaphore.thy ===== *)
theory Semaphore
  imports Waiter
begin

text \<open>
  \<^verbatim>\<open>include/voris/io/async_semaphore.hpp\<close>: an asynchronous counting semaphore, used on one
  scheduler. Permits are a \<^verbatim>\<open>std::size_t\<close>, which \<^verbatim>\<open>release\<close> saturates. \<open>sem_co_acquire\<close> and
  \<open>sem_run_job\<close> compose the awaiter's functions the way a \<^verbatim>\<open>co_await\<close> expression and the
  resumption of a suspended coroutine call them.
\<close>

section \<open>Operations\<close>

record ('k, 'r) semaphore = "('k, 'r) waiter_pool" +
  sem_permits :: size_t
  sem_max_waiters :: size_t

definition sem_create :: "('r \<Rightarrow> bool) \<Rightarrow> size_t \<Rightarrow> size_t \<Rightarrow> ('k, 'r) semaphore" where
  "sem_create accepts permits max_waiters =
     \<lparr>wp_store = Map.empty, wp_next = 0, wp_waiters = [], wp_alive = True, wp_exists = True,
      wp_jobs = [], wp_accepts = accepts, wp_terminated = False,
      sem_permits = permits, sem_max_waiters = max_waiters\<rparr>"

definition sem_default_max_waiters :: "size_t \<Rightarrow> size_t" where
  "sem_default_max_waiters initial_permits = (if initial_permits = 0 then 1 else initial_permits)"

definition sem_create_default :: "('r \<Rightarrow> bool) \<Rightarrow> size_t \<Rightarrow> ('k, 'r) semaphore" where
  "sem_create_default accepts permits =
     sem_create accepts permits (sem_default_max_waiters permits)"

definition sem_try_acquire :: "('k, 'r) semaphore \<Rightarrow> void_result \<times> ('k, 'r) semaphore" where
  "sem_try_acquire s =
     (if \<not> wp_exists s \<or> \<not> wp_alive s
      then (Inl (make_error_diagnostic invalid_state ''semaphore is not alive''), s)
      else if sem_permits s = 0
      then (Inl (make_error_diagnostic resource_exhausted ''no semaphore permits available''), s)
      else (Inr (), s\<lparr>sem_permits := sem_permits s - 1\<rparr>))"

definition sem_try_complete_immediate ::
  "operation \<Rightarrow> ('k, 'r) semaphore \<Rightarrow> bool \<times> ('k, 'r) semaphore" where
  "sem_try_complete_immediate op s =
     (case op of
        None \<Rightarrow> (True, s)
      | Some n \<Rightarrow>
          if wp_at s n (\<lambda>w. w_detached w \<or> w_has_result w) then (True, s)
          else if \<not> owner_lock n s \<or> \<not> wp_alive s
          then (True, complete_and_release n
                 (Inl (make_error_diagnostic invalid_state ''semaphore acquire owner is not alive'')) s)
          else if sem_permits s \<noteq> 0
          then (True, complete_and_release n (Inr ()) (s\<lparr>sem_permits := sem_permits s - 1\<rparr>))
          else if length (wp_waiters s) \<ge> unat (sem_max_waiters s)
          then (True, complete_and_release n
                 (Inl (make_error_diagnostic resource_exhausted ''semaphore wait queue is full'')) s)
          else (False, s))"

definition sem_enqueue_waiter ::
  "operation \<Rightarrow> 'k \<Rightarrow> 'r \<Rightarrow> ('k, 'r) semaphore \<Rightarrow> bool \<times> ('k, 'r) semaphore" where
  "sem_enqueue_waiter op k r s =
     (case sem_try_complete_immediate op s of
        (True, s1) \<Rightarrow> (False, s1)
      | (False, s1) \<Rightarrow>
          (let n = the op
           in if \<not> owner_lock n s1 \<or> \<not> wp_alive s1
              then (False, complete_and_release n
                 (Inl (make_error_diagnostic invalid_state ''semaphore acquire owner is not alive''))
                 s1)
              else (True, (wp_upd n (\<lambda>w. w\<lparr>w_continuation := Some k, w_scheduler := Some r,
                                          w_enqueued := True\<rparr>) s1)
                           \<lparr>wp_waiters := wp_waiters s1 @ [n]\<rparr>)))"

definition sem_complete_invalid_state ::
  "operation \<Rightarrow> string \<Rightarrow> ('k, 'r) semaphore \<Rightarrow> ('k, 'r) semaphore" where
  "sem_complete_invalid_state op d s =
     (case op of
        None \<Rightarrow> s
      | Some n \<Rightarrow> complete_and_release n (Inl (make_error_diagnostic invalid_state d)) s)"

definition sem_await_ready :: "operation \<Rightarrow> ('k, 'r) semaphore \<Rightarrow> bool \<times> ('k, 'r) semaphore" where
  "sem_await_ready op s = sem_try_complete_immediate op s"

definition sem_await_suspend ::
  "operation \<Rightarrow> 'k \<Rightarrow> 'r option \<Rightarrow> ('k, 'r) semaphore \<Rightarrow> bool \<times> ('k, 'r) semaphore" where
  "sem_await_suspend op k current_scheduler s =
     (case current_scheduler of
        None \<Rightarrow> (False, sem_complete_invalid_state op
                         ''semaphore acquire without a current scheduler'' s)
      | Some r \<Rightarrow> sem_enqueue_waiter op k r s)"

definition sem_await_resume :: "operation \<Rightarrow> ('k, 'r) semaphore \<Rightarrow> void_result \<times> ('k, 'r) semaphore"
  where
  "sem_await_resume op s =
     (case op of
        None \<Rightarrow> (Inl (make_error_diagnostic invalid_state ''empty semaphore acquire operation''), s)
      | Some n \<Rightarrow>
          (let s1 = wp_upd n (\<lambda>w. w\<lparr>w_observing := True, w_continuation := None,
                 w_scheduler := None, w_owner := False, w_reserved := False\<rparr>) s
           in (if wp_at s1 n w_has_result then w_result (the (wp_store s1 n))
               else Inl (make_error_diagnostic invalid_state
                           ''semaphore acquire resumed without completion''), s1)))"

definition add_permits_saturating :: "size_t \<Rightarrow> ('k, 'r) semaphore \<Rightarrow> ('k, 'r) semaphore" where
  "add_permits_saturating permits s =
     (if permits > - 1 - sem_permits s then s\<lparr>sem_permits := - 1\<rparr>
      else s\<lparr>sem_permits := sem_permits s + permits\<rparr>)"

function sem_release_loop ::
  "size_t \<Rightarrow> ('k, 'r) semaphore \<Rightarrow> size_t \<times> ('k, 'r) semaphore" where
  "sem_release_loop remaining s =
     (if remaining \<noteq> 0 \<and> wp_waiters s \<noteq> [] then
        let n = hd (wp_waiters s);
            (ready, s1) = prepare_waiter_for_resume n (s\<lparr>wp_waiters := tl (wp_waiters s)\<rparr>)
        in if \<not> ready then sem_release_loop remaining s1
           else
             let r = waiter_scheduler n s1;
                 s2 = wp_upd n (\<lambda>w. w_complete (Inr ()) (w\<lparr>w_reserved := True, w_enqueued := False\<rparr>)) s1
             in sem_release_loop (remaining - 1) (schedule_waiter n r s2)
      else (remaining, s))"
  by pat_completeness auto
termination
  by (relation "measure (\<lambda>(_, s). length (wp_waiters s))")
    (auto dest: prepare_waiter_shrinks)

declare sem_release_loop.simps [simp del]

definition release_to_state :: "size_t \<Rightarrow> ('k, 'r) semaphore \<Rightarrow> ('k, 'r) semaphore" where
  "release_to_state permits s =
     (if \<not> wp_alive s \<or> permits = 0 then s
      else let (remaining, s1) = sem_release_loop permits s in add_permits_saturating remaining s1)"

definition sem_release :: "size_t \<Rightarrow> ('k, 'r) semaphore \<Rightarrow> ('k, 'r) semaphore" where
  "sem_release permits s = (if \<not> wp_exists s then s else release_to_state permits s)"

definition sem_detach_waiter :: "nat \<Rightarrow> ('k, 'r) semaphore \<Rightarrow> ('k, 'r) semaphore" where
  "sem_detach_waiter n s =
     (if wp_at s n w_enqueued
      then wp_upd n (\<lambda>w. w\<lparr>w_enqueued := False, w_owner := False\<rparr>)
             (s\<lparr>wp_waiters := remove1 n (wp_waiters s)\<rparr>)
      else if wp_at s n w_reserved
      then let s1 = wp_upd n (\<lambda>w. w\<lparr>w_reserved := False, w_owner := False\<rparr>) s
           in if wp_alive s1 then release_to_state 1 s1 else s1
      else wp_upd n (\<lambda>w. w\<lparr>w_owner := False\<rparr>) s)"

definition sem_detach :: "operation \<Rightarrow> ('k, 'r) semaphore \<Rightarrow> ('k, 'r) semaphore" where
  "sem_detach op s =
     (case op of
        None \<Rightarrow> s
      | Some n \<Rightarrow>
          if wp_at s n w_observing then s
          else
            (let s1 = wp_upd n (\<lambda>w. w\<lparr>w_detached := True, w_continuation := None,
                                     w_scheduler := None\<rparr>) s
             in if owner_lock n s1 then sem_detach_waiter n s1
                else wp_upd n (\<lambda>w. w\<lparr>w_owner := False\<rparr>) s1))"

definition sem_move_assign ::
  "operation \<Rightarrow> operation \<Rightarrow> ('k, 'r) semaphore \<Rightarrow> operation \<times> operation \<times> ('k, 'r) semaphore" where
  "sem_move_assign this other s = (other, None, sem_detach this s)"

function sem_close_loop :: "('k, 'r) semaphore \<Rightarrow> ('k, 'r) semaphore" where
  "sem_close_loop s =
     (if wp_waiters s \<noteq> [] then
        let n = hd (wp_waiters s);
            (ready, s1) = prepare_waiter_for_resume n (s\<lparr>wp_waiters := tl (wp_waiters s)\<rparr>)
        in if \<not> ready then sem_close_loop s1
           else
             let r = waiter_scheduler n s1;
                 s2 = wp_upd n (\<lambda>w. w_complete (Inl (make_error_diagnostic invalid_state
                        ''semaphore destroyed with pending acquire''))
                        (w\<lparr>w_owner := False, w_enqueued := False\<rparr>)) s1
             in sem_close_loop (schedule_waiter n r s2)
      else s)"
  by pat_completeness auto
termination
  by (relation "measure (\<lambda>s. length (wp_waiters s))") (auto dest: prepare_waiter_shrinks)

declare sem_close_loop.simps [simp del]

text \<open>\<^verbatim>\<open>~async_semaphore\<close>: the shared state dies with the last strong reference.\<close>

definition sem_destroy :: "('k, 'r) semaphore \<Rightarrow> ('k, 'r) semaphore" where
  "sem_destroy s =
     (if \<not> wp_exists s then s
      else (sem_close_loop (s\<lparr>wp_alive := False\<rparr>))\<lparr>wp_exists := False\<rparr>)"

definition sem_get_permits :: "('k, 'r) semaphore \<Rightarrow> size_t" where
  "sem_get_permits s = (if wp_exists s then sem_permits s else 0)"

definition sem_get_waiters :: "('k, 'r) semaphore \<Rightarrow> nat" where
  "sem_get_waiters s = (if wp_exists s then length (wp_waiters s) else 0)"

definition sem_get_max_waiters :: "('k, 'r) semaphore \<Rightarrow> size_t" where
  "sem_get_max_waiters s = (if wp_exists s then sem_max_waiters s else 0)"

section \<open>Awaiting\<close>

text \<open>\<^verbatim>\<open>co_await semaphore.acquire()\<close>: \<open>None\<close> if the coroutine \<open>k\<close> suspends.\<close>

definition sem_co_acquire ::
  "'k \<Rightarrow> 'r option \<Rightarrow> ('k, 'r) semaphore \<Rightarrow> void_result option \<times> operation \<times> ('k, 'r) semaphore" where
  "sem_co_acquire k current_scheduler s =
     (let (op, s1) = new_operation s; (ready, s2) = sem_await_ready op s1
      in if ready then let (r, s3) = sem_await_resume op s2 in (Some r, op, s3)
         else
           let (suspended, s3) = sem_await_suspend op k current_scheduler s2
           in if suspended then (None, op, s3)
              else let (r, s4) = sem_await_resume op s3 in (Some r, op, s4))"

text \<open>A scheduler runs the scheduled resumption number \<open>i\<close>.\<close>

definition sem_run_job ::
  "nat \<Rightarrow> ('k, 'r) semaphore \<Rightarrow> ('k \<times> void_result) option \<times> ('k, 'r) semaphore" where
  "sem_run_job i s =
     (if i < length (wp_jobs s)
      then
        (let n = fst (wp_jobs s ! i);
             (k, s1) = resume_waiter n (s\<lparr>wp_jobs := take i (wp_jobs s) @ drop (Suc i) (wp_jobs s)\<rparr>)
         in case k of
              None \<Rightarrow> (None, s1)
            | Some k \<Rightarrow> let (r, s2) = sem_await_resume (Some n) s1 in (Some (k, r), s2))
      else (None, s))"


section \<open>Invariant\<close>

definition sem_handed :: "('k, 'r) waiter_state \<Rightarrow> bool" where
  "sem_handed w \<longleftrightarrow> w_has_result w \<and> w_result w = Inr () \<and> w_owner w"

definition sem_inv :: "('k, 'r) semaphore \<Rightarrow> bool" where
  "sem_inv s \<longleftrightarrow> wp_inv sem_handed s \<and> wp_alive s \<and> wp_exists s \<and>
     (sem_permits s \<noteq> 0 \<longrightarrow> wp_waiters s = []) \<and> length (wp_waiters s) \<le> unat (sem_max_waiters s)"

definition sem_available :: "('k, 'r) semaphore \<Rightarrow> nat" where
  "sem_available s = unat (sem_permits s) + reserved_count s"

lemma sem_fields_upd [simp]:
  "sem_permits (wp_upd n f s) = sem_permits s"
  "sem_max_waiters (wp_upd n f s) = sem_max_waiters s"
  "sem_permits (schedule_waiter n r s) = sem_permits s"
  "sem_max_waiters (schedule_waiter n r s) = sem_max_waiters s"
  by (simp_all add: wp_upd_def schedule_waiter_def)

lemma sem_inv_create: "sem_inv (sem_create accepts p m)"
  by (simp add: sem_inv_def sem_create_def wp_inv_def job_ids_def)

lemma sem_release_loop_0: "sem_release_loop 0 s = (0, s)"
  by (subst sem_release_loop.simps) simp

text \<open>One turn of the release loop: the first waiter is handed a permit.\<close>

definition hand_over :: "nat \<Rightarrow> ('k, 'r) semaphore \<Rightarrow> ('k, 'r) semaphore" where
  "hand_over n s = schedule_waiter n (waiter_scheduler n s)
     (wp_upd n (\<lambda>w. w_complete (Inr ()) (w\<lparr>w_reserved := True, w_enqueued := False\<rparr>))
       (s\<lparr>wp_waiters := tl (wp_waiters s)\<rparr>))"

lemma release_loop_turn:
  assumes "wp_inv sem_handed s" and "wp_waiters s = n # ws" and "remaining \<noteq> 0"
  shows "sem_release_loop remaining s = sem_release_loop (remaining - 1) (hand_over n s)"
proof -
  obtain w where w: "wp_store s n = Some w" "waiting w"
    using queued_waiting [OF assms(1), of n] assms(2) by auto
  have "prepare_waiter_for_resume n (s\<lparr>wp_waiters := ws\<rparr>) =
      (True, wp_upd n (\<lambda>w. w\<lparr>w_enqueued := False\<rparr>) (s\<lparr>wp_waiters := ws\<rparr>))"
    using prepare_queued [of "s\<lparr>wp_waiters := ws\<rparr>" n w] w by simp
  moreover have "waiter_scheduler n (wp_upd n (\<lambda>w. w\<lparr>w_enqueued := False\<rparr>) (s\<lparr>wp_waiters := ws\<rparr>)) =
      waiter_scheduler n s"
    using w by (simp add: waiter_scheduler_def wp_store_upd)
  ultimately show ?thesis
    using assms(2,3)
    by (subst sem_release_loop.simps) (simp add: hand_over_def wp_upd_upd comp_def)
qed

lemma hand_over_frame [simp]:
  "sem_permits (hand_over n s) = sem_permits s"
  "sem_max_waiters (hand_over n s) = sem_max_waiters s"
  "wp_alive (hand_over n s) = wp_alive s" "wp_exists (hand_over n s) = wp_exists s"
  "wp_waiters (hand_over n s) = tl (wp_waiters s)"
  by (simp_all add: hand_over_def)

lemma hand_over_inv:
  assumes inv: "wp_inv sem_handed s" and ws: "wp_waiters s = n # ws"
  shows "wp_inv sem_handed (hand_over n s)"
    and "reserved_set (hand_over n s) = insert n (reserved_set s)"
proof -
  obtain w where w: "wp_store s n = Some w" "waiting w"
    using queued_waiting [OF inv, of n] ws by auto
  show "wp_inv sem_handed (hand_over n s)"
    by (rule wp_inv_change [OF inv, where n = n and
          f = "\<lambda>w. w_complete (Inr ()) (w\<lparr>w_reserved := True, w_enqueued := False\<rparr>)"])
      (use inv ws w in \<open>auto simp: hand_over_def wp_upd_def wp_inv_def w_complete_def sem_handed_def
        waiting_def settled_def schedule_waiter_def job_ids_def split: if_splits\<close>)
  show "reserved_set (hand_over n s) = insert n (reserved_set s)"
    using w by (auto simp: hand_over_def reserved_set_def wp_at_def wp_store_upd w_complete_def
        waiting_def)
qed

lemma release_loop_spec:
  assumes "wp_inv sem_handed s" and "sem_release_loop remaining s = (remaining', s')"
  shows "wp_inv sem_handed s' \<and>
    unat remaining' = unat remaining - length (wp_waiters s) \<and>
    wp_waiters s' = drop (unat remaining) (wp_waiters s) \<and>
    reserved_set s' = reserved_set s \<union> set (take (unat remaining) (wp_waiters s)) \<and>
    sem_permits s' = sem_permits s \<and> sem_max_waiters s' = sem_max_waiters s \<and>
    wp_alive s' = wp_alive s \<and> wp_exists s' = wp_exists s"
  using assms
proof (induction "wp_waiters s" arbitrary: s remaining)
  case Nil
  then show ?case by (simp add: sem_release_loop.simps [of remaining s])
next
  case (Cons n ws)
  note ws = Cons.hyps(2) [symmetric]
  show ?case
  proof (cases "remaining = 0")
    case True
    then show ?thesis using Cons.prems ws by (simp add: sem_release_loop.simps [of 0 s])
  next
    case False
    have rem: "unat remaining = Suc (unat (remaining - 1))"
      using False by (simp add: unat_minus_one unat_gt_0)
    note h = hand_over_inv [OF Cons.prems(1) ws]
    have "sem_release_loop (remaining - 1) (hand_over n s) = (remaining', s')"
      using Cons.prems(2) release_loop_turn [OF Cons.prems(1) ws False] by simp
    from Cons.hyps(1) [OF _ h(1) this] show ?thesis
      using ws h(2) rem by auto
  qed
qed

lemma release_to_state_spec:
  assumes inv: "sem_inv s" and bound: "sem_available s + unat permits < 2 ^ 64"
  shows "sem_inv (release_to_state permits s)"
    and "sem_available (release_to_state permits s) = sem_available s + unat permits"
proof -
  obtain remaining s1 where loop: "sem_release_loop permits s = (remaining, s1)" by fastforce
  have wp: "wp_inv sem_handed s" using inv by (simp add: sem_inv_def)
  note spec = release_loop_spec [OF wp loop]
  let ?k = "min (unat permits) (length (wp_waiters s))"
  have "card (set (take (unat permits) (wp_waiters s))) = ?k"
    using wp by (simp add: wp_inv_def distinct_card)
  moreover have "reserved_set s \<inter> set (take (unat permits) (wp_waiters s)) = {}"
    using queued_not_reserved [OF wp] set_take_subset by fastforce
  ultimately have card: "reserved_count s1 = reserved_count s + ?k"
    using spec finite_reserved [OF wp] by (simp add: reserved_count_def card_Un_disjoint)
  have sum: "unat (sem_permits s) + unat remaining < 2 ^ 64"
    using bound spec by (simp add: sem_available_def)
  have "\<not> remaining > - 1 - sem_permits s"
  proof -
    have "unat (- 1 - sem_permits s) = 2 ^ 64 - 1 - unat (sem_permits s)"
      using unat_sub [of "sem_permits s" "- 1"] unat_max_size by simp
    then show ?thesis using sum by (simp add: word_less_nat_alt)
  qed
  then have add: "add_permits_saturating remaining s1 = s1\<lparr>sem_permits := sem_permits s + remaining\<rparr>"
    using spec by (simp add: add_permits_saturating_def)
  have plus: "unat (sem_permits s + remaining) = unat (sem_permits s) + unat remaining"
    using sum by (intro unat_add_lem [THEN iffD1]) simp
  have res: "release_to_state permits s =
      (if permits = 0 then s else s1\<lparr>sem_permits := sem_permits s + remaining\<rparr>)"
    using inv add loop by (simp add: release_to_state_def sem_inv_def)
  have "wp_inv sem_handed (s1\<lparr>sem_permits := p\<rparr>) = wp_inv sem_handed s1" for p
    by (simp add: wp_inv_def wp_at_def job_ids_def)
  moreover have "wp_waiters s1 = []" if "sem_permits s + remaining \<noteq> 0"
  proof (cases "remaining = 0")
    case True
    then show ?thesis using that inv spec by (simp add: sem_inv_def)
  next
    case False
    then show ?thesis using spec by (simp add: unat_gt_0 [symmetric])
  qed
  ultimately show "sem_inv (release_to_state permits s)"
    using inv spec by (auto simp: res sem_inv_def)
  have "reserved_count (s1\<lparr>sem_permits := p\<rparr>) = reserved_count s1" for p
    by (simp add: reserved_count_def reserved_set_def wp_at_def)
  then show "sem_available (release_to_state permits s) = sem_available s + unat permits"
    using spec card plus by (auto simp: res sem_available_def)
qed

section \<open>Steps\<close>

lemma sem_frame:
  "wp_inv h (s\<lparr>sem_permits := p\<rparr>) = wp_inv h s" "reserved_set (s\<lparr>sem_permits := p\<rparr>) = reserved_set s"
  "wp_store (s\<lparr>sem_permits := p\<rparr>) = wp_store s"
  by (simp_all add: wp_inv_def wp_at_def reserved_set_def job_ids_def)

lemma sem_try_acquire_spec:
  assumes "sem_inv s" and "sem_try_acquire s = (r, s')"
  shows "case r of Inl _ \<Rightarrow> s' = s
    | Inr _ \<Rightarrow> sem_inv s' \<and> sem_available s' + 1 = sem_available s"
proof (cases "sem_permits s = 0")
  case True
  then show ?thesis using assms by (auto simp: sem_try_acquire_def sem_inv_def)
next
  case False
  then have "unat (sem_permits s - 1) + 1 = unat (sem_permits s)"
    by (simp add: unat_minus_one unat_gt_0)
  then show ?thesis
    using assms False
    by (auto simp: sem_try_acquire_def sem_inv_def sem_frame sem_available_def reserved_count_def)
qed

text \<open>The three outcomes of awaiting an acquisition.\<close>

lemma sem_co_acquire_spec:
  assumes inv: "sem_inv s" and co: "sem_co_acquire k sch s = (r, op, s')"
  shows "sem_inv s' \<and> op = Some (wp_next s) \<and>
    sem_available s' + (if r = Some (Inr ()) then 1 else 0) = sem_available s \<and>
    (r = Some (Inr ()) \<longleftrightarrow> sem_permits s \<noteq> 0) \<and>
    (r = None \<longrightarrow> wp_waiters s' = wp_waiters s @ [wp_next s])"
proof -
  let ?n = "wp_next s"
  have wp: "wp_inv sem_handed s" and alive: "wp_alive s" "wp_exists s"
    using inv by (simp_all add: sem_inv_def)
  define s1 where "s1 = s\<lparr>wp_store := (wp_store s)(?n \<mapsto> w_init True), wp_next := ?n + 1\<rparr>"
  note eval = sem_co_acquire_def new_operation_def sem_await_ready_def
    sem_try_complete_immediate_def sem_await_resume_def sem_await_suspend_def
    sem_enqueue_waiter_def sem_complete_invalid_state_def Let_def wp_at_def owner_lock_def
    complete_and_release_def w_init_def w_complete_def wp_upd_def
  have done_inv: "sem_inv t \<and> reserved_count t = reserved_count s"
    if "wp_store t = (wp_store s)(?n \<mapsto> w)" "wp_next t = ?n + 1" "wp_jobs t = wp_jobs s"
      "\<not> w_reserved w" "settled w" "if w_enqueued w then waiting w \<and> wp_waiters t = wp_waiters s @ [?n]
        else wp_waiters t = wp_waiters s" "wp_alive t" "wp_exists t"
      "sem_permits t \<noteq> 0 \<longrightarrow> wp_waiters t = []" "length (wp_waiters t) \<le> unat (sem_max_waiters t)"
    for t w
    using wp_inv_fresh [OF wp that(1-6)] that(7-10) by (simp add: sem_inv_def reserved_count_def)
  consider (permit) "sem_permits s \<noteq> 0"
    | (full) "sem_permits s = 0" "unat (sem_max_waiters s) \<le> length (wp_waiters s)"
    | (no_scheduler) "sem_permits s = 0" "length (wp_waiters s) < unat (sem_max_waiters s)" "sch = None"
    | (queued) r0 where "sem_permits s = 0" "length (wp_waiters s) < unat (sem_max_waiters s)"
        "sch = Some r0"
    using not_less by fastforce
  then show ?thesis
  proof cases
    case permit
    then have dec: "unat (sem_permits s - 1) + 1 = unat (sem_permits s)"
      by (simp add: unat_minus_one unat_gt_0)
    have s': "r = Some (Inr ())" "op = Some ?n" "wp_next s' = ?n + 1" "wp_jobs s' = wp_jobs s"
      "wp_waiters s' = wp_waiters s" "wp_alive s'" "wp_exists s'"
      "sem_permits s' = sem_permits s - 1" "sem_max_waiters s' = sem_max_waiters s"
      "\<exists>w. wp_store s' = (wp_store s)(?n \<mapsto> w) \<and> \<not> w_reserved w \<and> settled w \<and> \<not> w_enqueued w"
      using co permit alive by (auto simp: eval settled_def)
    then show ?thesis
      using done_inv [of s'] inv permit dec by (auto simp: sem_inv_def sem_available_def)
  next
    case full
    have s': "\<exists>e. r = Some (Inl e)" "op = Some ?n" "wp_next s' = ?n + 1" "wp_jobs s' = wp_jobs s"
      "wp_waiters s' = wp_waiters s" "wp_alive s'" "wp_exists s'"
      "sem_permits s' = sem_permits s" "sem_max_waiters s' = sem_max_waiters s"
      "\<exists>w. wp_store s' = (wp_store s)(?n \<mapsto> w) \<and> \<not> w_reserved w \<and> settled w \<and> \<not> w_enqueued w"
      using co full alive by (auto simp: eval settled_def)
    then show ?thesis
      using done_inv [of s'] inv full by (auto simp: sem_inv_def sem_available_def)
  next
    case no_scheduler
    have s': "\<exists>e. r = Some (Inl e)" "op = Some ?n" "wp_next s' = ?n + 1" "wp_jobs s' = wp_jobs s"
      "wp_waiters s' = wp_waiters s" "wp_alive s'" "wp_exists s'"
      "sem_permits s' = sem_permits s" "sem_max_waiters s' = sem_max_waiters s"
      "\<exists>w. wp_store s' = (wp_store s)(?n \<mapsto> w) \<and> \<not> w_reserved w \<and> settled w \<and> \<not> w_enqueued w"
      using co no_scheduler alive by (auto simp: eval settled_def)
    then show ?thesis
      using done_inv [of s'] inv no_scheduler by (auto simp: sem_inv_def sem_available_def)
  next
    case (queued r0)
    have s': "r = None" "op = Some ?n" "wp_next s' = ?n + 1" "wp_jobs s' = wp_jobs s"
      "wp_waiters s' = wp_waiters s @ [?n]" "wp_alive s'" "wp_exists s'"
      "sem_permits s' = sem_permits s" "sem_max_waiters s' = sem_max_waiters s"
      "\<exists>w. wp_store s' = (wp_store s)(?n \<mapsto> w) \<and> \<not> w_reserved w \<and> settled w \<and> w_enqueued w \<and> waiting w"
      using co queued alive by (auto simp: eval waiting_def settled_def)
    then show ?thesis
      using done_inv [of s'] inv queued by (auto simp: sem_inv_def sem_available_def)
  qed
qed

lemma sem_await_resume_spec:
  assumes inv: "sem_inv s" and n: "n \<notin> set (wp_waiters s)"
    and res: "sem_await_resume (Some n) s = (r, s')"
    and w: "wp_store s n = Some w" "\<not> w_observing w" "\<not> w_detached w"
  shows "sem_inv s' \<and> sem_available s' + (if r = Inr () then 1 else 0) = sem_available s"
proof -
  let ?f = "\<lambda>w. w\<lparr>w_observing := True, w_continuation := None, w_scheduler := None,
    w_owner := False, w_reserved := False\<rparr>"
  have wp: "wp_inv sem_handed s" using inv by (simp add: sem_inv_def)
  have s': "s' = wp_upd n ?f s"
    using res by (auto simp: sem_await_resume_def Let_def)
  have ne: "\<not> w_enqueued w"
    using wp w(1) n by (auto simp: wp_inv_def)
  have "wp_inv sem_handed s'"
    by (rule wp_inv_change [OF wp, where n = n and f = ?f])
      (use wp w n ne in \<open>auto simp: s' wp_upd_def wp_inv_def job_ids_def settled_def\<close>)
  moreover have "reserved_count s' + (if w_reserved w then 1 else 0) = reserved_count s"
    using unreserve_count [OF wp w(1), of ?f] by (simp add: s')
  moreover have "r = Inr () \<longleftrightarrow> w_reserved w"
    using res w wp by (auto simp: sem_await_resume_def Let_def wp_at_def wp_store_upd wp_inv_def
        sem_handed_def settled_def split: if_splits)
  ultimately show ?thesis
    using inv by (auto simp: s' sem_inv_def sem_available_def)
qed

lemma sem_run_job_spec:
  assumes inv: "sem_inv s" and run: "sem_run_job i s = (r, s')"
  shows "sem_inv s' \<and>
    sem_available s' + (case r of Some (_, Inr _) \<Rightarrow> 1 | _ \<Rightarrow> 0) = sem_available s"
proof (cases "i < length (wp_jobs s)")
  case False
  then show ?thesis using inv run by (auto simp: sem_run_job_def)
next
  case True
  define n where "n = fst (wp_jobs s ! i)"
  define s0 where "s0 = s\<lparr>wp_jobs := take i (wp_jobs s) @ drop (Suc i) (wp_jobs s)\<rparr>"
  have n: "n \<notin> set (wp_waiters s)"
    using inv True by (auto simp: n_def sem_inv_def wp_inv_def job_ids_def)
  have "set (wp_jobs s0) \<subseteq> set (wp_jobs s)"
    by (auto simp: s0_def dest: in_set_takeD in_set_dropD)
  then have "job_ids s0 \<subseteq> job_ids s" by (auto simp: job_ids_def)
  then have inv0: "sem_inv s0" "sem_available s0 = sem_available s"
    using inv by (auto simp: s0_def sem_inv_def wp_inv_def wp_at_def sem_available_def
        reserved_count_def reserved_set_def)
  show ?thesis
  proof (cases "wp_at s0 n (\<lambda>w. \<not> w_detached w \<and> \<not> w_observing w \<and> w_continuation w \<noteq> None)")
    case False
    then show ?thesis
      using run True inv0 by (auto simp: sem_run_job_def resume_waiter_def n_def s0_def Let_def)
  next
    case resumed: True
    then obtain w k where w: "wp_store s0 n = Some w" "\<not> w_detached w" "\<not> w_observing w"
      "w_continuation w = Some k"
      by (auto simp: wp_at_def split: option.splits)
    let ?f = "\<lambda>w. w\<lparr>w_continuation := None, w_scheduler := None\<rparr>"
    let ?s1 = "wp_upd n ?f s0"
    have wp0: "wp_inv sem_handed s0" using inv0(1) by (simp add: sem_inv_def)
    have ne: "\<not> w_enqueued w" "n \<notin> set (wp_waiters s0)"
      using wp0 w(1) n by (auto simp: wp_inv_def s0_def)
    have "wp_inv sem_handed ?s1"
      by (rule wp_inv_change [OF wp0, where n = n and f = ?f])
        (use wp0 w ne in \<open>auto simp: wp_upd_def wp_inv_def job_ids_def settled_def sem_handed_def\<close>)
    moreover have "reserved_set ?s1 = reserved_set s0"
      using w by (auto simp: wp_store_upd wp_at_def reserved_set_def split: if_splits)
    ultimately have inv1: "sem_inv ?s1" "sem_available ?s1 = sem_available s"
      using inv0 by (simp_all add: sem_inv_def sem_available_def reserved_count_def)
    obtain v where v: "sem_await_resume (Some n) ?s1 = (v, s')" "r = Some (k, v)"
      using run True resumed w
      by (auto simp: sem_run_job_def resume_waiter_def n_def [symmetric] s0_def [symmetric] Let_def
          split: prod.splits)
    have "sem_inv s' \<and> sem_available s' + (if v = Inr () then 1 else 0) = sem_available ?s1"
      by (rule sem_await_resume_spec [OF inv1(1) _ v(1), where w = "?f w"])
        (use ne w in \<open>simp_all add: wp_store_upd\<close>)
    then show ?thesis using inv1(2) v(2) by (cases v) auto
  qed
qed

lemma sem_detach_spec:
  assumes inv: "sem_inv s" and bound: "sem_available s < 2 ^ 64"
  shows "sem_inv (sem_detach (Some n) s) \<and> sem_available (sem_detach (Some n) s) = sem_available s"
proof -
  let ?d = "\<lambda>w. w\<lparr>w_detached := True, w_continuation := None, w_scheduler := None\<rparr>"
  have wp: "wp_inv sem_handed s" and alive: "wp_alive s" "wp_exists s"
    using inv by (simp_all add: sem_inv_def)
  note eval = sem_detach_def sem_detach_waiter_def owner_lock_def wp_at_def wp_store_upd Let_def
    wp_upd_upd comp_def
  show ?thesis
  proof (cases "wp_store s n")
    case None
    then have "sem_detach (Some n) s = s"
      by (auto simp: eval) (simp add: wp_upd_def None fun_upd_idem)
    then show ?thesis using inv by simp
  next
    case (Some w)
    consider (observed) "w_observing w" | (enqueued) "\<not> w_observing w" "w_enqueued w"
      | (reserved) "\<not> w_observing w" "\<not> w_enqueued w" "w_reserved w"
      | (idle) "\<not> w_observing w" "\<not> w_enqueued w" "\<not> w_reserved w" by blast
    then show ?thesis
    proof cases
      case observed
      then show ?thesis using Some inv by (simp add: eval)
    next
      case enqueued
      then have q: "n \<in> set (wp_waiters s)" using wp Some by (auto simp: wp_inv_def)
      then have wt: "waiting w" using queued_waiting [OF wp q] Some by simp
      let ?f = "\<lambda>w. (?d w)\<lparr>w_enqueued := False, w_owner := False\<rparr>"
      let ?s' = "wp_upd n ?f (s\<lparr>wp_waiters := remove1 n (wp_waiters s)\<rparr>)"
      have eq: "sem_detach (Some n) s = ?s'"
        using enqueued Some wt alive by (simp add: eval waiting_def) (simp add: wp_upd_def Some)
      have "wp_inv sem_handed ?s'"
        by (rule wp_inv_change [OF wp, where n = n and f = ?f])
          (use wp Some wt in \<open>auto simp: wp_upd_def wp_inv_def job_ids_def settled_def waiting_def
            set_remove1_eq\<close>)
      moreover have "reserved_set ?s' = reserved_set s"
        using Some wt by (auto simp: reserved_set_def wp_at_def wp_store_upd waiting_def)
      ultimately show ?thesis
        using inv q unfolding eq
        by (auto simp: sem_inv_def sem_available_def reserved_count_def length_remove1)
    next
      case reserved
      then have h: "sem_handed w" "n \<notin> set (wp_waiters s)"
        using wp Some not_enqueued_not_queued [OF wp Some] by (auto simp: wp_inv_def)
      let ?f = "\<lambda>w. (?d w)\<lparr>w_reserved := False, w_owner := False\<rparr>"
      let ?s' = "wp_upd n ?f s"
      have eq: "sem_detach (Some n) s = release_to_state 1 ?s'"
        using reserved Some h alive by (simp add: eval sem_handed_def)
      have "wp_inv sem_handed ?s'"
        by (rule wp_inv_change [OF wp, where n = n and f = ?f])
          (use wp Some reserved h in \<open>auto simp: wp_upd_def wp_inv_def job_ids_def settled_def\<close>)
      then have "sem_inv ?s'" using inv by (simp add: sem_inv_def)
      moreover have "sem_available ?s' + 1 = sem_available s"
        using unreserve_count [OF wp Some, of ?f] reserved by (simp add: sem_available_def)
      ultimately show ?thesis
        using release_to_state_spec [of ?s' 1] bound unfolding eq by simp
    next
      case idle
      let ?f = "\<lambda>w. (?d w)\<lparr>w_owner := False\<rparr>"
      let ?s' = "wp_upd n ?f s"
      have eq: "sem_detach (Some n) s = ?s'" using idle Some by (simp add: eval)
      have "wp_inv sem_handed ?s'"
        by (rule wp_inv_change [OF wp, where n = n and f = ?f])
          (use wp Some idle not_enqueued_not_queued [OF wp Some] in
            \<open>auto simp: wp_upd_def wp_inv_def job_ids_def settled_def\<close>)
      moreover have "reserved_count ?s' = reserved_count s"
        using unreserve_count [OF wp Some, of ?f] idle by simp
      ultimately show ?thesis
        using inv unfolding eq by (simp add: sem_inv_def sem_available_def)
    qed
  qed
qed

section \<open>Runs\<close>

datatype ('k, 'r) sem_op =
    Try_acquire
  | Co_acquire 'k "'r option"
  | Release size_t
  | Run_job nat
  | Drop_operation nat

text \<open>One call, with the permits it acquires for the caller and those the caller gives back.\<close>

fun sem_step :: "('k, 'r) sem_op \<Rightarrow> ('k, 'r) semaphore \<Rightarrow> nat \<times> nat \<times> ('k, 'r) semaphore" where
  "sem_step Try_acquire s =
     (let (r, s') = sem_try_acquire s in (case r of Inl _ \<Rightarrow> 0 | Inr _ \<Rightarrow> 1, 0, s'))"
| "sem_step (Co_acquire k sch) s =
     (let (r, op, s') = sem_co_acquire k sch s in (if r = Some (Inr ()) then 1 else 0, 0, s'))"
| "sem_step (Release n) s = (0, unat n, sem_release n s)"
| "sem_step (Run_job i) s =
     (let (r, s') = sem_run_job i s in (case r of Some (_, Inr _) \<Rightarrow> 1 | _ \<Rightarrow> 0, 0, s'))"
| "sem_step (Drop_operation n) s = (0, 0, sem_detach (Some n) s)"

interpretation sem: permit_account sem_step sem_available "2 ^ 64 - 1" sem_inv
proof
  fix s s' :: "('k, 'r) semaphore" and op a r
  assume *: "sem_inv s" "sem_step op s = (a, r, s')" "sem_available s + r \<le> 2 ^ 64 - 1"
  then have bound: "sem_available s + r < 2 ^ 64" by simp
  show "sem_inv s' \<and> sem_available s' + a = sem_available s + r"
  proof (cases op)
    case Try_acquire
    then show ?thesis
      using *(1,2) sem_try_acquire_spec [OF *(1)] by (auto split: prod.splits sum.splits)
  next
    case (Co_acquire k sch)
    then show ?thesis
      using *(2) sem_co_acquire_spec [OF *(1), of k sch] by (auto split: prod.splits)
  next
    case (Release n)
    then show ?thesis
      using *(1,2) bound release_to_state_spec [OF *(1), of n]
      by (auto simp: sem_release_def sem_inv_def)
  next
    case (Run_job i)
    then show ?thesis
      using *(2) sem_run_job_spec [OF *(1), of i] by (auto split: prod.splits)
  next
    case (Drop_operation n)
    then show ?thesis
      using *(2) bound sem_detach_spec [OF *(1), of n] by auto
  qed
qed

section \<open>Theorems\<close>

text \<open>
  Release hands permits to the waiters in arrival order: on a live semaphore with a
  consistent state, releasing \<open>n\<close> permits pops the first \<open>n\<close> waiters, or all if fewer wait,
  reserves a permit for exactly these, keeps the rest in order, and adds only what is left
  over to the counter, which saturates instead of wrapping.
\<close>

theorem semaphore_release_fifo:
  assumes "sem_inv s" and "0 < unat n"
  shows "wp_waiters (sem_release n s) = drop (unat n) (wp_waiters s) \<and>
    {k. wp_at (sem_release n s) k w_reserved} =
      {k. wp_at s k w_reserved} \<union> set (take (unat n) (wp_waiters s)) \<and>
    unat (sem_permits (sem_release n s)) =
      min (2 ^ 64 - 1) (unat (sem_permits s) + (unat n - length (wp_waiters s)))"
proof -
  obtain rest s1 where loop: "sem_release_loop n s = (rest, s1)" by fastforce
  have wp: "wp_inv sem_handed s" using assms(1) by (simp add: sem_inv_def)
  note spec = release_loop_spec [OF wp loop]
  have eq: "sem_release n s = add_permits_saturating rest s1"
    using assms loop by (auto simp: sem_release_def release_to_state_def sem_inv_def)
  have "unat (sem_permits (add_permits_saturating rest s1)) =
      min (2 ^ 64 - 1) (unat (sem_permits s1) + unat rest)"
  proof -
    have sub: "unat (- 1 - sem_permits s1) = 2 ^ 64 - 1 - unat (sem_permits s1)"
      using unat_sub [of "sem_permits s1" "- 1"] unat_max_size by simp
    show ?thesis
    proof (cases "rest > - 1 - sem_permits s1")
      case True
      then show ?thesis using sub unat_max_size
        by (simp add: add_permits_saturating_def word_less_nat_alt)
    next
      case False
      have "unat (sem_permits s1) < 2 ^ 64" using unsigned_less [of "sem_permits s1"] by simp
      then have "unat (sem_permits s1) + unat rest < 2 ^ 64"
        using sub False by (simp add: word_less_nat_alt)
      then have "unat (sem_permits s1 + rest) = unat (sem_permits s1) + unat rest"
        by (intro unat_add_lem [THEN iffD1]) simp
      then show ?thesis
        using False \<open>unat (sem_permits s1) + unat rest < 2 ^ 64\<close>
        by (simp add: add_permits_saturating_def)
    qed
  qed
  moreover have "wp_waiters (add_permits_saturating rest s1) = wp_waiters s1"
    "wp_store (add_permits_saturating rest s1) = wp_store s1"
    by (simp_all add: add_permits_saturating_def)
  ultimately show ?thesis
    using spec by (simp add: eq reserved_set_def wp_at_def)
qed

theorem semaphore_release_fifo_witness:
  "unat (sem_permits (sem_release 3 (sem_create (\<lambda>_. True) (- 1) 1 :: (nat, unit) semaphore))) =
     2 ^ 64 - 1"
proof -
  have "sem_inv (sem_create (\<lambda>_. True) (- 1) 1 :: (nat, unit) semaphore)"
    by (rule sem_inv_create)
  from semaphore_release_fifo [OF this, of 3] show ?thesis
    by (simp add: sem_create_def unat_max_size)
qed

text \<open>
  C25. Permits are conserved as long as no release would exceed the range of the counter. In any
  sequence of calls on a semaphore, with waiters suspended, resumed and abandoned at any point,
  in which no release takes the permits not held beyond \<^verbatim>\<open>SIZE_MAX\<close>: free permits, permits reserved
  for a resumed waiter and permits acquired add up to the initial permits and the released ones;
  so permits are neither lost nor invented. Free permits and queued waiters never coexist, and the
  queue respects its limit. A release beyond the range saturates: the waiters are served first and
  the counter stops at its maximum, so that then permits are dropped.
\<close>

theorem semaphore_conserves_permits:
  assumes "disciplined sem_step sem_available (2 ^ 64 - 1) ops (sem_create accepts p m)"
    and "account_run sem_step ops (sem_create accepts p m) = (acquired, released, s)"
  shows "unat (sem_permits s) + card {n. wp_at s n w_reserved} + acquired = unat p + released \<and>
    (sem_permits s \<noteq> 0 \<longrightarrow> wp_waiters s = []) \<and>
    length (wp_waiters s) \<le> unat (sem_max_waiters s) \<and> distinct (wp_waiters s) \<and>
    unat (sem_permits (sem_release n s)) =
      min (2 ^ 64 - 1) (unat (sem_permits s) + (unat n - length (wp_waiters s)))"
proof -
  have "sem_available (sem_create accepts p m :: ('a, 'b) semaphore) = unat p"
    by (simp add: sem_available_def sem_create_def reserved_count_def reserved_set_def wp_at_def)
  then have run: "sem_inv s" "sem_available s + acquired = unat p + released"
    using sem.run_conserves [OF sem_inv_create assms] by simp_all
  have "unat (sem_permits s) < 2 ^ 64" using unsigned_less [of "sem_permits s"] by simp
  then have "unat (sem_permits (sem_release n s)) =
      min (2 ^ 64 - 1) (unat (sem_permits s) + (unat n - length (wp_waiters s)))"
    using semaphore_release_fifo [OF run(1), of n] run(1)
    by (cases "n = 0") (simp_all add: sem_release_def release_to_state_def sem_inv_def unat_gt_0)
  then show ?thesis
    using run by (simp add: sem_available_def reserved_count_def reserved_set_def sem_inv_def wp_inv_def)
qed

theorem semaphore_conserves_permits_witness:
  "\<exists>s. account_run sem_step [Try_acquire, Co_acquire 7 (Some ()), Release 1, Run_job 0]
      (sem_create (\<lambda>_. True) 1 1 :: (nat, unit) semaphore) = (2, 1, s) \<and>
    unat (sem_permits s) + card {n. wp_at s n w_reserved} = 0 \<and>
    unat (sem_permits (sem_release (- 1) s)) = 2 ^ 64 - 1"
proof -
  let ?s0 = "sem_create (\<lambda>_. True) 1 1 :: (nat, unit) semaphore"
  let ?ops = "[Try_acquire, Co_acquire 7 (Some ()), Release 1, Run_job 0] :: (nat, unit) sem_op list"
  let ?s1 = "?s0\<lparr>sem_permits := 0\<rparr>"
  let ?w2 = "(w_init True)\<lparr>w_continuation := Some 7, w_scheduler := Some (), w_enqueued := True\<rparr>"
  let ?s2 = "?s1\<lparr>wp_store := [0 \<mapsto> ?w2], wp_next := 1, wp_waiters := [0]\<rparr>"
  let ?w3 = "?w2\<lparr>w_enqueued := False, w_reserved := True, w_has_result := True\<rparr>"
  let ?s3 = "?s2\<lparr>wp_store := [0 \<mapsto> ?w3], wp_waiters := [], wp_jobs := [(0, ())]\<rparr>"
  let ?w4 = "?w3\<lparr>w_continuation := None, w_scheduler := None, w_observing := True, w_owner := False,
    w_reserved := False\<rparr>"
  let ?s4 = "?s3\<lparr>wp_store := [0 \<mapsto> ?w4], wp_jobs := []\<rparr>"
  have steps: "sem_step Try_acquire ?s0 = (1, 0, ?s1)"
    "sem_step (Co_acquire 7 (Some ())) ?s1 = (0, 0, ?s2)"
    "sem_step (Run_job 0) ?s3 = (1, 0, ?s4)"
    by (simp_all add: sem_create_def sem_try_acquire_def sem_co_acquire_def new_operation_def
        sem_await_ready_def sem_try_complete_immediate_def wp_at_def owner_lock_def w_init_def
        sem_await_suspend_def sem_enqueue_waiter_def wp_upd_def sem_run_job_def resume_waiter_def
        sem_await_resume_def Let_def)
  have "sem_release_loop 1 ?s2 = (0, ?s3)"
    by (subst sem_release_loop.simps) (simp add: sem_create_def prepare_waiter_for_resume_def wp_upd_def
        wp_at_def w_init_def waiter_scheduler_def w_complete_def schedule_waiter_def sem_release_loop_0 Let_def)
  then have release: "sem_step (Release 1) ?s2 = (0, 1, ?s3)"
    by (simp add: sem_release_def release_to_state_def add_permits_saturating_def sem_create_def)
  have run: "account_run sem_step ?ops ?s0 = (2, 1, ?s4)"
    by (simp only: account_run.simps steps release Let_def prod.case) simp
  have avail: "sem_available ?s0 = 1" "sem_available ?s1 = 0" "sem_available ?s2 = 0"
    "sem_available ?s3 \<le> 1"
    by (simp_all add: sem_available_def reserved_count_def reserved_set_def wp_at_def sem_create_def
        w_init_def cong: conj_cong)
  have disc: "disciplined sem_step sem_available (2 ^ 64 - 1) ?ops ?s0"
    using avail by (simp only: disciplined.simps steps release Let_def prod.case) simp
  note all = semaphore_conserves_permits [OF disc run, of "- 1"]
  then have "unat (sem_permits ?s4) + card {n. wp_at ?s4 n w_reserved} = 0" by simp
  moreover have "wp_waiters ?s4 = []" "sem_permits ?s4 = 0" by simp_all
  ultimately show ?thesis using all run by (intro exI [of _ ?s4]) (simp add: unat_max_size)
qed

end
