(* ===== verification/Async_Mutex.thy ===== *)
theory Async_Mutex
  imports Waiter
begin

text \<open>
  \<^verbatim>\<open>include/voris/io/async_mutex.hpp\<close>: an asynchronous mutex with direct hand-off, used on one
  scheduler. Its waiter states and their queue are those of \<open>Waiter\<close>; \<^verbatim>\<open>lock_reserved\<close> is
  \<open>w_reserved\<close>. Unlike the semaphore's, a waiter's result is only stored when its resumption
  runs, so that destroying the mutex can still fail it.
\<close>

section \<open>Operations\<close>

record ('k, 'r) async_mutex = "('k, 'r) waiter_pool" +
  mx_locked :: bool
  mx_max_waiters :: size_t
  mx_handoff :: "nat option"

definition mx_create :: "('r \<Rightarrow> bool) \<Rightarrow> size_t \<Rightarrow> ('k, 'r) async_mutex" where
  "mx_create accepts max_waiters =
     \<lparr>wp_store = Map.empty, wp_next = 0, wp_waiters = [], wp_alive = True, wp_exists = True,
      wp_jobs = [], wp_accepts = accepts, wp_terminated = False,
      mx_locked = False, mx_max_waiters = max_waiters, mx_handoff = None\<rparr>"

definition mx_default_max_waiters :: size_t where
  "mx_default_max_waiters = 1"

definition mx_try_lock :: "('k, 'r) async_mutex \<Rightarrow> void_result \<times> ('k, 'r) async_mutex" where
  "mx_try_lock s =
     (if \<not> wp_exists s \<or> \<not> wp_alive s
      then (Inl (make_error_diagnostic invalid_state ''mutex is not alive''), s)
      else if mx_locked s
      then (Inl (make_error_diagnostic operation_in_progress ''mutex is already locked''), s)
      else (Inr (), s\<lparr>mx_locked := True\<rparr>))"

definition mx_try_complete_immediate ::
  "operation \<Rightarrow> ('k, 'r) async_mutex \<Rightarrow> bool \<times> ('k, 'r) async_mutex" where
  "mx_try_complete_immediate op s =
     (case op of
        None \<Rightarrow> (True, s)
      | Some n \<Rightarrow>
          if wp_at s n (\<lambda>w. w_detached w \<or> w_has_result w) then (True, s)
          else if \<not> owner_lock n s \<or> \<not> wp_alive s
          then (True, complete_and_release n
                 (Inl (make_error_diagnostic invalid_state ''mutex lock owner is not alive'')) s)
          else if \<not> mx_locked s
          then (True, complete_and_release n (Inr ()) (s\<lparr>mx_locked := True\<rparr>))
          else if length (wp_waiters s) \<ge> unat (mx_max_waiters s)
          then (True, complete_and_release n
                 (Inl (make_error_diagnostic resource_exhausted ''mutex wait queue is full'')) s)
          else (False, s))"

definition mx_enqueue_waiter ::
  "operation \<Rightarrow> 'k \<Rightarrow> 'r \<Rightarrow> ('k, 'r) async_mutex \<Rightarrow> bool \<times> ('k, 'r) async_mutex" where
  "mx_enqueue_waiter op k r s =
     (case mx_try_complete_immediate op s of
        (True, s1) \<Rightarrow> (False, s1)
      | (False, s1) \<Rightarrow>
          (let n = the op
           in if \<not> owner_lock n s1 \<or> \<not> wp_alive s1
              then (False, complete_and_release n
                 (Inl (make_error_diagnostic invalid_state ''mutex lock owner is not alive'')) s1)
              else (True, (wp_upd n (\<lambda>w. w\<lparr>w_continuation := Some k, w_scheduler := Some r,
                                          w_enqueued := True\<rparr>) s1)
                           \<lparr>wp_waiters := wp_waiters s1 @ [n]\<rparr>)))"

definition mx_complete_invalid_state ::
  "operation \<Rightarrow> string \<Rightarrow> ('k, 'r) async_mutex \<Rightarrow> ('k, 'r) async_mutex" where
  "mx_complete_invalid_state op d s =
     (case op of
        None \<Rightarrow> s
      | Some n \<Rightarrow> complete_and_release n (Inl (make_error_diagnostic invalid_state d)) s)"

definition mx_await_ready :: "operation \<Rightarrow> ('k, 'r) async_mutex \<Rightarrow> bool \<times> ('k, 'r) async_mutex" where
  "mx_await_ready op s = mx_try_complete_immediate op s"

definition mx_await_suspend ::
  "operation \<Rightarrow> 'k \<Rightarrow> 'r option \<Rightarrow> ('k, 'r) async_mutex \<Rightarrow> bool \<times> ('k, 'r) async_mutex" where
  "mx_await_suspend op k current_scheduler s =
     (case current_scheduler of
        None \<Rightarrow> (False, mx_complete_invalid_state op
                         ''mutex lock without a current scheduler'' s)
      | Some r \<Rightarrow> mx_enqueue_waiter op k r s)"

definition clear_handoff :: "nat \<Rightarrow> ('k, 'r) async_mutex \<Rightarrow> ('k, 'r) async_mutex" where
  "clear_handoff n s = (if mx_handoff s = Some n then s\<lparr>mx_handoff := None\<rparr> else s)"

definition mx_await_resume ::
  "operation \<Rightarrow> ('k, 'r) async_mutex \<Rightarrow> void_result \<times> ('k, 'r) async_mutex" where
  "mx_await_resume op s =
     (case op of
        None \<Rightarrow> (Inl (make_error_diagnostic invalid_state ''empty mutex lock operation''), s)
      | Some n \<Rightarrow>
          (let s1 = wp_upd n (\<lambda>w. w\<lparr>w_observing := True, w_continuation := None,
                 w_scheduler := None\<rparr>) s;
               s2 = (if wp_at s1 n w_reserved
                     then wp_upd n (\<lambda>w. w\<lparr>w_reserved := False\<rparr>)
                            (if owner_lock n s1 then clear_handoff n s1 else s1)
                     else s1);
               s3 = wp_upd n (\<lambda>w. w\<lparr>w_owner := False\<rparr>) s2
           in (if wp_at s3 n w_has_result then w_result (the (wp_store s3 n))
               else Inl (make_error_diagnostic invalid_state
                           ''mutex lock resumed without completion''), s3)))"

function transfer_or_unlock :: "('k, 'r) async_mutex \<Rightarrow> ('k, 'r) async_mutex" where
  "transfer_or_unlock s =
     (if \<not> wp_alive s then s
      else if wp_waiters s \<noteq> [] then
        let n = hd (wp_waiters s);
            (ready, s1) = prepare_waiter_for_resume n (s\<lparr>wp_waiters := tl (wp_waiters s)\<rparr>)
        in if \<not> ready then transfer_or_unlock s1
           else
             let r = waiter_scheduler n s1;
                 s2 = (wp_upd n (\<lambda>w. w\<lparr>w_reserved := True\<rparr>) s1)
                        \<lparr>mx_locked := True, mx_handoff := Some n\<rparr>
             in schedule_waiter n r s2
      else s\<lparr>mx_handoff := None, mx_locked := False\<rparr>)"
  by pat_completeness auto
termination
  by (relation "measure (\<lambda>s. length (wp_waiters s))") (auto dest: prepare_waiter_shrinks)

declare transfer_or_unlock.simps [simp del]

definition mx_unlock :: "('k, 'r) async_mutex \<Rightarrow> ('k, 'r) async_mutex" where
  "mx_unlock s =
     (if \<not> wp_exists s \<or> \<not> wp_alive s \<or> \<not> mx_locked s then s else transfer_or_unlock s)"

text \<open>\<^verbatim>\<open>erase_waiter\<close>: the first occurrence is removed.\<close>

definition erase_waiter :: "nat \<Rightarrow> nat list \<Rightarrow> nat list" where
  "erase_waiter n ws = remove1 n ws"

definition mx_detach_waiter :: "nat \<Rightarrow> ('k, 'r) async_mutex \<Rightarrow> ('k, 'r) async_mutex" where
  "mx_detach_waiter n s =
     (if wp_at s n w_enqueued
      then wp_upd n (\<lambda>w. w\<lparr>w_enqueued := False, w_owner := False\<rparr>)
             (s\<lparr>wp_waiters := erase_waiter n (wp_waiters s)\<rparr>)
      else if wp_at s n w_reserved
      then let s1 = wp_upd n (\<lambda>w. w\<lparr>w_owner := False\<rparr>)
                      (clear_handoff n (wp_upd n (\<lambda>w. w\<lparr>w_reserved := False\<rparr>) s))
           in if wp_alive s1 then transfer_or_unlock s1 else s1
      else wp_upd n (\<lambda>w. w\<lparr>w_owner := False\<rparr>) s)"

definition mx_detach :: "operation \<Rightarrow> ('k, 'r) async_mutex \<Rightarrow> ('k, 'r) async_mutex" where
  "mx_detach op s =
     (case op of
        None \<Rightarrow> s
      | Some n \<Rightarrow>
          if wp_at s n w_observing then s
          else
            (let s1 = wp_upd n (\<lambda>w. w\<lparr>w_detached := True, w_continuation := None,
                                     w_scheduler := None\<rparr>) s
             in if owner_lock n s1 then mx_detach_waiter n s1
                else wp_upd n (\<lambda>w. w\<lparr>w_owner := False\<rparr>) s1))"

definition mx_move_assign ::
  "operation \<Rightarrow> operation \<Rightarrow> ('k, 'r) async_mutex \<Rightarrow> operation \<times> operation \<times> ('k, 'r) async_mutex" where
  "mx_move_assign this other s = (other, None, mx_detach this s)"

function mx_close_loop :: "('k, 'r) async_mutex \<Rightarrow> ('k, 'r) async_mutex" where
  "mx_close_loop s =
     (if wp_waiters s \<noteq> [] then
        let n = hd (wp_waiters s);
            (ready, s1) = prepare_waiter_for_resume n (s\<lparr>wp_waiters := tl (wp_waiters s)\<rparr>)
        in if \<not> ready then mx_close_loop s1
           else
             let r = waiter_scheduler n s1;
                 s2 = wp_upd n (\<lambda>w. w_complete (Inl (make_error_diagnostic invalid_state
                        ''mutex destroyed with pending lock''))
                        (w\<lparr>w_owner := False, w_enqueued := False\<rparr>)) s1
             in mx_close_loop (schedule_waiter n r s2)
      else s)"
  by pat_completeness auto
termination
  by (relation "measure (\<lambda>s. length (wp_waiters s))") (auto dest: prepare_waiter_shrinks)

declare mx_close_loop.simps [simp del]

definition mx_close_handoff :: "('k, 'r) async_mutex \<Rightarrow> ('k, 'r) async_mutex" where
  "mx_close_handoff s =
     (case mx_handoff s of
        None \<Rightarrow> s
      | Some n \<Rightarrow>
          if wp_at s n (\<lambda>w. w_reserved w \<and> \<not> w_detached w \<and> \<not> w_observing w \<and> \<not> w_has_result w)
          then wp_upd n (\<lambda>w. w_complete (Inl (make_error_diagnostic invalid_state
                 ''mutex destroyed with pending lock'')) (w\<lparr>w_reserved := False, w_owner := False\<rparr>)) s
          else s)\<lparr>mx_handoff := None\<rparr>"

definition mx_destroy :: "('k, 'r) async_mutex \<Rightarrow> ('k, 'r) async_mutex" where
  "mx_destroy s =
     (if \<not> wp_exists s then s
      else (mx_close_loop (mx_close_handoff (s\<lparr>wp_alive := False\<rparr>)))\<lparr>wp_exists := False\<rparr>)"

definition mx_get_locked :: "('k, 'r) async_mutex \<Rightarrow> bool" where
  "mx_get_locked s = (if wp_exists s then mx_locked s else False)"

definition mx_get_waiters :: "('k, 'r) async_mutex \<Rightarrow> nat" where
  "mx_get_waiters s = (if wp_exists s then length (wp_waiters s) else 0)"

definition mx_get_max_waiters :: "('k, 'r) async_mutex \<Rightarrow> size_t" where
  "mx_get_max_waiters s = (if wp_exists s then mx_max_waiters s else 0)"

definition complete_reserved_waiter :: "nat \<Rightarrow> ('k, 'r) async_mutex \<Rightarrow> ('k, 'r) async_mutex" where
  "complete_reserved_waiter n s =
     (if \<not> wp_at s n (\<lambda>w. w_reserved w \<and> \<not> w_has_result w) then s
      else if \<not> owner_lock n s \<or> \<not> wp_alive s
      then wp_upd n (\<lambda>w. w_complete (Inl (make_error_diagnostic invalid_state
             ''mutex lock owner is not alive'')) (w\<lparr>w_reserved := False, w_owner := False\<rparr>)) s
      else wp_upd n (w_complete (Inr ())) s)"

definition mx_resume_waiter ::
  "nat \<Rightarrow> ('k, 'r) async_mutex \<Rightarrow> 'k option \<times> ('k, 'r) async_mutex" where
  "mx_resume_waiter n s =
     (if wp_at s n (\<lambda>w. \<not> w_detached w \<and> \<not> w_observing w \<and> w_continuation w \<noteq> None)
      then (w_continuation (the (wp_store s n)),
            wp_upd n (\<lambda>w. w\<lparr>w_continuation := None, w_scheduler := None\<rparr>)
              (complete_reserved_waiter n s))
      else (None, s))"

section \<open>Awaiting\<close>

definition mx_co_lock ::
  "'k \<Rightarrow> 'r option \<Rightarrow> ('k, 'r) async_mutex \<Rightarrow> void_result option \<times> operation \<times> ('k, 'r) async_mutex"
  where
  "mx_co_lock k current_scheduler s =
     (let (op, s1) = new_operation s; (ready, s2) = mx_await_ready op s1
      in if ready then let (r, s3) = mx_await_resume op s2 in (Some r, op, s3)
         else
           let (suspended, s3) = mx_await_suspend op k current_scheduler s2
           in if suspended then (None, op, s3)
              else let (r, s4) = mx_await_resume op s3 in (Some r, op, s4))"

definition mx_run_job ::
  "nat \<Rightarrow> ('k, 'r) async_mutex \<Rightarrow> ('k \<times> void_result) option \<times> ('k, 'r) async_mutex" where
  "mx_run_job i s =
     (if i < length (wp_jobs s)
      then
        (let n = fst (wp_jobs s ! i);
             (k, s1) = mx_resume_waiter n
               (s\<lparr>wp_jobs := take i (wp_jobs s) @ drop (Suc i) (wp_jobs s)\<rparr>)
         in case k of
              None \<Rightarrow> (None, s1)
            | Some k \<Rightarrow> let (r, s2) = mx_await_resume (Some n) s1 in (Some (k, r), s2))
      else (None, s))"

section \<open>Invariant\<close>

definition mx_handed :: "('k, 'r) waiter_state \<Rightarrow> bool" where
  "mx_handed w \<longleftrightarrow> w_owner w \<and> (w_has_result w \<longrightarrow> w_result w = Inr ())"

definition mx_inv :: "('k, 'r) async_mutex \<Rightarrow> bool" where
  "mx_inv s \<longleftrightarrow> wp_inv mx_handed s \<and> wp_alive s \<and> wp_exists s \<and>
     (\<not> mx_locked s \<longrightarrow> wp_waiters s = [] \<and> reserved_set s = {}) \<and>
     length (wp_waiters s) \<le> unat (mx_max_waiters s)"

definition mx_available :: "('k, 'r) async_mutex \<Rightarrow> nat" where
  "mx_available s = (if mx_locked s then 0 else 1) + reserved_count s"

lemma mx_fields_upd [simp]:
  "mx_locked (wp_upd n f s) = mx_locked s" "mx_max_waiters (wp_upd n f s) = mx_max_waiters s"
  "mx_handoff (wp_upd n f s) = mx_handoff s"
  "mx_locked (schedule_waiter n r s) = mx_locked s"
  "mx_max_waiters (schedule_waiter n r s) = mx_max_waiters s"
  by (simp_all add: wp_upd_def schedule_waiter_def)

lemma mx_frame:
  "wp_inv h (s\<lparr>mx_locked := p\<rparr>) = wp_inv h s" "reserved_set (s\<lparr>mx_locked := p\<rparr>) = reserved_set s"
  "wp_inv h (s\<lparr>mx_handoff := q\<rparr>) = wp_inv h s" "reserved_set (s\<lparr>mx_handoff := q\<rparr>) = reserved_set s"
  "reserved_count (s\<lparr>mx_locked := p\<rparr>) = reserved_count s"
  "reserved_count (s\<lparr>mx_handoff := q\<rparr>) = reserved_count s"
  by (simp_all add: wp_inv_def wp_at_def reserved_set_def job_ids_def reserved_count_def)

lemma clear_handoff_frame [simp]:
  "wp_store (clear_handoff n s) = wp_store s" "wp_waiters (clear_handoff n s) = wp_waiters s"
  "wp_next (clear_handoff n s) = wp_next s" "wp_jobs (clear_handoff n s) = wp_jobs s"
  "wp_alive (clear_handoff n s) = wp_alive s" "wp_exists (clear_handoff n s) = wp_exists s"
  "mx_locked (clear_handoff n s) = mx_locked s"
  "mx_max_waiters (clear_handoff n s) = mx_max_waiters s"
  by (simp_all add: clear_handoff_def)

lemma mx_inv_create: "mx_inv (mx_create accepts m)"
  by (simp add: mx_inv_def mx_create_def wp_inv_def job_ids_def reserved_set_def wp_at_def)

text \<open>Giving the lock up: to the first waiter if there is one.\<close>

lemma transfer_spec:
  assumes inv: "mx_inv s" and locked: "mx_locked s"
  shows "mx_inv (transfer_or_unlock s) \<or> wp_waiters s = [] \<and> reserved_set s \<noteq> {}"
    and "reserved_set s = {} \<Longrightarrow> mx_available (transfer_or_unlock s) = 1"
    and "wp_waiters (transfer_or_unlock s) = tl (wp_waiters s)"
    and "reserved_set (transfer_or_unlock s) = reserved_set s \<union> set (take 1 (wp_waiters s))"
proof -
  have wp: "wp_inv mx_handed s" and alive: "wp_alive s" "wp_exists s"
    using inv by (simp_all add: mx_inv_def)
  have "(mx_inv (transfer_or_unlock s) \<or> wp_waiters s = [] \<and> reserved_set s \<noteq> {}) \<and>
    (reserved_set s = {} \<longrightarrow> mx_available (transfer_or_unlock s) = 1) \<and>
    wp_waiters (transfer_or_unlock s) = tl (wp_waiters s) \<and>
    reserved_set (transfer_or_unlock s) = reserved_set s \<union> set (take 1 (wp_waiters s))"
  proof (cases "wp_waiters s")
    case Nil
    then show ?thesis
      using inv alive by (subst (1 2 3 4) transfer_or_unlock.simps)
        (auto simp: mx_inv_def mx_available_def mx_frame reserved_count_def)
  next
    case (Cons n ws)
    obtain w where w: "wp_store s n = Some w" "waiting w"
      using queued_waiting [OF wp, of n] Cons by auto
    let ?f = "\<lambda>w. w\<lparr>w_enqueued := False, w_reserved := True\<rparr>"
    let ?s' = "schedule_waiter n (waiter_scheduler n s)
        ((wp_upd n ?f (s\<lparr>wp_waiters := ws\<rparr>))\<lparr>mx_locked := True, mx_handoff := Some n\<rparr>)"
    have eq: "transfer_or_unlock s = ?s'"
      using Cons alive w prepare_queued [of "s\<lparr>wp_waiters := ws\<rparr>" n w]
      by (subst transfer_or_unlock.simps)
        (simp add: wp_upd_upd comp_def waiter_scheduler_def wp_store_upd)
    have inv': "wp_inv mx_handed ?s'"
      by (rule wp_inv_change [OF wp, where n = n and f = ?f])
        (use wp Cons w in \<open>auto simp: wp_upd_def wp_inv_def mx_handed_def waiting_def settled_def
          schedule_waiter_def job_ids_def split: if_splits\<close>)
    have res: "reserved_set ?s' = insert n (reserved_set s)"
      using w by (auto simp: reserved_set_def wp_at_def wp_store_upd)
    have "n \<notin> reserved_set s" using w by (simp add: reserved_set_def wp_at_def waiting_def)
    then show ?thesis
      unfolding eq using inv inv' res Cons by (auto simp: mx_inv_def mx_available_def reserved_count_def)
  qed
  then show "mx_inv (transfer_or_unlock s) \<or> wp_waiters s = [] \<and> reserved_set s \<noteq> {}"
    "reserved_set s = {} \<Longrightarrow> mx_available (transfer_or_unlock s) = 1"
    "wp_waiters (transfer_or_unlock s) = tl (wp_waiters s)"
    "reserved_set (transfer_or_unlock s) = reserved_set s \<union> set (take 1 (wp_waiters s))"
    by auto
qed

section \<open>Steps\<close>

lemma transfer_free:
  assumes "mx_inv s" and "mx_locked s" and "reserved_set s = {}"
  shows "mx_inv (transfer_or_unlock s) \<and> mx_available (transfer_or_unlock s) = 1"
  using transfer_spec [OF assms(1,2)] assms(3) by blast

lemma mx_try_lock_spec:
  assumes "mx_inv s" and "mx_try_lock s = (r, s')"
  shows "case r of Inl _ \<Rightarrow> s' = s
    | Inr _ \<Rightarrow> mx_inv s' \<and> mx_available s' + 1 = mx_available s"
  using assms by (auto simp: mx_try_lock_def mx_inv_def mx_frame mx_available_def split: if_splits)

lemma mx_co_lock_spec:
  assumes inv: "mx_inv s" and co: "mx_co_lock k sch s = (r, op, s')"
  shows "mx_inv s' \<and> op = Some (wp_next s) \<and>
    mx_available s' + (if r = Some (Inr ()) then 1 else 0) = mx_available s \<and>
    (r = Some (Inr ()) \<longleftrightarrow> \<not> mx_locked s) \<and>
    (r = None \<longrightarrow> wp_waiters s' = wp_waiters s @ [wp_next s])"
proof -
  let ?n = "wp_next s"
  have wp: "wp_inv mx_handed s" and alive: "wp_alive s" "wp_exists s"
    using inv by (simp_all add: mx_inv_def)
  note eval = mx_co_lock_def new_operation_def mx_await_ready_def
    mx_try_complete_immediate_def mx_await_resume_def mx_await_suspend_def
    mx_enqueue_waiter_def mx_complete_invalid_state_def Let_def wp_at_def owner_lock_def
    complete_and_release_def w_init_def w_complete_def wp_upd_def
  have done_inv: "mx_inv t \<and> reserved_count t = reserved_count s"
    if "wp_store t = (wp_store s)(?n \<mapsto> w)" "wp_next t = ?n + 1" "wp_jobs t = wp_jobs s"
      "\<not> w_reserved w" "settled w" "if w_enqueued w then waiting w \<and> wp_waiters t = wp_waiters s @ [?n]
        else wp_waiters t = wp_waiters s" "wp_alive t" "wp_exists t" "mx_locked t"
      "length (wp_waiters t) \<le> unat (mx_max_waiters t)"
    for t w
    using wp_inv_fresh [OF wp that(1-6)] that(7-10) by (simp add: mx_inv_def reserved_count_def)
  consider (free) "\<not> mx_locked s"
    | (full) "mx_locked s" "unat (mx_max_waiters s) \<le> length (wp_waiters s)"
    | (no_scheduler) "mx_locked s" "length (wp_waiters s) < unat (mx_max_waiters s)" "sch = None"
    | (queued) r0 where "mx_locked s" "length (wp_waiters s) < unat (mx_max_waiters s)"
        "sch = Some r0"
    using not_less by fastforce
  then show ?thesis
  proof cases
    case free
    have s': "r = Some (Inr ())" "op = Some ?n" "wp_next s' = ?n + 1" "wp_jobs s' = wp_jobs s"
      "wp_waiters s' = wp_waiters s" "wp_alive s'" "wp_exists s'"
      "mx_locked s'" "mx_max_waiters s' = mx_max_waiters s"
      "\<exists>w. wp_store s' = (wp_store s)(?n \<mapsto> w) \<and> \<not> w_reserved w \<and> settled w \<and> \<not> w_enqueued w"
      using co free alive by (auto simp: eval settled_def)
    then show ?thesis
      using done_inv [of s'] inv free by (auto simp: mx_inv_def mx_available_def)
  next
    case full
    have s': "\<exists>e. r = Some (Inl e)" "op = Some ?n" "wp_next s' = ?n + 1" "wp_jobs s' = wp_jobs s"
      "wp_waiters s' = wp_waiters s" "wp_alive s'" "wp_exists s'"
      "mx_locked s'" "mx_max_waiters s' = mx_max_waiters s"
      "\<exists>w. wp_store s' = (wp_store s)(?n \<mapsto> w) \<and> \<not> w_reserved w \<and> settled w \<and> \<not> w_enqueued w"
      using co full alive by (auto simp: eval settled_def)
    then show ?thesis
      using done_inv [of s'] inv full by (auto simp: mx_inv_def mx_available_def)
  next
    case no_scheduler
    have s': "\<exists>e. r = Some (Inl e)" "op = Some ?n" "wp_next s' = ?n + 1" "wp_jobs s' = wp_jobs s"
      "wp_waiters s' = wp_waiters s" "wp_alive s'" "wp_exists s'"
      "mx_locked s'" "mx_max_waiters s' = mx_max_waiters s"
      "\<exists>w. wp_store s' = (wp_store s)(?n \<mapsto> w) \<and> \<not> w_reserved w \<and> settled w \<and> \<not> w_enqueued w"
      using co no_scheduler alive by (auto simp: eval settled_def)
    then show ?thesis
      using done_inv [of s'] inv no_scheduler by (auto simp: mx_inv_def mx_available_def)
  next
    case (queued r0)
    have s': "r = None" "op = Some ?n" "wp_next s' = ?n + 1" "wp_jobs s' = wp_jobs s"
      "wp_waiters s' = wp_waiters s @ [?n]" "wp_alive s'" "wp_exists s'"
      "mx_locked s'" "mx_max_waiters s' = mx_max_waiters s"
      "\<exists>w. wp_store s' = (wp_store s)(?n \<mapsto> w) \<and> \<not> w_reserved w \<and> settled w \<and> w_enqueued w \<and> waiting w"
      using co queued alive by (auto simp: eval waiting_def settled_def)
    then show ?thesis
      using done_inv [of s'] inv queued by (auto simp: mx_inv_def mx_available_def)
  qed
qed

text \<open>The effect of a resumption that reaches its coroutine, as one update of the waiter.\<close>

lemma mx_resumed_eq:
  assumes "wp_store s n = Some w" and "wp_alive s" and "wp_exists s"
    and "w_reserved w \<longrightarrow> mx_handed w" and "w_continuation w = Some k"
    and "\<not> w_detached w" "\<not> w_observing w" "settled w"
  shows "\<exists>s1 s' v f. mx_resume_waiter n s = (Some k, s1) \<and> mx_await_resume (Some n) s1 = (v, s') \<and>
    wp_store s' = (wp_store s)(n := Some f) \<and> w_observing f \<and> \<not> w_reserved f \<and>
    w_enqueued f = w_enqueued w \<and> w_detached f = w_detached w \<and>
    (v = Inr () \<longleftrightarrow> w_reserved w) \<and>
    wp_next s' = wp_next s \<and> wp_waiters s' = wp_waiters s \<and> wp_jobs s' = wp_jobs s \<and>
    wp_alive s' \<and> wp_exists s' \<and> mx_locked s' = mx_locked s \<and> mx_max_waiters s' = mx_max_waiters s"
proof -
  have "\<not> w_reserved w \<longrightarrow> \<not> (w_has_result w \<and> w_result w = Inr ())"
    using assms by (auto simp: settled_def)
  then show ?thesis
    using assms
    by (cases "w_reserved w"; cases "w_has_result w")
      (auto simp: mx_resume_waiter_def complete_reserved_waiter_def wp_at_def owner_lock_def
        mx_await_resume_def Let_def wp_upd_def w_complete_def mx_handed_def clear_handoff_def)
qed

lemma mx_run_job_spec:
  assumes inv: "mx_inv s" and run: "mx_run_job i s = (r, s')"
  shows "mx_inv s' \<and>
    mx_available s' + (case r of Some (_, Inr _) \<Rightarrow> 1 | _ \<Rightarrow> 0) = mx_available s"
proof (cases "i < length (wp_jobs s)")
  case False
  then show ?thesis using inv run by (auto simp: mx_run_job_def)
next
  case True
  define n where "n = fst (wp_jobs s ! i)"
  define s0 where "s0 = s\<lparr>wp_jobs := take i (wp_jobs s) @ drop (Suc i) (wp_jobs s)\<rparr>"
  have n: "n \<notin> set (wp_waiters s)"
    using inv True by (auto simp: n_def mx_inv_def wp_inv_def job_ids_def)
  have "set (wp_jobs s0) \<subseteq> set (wp_jobs s)"
    by (auto simp: s0_def dest: in_set_takeD in_set_dropD)
  then have "job_ids s0 \<subseteq> job_ids s" by (auto simp: job_ids_def)
  then have inv0: "mx_inv s0" "mx_available s0 = mx_available s"
    using inv by (auto simp: s0_def mx_inv_def wp_inv_def wp_at_def mx_available_def
        reserved_count_def reserved_set_def)
  have wp0: "wp_inv mx_handed s0" "wp_alive s0" "wp_exists s0"
    using inv0(1) by (simp_all add: mx_inv_def)
  show ?thesis
  proof (cases "wp_at s0 n (\<lambda>w. \<not> w_detached w \<and> \<not> w_observing w \<and> w_continuation w \<noteq> None)")
    case False
    then show ?thesis
      using run True inv0 by (auto simp: mx_run_job_def mx_resume_waiter_def n_def s0_def Let_def)
  next
    case resumed: True
    then obtain w k where w: "wp_store s0 n = Some w" "\<not> w_detached w" "\<not> w_observing w"
      "w_continuation w = Some k"
      by (auto simp: wp_at_def split: option.splits)
    have ne: "\<not> w_enqueued w" "n \<notin> set (wp_waiters s0)" "w_reserved w \<longrightarrow> mx_handed w" "settled w"
      using wp0 w(1) n by (auto simp: wp_inv_def s0_def)
    obtain s1 t v f where t: "mx_resume_waiter n s0 = (Some k, s1)"
      "mx_await_resume (Some n) s1 = (v, t)" "wp_store t = (wp_store s0)(n := Some f)"
      "w_observing f" "\<not> w_reserved f" "\<not> w_enqueued f" "v = Inr () \<longleftrightarrow> w_reserved w"
      "wp_next t = wp_next s0" "wp_waiters t = wp_waiters s0" "wp_jobs t = wp_jobs s0"
      "wp_alive t" "wp_exists t" "mx_locked t = mx_locked s0" "mx_max_waiters t = mx_max_waiters s0"
      using mx_resumed_eq [OF w(1) wp0(2,3) ne(3) w(4) w(2,3) ne(4)] ne(1) by auto
    have res: "r = Some (k, v)" "s' = t"
      using run True t(1,2)
      by (auto simp: mx_run_job_def n_def [symmetric] s0_def [symmetric] Let_def)
    have "wp_inv mx_handed t"
      by (rule wp_inv_change [OF wp0(1), where n = n and f = "\<lambda>_. f"])
        (use wp0 w ne t in \<open>auto simp: wp_inv_def job_ids_def settled_def\<close>)
    moreover have set: "reserved_set t = reserved_set s0 - {n}"
      using t by (auto simp: reserved_set_def wp_at_def split: if_splits)
    moreover have "n \<in> reserved_set s0 \<longleftrightarrow> w_reserved w"
      using w by (simp add: reserved_set_def wp_at_def)
    then have "reserved_count t + (if w_reserved w then 1 else 0) = reserved_count s0"
      using card_Suc_Diff1 [OF finite_reserved [OF wp0(1)], of n] set
      by (simp add: reserved_count_def)
    ultimately show ?thesis
      using inv0 t res by (cases v) (auto simp: mx_inv_def mx_available_def)
  qed
qed

lemma mx_detach_spec:
  assumes inv: "mx_inv s" and bound: "mx_available s \<le> 1"
  shows "mx_inv (mx_detach (Some n) s) \<and> mx_available (mx_detach (Some n) s) = mx_available s"
proof -
  let ?d = "\<lambda>w. w\<lparr>w_detached := True, w_continuation := None, w_scheduler := None\<rparr>"
  have wp: "wp_inv mx_handed s" and alive: "wp_alive s" "wp_exists s"
    using inv by (simp_all add: mx_inv_def)
  note eval = mx_detach_def mx_detach_waiter_def owner_lock_def wp_at_def wp_store_upd Let_def
    wp_upd_upd comp_def erase_waiter_def
  show ?thesis
  proof (cases "wp_store s n")
    case None
    then have "mx_detach (Some n) s = s"
      by (auto simp: eval) (simp add: wp_upd_def None fun_upd_idem)
    then show ?thesis using inv by simp
  next
    case (Some w)
    consider (observed) "w_observing w" | (enqueued) "\<not> w_observing w" "w_enqueued w"
      | (reserved) "\<not> w_observing w" "\<not> w_enqueued w" "w_reserved w"
      | (idle) "\<not> w_observing w" "\<not> w_enqueued w" "\<not> w_reserved w" by blast
    then show ?thesis
    proof cases
      case observed
      then show ?thesis using Some inv by (simp add: eval)
    next
      case enqueued
      then have q: "n \<in> set (wp_waiters s)" using wp Some by (auto simp: wp_inv_def)
      then have wt: "waiting w" using queued_waiting [OF wp q] Some by simp
      let ?f = "\<lambda>w. (?d w)\<lparr>w_enqueued := False, w_owner := False\<rparr>"
      let ?s' = "wp_upd n ?f (s\<lparr>wp_waiters := remove1 n (wp_waiters s)\<rparr>)"
      have eq: "mx_detach (Some n) s = ?s'"
        using enqueued Some wt alive by (simp add: eval waiting_def) (simp add: wp_upd_def Some)
      have "wp_inv mx_handed ?s'"
        by (rule wp_inv_change [OF wp, where n = n and f = ?f])
          (use wp Some wt in \<open>auto simp: wp_upd_def wp_inv_def job_ids_def settled_def waiting_def
            set_remove1_eq\<close>)
      moreover have "reserved_set ?s' = reserved_set s"
        using Some wt by (auto simp: reserved_set_def wp_at_def wp_store_upd waiting_def)
      ultimately show ?thesis
        using inv q unfolding eq
        by (auto simp: mx_inv_def mx_available_def reserved_count_def length_remove1)
    next
      case reserved
      then have h: "mx_handed w" "n \<notin> set (wp_waiters s)" "n \<in> reserved_set s"
        using wp Some not_enqueued_not_queued [OF wp Some]
        by (auto simp: wp_inv_def reserved_set_def wp_at_def)
      then have locked: "mx_locked s" using inv by (auto simp: mx_inv_def)
      let ?f = "\<lambda>w. (?d w)\<lparr>w_reserved := False, w_owner := False\<rparr>"
      let ?s' = "wp_upd n ?f (clear_handoff n s)"
      have comm: "wp_upd n (\<lambda>w. w\<lparr>w_owner := False\<rparr>) (clear_handoff n (wp_upd n g t)) =
          wp_upd n (\<lambda>w. (g w)\<lparr>w_owner := False\<rparr>) (clear_handoff n t)" for g and t :: "('a, 'b) async_mutex"
        by (simp add: clear_handoff_def wp_upd_def option.map_comp comp_def)
      have eq: "mx_detach (Some n) s = transfer_or_unlock ?s'"
        using reserved Some h alive by (simp add: eval mx_handed_def comm)
      have "wp_inv mx_handed ?s'"
        by (rule wp_inv_change [OF wp, where n = n and f = ?f])
          (use wp Some reserved h in \<open>auto simp: wp_upd_def wp_inv_def job_ids_def settled_def\<close>)
      moreover have sets: "reserved_set ?s' = reserved_set s - {n}"
        using Some by (auto simp: reserved_set_def wp_at_def wp_store_upd split: if_splits)
      moreover have "card (reserved_set s) \<le> 1"
        using bound locked by (simp add: mx_available_def reserved_count_def)
      then have "reserved_set s = {n}"
        using h(3) finite_reserved [OF wp] card_le_Suc0_iff_eq by (metis One_nat_def is_singletonI'
            is_singleton_the_elem empty_iff singletonD)
      ultimately have "mx_inv ?s'" "reserved_set ?s' = {}" "mx_available s = 1"
        using inv locked by (auto simp: mx_inv_def mx_available_def reserved_count_def)
      then show ?thesis
        using transfer_free [of ?s'] locked unfolding eq by simp
    next
      case idle
      let ?f = "\<lambda>w. (?d w)\<lparr>w_owner := False\<rparr>"
      let ?s' = "wp_upd n ?f s"
      have eq: "mx_detach (Some n) s = ?s'" using idle Some by (simp add: eval)
      have "wp_inv mx_handed ?s'"
        by (rule wp_inv_change [OF wp, where n = n and f = ?f])
          (use wp Some idle not_enqueued_not_queued [OF wp Some] in
            \<open>auto simp: wp_upd_def wp_inv_def job_ids_def settled_def\<close>)
      moreover have "reserved_set ?s' = reserved_set s"
        using Some idle by (auto simp: reserved_set_def wp_at_def wp_store_upd split: if_splits)
      ultimately show ?thesis
        using inv unfolding eq by (simp add: mx_inv_def mx_available_def reserved_count_def)
    qed
  qed
qed

section \<open>Runs\<close>

datatype ('k, 'r) mutex_op =
    Mx_try_lock
  | Mx_co_lock 'k "'r option"
  | Mx_unlock
  | Mx_run_job nat
  | Mx_drop_operation nat

text \<open>One call, with how often it takes the lock for the caller and gives it back.\<close>

fun mx_step :: "('k, 'r) mutex_op \<Rightarrow> ('k, 'r) async_mutex \<Rightarrow> nat \<times> nat \<times> ('k, 'r) async_mutex" where
  "mx_step Mx_try_lock s =
     (let (r, s') = mx_try_lock s in (case r of Inl _ \<Rightarrow> 0 | Inr _ \<Rightarrow> 1, 0, s'))"
| "mx_step (Mx_co_lock k sch) s =
     (let (r, op, s') = mx_co_lock k sch s in (if r = Some (Inr ()) then 1 else 0, 0, s'))"
| "mx_step Mx_unlock s = (0, 1, mx_unlock s)"
| "mx_step (Mx_run_job i) s =
     (let (r, s') = mx_run_job i s in (case r of Some (_, Inr _) \<Rightarrow> 1 | _ \<Rightarrow> 0, 0, s'))"
| "mx_step (Mx_drop_operation n) s = (0, 0, mx_detach (Some n) s)"

interpretation mx: permit_account mx_step mx_available 1 mx_inv
proof
  fix s s' :: "('k, 'r) async_mutex" and op a r
  assume *: "mx_inv s" "mx_step op s = (a, r, s')" "mx_available s + r \<le> 1"
  show "mx_inv s' \<and> mx_available s' + a = mx_available s + r"
  proof (cases op)
    case Mx_try_lock
    then show ?thesis
      using *(1,2) mx_try_lock_spec [OF *(1)] by (auto split: prod.splits sum.splits)
  next
    case (Mx_co_lock k sch)
    then show ?thesis
      using *(2) mx_co_lock_spec [OF *(1), of k sch] by (auto split: prod.splits)
  next
    case Mx_unlock
    then have av: "a = 0" "r = 1" "s' = mx_unlock s" "mx_available s = 0" using *(2,3) by auto
    moreover have "finite (reserved_set s)" using finite_reserved *(1) by (auto simp: mx_inv_def)
    ultimately have "mx_locked s" "reserved_set s = {}"
      by (auto simp: mx_available_def reserved_count_def split: if_splits)
    then show ?thesis
      using transfer_free [OF *(1)] av *(1) by (simp add: mx_unlock_def mx_inv_def)
  next
    case (Mx_run_job i)
    then show ?thesis
      using *(2) mx_run_job_spec [OF *(1), of i] by (auto split: prod.splits)
  next
    case (Mx_drop_operation n)
    then show ?thesis using *(2,3) mx_detach_spec [OF *(1), of n] by auto
  qed
qed

section \<open>Theorems\<close>

text \<open>
  C26. Mutual exclusion. In any sequence of calls in which \<^verbatim>\<open>unlock\<close> is only called while the
  lock is held, with waiters suspended, resumed and abandoned at any point: at most one
  caller holds the lock, the lock is marked locked exactly while it is held or handed to a
  waiter that has not resumed yet, and it is never handed over while it is held.
\<close>

theorem mutex_mutual_exclusion:
  assumes "disciplined mx_step mx_available 1 ops (mx_create accepts m)"
    and "account_run mx_step ops (mx_create accepts m) = (acquired, released, s)"
  shows "acquired - released \<le> 1 \<and> released \<le> acquired \<and>
    (mx_locked s \<longleftrightarrow> acquired - released = 1 \<or> (\<exists>n. wp_at s n w_reserved)) \<and>
    (acquired - released = 1 \<longrightarrow> (\<forall>n. \<not> wp_at s n w_reserved)) \<and>
    (\<not> mx_locked s \<longrightarrow> wp_waiters s = [])"
proof -
  have "mx_available (mx_create accepts m :: ('a, 'b) async_mutex) = 1"
    by (simp add: mx_available_def mx_create_def reserved_count_def reserved_set_def wp_at_def)
  then have run: "mx_inv s" "mx_available s + acquired = 1 + released"
    using mx.run_conserves [OF mx_inv_create assms] by simp_all
  have le: "released \<le> acquired"
  proof -
    have "mx_available t \<le> 1 \<and> available + rs \<le> 1 + as"
      if "mx_inv t0" "disciplined mx_step mx_available 1 ops t0" "mx_available t0 \<le> 1"
        "account_run mx_step ops t0 = (as, rs, t)" "available = mx_available t0"
      for t0 t :: "('a, 'b) async_mutex" and as rs available
      using that
    proof (induction ops arbitrary: t0 as rs available)
      case Nil
      then show ?case by simp
    next
      case (Cons op ops)
      obtain a r t1 as1 rs1 where st: "mx_step op t0 = (a, r, t1)"
        and r1: "account_run mx_step ops t1 = (as1, rs1, t)" and eq: "as = a + as1" "rs = r + rs1"
        using Cons.prems by (auto simp: Let_def split: prod.splits)
      have "mx_available t0 + r \<le> 1" "disciplined mx_step mx_available 1 ops t1"
        using Cons.prems(2) st by auto
      with mx.step_ok [OF Cons.prems(1) st] have "mx_inv t1" "mx_available t1 + a = mx_available t0 + r"
        by auto
      with Cons.IH [of t1 as1 rs1] r1 eq Cons.prems(5) \<open>mx_available t0 + r \<le> 1\<close>
        \<open>disciplined mx_step mx_available 1 ops t1\<close>
      show ?case by auto
    qed
    from this [OF mx_inv_create assms(1) _ assms(2)] show ?thesis
      using \<open>mx_available (mx_create accepts m :: ('a, 'b) async_mutex) = 1\<close> by simp
  qed
  have "finite (reserved_set s)" using finite_reserved run(1) by (auto simp: mx_inv_def)
  then have "reserved_count s = 0 \<longleftrightarrow> (\<forall>n. \<not> wp_at s n w_reserved)"
    by (simp add: reserved_count_def) (auto simp: reserved_set_def)
  then show ?thesis
    using run le by (auto simp: mx_inv_def mx_available_def reserved_set_def split: if_splits)
qed

theorem mutex_mutual_exclusion_witness:
  "\<exists>s. account_run mx_step [Mx_try_lock, Mx_try_lock, Mx_unlock, Mx_try_lock]
      (mx_create (\<lambda>_. True) 1 :: (nat, unit) async_mutex) = (2, 1, s) \<and> mx_locked s"
proof -
  let ?s0 = "mx_create (\<lambda>_. True) 1 :: (nat, unit) async_mutex"
  let ?ops = "[Mx_try_lock, Mx_try_lock, Mx_unlock, Mx_try_lock]"
  note eval = mx_create_def mx_try_lock_def mx_unlock_def transfer_or_unlock.simps
  obtain s where run: "account_run mx_step ?ops ?s0 = (2, 1, s)"
    by (simp add: eval)
  have disc: "disciplined mx_step mx_available 1 ?ops ?s0"
    by (simp add: eval mx_available_def reserved_count_def reserved_set_def wp_at_def)
  from mutex_mutual_exclusion [OF disc run] run show ?thesis by auto
qed

text \<open>
  Unlocking hands the lock to the longest waiter: with waiters queued, the first one
  leaves the queue, the lock stays locked, so that nobody can barge in, and is reserved for
  that waiter alone; without waiters the lock becomes free.
\<close>

theorem mutex_unlock_handoff:
  assumes "mx_inv s" and "mx_locked s" and "\<forall>n. \<not> wp_at s n w_reserved"
  shows "case wp_waiters s of
      [] \<Rightarrow> \<not> mx_locked (mx_unlock s) \<and> (\<forall>n. \<not> wp_at (mx_unlock s) n w_reserved)
    | n # ws \<Rightarrow> mx_locked (mx_unlock s) \<and> wp_waiters (mx_unlock s) = ws \<and>
        {k. wp_at (mx_unlock s) k w_reserved} = {n}"
proof -
  have free: "reserved_set s = {}" using assms(3) by (simp add: reserved_set_def)
  have eq: "mx_unlock s = transfer_or_unlock s"
    using assms by (simp add: mx_unlock_def mx_inv_def)
  note spec = transfer_spec(3,4) [OF assms(1,2)] transfer_free [OF assms(1,2) free]
  show ?thesis
  proof (cases "wp_waiters s")
    case Nil
    then have "reserved_set (transfer_or_unlock s) = {}" using spec(2) free by simp
    then show ?thesis
      using spec(3) Nil by (auto simp: eq mx_available_def reserved_count_def reserved_set_def
          split: if_splits)
  next
    case (Cons n ws)
    then have res: "reserved_set (transfer_or_unlock s) = {n}" using spec(2) free by simp
    then have "mx_locked (transfer_or_unlock s)"
      using spec(3) by (auto simp: mx_inv_def)
    then show ?thesis
      using spec(1) Cons res by (simp add: eq reserved_set_def)
  qed
qed

theorem mutex_unlock_handoff_witness:
  "\<not> mx_locked (mx_unlock ((mx_create (\<lambda>_. True) 1 :: (nat, unit) async_mutex)\<lparr>mx_locked := True\<rparr>))"
proof -
  let ?s = "(mx_create (\<lambda>_. True) 1 :: (nat, unit) async_mutex)\<lparr>mx_locked := True\<rparr>"
  have "mx_inv ?s" "mx_locked ?s" "\<forall>n. \<not> wp_at ?s n w_reserved" "wp_waiters ?s = []"
    using mx_inv_create [where 'a = nat and 'b = unit, of "\<lambda>_. True" 1]
    by (simp_all add: mx_inv_def mx_frame) (simp_all add: mx_create_def wp_at_def)
  with mutex_unlock_handoff [of ?s] show ?thesis by simp
qed

end
