(* ===== verification/Vio_Channel.thy ===== *)
theory Vio_Channel
  imports Fifo Clock
begin

text \<open>
  \<^verbatim>\<open>include/voris/io/channel.hpp\<close> and \<^verbatim>\<open>include/voris/io/manual_reset_event.hpp\<close>: the
  single-threaded channel and event. The wait guard of a send or receive is what its
  evaluation would return, \<open>None\<close> for the overloads without one; the code evaluates it only
  where it would have to wait, and its evaluation has no effect.
\<close>

section \<open>Channel operations\<close>

record 'a channel =
  ch_closed :: bool
  ch_capacity :: nat
  ch_buffer :: "'a list"
  ch_rendezvous_value :: "'a option"
  ch_waiting_senders :: size_t
  ch_waiting_receivers :: size_t

definition ch_create :: "nat \<Rightarrow> 'a channel" where
  "ch_create capacity = \<lparr>ch_closed = False, ch_capacity = capacity, ch_buffer = [],
     ch_rendezvous_value = None, ch_waiting_senders = 0, ch_waiting_receivers = 0\<rparr>"

definition ch_size :: "'a channel \<Rightarrow> nat" where
  "ch_size c = length (ch_buffer c)"

definition ch_close :: "'a channel \<Rightarrow> 'a channel" where
  "ch_close c = c\<lparr>ch_closed := True\<rparr>"

definition cancellation_wait_error ::
  "bool \<Rightarrow> ('c, 'e) cancellation_state_scheme \<Rightarrow> vio_error option" where
  "cancellation_wait_error bound token =
     (if \<not> token_cancellation_requested bound token then None
      else Some (make_error_diagnostic cancelled ''channel waiter cancelled''))"

definition deadline_wait_error :: "nat \<Rightarrow> nat \<Rightarrow> deadline_limit \<Rightarrow> int \<Rightarrow> vio_error option" where
  "deadline_wait_error num den limit now =
     (if \<not> deadline_expired num den limit now then None else Some deadline_cancellation_error)"

definition ch_send_impl ::
  "'a \<Rightarrow> vio_error option \<Rightarrow> 'a channel \<Rightarrow> void_result \<times> 'a channel" where
  "ch_send_impl value before_wait c =
     (if ch_closed c then (Inl (make_error closed None []), c)
      else if ch_capacity c = 0
      then
        (if ch_waiting_receivers c = 0
         then (case before_wait of
                 Some e \<Rightarrow> (Inl e, c)
               | None \<Rightarrow>
                   (Inl (make_error_diagnostic resource_exhausted ''rendezvous receiver is not ready''),
                    c\<lparr>ch_waiting_senders := ch_waiting_senders c + 1\<rparr>))
         else (Inr (), c\<lparr>ch_waiting_receivers := ch_waiting_receivers c - 1,
                         ch_rendezvous_value := Some value\<rparr>))
      else if length (ch_buffer c) \<ge> ch_capacity c
      then (case before_wait of
              Some e \<Rightarrow> (Inl e, c)
            | None \<Rightarrow> (Inl (make_error_diagnostic resource_exhausted ''channel is full''),
                      c\<lparr>ch_waiting_senders := ch_waiting_senders c + 1\<rparr>))
      else (Inr (), c\<lparr>ch_buffer := ch_buffer c @ [value]\<rparr>))"

definition ch_receive_impl :: "vio_error option \<Rightarrow> 'a channel \<Rightarrow> 'a io_result \<times> 'a channel" where
  "ch_receive_impl before_wait c =
     (case ch_rendezvous_value c of
        Some value \<Rightarrow> (Inr value, c\<lparr>ch_rendezvous_value := None\<rparr>)
      | None \<Rightarrow>
          (case ch_buffer c of
             value # rest \<Rightarrow>
               (Inr value,
                let c1 = c\<lparr>ch_buffer := rest\<rparr>
                in if ch_waiting_senders c1 \<noteq> 0
                   then c1\<lparr>ch_waiting_senders := ch_waiting_senders c1 - 1\<rparr> else c1)
           | [] \<Rightarrow>
               if ch_closed c then (Inl (make_error closed None []), c)
               else
                 (case before_wait of
                    Some e \<Rightarrow> (Inl e, c)
                  | None \<Rightarrow> (Inl (make_error_diagnostic resource_exhausted ''channel is empty''),
                            c\<lparr>ch_waiting_receivers := ch_waiting_receivers c + 1\<rparr>))))"

definition ch_send :: "'a \<Rightarrow> 'a channel \<Rightarrow> void_result \<times> 'a channel" where
  "ch_send value c = ch_send_impl value None c"

definition ch_send_token ::
  "bool \<Rightarrow> ('c, 'e) cancellation_state_scheme \<Rightarrow> 'a \<Rightarrow> 'a channel \<Rightarrow> void_result \<times> 'a channel" where
  "ch_send_token bound token value c = ch_send_impl value (cancellation_wait_error bound token) c"

definition ch_send_deadline ::
  "nat \<Rightarrow> nat \<Rightarrow> deadline_limit \<Rightarrow> int \<Rightarrow> 'a \<Rightarrow> 'a channel \<Rightarrow> void_result \<times> 'a channel" where
  "ch_send_deadline num den limit now value c =
     ch_send_impl value (deadline_wait_error num den limit now) c"

definition ch_receive :: "'a channel \<Rightarrow> 'a io_result \<times> 'a channel" where
  "ch_receive c = ch_receive_impl None c"

definition ch_receive_token ::
  "bool \<Rightarrow> ('c, 'e) cancellation_state_scheme \<Rightarrow> 'a channel \<Rightarrow> 'a io_result \<times> 'a channel" where
  "ch_receive_token bound token c = ch_receive_impl (cancellation_wait_error bound token) c"

definition ch_receive_deadline ::
  "nat \<Rightarrow> nat \<Rightarrow> deadline_limit \<Rightarrow> int \<Rightarrow> 'a channel \<Rightarrow> 'a io_result \<times> 'a channel" where
  "ch_receive_deadline num den limit now c =
     ch_receive_impl (deadline_wait_error num den limit now) c"

section \<open>Manual-reset event\<close>

record manual_reset_event =
  ev_set :: bool
  ev_waiters :: size_t

definition ev_create :: "bool \<Rightarrow> manual_reset_event" where
  "ev_create initially_set = \<lparr>ev_set = initially_set, ev_waiters = 0\<rparr>"

definition ev_wait :: "manual_reset_event \<Rightarrow> void_result \<times> manual_reset_event" where
  "ev_wait e =
     (if ev_set e then (Inr (), e)
      else (Inl (make_error_diagnostic resource_exhausted ''event is not set''),
            e\<lparr>ev_waiters := ev_waiters e + 1\<rparr>))"

definition ev_do_set :: "manual_reset_event \<Rightarrow> manual_reset_event" where
  "ev_do_set e = e\<lparr>ev_set := True, ev_waiters := 0\<rparr>"

definition ev_reset :: "manual_reset_event \<Rightarrow> manual_reset_event" where
  "ev_reset e = e\<lparr>ev_set := False\<rparr>"

lemma ev_wait_iff: "fst (ev_wait e) = Inr () \<longleftrightarrow> ev_set e"
  by (simp add: ev_wait_def)

lemma ev_sticky:
  "fst (ev_wait (snd (ev_wait (ev_do_set e)))) = Inr ()"
  "\<exists>x. fst (ev_wait (ev_reset e)) = Inl x"
  by (simp_all add: ev_wait_def ev_do_set_def ev_reset_def)

section \<open>The buffered channel as a queue\<close>

text \<open>The values held, the handed one first.\<close>

definition ch_values :: "'a channel \<Rightarrow> 'a list" where
  "ch_values c = (case ch_rendezvous_value c of None \<Rightarrow> [] | Some v \<Rightarrow> [v]) @ ch_buffer c"

definition ch_pop :: "'a channel \<Rightarrow> 'a option \<times> 'a channel" where
  "ch_pop c = (case ch_receive c of (Inl _, c') \<Rightarrow> (None, c') | (Inr v, c') \<Rightarrow> (Some v, c'))"

definition ch_buffered :: "'a channel \<Rightarrow> bool" where
  "ch_buffered c \<longleftrightarrow> 0 < ch_capacity c \<and> ch_rendezvous_value c = None \<and>
     length (ch_buffer c) \<le> ch_capacity c"

interpretation ch: fifo_queue "\<lambda>c v. ch_send v c" ch_pop ch_values ch_buffered
  by unfold_locales
    (auto simp: ch_send_def ch_send_impl_def ch_buffered_def ch_values_def ch_pop_def
      ch_receive_def ch_receive_impl_def Let_def split: if_splits list.splits)

lemma ch_close_frame [simp]: "ch_values (ch_close c) = ch_values c"
  "ch_buffered (ch_close c) = ch_buffered c"
  by (simp_all add: ch_close_def ch_values_def ch_buffered_def)

lemma ch_calls_frame [simp]:
  "ch_capacity (snd (ch_send v c)) = ch_capacity c" "ch_closed (snd (ch_send v c)) = ch_closed c"
  "ch_capacity (snd (ch_pop c)) = ch_capacity c" "ch_closed (snd (ch_pop c)) = ch_closed c"
  by (simp_all add: ch_send_def ch_send_impl_def ch_pop_def ch_receive_def ch_receive_impl_def
      Let_def split: list.split option.split)

lemma ch_send_closed: "ch_closed c \<Longrightarrow> ch_send v c = (Inl (make_error closed None []), c)"
  by (simp add: ch_send_def ch_send_impl_def)

lemma ch_run_frame:
  "fifo_run (\<lambda>c v. ch_send v c) ch_pop c ops = (s, r, c') \<Longrightarrow>
   ch_capacity c' = ch_capacity c \<and> (ch_closed c \<longrightarrow> ch_closed c' \<and> s = [])"
proof (induction ops arbitrary: c s r)
  case Nil
  then show ?case by simp
next
  case (Cons op ops)
  show ?case
  proof (cases op)
    case (Push v)
    obtain s1 where "fifo_run (\<lambda>c v. ch_send v c) ch_pop (snd (ch_send v c)) ops = (s1, r, c')"
      "s = (case fst (ch_send v c) of Inl _ \<Rightarrow> s1 | Inr _ \<Rightarrow> v # s1)"
      using Cons.prems Push by (auto simp: Let_def split: prod.splits)
    then show ?thesis using Cons.IH by (auto simp: ch_send_closed)
  next
    case Pop
    obtain r1 where "fifo_run (\<lambda>c v. ch_send v c) ch_pop (snd (ch_pop c)) ops = (s, r1, c')"
      using Cons.prems Pop by (auto simp: Let_def split: prod.splits)
    then show ?thesis using Cons.IH by auto
  qed
qed

section \<open>Theorems\<close>

text \<open>
  C27. A buffered channel is a bounded first-in first-out queue that survives closing: any
  sequence of sends and receives delivers the accepted values in order, loses none and keeps
  at most \<open>capacity\<close> buffered; after closing, every send is refused with \<^verbatim>\<open>closed\<close>, the
  buffered values are still received in order, and then receivers get \<^verbatim>\<open>closed\<close>.
\<close>

theorem channel_fifo:
  assumes "0 < n"
    and "fifo_run (\<lambda>c v. ch_send v c) ch_pop (ch_create n) ops = (sent, received, c)"
    and "fifo_run (\<lambda>c v. ch_send v c) ch_pop (ch_close c) ops' = (sent', received', c')"
  shows "sent = received @ ch_buffer c \<and> length (ch_buffer c) \<le> n \<and>
    sent' = [] \<and> ch_buffer c = received' @ ch_buffer c' \<and>
    (ch_buffer c' = [] \<longrightarrow> ch_receive_impl guard c' = (Inl (make_error closed None []), c'))"
proof -
  have init: "ch_buffered (ch_create n :: 'a channel)" "ch_values (ch_create n :: 'a channel) = []"
    using assms(1) by (simp_all add: ch_buffered_def ch_values_def ch_create_def)
  note run = ch.run_conserves [OF init(1) assms(2)]
  then have c: "ch_buffered c" "sent = received @ ch_values c" using init(2) by simp_all
  have n: "ch_capacity c = n" using ch_run_frame [OF assms(2)] by (simp add: ch_create_def)
  have "ch_buffered (ch_close c)" using c(1) by simp
  note run' = ch.run_conserves [OF this assms(3)]
  have "ch_closed (ch_close c)" by (simp add: ch_close_def)
  then have closed': "ch_closed c'" "sent' = []" using ch_run_frame [OF assms(3)] by auto
  show ?thesis
    using c n run' closed'
    by (auto simp: ch_buffered_def ch_values_def ch_receive_impl_def ch_close_def)
qed

theorem channel_fifo_witness:
  "\<exists>c. fifo_run (\<lambda>c v. ch_send v c) ch_pop (ch_create 1) [Push (3::nat), Push 4, Pop] = ([3], [3], c) \<and>
     ch_buffer c = []"
proof -
  obtain c where run: "fifo_run (\<lambda>c v. ch_send v c) ch_pop (ch_create 1) [Push (3::nat), Push 4, Pop] =
      ([3], [3], c)"
    by (simp add: ch_send_def ch_send_impl_def ch_create_def ch_pop_def ch_receive_def
        ch_receive_impl_def)
  from channel_fifo [OF _ run fifo_run.simps(1)] show ?thesis using run by auto
qed

text \<open>
  A rendezvous channel keeps the value handed to a waiting receiver in a single slot. A
  receiver that polls twice before a sender comes counts as two waiting receivers; two sends
  then both succeed, and the second overwrites the first value.
\<close>

theorem rendezvous_value_lost:
  "\<exists>c1 c2 c3 c4 c5 e1 e2 e3.
     ch_receive (ch_create 0) = (Inl e1, c1) \<and> ch_receive c1 = (Inl e2, c2) \<and>
     ch_send (1 :: nat) c2 = (Inr (), c3) \<and> ch_send 2 c3 = (Inr (), c4) \<and>
     ch_receive c4 = (Inr 2, c5) \<and> fst (ch_receive c5) = Inl e3"
  by (simp add: ch_receive_def ch_receive_impl_def ch_create_def ch_send_def ch_send_impl_def)

end
