(* ===== verification/Executors.thy ===== *)
theory Executors
  imports Fifo Scheduler
begin

text \<open>
  \<^verbatim>\<open>include/voris/io/compute_executor.hpp\<close>, \<^verbatim>\<open>include/voris/io/blocking_executor.hpp\<close> and
  \<^verbatim>\<open>src/blocking_executor.cpp\<close>. The operations of both executors are critical sections of one
  mutex. The compute executor runs its queue on the thread that calls \<^verbatim>\<open>run_until_idle\<close>. The
  blocking executor has worker threads: their loops, submitters and \<^verbatim>\<open>shutdown\<close> interleave in
  the step relation below. A \<^verbatim>\<open>capacity_reservation\<close> is the identity of the executor whose
  slot it owns, or nothing.
\<close>

section \<open>Compute executor\<close>

record 'w compute_executor = thread_state +
  ce_id :: scheduler_id
  ce_capacity :: nat
  ce_queue :: "'w continuation list"
  ce_capacity_waiters :: nat
  ce_reserved_slots :: nat
  ce_shutting_down :: bool

type_synonym capacity_reservation = "scheduler_id option"

definition ce_create :: "scheduler_id \<Rightarrow> nat \<Rightarrow> 'w compute_executor" where
  "ce_create i queue_limit = \<lparr>tls_current_scheduler = None, ce_id = i, ce_capacity = queue_limit,
     ce_queue = [], ce_capacity_waiters = 0, ce_reserved_slots = 0, ce_shutting_down = False\<rparr>"

definition has_capacity_locked :: "('w, 'e) compute_executor_scheme \<Rightarrow> bool" where
  "has_capacity_locked s =
     (if ce_capacity s = 0 \<or> length (ce_queue s) \<ge> ce_capacity s then False
      else ce_reserved_slots s < ce_capacity s - length (ce_queue s))"

definition record_capacity_waiter_locked ::
  "('w, 'e) compute_executor_scheme \<Rightarrow> ('w, 'e) compute_executor_scheme" where
  "record_capacity_waiter_locked s =
     (let waiter_limit = (if ce_capacity s = 0 then 1 else ce_capacity s)
      in if ce_capacity_waiters s < waiter_limit
         then s\<lparr>ce_capacity_waiters := ce_capacity_waiters s + 1\<rparr> else s)"

definition ce_submit ::
  "'w continuation \<Rightarrow> ('w, 'e) compute_executor_scheme \<Rightarrow>
     void_result \<times> ('w, 'e) compute_executor_scheme" where
  "ce_submit work s =
     (if ce_shutting_down s
      then (Inl (make_error_diagnostic closed ''compute executor is shutting down''), s)
      else if \<not> has_capacity_locked s
      then (Inl (make_error_diagnostic resource_exhausted ''compute executor queue is full''),
            record_capacity_waiter_locked s)
      else (Inr (), s\<lparr>ce_queue := ce_queue s @ [work], ce_capacity_waiters := 0\<rparr>))"

definition ce_try_reserve_capacity ::
  "('w, 'e) compute_executor_scheme \<Rightarrow>
     capacity_reservation io_result \<times> ('w, 'e) compute_executor_scheme" where
  "ce_try_reserve_capacity s =
     (if ce_shutting_down s
      then (Inl (make_error_diagnostic closed ''compute executor is shutting down''), s)
      else if \<not> has_capacity_locked s
      then (Inl (make_error_diagnostic resource_exhausted
                   ''compute executor capacity is unavailable''),
            record_capacity_waiter_locked s)
      else (Inr (Some (ce_id s)),
            s\<lparr>ce_reserved_slots := ce_reserved_slots s + 1, ce_capacity_waiters := 0\<rparr>))"

text \<open>\<^verbatim>\<open>capacity_reservation::release\<close> on the executor the reservation points to.\<close>

definition reservation_release ::
  "capacity_reservation \<Rightarrow> ('w, 'e) compute_executor_scheme \<Rightarrow> ('w, 'e) compute_executor_scheme" where
  "reservation_release res s =
     (if res \<noteq> Some (ce_id s) then s
      else if \<not> ce_shutting_down s \<and> ce_reserved_slots s \<noteq> 0
      then s\<lparr>ce_reserved_slots := ce_reserved_slots s - 1, ce_capacity_waiters := 0\<rparr> else s)"

text \<open>The reservation is taken by value: whatever is not disarmed is released on return.\<close>

definition ce_submit_reserved ::
  "capacity_reservation \<Rightarrow> 'w continuation \<Rightarrow> ('w, 'e) compute_executor_scheme \<Rightarrow>
     void_result \<times> ('w, 'e) compute_executor_scheme" where
  "ce_submit_reserved reservation work s =
     (let owns = (reservation = Some (ce_id s))
      in if ce_shutting_down s
         then (Inl (make_error_diagnostic closed ''compute executor is shutting down''),
               if owns then s else reservation_release reservation s)
         else if \<not> owns \<or> ce_reserved_slots s = 0 \<or> length (ce_queue s) \<ge> ce_capacity s
         then (Inl (make_error_diagnostic invalid_state
                      ''invalid compute executor capacity reservation''),
               reservation_release reservation s)
         else (Inr (), s\<lparr>ce_reserved_slots := ce_reserved_slots s - 1,
                         ce_queue := ce_queue s @ [work], ce_capacity_waiters := 0\<rparr>))"

definition ce_pop ::
  "('w, 'e) compute_executor_scheme \<Rightarrow> 'w continuation option \<times> ('w, 'e) compute_executor_scheme" where
  "ce_pop s =
     (case ce_queue s of
        [] \<Rightarrow> (None, s)
      | k # ks \<Rightarrow> (Some k, s\<lparr>ce_queue := ks, ce_capacity_waiters := 0\<rparr>))"

definition ce_run_one ::
  "('w \<Rightarrow> ('w, 'e) compute_executor_scheme \<Rightarrow> ('w, 'e) compute_executor_scheme) \<Rightarrow>
     ('w, 'e) compute_executor_scheme \<Rightarrow> bool \<times> ('w, 'e) compute_executor_scheme" where
  "ce_run_one exec s =
     (case ce_pop s of
        (None, s1) \<Rightarrow> (False, s1)
      | (Some k, s1) \<Rightarrow>
          (True, case k of None \<Rightarrow> s1 | Some w \<Rightarrow> in_scheduler_scope (ce_id s1) (exec w) s1))"

definition ce_run_until_idle ::
  "('w \<Rightarrow> ('w, 'e) compute_executor_scheme \<Rightarrow> ('w, 'e) compute_executor_scheme) \<Rightarrow>
     ('w, 'e) compute_executor_scheme \<Rightarrow> (nat \<times> ('w, 'e) compute_executor_scheme) option" where
  "ce_run_until_idle exec s = count_while (ce_run_one exec) 0 s"

definition ce_request_shutdown ::
  "('w, 'e) compute_executor_scheme \<Rightarrow> ('w, 'e) compute_executor_scheme" where
  "ce_request_shutdown s =
     s\<lparr>ce_shutting_down := True, ce_capacity_waiters := 0, ce_reserved_slots := 0\<rparr>"

definition ce_shutdown ::
  "('w, 'e) compute_executor_scheme \<Rightarrow> ('w, 'e) compute_executor_scheme" where
  "ce_shutdown s = ce_request_shutdown s"

definition ce_get_queued :: "('w, 'e) compute_executor_scheme \<Rightarrow> nat" where
  "ce_get_queued s = length (ce_queue s)"

definition ce_get_capacity_waiters :: "('w, 'e) compute_executor_scheme \<Rightarrow> nat" where
  "ce_get_capacity_waiters s = ce_capacity_waiters s"

definition ce_get_shutting_down :: "('w, 'e) compute_executor_scheme \<Rightarrow> bool" where
  "ce_get_shutting_down s = ce_shutting_down s"

definition ce_inv :: "('w, 'e) compute_executor_scheme \<Rightarrow> bool" where
  "ce_inv s \<longleftrightarrow> length (ce_queue s) + ce_reserved_slots s \<le> ce_capacity s \<and>
     (ce_shutting_down s \<longrightarrow> ce_reserved_slots s = 0)"

lemmas ce_op_defs = ce_create_def has_capacity_locked_def record_capacity_waiter_locked_def
  ce_submit_def ce_try_reserve_capacity_def reservation_release_def ce_submit_reserved_def
  ce_pop_def ce_request_shutdown_def Let_def

lemma ce_inv_create [vio_invs]: "ce_inv (ce_create i n)"
  by (simp add: ce_inv_def ce_op_defs)

lemma ce_inv_calls [vio_invs]:
  "ce_inv s \<Longrightarrow> ce_inv (snd (ce_submit k s))"
  "ce_inv s \<Longrightarrow> ce_inv (snd (ce_try_reserve_capacity s))"
  "ce_inv s \<Longrightarrow> ce_inv (reservation_release res s)"
  "ce_inv s \<Longrightarrow> ce_inv (snd (ce_submit_reserved res k s))"
  "ce_inv s \<Longrightarrow> ce_inv (snd (ce_pop s))"
  "ce_inv s \<Longrightarrow> ce_inv (ce_request_shutdown s)"
  by (auto simp: ce_inv_def ce_op_defs split: list.splits)

interpretation ce: fifo_queue "\<lambda>s k. ce_submit k s" ce_pop ce_queue ce_inv
  by unfold_locales
    (use ce_inv_calls in \<open>auto simp: ce_op_defs ce_inv_def split: if_splits list.splits\<close>)

interpretation ce_run: work_source ce_run_one ce_queue compute_executor.more
proof
  fix exec and s :: "('w, 'e) compute_executor_scheme"
  assume "ce_queue s = []"
  then show "\<exists>s'. ce_run_one exec s = (False, s') \<and> ce_queue s' = [] \<and>
      compute_executor.more s' = compute_executor.more s"
    by (simp add: ce_run_one_def ce_pop_def)
next
  fix exec k ks and s :: "('w, 'e) compute_executor_scheme"
  assume q: "ce_queue s = k # ks"
  let ?s1 = "s\<lparr>ce_queue := ks, ce_capacity_waiters := 0\<rparr>"
  let ?s0 = "?s1\<lparr>tls_current_scheduler := Some (ce_id s)\<rparr>"
  show "\<exists>s0 s'. ce_queue s0 = ks \<and> compute_executor.more s0 = compute_executor.more s \<and>
      ce_run_one exec s = (True, s') \<and> ce_queue s' = ce_queue (run_if_set exec k s0) \<and>
      compute_executor.more s' = compute_executor.more (run_if_set exec k s0)"
    using q by (cases k) (auto simp: ce_run_one_def ce_pop_def in_scheduler_scope_def
        scope_enter_def scope_leave_def intro: exI [of _ ?s0])
qed

section \<open>Blocking executor\<close>

record 'w blocking_executor =
  be_queue_limit :: nat
  be_queue :: "'w continuation list"
  be_shutting_down :: bool

definition be_create :: "nat \<Rightarrow> 'w blocking_executor" where
  "be_create queue_limit = \<lparr>be_queue_limit = queue_limit, be_queue = [], be_shutting_down = False\<rparr>"

definition normalized_worker_count :: "nat \<Rightarrow> nat" where
  "normalized_worker_count worker_count = max worker_count 1"

definition be_submit ::
  "'w blocking_executor \<Rightarrow> 'w continuation \<Rightarrow> void_result \<times> 'w blocking_executor" where
  "be_submit s work =
     (if be_shutting_down s
      then (Inl (make_error_diagnostic closed ''blocking executor is shutting down''), s)
      else if be_queue_limit s = 0 \<or> length (be_queue s) \<ge> be_queue_limit s
      then (Inl (make_error_diagnostic resource_exhausted ''blocking executor queue is full''), s)
      else (Inr (), s\<lparr>be_queue := be_queue s @ [work]\<rparr>))"

definition be_request_shutdown :: "'w blocking_executor \<Rightarrow> 'w blocking_executor" where
  "be_request_shutdown s = s\<lparr>be_shutting_down := True\<rparr>"

definition be_get_queued :: "'w blocking_executor \<Rightarrow> nat" where
  "be_get_queued s = length (be_queue s)"

definition be_get_shutting_down :: "'w blocking_executor \<Rightarrow> bool" where
  "be_get_shutting_down s = be_shutting_down s"

text \<open>The predicate of the workers' wait, and the section after it.\<close>

definition be_wait_predicate :: "'w blocking_executor \<Rightarrow> bool" where
  "be_wait_predicate s \<longleftrightarrow> be_shutting_down s \<or> be_queue s \<noteq> []"

datatype 'w worker_action = Return_worker | Continue_worker | Run_work "'w continuation"

definition be_take :: "'w blocking_executor \<Rightarrow> 'w worker_action \<times> 'w blocking_executor" where
  "be_take s =
     (case be_queue s of
        [] \<Rightarrow> (if be_shutting_down s then Return_worker else Continue_worker, s)
      | k # ks \<Rightarrow> (Run_work k, s\<lparr>be_queue := ks\<rparr>))"

datatype 'w worker_state = Waiting | Working "'w continuation" | Returned

text \<open>
  The executor, its workers in the order of creation, and the accepted and completed work.
\<close>

record 'w executor_sys =
  es_state :: "'w blocking_executor"
  es_workers :: "'w worker_state list"
  es_accepted :: "'w continuation list"
  es_completed :: "'w continuation list"

definition es_init :: "nat \<Rightarrow> nat \<Rightarrow> 'w executor_sys" where
  "es_init worker_count queue_limit =
     \<lparr>es_state = be_create queue_limit,
      es_workers = replicate (normalized_worker_count worker_count) Waiting,
      es_accepted = [], es_completed = []\<rparr>"

inductive executor_step :: "'w executor_sys \<Rightarrow> 'w executor_sys \<Rightarrow> bool" where
  submit_ok:
    "be_submit (es_state g) k = (Inr (), s) \<Longrightarrow>
     executor_step g (g\<lparr>es_state := s, es_accepted := es_accepted g @ [k]\<rparr>)"
| submit_fail:
    "be_submit (es_state g) k = (Inl e, s) \<Longrightarrow> executor_step g (g\<lparr>es_state := s\<rparr>)"
| shutdown:
    "executor_step g (g\<lparr>es_state := be_request_shutdown (es_state g)\<rparr>)"
| take:
    "\<lbrakk>i < length (es_workers g); es_workers g ! i = Waiting; be_wait_predicate (es_state g);
      be_take (es_state g) = (Run_work k, s)\<rbrakk> \<Longrightarrow>
     executor_step g (g\<lparr>es_state := s, es_workers := (es_workers g)[i := Working k]\<rparr>)"
| return:
    "\<lbrakk>i < length (es_workers g); es_workers g ! i = Waiting; be_wait_predicate (es_state g);
      be_take (es_state g) = (Return_worker, s)\<rbrakk> \<Longrightarrow>
     executor_step g (g\<lparr>es_state := s, es_workers := (es_workers g)[i := Returned]\<rparr>)"
| work_done:
    "\<lbrakk>i < length (es_workers g); es_workers g ! i = Working k\<rbrakk> \<Longrightarrow>
     executor_step g (g\<lparr>es_workers := (es_workers g)[i := Waiting],
                        es_completed := es_completed g @ [k]\<rparr>)"

inductive executor_reachable :: "'w executor_sys \<Rightarrow> 'w executor_sys \<Rightarrow> bool" for g0 where
  initial: "executor_reachable g0 g0"
| step: "\<lbrakk>executor_reachable g0 g; executor_step g g'\<rbrakk> \<Longrightarrow> executor_reachable g0 g'"

text \<open>What the workers are running.\<close>

fun worker_item :: "'w worker_state \<Rightarrow> 'w continuation list" where
  "worker_item (Working k) = [k]"
| "worker_item _ = []"

definition es_running :: "'w executor_sys \<Rightarrow> 'w continuation multiset" where
  "es_running g = (\<Sum>w \<leftarrow> es_workers g. mset (worker_item w))"

definition es_inv :: "'w executor_sys \<Rightarrow> bool" where
  "es_inv g \<longleftrightarrow>
     mset (es_accepted g) = mset (es_completed g) + es_running g + mset (be_queue (es_state g)) \<and>
     length (be_queue (es_state g)) \<le> be_queue_limit (es_state g) \<and>
     (Returned \<in> set (es_workers g) \<longrightarrow> be_shutting_down (es_state g) \<and> be_queue (es_state g) = [])"

lemma running_update:
  assumes "i < length ws"
  shows "(\<Sum>w \<leftarrow> ws[i := v]. mset (worker_item w)) + mset (worker_item (ws ! i)) =
    (\<Sum>w \<leftarrow> ws. mset (worker_item w)) + mset (worker_item v)"
  using assms
proof (induction ws arbitrary: i)
  case Nil
  then show ?case by simp
next
  case (Cons w ws)
  then show ?case
    by (cases i) (auto simp: ac_simps)
qed

lemma es_inv_init: "es_inv (es_init n limit)"
proof -
  have "(\<Sum>w \<leftarrow> replicate k (Waiting :: 'a worker_state). mset (worker_item w)) = {#}" for k
    by (induction k) auto
  then show ?thesis
    by (auto simp: es_inv_def es_init_def be_create_def es_running_def)
qed

lemma es_inv_step:
  assumes inv: "es_inv g" and "executor_step g g'"
  shows "es_inv g'"
  using assms(2)
proof cases
  case (submit_ok k s)
  then have "be_queue s = be_queue (es_state g) @ [k]" "\<not> be_shutting_down (es_state g)"
    "length (be_queue s) \<le> be_queue_limit s" "be_queue_limit s = be_queue_limit (es_state g)"
    by (auto simp: be_submit_def split: if_splits)
  then show ?thesis using inv submit_ok by (auto simp: es_inv_def es_running_def)
next
  case (submit_fail k e s)
  then have "s = es_state g" by (auto simp: be_submit_def split: if_splits)
  then show ?thesis using inv submit_fail by simp
next
  case shutdown
  then show ?thesis using inv by (auto simp: es_inv_def es_running_def be_request_shutdown_def)
next
  case (take i k s)
  then have s: "be_queue (es_state g) = k # be_queue s" "be_shutting_down s = be_shutting_down (es_state g)"
    "be_queue_limit s = be_queue_limit (es_state g)"
    by (auto simp: be_take_def split: list.splits if_splits)
  have "es_running g' = es_running g + {#k#}"
    using running_update [OF take(2), of "Working k"] take by (simp add: es_running_def)
  moreover have "Returned \<in> set (es_workers g') \<longrightarrow> Returned \<in> set (es_workers g)"
    using take set_update_subset_insert [of "es_workers g" i "Working k"] by auto
  ultimately show ?thesis using inv take s by (auto simp: es_inv_def)
next
  case (return i s)
  then have s: "s = es_state g" "be_queue (es_state g) = []" "be_shutting_down (es_state g)"
    by (auto simp: be_take_def split: list.splits if_splits)
  have "es_running g' = es_running g"
    using running_update [OF return(2), of Returned] return by (simp add: es_running_def)
  then show ?thesis using inv return s by (auto simp: es_inv_def)
next
  case (work_done i k)
  have "es_running g' + {#k#} = es_running g"
    using running_update [OF work_done(2), of Waiting] work_done by (simp add: es_running_def)
  moreover have "Returned \<in> set (es_workers g') \<longrightarrow> Returned \<in> set (es_workers g)"
    using work_done set_update_subset_insert [of "es_workers g" i Waiting] by auto
  ultimately show ?thesis using inv work_done by (auto simp: es_inv_def ac_simps)
qed

lemma es_inv_reachable:
  assumes "executor_reachable (es_init n limit) g"
  shows "es_inv g"
  using assms by induction (auto intro: es_inv_init es_inv_step)

lemma es_workers_length:
  assumes "executor_reachable g0 g"
  shows "length (es_workers g) = length (es_workers g0)"
  using assms by induction (auto elim!: executor_step.cases)

subsection \<open>Draining\<close>

text \<open>
  A worker's moves after shutdown: every one takes work, finishes work or returns, so this
  measure of the moves left decreases.
\<close>

fun worker_moves :: "'w worker_state \<Rightarrow> nat" where
  "worker_moves Waiting = 1"
| "worker_moves (Working k) = 2"
| "worker_moves Returned = 0"

definition es_moves :: "'w executor_sys \<Rightarrow> nat" where
  "es_moves g = 2 * length (be_queue (es_state g)) + (\<Sum>w \<leftarrow> es_workers g. worker_moves w)"

lemma worker_moves_update:
  assumes "i < length ws"
  shows "(\<Sum>w \<leftarrow> ws[i := v]. worker_moves w) + worker_moves (ws ! i) =
    (\<Sum>w \<leftarrow> ws. worker_moves w) + worker_moves v"
  using assms
proof (induction ws arbitrary: i)
  case (Cons w ws)
  then show ?case by (cases i) auto
qed simp

lemma executor_step_moves:
  assumes "executor_step g g'" and stop: "be_shutting_down (es_state g)"
  shows "be_shutting_down (es_state g') \<and>
    (if es_workers g' = es_workers g then es_moves g' = es_moves g else es_moves g' < es_moves g)"
  using assms(1)
proof cases
  case (submit_ok k s)
  then show ?thesis using stop by (simp add: be_submit_def)
next
  case (submit_fail k e s)
  then show ?thesis using stop by (simp add: be_submit_def es_moves_def)
next
  case shutdown
  then show ?thesis by (simp add: be_request_shutdown_def es_moves_def)
next
  case (take i k s)
  then have s: "be_queue (es_state g) = k # be_queue s" "be_shutting_down s"
    using stop by (auto simp: be_take_def split: list.splits if_splits)
  show ?thesis using worker_moves_update [OF take(2), of "Working k"] take s
    by (auto simp: es_moves_def)
next
  case (return i s)
  then have "s = es_state g" by (auto simp: be_take_def split: list.splits if_splits)
  then show ?thesis using worker_moves_update [OF return(2), of Returned] return stop
    by (auto simp: es_moves_def)
next
  case (work_done i k)
  show ?thesis using worker_moves_update [OF work_done(2), of Waiting] work_done stop
    by (auto simp: es_moves_def)
qed

lemma es_moves_bound:
  "es_moves g \<le> 2 * length (be_queue (es_state g)) + 2 * length (es_workers g)"
proof -
  have "(\<Sum>w \<leftarrow> ws. worker_moves w) \<le> 2 * length ws" for ws :: "'a worker_state list"
  proof (induction ws)
    case (Cons w ws)
    then show ?case by (cases w) auto
  qed simp
  then show ?thesis by (simp add: es_moves_def)
qed

lemma es_drained:
  assumes inv: "es_inv g" and ne: "es_workers g \<noteq> []"
    and all: "\<forall>w \<in> set (es_workers g). w = Returned"
  shows "mset (es_completed g) = mset (es_accepted g)"
proof -
  have "Returned \<in> set (es_workers g)" using ne all by (cases "es_workers g") auto
  moreover have "(\<Sum>w \<leftarrow> ws. mset (worker_item w)) = {#}" if "\<forall>w \<in> set ws. w = Returned"
    for ws :: "'a worker_state list"
    using that by (induction ws) auto
  then have "es_running g = {#}" using all by (simp add: es_running_def)
  ultimately show ?thesis using inv by (auto simp: es_inv_def)
qed

lemma executor_progress:
  assumes stop: "be_shutting_down (es_state g)" and live: "\<exists>w \<in> set (es_workers g). w \<noteq> Returned"
  shows "\<exists>g'. executor_step g g' \<and> es_workers g' \<noteq> es_workers g"
proof -
  obtain i where i: "i < length (es_workers g)" "es_workers g ! i \<noteq> Returned"
    using live by (metis in_set_conv_nth)
  have moved: "(es_workers g)[i := v] \<noteq> es_workers g" if "v \<noteq> es_workers g ! i" for v
    using i(1) that by (metis nth_list_update_eq)
  show ?thesis
  proof (cases "es_workers g ! i")
    case Waiting
    show ?thesis
    proof (cases "be_queue (es_state g)")
      case Nil
      then have "be_take (es_state g) = (Return_worker, es_state g)"
        using stop by (simp add: be_take_def)
      from executor_step.return [OF i(1) Waiting _ this] show ?thesis
        using stop moved [of Returned] Waiting by (auto simp: be_wait_predicate_def)
    next
      case (Cons k ks)
      then have "be_take (es_state g) = (Run_work k, (es_state g)\<lparr>be_queue := ks\<rparr>)"
        by (simp add: be_take_def)
      from executor_step.take [OF i(1) Waiting _ this] show ?thesis
        using stop moved [of "Working k"] Waiting by (auto simp: be_wait_predicate_def)
    qed
  next
    case (Working k)
    from executor_step.work_done [OF i(1) Working] show ?thesis
      using moved [of Waiting] Working by auto
  qed (use i in simp)
qed

subsection \<open>Joining the workers\<close>

text \<open>
  \<^verbatim>\<open>join_workers\<close>: the first caller outside the workers takes the threads and joins them, later
  ones wait for it; a worker that calls it returns at once.
\<close>

record join_state =
  js_workers :: "nat list"
  js_started :: bool
  js_complete :: bool

datatype join_action = Join_return | Join_wait | Join_threads "nat list"

definition join_begin :: "bool \<Rightarrow> join_state \<Rightarrow> join_action \<times> join_state" where
  "join_begin called_from_worker j =
     (if called_from_worker then (Join_return, j)
      else if js_complete j then (Join_return, j)
      else if js_started j then (Join_wait, j)
      else (Join_threads (js_workers j), j\<lparr>js_started := True, js_workers := []\<rparr>))"

definition join_finish :: "join_state \<Rightarrow> join_state" where
  "join_finish j = j\<lparr>js_complete := True\<rparr>"

text \<open>No thread is joined twice: once one caller has the threads, no other gets any.\<close>

lemma join_once:
  assumes "join_begin w j = (Join_threads ts, j1)"
  shows "\<not> w \<and> fst (join_begin w' j1) \<noteq> Join_threads ts'"
    and "fst (join_begin w' (join_finish j1)) = Join_return"
  using assms by (auto simp: join_begin_def join_finish_def split: if_splits)

section \<open>Theorems\<close>

text \<open>
  The compute executor never overcommits: in every state reached by its calls, queued
  work and reserved slots together fit the capacity; so, until shutdown, a reservation can
  always be redeemed: submitting with it is accepted, at the back of the queue.
\<close>

theorem compute_executor_reservation:
  assumes "ce_inv s"
  shows "length (ce_queue s) + ce_reserved_slots s \<le> ce_capacity s \<and>
    (\<not> ce_shutting_down s \<and> 0 < ce_reserved_slots s \<longrightarrow>
       (\<exists>s'. ce_submit_reserved (Some (ce_id s)) k s = (Inr (), s') \<and> ce_inv s' \<and>
          ce_queue s' = ce_queue s @ [k] \<and> ce_reserved_slots s' + 1 = ce_reserved_slots s)) \<and>
    (ce_shutting_down s \<longrightarrow> (\<exists>e. ce_submit k s = (Inl e, s) \<and> classification e = closed)) \<and>
    ce_inv (snd (ce_submit k s)) \<and> ce_inv (snd (ce_try_reserve_capacity s)) \<and>
    ce_inv (snd (ce_submit_reserved res k s)) \<and> ce_inv (reservation_release res s) \<and>
    ce_inv (snd (ce_pop s)) \<and> ce_inv (ce_request_shutdown s)"
  using assms ce_inv_calls [of s] by (auto simp: ce_inv_def ce_submit_reserved_def ce_submit_def)

theorem compute_executor_reservation_witness:
  "\<exists>s'. ce_submit_reserved (Some 1) (Some (5::nat)) ((ce_create 1 2 :: nat compute_executor)
      \<lparr>ce_reserved_slots := 1\<rparr>) = (Inr (), s') \<and> ce_queue s' = [Some 5]"
proof -
  let ?s = "(ce_create 1 2 :: nat compute_executor)\<lparr>ce_reserved_slots := 1\<rparr>"
  have "ce_inv ?s" by (simp add: ce_inv_def ce_create_def)
  from compute_executor_reservation [OF this, of "Some 5" None] show ?thesis
    by (auto simp: ce_create_def)
qed

text \<open>
  C30. The blocking executor runs accepted work exactly once: in every interleaving of
  submitters, shutdown and any number of workers, accepted work is completed, being run or
  queued, counted with multiplicity; the queue respects its limit; a worker returns only
  after shutdown with an empty queue, so when all workers have returned, everything accepted
  has been completed; and after shutdown some worker can always move until all have returned.
\<close>

theorem blocking_executor_exactly_once:
  assumes "executor_reachable (es_init n limit) g"
  shows "mset (es_accepted g) = mset (es_completed g) + es_running g +
      mset (be_queue (es_state g)) \<and>
    length (be_queue (es_state g)) \<le> be_queue_limit (es_state g) \<and>
    ((\<forall>w \<in> set (es_workers g). w = Returned) \<longrightarrow> mset (es_completed g) = mset (es_accepted g)) \<and>
    (be_shutting_down (es_state g) \<and> (\<exists>w \<in> set (es_workers g). w \<noteq> Returned) \<longrightarrow>
       (\<exists>g'. executor_step g g' \<and> es_workers g' \<noteq> es_workers g))"
proof -
  have inv: "es_inv g" using es_inv_reachable assms .
  have "length (es_workers g) = normalized_worker_count n"
    using es_workers_length [OF assms] by (simp add: es_init_def)
  then have ne: "es_workers g \<noteq> []" by (auto simp: normalized_worker_count_def)
  show ?thesis
    using inv es_drained [OF inv ne] executor_progress [of g] by (auto simp: es_inv_def)
qed

theorem blocking_executor_exactly_once_witness:
  "\<exists>g. executor_reachable (es_init 0 3) g \<and> es_accepted g = [Some (7::nat)] \<and>
     mset (es_accepted g) = mset (es_completed g) + es_running g + mset (be_queue (es_state g))"
proof -
  let ?g0 = "es_init 0 3 :: nat executor_sys"
  let ?s = "(es_state ?g0)\<lparr>be_queue := [Some 7]\<rparr>"
  have "be_submit (es_state ?g0) (Some 7) = (Inr (), ?s)"
    by (simp add: es_init_def be_create_def be_submit_def)
  from executor_reachable.step [OF executor_reachable.initial executor_step.submit_ok [OF this]]
  have "executor_reachable ?g0 (?g0\<lparr>es_state := ?s, es_accepted := es_accepted ?g0 @ [Some 7]\<rparr>)" .
  from blocking_executor_exactly_once [OF this] this show ?thesis
    by (intro exI [of _ "?g0\<lparr>es_state := ?s, es_accepted := es_accepted ?g0 @ [Some 7]\<rparr>"])
      (simp add: es_init_def)
qed

end
