(* ===== verification/Executor_Join.thy ===== *)
theory Executor_Join
  imports Executors
begin

text \<open>
  The end of a blocking executor, \<^verbatim>\<open>shutdown\<close> and the destructor in \<^verbatim>\<open>src/blocking_executor.cpp\<close>: any
  number of threads call \<^verbatim>\<open>join_workers\<close> while the workers are still running. The first caller that
  is not a worker takes the thread objects and joins them one by one, later ones wait for it, a
  worker returns at once. A join of a thread waits until it has left \<^verbatim>\<open>worker_loop\<close>, which is an
  enabledness condition. A thread that joins itself calls \<^verbatim>\<open>std::terminate\<close>.
\<close>

section \<open>Callers\<close>

text \<open>The thread-local pointer to the executor whose worker the thread is, and its scope.\<close>

record worker_tls =
  current_worker_state :: "nat option"

definition worker_scope_enter :: "nat \<Rightarrow> worker_tls \<Rightarrow> nat option \<times> worker_tls" where
  "worker_scope_enter state t = (current_worker_state t, t\<lparr>current_worker_state := Some state\<rparr>)"

definition worker_scope_leave :: "nat option \<Rightarrow> worker_tls \<Rightarrow> worker_tls" where
  "worker_scope_leave previous t = t\<lparr>current_worker_state := previous\<rparr>"

definition called_from_worker :: "nat \<Rightarrow> worker_tls \<Rightarrow> bool" where
  "called_from_worker state t \<longleftrightarrow> current_worker_state t = Some state"

text \<open>A thread inside \<^verbatim>\<open>worker_loop\<close> of an executor is in that executor's scope, others are not.\<close>

lemma called_from_worker_scope:
  "called_from_worker s (snd (worker_scope_enter s t))"
  "worker_scope_leave (fst (worker_scope_enter s t)) (snd (worker_scope_enter s t)) = t"
  by (simp_all add: called_from_worker_def worker_scope_enter_def worker_scope_leave_def)

datatype join_caller =
    Joining "nat list"
  | Awaiting_join
  | Join_returned
  | Terminated

record join_sys =
  jn_state :: join_state
  jn_callers :: "nat \<rightharpoonup> join_caller"
  jn_exited :: "nat set"
  jn_joined :: "nat list"

definition jn_init :: "nat list \<Rightarrow> join_sys" where
  "jn_init workers = \<lparr>jn_state = \<lparr>js_workers = workers, js_started = False, js_complete = False\<rparr>,
     jn_callers = Map.empty, jn_exited = {}, jn_joined = []\<rparr>"

fun after_begin :: "join_action \<Rightarrow> join_caller" where
  "after_begin Join_return = Join_returned"
| "after_begin Join_wait = Awaiting_join"
| "after_begin (Join_threads ts) = Joining ts"

text \<open>
  \<open>workers\<close> are the threads of the executor. A caller makes one call at a time; a new call
  starts when there is none or the last one has returned. A step is labelled with what moves: a
  worker that leaves its loop, a new call of \<^verbatim>\<open>join_workers\<close>, or the call thread \<open>t\<close> is in going on.
\<close>

datatype join_move = Exit nat | Call nat | Go nat

inductive join_step :: "nat list \<Rightarrow> join_sys \<Rightarrow> join_move \<Rightarrow> join_sys \<Rightarrow> bool" for workers where
  worker_exit:
    "u \<in> set workers \<Longrightarrow> join_step workers g (Exit u) (g\<lparr>jn_exited := insert u (jn_exited g)\<rparr>)"
| call:
    "\<lbrakk>jn_callers g t = None \<or> jn_callers g t = Some Join_returned; t \<in> set workers \<longrightarrow> t \<notin> jn_exited g;
      join_begin (t \<in> set workers) (jn_state g) = (a, j)\<rbrakk> \<Longrightarrow>
     join_step workers g (Call t) (g\<lparr>jn_state := j, jn_callers := (jn_callers g)(t \<mapsto> after_begin a)\<rparr>)"
| join_self:
    "\<lbrakk>jn_callers g t = Some (Joining (u # us)); u \<notin> set (jn_joined g); u = t\<rbrakk> \<Longrightarrow>
     join_step workers g (Go t) (g\<lparr>jn_callers := (jn_callers g)(t \<mapsto> Terminated)\<rparr>)"
| join_skip:
    "\<lbrakk>jn_callers g t = Some (Joining (u # us)); u \<in> set (jn_joined g)\<rbrakk> \<Longrightarrow>
     join_step workers g (Go t) (g\<lparr>jn_callers := (jn_callers g)(t \<mapsto> Joining us)\<rparr>)"
| join_thread:
    "\<lbrakk>jn_callers g t = Some (Joining (u # us)); u \<notin> set (jn_joined g); u \<noteq> t; u \<in> jn_exited g\<rbrakk> \<Longrightarrow>
     join_step workers g (Go t) (g\<lparr>jn_callers := (jn_callers g)(t \<mapsto> Joining us), jn_joined := jn_joined g @ [u]\<rparr>)"
| finish:
    "jn_callers g t = Some (Joining []) \<Longrightarrow>
     join_step workers g (Go t) (g\<lparr>jn_state := join_finish (jn_state g),
                                   jn_callers := (jn_callers g)(t \<mapsto> Join_returned)\<rparr>)"
| wake:
    "\<lbrakk>jn_callers g t = Some Awaiting_join; js_complete (jn_state g)\<rbrakk> \<Longrightarrow>
     join_step workers g (Go t) (g\<lparr>jn_callers := (jn_callers g)(t \<mapsto> Join_returned)\<rparr>)"

inductive join_reachable :: "nat list \<Rightarrow> join_sys \<Rightarrow> bool" for workers where
  initial: "join_reachable workers (jn_init workers)"
| step: "\<lbrakk>join_reachable workers g; join_step workers g m g'\<rbrakk> \<Longrightarrow> join_reachable workers g'"

section \<open>Invariant\<close>

text \<open>The joiner, if there is one, holds the threads not yet joined; nobody else holds any.\<close>

definition somebody_joins :: "join_sys \<Rightarrow> bool" where
  "somebody_joins g \<longleftrightarrow> (\<exists>t us. jn_callers g t = Some (Joining us))"

fun caller_ok :: "nat list \<Rightarrow> join_sys \<Rightarrow> nat \<Rightarrow> join_caller \<Rightarrow> bool" where
  "caller_ok workers g t (Joining us) \<longleftrightarrow> js_started (jn_state g) \<and> \<not> js_complete (jn_state g) \<and>
     jn_joined g @ us = workers \<and> t \<notin> set workers"
| "caller_ok workers g t Awaiting_join \<longleftrightarrow> js_started (jn_state g) \<and> t \<notin> set workers"
| "caller_ok workers g t Join_returned \<longleftrightarrow> t \<in> set workers \<or> js_complete (jn_state g)"
| "caller_ok workers g t Terminated \<longleftrightarrow> False"

definition jn_inv :: "nat list \<Rightarrow> join_sys \<Rightarrow> bool" where
  "jn_inv workers g \<longleftrightarrow>
     (\<forall>t c. jn_callers g t = Some c \<longrightarrow> caller_ok workers g t c) \<and>
     (\<forall>t t' us us'. jn_callers g t = Some (Joining us) \<and> jn_callers g t' = Some (Joining us') \<longrightarrow> t = t') \<and>
     (js_started (jn_state g) \<and> \<not> js_complete (jn_state g) \<longrightarrow> somebody_joins g) \<and>
     (\<not> js_started (jn_state g) \<longrightarrow> js_workers (jn_state g) = workers \<and> jn_joined g = [] \<and>
        \<not> js_complete (jn_state g)) \<and>
     (js_complete (jn_state g) \<longrightarrow> jn_joined g = workers) \<and>
     set (jn_joined g) \<subseteq> jn_exited g"

lemma jn_inv_init: "jn_inv workers (jn_init workers)"
  by (simp add: jn_inv_def jn_init_def)

lemma jn_invD:
  assumes "jn_inv workers g"
  shows "jn_callers g t = Some c \<Longrightarrow> caller_ok workers g t c"
    and "\<lbrakk>jn_callers g t = Some (Joining us); jn_callers g t' = Some (Joining us')\<rbrakk> \<Longrightarrow> t = t'"
    and "\<lbrakk>js_started (jn_state g); \<not> js_complete (jn_state g)\<rbrakk> \<Longrightarrow> somebody_joins g"
    and "\<not> js_started (jn_state g) \<Longrightarrow> js_workers (jn_state g) = workers \<and> jn_joined g = [] \<and>
        \<not> js_complete (jn_state g)"
    and "js_complete (jn_state g) \<Longrightarrow> jn_joined g = workers"
    and "set (jn_joined g) \<subseteq> jn_exited g"
  using assms unfolding jn_inv_def by blast+

lemma jn_invI:
  assumes "\<And>t c. jn_callers g t = Some c \<Longrightarrow> caller_ok workers g t c"
    and "\<And>t t' us us'. \<lbrakk>jn_callers g t = Some (Joining us); jn_callers g t' = Some (Joining us')\<rbrakk> \<Longrightarrow> t = t'"
    and "\<lbrakk>js_started (jn_state g); \<not> js_complete (jn_state g)\<rbrakk> \<Longrightarrow> somebody_joins g"
    and "\<not> js_started (jn_state g) \<Longrightarrow> js_workers (jn_state g) = workers \<and> jn_joined g = [] \<and>
        \<not> js_complete (jn_state g)"
    and "js_complete (jn_state g) \<Longrightarrow> jn_joined g = workers"
    and "set (jn_joined g) \<subseteq> jn_exited g"
  shows "jn_inv workers g"
  using assms unfolding jn_inv_def by blast

lemma joiningD:
  assumes "jn_inv workers g" and "jn_callers g t = Some (Joining us)"
  shows "js_started (jn_state g)" "\<not> js_complete (jn_state g)" "jn_joined g @ us = workers"
    "t \<notin> set workers"
  using jn_invD(1) [OF assms] by auto

text \<open>A caller that is not the joiner changes its own status only.\<close>

lemma jn_inv_caller:
  assumes inv: "jn_inv workers g" and idle: "\<And>us. jn_callers g t \<noteq> Some (Joining us)"
    and ok: "caller_ok workers g t c" and c: "\<And>us. c \<noteq> Joining us"
  shows "jn_inv workers (g\<lparr>jn_callers := (jn_callers g)(t \<mapsto> c)\<rparr>)"
proof -
  let ?g = "g\<lparr>jn_callers := (jn_callers g)(t \<mapsto> c)\<rparr>"
  have same: "caller_ok workers ?g t' c' = caller_ok workers g t' c'" for t' c'
    by (cases c') simp_all
  have joining: "jn_callers ?g t' = Some (Joining us) \<longleftrightarrow> jn_callers g t' = Some (Joining us)" for t' us
    using idle c by simp
  then have "somebody_joins ?g = somebody_joins g" unfolding somebody_joins_def by simp
  moreover have "caller_ok workers g t' c'" if "jn_callers ?g t' = Some c'" for t' c'
    using that ok jn_invD(1) [OF inv] by (auto split: if_splits)
  ultimately show ?thesis
    using jn_invD(2-6) [OF inv] unfolding jn_inv_def same joining by simp
qed

lemma jn_inv_call:
  assumes inv: "jn_inv workers g"
    and idle: "jn_callers g t = None \<or> jn_callers g t = Some Join_returned"
    and b: "join_begin (t \<in> set workers) (jn_state g) = (a, j)"
  shows "jn_inv workers (g\<lparr>jn_state := j, jn_callers := (jn_callers g)(t \<mapsto> after_begin a)\<rparr>)"
proof (cases "a = Join_threads (js_workers (jn_state g))")
  case True
  then have f: "t \<notin> set workers" "\<not> js_started (jn_state g)"
    "j = (jn_state g)\<lparr>js_started := True, js_workers := []\<rparr>"
    using b by (auto simp: join_begin_def split: if_splits)
  note n = jn_invD(4) [OF inv f(2)]
  have ret: "t' \<in> set workers \<and> c = Join_returned" if "jn_callers g t' = Some c" for t' c
    using jn_invD(1) [OF inv that] f(2) n by (cases c) auto
  then have nj: "jn_callers g t' \<noteq> Some (Joining us)" for t' us by blast
  show ?thesis
    unfolding jn_inv_def using f n ret nj True jn_invD(6) [OF inv]
    by (auto simp: somebody_joins_def dest!: ret split: if_splits)
next
  case False
  then have "j = jn_state g" "caller_ok workers g t (after_begin a)" "\<And>us. after_begin a \<noteq> Joining us"
    using b by (auto simp: join_begin_def split: if_splits)
  then show ?thesis using jn_inv_caller [OF inv, of t "after_begin a"] idle by auto
qed

lemma jn_inv_joining:
  assumes inv: "jn_inv workers g" and c: "jn_callers g t = Some (Joining (u # us))"
    and u: "u \<in> jn_exited g"
  shows "jn_inv workers (g\<lparr>jn_callers := (jn_callers g)(t \<mapsto> Joining us), jn_joined := jn_joined g @ [u]\<rparr>)"
proof -
  let ?g = "g\<lparr>jn_callers := (jn_callers g)(t \<mapsto> Joining us), jn_joined := jn_joined g @ [u]\<rparr>"
  note j = joiningD [OF inv c]
  have only: "jn_callers g t' = Some (Joining us') \<Longrightarrow> t' = t" for t' us'
    using jn_invD(2) [OF inv _ c] .
  have "caller_ok workers ?g t' c'" if "jn_callers ?g t' = Some c'" for t' c'
  proof (cases "t' = t")
    case True
    then have "c' = Joining us" using that by simp
    then show ?thesis using True j by simp
  next
    case False
    then show ?thesis
      using that jn_invD(1) [OF inv, of t' c'] only [of t'] by (cases c') auto
  qed
  moreover have "somebody_joins ?g" unfolding somebody_joins_def by auto
  moreover have "t1 = t2" if "jn_callers ?g t1 = Some (Joining us1)" "jn_callers ?g t2 = Some (Joining us2)"
    for t1 t2 us1 us2
  proof -
    have "t' = t" if "jn_callers ?g t' = Some (Joining us')" for t' us'
      using that only [of t' us'] by (cases "t' = t") simp_all
    then show ?thesis using that by metis
  qed
  moreover have "js_started (jn_state ?g)" "\<not> js_complete (jn_state ?g)" "set (jn_joined ?g) \<subseteq> jn_exited ?g"
    using j(1,2) jn_invD(6) [OF inv] u by simp_all
  ultimately show ?thesis by (rule_tac jn_invI; blast)
qed

lemma jn_inv_finish:
  assumes inv: "jn_inv workers g" and c: "jn_callers g t = Some (Joining [])"
  shows "jn_inv workers (g\<lparr>jn_state := join_finish (jn_state g),
      jn_callers := (jn_callers g)(t \<mapsto> Join_returned)\<rparr>)"
proof -
  let ?g = "g\<lparr>jn_state := join_finish (jn_state g), jn_callers := (jn_callers g)(t \<mapsto> Join_returned)\<rparr>"
  note j = joiningD [OF inv c]
  have only: "jn_callers g t' = Some (Joining us') \<Longrightarrow> t' = t" for t' us'
    using jn_invD(2) [OF inv _ c] .
  have nj: "jn_callers ?g t' \<noteq> Some (Joining us')" for t' us' using only by auto
  have "caller_ok workers ?g t' c'" if "jn_callers ?g t' = Some c'" for t' c'
  proof (cases "t' = t")
    case False
    then show ?thesis
      using that jn_invD(1) [OF inv, of t' c'] only [of t'] by (cases c') (auto simp: join_finish_def)
  qed (use that in \<open>simp add: join_finish_def\<close>)
  then show ?thesis using j jn_invD(6) [OF inv] nj unfolding jn_inv_def by (simp add: join_finish_def)
qed

lemma jn_inv_step:
  assumes inv: "jn_inv workers g" and dist: "distinct workers" and "join_step workers g m g'"
  shows "jn_inv workers g'"
  using assms(3)
proof cases
  case (worker_exit u)
  then have same: "caller_ok workers g' t c = caller_ok workers g t c" "somebody_joins g' = somebody_joins g" for t c
    by (cases c, simp_all add: somebody_joins_def)
  show ?thesis using jn_invD [OF inv] unfolding jn_inv_def same by (auto simp: worker_exit)
next
  case (call t a j)
  then show ?thesis using jn_inv_call [OF inv] by simp
next
  case (join_self t u us)
  then show ?thesis using joiningD [OF inv join_self(3)] by auto
next
  case (join_skip t u us)
  then show ?thesis using joiningD [OF inv join_skip(3)] dist by auto
next
  case (join_thread t u us)
  then show ?thesis using jn_inv_joining [OF inv] by simp
next
  case (finish t)
  then show ?thesis using jn_inv_finish [OF inv] by simp
next
  case (wake t)
  then show ?thesis using jn_inv_caller [OF inv, of t Join_returned] by simp
qed

lemma jn_inv_reachable:
  assumes "join_reachable workers g" and "distinct workers"
  shows "jn_inv workers g"
  using assms by induction (auto intro: jn_inv_init jn_inv_step)

section \<open>Progress\<close>

text \<open>
  The moves a call has left: one for each thread to join and one to return. Only finitely many
  threads have called.
\<close>

fun caller_work :: "join_caller option \<Rightarrow> nat" where
  "caller_work (Some (Joining us)) = length us + 1"
| "caller_work (Some Awaiting_join) = 1"
| "caller_work c = 0"

definition join_work :: "join_sys \<Rightarrow> nat" where
  "join_work g = (\<Sum>t \<in> dom (jn_callers g). caller_work (jn_callers g t))"

lemma finite_callers:
  "join_reachable workers g \<Longrightarrow> finite (dom (jn_callers g))"
proof (induction rule: join_reachable.induct)
  case (step g m g')
  from step.hyps(2) step.IH show ?case by cases (simp_all del: fun_upd_apply)
qed (simp add: jn_init_def)

lemma join_work_update:
  assumes "finite (dom (jn_callers g))" and "jn_callers g t = Some c" and "jn_callers g' = (jn_callers g)(t \<mapsto> c')"
  shows "join_work g' + caller_work (Some c) = join_work g + caller_work (Some c')"
proof -
  let ?D = "dom (jn_callers g)"
  have "t \<in> ?D" "dom (jn_callers g') = ?D" using assms(2,3) by auto
  moreover have "(\<Sum>u \<in> ?D - {t}. caller_work (jn_callers g' u)) = (\<Sum>u \<in> ?D - {t}. caller_work (jn_callers g u))"
    by (rule sum.cong) (simp_all add: assms(3))
  ultimately show ?thesis
    using sum.remove [OF assms(1), of t "\<lambda>u. caller_work (jn_callers g u)"]
      sum.remove [OF assms(1), of t "\<lambda>u. caller_work (jn_callers g' u)"] assms(2,3)
    by (simp add: join_work_def)
qed

lemma join_work_decreases:
  assumes "finite (dom (jn_callers g))" and "join_step workers g (Go t) g'"
  shows "join_work g' < join_work g"
  using assms(2)
proof cases
  case (join_self u us)
  then show ?thesis using join_work_update [OF assms(1), of t "Joining (u # us)" g' Terminated] by simp
next
  case (join_skip u us)
  then show ?thesis using join_work_update [OF assms(1), of t "Joining (u # us)" g' "Joining us"] by simp
next
  case (join_thread u us)
  then show ?thesis using join_work_update [OF assms(1), of t "Joining (u # us)" g' "Joining us"] by simp
next
  case finish
  then show ?thesis using join_work_update [OF assms(1), of t "Joining []" g' Join_returned] by simp
next
  case wake
  then show ?thesis using join_work_update [OF assms(1), of t Awaiting_join g' Join_returned] by simp
qed

lemma joiner_moves:
  assumes inv: "jn_inv workers g" and dist: "distinct workers" and ex: "set workers \<subseteq> jn_exited g"
    and c: "jn_callers g t = Some (Joining us)"
  shows "\<exists>g'. join_step workers g (Go t) g'"
proof (cases us)
  case Nil
  then show ?thesis using join_step.finish [of g t workers] c by auto
next
  case (Cons u vs)
  note j = joiningD [OF inv c]
  have "u \<notin> set (jn_joined g)" "u \<noteq> t" "u \<in> jn_exited g"
    using j(3,4) dist ex Cons by auto
  from join_step.join_thread [OF c [unfolded Cons] this, of workers] show ?thesis by blast
qed

lemma caller_moves:
  assumes inv: "jn_inv workers g" and dist: "distinct workers" and ex: "set workers \<subseteq> jn_exited g"
    and c: "jn_callers g t = Some c" "c \<noteq> Join_returned"
  shows "(\<exists>g'. join_step workers g (Go t) g') \<or>
    c = Awaiting_join \<and> (\<exists>t' us g'. jn_callers g t' = Some (Joining us) \<and> join_step workers g (Go t') g')"
proof (cases c)
  case (Joining us)
  then show ?thesis using joiner_moves [OF inv dist ex] c by blast
next
  case Awaiting_join
  show ?thesis
  proof (cases "js_complete (jn_state g)")
    case True
    then show ?thesis using join_step.wake [of g t workers] c Awaiting_join by auto
  next
    case False
    then have "somebody_joins g"
      using jn_invD(1) [OF inv c(1)] jn_invD(3) [OF inv] Awaiting_join by simp
    then show ?thesis using joiner_moves [OF inv dist ex] Awaiting_join by (auto simp: somebody_joins_def)
  qed
next
  case Terminated
  then show ?thesis using jn_invD(1) [OF inv c(1)] by simp
qed (use c in simp)

lemma jn_joined_prefix:
  assumes inv: "jn_inv workers g"
  shows "\<exists>us. jn_joined g @ us = workers"
proof (cases "js_started (jn_state g) \<and> \<not> js_complete (jn_state g)")
  case True
  then obtain t us where "jn_callers g t = Some (Joining us)"
    using jn_invD(3) [OF inv] by (auto simp: somebody_joins_def)
  then show ?thesis using joiningD(3) [OF inv] by blast
next
  case False
  then show ?thesis using jn_invD(4,5) [OF inv] by (cases "js_complete (jn_state g)") auto
qed

section \<open>Theorems\<close>

text \<open>
  C28. Shutting a blocking executor down from any threads, its own workers included: no thread
  ever joins itself (so the call never terminates the program), every worker is joined at most
  once, a call made outside the workers returns only after all workers have left their loop and
  been joined, and a call made by a worker returns at once. Nobody waits forever: once the
  workers have left their loops, every call that has not returned can itself go on or waits for
  the joining call, which can; and each move of a call in progress uses up one of the finitely
  many moves the calls have left, so without new calls all of them return.
\<close>

theorem executor_join_correct:
  assumes "join_reachable workers g" and "distinct workers"
  shows "jn_callers g t \<noteq> Some Terminated \<and> distinct (jn_joined g) \<and>
    set (jn_joined g) \<subseteq> set workers \<inter> jn_exited g \<and>
    (jn_callers g t = Some Join_returned \<and> t \<notin> set workers \<longrightarrow> jn_joined g = workers) \<and>
    (t \<in> set workers \<longrightarrow> jn_callers g t = None \<or> jn_callers g t = Some Join_returned) \<and>
    fst (join_begin True (jn_state g)) = Join_return \<and>
    (\<forall>c. set workers \<subseteq> jn_exited g \<and> jn_callers g t = Some c \<and> c \<noteq> Join_returned \<longrightarrow>
       (\<exists>g'. join_step workers g (Go t) g') \<or>
       c = Awaiting_join \<and>
         (\<exists>t' us g'. jn_callers g t' = Some (Joining us) \<and> join_step workers g (Go t') g')) \<and>
    (\<forall>g'. join_step workers g (Go t) g' \<longrightarrow> join_work g' < join_work g)"
proof -
  have inv: "jn_inv workers g" using jn_inv_reachable assms .
  obtain us where pre: "jn_joined g @ us = workers" using jn_joined_prefix [OF inv] by blast
  have "distinct (jn_joined g)" "set (jn_joined g) \<subseteq> set workers \<inter> jn_exited g"
    using pre assms(2) jn_invD(6) [OF inv] by auto
  moreover have "jn_callers g t \<noteq> Some Terminated" using jn_invD(1) [OF inv, of t Terminated] by auto
  moreover have "jn_joined g = workers" if "jn_callers g t = Some Join_returned" "t \<notin> set workers"
    using jn_invD(1) [OF inv that(1)] jn_invD(5) [OF inv] that(2) by simp
  moreover have "jn_callers g t = None \<or> jn_callers g t = Some Join_returned" if "t \<in> set workers"
  proof (cases "jn_callers g t")
    case (Some c)
    then show ?thesis using jn_invD(1) [OF inv Some] that by (cases c) simp_all
  qed simp
  moreover have "fst (join_begin True (jn_state g)) = Join_return" by (simp add: join_begin_def)
  moreover note caller_moves [OF inv assms(2), of t] join_work_decreases [OF finite_callers [OF assms(1)]]
  ultimately show ?thesis by blast
qed

theorem executor_join_correct_witness:
  "\<exists>g. join_reachable [1, 2] g \<and> jn_callers g = [9 \<mapsto> Joining [1, 2], 8 \<mapsto> Awaiting_join] \<and>
     jn_exited g = {1, 2} \<and> (\<exists>g'. join_step [1, 2] g (Go 9) g' \<and> join_work g' < join_work g)"
proof -
  let ?W = "[1, 2] :: nat list"
  let ?g1 = "(jn_init ?W)\<lparr>jn_exited := insert 1 {}\<rparr>"
  let ?g2 = "(jn_init ?W)\<lparr>jn_exited := insert 2 (insert 1 {})\<rparr>"
  let ?j = "\<lparr>js_workers = [], js_started = True, js_complete = False\<rparr>"
  let ?g3 = "?g2\<lparr>jn_state := ?j, jn_callers := [9 \<mapsto> Joining ?W]\<rparr>"
  let ?g4 = "?g3\<lparr>jn_callers := [9 \<mapsto> Joining ?W, 8 \<mapsto> Awaiting_join]\<rparr>"
  have "join_step ?W (jn_init ?W) (Exit 1) ?g1" "join_step ?W ?g1 (Exit 2) ?g2"
    using join_step.worker_exit [of 1 ?W "jn_init ?W"] join_step.worker_exit [of 2 ?W ?g1]
    by (simp_all add: jn_init_def)
  moreover have "join_step ?W ?g2 (Call 9) ?g3"
    using join_step.call [of ?g2 9 ?W "Join_threads ?W" ?j] by (simp add: jn_init_def join_begin_def)
  moreover have "join_step ?W ?g3 (Call 8) ?g4"
    using join_step.call [of ?g3 8 ?W Join_wait ?j] by (simp add: jn_init_def join_begin_def)
  ultimately have r: "join_reachable ?W ?g4"
    by (meson join_reachable.initial join_reachable.step)
  have all: "jn_callers ?g4 9 = Some (Joining ?W)" "set ?W \<subseteq> jn_exited ?g4" "distinct ?W" by simp_all
  obtain g' where "join_step ?W ?g4 (Go 9) g'" "join_work g' < join_work ?g4"
    using executor_join_correct [OF r all(3), of 9] all(1,2) by blast
  moreover have "jn_callers ?g4 = [9 \<mapsto> Joining ?W, 8 \<mapsto> Awaiting_join]" "jn_exited ?g4 = {1, 2}" by auto
  ultimately show ?thesis using r by blast
qed

text \<open>
  What the protocol leaves open: an executor destroyed by one of its own workers is not joined,
  so its state still holds joinable threads when the last worker lets go of it, and destroying a
  joinable \<^verbatim>\<open>std::thread\<close> calls \<^verbatim>\<open>std::terminate\<close>.
\<close>

definition thread_vector_destructor :: "nat list \<Rightarrow> unit option" where
  "thread_vector_destructor joinable = (if joinable = [] then Some () else None)"

theorem destroyed_on_worker_terminates:
  assumes "workers \<noteq> []" and "join_begin True (jn_state (jn_init workers)) = (a, j)"
  shows "a = Join_return \<and> thread_vector_destructor (js_workers j) = None"
  using assms by (auto simp: join_begin_def jn_init_def thread_vector_destructor_def)

end
