(* ===== verification/Reservations.thy ===== *)
theory Reservations
  imports Executors
begin

text \<open>
  \<^verbatim>\<open>compute_executor::capacity_reservation\<close> of \<^verbatim>\<open>include/voris/io/compute_executor.hpp\<close> as an object:
  its constructors, move operations, release and destructor, over several executors. The
  objects are a store from identities to their two members, so that a move from an object to
  itself is explicit; the executors' states are a store too, kept alive by the shared pointers
  of the reservations. The theory shows that the number of slots an executor counts as reserved
  is the number of reservation objects that own one.
\<close>

section \<open>Reservation objects\<close>

record reservation_object =
  ro_state :: "scheduler_id option"
  ro_active :: bool

record 'w reservation_world =
  rw_exec :: "scheduler_id \<rightharpoonup> 'w compute_executor"
  rw_res :: "nat \<rightharpoonup> reservation_object"

definition rw_init :: "'w reservation_world" where
  "rw_init = \<lparr>rw_exec = Map.empty, rw_res = Map.empty\<rparr>"

definition null_reservation :: reservation_object where
  "null_reservation = \<lparr>ro_state = None, ro_active = False\<rparr>"

text \<open>The members of an object; every operation below is applied to live objects only.\<close>

definition ro_of :: "nat \<Rightarrow> 'w reservation_world \<Rightarrow> reservation_object" where
  "ro_of x w = (case rw_res w x of None \<Rightarrow> null_reservation | Some r \<Rightarrow> r)"

definition ro_set :: "nat \<Rightarrow> reservation_object \<Rightarrow> 'w reservation_world \<Rightarrow> 'w reservation_world" where
  "ro_set x r w = w\<lparr>rw_res := (rw_res w)(x \<mapsto> r)\<rparr>"

definition reservation_default_construct :: "nat \<Rightarrow> 'w reservation_world \<Rightarrow> 'w reservation_world" where
  "reservation_default_construct x w = ro_set x null_reservation w"

text \<open>What \<^verbatim>\<open>std::move\<close> of the pointer and \<^verbatim>\<open>std::exchange\<close> of the flag leave and yield.\<close>

definition reservation_move_construct ::
  "nat \<Rightarrow> nat \<Rightarrow> 'w reservation_world \<Rightarrow> 'w reservation_world" where
  "reservation_move_construct x other w =
     (let r = ro_of other w in ro_set x r (ro_set other null_reservation w))"

text \<open>The critical section of \<^verbatim>\<open>release\<close> on the state it points to.\<close>

definition release_slot :: "'w compute_executor \<Rightarrow> 'w compute_executor" where
  "release_slot s =
     (if \<not> ce_shutting_down s \<and> ce_reserved_slots s \<noteq> 0
      then s\<lparr>ce_reserved_slots := ce_reserved_slots s - 1, ce_capacity_waiters := 0\<rparr> else s)"

definition reservation_object_release :: "nat \<Rightarrow> 'w reservation_world \<Rightarrow> 'w reservation_world" where
  "reservation_object_release x w =
     (let r = ro_of x w
      in if \<not> ro_active r then ro_set x (r\<lparr>ro_state := None\<rparr>) w
         else
           (let w1 = ro_set x null_reservation w
            in case ro_state r of
                 None \<Rightarrow> w1
               | Some e \<Rightarrow> w1\<lparr>rw_exec := (rw_exec w1)(e := map_option release_slot (rw_exec w1 e))\<rparr>))"

definition reservation_move_assign ::
  "nat \<Rightarrow> nat \<Rightarrow> 'w reservation_world \<Rightarrow> 'w reservation_world" where
  "reservation_move_assign x other w =
     (if x \<noteq> other
      then (let w1 = reservation_object_release x w; r = ro_of other w1
            in ro_set x r (ro_set other null_reservation w1))
      else w)"

definition reservation_destructor :: "nat \<Rightarrow> 'w reservation_world \<Rightarrow> 'w reservation_world" where
  "reservation_destructor x w =
     (let w1 = reservation_object_release x w in w1\<lparr>rw_res := (rw_res w1)(x := None)\<rparr>)"

definition reservation_operator_bool :: "nat \<Rightarrow> 'w reservation_world \<Rightarrow> bool" where
  "reservation_operator_bool x w \<longleftrightarrow> ro_active (ro_of x w) \<and> ro_state (ro_of x w) \<noteq> None"

definition reservation_owns :: "nat \<Rightarrow> scheduler_id \<Rightarrow> 'w reservation_world \<Rightarrow> bool" where
  "reservation_owns x e w \<longleftrightarrow> ro_active (ro_of x w) \<and> ro_state (ro_of x w) = Some e"

definition reservation_disarm :: "nat \<Rightarrow> 'w reservation_world \<Rightarrow> 'w reservation_world" where
  "reservation_disarm x w = ro_set x null_reservation w"

section \<open>Executor calls on objects\<close>

definition set_exec ::
  "scheduler_id \<Rightarrow> 'w compute_executor \<Rightarrow> 'w reservation_world \<Rightarrow> 'w reservation_world" where
  "set_exec e s w = w\<lparr>rw_exec := (rw_exec w)(e \<mapsto> s)\<rparr>"

text \<open>\<^verbatim>\<open>try_reserve_capacity\<close> constructs the returned object \<open>x\<close>, owning, when there is room.\<close>

definition executor_try_reserve ::
  "scheduler_id \<Rightarrow> nat \<Rightarrow> 'w compute_executor \<Rightarrow> 'w reservation_world \<Rightarrow>
     unit io_result \<times> 'w reservation_world" where
  "executor_try_reserve e x s w =
     (case ce_try_reserve_capacity s of
        (Inl err, s') \<Rightarrow> (Inl err, set_exec e s' w)
      | (Inr _, s') \<Rightarrow> (Inr (), ro_set x \<lparr>ro_state = Some e, ro_active = True\<rparr> (set_exec e s' w)))"

text \<open>
  \<^verbatim>\<open>submit_reserved\<close> takes its reservation by value: the parameter \<open>x\<close> is move-constructed from
  the caller's object \<open>y\<close> and destroyed on return, after the lock was released.
\<close>

definition executor_submit_reserved ::
  "scheduler_id \<Rightarrow> nat \<Rightarrow> nat \<Rightarrow> 'w continuation \<Rightarrow> 'w compute_executor \<Rightarrow>
     'w reservation_world \<Rightarrow> void_result \<times> 'w reservation_world" where
  "executor_submit_reserved e x y work s w =
     (let w1 = reservation_move_construct x y w
      in if ce_shutting_down s
         then (Inl (make_error_diagnostic closed ''compute executor is shutting down''),
               reservation_destructor x
                 (if reservation_owns x e w1 then reservation_disarm x w1 else w1))
         else if \<not> reservation_owns x e w1 \<or> ce_reserved_slots s = 0 \<or>
                 length (ce_queue s) \<ge> ce_capacity s
         then (Inl (make_error_diagnostic invalid_state
                      ''invalid compute executor capacity reservation''),
               reservation_destructor x w1)
         else (Inr (), reservation_destructor x (reservation_disarm x
                 (set_exec e (s\<lparr>ce_reserved_slots := ce_reserved_slots s - 1,
                                ce_queue := ce_queue s @ [work], ce_capacity_waiters := 0\<rparr>) w1))))"

section \<open>Programs\<close>

datatype 'w reservation_op =
    New_executor scheduler_id nat
  | Default_reservation nat
  | Move_reservation nat nat
  | Assign_reservation nat nat
  | Release_reservation nat
  | Destroy_reservation nat
  | Try_reserve scheduler_id nat
  | Submit_reserved scheduler_id nat nat "'w continuation"
  | Submit_work scheduler_id "'w continuation"
  | Pop_work scheduler_id
  | Shut_down scheduler_id

text \<open>The lifetimes the language guarantees; an operation that is not admitted is not taken.\<close>

fun rop_allowed :: "'w reservation_op \<Rightarrow> 'w reservation_world \<Rightarrow> bool" where
  "rop_allowed (New_executor e n) w \<longleftrightarrow> rw_exec w e = None"
| "rop_allowed (Default_reservation x) w \<longleftrightarrow> rw_res w x = None"
| "rop_allowed (Move_reservation x y) w \<longleftrightarrow> rw_res w x = None \<and> rw_res w y \<noteq> None"
| "rop_allowed (Assign_reservation x y) w \<longleftrightarrow> rw_res w x \<noteq> None \<and> rw_res w y \<noteq> None"
| "rop_allowed (Release_reservation x) w \<longleftrightarrow> rw_res w x \<noteq> None"
| "rop_allowed (Destroy_reservation x) w \<longleftrightarrow> rw_res w x \<noteq> None"
| "rop_allowed (Try_reserve e x) w \<longleftrightarrow> rw_exec w e \<noteq> None \<and> rw_res w x = None"
| "rop_allowed (Submit_reserved e x y k) w \<longleftrightarrow>
     rw_exec w e \<noteq> None \<and> rw_res w x = None \<and> rw_res w y \<noteq> None"
| "rop_allowed (Submit_work e k) w \<longleftrightarrow> rw_exec w e \<noteq> None"
| "rop_allowed (Pop_work e) w \<longleftrightarrow> rw_exec w e \<noteq> None"
| "rop_allowed (Shut_down e) w \<longleftrightarrow> rw_exec w e \<noteq> None"

fun rop_step :: "'w reservation_op \<Rightarrow> 'w reservation_world \<Rightarrow> 'w reservation_world" where
  "rop_step (New_executor e n) w = set_exec e (ce_create e n) w"
| "rop_step (Default_reservation x) w = reservation_default_construct x w"
| "rop_step (Move_reservation x y) w = reservation_move_construct x y w"
| "rop_step (Assign_reservation x y) w = reservation_move_assign x y w"
| "rop_step (Release_reservation x) w = reservation_object_release x w"
| "rop_step (Destroy_reservation x) w = reservation_destructor x w"
| "rop_step (Try_reserve e x) w = snd (executor_try_reserve e x (the (rw_exec w e)) w)"
| "rop_step (Submit_reserved e x y k) w =
     snd (executor_submit_reserved e x y k (the (rw_exec w e)) w)"
| "rop_step (Submit_work e k) w = set_exec e (snd (ce_submit k (the (rw_exec w e)))) w"
| "rop_step (Pop_work e) w = set_exec e (snd (ce_pop (the (rw_exec w e)))) w"
| "rop_step (Shut_down e) w = set_exec e (ce_request_shutdown (the (rw_exec w e))) w"

definition rop_run :: "'w reservation_op list \<Rightarrow> 'w reservation_world \<Rightarrow> 'w reservation_world" where
  "rop_run ops w = fold (\<lambda>op w. if rop_allowed op w then rop_step op w else w) ops w"

section \<open>Slots and owners\<close>

definition slot_owners :: "scheduler_id \<Rightarrow> 'w reservation_world \<Rightarrow> nat set" where
  "slot_owners e w = {x. reservation_owns x e w}"

definition rw_inv :: "'w reservation_world \<Rightarrow> bool" where
  "rw_inv w \<longleftrightarrow> finite (dom (rw_res w)) \<and>
     (\<forall>x. ro_active (ro_of x w) \<longrightarrow> ro_state (ro_of x w) \<noteq> None) \<and>
     (\<forall>x e. reservation_owns x e w \<longrightarrow> rw_exec w e \<noteq> None) \<and>
     (\<forall>e s. rw_exec w e = Some s \<longrightarrow> ce_id s = e \<and> ce_inv s \<and>
        (\<not> ce_shutting_down s \<longrightarrow> ce_reserved_slots s = card (slot_owners e w)))"

lemma rw_invD:
  assumes "rw_inv w"
  shows "finite (dom (rw_res w))"
    and "ro_active (ro_of x w) \<Longrightarrow> \<exists>e. ro_state (ro_of x w) = Some e \<and> rw_exec w e \<noteq> None"
    and "rw_exec w e = Some s \<Longrightarrow> ce_id s = e \<and> ce_inv s"
    and "\<lbrakk>rw_exec w e = Some s; \<not> ce_shutting_down s\<rbrakk> \<Longrightarrow> ce_reserved_slots s = card (slot_owners e w)"
    and "reservation_owns x e w \<Longrightarrow> rw_exec w e \<noteq> None"
  using assms by (auto simp: rw_inv_def reservation_owns_def)

lemma ro_of_simps [simp]:
  "ro_of x (ro_set y r w) = (if x = y then r else ro_of x w)"
  "rw_exec (ro_set y r w) = rw_exec w"
  "ro_of x (set_exec e s w) = ro_of x w"
  "rw_exec (set_exec e s w) = (rw_exec w)(e \<mapsto> s)"
  "ro_of x (w\<lparr>rw_exec := m\<rparr>) = ro_of x w"
  "dom (rw_res (ro_set y r w)) = insert y (dom (rw_res w))"
  "rw_res (set_exec e s w) = rw_res w"
  by (auto simp: ro_of_def ro_set_def set_exec_def)

lemma reservation_owns_simps [simp]:
  "reservation_owns x e (set_exec e' s w) = reservation_owns x e w"
  "reservation_owns x e (w\<lparr>rw_exec := m\<rparr>) = reservation_owns x e w"
  "reservation_owns x e (ro_set y r w) =
     (if x = y then ro_active r \<and> ro_state r = Some e else reservation_owns x e w)"
  by (simp_all add: reservation_owns_def)

lemma null_reservation_simps [simp]:
  "ro_state null_reservation = None" "ro_active null_reservation = False"
  by (simp_all add: null_reservation_def)

lemma finite_slot_owners: "finite (dom (rw_res w)) \<Longrightarrow> finite (slot_owners e w)"
proof (rule finite_subset)
  show "slot_owners e w \<subseteq> dom (rw_res w)"
    by (auto simp: slot_owners_def reservation_owns_def ro_of_def split: option.splits)
qed

lemma slot_owners_simps [simp]:
  "slot_owners e (set_exec e' s w) = slot_owners e w"
  "slot_owners e (w\<lparr>rw_exec := m\<rparr>) = slot_owners e w"
  "slot_owners e (ro_set x r w) =
     (if ro_active r \<and> ro_state r = Some e then insert x (slot_owners e w) else slot_owners e w - {x})"
  by (auto simp: slot_owners_def reservation_owns_def split: if_splits)

text \<open>Critical sections that reserve and free nothing.\<close>

lemma rw_inv_set_exec:
  assumes inv: "rw_inv w" and s: "rw_exec w e = Some s" and ok: "ce_inv s'" "ce_id s' = ce_id s"
    and slots: "\<not> ce_shutting_down s' \<Longrightarrow>
      \<not> ce_shutting_down s \<and> ce_reserved_slots s' = ce_reserved_slots s"
  shows "rw_inv (set_exec e s' w)"
  using assms rw_invD(3,4) [OF inv s] by (auto simp: rw_inv_def)

lemma ce_calls_keep:
  "ce_id (snd (ce_submit k s)) = ce_id s \<and> ce_shutting_down (snd (ce_submit k s)) = ce_shutting_down s \<and>
     ce_reserved_slots (snd (ce_submit k s)) = ce_reserved_slots s"
  "ce_id (snd (ce_pop s)) = ce_id s \<and> ce_shutting_down (snd (ce_pop s)) = ce_shutting_down s \<and>
     ce_reserved_slots (snd (ce_pop s)) = ce_reserved_slots s"
  "ce_id (ce_request_shutdown s) = ce_id s \<and> ce_shutting_down (ce_request_shutdown s)"
  by (auto simp: ce_op_defs split: list.splits)

text \<open>An object without a slot may be overwritten by another one without, or be destroyed.\<close>

lemma rw_inv_clear:
  assumes inv: "rw_inv w" and "\<not> ro_active (ro_of x w)" and "\<not> ro_active r"
  shows "rw_inv (ro_set x r w)"
proof -
  have "x \<notin> slot_owners e w" for e
    using assms(2) by (simp add: slot_owners_def reservation_owns_def)
  then have "slot_owners e (ro_set x r w) = slot_owners e w" for e using assms(3) by auto
  then show ?thesis using inv assms(3) by (auto simp: rw_inv_def)
qed

lemma rw_inv_end:
  assumes inv: "rw_inv w" and "\<not> ro_active (ro_of x w)"
  shows "rw_inv (w\<lparr>rw_res := (rw_res w)(x := None)\<rparr>)"
proof -
  let ?w = "w\<lparr>rw_res := (rw_res w)(x := None)\<rparr>"
  have ro: "ro_of y ?w = (if y = x then null_reservation else ro_of y w)" for y
    by (simp add: ro_of_def)
  then have own: "reservation_owns y e ?w \<longleftrightarrow> reservation_owns y e w" for y e
    using assms(2) by (simp add: reservation_owns_def)
  then have "slot_owners e ?w = slot_owners e w" for e by (simp add: slot_owners_def)
  then show ?thesis using inv by (auto simp: rw_inv_def ro own)
qed

text \<open>A move transfers the slot.\<close>

lemma rw_inv_move:
  assumes inv: "rw_inv w" and free: "\<not> ro_active (ro_of x w)" and ne: "x \<noteq> y"
  shows "rw_inv (ro_set x (ro_of y w) (ro_set y null_reservation w))"
proof -
  let ?w = "ro_set x (ro_of y w) (ro_set y null_reservation w)"
  have nx: "x \<notin> slot_owners e w" for e
    using free by (simp add: slot_owners_def reservation_owns_def)
  have "card (slot_owners e ?w) = card (slot_owners e w)" for e
  proof (cases "y \<in> slot_owners e w")
    case True
    then have "slot_owners e ?w = insert x (slot_owners e w - {y})"
      by (auto simp: slot_owners_def reservation_owns_def)
    then show ?thesis
      using nx [of e] True finite_slot_owners [OF rw_invD(1) [OF inv], of e]
      by (simp add: card.remove [symmetric] card_Suc_Diff1 del: card_Diff_insert)
  next
    case False
    then have "slot_owners e ?w = slot_owners e w"
      using nx [of e] by (auto simp: slot_owners_def reservation_owns_def)
    then show ?thesis by simp
  qed
  then show ?thesis
    using inv ne unfolding rw_inv_def by (simp add: reservation_owns_def [of y, symmetric])
qed

text \<open>Releasing gives back exactly the slot the object owned.\<close>

lemma ro_of_release: "\<not> ro_active (ro_of x (reservation_object_release x w))"
  "y \<noteq> x \<Longrightarrow> ro_of y (reservation_object_release x w) = ro_of y w"
  by (simp_all add: reservation_object_release_def Let_def split: option.split)

lemma rw_inv_release:
  assumes inv: "rw_inv w"
  shows "rw_inv (reservation_object_release x w)"
proof (cases "ro_active (ro_of x w)")
  case False
  then show ?thesis
    using rw_inv_clear [OF inv False] by (simp add: reservation_object_release_def Let_def)
next
  case True
  then obtain e s where e: "ro_state (ro_of x w) = Some e" "rw_exec w e = Some s"
    using rw_invD(2) [OF inv True] by blast
  have own: "x \<in> slot_owners e w" and other: "\<And>e'. e' \<noteq> e \<Longrightarrow> x \<notin> slot_owners e' w"
    using True e by (auto simp: slot_owners_def reservation_owns_def)
  have pos: "ce_reserved_slots s \<noteq> 0 \<and>
      ce_reserved_slots s - 1 = card (slot_owners e w - {x})" if "\<not> ce_shutting_down s"
    using rw_invD(4) [OF inv e(2) that] own finite_slot_owners [OF rw_invD(1) [OF inv], of e]
    by auto
  have "ce_id (release_slot s) = e" "ce_inv (release_slot s)"
    "ce_shutting_down (release_slot s) = ce_shutting_down s"
    using rw_invD(3) [OF inv e(2)] by (auto simp: release_slot_def ce_inv_def)
  moreover have "\<not> ce_shutting_down s \<Longrightarrow>
      ce_reserved_slots (release_slot s) = card (slot_owners e w - {x})"
    using pos by (simp add: release_slot_def)
  ultimately show ?thesis
    using inv True e other unfolding rw_inv_def reservation_object_release_def Let_def
    by (auto split: if_splits)
qed

lemma rw_inv_destructor: "rw_inv w \<Longrightarrow> rw_inv (reservation_destructor x w)"
  unfolding reservation_destructor_def Let_def
  by (intro rw_inv_end rw_inv_release ro_of_release)

lemma rw_inv_disarm:
  assumes inv: "rw_inv w" and own: "reservation_owns x e w" and s: "rw_exec w e = Some s"
    and s': "ce_id s' = e" "ce_inv s'"
      "\<not> ce_shutting_down s' \<Longrightarrow> \<not> ce_shutting_down s \<and> ce_reserved_slots s' + 1 = ce_reserved_slots s"
  shows "rw_inv (reservation_disarm x (set_exec e s' w))"
proof -
  have x: "x \<in> slot_owners e w" "\<And>e'. e' \<noteq> e \<Longrightarrow> x \<notin> slot_owners e' w"
    using own by (auto simp: slot_owners_def reservation_owns_def)
  have "ce_reserved_slots s' = card (slot_owners e w - {x})" if "\<not> ce_shutting_down s'"
    using s'(3) [OF that] rw_invD(4) [OF inv s] x(1)
      finite_slot_owners [OF rw_invD(1) [OF inv], of e] by auto
  then show ?thesis
    using inv s' x(2) unfolding rw_inv_def reservation_disarm_def by auto
qed

lemma rw_inv_try_reserve:
  assumes inv: "rw_inv w" and s: "rw_exec w e = Some s" and new: "rw_res w x = None"
  shows "rw_inv (snd (executor_try_reserve e x s w))"
proof (cases "ce_try_reserve_capacity s")
  case (Pair r s')
  have id: "ce_id s' = ce_id s" and inv': "ce_inv s'"
    and keep: "ce_shutting_down s' = ce_shutting_down s"
    and slots: "ce_reserved_slots s' = ce_reserved_slots s + of_bool (\<not> isl r)"
    using ce_inv_calls(2) [of s] rw_invD(3) [OF inv s] Pair
    by (auto simp: ce_op_defs split: if_splits)
  show ?thesis
  proof (cases r)
    case (Inl err)
    then show ?thesis
      using Pair rw_inv_set_exec [OF inv s inv' id] slots keep by (simp add: executor_try_reserve_def)
  next
    case (Inr res)
    have "ro_of x w = null_reservation" using new by (simp add: ro_of_def)
    then have x: "x \<notin> slot_owners e' w" for e' by (simp add: slot_owners_def reservation_owns_def)
    have "ce_reserved_slots s' = card (insert x (slot_owners e w))" if "\<not> ce_shutting_down s'"
      using that keep slots rw_invD(4) [OF inv s] x [of e] Inr
        finite_slot_owners [OF rw_invD(1) [OF inv], of e] by simp
    then show ?thesis
      using inv id inv' x Pair Inr rw_invD(3) [OF inv s]
      unfolding rw_inv_def executor_try_reserve_def by auto
  qed
qed

lemma rw_inv_submit_reserved:
  assumes inv: "rw_inv w" and s: "rw_exec w e = Some s" and new: "rw_res w x = None"
    and y: "rw_res w y \<noteq> None"
  shows "rw_inv (snd (executor_submit_reserved e x y k s w))"
proof -
  let ?w1 = "reservation_move_construct x y w"
  let ?s' = "s\<lparr>ce_reserved_slots := ce_reserved_slots s - 1,
      ce_queue := ce_queue s @ [k], ce_capacity_waiters := 0\<rparr>"
  have "ro_of x w = null_reservation" using new by (simp add: ro_of_def)
  moreover have "x \<noteq> y" using new y by auto
  ultimately have inv1: "rw_inv ?w1"
    using rw_inv_move [OF inv, of x y] by (simp add: reservation_move_construct_def Let_def)
  have s1: "rw_exec ?w1 e = Some s" using s by (simp add: reservation_move_construct_def Let_def)
  have id: "ce_id s = e" "ce_inv s" using rw_invD(3) [OF inv s] by auto
  have stopped: "rw_inv (reservation_disarm x ?w1)"
    if own: "reservation_owns x e ?w1" and stop: "ce_shutting_down s"
  proof -
    have "rw_inv (reservation_disarm x (set_exec e s ?w1))"
      by (rule rw_inv_disarm [OF inv1 own s1 id]) (use stop in simp)
    moreover have "set_exec e s ?w1 = ?w1" using s1 by (simp add: set_exec_def fun_upd_idem)
    ultimately show ?thesis by simp
  qed
  have taken: "rw_inv (reservation_disarm x (set_exec e ?s' ?w1))"
    if own: "reservation_owns x e ?w1" and room: "ce_reserved_slots s \<noteq> 0" "\<not> ce_shutting_down s"
    by (rule rw_inv_disarm [OF inv1 own s1]) (use id room in \<open>auto simp: ce_inv_def\<close>)
  show ?thesis
    using inv1 stopped taken by (simp add: executor_submit_reserved_def Let_def rw_inv_destructor)
qed

lemma rw_inv_step:
  assumes inv: "rw_inv w" and "rop_allowed op w"
  shows "rw_inv (rop_step op w)"
proof (cases op)
  case (New_executor e n)
  have "\<not> reservation_owns x e w" for x
    using rw_invD(5) [OF inv, of x e] assms(2) New_executor by auto
  then have "slot_owners e w = {}" by (simp add: slot_owners_def)
  then show ?thesis
    using inv assms(2) ce_inv_create [of e n] unfolding rw_inv_def
    by (auto simp: New_executor ce_create_def)
next
  case (Default_reservation x)
  then have "\<not> ro_active (ro_of x w)" using assms(2) by (simp add: ro_of_def)
  then show ?thesis
    using rw_inv_clear [OF inv] by (simp add: Default_reservation reservation_default_construct_def)
next
  case (Move_reservation x y)
  then have "\<not> ro_active (ro_of x w)" "x \<noteq> y" using assms(2) by (auto simp: ro_of_def)
  then show ?thesis
    using rw_inv_move [OF inv] by (simp add: Move_reservation reservation_move_construct_def Let_def)
next
  case (Assign_reservation x y)
  have "x \<noteq> y \<Longrightarrow> rw_inv (reservation_move_assign x y w)"
    using rw_inv_move [OF rw_inv_release [OF inv] ro_of_release(1), of x y]
    by (simp add: reservation_move_assign_def Let_def)
  then show ?thesis using inv by (cases "x = y") (simp_all add: Assign_reservation reservation_move_assign_def)
next
  case (Release_reservation x)
  then show ?thesis using rw_inv_release [OF inv] by simp
next
  case (Destroy_reservation x)
  then show ?thesis using rw_inv_destructor [OF inv] by simp
next
  case (Try_reserve e x)
  then show ?thesis using rw_inv_try_reserve [OF inv] assms(2) by auto
next
  case (Submit_reserved e x y k)
  then show ?thesis using rw_inv_submit_reserved [OF inv, of e _ x y k] assms(2) by auto
next
  case (Submit_work e k)
  then obtain s where s: "rw_exec w e = Some s" using assms(2) by auto
  then show ?thesis
    using rw_inv_set_exec [OF inv s, of "snd (ce_submit k s)"] rw_invD(3) [OF inv s]
      ce_inv_calls(1) [of s k] ce_calls_keep(1) [of k s] by (simp add: Submit_work)
next
  case (Pop_work e)
  then obtain s where s: "rw_exec w e = Some s" using assms(2) by auto
  then show ?thesis
    using rw_inv_set_exec [OF inv s, of "snd (ce_pop s)"] rw_invD(3) [OF inv s]
      ce_inv_calls(5) [of s] ce_calls_keep(2) [of s] by (simp add: Pop_work)
next
  case (Shut_down e)
  then obtain s where s: "rw_exec w e = Some s" using assms(2) by auto
  then show ?thesis
    using rw_inv_set_exec [OF inv s, of "ce_request_shutdown s"] rw_invD(3) [OF inv s]
      ce_inv_calls(6) [of s] ce_calls_keep(3) [of s] by (simp add: Shut_down)
qed

lemma rw_inv_run: "rw_inv w \<Longrightarrow> rw_inv (rop_run ops w)"
  unfolding rop_run_def by (induction ops arbitrary: w) (simp_all add: rw_inv_step)

lemma rw_inv_init: "rw_inv rw_init"
  by (simp add: rw_inv_def rw_init_def reservation_owns_def ro_of_def)

text \<open>On the executor that issued the reservation, the objects do what \<open>ce_submit_reserved\<close> does.\<close>

lemma executor_submit_reserved_agrees:
  assumes "rw_exec w (ce_id s) = Some s" and "reservation_owns y (ce_id s) w" and "rw_res w x = None"
  shows "fst (executor_submit_reserved (ce_id s) x y k s w) = fst (ce_submit_reserved (Some (ce_id s)) k s)"
    and "rw_exec (snd (executor_submit_reserved (ce_id s) x y k s w)) (ce_id s) =
      Some (snd (ce_submit_reserved (Some (ce_id s)) k s))"
proof -
  have "x \<noteq> y" using assms(2,3) by (auto simp: reservation_owns_def ro_of_def)
  then show "fst (executor_submit_reserved (ce_id s) x y k s w) =
      fst (ce_submit_reserved (Some (ce_id s)) k s)"
    and "rw_exec (snd (executor_submit_reserved (ce_id s) x y k s w)) (ce_id s) =
      Some (snd (ce_submit_reserved (Some (ce_id s)) k s))"
    using assms(1,2)
    by (auto simp: executor_submit_reserved_def ce_submit_reserved_def reservation_release_def
        reservation_move_construct_def reservation_owns_def reservation_destructor_def
        reservation_object_release_def reservation_disarm_def release_slot_def Let_def)
qed

section \<open>Theorems\<close>



end
