(* ===== verification/Io_Uring_Ring.thy ===== *)
theory Io_Uring_Ring
  imports Backend Os_Calls "HOL-Library.Monad_Syntax"
begin

text \<open>
  The lower half of \<^verbatim>\<open>src/backends_io_uring_backend.cpp\<close>: capability detection, the encoding of
  operation identifiers in \<^verbatim>\<open>user_data\<close>, and the \<^verbatim>\<open>kernel_ring\<close> with its two queues in memory
  shared with the kernel. The Linux build. The memory is the record \<open>ring_memory\<close>; the pointers
  that \<^verbatim>\<open>bind_offsets\<close> computes are its fields. Indices are 32-bit words and wrap as they do
  in the ring. System calls are the record \<open>uring_sys\<close> over an opaque kernel state, and
  \<^verbatim>\<open>io_uring_enter\<close> may change the ring memory at will.
\<close>

unbundle bit_operations_syntax

section \<open>Capabilities\<close>

definition opcode_fsync :: uint32 where "opcode_fsync = 3"
definition opcode_read_fixed :: uint32 where "opcode_read_fixed = 4"
definition opcode_write_fixed :: uint32 where "opcode_write_fixed = 5"
definition opcode_accept :: uint32 where "opcode_accept = 13"
definition opcode_async_cancel :: uint32 where "opcode_async_cancel = 14"
definition opcode_connect :: uint32 where "opcode_connect = 16"
definition opcode_files_update :: uint32 where "opcode_files_update = 20"
definition opcode_read :: uint32 where "opcode_read = 22"
definition opcode_write :: uint32 where "opcode_write = 23"

record io_uring_capabilities =
  available :: bool
  supports_read :: bool
  supports_write :: bool
  supports_accept :: bool
  supports_connect :: bool
  supports_files :: bool
  supports_fsync :: bool
  supports_cancel :: bool
  supports_registered_buffers :: bool
  supports_registered_files :: bool

definition no_capabilities :: io_uring_capabilities where
  "no_capabilities = \<lparr>available = False, supports_read = False, supports_write = False,
     supports_accept = False, supports_connect = False, supports_files = False,
     supports_fsync = False, supports_cancel = False, supports_registered_buffers = False,
     supports_registered_files = False\<rparr>"

definition capabilities_from_io_uring_probe_opcodes :: "uint32 list \<Rightarrow> io_uring_capabilities" where
  "capabilities_from_io_uring_probe_opcodes supported_opcodes =
     (let has_opcode = (\<lambda>opcode. opcode \<in> set supported_opcodes)
      in \<lparr>available = True,
          supports_read = has_opcode opcode_read,
          supports_write = has_opcode opcode_write,
          supports_accept = has_opcode opcode_accept,
          supports_connect = has_opcode opcode_connect,
          supports_files = has_opcode opcode_read \<and> has_opcode opcode_write \<and> has_opcode opcode_fsync,
          supports_fsync = has_opcode opcode_fsync,
          supports_cancel = has_opcode opcode_async_cancel,
          supports_registered_buffers = has_opcode opcode_read_fixed \<and> has_opcode opcode_write_fixed,
          supports_registered_files = has_opcode opcode_files_update\<rparr>)"

record kernel_probe_op =
  po_op :: byte
  po_flags :: "16 word"

record kernel_probe_buffer =
  probe_last_op :: byte
  probe_ops_len :: byte
  probe_ops :: "kernel_probe_op list"

definition op_supported :: "16 word" where
  "op_supported = 1"

text \<open>The array of 64 entries is \<open>probe_ops\<close>.\<close>

definition apply_probe :: "kernel_probe_buffer \<Rightarrow> io_uring_capabilities" where
  "apply_probe probe =
     capabilities_from_io_uring_probe_opcodes
       (map (\<lambda>op. ucast (po_op op))
         (filter (\<lambda>op. po_op op \<le> probe_last_op probe \<and> po_flags op AND op_supported \<noteq> 0)
           (take (if unat (probe_ops_len probe) < length (probe_ops probe)
                  then unat (probe_ops_len probe) else length (probe_ops probe)) (probe_ops probe))))"

definition has_default_core_capabilities :: "io_uring_capabilities \<Rightarrow> bool" where
  "has_default_core_capabilities c \<longleftrightarrow>
     available c \<and> supports_read c \<and> supports_write c \<and> supports_accept c \<and> supports_connect c \<and>
     supports_files c \<and> supports_fsync c \<and> supports_cancel c"

record io_uring_default_enable_evidence =
  cancellation_races_passed :: bool
  differential_tests_passed :: bool
  benchmarks_passed :: bool
  linux_real_provider_tests_passed :: bool

datatype linux_backend_choice = Choose_epoll | Choose_io_uring

definition io_uring_default_enable_eligible ::
  "io_uring_capabilities \<Rightarrow> io_uring_default_enable_evidence \<Rightarrow> bool" where
  "io_uring_default_enable_eligible capabilities evidence \<longleftrightarrow>
     has_default_core_capabilities capabilities \<and> cancellation_races_passed evidence \<and>
     differential_tests_passed evidence \<and> benchmarks_passed evidence \<and>
     linux_real_provider_tests_passed evidence"

definition select_default_linux_backend ::
  "io_uring_capabilities \<Rightarrow> io_uring_default_enable_evidence \<Rightarrow> linux_backend_choice" where
  "select_default_linux_backend capabilities evidence =
     (if io_uring_default_enable_eligible capabilities evidence then Choose_io_uring
      else Choose_epoll)"

section \<open>User data\<close>

definition cancel_user_data_tag :: uint64 where
  "cancel_user_data_tag = push_bit 63 1"

record decoded_kernel_user_data =
  dec_operation_id :: size_t
  dec_is_cancel :: bool

definition invalid_state_error :: "string \<Rightarrow> vio_error" where
  "invalid_state_error msg = make_error_diagnostic invalid_state msg"

definition encode_operation_user_data :: "size_t \<Rightarrow> uint64 io_result" where
  "encode_operation_user_data operation_id =
     (if operation_id AND cancel_user_data_tag \<noteq> 0
      then Inl (invalid_state_error
                  ''io_uring operation id must fit the kernel user_data operation tag'')
      else Inr operation_id)"

definition encode_cancel_user_data :: "size_t \<Rightarrow> uint64 io_result" where
  "encode_cancel_user_data operation_id =
     (case encode_operation_user_data operation_id of
        Inl e \<Rightarrow> Inl e
      | Inr encoded \<Rightarrow> Inr (encoded OR cancel_user_data_tag))"

definition decode_kernel_user_data :: "uint64 \<Rightarrow> decoded_kernel_user_data" where
  "decode_kernel_user_data user_data =
     \<lparr>dec_operation_id = user_data AND NOT cancel_user_data_tag,
      dec_is_cancel = (user_data AND cancel_user_data_tag \<noteq> 0)\<rparr>"

definition UINT_MAX :: nat where
  "UINT_MAX = 2 ^ 32 - 1"

definition span_size_as_u32 :: "size_t \<Rightarrow> uint32 io_result" where
  "span_size_as_u32 sz =
     (if unat sz > UINT_MAX
      then Inl (invalid_state_error ''io_uring buffer size does not fit u32'')
      else Inr (ucast sz))"

definition count_as_u32 :: "nat \<Rightarrow> string \<Rightarrow> uint32 io_result" where
  "count_as_u32 n msg =
     (if n > UINT_MAX then Inl (invalid_state_error msg) else Inr (of_nat n))"

definition native_handle_as_fd :: "size_t \<Rightarrow> int io_result" where
  "native_handle_as_fd h =
     (if h = 0 \<or> h > INT_MAX
      then Inl (invalid_state_error ''io_uring native handle must be a valid file descriptor'')
      else Inr (uint h))"

section \<open>The ring\<close>

record io_uring_sqe =
  sqe_opcode :: uint32
  sqe_fd :: int
  sqe_off :: uint64
  sqe_addr :: uint64
  sqe_len :: uint32
  sqe_op_flags :: uint32
  sqe_user_data :: uint64

definition zero_sqe :: io_uring_sqe where
  "zero_sqe = \<lparr>sqe_opcode = 0, sqe_fd = 0, sqe_off = 0, sqe_addr = 0, sqe_len = 0,
     sqe_op_flags = 0, sqe_user_data = 0\<rparr>"

record io_uring_cqe =
  cqe_user_data :: uint64
  cqe_res :: int

record ring_memory =
  sq_head :: uint32
  sq_tail :: uint32
  sq_flags :: uint32
  sq_ring_mask :: uint32
  sq_ring_entries :: uint32
  sq_array :: "uint32 list"
  sqes :: "io_uring_sqe list"
  cq_head :: uint32
  cq_tail :: uint32
  cq_ring_mask :: uint32
  cqes :: "io_uring_cqe list"

record uring_params =
  par_sq_entries :: uint32
  par_cq_entries :: uint32
  par_sq_off_array :: uint32
  par_cq_off_cqes :: uint32
  par_single_mmap :: bool

datatype mmap_area = Off_sq_ring | Off_cq_ring | Off_sqes

record kernel_ring =
  kr_fd :: int
  kr_params :: uring_params
  kr_sq_mapping :: "uint64 option"
  kr_cq_mapping :: "uint64 option"
  kr_sqes_mapping :: "uint64 option"
  kr_sq_mapping_size :: size_t
  kr_cq_mapping_size :: size_t
  kr_sqes_mapping_size :: size_t
  kr_memory :: ring_memory
  kr_pending_submissions :: uint32

datatype uring_registration =
    Register_buffers "byte_span list" uint32
  | Unregister_buffers
  | Register_files "int list" uint32
  | Unregister_files

text \<open>
  \<open>us_mapped\<close> is the ring memory as the kernel set it up, once the areas are mapped.
  \<open>us_iteration\<close> is the order in which the hash table of kernel operations enumerates its keys.
\<close>

record 'o uring_sys =
  us_setup :: "uint32 \<Rightarrow> 'o \<Rightarrow> (errno + int \<times> uring_params) \<times> 'o"
  us_probe :: "int \<Rightarrow> 'o \<Rightarrow> (errno + kernel_probe_buffer) \<times> 'o"
  us_mmap :: "size_t \<Rightarrow> int \<Rightarrow> mmap_area \<Rightarrow> 'o \<Rightarrow> (errno + uint64) \<times> 'o"
  us_munmap :: "uint64 \<Rightarrow> size_t \<Rightarrow> 'o \<Rightarrow> 'o"
  us_mapped :: "int \<Rightarrow> 'o \<Rightarrow> ring_memory"
  us_enter :: "int \<Rightarrow> uint32 \<Rightarrow> uint32 \<Rightarrow> ring_memory \<times> 'o \<Rightarrow> (errno + int) \<times> ring_memory \<times> 'o"
  us_register :: "int \<Rightarrow> uring_registration \<Rightarrow> 'o \<Rightarrow> (errno + unit) \<times> 'o"
  us_close :: "int \<Rightarrow> 'o \<Rightarrow> 'o"
  us_dupfd :: "int \<Rightarrow> int \<Rightarrow> 'o \<Rightarrow> (errno + int) \<times> 'o"
  us_iteration :: "size_t list \<Rightarrow> size_t list"

definition detect_io_uring_capabilities :: "'o uring_sys \<Rightarrow> 'o \<Rightarrow> io_uring_capabilities \<times> 'o" where
  "detect_io_uring_capabilities sys k =
     (case us_setup sys 2 k of
        (Inl _, k1) \<Rightarrow> (no_capabilities, k1)
      | (Inr (fd, _), k1) \<Rightarrow>
          (case us_probe sys fd k1 of
             (probe, k2) \<Rightarrow>
               (case probe of
                  Inl _ \<Rightarrow> no_capabilities\<lparr>available := True\<rparr>
                | Inr p \<Rightarrow> apply_probe p,
                if fd \<ge> 0 then us_close sys fd k2 else k2)))"

definition kr_destroy :: "'o uring_sys \<Rightarrow> kernel_ring \<Rightarrow> 'o \<Rightarrow> 'o" where
  "kr_destroy sys ring k =
     (let k1 = (case kr_sqes_mapping ring of
                  Some a \<Rightarrow> us_munmap sys a (kr_sqes_mapping_size ring) k | None \<Rightarrow> k);
          k2 = (case kr_cq_mapping ring of
                  Some a \<Rightarrow> if kr_cq_mapping ring \<noteq> kr_sq_mapping ring
                            then us_munmap sys a (kr_cq_mapping_size ring) k1 else k1
                | None \<Rightarrow> k1);
          k3 = (case kr_sq_mapping ring of
                  Some a \<Rightarrow> us_munmap sys a (kr_sq_mapping_size ring) k2 | None \<Rightarrow> k2)
      in if kr_fd ring \<ge> 0 then us_close sys (kr_fd ring) k3 else k3)"

text \<open>The sizes of \<^verbatim>\<open>unsigned\<close>, \<^verbatim>\<open>io_uring_cqe\<close> and \<^verbatim>\<open>io_uring_sqe\<close> are 4, 16 and 64.\<close>

definition ring_mapping_sizes :: "uring_params \<Rightarrow> size_t \<times> size_t" where
  "ring_mapping_sizes p =
     (let sq_size = ucast (par_sq_off_array p) + ucast (par_sq_entries p) * 4;
          cq_size = ucast (par_cq_off_cqes p) + ucast (par_cq_entries p) * 16
      in if par_single_mmap p then (max sq_size cq_size, max sq_size cq_size)
         else (sq_size, cq_size))"

definition map_queues ::
  "'o uring_sys \<Rightarrow> kernel_ring \<Rightarrow> 'o \<Rightarrow> void_result \<times> kernel_ring \<times> 'o" where
  "map_queues sys ring k =
     (let p = kr_params ring;
          (sq_size, cq_size) = ring_mapping_sizes p;
          ring1 = ring\<lparr>kr_sq_mapping_size := sq_size, kr_cq_mapping_size := cq_size\<rparr>
      in case us_mmap sys sq_size (kr_fd ring) Off_sq_ring k of
           (Inl e, k1) \<Rightarrow> (Inl (provider_failure e), ring1\<lparr>kr_sq_mapping := None\<rparr>, k1)
         | (Inr sq, k1) \<Rightarrow>
             (let ring2 = ring1\<lparr>kr_sq_mapping := Some sq\<rparr>
              in case (if par_single_mmap p then (Inr sq, k1)
                       else us_mmap sys cq_size (kr_fd ring) Off_cq_ring k1) of
                   (Inl e, k2) \<Rightarrow> (Inl (provider_failure e), ring2\<lparr>kr_cq_mapping := None\<rparr>, k2)
                 | (Inr cq, k2) \<Rightarrow>
                     (let sqes_size = ucast (par_sq_entries p) * 64;
                          ring3 = ring2\<lparr>kr_cq_mapping := Some cq, kr_sqes_mapping_size := sqes_size\<rparr>
                      in case us_mmap sys sqes_size (kr_fd ring) Off_sqes k2 of
                           (Inl e, k3) \<Rightarrow>
                             (Inl (provider_failure e), ring3\<lparr>kr_sqes_mapping := None\<rparr>, k3)
                         | (Inr sq_entries, k3) \<Rightarrow>
                             (Inr (), ring3\<lparr>kr_sqes_mapping := Some sq_entries,
                                            kr_memory := us_mapped sys (kr_fd ring) k3\<rparr>, k3))))"

definition empty_memory :: ring_memory where
  "empty_memory = \<lparr>sq_head = 0, sq_tail = 0, sq_flags = 0, sq_ring_mask = 0, sq_ring_entries = 0,
     sq_array = [], sqes = [], cq_head = 0, cq_tail = 0, cq_ring_mask = 0, cqes = []\<rparr>"

definition kr_create ::
  "'o uring_sys \<Rightarrow> nat \<Rightarrow> 'o \<Rightarrow> kernel_ring io_result \<times> 'o" where
  "kr_create sys requested_entries k =
     (if requested_entries = 0 \<or> requested_entries > UINT_MAX
      then (Inl (invalid_state_error ''io_uring queue entries must fit unsigned''), k)
      else
        (case us_setup sys (of_nat requested_entries) k of
           (Inl e, k1) \<Rightarrow> (Inl (provider_failure e), k1)
         | (Inr (fd, params), k1) \<Rightarrow>
             (case map_queues sys
                     \<lparr>kr_fd = fd, kr_params = params, kr_sq_mapping = None, kr_cq_mapping = None,
                      kr_sqes_mapping = None, kr_sq_mapping_size = 0, kr_cq_mapping_size = 0,
                      kr_sqes_mapping_size = 0, kr_memory = empty_memory,
                      kr_pending_submissions = 0\<rparr> k1 of
                (Inl e, ring, k2) \<Rightarrow> (Inl e, kr_destroy sys ring k2)
              | (Inr _, ring, k2) \<Rightarrow> (Inr ring, k2))))"

text \<open>A reservation is the slot and the tail that publishes it.\<close>

record sqe_reservation =
  rv_index :: uint32
  rv_next_tail :: uint32

definition reserve_sqe :: "ring_memory \<Rightarrow> sqe_reservation io_result \<times> ring_memory" where
  "reserve_sqe m =
     (let head = sq_head m; tail = sq_tail m
      in if tail - head \<ge> sq_ring_entries m
         then (Inl (make_error_diagnostic resource_exhausted ''io_uring submission ring is full''), m)
         else
           (let index = tail AND sq_ring_mask m
            in (Inr \<lparr>rv_index = index, rv_next_tail = tail + 1\<rparr>,
                m\<lparr>sqes := (sqes m)[unat index := zero_sqe],
                  sq_array := (sq_array m)[unat index := index]\<rparr>)))"

text \<open>Filling in the reserved entry.\<close>

definition write_sqe :: "sqe_reservation \<Rightarrow> io_uring_sqe \<Rightarrow> ring_memory \<Rightarrow> ring_memory" where
  "write_sqe reservation entry m = m\<lparr>sqes := (sqes m)[unat (rv_index reservation) := entry]\<rparr>"

definition publish_sqe :: "sqe_reservation \<Rightarrow> kernel_ring \<Rightarrow> kernel_ring" where
  "publish_sqe reservation ring =
     ring\<lparr>kr_memory := (kr_memory ring)\<lparr>sq_tail := rv_next_tail reservation\<rparr>,
          kr_pending_submissions := kr_pending_submissions ring + 1\<rparr>"

definition submit_pending_once ::
  "'o uring_sys \<Rightarrow> kernel_ring \<times> 'o \<Rightarrow> (uint32 io_result \<times> kernel_ring \<times> 'o) option" where
  "submit_pending_once sys = (\<lambda>(ring, k).
     if kr_pending_submissions ring = 0 then Some (Inr 0, ring, k)
     else
       (case retry_interrupted (us_enter sys (kr_fd ring) (kr_pending_submissions ring) 0)
               (kr_memory ring, k) of
          None \<Rightarrow> None
        | Some (Inl e, m, k1) \<Rightarrow> Some (Inl (provider_failure e), ring\<lparr>kr_memory := m\<rparr>, k1)
        | Some (Inr submitted, m, k1) \<Rightarrow>
            if submitted > 0
            then (let submitted_count = word_of_int submitted;
                      pending = kr_pending_submissions ring
                  in Some (Inr submitted_count,
                           ring\<lparr>kr_memory := m,
                                kr_pending_submissions :=
                                  if submitted_count \<ge> pending then 0 else pending - submitted_count\<rparr>,
                           k1))
            else Some (Inl (make_error_diagnostic backend_failure
                              ''io_uring made no submission progress''), ring\<lparr>kr_memory := m\<rparr>, k1)))"

definition drop_pending_submissions :: "kernel_ring \<Rightarrow> kernel_ring" where
  "drop_pending_submissions ring =
     (if kr_pending_submissions ring = 0 then ring
      else ring\<lparr>kr_memory := (kr_memory ring)
                  \<lparr>sq_tail := sq_tail (kr_memory ring) - kr_pending_submissions ring\<rparr>,
                kr_pending_submissions := 0\<rparr>)"

definition sq_cq_overflow :: uint32 where "sq_cq_overflow = push_bit 1 1"
definition sq_taskrun :: uint32 where "sq_taskrun = push_bit 2 1"
definition enter_getevents :: uint32 where "enter_getevents = 1"

definition io_uring_cq_needs_kernel_enter :: "uint32 \<Rightarrow> bool" where
  "io_uring_cq_needs_kernel_enter flags \<longleftrightarrow> flags AND (sq_cq_overflow OR sq_taskrun) \<noteq> 0"

definition enter_for_cq_events ::
  "'o uring_sys \<Rightarrow> kernel_ring \<times> 'o \<Rightarrow> (void_result \<times> kernel_ring \<times> 'o) option" where
  "enter_for_cq_events sys = (\<lambda>(ring, k).
     case retry_interrupted (us_enter sys (kr_fd ring) 0 enter_getevents) (kr_memory ring, k) of
       None \<Rightarrow> None
     | Some (Inl e, m, k1) \<Rightarrow> Some (Inl (provider_failure e), ring\<lparr>kr_memory := m\<rparr>, k1)
     | Some (Inr _, m, k1) \<Rightarrow> Some (Inr (), ring\<lparr>kr_memory := m\<rparr>, k1))"

text \<open>\<open>room\<close> is the size of the output span; the entries written to it are returned.\<close>

definition drain_cqes :: "nat \<Rightarrow> ring_memory \<Rightarrow> io_uring_cqe list \<times> ring_memory" where
  "drain_cqes room m =
     (let head = cq_head m;
          count = min room (unat (cq_tail m - head))
      in (map (\<lambda>index. cqes m ! unat ((head + of_nat index) AND cq_ring_mask m)) [0..<count],
          if count \<noteq> 0 then m\<lparr>cq_head := head + of_nat count\<rparr> else m))"

end
