(* ===== verification/Io_Uring_Backend.thy ===== *)
theory Io_Uring_Backend
  imports Io_Uring_Ring
begin

text \<open>
  \<^verbatim>\<open>class io_uring_backend\<close> of \<^verbatim>\<open>include/voris/io/backends/io_uring_backend.hpp\<close> and
  \<^verbatim>\<open>src/backends_io_uring_backend.cpp\<close>, the Linux build. Submissions wait in a bounded queue and
  a poll hands them, in batches, to the kernel ring, to the attached test kernel, or, with kernel
  submission disabled, to the virtual backend. The hash table of kernel operations is an
  association list, enumerated in the order \<open>us_iteration\<close>. Calls that enter the kernel are
  partial, because the retry of interrupted system calls is.
\<close>

section \<open>Data\<close>

record io_uring_backend_options =
  submission_queue_capacity :: nat
  submit_batch_limit :: nat
  completion_batch_limit :: nat
  enable_kernel_submission :: bool

datatype io_uring_backend_state = Ur_unavailable | Ur_active | Ur_closed

datatype pending_io_uring_submission_kind = Pending_operation | Pending_cancel

record pending_io_uring_submission =
  ps_kind :: pending_io_uring_submission_kind
  ps_operation_id :: size_t

datatype io_uring_completion_result_class = Kernel_result | Cancelled_result | Closed_result

datatype io_uring_test_completion_kind = Test_operation | Test_cancel_ack

record io_uring_test_completion =
  tc_kind :: io_uring_test_completion_kind
  tc_operation_id :: size_t
  tc_result :: int

record io_uring_test_submission =
  ts_operation_id :: size_t
  ts_used_registered_buffer :: bool
  ts_used_registered_file :: bool

record io_uring_test_kernel =
  tk_cancel_submission_failures :: size_t
  tk_completions :: "io_uring_test_completion list"
  tk_submitted_cancel_operation_ids :: "size_t list"
  tk_submissions :: "io_uring_test_submission list"
  tk_register_buffers_calls :: size_t
  tk_unregister_buffers_calls :: size_t
  tk_register_files_calls :: size_t
  tk_unregister_files_calls :: size_t
  tk_register_buffers_provider_failures :: size_t
  tk_register_files_provider_failures :: size_t

record 'r kernel_operation =
  ko_operation :: "'r backend_operation"
  ko_cancellation :: "cancellation_reason option"
  ko_close_requested :: bool
  ko_cancel_request_submitted :: bool
  ko_cancel_sqe_in_flight :: bool

record 'r io_uring_backend =
  ur_capabilities :: io_uring_capabilities
  ur_options :: io_uring_backend_options
  ur_fallback :: "'r virtual_backend"
  ur_kernel_ring :: "kernel_ring option"
  ur_submission_queue :: "'r backend_operation list"
  ur_completion_queue :: "backend_completion list"
  ur_pending_kernel_submissions :: "pending_io_uring_submission list"
  ur_kernel_operations :: "(size_t \<times> 'r kernel_operation) list"
  ur_kernel_cancel_operation_ids :: "size_t set"
  ur_active_operation_ids :: "size_t set"
  ur_test_kernel :: "io_uring_test_kernel option"
  ur_registered_buffers :: "byte_span list"
  ur_registered_files :: "backend_handle_token list"
  ur_closed :: bool

type_synonym ('r, 'o) ur_state = "'r io_uring_backend \<times> 'o"

section \<open>The hash table of kernel operations\<close>

definition ko_emplace :: "size_t \<Rightarrow> 'v \<Rightarrow> (size_t \<times> 'v) list \<Rightarrow> (size_t \<times> 'v) list" where
  "ko_emplace i v table = (if i \<in> set (map fst table) then table else table @ [(i, v)])"

definition ko_erase :: "size_t \<Rightarrow> (size_t \<times> 'v) list \<Rightarrow> (size_t \<times> 'v) list" where
  "ko_erase i table = filter (\<lambda>entry. fst entry \<noteq> i) table"

definition ko_modify :: "size_t \<Rightarrow> ('v \<Rightarrow> 'v) \<Rightarrow> (size_t \<times> 'v) list \<Rightarrow> (size_t \<times> 'v) list" where
  "ko_modify i f table = map (\<lambda>(j, v). if j = i then (j, f v) else (j, v)) table"

section \<open>Helpers\<close>

definition supports_operation :: "io_uring_capabilities \<Rightarrow> 'r backend_operation \<Rightarrow> bool" where
  "supports_operation c operation =
     (case op_kind operation of
        op_read \<Rightarrow> supports_read c
      | op_write \<Rightarrow> supports_write c
      | op_accept \<Rightarrow> supports_accept c
      | op_connect \<Rightarrow> supports_connect c
      | op_fsync \<Rightarrow> supports_fsync c
      | op_close \<Rightarrow> False
      | op_wake \<Rightarrow> False)"

definition unavailable_error :: vio_error where
  "unavailable_error = make_error_diagnostic unsupported ''io_uring is unavailable''"

definition ur_closed_error :: vio_error where
  "ur_closed_error = make_error closed None []"

definition opcode_unavailable_error :: vio_error where
  "opcode_unavailable_error =
     make_error_diagnostic unsupported ''io_uring operation opcode is unavailable''"

definition submission_queue_full_error :: vio_error where
  "submission_queue_full_error =
     make_error_diagnostic resource_exhausted ''io_uring submission queue is full''"

definition cancellation_required_error :: vio_error where
  "cancellation_required_error = make_error_diagnostic unsupported
     ''io_uring kernel operations require async cancel for close/shutdown liveness''"

definition cancelled_completion :: "cancellation_reason \<Rightarrow> void_result" where
  "cancelled_completion reason = Inl (make_error_diagnostic cancelled
     (''io_uring operation cancelled: '' @ reason_to_string reason))"

definition normalize_options :: "io_uring_backend_options \<Rightarrow> io_uring_backend_options" where
  "normalize_options opts =
     (let opts1 = (if submit_batch_limit opts = 0 then opts\<lparr>submit_batch_limit := 1\<rparr> else opts)
      in if completion_batch_limit opts1 = 0 then opts1\<lparr>completion_batch_limit := 1\<rparr> else opts1)"

fun discard_submitted_io_uring_submissions ::
  "pending_io_uring_submission list \<Rightarrow> uint32 \<Rightarrow> pending_io_uring_submission list" where
  "discard_submitted_io_uring_submissions [] submitted_count = []"
| "discard_submitted_io_uring_submissions (p # pending) submitted_count =
     (if submitted_count \<noteq> 0
      then discard_submitted_io_uring_submissions pending (submitted_count - 1) else p # pending)"

fun take_unsubmitted_loop ::
  "pending_io_uring_submission list \<Rightarrow> pending_io_uring_submission list \<Rightarrow>
     pending_io_uring_submission list \<times> pending_io_uring_submission list" where
  "take_unsubmitted_loop unsubmitted [] = (unsubmitted, [])"
| "take_unsubmitted_loop unsubmitted (p # pending) = take_unsubmitted_loop (unsubmitted @ [p]) pending"

definition take_unsubmitted_io_uring_submissions ::
  "pending_io_uring_submission list \<Rightarrow>
     pending_io_uring_submission list \<times> pending_io_uring_submission list" where
  "take_unsubmitted_io_uring_submissions pending = take_unsubmitted_loop [] pending"

definition io_uring_cancel_retry_required :: "bool \<Rightarrow> bool \<Rightarrow> bool \<Rightarrow> bool \<Rightarrow> bool" where
  "io_uring_cancel_retry_required cancel_requested close_requested cancel_request_submitted
     cancel_sqe_in_flight \<longleftrightarrow>
     (cancel_requested \<or> close_requested) \<and> \<not> cancel_request_submitted \<and> \<not> cancel_sqe_in_flight"

definition linux_ecanceled :: int where
  "linux_ecanceled = 125"

definition io_uring_completion_result_for ::
  "backend_operation_target \<Rightarrow> bool \<Rightarrow> bool \<Rightarrow> bool \<Rightarrow> int \<Rightarrow> io_uring_completion_result_class" where
  "io_uring_completion_result_for target cancel_requested close_requested handle_current cqe_result =
     (if cancel_requested
      then (if cqe_result = - linux_ecanceled then Cancelled_result else Kernel_result)
      else if target = target_file
      then (if (close_requested \<or> \<not> handle_current) \<and> cqe_result = - linux_ecanceled
            then Closed_result else Kernel_result)
      else if close_requested \<or> \<not> handle_current then Closed_result
      else Kernel_result)"

definition io_uring_completion_should_report_closed ::
  "backend_operation_target \<Rightarrow> bool \<Rightarrow> bool \<Rightarrow> int \<Rightarrow> bool" where
  "io_uring_completion_should_report_closed target close_requested handle_current cqe_result \<longleftrightarrow>
     io_uring_completion_result_for target False close_requested handle_current cqe_result =
       Closed_result"

section \<open>Construction and observers\<close>

definition ur_create :: "io_uring_capabilities \<Rightarrow> io_uring_backend_options \<Rightarrow> 'r io_uring_backend" where
  "ur_create caps opts =
     \<lparr>ur_capabilities = caps, ur_options = normalize_options opts, ur_fallback = vb_init,
      ur_kernel_ring = None, ur_submission_queue = [], ur_completion_queue = [],
      ur_pending_kernel_submissions = [], ur_kernel_operations = [],
      ur_kernel_cancel_operation_ids = {}, ur_active_operation_ids = {}, ur_test_kernel = None,
      ur_registered_buffers = [], ur_registered_files = [], ur_closed = False\<rparr>"

definition attach_io_uring_test_kernel ::
  "io_uring_test_kernel \<Rightarrow> 'r io_uring_backend \<Rightarrow> 'r io_uring_backend" where
  "attach_io_uring_test_kernel tk b = b\<lparr>ur_test_kernel := Some tk\<rparr>"

definition ur_get_state :: "'r io_uring_backend \<Rightarrow> io_uring_backend_state" where
  "ur_get_state b =
     (if ur_closed b then Ur_closed
      else if \<not> available (ur_capabilities b) then Ur_unavailable else Ur_active)"

definition ur_default_eligible :: "'r io_uring_backend \<Rightarrow> bool" where
  "ur_default_eligible b = has_default_core_capabilities (ur_capabilities b)"

definition ur_registered_buffer_count :: "'r io_uring_backend \<Rightarrow> size_t" where
  "ur_registered_buffer_count b = of_nat (length (ur_registered_buffers b))"

definition ur_registered_file_count :: "'r io_uring_backend \<Rightarrow> size_t" where
  "ur_registered_file_count b = of_nat (length (ur_registered_files b))"

definition use_kernel_submission :: "'r io_uring_backend \<Rightarrow> bool" where
  "use_kernel_submission b = enable_kernel_submission (ur_options b)"

definition has_inflight_kernel_work :: "'r io_uring_backend \<Rightarrow> bool" where
  "has_inflight_kernel_work b \<longleftrightarrow>
     ur_kernel_operations b \<noteq> [] \<or> ur_kernel_cancel_operation_ids b \<noteq> {}"

definition registered_files_contains :: "backend_handle_token \<Rightarrow> 'r io_uring_backend \<Rightarrow> bool" where
  "registered_files_contains token b \<longleftrightarrow> token \<in> set (ur_registered_files b)"

definition ensure_kernel_ring ::
  "'o uring_sys \<Rightarrow> ('r, 'o) ur_state \<Rightarrow> void_result \<times> ('r, 'o) ur_state" where
  "ensure_kernel_ring sys = (\<lambda>(b, k).
     case ur_kernel_ring b of
       Some _ \<Rightarrow> (Inr (), b, k)
     | None \<Rightarrow>
         (case kr_create sys (submission_queue_capacity (ur_options b)) k of
            (Inl e, k1) \<Rightarrow> (Inl e, b, k1)
          | (Inr ring, k1) \<Rightarrow> (Inr (), b\<lparr>ur_kernel_ring := Some ring\<rparr>, k1)))"

definition validate_kernel_operation :: "'r backend_operation \<Rightarrow> void_result" where
  "validate_kernel_operation operation =
     (case native_handle_as_fd (native_handle (op_handle operation)) of
        Inl e \<Rightarrow> Inl e
      | Inr _ \<Rightarrow>
          if \<not> is_valid_backend_operation_shape operation
          then Inl (invalid_state_error
                      ''io_uring kernel submission received an invalid operation target'')
          else
            (case op_kind operation of
               op_read \<Rightarrow> (case span_size_as_u32 (span_size (op_read_buffer operation)) of
                             Inl e \<Rightarrow> Inl e | Inr _ \<Rightarrow> Inr ())
             | op_write \<Rightarrow> (case span_size_as_u32 (span_size (op_write_buffer operation)) of
                              Inl e \<Rightarrow> Inl e | Inr _ \<Rightarrow> Inr ())
             | op_accept \<Rightarrow>
                 if op_target operation \<noteq> target_socket
                 then Inl (invalid_state_error ''io_uring accept requires a socket target'')
                 else Inr ()
             | op_connect \<Rightarrow>
                 if op_target operation \<noteq> target_socket
                 then Inl (invalid_state_error ''io_uring connect requires a socket target'')
                 else if span_size (op_socket_address operation) = 0
                 then Inl (invalid_state_error ''io_uring connect requires a socket address'')
                 else if unat (span_size (op_socket_address operation)) > UINT_MAX
                 then Inl (invalid_state_error ''io_uring connect address does not fit socklen_t'')
                 else Inr ()
             | op_fsync \<Rightarrow>
                 if op_target operation \<noteq> target_file
                 then Inl (invalid_state_error ''io_uring fsync requires a file target'')
                 else Inr ()
             | op_close \<Rightarrow> Inl (invalid_state_error
                                 ''io_uring kernel submission requires an I/O operation'')
             | op_wake \<Rightarrow> Inl (invalid_state_error
                                ''io_uring kernel submission requires an I/O operation'')))"

section \<open>Registered resources\<close>

definition register_buffers_with_provider ::
  "'o uring_sys \<Rightarrow> byte_span list \<Rightarrow> ('r, 'o) ur_state \<Rightarrow> void_result \<times> ('r, 'o) ur_state" where
  "register_buffers_with_provider sys buffers = (\<lambda>(b, k).
     if \<not> use_kernel_submission b then (Inr (), b, k)
     else (case ur_test_kernel b of
       Some tk \<Rightarrow>
         (let tk1 = tk\<lparr>tk_register_buffers_calls := tk_register_buffers_calls tk + 1\<rparr>
          in if tk_register_buffers_provider_failures tk1 \<noteq> 0
             then (Inl (provider_failure EIO),
                   b\<lparr>ur_test_kernel := Some (tk1\<lparr>tk_register_buffers_provider_failures :=
                      tk_register_buffers_provider_failures tk1 - 1\<rparr>)\<rparr>, k)
             else (Inr (), b\<lparr>ur_test_kernel := Some tk1\<rparr>, k))
     | None \<Rightarrow>
         (case ensure_kernel_ring sys (b, k) of
            (Inl e, s1) \<Rightarrow> (Inl e, s1)
          | (Inr _, b1, k1) \<Rightarrow>
              (case count_as_u32 (length buffers)
                      ''io_uring registered buffer count does not fit u32'' of
                 Inl e \<Rightarrow> (Inl e, b1, k1)
               | Inr n \<Rightarrow>
                   (case us_register sys (kr_fd (the (ur_kernel_ring b1)))
                           (Register_buffers buffers n) k1 of
                      (Inl e, k2) \<Rightarrow> (Inl (provider_failure e), b1, k2)
                    | (Inr _, k2) \<Rightarrow> (Inr (), b1, k2))))))"

definition unregister_buffers_with_provider ::
  "'o uring_sys \<Rightarrow> ('r, 'o) ur_state \<Rightarrow> void_result \<times> ('r, 'o) ur_state" where
  "unregister_buffers_with_provider sys = (\<lambda>(b, k).
     if \<not> use_kernel_submission b then (Inr (), b, k)
     else (case ur_test_kernel b of
       Some tk \<Rightarrow> (Inr (), b\<lparr>ur_test_kernel := Some (tk\<lparr>tk_unregister_buffers_calls :=
                    tk_unregister_buffers_calls tk + 1\<rparr>)\<rparr>, k)
     | None \<Rightarrow>
         (case ur_kernel_ring b of
            None \<Rightarrow> (Inl (invalid_state_error
                            ''io_uring buffer unregister requires an active ring''), b, k)
          | Some ring \<Rightarrow>
              (case us_register sys (kr_fd ring) Unregister_buffers k of
                 (Inl e, k1) \<Rightarrow> (Inl (provider_failure e), b, k1)
               | (Inr _, k1) \<Rightarrow> (Inr (), b, k1)))))"

text \<open>The loop that collects the descriptors.\<close>

fun file_descriptors :: "backend_handle_token list \<Rightarrow> int list io_result" where
  "file_descriptors [] = Inr []"
| "file_descriptors (file # files) =
     (case native_handle_as_fd (native_handle file) of
        Inl e \<Rightarrow> Inl e
      | Inr fd \<Rightarrow> (case file_descriptors files of Inl e \<Rightarrow> Inl e | Inr fds \<Rightarrow> Inr (fd # fds)))"

definition register_files_with_provider ::
  "'o uring_sys \<Rightarrow> backend_handle_token list \<Rightarrow> ('r, 'o) ur_state \<Rightarrow> void_result \<times> ('r, 'o) ur_state"
  where
  "register_files_with_provider sys files = (\<lambda>(b, k).
     if \<not> use_kernel_submission b then (Inr (), b, k)
     else (case ur_test_kernel b of
       Some tk \<Rightarrow>
         (let tk1 = tk\<lparr>tk_register_files_calls := tk_register_files_calls tk + 1\<rparr>
          in if tk_register_files_provider_failures tk1 \<noteq> 0
             then (Inl (provider_failure EIO),
                   b\<lparr>ur_test_kernel := Some (tk1\<lparr>tk_register_files_provider_failures :=
                      tk_register_files_provider_failures tk1 - 1\<rparr>)\<rparr>, k)
             else (Inr (), b\<lparr>ur_test_kernel := Some tk1\<rparr>, k))
     | None \<Rightarrow>
         (case ensure_kernel_ring sys (b, k) of
            (Inl e, s1) \<Rightarrow> (Inl e, s1)
          | (Inr _, b1, k1) \<Rightarrow>
              (case file_descriptors files of
                 Inl e \<Rightarrow> (Inl e, b1, k1)
               | Inr fds \<Rightarrow>
                   (case count_as_u32 (length fds)
                           ''io_uring registered file count does not fit u32'' of
                      Inl e \<Rightarrow> (Inl e, b1, k1)
                    | Inr n \<Rightarrow>
                        (case us_register sys (kr_fd (the (ur_kernel_ring b1)))
                                (Register_files fds n) k1 of
                           (Inl e, k2) \<Rightarrow> (Inl (provider_failure e), b1, k2)
                         | (Inr _, k2) \<Rightarrow> (Inr (), b1, k2)))))))"

definition unregister_files_with_provider ::
  "'o uring_sys \<Rightarrow> ('r, 'o) ur_state \<Rightarrow> void_result \<times> ('r, 'o) ur_state" where
  "unregister_files_with_provider sys = (\<lambda>(b, k).
     if \<not> use_kernel_submission b then (Inr (), b, k)
     else (case ur_test_kernel b of
       Some tk \<Rightarrow> (Inr (), b\<lparr>ur_test_kernel := Some (tk\<lparr>tk_unregister_files_calls :=
                    tk_unregister_files_calls tk + 1\<rparr>)\<rparr>, k)
     | None \<Rightarrow>
         (case ur_kernel_ring b of
            None \<Rightarrow> (Inl (invalid_state_error
                            ''io_uring file unregister requires an active ring''), b, k)
          | Some ring \<Rightarrow>
              (case us_register sys (kr_fd ring) Unregister_files k of
                 (Inl e, k1) \<Rightarrow> (Inl (provider_failure e), b, k1)
               | (Inr _, k1) \<Rightarrow> (Inr (), b, k1)))))"

definition release_buffers ::
  "'o uring_sys \<Rightarrow> ('r, 'o) ur_state \<Rightarrow> void_result \<times> ('r, 'o) ur_state" where
  "release_buffers sys = (\<lambda>(b, k).
     if ur_registered_buffers b = [] then (Inr (), b, k)
     else (case unregister_buffers_with_provider sys (b, k) of
       (Inl e, s1) \<Rightarrow> (Inl e, s1)
     | (Inr _, b1, k1) \<Rightarrow> (Inr (), b1\<lparr>ur_registered_buffers := []\<rparr>, k1)))"

definition release_files ::
  "'o uring_sys \<Rightarrow> ('r, 'o) ur_state \<Rightarrow> void_result \<times> ('r, 'o) ur_state" where
  "release_files sys = (\<lambda>(b, k).
     if ur_registered_files b = [] then (Inr (), b, k)
     else (case unregister_files_with_provider sys (b, k) of
       (Inl e, s1) \<Rightarrow> (Inl e, s1)
     | (Inr _, b1, k1) \<Rightarrow> (Inr (), b1\<lparr>ur_registered_files := []\<rparr>, k1)))"

definition release_registered_resources ::
  "'o uring_sys \<Rightarrow> ('r, 'o) ur_state \<Rightarrow> void_result \<times> ('r, 'o) ur_state" where
  "release_registered_resources sys s =
     (case release_buffers sys s of
        (Inl e, s1) \<Rightarrow> (Inl e, s1)
      | (Inr _, s1) \<Rightarrow> release_files sys s1)"

definition release_registered_files_for ::
  "'o uring_sys \<Rightarrow> backend_handle_token \<Rightarrow> ('r, 'o) ur_state \<Rightarrow> void_result \<times> ('r, 'o) ur_state" where
  "release_registered_files_for sys token = (\<lambda>(b, k).
     if \<not> registered_files_contains token b then (Inr (), b, k)
     else (case unregister_files_with_provider sys (b, k) of
       (Inl e, s1) \<Rightarrow> (Inl e, s1)
     | (Inr _, b1, k1) \<Rightarrow> (Inr (), b1\<lparr>ur_registered_files := []\<rparr>, k1)))"

definition ur_register_buffers_count :: "size_t \<Rightarrow> 'r io_uring_backend \<Rightarrow> void_result" where
  "ur_register_buffers_count n b =
     (if ur_closed b then Inl ur_closed_error
      else if n = 0
      then Inl (invalid_state_error ''io_uring registered buffer count must be non-zero'')
      else if \<not> available (ur_capabilities b) \<or> \<not> supports_registered_buffers (ur_capabilities b)
      then Inl (make_error_diagnostic unsupported ''registered buffers unavailable'')
      else if ur_registered_buffers b \<noteq> []
      then Inl (invalid_state_error ''io_uring buffers are already registered'')
      else Inl (invalid_state_error
                  ''io_uring buffer registration requires borrowed buffer views''))"

text \<open>The loop that checks the buffers.\<close>

fun candidate_buffers :: "byte_span list \<Rightarrow> byte_span list \<Rightarrow> byte_span list io_result" where
  "candidate_buffers candidates [] = Inr candidates"
| "candidate_buffers candidates (buffer # buffers) =
     (if span_size buffer = 0 \<or> span_data buffer = 0
      then Inl (invalid_state_error ''io_uring registered buffers must reference non-empty storage'')
      else candidate_buffers (candidates @ [buffer]) buffers)"

definition ur_register_buffers ::
  "'o uring_sys \<Rightarrow> byte_span list \<Rightarrow> ('r, 'o) ur_state \<Rightarrow> void_result \<times> ('r, 'o) ur_state" where
  "ur_register_buffers sys buffers = (\<lambda>(b, k).
     if ur_closed b then (Inl ur_closed_error, b, k)
     else if buffers = []
     then (Inl (invalid_state_error ''io_uring registered buffer list must not be empty''), b, k)
     else if \<not> available (ur_capabilities b) \<or> \<not> supports_registered_buffers (ur_capabilities b)
     then (Inl (make_error_diagnostic unsupported ''registered buffers unavailable''), b, k)
     else if ur_registered_buffers b \<noteq> []
     then (Inl (invalid_state_error ''io_uring buffers are already registered''), b, k)
     else (case count_as_u32 (length buffers)
                  ''io_uring registered buffer count does not fit u32'' of
       Inl e \<Rightarrow> (Inl e, b, k)
     | Inr _ \<Rightarrow>
         (case candidate_buffers [] buffers of
            Inl e \<Rightarrow> (Inl e, b, k)
          | Inr candidates \<Rightarrow>
              (case register_buffers_with_provider sys candidates (b, k) of
                 (Inl e, s1) \<Rightarrow> (Inl e, s1)
               | (Inr _, b1, k1) \<Rightarrow> (Inr (), b1\<lparr>ur_registered_buffers := candidates\<rparr>, k1)))))"

definition ur_unregister_buffers ::
  "'o uring_sys \<Rightarrow> ('r, 'o) ur_state \<Rightarrow> void_result \<times> ('r, 'o) ur_state" where
  "ur_unregister_buffers sys = (\<lambda>(b, k).
     if ur_closed b then (Inl ur_closed_error, b, k)
     else if ur_registered_buffers b = []
     then (Inl (invalid_state_error ''io_uring buffers are not registered''), b, k)
     else (case unregister_buffers_with_provider sys (b, k) of
       (Inl e, s1) \<Rightarrow> (Inl e, s1)
     | (Inr _, b1, k1) \<Rightarrow> (Inr (), b1\<lparr>ur_registered_buffers := []\<rparr>, k1)))"

definition ur_register_files_count :: "size_t \<Rightarrow> 'r io_uring_backend \<Rightarrow> void_result" where
  "ur_register_files_count n b =
     (if ur_closed b then Inl ur_closed_error
      else if n = 0
      then Inl (invalid_state_error ''io_uring registered file count must be non-zero'')
      else if \<not> available (ur_capabilities b) \<or> \<not> supports_registered_files (ur_capabilities b)
      then Inl (make_error_diagnostic unsupported ''registered files unavailable'')
      else if ur_registered_files b \<noteq> []
      then Inl (invalid_state_error ''io_uring files are already registered'')
      else Inl (invalid_state_error ''io_uring file registration requires backend handle tokens''))"

text \<open>The loop that checks the tokens.\<close>

fun candidate_files ::
  "'r virtual_backend \<Rightarrow> backend_handle_token list \<Rightarrow> backend_handle_token list \<Rightarrow>
     backend_handle_token list io_result" where
  "candidate_files f candidates [] = Inr candidates"
| "candidate_files f candidates (file # files) =
     (if \<not> vb_is_current_handle file f
      then Inl (invalid_state_error ''io_uring registered file token is not current'')
      else (case native_handle_as_fd (native_handle file) of
        Inl e \<Rightarrow> Inl e
      | Inr _ \<Rightarrow>
          if file \<in> set candidates
          then Inl (invalid_state_error ''io_uring registered file tokens must be unique'')
          else candidate_files f (candidates @ [file]) files))"

definition ur_register_files ::
  "'o uring_sys \<Rightarrow> backend_handle_token list \<Rightarrow> ('r, 'o) ur_state \<Rightarrow> void_result \<times> ('r, 'o) ur_state"
  where
  "ur_register_files sys files = (\<lambda>(b, k).
     if ur_closed b then (Inl ur_closed_error, b, k)
     else if files = []
     then (Inl (invalid_state_error ''io_uring registered file list must not be empty''), b, k)
     else if \<not> available (ur_capabilities b) \<or> \<not> supports_registered_files (ur_capabilities b)
     then (Inl (make_error_diagnostic unsupported ''registered files unavailable''), b, k)
     else if ur_registered_files b \<noteq> []
     then (Inl (invalid_state_error ''io_uring files are already registered''), b, k)
     else (case count_as_u32 (length files)
                  ''io_uring registered file count does not fit u32'' of
       Inl e \<Rightarrow> (Inl e, b, k)
     | Inr _ \<Rightarrow>
         (case candidate_files (ur_fallback b) [] files of
            Inl e \<Rightarrow> (Inl e, b, k)
          | Inr candidates \<Rightarrow>
              (case register_files_with_provider sys candidates (b, k) of
                 (Inl e, s1) \<Rightarrow> (Inl e, s1)
               | (Inr _, b1, k1) \<Rightarrow> (Inr (), b1\<lparr>ur_registered_files := candidates\<rparr>, k1)))))"

definition ur_unregister_files ::
  "'o uring_sys \<Rightarrow> ('r, 'o) ur_state \<Rightarrow> void_result \<times> ('r, 'o) ur_state" where
  "ur_unregister_files sys = (\<lambda>(b, k).
     if ur_closed b then (Inl ur_closed_error, b, k)
     else if ur_registered_files b = []
     then (Inl (invalid_state_error ''io_uring files are not registered''), b, k)
     else (case unregister_files_with_provider sys (b, k) of
       (Inl e, s1) \<Rightarrow> (Inl e, s1)
     | (Inr _, b1, k1) \<Rightarrow> (Inr (), b1\<lparr>ur_registered_files := []\<rparr>, k1)))"

definition ur_destroy :: "'o uring_sys \<Rightarrow> ('r, 'o) ur_state \<Rightarrow> 'o" where
  "ur_destroy sys s =
     (case snd (release_registered_resources sys s) of
        (b, k) \<Rightarrow> (case ur_kernel_ring b of Some ring \<Rightarrow> kr_destroy sys ring k | None \<Rightarrow> k))"

end
