(* ===== verification/Io_Uring_Operations.thy ===== *)
theory Io_Uring_Operations
  imports Io_Uring_Backend
begin

text \<open>
  The operations of \<^verbatim>\<open>io_uring_backend\<close> that move work: submission to the kernel, cancellation,
  progress of the submission ring, observation of completions, and the backend interface. A call
  that never returns, because the kernel interrupts it for ever, is \<open>None\<close>.
\<close>

section \<open>Progress of the submission ring\<close>

text \<open>One entry of the loop of \<^verbatim>\<open>complete_unsubmitted_kernel_submissions\<close>.\<close>

definition complete_unsubmitted ::
  "vio_error \<Rightarrow> pending_io_uring_submission \<Rightarrow> size_t \<times> 'r io_uring_backend \<Rightarrow>
     size_t \<times> 'r io_uring_backend" where
  "complete_unsubmitted err submission = (\<lambda>(visible, b).
     let i = ps_operation_id submission
     in if ps_kind submission = Pending_cancel
        then (visible,
              b\<lparr>ur_kernel_cancel_operation_ids := ur_kernel_cancel_operation_ids b - {i},
                ur_kernel_operations := ko_modify i
                  (\<lambda>ko. ko\<lparr>ko_cancel_request_submitted := False, ko_cancel_sqe_in_flight := False\<rparr>)
                  (ur_kernel_operations b)\<rparr>)
        else
          (case map_of (ur_kernel_operations b) i of
             None \<Rightarrow> (visible, b)
           | Some ko \<Rightarrow>
               (let res = (case ko_cancellation ko of
                             Some reason \<Rightarrow> cancelled_completion reason
                           | None \<Rightarrow>
                               if ur_closed b \<or> ko_close_requested ko \<or>
                                  \<not> vb_is_current_handle (op_handle (ko_operation ko)) (ur_fallback b)
                               then closed_completion else Inl err)
                in (visible + 1,
                    b\<lparr>ur_kernel_operations := ko_erase i (ur_kernel_operations b),
                      ur_completion_queue := ur_completion_queue b @ [make_completion i res]\<rparr>))))"

definition complete_unsubmitted_kernel_submissions ::
  "vio_error \<Rightarrow> 'r io_uring_backend \<Rightarrow> size_t \<times> 'r io_uring_backend" where
  "complete_unsubmitted_kernel_submissions err b =
     (let (unsubmitted, pending) =
            take_unsubmitted_io_uring_submissions (ur_pending_kernel_submissions b)
      in fold (complete_unsubmitted err) unsubmitted
           (0, b\<lparr>ur_pending_kernel_submissions := pending\<rparr>))"

text \<open>The while loop of \<^verbatim>\<open>progress_kernel_submissions\<close>.\<close>

definition pending_count :: "'r io_uring_backend \<Rightarrow> nat" where
  "pending_count b =
     (case ur_kernel_ring b of None \<Rightarrow> 0 | Some ring \<Rightarrow> unat (kr_pending_submissions ring))"

lemma submit_pending_once_decreases:
  assumes "submit_pending_once sys (ring, k) = Some (Inr n, ring', k')" and "n \<noteq> 0"
  shows "unat (kr_pending_submissions ring') < unat (kr_pending_submissions ring)"
proof -
  have "kr_pending_submissions ring \<noteq> 0"
    and eq: "kr_pending_submissions ring' = (if n \<ge> kr_pending_submissions ring then 0
      else kr_pending_submissions ring - n)"
    using assms by (auto simp: submit_pending_once_def Let_def split: if_splits option.splits
        prod.splits sum.splits)
  then show ?thesis
    using assms(2) by (auto simp: unat_gt_0 not_le word_less_nat_alt unat_sub [OF less_imp_le]
        word_le_nat_alt)
qed

function progress_loop ::
  "'o uring_sys \<Rightarrow> size_t \<Rightarrow> 'r io_uring_backend \<Rightarrow> 'o \<Rightarrow> (size_t \<times> ('r, 'o) ur_state) option" where
  "progress_loop sys visible b k =
     (case ur_kernel_ring b of
        None \<Rightarrow> Some (visible, b, k)
      | Some ring \<Rightarrow>
          if kr_pending_submissions ring = 0 then Some (visible, b, k)
          else
            (case submit_pending_once sys (ring, k) of
               None \<Rightarrow> None
             | Some (Inr n, ring', k') \<Rightarrow>
                 (if n = 0 then Some (visible, b\<lparr>ur_kernel_ring := Some ring'\<rparr>, k')
                  else progress_loop sys visible
                         (b\<lparr>ur_kernel_ring := Some ring',
                            ur_pending_kernel_submissions := discard_submitted_io_uring_submissions
                              (ur_pending_kernel_submissions b) n\<rparr>) k')
             | Some (Inl failure, ring', k') \<Rightarrow>
                 (let (n, b') = complete_unsubmitted_kernel_submissions failure
                        (b\<lparr>ur_kernel_ring := Some (drop_pending_submissions ring')\<rparr>)
                  in Some (visible + n, b', k'))))"
  by pat_completeness auto
termination
  by (relation "measure (\<lambda>(sys, visible, b, k). pending_count b)")
    (auto simp: pending_count_def submit_pending_once_decreases)

declare progress_loop.simps [simp del]

definition progress_kernel_submissions ::
  "'o uring_sys \<Rightarrow> ('r, 'o) ur_state \<Rightarrow> (size_t io_result \<times> ('r, 'o) ur_state) option" where
  "progress_kernel_submissions sys = (\<lambda>(b, k).
     case ur_kernel_ring b of
       None \<Rightarrow> Some (Inr 0, b, k)
     | Some _ \<Rightarrow> do { (visible, s1) \<leftarrow> progress_loop sys 0 b k; Some (Inr visible, s1) })"

section \<open>Submission\<close>

definition submit_to_fallback ::
  "'r backend_operation \<Rightarrow> 'r io_uring_backend \<Rightarrow> void_result \<times> 'r io_uring_backend" where
  "submit_to_fallback operation b =
     (case vb_submit operation (ur_fallback b) of
        (Inl e, f) \<Rightarrow>
          (Inl e, b\<lparr>ur_fallback := f,
                    ur_active_operation_ids := ur_active_operation_ids b - {op_id operation}\<rparr>)
      | (Inr _, f) \<Rightarrow> (Inr (), b\<lparr>ur_fallback := f\<rparr>))"

definition SOCK_NONBLOCK :: uint32 where "SOCK_NONBLOCK = 0x800"
definition SOCK_CLOEXEC :: uint32 where "SOCK_CLOEXEC = 0x80000"

text \<open>The switch that prepares the submission entry of an operation.\<close>

definition prepare_sqe :: "'r backend_operation \<Rightarrow> int \<Rightarrow> uint64 \<Rightarrow> io_uring_sqe io_result" where
  "prepare_sqe operation fd user_data =
     (let entry = zero_sqe\<lparr>sqe_fd := fd, sqe_user_data := user_data\<rparr>;
          file_offset = (if op_target operation = target_file then op_offset operation else 0)
      in case op_kind operation of
           op_read \<Rightarrow>
             (case span_size_as_u32 (span_size (op_read_buffer operation)) of
                Inl e \<Rightarrow> Inl e
              | Inr sz \<Rightarrow> Inr (entry\<lparr>sqe_opcode := opcode_read, sqe_off := file_offset,
                                    sqe_addr := span_data (op_read_buffer operation), sqe_len := sz\<rparr>))
         | op_write \<Rightarrow>
             (case span_size_as_u32 (span_size (op_write_buffer operation)) of
                Inl e \<Rightarrow> Inl e
              | Inr sz \<Rightarrow> Inr (entry\<lparr>sqe_opcode := opcode_write, sqe_off := file_offset,
                                    sqe_addr := span_data (op_write_buffer operation), sqe_len := sz\<rparr>))
         | op_accept \<Rightarrow> Inr (entry\<lparr>sqe_opcode := opcode_accept,
                                  sqe_op_flags := SOCK_NONBLOCK OR SOCK_CLOEXEC\<rparr>)
         | op_connect \<Rightarrow> Inr (entry\<lparr>sqe_opcode := opcode_connect,
                                   sqe_off := span_size (op_socket_address operation),
                                   sqe_addr := span_data (op_socket_address operation)\<rparr>)
         | op_fsync \<Rightarrow> Inr (entry\<lparr>sqe_opcode := opcode_fsync\<rparr>)
         | op_close \<Rightarrow> Inl (invalid_state_error
                             ''io_uring kernel submission requires an I/O operation'')
         | op_wake \<Rightarrow> Inl (invalid_state_error
                            ''io_uring kernel submission requires an I/O operation''))"

definition new_kernel_operation :: "'r backend_operation \<Rightarrow> 'r kernel_operation" where
  "new_kernel_operation operation =
     \<lparr>ko_operation = operation, ko_cancellation = None, ko_close_requested = False,
      ko_cancel_request_submitted = False, ko_cancel_sqe_in_flight = False\<rparr>"

definition submit_to_test_kernel ::
  "'r backend_operation \<Rightarrow> io_uring_test_kernel \<Rightarrow> 'r io_uring_backend \<Rightarrow>
     void_result \<times> 'r io_uring_backend" where
  "submit_to_test_kernel operation tk b =
     (Inr (), b\<lparr>ur_test_kernel := Some (tk\<lparr>tk_submissions := tk_submissions tk @
                  [\<lparr>ts_operation_id = op_id operation, ts_used_registered_buffer = False,
                    ts_used_registered_file = False\<rparr>]\<rparr>),
                ur_kernel_operations := ko_emplace (op_id operation) (new_kernel_operation operation)
                  (ur_kernel_operations b)\<rparr>)"

text \<open>Publishing a reserved entry, with the bookkeeping that the caller does first.\<close>

definition publish_and_progress ::
  "'o uring_sys \<Rightarrow> pending_io_uring_submission \<Rightarrow> sqe_reservation \<Rightarrow> ring_memory \<Rightarrow>
     kernel_ring \<Rightarrow> ('r, 'o) ur_state \<Rightarrow> (void_result \<times> ('r, 'o) ur_state) option" where
  "publish_and_progress sys submission reservation m ring = (\<lambda>(b, k).
     do { (r, s1) \<leftarrow> progress_kernel_submissions sys
            (b\<lparr>ur_pending_kernel_submissions := ur_pending_kernel_submissions b @ [submission],
               ur_kernel_ring := Some (publish_sqe reservation (ring\<lparr>kr_memory := m\<rparr>))\<rparr>, k);
          Some (case r of Inl e \<Rightarrow> Inl e | Inr _ \<Rightarrow> Inr (), s1) })"

definition submit_to_ring ::
  "'o uring_sys \<Rightarrow> 'r backend_operation \<Rightarrow> kernel_ring \<Rightarrow> ('r, 'o) ur_state \<Rightarrow>
     (void_result \<times> ('r, 'o) ur_state) option" where
  "submit_to_ring sys operation ring = (\<lambda>(b, k).
     case native_handle_as_fd (native_handle (op_handle operation)) of
       Inl e \<Rightarrow> Some (Inl e, b, k)
     | Inr fd \<Rightarrow>
         (case encode_operation_user_data (op_id operation) of
            Inl e \<Rightarrow> Some (Inl e, b, k)
          | Inr user_data \<Rightarrow>
              (case prepare_sqe operation fd user_data of
                 Inl e \<Rightarrow> Some (Inl e, b, k)
               | Inr entry \<Rightarrow>
                   (case reserve_sqe (kr_memory ring) of
                      (Inl e, m) \<Rightarrow>
                        Some (Inl e, b\<lparr>ur_kernel_ring := Some (ring\<lparr>kr_memory := m\<rparr>)\<rparr>, k)
                    | (Inr reservation, m) \<Rightarrow>
                        publish_and_progress sys
                          \<lparr>ps_kind = Pending_operation, ps_operation_id = op_id operation\<rparr>
                          reservation (write_sqe reservation entry m) ring
                          (b\<lparr>ur_kernel_operations := ko_emplace (op_id operation)
                               (new_kernel_operation operation) (ur_kernel_operations b)\<rparr>, k)))))"

definition submit_to_kernel ::
  "'o uring_sys \<Rightarrow> 'r backend_operation \<Rightarrow> ('r, 'o) ur_state \<Rightarrow>
     (void_result \<times> ('r, 'o) ur_state) option" where
  "submit_to_kernel sys operation = (\<lambda>(b, k).
     case validate_kernel_operation operation of
       Inl e \<Rightarrow> Some (Inl e, b, k)
     | Inr _ \<Rightarrow>
         (case ur_test_kernel b of
            Some tk \<Rightarrow> (case submit_to_test_kernel operation tk b of (r, b1) \<Rightarrow> Some (r, b1, k))
          | None \<Rightarrow>
              (case ensure_kernel_ring sys (b, k) of
                 (Inl e, s1) \<Rightarrow> Some (Inl e, s1)
               | (Inr _, b1, k1) \<Rightarrow>
                   submit_to_ring sys operation (the (ur_kernel_ring b1)) (b1, k1))))"

text \<open>The loop of \<^verbatim>\<open>flush_submission_batch\<close>.\<close>

fun flush_loop ::
  "'o uring_sys \<Rightarrow> nat \<Rightarrow> size_t \<Rightarrow> ('r, 'o) ur_state \<Rightarrow>
     (size_t io_result \<times> ('r, 'o) ur_state) option" where
  "flush_loop sys 0 flushed s = Some (Inr flushed, s)"
| "flush_loop sys (Suc n) flushed (b, k) =
     (let queued = hd (ur_submission_queue b)
      in do { (r, b1, k1) \<leftarrow> if use_kernel_submission b then submit_to_kernel sys queued (b, k)
                else (case submit_to_fallback queued b of (r, b1) \<Rightarrow> Some (r, b1, k));
              case r of
                Inl e \<Rightarrow> Some (Inl e, b1, k1)
              | Inr _ \<Rightarrow> flush_loop sys n (flushed + 1)
                          (b1\<lparr>ur_submission_queue := tl (ur_submission_queue b1)\<rparr>, k1) })"

definition flush_submission_batch ::
  "'o uring_sys \<Rightarrow> ('r, 'o) ur_state \<Rightarrow> (size_t io_result \<times> ('r, 'o) ur_state) option" where
  "flush_submission_batch sys = (\<lambda>(b, k).
     flush_loop sys (min (submit_batch_limit (ur_options b)) (length (ur_submission_queue b))) 0 (b, k))"

section \<open>Cancellation\<close>

text \<open>Marking the cancellation of an operation as submitted.\<close>

definition mark_cancel_submitted :: "size_t \<Rightarrow> 'r io_uring_backend \<Rightarrow> 'r io_uring_backend" where
  "mark_cancel_submitted i b =
     b\<lparr>ur_kernel_operations := ko_modify i
         (\<lambda>ko. ko\<lparr>ko_cancel_request_submitted := True, ko_cancel_sqe_in_flight := True\<rparr>)
         (ur_kernel_operations b),
       ur_kernel_cancel_operation_ids := insert i (ur_kernel_cancel_operation_ids b)\<rparr>"

definition request_test_kernel_cancellation_for ::
  "size_t \<Rightarrow> io_uring_test_kernel \<Rightarrow> 'r io_uring_backend \<Rightarrow> void_result \<times> 'r io_uring_backend" where
  "request_test_kernel_cancellation_for i tk b =
     (if tk_cancel_submission_failures tk \<noteq> 0
      then (Inl (make_error_diagnostic resource_exhausted ''test io_uring cancel SQE is unavailable''),
            b\<lparr>ur_test_kernel := Some (tk\<lparr>tk_cancel_submission_failures :=
                 tk_cancel_submission_failures tk - 1\<rparr>)\<rparr>)
      else (Inr (), (mark_cancel_submitted i b)\<lparr>ur_test_kernel := Some
             (tk\<lparr>tk_submitted_cancel_operation_ids := tk_submitted_cancel_operation_ids tk @ [i]\<rparr>)\<rparr>))"

definition request_kernel_cancellation_for ::
  "'o uring_sys \<Rightarrow> size_t \<Rightarrow> ('r, 'o) ur_state \<Rightarrow> (void_result \<times> ('r, 'o) ur_state) option" where
  "request_kernel_cancellation_for sys i = (\<lambda>(b, k).
     case ur_test_kernel b of
       Some tk \<Rightarrow> (case request_test_kernel_cancellation_for i tk b of (r, b1) \<Rightarrow> Some (r, b1, k))
     | None \<Rightarrow>
         (case ur_kernel_ring b of
            None \<Rightarrow> Some (Inl (invalid_state_error
                                 ''io_uring kernel cancellation requires an active ring''), b, k)
          | Some ring \<Rightarrow>
              (case encode_operation_user_data i of
                 Inl e \<Rightarrow> Some (Inl e, b, k)
               | Inr target_user_data \<Rightarrow>
                   (case encode_cancel_user_data i of
                      Inl e \<Rightarrow> Some (Inl e, b, k)
                    | Inr user_data \<Rightarrow>
                        (case reserve_sqe (kr_memory ring) of
                           (Inl e, m) \<Rightarrow>
                             Some (Inl e, b\<lparr>ur_kernel_ring := Some (ring\<lparr>kr_memory := m\<rparr>)\<rparr>, k)
                         | (Inr reservation, m) \<Rightarrow>
                             publish_and_progress sys
                               \<lparr>ps_kind = Pending_cancel, ps_operation_id = i\<rparr> reservation
                               (write_sqe reservation
                                  (zero_sqe\<lparr>sqe_opcode := opcode_async_cancel, sqe_fd := - 1,
                                            sqe_addr := target_user_data, sqe_op_flags := 0,
                                            sqe_user_data := user_data\<rparr>) m) ring
                               (mark_cancel_submitted i b, k))))))"

definition cancel_pending :: "'r kernel_operation \<Rightarrow> bool" where
  "cancel_pending ko \<longleftrightarrow> ko_cancel_request_submitted ko \<or> ko_cancel_sqe_in_flight ko"

fun cancel_each ::
  "'o uring_sys \<Rightarrow> size_t list \<Rightarrow> ('r, 'o) ur_state \<Rightarrow> ('r, 'o) ur_state option" where
  "cancel_each sys [] s = Some s"
| "cancel_each sys (i # ids) s =
     (case map_of (ur_kernel_operations (fst s)) i of
        None \<Rightarrow> cancel_each sys ids s
      | Some ko \<Rightarrow>
          if cancel_pending ko then cancel_each sys ids s
          else do { (_, s1) \<leftarrow> request_kernel_cancellation_for sys i s; cancel_each sys ids s1 })"

definition concerns_token :: "backend_handle_token \<Rightarrow> 'r kernel_operation \<Rightarrow> bool" where
  "concerns_token token ko \<longleftrightarrow> \<not> (generation token \<noteq> 0 \<and> op_handle (ko_operation ko) \<noteq> token)"

definition request_kernel_cancellations_for ::
  "'o uring_sys \<Rightarrow> backend_handle_token \<Rightarrow> ('r, 'o) ur_state \<Rightarrow>
     (void_result \<times> ('r, 'o) ur_state) option" where
  "request_kernel_cancellations_for sys token = (\<lambda>(b, k).
     if ur_kernel_operations b = [] then Some (Inr (), b, k)
     else if \<not> supports_cancel (ur_capabilities b) then Some (Inl cancellation_required_error, b, k)
     else
       (let table = ur_kernel_operations b;
            wanted = (\<lambda>i. case map_of table i of
                            None \<Rightarrow> False
                          | Some ko \<Rightarrow> concerns_token token ko \<and> \<not> cancel_pending ko);
            ids = filter wanted (us_iteration sys (map fst table));
            table' = map (\<lambda>(i, ko). (i, if concerns_token token ko
                                        then ko\<lparr>ko_close_requested := True\<rparr> else ko)) table
        in do { s1 \<leftarrow> cancel_each sys ids (b\<lparr>ur_kernel_operations := table'\<rparr>, k);
                Some (Inr (), s1) }))"

definition retry_required :: "'r kernel_operation \<Rightarrow> bool" where
  "retry_required ko =
     io_uring_cancel_retry_required (ko_cancellation ko \<noteq> None) (ko_close_requested ko)
       (ko_cancel_request_submitted ko) (ko_cancel_sqe_in_flight ko)"

fun retry_each ::
  "'o uring_sys \<Rightarrow> size_t list \<Rightarrow> size_t \<Rightarrow> ('r, 'o) ur_state \<Rightarrow>
     (size_t \<times> ('r, 'o) ur_state) option" where
  "retry_each sys [] visible s = Some (visible, s)"
| "retry_each sys (i # ids) visible s =
     (case map_of (ur_kernel_operations (fst s)) i of
        None \<Rightarrow> retry_each sys ids visible s
      | Some ko \<Rightarrow>
          if \<not> retry_required ko then retry_each sys ids visible s
          else do { (retried, s1) \<leftarrow> request_kernel_cancellation_for sys i s;
                    case retried of
                      Inl _ \<Rightarrow> retry_each sys ids visible s1
                    | Inr _ \<Rightarrow>
                        do { (progressed, s2) \<leftarrow> progress_kernel_submissions sys s1;
                             case progressed of
                               Inl _ \<Rightarrow> retry_each sys ids visible s2
                             | Inr n \<Rightarrow> retry_each sys ids (visible + n) s2 } })"

definition retry_missing_kernel_cancellations ::
  "'o uring_sys \<Rightarrow> ('r, 'o) ur_state \<Rightarrow> (size_t io_result \<times> ('r, 'o) ur_state) option" where
  "retry_missing_kernel_cancellations sys s =
     (let table = ur_kernel_operations (fst s);
          ids = filter (\<lambda>i. case map_of table i of None \<Rightarrow> False | Some ko \<Rightarrow> retry_required ko)
                  (us_iteration sys (map fst table))
      in do { (visible, s1) \<leftarrow> retry_each sys ids 0 s; Some (Inr visible, s1) })"

section \<open>Observation\<close>

text \<open>A cancellation entry: the in-flight mark of the operation goes.\<close>

definition observe_cancel_entry :: "size_t \<Rightarrow> 'r io_uring_backend \<Rightarrow> 'r io_uring_backend" where
  "observe_cancel_entry i b =
     b\<lparr>ur_kernel_cancel_operation_ids := ur_kernel_cancel_operation_ids b - {i},
       ur_kernel_operations := ko_modify i (\<lambda>ko. ko\<lparr>ko_cancel_sqe_in_flight := False\<rparr>)
         (ur_kernel_operations b)\<rparr>"

definition result_class :: "'r kernel_operation \<Rightarrow> 'r io_uring_backend \<Rightarrow> int \<Rightarrow>
    io_uring_completion_result_class" where
  "result_class ko b res =
     io_uring_completion_result_for (op_target (ko_operation ko)) (ko_cancellation ko \<noteq> None)
       (ko_close_requested ko)
       (vb_is_current_handle (op_handle (ko_operation ko)) (ur_fallback b)) res"

text \<open>The completion that a queue entry of the ring produces, with its effect on descriptors.\<close>

definition ring_completion ::
  "'o uring_sys \<Rightarrow> size_t \<Rightarrow> 'r kernel_operation \<Rightarrow> int \<Rightarrow> ('r, 'o) ur_state \<Rightarrow>
     backend_completion \<times> 'o" where
  "ring_completion sys i ko res = (\<lambda>(b, k).
     let completion = make_completion i (Inr ()); kind = op_kind (ko_operation ko)
     in case result_class ko b res of
          Cancelled_result \<Rightarrow>
            (completion\<lparr>bc_result := cancelled_completion (the (ko_cancellation ko))\<rparr>, k)
        | Closed_result \<Rightarrow>
            (completion\<lparr>bc_result := closed_completion\<rparr>,
             if kind = op_accept \<and> res \<ge> 0 then us_close sys res k else k)
        | Kernel_result \<Rightarrow>
            if res < 0 then (completion\<lparr>bc_result := Inl (provider_failure (- res))\<rparr>, k)
            else
              (case kind of
                 op_read \<Rightarrow> (completion\<lparr>bc_bytes_transferred := word_of_int res\<rparr>, k)
               | op_write \<Rightarrow> (completion\<lparr>bc_bytes_transferred := word_of_int res\<rparr>, k)
               | op_accept \<Rightarrow>
                   if res = 0
                   then (case us_dupfd sys res 1 k of
                           (Inl e, k1) \<Rightarrow>
                             (completion\<lparr>bc_result := Inl (provider_failure e)\<rparr>, us_close sys res k1)
                         | (Inr duplicate, k1) \<Rightarrow>
                             (completion\<lparr>bc_accepted_native_handle := word_of_int duplicate\<rparr>,
                              us_close sys res k1))
                   else (completion\<lparr>bc_accepted_native_handle := word_of_int res\<rparr>, k)
               | op_connect \<Rightarrow> (completion, k)
               | op_fsync \<Rightarrow> (completion, k)
               | op_close \<Rightarrow> (completion\<lparr>bc_result := Inl (invalid_state_error
                                ''unexpected non-I/O io_uring completion'')\<rparr>, k)
               | op_wake \<Rightarrow> (completion\<lparr>bc_result := Inl (invalid_state_error
                               ''unexpected non-I/O io_uring completion'')\<rparr>, k)))"

text \<open>One entry of the loop of \<^verbatim>\<open>observe_kernel_completions\<close>.\<close>

definition observe_cqe ::
  "'o uring_sys \<Rightarrow> io_uring_cqe \<Rightarrow> size_t \<times> ('r, 'o) ur_state \<Rightarrow> size_t \<times> ('r, 'o) ur_state" where
  "observe_cqe sys cqe = (\<lambda>(visible, b, k).
     let decoded = decode_kernel_user_data (cqe_user_data cqe); i = dec_operation_id decoded
     in if dec_is_cancel decoded then (visible, observe_cancel_entry i b, k)
        else
          (case map_of (ur_kernel_operations b) i of
             None \<Rightarrow> (visible, b, k)
           | Some ko \<Rightarrow>
               (case ring_completion sys i ko (cqe_res cqe) (b, k) of
                  (completion, k1) \<Rightarrow>
                    (visible + 1,
                     b\<lparr>ur_kernel_operations := ko_erase i (ur_kernel_operations b),
                       ur_completion_queue := ur_completion_queue b @ [completion]\<rparr>, k1))))"

definition test_completion ::
  "size_t \<Rightarrow> 'r kernel_operation \<Rightarrow> int \<Rightarrow> 'r io_uring_backend \<Rightarrow> backend_completion" where
  "test_completion i ko res b =
     (let completion = make_completion i (Inr ())
      in case result_class ko b res of
           Cancelled_result \<Rightarrow> completion\<lparr>bc_result := cancelled_completion (the (ko_cancellation ko))\<rparr>
         | Closed_result \<Rightarrow> completion\<lparr>bc_result := closed_completion\<rparr>
         | Kernel_result \<Rightarrow>
             if res < 0 then completion\<lparr>bc_result := Inl (provider_failure (- res))\<rparr>
             else
               (case op_kind (ko_operation ko) of
                  op_read \<Rightarrow> completion\<lparr>bc_bytes_transferred := word_of_int res\<rparr>
                | op_write \<Rightarrow> completion\<lparr>bc_bytes_transferred := word_of_int res\<rparr>
                | op_accept \<Rightarrow> completion\<lparr>bc_accepted_native_handle := word_of_int res\<rparr>
                | op_connect \<Rightarrow> completion
                | op_fsync \<Rightarrow> completion
                | op_close \<Rightarrow> completion\<lparr>bc_result := Inl (invalid_state_error
                                ''unexpected non-I/O test io_uring completion'')\<rparr>
                | op_wake \<Rightarrow> completion\<lparr>bc_result := Inl (invalid_state_error
                               ''unexpected non-I/O test io_uring completion'')\<rparr>))"

definition observe_test_entry ::
  "io_uring_test_completion \<Rightarrow> size_t \<times> 'r io_uring_backend \<Rightarrow> size_t \<times> 'r io_uring_backend" where
  "observe_test_entry entry = (\<lambda>(visible, b).
     let i = tc_operation_id entry
     in if tc_kind entry = Test_cancel_ack then (visible, observe_cancel_entry i b)
        else
          (case map_of (ur_kernel_operations b) i of
             None \<Rightarrow> (visible, b)
           | Some ko \<Rightarrow>
               (visible + 1,
                b\<lparr>ur_kernel_operations := ko_erase i (ur_kernel_operations b),
                  ur_completion_queue := ur_completion_queue b @
                    [test_completion i ko (tc_result entry) b]\<rparr>)))"

definition observe_test_kernel_completions ::
  "'o uring_sys \<Rightarrow> ('r, 'o) ur_state \<Rightarrow> (size_t io_result \<times> ('r, 'o) ur_state) option" where
  "observe_test_kernel_completions sys s =
     do { (retried, b, k) \<leftarrow> retry_missing_kernel_cancellations sys s;
          case retried of
            Inl e \<Rightarrow> Some (Inl e, b, k)
          | Inr n \<Rightarrow>
              (let tk = the (ur_test_kernel b);
                   entries = tk_completions tk;
                   room = min (completion_batch_limit (ur_options b)) (length entries);
                   (visible, b1) = fold observe_test_entry (take room entries)
                     (n, b\<lparr>ur_test_kernel := Some (tk\<lparr>tk_completions := drop room entries\<rparr>)\<rparr>)
               in Some (Inr visible, b1, k)) }"

text \<open>The part of \<^verbatim>\<open>observe_kernel_completions\<close> that asks the kernel to post its overflow.\<close>

definition enter_if_needed ::
  "'o uring_sys \<Rightarrow> ('r, 'o) ur_state \<Rightarrow> (void_result \<times> ('r, 'o) ur_state) option" where
  "enter_if_needed sys = (\<lambda>(b, k).
     let ring = the (ur_kernel_ring b)
     in if io_uring_cq_needs_kernel_enter (sq_flags (kr_memory ring))
        then do { (entered, ring', k1) \<leftarrow> enter_for_cq_events sys (ring, k);
                  Some (entered, b\<lparr>ur_kernel_ring := Some ring'\<rparr>, k1) }
        else Some (Inr (), b, k))"

definition observe_ring_completions ::
  "'o uring_sys \<Rightarrow> ('r, 'o) ur_state \<Rightarrow> (size_t io_result \<times> ('r, 'o) ur_state) option" where
  "observe_ring_completions sys s =
     do { (progressed, s1) \<leftarrow> progress_kernel_submissions sys s;
          case progressed of
            Inl e \<Rightarrow> Some (Inl e, s1)
          | Inr n1 \<Rightarrow>
              do { (retried, s2) \<leftarrow> retry_missing_kernel_cancellations sys s1;
                   case retried of
                     Inl e \<Rightarrow> Some (Inl e, s2)
                   | Inr n2 \<Rightarrow>
                       do { (entered, b, k) \<leftarrow> enter_if_needed sys s2;
                            case entered of
                              Inl e \<Rightarrow> Some (Inl e, b, k)
                            | Inr _ \<Rightarrow>
                                (let ring = the (ur_kernel_ring b);
                                     (batch, m) = drain_cqes (completion_batch_limit (ur_options b))
                                       (kr_memory ring);
                                     (visible, s3) = fold (observe_cqe sys) batch
                                       (n1 + n2, b\<lparr>ur_kernel_ring := Some (ring\<lparr>kr_memory := m\<rparr>)\<rparr>, k)
                                 in Some (Inr visible, s3)) } } }"

definition observe_kernel_completions ::
  "'o uring_sys \<Rightarrow> ('r, 'o) ur_state \<Rightarrow> (size_t io_result \<times> ('r, 'o) ur_state) option" where
  "observe_kernel_completions sys s =
     (if ur_test_kernel (fst s) \<noteq> None then observe_test_kernel_completions sys s
      else if ur_kernel_ring (fst s) = None then Some (Inr 0, s)
      else observe_ring_completions sys s)"

definition empty_completion :: backend_completion where
  "empty_completion = make_completion 0 (Inr ())"

definition observe_fallback_completions ::
  "'r io_uring_backend \<Rightarrow> size_t io_result \<times> 'r io_uring_backend" where
  "observe_fallback_completions b =
     (case vb_poll (ur_fallback b) of
        Inl e \<Rightarrow> (Inl e, b)
      | Inr n \<Rightarrow>
          (let count = min (unat n) (completion_batch_limit (ur_options b))
           in if count = 0 then (Inr 0, b)
              else
                (case vb_drain_completions (replicate count empty_completion) (ur_fallback b) of
                   (Inl e, batch, f) \<Rightarrow> (Inl e, b\<lparr>ur_fallback := f\<rparr>)
                 | (Inr drained, batch, f) \<Rightarrow>
                     (Inr drained, b\<lparr>ur_fallback := f, ur_completion_queue :=
                        ur_completion_queue b @ take (unat drained) batch\<rparr>))))"

definition observe_completion_batch ::
  "'o uring_sys \<Rightarrow> ('r, 'o) ur_state \<Rightarrow> (size_t io_result \<times> ('r, 'o) ur_state) option" where
  "observe_completion_batch sys s =
     (if use_kernel_submission (fst s) then observe_kernel_completions sys s
      else (case observe_fallback_completions (fst s) of (r, b1) \<Rightarrow> Some (r, b1, snd s)))"

text \<open>The loop of \<^verbatim>\<open>drain_fallback_completions\<close>, with the batch that it reuses.\<close>

lemma vb_drain_decreases:
  assumes "vb_drain_completions out f = (Inr drained, out', f')" and "drained \<noteq> 0"
  shows "length (vb_completions f') < length (vb_completions f)"
proof -
  have "out \<noteq> []" using assms(1) by (auto simp: vb_drain_completions_def)
  from vb_drain_completions_eq [OF this refl, of f] assms show ?thesis
    by (cases "vb_completions f"; cases out) auto
qed

function drain_fallback_loop ::
  "backend_completion list \<Rightarrow> 'r io_uring_backend \<Rightarrow> void_result \<times> 'r io_uring_backend" where
  "drain_fallback_loop batch b =
     (case vb_drain_completions batch (ur_fallback b) of
        (Inl e, batch', f) \<Rightarrow> (Inl e, b\<lparr>ur_fallback := f\<rparr>)
      | (Inr drained, batch', f) \<Rightarrow>
          if drained = 0 then (Inr (), b\<lparr>ur_fallback := f\<rparr>)
          else drain_fallback_loop batch' (b\<lparr>ur_fallback := f, ur_completion_queue :=
                 ur_completion_queue b @ take (unat drained) batch'\<rparr>))"
  by pat_completeness auto
termination
  by (relation "measure (\<lambda>(batch, b). length (vb_completions (ur_fallback b)))")
    (auto intro: vb_drain_decreases [OF sym])

declare drain_fallback_loop.simps [simp del]

definition drain_fallback_completions ::
  "'r io_uring_backend \<Rightarrow> void_result \<times> 'r io_uring_backend" where
  "drain_fallback_completions b = drain_fallback_loop (replicate 32 empty_completion) b"

text \<open>The loops over the submission queue when a handle is closed; \<open>kept\<close> is what the iterator
  has passed.\<close>

fun flush_queued_loop ::
  "backend_handle_token \<Rightarrow> 'r backend_operation list \<Rightarrow> 'r backend_operation list \<Rightarrow>
     'r io_uring_backend \<Rightarrow> void_result \<times> 'r io_uring_backend" where
  "flush_queued_loop token kept [] b = (Inr (), b\<lparr>ur_submission_queue := kept\<rparr>)"
| "flush_queued_loop token kept (q # qs) b =
     (if op_handle q = token
      then (case submit_to_fallback q (b\<lparr>ur_submission_queue := kept @ qs\<rparr>) of
              (Inl e, b1) \<Rightarrow> (Inl e, b1)
            | (Inr _, b1) \<Rightarrow> flush_queued_loop token kept qs b1)
      else flush_queued_loop token (kept @ [q]) qs b)"

definition flush_queued_submissions_for ::
  "backend_handle_token \<Rightarrow> 'r io_uring_backend \<Rightarrow> void_result \<times> 'r io_uring_backend" where
  "flush_queued_submissions_for token b = flush_queued_loop token [] (ur_submission_queue b) b"

fun complete_queued_loop ::
  "backend_handle_token \<Rightarrow> void_result \<Rightarrow> 'r backend_operation list \<Rightarrow> 'r backend_operation list \<Rightarrow>
     'r io_uring_backend \<Rightarrow> 'r io_uring_backend" where
  "complete_queued_loop token res kept [] b = b\<lparr>ur_submission_queue := kept\<rparr>"
| "complete_queued_loop token res kept (q # qs) b =
     (if generation token = 0 \<or> op_handle q = token
      then complete_queued_loop token res kept qs
             (b\<lparr>ur_completion_queue := ur_completion_queue b @ [make_completion (op_id q) res]\<rparr>)
      else complete_queued_loop token res (kept @ [q]) qs b)"

definition complete_queued_submissions_for ::
  "backend_handle_token \<Rightarrow> void_result \<Rightarrow> 'r io_uring_backend \<Rightarrow> 'r io_uring_backend" where
  "complete_queued_submissions_for token res b =
     complete_queued_loop token res [] (ur_submission_queue b) b"

section \<open>The backend interface\<close>

definition ur_register_handle ::
  "size_t \<Rightarrow> 'r io_uring_backend \<Rightarrow> backend_handle_token io_result \<times> 'r io_uring_backend" where
  "ur_register_handle h b =
     (if ur_closed b then (Inl ur_closed_error, b)
      else if \<not> available (ur_capabilities b) then (Inl unavailable_error, b)
      else let (r, f) = vb_register_handle h (ur_fallback b) in (r, b\<lparr>ur_fallback := f\<rparr>))"

text \<open>The checks that \<^verbatim>\<open>submit\<close> makes for kernel submission only.\<close>

definition kernel_submit_check :: "'r backend_operation \<Rightarrow> 'r io_uring_backend \<Rightarrow> void_result" where
  "kernel_submit_check operation b =
     (if \<not> use_kernel_submission b then Inr ()
      else if \<not> supports_cancel (ur_capabilities b) then Inl cancellation_required_error
      else (case encode_operation_user_data (op_id operation) of
        Inl e \<Rightarrow> Inl e
      | Inr _ \<Rightarrow> validate_kernel_operation operation))"

definition ur_submit ::
  "'r backend_operation \<Rightarrow> 'r io_uring_backend \<Rightarrow> void_result \<times> 'r io_uring_backend" where
  "ur_submit operation b =
     (if ur_closed b then (Inl ur_closed_error, b)
      else if \<not> available (ur_capabilities b) then (Inl unavailable_error, b)
      else if \<not> is_valid_backend_operation_shape operation
      then (Inl (invalid_state_error ''io_uring submit received an invalid operation target''), b)
      else if \<not> supports_operation (ur_capabilities b) operation
      then (Inl opcode_unavailable_error, b)
      else if op_id operation = 0
      then (Inl (invalid_state_error ''operation id must be non-zero''), b)
      else if \<not> vb_is_current_handle (op_handle operation) (ur_fallback b)
      then (Inl (invalid_state_error ''operation handle token is not current''), b)
      else (case kernel_submit_check operation b of
        Inl e \<Rightarrow> (Inl e, b)
      | Inr _ \<Rightarrow>
          if op_id operation \<in> ur_active_operation_ids b
          then (Inl (invalid_state_error ''operation id is already active''), b)
          else if length (ur_submission_queue b) \<ge> submission_queue_capacity (ur_options b)
          then (Inl submission_queue_full_error, b)
          else (Inr (), b\<lparr>ur_active_operation_ids :=
                            insert (op_id operation) (ur_active_operation_ids b),
                          ur_submission_queue := ur_submission_queue b @ [operation]\<rparr>)))"

text \<open>Erasing the first queued operation with the identifier.\<close>

fun erase_first :: "size_t \<Rightarrow> 'r backend_operation list \<Rightarrow> 'r backend_operation list" where
  "erase_first i [] = []"
| "erase_first i (q # qs) = (if op_id q = i then qs else q # erase_first i qs)"

definition cancel_in_fallback ::
  "size_t \<Rightarrow> cancellation_reason \<Rightarrow> ('r, 'o) ur_state \<Rightarrow> void_result \<times> ('r, 'o) ur_state" where
  "cancel_in_fallback i reason = (\<lambda>(b, k).
     let (r, f) = vb_cancel i reason (ur_fallback b) in (r, b\<lparr>ur_fallback := f\<rparr>, k))"

definition ur_cancel ::
  "'o uring_sys \<Rightarrow> size_t \<Rightarrow> cancellation_reason \<Rightarrow> ('r, 'o) ur_state \<Rightarrow>
     (void_result \<times> ('r, 'o) ur_state) option" where
  "ur_cancel sys i reason = (\<lambda>(b, k).
     if ur_closed b then Some (Inl ur_closed_error, b, k)
     else if \<not> available (ur_capabilities b) then Some (Inl unavailable_error, b, k)
     else if \<not> supports_cancel (ur_capabilities b)
     then Some (Inl (make_error_diagnostic unsupported ''io_uring cancellation is unavailable''), b, k)
     else if i \<in> set (map op_id (ur_submission_queue b))
     then Some (Inr (), b\<lparr>ur_completion_queue :=
                            ur_completion_queue b @ [make_completion i (cancelled_completion reason)],
                          ur_submission_queue := erase_first i (ur_submission_queue b)\<rparr>, k)
     else
       (case (if use_kernel_submission b then map_of (ur_kernel_operations b) i else None) of
          Some ko \<Rightarrow>
            (let b1 = (if ko_cancellation ko = None
                       then b\<lparr>ur_kernel_operations := ko_modify i
                              (\<lambda>ko. ko\<lparr>ko_cancellation := Some reason\<rparr>) (ur_kernel_operations b)\<rparr>
                       else b)
             in if cancel_pending ko then Some (Inr (), b1, k)
                else do { (_, s1) \<leftarrow> request_kernel_cancellation_for sys i (b1, k);
                          Some (Inr (), s1) })
        | None \<Rightarrow> Some (cancel_in_fallback i reason (b, k))))"

definition close_in_fallback ::
  "backend_handle_token \<Rightarrow> ('r, 'o) ur_state \<Rightarrow> void_result \<times> ('r, 'o) ur_state" where
  "close_in_fallback token = (\<lambda>(b, k).
     let (r, f) = vb_close_handle token (ur_fallback b) in (r, b\<lparr>ur_fallback := f\<rparr>, k))"

definition ur_close_handle ::
  "'o uring_sys \<Rightarrow> backend_handle_token \<Rightarrow> ('r, 'o) ur_state \<Rightarrow>
     (void_result \<times> ('r, 'o) ur_state) option" where
  "ur_close_handle sys token = (\<lambda>(b, k).
     if ur_closed b then Some (Inl ur_closed_error, b, k)
     else if \<not> available (ur_capabilities b) then Some (Inl unavailable_error, b, k)
     else if \<not> vb_is_current_handle token (ur_fallback b)
     then Some (Inl (invalid_state_error ''backend handle token is not current''), b, k)
     else (case release_registered_files_for sys token (b, k) of
       (Inl e, s1) \<Rightarrow> Some (Inl e, s1)
     | (Inr _, b1, k1) \<Rightarrow>
         if use_kernel_submission b1
         then do { (r, b2, k2) \<leftarrow> request_kernel_cancellations_for sys token (b1, k1);
                   case r of
                     Inl e \<Rightarrow> Some (Inl e, b2, k2)
                   | Inr _ \<Rightarrow> Some (close_in_fallback token
                       (complete_queued_submissions_for token closed_completion b2, k2)) }
         else (case flush_queued_submissions_for token b1 of
                 (Inl e, b2) \<Rightarrow> Some (Inl e, b2, k1)
               | (Inr _, b2) \<Rightarrow> Some (close_in_fallback token (b2, k1)))))"

definition ur_poll ::
  "'o uring_sys \<Rightarrow> ('r, 'o) ur_state \<Rightarrow> (size_t io_result \<times> ('r, 'o) ur_state) option" where
  "ur_poll sys = (\<lambda>(b, k).
     if ur_closed b
     then (if use_kernel_submission b \<and> has_inflight_kernel_work b
           then observe_completion_batch sys (b, k)
           else Some (Inl ur_closed_error, b, k))
     else if \<not> available (ur_capabilities b) then Some (Inl unavailable_error, b, k)
     else
       do { (flushed, s1) \<leftarrow> flush_submission_batch sys (b, k);
            case flushed of
              Inl e \<Rightarrow> Some (Inl e, s1)
            | Inr _ \<Rightarrow>
                do { (observed, b2, k2) \<leftarrow> observe_completion_batch sys s1;
                     case observed of
                       Inl e \<Rightarrow> Some (Inl e, b2, k2)
                     | Inr _ \<Rightarrow> Some (Inr (of_nat (length (ur_completion_queue b2)) -
                                         of_nat (length (ur_completion_queue b))), b2, k2) } })"

fun ur_drain_loop ::
  "nat \<Rightarrow> nat \<Rightarrow> backend_completion list \<Rightarrow> 'r io_uring_backend \<Rightarrow>
     backend_completion list \<times> 'r io_uring_backend" where
  "ur_drain_loop 0 index out b = (out, b)"
| "ur_drain_loop (Suc n) index out b =
     (let c = hd (ur_completion_queue b)
      in ur_drain_loop n (Suc index) (out[index := c])
           (b\<lparr>ur_active_operation_ids := ur_active_operation_ids b - {bc_operation_id c},
              ur_completion_queue := tl (ur_completion_queue b)\<rparr>))"

definition ur_drain_completions ::
  "backend_completion list \<Rightarrow> 'r io_uring_backend \<Rightarrow>
     size_t io_result \<times> backend_completion list \<times> 'r io_uring_backend" where
  "ur_drain_completions out b =
     (if out = []
      then (Inl (make_error_diagnostic invalid_state ''completion drain output must not be empty''),
            out, b)
      else if \<not> ur_closed b \<and> \<not> available (ur_capabilities b) then (Inl unavailable_error, out, b)
      else
        (let count = min (length out) (length (ur_completion_queue b));
             (out', b') = ur_drain_loop count 0 out b
         in (Inr (of_nat count), out', b')))"

definition ur_wake :: "'r io_uring_backend \<Rightarrow> void_result \<times> 'r io_uring_backend" where
  "ur_wake b =
     (if ur_closed b then (Inl ur_closed_error, b)
      else if \<not> available (ur_capabilities b) then (Inl unavailable_error, b)
      else let (r, f) = vb_wake (ur_fallback b) in (r, b\<lparr>ur_fallback := f\<rparr>))"

fun close_queue_loop :: "'r backend_operation list \<Rightarrow> backend_completion list \<Rightarrow> backend_completion list"
  where
  "close_queue_loop [] completions = completions"
| "close_queue_loop (q # qs) completions =
     close_queue_loop qs (completions @ [make_completion (op_id q) closed_completion])"

text \<open>The end of \<^verbatim>\<open>shutdown\<close>, once the backend is closed.\<close>

definition finish_shutdown :: "'r io_uring_backend \<Rightarrow> void_result \<times> 'r io_uring_backend" where
  "finish_shutdown b =
     (case vb_shutdown (ur_fallback b) of
        (Inl e, f) \<Rightarrow> (Inl e, b\<lparr>ur_fallback := f\<rparr>)
      | (Inr _, f) \<Rightarrow>
          (case drain_fallback_completions (b\<lparr>ur_fallback := f\<rparr>) of
             (Inl e, b1) \<Rightarrow> (Inl e, b1)
           | (Inr _, b1) \<Rightarrow>
               (Inr (), b1\<lparr>ur_completion_queue :=
                             close_queue_loop (ur_submission_queue b1) (ur_completion_queue b1),
                           ur_submission_queue := []\<rparr>)))"

definition ur_shutdown ::
  "'o uring_sys \<Rightarrow> ('r, 'o) ur_state \<Rightarrow> (void_result \<times> ('r, 'o) ur_state) option" where
  "ur_shutdown sys = (\<lambda>(b, k).
     if ur_closed b then Some (Inr (), b, k)
     else (case release_registered_resources sys (b, k) of
       (Inl e, s1) \<Rightarrow> Some (Inl e, s1)
     | (Inr _, b1, k1) \<Rightarrow>
         do { (r, b2, k2) \<leftarrow> if use_kernel_submission b1
                then request_kernel_cancellations_for sys \<lparr>native_handle = 0, generation = 0\<rparr> (b1, k1)
                else Some (Inr (), b1, k1);
              case r of
                Inl e \<Rightarrow> Some (Inl e, b2, k2)
              | Inr _ \<Rightarrow> (case finish_shutdown (b2\<lparr>ur_closed := True\<rparr>) of
                           (r', b3) \<Rightarrow> Some (r', b3, k2)) }))"

end
