(* ===== verification/Io_Uring_Accounting.thy ===== *)
theory Io_Uring_Accounting
  imports Io_Uring_Operations
begin

text \<open>
  Inside a call of the io_uring backend, operations only move from the table of kernel operations
  to the completion queue; nothing is added, lost or duplicated. \<open>kernel_moves\<close> states this for
  one internal operation; it is reflexive and transitive, and every internal operation has it,
  whatever the kernel answers.
\<close>

definition kernel_ids :: "'r io_uring_backend \<Rightarrow> size_t list" where
  "kernel_ids b = map fst (ur_kernel_operations b)"

definition completion_ids :: "'r io_uring_backend \<Rightarrow> size_t list" where
  "completion_ids b = map bc_operation_id (ur_completion_queue b)"

definition same_interface :: "'r io_uring_backend \<Rightarrow> 'r io_uring_backend \<Rightarrow> bool" where
  "same_interface b b' \<longleftrightarrow>
     ur_submission_queue b' = ur_submission_queue b \<and> ur_fallback b' = ur_fallback b \<and>
     ur_active_operation_ids b' = ur_active_operation_ids b \<and> ur_closed b' = ur_closed b \<and>
     ur_options b' = ur_options b \<and> ur_capabilities b' = ur_capabilities b"

definition kernel_moves :: "'r io_uring_backend \<Rightarrow> 'r io_uring_backend \<Rightarrow> bool" where
  "kernel_moves b b' \<longleftrightarrow> same_interface b b' \<and> (ur_kernel_operations b = [] \<longrightarrow> ur_kernel_operations b' = []) \<and>
     (distinct (kernel_ids b) \<longrightarrow> distinct (kernel_ids b') \<and>
        mset (kernel_ids b') + mset (completion_ids b') = mset (kernel_ids b) + mset (completion_ids b))"

named_theorems moves \<open>internal operations of the io_uring backend\<close>

lemma kernel_moves_refl [simp, intro]: "kernel_moves b b"
  by (simp add: kernel_moves_def same_interface_def)

lemma kernel_moves_trans: "kernel_moves b b1 \<Longrightarrow> kernel_moves b1 b2 \<Longrightarrow> kernel_moves b b2"
  by (simp add: kernel_moves_def same_interface_def)

text \<open>Operations that touch neither the table nor the queues.\<close>

lemma kernel_moves_frame:
  assumes "same_interface b b'" and "kernel_ids b' = kernel_ids b"
    and "ur_completion_queue b' = ur_completion_queue b"
  shows "kernel_moves b b'"
  using assms by (auto simp: kernel_moves_def completion_ids_def kernel_ids_def)

section \<open>The table\<close>

lemma keys_emplace: "map fst (ko_emplace i v t) = (if i \<in> set (map fst t) then map fst t else map fst t @ [i])"
  by (simp add: ko_emplace_def)

lemma keys_modify [simp]: "map fst (ko_modify i f t) = map fst t"
  by (induction t) (auto simp: ko_modify_def)

lemma ko_modify_Nil [simp]: "ko_modify i f t = [] \<longleftrightarrow> t = []"
  by (simp add: ko_modify_def)

lemma keys_erase: "map fst (ko_erase i t) = filter (\<lambda>j. j \<noteq> i) (map fst t)"
  by (induction t) (auto simp: ko_erase_def)

lemma mset_erase:
  assumes "distinct (map fst t)" and "map_of t i = Some v"
  shows "add_mset i (mset (map fst (ko_erase i t))) = mset (map fst t)"
proof -
  have "i \<in> set (map fst t)" using assms(2) by (force dest: map_of_SomeD)
  moreover have "filter (\<lambda>j. j \<noteq> i) (map fst t) = remove1 i (map fst t)"
    using assms(1) by (simp add: distinct_remove1_removeAll removeAll_filter_not_eq eq_commute)
  ultimately show ?thesis unfolding keys_erase by simp
qed

lemma finish_moves:
  assumes "map_of (ur_kernel_operations b) i = Some ko" and "bc_operation_id c = i"
  shows "kernel_moves b (b\<lparr>ur_kernel_operations := ko_erase i (ur_kernel_operations b),
    ur_completion_queue := ur_completion_queue b @ [c]\<rparr>)"
proof -
  have "distinct (map fst (ko_erase i t))" if "distinct (map fst t)" for t :: "(size_t \<times> 'a kernel_operation) list"
    using that by (simp add: keys_erase)
  moreover have "ko_erase i ([] :: (size_t \<times> 'a kernel_operation) list) = []" by (simp add: ko_erase_def)
  ultimately show ?thesis
    using assms(2) mset_erase [OF _ assms(1)]
    by (simp add: kernel_moves_def same_interface_def kernel_ids_def completion_ids_def add_mset_commute)
qed

text \<open>The other fields do not matter.\<close>

lemma kernel_moves_irrelevant [simp]:
  "kernel_moves b (b1\<lparr>ur_kernel_ring := r\<rparr>) \<longleftrightarrow> kernel_moves b b1"
  "kernel_moves b (b1\<lparr>ur_pending_kernel_submissions := ps\<rparr>) \<longleftrightarrow> kernel_moves b b1"
  "kernel_moves b (b1\<lparr>ur_kernel_cancel_operation_ids := ids\<rparr>) \<longleftrightarrow> kernel_moves b b1"
  "kernel_moves b (b1\<lparr>ur_test_kernel := t\<rparr>) \<longleftrightarrow> kernel_moves b b1"
  "kernel_moves b (b1\<lparr>ur_registered_buffers := bs\<rparr>) \<longleftrightarrow> kernel_moves b b1"
  "kernel_moves b (b1\<lparr>ur_registered_files := fs\<rparr>) \<longleftrightarrow> kernel_moves b b1"
  "kernel_moves (b1\<lparr>ur_kernel_ring := r\<rparr>) b \<longleftrightarrow> kernel_moves b1 b"
  "kernel_moves (b1\<lparr>ur_pending_kernel_submissions := ps\<rparr>) b \<longleftrightarrow> kernel_moves b1 b"
  "kernel_moves (b1\<lparr>ur_kernel_cancel_operation_ids := ids\<rparr>) b \<longleftrightarrow> kernel_moves b1 b"
  "kernel_moves (b1\<lparr>ur_test_kernel := t\<rparr>) b \<longleftrightarrow> kernel_moves b1 b"
  "kernel_moves (b1\<lparr>ur_registered_buffers := bs\<rparr>) b \<longleftrightarrow> kernel_moves b1 b"
  "kernel_moves (b1\<lparr>ur_registered_files := fs\<rparr>) b \<longleftrightarrow> kernel_moves b1 b"
  by (simp_all add: kernel_moves_def same_interface_def kernel_ids_def completion_ids_def)

lemma kernel_moves_modify [simp]:
  "kernel_moves b (b1\<lparr>ur_kernel_operations := ko_modify i f (ur_kernel_operations b1)\<rparr>) \<longleftrightarrow>
     kernel_moves b b1"
  by (simp add: kernel_moves_def same_interface_def kernel_ids_def completion_ids_def)

section \<open>Progress\<close>

lemma complete_unsubmitted_moves:
  assumes "complete_unsubmitted err submission (n, b) = (n', b')"
  shows "kernel_moves b b'"
proof (cases "ps_kind submission = Pending_cancel")
  case True
  then show ?thesis using assms
    by (auto simp: complete_unsubmitted_def Let_def same_interface_def kernel_ids_def
        intro!: kernel_moves_frame)
next
  case False
  then show ?thesis
    using assms finish_moves [of b "ps_operation_id submission"]
    by (cases "map_of (ur_kernel_operations b) (ps_operation_id submission)")
      (auto simp: complete_unsubmitted_def Let_def)
qed

lemma fold_complete_unsubmitted_moves:
  "kernel_moves b (snd (fold (complete_unsubmitted err) submissions (n, b)))"
proof (induction submissions arbitrary: n b)
  case Nil
  then show ?case by simp
next
  case (Cons s ss)
  obtain n1 b1 where step: "complete_unsubmitted err s (n, b) = (n1, b1)" by fastforce
  from kernel_moves_trans [OF complete_unsubmitted_moves [OF step] Cons] step show ?case by simp
qed

lemma take_unsubmitted_loop_eq [simp]: "take_unsubmitted_loop acc ps = (acc @ ps, [])"
  by (induction ps arbitrary: acc) auto

lemma complete_unsubmitted_all_moves:
  "kernel_moves b (snd (complete_unsubmitted_kernel_submissions err b))"
proof -
  have "kernel_moves b (b\<lparr>ur_pending_kernel_submissions := []\<rparr>)"
    by (rule kernel_moves_frame) (simp_all add: same_interface_def kernel_ids_def)
  from kernel_moves_trans [OF this fold_complete_unsubmitted_moves] show ?thesis
    by (simp add: complete_unsubmitted_kernel_submissions_def take_unsubmitted_io_uring_submissions_def)
qed

lemma progress_loop_moves:
  assumes "progress_loop sys visible b k = Some (n, b', k')"
  shows "kernel_moves b b'"
  using assms
proof (induction sys visible b k rule: progress_loop.induct)
  case (1 sys visible b k)
  show ?case
  proof (cases "ur_kernel_ring b")
    case None
    then show ?thesis using "1.prems" by (subst (asm) progress_loop.simps) simp
  next
    case (Some ring)
    show ?thesis
    proof (cases "kr_pending_submissions ring = 0 \<or> submit_pending_once sys (ring, k) = None")
      case True
      then show ?thesis using "1.prems" Some
        by (subst (asm) progress_loop.simps) (auto split: if_splits)
    next
      case False
      then obtain r ring' k1 where sub: "submit_pending_once sys (ring, k) = Some (r, ring', k1)"
        by force
      show ?thesis
      proof (cases r)
        case (Inl e)
        obtain m b2 where fin: "complete_unsubmitted_kernel_submissions e
            (b\<lparr>ur_kernel_ring := Some (drop_pending_submissions ring')\<rparr>) = (m, b2)" by fastforce
        have "kernel_moves b b2"
          using complete_unsubmitted_all_moves [of "b\<lparr>ur_kernel_ring := Some (drop_pending_submissions ring')\<rparr>" e]
          by (simp add: fin)
        moreover have "b' = b2"
          using "1.prems" Some False sub Inl fin by (subst (asm) progress_loop.simps) simp
        ultimately show ?thesis by simp
      next
        case (Inr m)
        then show ?thesis
          using "1.prems" "1.IH" [OF Some _ sub refl Inr refl] Some False sub
          by (subst (asm) progress_loop.simps) (auto split: if_splits)
      qed
    qed
  qed
qed

lemma progress_moves [moves]:
  assumes "progress_kernel_submissions sys s = Some (r, s')"
  shows "kernel_moves (fst s) (fst s')"
  using assms
  by (auto simp: progress_kernel_submissions_def bind_eq_Some_conv intro: progress_loop_moves
      split: prod.splits option.splits)

lemma publish_and_progress_moves [moves]:
  assumes "publish_and_progress sys submission rv m ring s = Some (r, s')"
  shows "kernel_moves (fst s) (fst s')"
proof -
  obtain b k where s: "s = (b, k)" by fastforce
  obtain r1 where "progress_kernel_submissions sys (b\<lparr>ur_pending_kernel_submissions :=
        ur_pending_kernel_submissions b @ [submission],
      ur_kernel_ring := Some (publish_sqe rv (ring\<lparr>kr_memory := m\<rparr>))\<rparr>, k) = Some (r1, s')"
    using assms by (auto simp: publish_and_progress_def s bind_eq_Some_conv)
  from progress_moves [OF this] show ?thesis by (simp add: s)
qed

lemma progress_never_fails:
  assumes "progress_kernel_submissions sys s = Some (r, s')"
  shows "\<exists>n. r = Inr n"
  using assms
  by (auto simp: progress_kernel_submissions_def bind_eq_Some_conv split: prod.splits option.splits)

section \<open>Resources\<close>

lemma ensure_ring_moves [moves]:
  "ensure_kernel_ring sys s = (r, s') \<Longrightarrow> kernel_moves (fst s) (fst s')"
  by (auto simp: ensure_kernel_ring_def split: prod.splits option.splits sum.splits)

lemma provider_moves [moves]:
  "unregister_buffers_with_provider sys s = (r, s') \<Longrightarrow> kernel_moves (fst s) (fst s')"
  "unregister_files_with_provider sys s = (r, s') \<Longrightarrow> kernel_moves (fst s) (fst s')"
  by (auto simp: unregister_buffers_with_provider_def unregister_files_with_provider_def
      split: prod.splits option.splits sum.splits if_splits)

lemma register_provider_moves [moves]:
  assumes "register_buffers_with_provider sys buffers s = (r, s') \<or>
    register_files_with_provider sys files s = (r, s')"
  shows "kernel_moves (fst s) (fst s')"
proof (cases "\<not> use_kernel_submission (fst s) \<or> ur_test_kernel (fst s) \<noteq> None")
  case True
  then show ?thesis
    using assms by (auto simp: register_buffers_with_provider_def register_files_with_provider_def
        Let_def split: prod.splits if_splits)
next
  case False
  obtain r1 s1 where ring: "ensure_kernel_ring sys s = (r1, s1)" by (cases "ensure_kernel_ring sys s")
  from False assms ring have "fst s' = fst s1"
    by (auto simp: register_buffers_with_provider_def register_files_with_provider_def
        split: prod.splits sum.splits)
  then show ?thesis using ensure_ring_moves [OF ring] by simp
qed

lemma release_moves:
  "release_buffers sys s = (r, s') \<Longrightarrow> kernel_moves (fst s) (fst s')"
  "release_files sys s = (r, s') \<Longrightarrow> kernel_moves (fst s) (fst s')"
  "release_registered_files_for sys token s = (r, s') \<Longrightarrow> kernel_moves (fst s) (fst s')"
  unfolding release_buffers_def release_files_def release_registered_files_for_def
  by (auto dest!: provider_moves split: prod.splits sum.splits if_splits)

lemma release_all_moves [moves]:
  assumes "release_registered_resources sys s = (r, s')"
  shows "kernel_moves (fst s) (fst s')"
proof -
  obtain r1 s1 where rel: "release_buffers sys s = (r1, s1)" by (cases "release_buffers sys s")
  show ?thesis
    using assms rel release_moves(1) [OF rel] release_moves(2) [of sys s1] kernel_moves_trans
    by (cases r1) (auto simp: release_registered_resources_def)
qed

lemma registration_moves [moves]:
  "ur_register_buffers sys buffers s = (r, s') \<Longrightarrow> kernel_moves (fst s) (fst s')"
  "ur_register_files sys files s = (r, s') \<Longrightarrow> kernel_moves (fst s) (fst s')"
  "ur_unregister_buffers sys s = (r, s') \<Longrightarrow> kernel_moves (fst s) (fst s')"
  "ur_unregister_files sys s = (r, s') \<Longrightarrow> kernel_moves (fst s) (fst s')"
  unfolding ur_register_buffers_def ur_register_files_def ur_unregister_buffers_def
    ur_unregister_files_def
  by (auto dest!: provider_moves register_provider_moves [OF disjI1] register_provider_moves [OF disjI2]
      split: prod.splits sum.splits if_splits)

section \<open>Submission\<close>

definition emplaced :: "'r backend_operation \<Rightarrow> 'r io_uring_backend \<Rightarrow> 'r io_uring_backend" where
  "emplaced operation b = b\<lparr>ur_kernel_operations := ko_emplace (op_id operation)
     (new_kernel_operation operation) (ur_kernel_operations b)\<rparr>"

lemma emplaced_cong:
  assumes "kernel_moves b b1" and "ur_kernel_operations b1 = ur_kernel_operations b"
    and "ur_completion_queue b1 = ur_completion_queue b"
  shows "kernel_moves (emplaced operation b) (emplaced operation b1)"
  using assms
  by (intro kernel_moves_frame)
    (simp_all add: emplaced_def kernel_moves_def same_interface_def kernel_ids_def)

lemma ensure_ring_frame:
  assumes "ensure_kernel_ring sys (b, k) = (r, b1, k1)"
  shows "ur_kernel_operations b1 = ur_kernel_operations b \<and> ur_completion_queue b1 = ur_completion_queue b"
  using assms by (auto simp: ensure_kernel_ring_def split: prod.splits option.splits sum.splits)

lemma publish_never_fails:
  assumes "publish_and_progress sys submission rv m ring s = Some (r, s')"
  shows "r = Inr ()"
  using assms
  by (auto simp: publish_and_progress_def bind_eq_Some_conv dest!: progress_never_fails
      split: prod.splits)

lemma submit_to_ring_spec:
  assumes "submit_to_ring sys operation ring (b, k) = Some (r, b', k')"
  shows "case r of Inl _ \<Rightarrow> kernel_moves b b' | Inr _ \<Rightarrow> kernel_moves (emplaced operation b) b'"
  using assms
  by (auto simp: submit_to_ring_def emplaced_def [symmetric]
      dest: publish_never_fails publish_and_progress_moves split: prod.splits sum.splits)

lemma submit_to_kernel_spec:
  assumes "submit_to_kernel sys operation (b, k) = Some (r, b', k')"
  shows "case r of Inl _ \<Rightarrow> kernel_moves b b' | Inr _ \<Rightarrow> kernel_moves (emplaced operation b) b'"
proof (cases "isl (validate_kernel_operation operation)")
  case True
  then show ?thesis using assms by (auto simp: submit_to_kernel_def split: sum.splits)
next
  case valid: False
  show ?thesis
  proof (cases "ur_test_kernel b")
    case (Some tk)
    then show ?thesis
      using assms valid
      by (auto simp: submit_to_kernel_def submit_to_test_kernel_def emplaced_def kernel_moves_def
          same_interface_def kernel_ids_def completion_ids_def split: sum.splits)
  next
    case None
    obtain r1 b1 k1 where ring: "ensure_kernel_ring sys (b, k) = (r1, b1, k1)" by (metis prod_cases3)
    show ?thesis
    proof (cases r1)
      case (Inl e)
      then show ?thesis using assms valid None ring ensure_ring_moves [OF ring]
        by (auto simp: submit_to_kernel_def split: sum.splits)
    next
      case (Inr u)
      then have sub: "submit_to_ring sys operation (the (ur_kernel_ring b1)) (b1, k1) = Some (r, b', k')"
        using assms valid None ring by (auto simp: submit_to_kernel_def split: sum.splits)
      have "kernel_moves b b1" using ensure_ring_moves [OF ring] by simp
      with emplaced_cong [OF this] ensure_ring_frame [OF ring] submit_to_ring_spec [OF sub]
      show ?thesis by (auto intro: kernel_moves_trans split: sum.splits)
    qed
  qed
qed

section \<open>Cancellation\<close>

lemma mark_cancel_moves [simp]: "kernel_moves b (mark_cancel_submitted i b1) \<longleftrightarrow> kernel_moves b b1"
  by (simp add: mark_cancel_submitted_def)

lemma mark_cancel_moves_left [simp]: "kernel_moves (mark_cancel_submitted i b) b1 \<Longrightarrow> kernel_moves b b1"
  using mark_cancel_moves kernel_moves_refl kernel_moves_trans by metis

lemma request_cancellation_moves [moves]:
  assumes "request_kernel_cancellation_for sys i s = Some (r, s')"
  shows "kernel_moves (fst s) (fst s')"
proof -
  obtain b k where s: "s = (b, k)" by fastforce
  show ?thesis
  proof (cases "ur_test_kernel b")
    case (Some tk)
    then show ?thesis using assms
      by (auto simp: s request_kernel_cancellation_for_def request_test_kernel_cancellation_for_def
          split: if_splits)
  next
    case None
    then show ?thesis using assms
      by (auto simp: s request_kernel_cancellation_for_def dest!: publish_and_progress_moves
          split: option.splits sum.splits prod.splits)
  qed
qed

lemma cancel_each_moves [moves]:
  assumes "cancel_each sys ids s = Some s'"
  shows "kernel_moves (fst s) (fst s')"
  using assms
proof (induction ids arbitrary: s)
  case (Cons i ids)
  then show ?case
    by (auto simp: bind_eq_Some_conv dest!: request_cancellation_moves intro: kernel_moves_trans
        split: option.splits if_splits)
qed simp

lemma request_cancellations_moves [moves]:
  assumes "request_kernel_cancellations_for sys token s = Some (r, s')"
  shows "kernel_moves (fst s) (fst s')"
proof -
  obtain b k where s: "s = (b, k)" by fastforce
  define table where "table = map (\<lambda>(i, ko). (i, if concerns_token token ko
      then ko\<lparr>ko_close_requested := True\<rparr> else ko)) (ur_kernel_operations b)"
  have "kernel_moves b (b\<lparr>ur_kernel_operations := table\<rparr>)"
    by (rule kernel_moves_frame) (auto simp: same_interface_def kernel_ids_def table_def)
  then show ?thesis
    using assms
    by (auto simp: s request_kernel_cancellations_for_def table_def [symmetric] Let_def
        bind_eq_Some_conv dest!: cancel_each_moves intro: kernel_moves_trans split: if_splits)
qed

lemma retry_each_moves:
  assumes "retry_each sys ids visible s = Some (n, s')"
  shows "kernel_moves (fst s) (fst s')"
  using assms
proof (induction ids arbitrary: visible s)
  case (Cons i ids)
  show ?case
  proof (cases "\<exists>ko. map_of (ur_kernel_operations (fst s)) i = Some ko \<and> retry_required ko")
    case False
    then show ?thesis using Cons by (auto split: option.splits if_splits)
  next
    case True
    then obtain r1 s1 where req: "request_kernel_cancellation_for sys i s = Some (r1, s1)"
      using Cons.prems by (auto simp: bind_eq_Some_conv)
    show ?thesis
    proof (cases r1)
      case (Inl e)
      then show ?thesis
        using Cons.prems Cons.IH [of visible s1] True req request_cancellation_moves [OF req]
          kernel_moves_trans by auto
    next
      case (Inr u)
      then obtain r2 s2 where pr: "progress_kernel_submissions sys s1 = Some (r2, s2)"
        using Cons.prems True req by (auto simp: bind_eq_Some_conv)
      have "kernel_moves (fst s2) (fst s')"
        using Cons.prems Cons.IH [of _ s2] True req Inr pr by (auto split: sum.splits)
      then show ?thesis
        using request_cancellation_moves [OF req] progress_moves [OF pr] kernel_moves_trans by blast
    qed
  qed
qed simp

lemma retry_missing_moves [moves]:
  assumes "retry_missing_kernel_cancellations sys s = Some (r, s')"
  shows "kernel_moves (fst s) (fst s') \<and> (\<exists>n. r = Inr n)"
  using assms
  by (auto simp: retry_missing_kernel_cancellations_def Let_def bind_eq_Some_conv
      dest!: retry_each_moves)

section \<open>Observation\<close>

lemma ring_completion_id: "bc_operation_id (fst (ring_completion sys i ko res s)) = i"
  by (auto simp: ring_completion_def Let_def split: prod.split io_uring_completion_result_class.split
      backend_operation_kind.split sum.split)

lemma test_completion_id: "bc_operation_id (test_completion i ko res b) = i"
  by (auto simp: test_completion_def Let_def split: io_uring_completion_result_class.split
      backend_operation_kind.split)

lemma observe_cancel_moves [simp]: "kernel_moves b (observe_cancel_entry i b)"
  by (rule kernel_moves_frame) (simp_all add: observe_cancel_entry_def same_interface_def kernel_ids_def)

lemma observe_cqe_moves:
  assumes "observe_cqe sys cqe (n, b, k) = (n', b', k')"
  shows "kernel_moves b b'"
proof -
  define i where "i = dec_operation_id (decode_kernel_user_data (cqe_user_data cqe))"
  show ?thesis
  proof (cases "map_of (ur_kernel_operations b) i")
    case None
    then show ?thesis using assms
      by (auto simp: observe_cqe_def i_def [symmetric] Let_def split: if_splits)
  next
    case (Some ko)
    obtain c k1 where c: "ring_completion sys i ko (cqe_res cqe) (b, k) = (c, k1)" by fastforce
    then have "bc_operation_id c = i" using ring_completion_id by (metis fst_conv)
    from finish_moves [OF Some this] Some c show ?thesis using assms
      by (auto simp: observe_cqe_def i_def [symmetric] Let_def split: if_splits)
  qed
qed

lemma fold_observe_cqe_moves:
  "kernel_moves b (fst (snd (fold (observe_cqe sys) batch (n, b, k))))"
proof (induction batch arbitrary: n b k)
  case (Cons c cs)
  obtain n1 b1 k1 where step: "observe_cqe sys c (n, b, k) = (n1, b1, k1)" by (metis prod_cases3)
  from kernel_moves_trans [OF observe_cqe_moves [OF step] Cons] step show ?case by simp
qed simp

lemma observe_test_entry_moves:
  assumes "observe_test_entry entry (n, b) = (n', b')"
  shows "kernel_moves b b'"
  using assms finish_moves [OF _ test_completion_id]
  by (auto simp: observe_test_entry_def Let_def split: if_splits option.splits)

lemma fold_observe_test_moves:
  "kernel_moves b (snd (fold observe_test_entry entries (n, b)))"
proof (induction entries arbitrary: n b)
  case (Cons c cs)
  obtain n1 b1 where step: "observe_test_entry c (n, b) = (n1, b1)" by fastforce
  from kernel_moves_trans [OF observe_test_entry_moves [OF step] Cons] step show ?case by simp
qed simp

lemma observe_test_moves:
  assumes "observe_test_kernel_completions sys s = Some (r, s')"
  shows "kernel_moves (fst s) (fst s')"
proof -
  obtain r1 b k where "retry_missing_kernel_cancellations sys s = Some (r1, b, k)"
    using assms by (auto simp: observe_test_kernel_completions_def bind_eq_Some_conv)
  then obtain n where retry: "retry_missing_kernel_cancellations sys s = Some (Inr n, b, k)"
    using retry_missing_moves by blast
  define tk where "tk = the (ur_test_kernel b)"
  define room where "room = min (completion_batch_limit (ur_options b)) (length (tk_completions tk))"
  obtain visible b1 where obs: "fold observe_test_entry (take room (tk_completions tk))
      (n, b\<lparr>ur_test_kernel := Some (tk\<lparr>tk_completions := drop room (tk_completions tk)\<rparr>)\<rparr>) = (visible, b1)"
    by fastforce
  have "s' = (b1, k)"
    using assms retry obs
    by (simp add: observe_test_kernel_completions_def Let_def tk_def [symmetric] room_def [symmetric])
  moreover have "kernel_moves b b1"
    using fold_observe_test_moves [of "b\<lparr>ur_test_kernel := Some (tk\<lparr>tk_completions :=
      drop room (tk_completions tk)\<rparr>)\<rparr>" "take room (tk_completions tk)" n] obs by simp
  moreover have "kernel_moves (fst s) b" using retry_missing_moves [OF retry] by simp
  ultimately show ?thesis using kernel_moves_trans by simp
qed

lemma enter_moves:
  assumes "enter_if_needed sys s = Some (r, s')"
  shows "kernel_moves (fst s) (fst s')"
  using assms
  by (auto simp: enter_if_needed_def Let_def bind_eq_Some_conv split: prod.splits if_splits)

lemma observe_ring_moves:
  assumes "observe_ring_completions sys s = Some (r, s')"
  shows "kernel_moves (fst s) (fst s')"
proof -
  obtain r1 s1 where "progress_kernel_submissions sys s = Some (r1, s1)"
    using assms by (auto simp: observe_ring_completions_def bind_eq_Some_conv)
  then obtain n1 where pr: "progress_kernel_submissions sys s = Some (Inr n1, s1)"
    using progress_never_fails by blast
  obtain r2 s2 where "retry_missing_kernel_cancellations sys s1 = Some (r2, s2)"
    using assms pr by (auto simp: observe_ring_completions_def bind_eq_Some_conv)
  then obtain n2 where re: "retry_missing_kernel_cancellations sys s1 = Some (Inr n2, s2)"
    using retry_missing_moves by blast
  obtain r3 b k where en: "enter_if_needed sys s2 = Some (r3, b, k)"
    using assms pr re by (auto simp: observe_ring_completions_def bind_eq_Some_conv)
  have before: "kernel_moves (fst s) b"
    using progress_moves [OF pr] retry_missing_moves [OF re] enter_moves [OF en]
    by (metis kernel_moves_trans fst_conv)
  show ?thesis
  proof (cases r3)
    case (Inl e)
    then show ?thesis using assms pr re en before by (auto simp: observe_ring_completions_def)
  next
    case (Inr u)
    define ring where "ring = the (ur_kernel_ring b)"
    obtain batch m where dr: "drain_cqes (completion_batch_limit (ur_options b)) (kr_memory ring) = (batch, m)"
      by fastforce
    let ?b = "b\<lparr>ur_kernel_ring := Some (ring\<lparr>kr_memory := m\<rparr>)\<rparr>"
    have "s' = snd (fold (observe_cqe sys) batch (n1 + n2, ?b, k))"
      using assms pr re en Inr dr
      by (auto simp: observe_ring_completions_def Let_def ring_def [symmetric] split: prod.splits)
    then have "kernel_moves ?b (fst s')" using fold_observe_cqe_moves by metis
    then show ?thesis using before kernel_moves_trans by auto
  qed
qed

lemma observe_kernel_moves [moves]:
  assumes "observe_kernel_completions sys s = Some (r, s')"
  shows "kernel_moves (fst s) (fst s')"
  using assms
  by (auto simp: observe_kernel_completions_def dest: observe_test_moves observe_ring_moves
      split: if_splits)

end
