(* ===== verification/Io_Uring_Ring_Correct.thy ===== *)
theory Io_Uring_Ring_Correct
  imports Io_Uring_Ring
begin

text \<open>
  The queues of the ring are first-in first-out queues although their indices wrap, creating a
  ring does not leak what it acquired, and \<^verbatim>\<open>user_data\<close> encodes identifiers faithfully.
\<close>

section \<open>Ring indices\<close>

text \<open>
  What the kernel guarantees of a ring: the number of entries is a power of two, the mask is
  one less, and the arrays have that many entries.
\<close>

definition sq_ok :: "nat \<Rightarrow> ring_memory \<Rightarrow> bool" where
  "sq_ok n m \<longleftrightarrow> n < 32 \<and> sq_ring_entries m = 2 ^ n \<and> sq_ring_mask m = mask n \<and>
     length (sqes m) = 2 ^ n \<and> length (sq_array m) = 2 ^ n \<and> unat (sq_tail m - sq_head m) \<le> 2 ^ n"

definition cq_ok :: "nat \<Rightarrow> ring_memory \<Rightarrow> bool" where
  "cq_ok n m \<longleftrightarrow> n < 32 \<and> cq_ring_mask m = mask n \<and> length (cqes m) = 2 ^ n \<and>
     unat (cq_tail m - cq_head m) \<le> 2 ^ n"

definition slot :: "uint32 \<Rightarrow> uint32 \<Rightarrow> nat \<Rightarrow> nat" where
  "slot head ring_mask i = unat ((head + of_nat i) AND ring_mask)"

text \<open>The entries between head and tail: the contents of the queue.\<close>

definition sq_contents :: "ring_memory \<Rightarrow> io_uring_sqe list" where
  "sq_contents m = map (\<lambda>i. sqes m ! slot (sq_head m) (sq_ring_mask m) i)
     [0..<unat (sq_tail m - sq_head m)]"

definition cq_contents :: "ring_memory \<Rightarrow> io_uring_cqe list" where
  "cq_contents m = map (\<lambda>i. cqes m ! slot (cq_head m) (cq_ring_mask m) i)
     [0..<unat (cq_tail m - cq_head m)]"

lemma slot_mod:
  assumes "n < 32"
  shows "slot head (mask n) i = (unat head + i) mod 2 ^ n"
proof -
  have dvd: "(2 :: nat) ^ n dvd 2 ^ 32" using assms by (intro le_imp_power_dvd) simp
  have "slot head (mask n) i = take_bit n (unat (head + of_nat i))"
    by (simp add: slot_def take_bit_eq_mask [symmetric] unsigned_take_bit_eq)
  also have "\<dots> = (unat head + i) mod 2 ^ 32 mod 2 ^ n"
    by (simp add: take_bit_eq_mod unat_word_ariths unsigned_of_nat mod_simps)
  also have "\<dots> = (unat head + i) mod 2 ^ n" using dvd by (rule mod_mod_cancel)
  finally show ?thesis .
qed

lemma slot_less: "n < 32 \<Longrightarrow> slot head (mask n) i < 2 ^ n"
  by (simp add: slot_mod)

lemma add_mod_inj:
  fixes a i j N :: nat
  assumes eq: "(a + i) mod N = (a + j) mod N" and "i < N" and "j < N"
  shows "i = j"
proof -
  have "(int a + int i) mod int N = (int a + int j) mod int N"
    using eq by (metis of_nat_add of_nat_mod)
  then have "int N dvd int i - int j" by (simp add: mod_eq_dvd_iff)
  then have "int i mod int N = int j mod int N" by (simp add: mod_eq_dvd_iff)
  then show ?thesis using assms(2,3) by simp
qed

lemma slot_inj:
  assumes "n < 32" and eq: "slot head (mask n) i = slot head (mask n) j" and "i < 2 ^ n" and "j < 2 ^ n"
  shows "i = j"
  using eq assms(3,4) unfolding slot_mod [OF assms(1)] by (rule add_mod_inj)

text \<open>The slot at the tail is the next one, also when the 32-bit indices wrap.\<close>

lemma tail_slot: "unat (tail AND ring_mask) = slot head ring_mask (unat (tail - head))"
  by (simp add: slot_def)

lemma unat_succ_tail:
  assumes "n < 32" and "unat (tail - head :: uint32) < 2 ^ n"
  shows "unat (tail + 1 - head) = Suc (unat (tail - head))"
proof -
  have "(2 :: nat) ^ n \<le> 2 ^ 31" using assms(1) by (intro power_increasing) auto
  then have "unat (tail - head) \<noteq> unat (- 1 :: uint32)"
    using assms(2) by (simp add: unsigned_minus_1_eq_mask mask_eq_exp_minus_1)
  then have "1 + (tail - head) \<noteq> 0" by (metis add.commute add_eq_0_iff)
  from unatSuc [OF this] show ?thesis by (simp add: algebra_simps)
qed

lemma unat_power2: "n < 32 \<Longrightarrow> unat (2 ^ n :: uint32) = 2 ^ n"
proof -
  assume "n < 32"
  then have "(2 :: nat) ^ n < 2 ^ 32" by (intro power_strict_increasing) auto
  then have "take_bit 32 ((2 :: nat) ^ n) = 2 ^ n" by (rule take_bit_nat_eq_self)
  then have "unat (of_nat (2 ^ n) :: uint32) = 2 ^ n" unfolding unsigned_of_nat by simp
  then show ?thesis by simp
qed

lemma sq_contents_length [simp]: "length (sq_contents m) = unat (sq_tail m - sq_head m)"
  by (simp add: sq_contents_def)

text \<open>Reserving and writing an entry changes the slot at the tail only.\<close>

lemma reserve_write:
  assumes "sq_ok n m" and "reserve_sqe m = (r, m1)"
  shows "case r of
      Inl e \<Rightarrow> unat (sq_tail m - sq_head m) = 2 ^ n \<and> m1 = m \<and> classification e = resource_exhausted
    | Inr rv \<Rightarrow> unat (sq_tail m - sq_head m) < 2 ^ n \<and> rv_next_tail rv = sq_tail m + 1 \<and>
        write_sqe rv entry m1 = m\<lparr>sqes := (sqes m)[unat (rv_index rv) := entry],
          sq_array := (sq_array m)[unat (rv_index rv) := rv_index rv]\<rparr> \<and>
        unat (rv_index rv) = slot (sq_head m) (mask n) (unat (sq_tail m - sq_head m))"
proof (cases "sq_tail m - sq_head m \<ge> sq_ring_entries m")
  case True
  then show ?thesis
    using assms by (auto simp: reserve_sqe_def sq_ok_def word_le_nat_alt unat_power2)
next
  case False
  then have "unat (sq_tail m - sq_head m) < 2 ^ n"
    using assms(1) by (simp add: sq_ok_def word_le_nat_alt unat_power2)
  then show ?thesis
    using assms False
    by (auto simp: reserve_sqe_def sq_ok_def Let_def write_sqe_def slot_def)
qed

lemma sq_append:
  assumes "sq_ok n m" and "unat (sq_tail m - sq_head m) < 2 ^ n"
    and "i = slot (sq_head m) (mask n) (unat (sq_tail m - sq_head m))"
  shows "sq_contents (m\<lparr>sqes := (sqes m)[i := entry], sq_array := a, sq_tail := sq_tail m + 1\<rparr>) =
    sq_contents m @ [entry]"
proof -
  have n: "n < 32" "sq_ring_mask m = mask n" "length (sqes m) = 2 ^ n"
    using assms(1) by (simp_all add: sq_ok_def)
  have "(sqes m)[i := entry] ! slot (sq_head m) (mask n) j = sqes m ! slot (sq_head m) (mask n) j"
    if "j < unat (sq_tail m - sq_head m)" for j
  proof -
    have "slot (sq_head m) (mask n) j \<noteq> i"
      using slot_inj [OF n(1), of "sq_head m" j "unat (sq_tail m - sq_head m)"] that assms(2,3) by auto
    then show ?thesis by simp
  qed
  moreover have "i < length (sqes m)" using assms(3) n slot_less by simp
  ultimately show ?thesis
    using assms(2,3) n by (simp add: sq_contents_def unat_succ_tail [OF n(1) assms(2)])
qed

lemma unat_minus_le: "p \<le> x \<Longrightarrow> unat (x - p) = unat x - unat p" for x p :: uint32
  by (simp add: unat_sub)

lemma sq_drop:
  assumes "unat p \<le> unat (sq_tail m - sq_head m)"
  shows "sq_contents (m\<lparr>sq_tail := sq_tail m - p\<rparr>) =
    take (unat (sq_tail m - sq_head m) - unat p) (sq_contents m)"
proof -
  have "unat (sq_tail m - p - sq_head m) = unat (sq_tail m - sq_head m) - unat p"
    using assms unat_sub [of p "sq_tail m - sq_head m"]
    by (simp add: word_le_nat_alt algebra_simps)
  then show ?thesis by (simp add: sq_contents_def take_map)
qed

section \<open>Theorems\<close>

text \<open>A ring of two entries whose submission and completion indices have just wrapped.\<close>

definition wrapped_memory :: ring_memory where
  "wrapped_memory = \<lparr>sq_head = - 1, sq_tail = 0, sq_flags = 0, sq_ring_mask = 1, sq_ring_entries = 2,
     sq_array = [0, 1], sqes = [zero_sqe, zero_sqe\<lparr>sqe_user_data := 7\<rparr>], cq_head = - 1, cq_tail = 1,
     cq_ring_mask = 1,
     cqes = [\<lparr>cqe_user_data = 6, cqe_res = 2\<rparr>, \<lparr>cqe_user_data = 5, cqe_res = 1\<rparr>]\<rparr>"

definition wrapped_ring :: kernel_ring where
  "wrapped_ring = \<lparr>kr_fd = 3, kr_params = \<lparr>par_sq_entries = 2, par_cq_entries = 2, par_sq_off_array = 0,
       par_cq_off_cqes = 0, par_single_mmap = True\<rparr>, kr_sq_mapping = None, kr_cq_mapping = None,
     kr_sqes_mapping = None, kr_sq_mapping_size = 0, kr_cq_mapping_size = 0, kr_sqes_mapping_size = 0,
     kr_memory = wrapped_memory, kr_pending_submissions = 0\<rparr>"

text \<open>
  C11. The submission ring is a first-in first-out queue of at most its number of entries, also
  when its 32-bit head and tail wrap: reserving a slot fails exactly when the queue is full and
  then changes nothing; otherwise writing and publishing the reserved entry appends it and leaves
  every entry that the kernel has not consumed untouched, and dropping the pending submissions
  takes exactly the last ones back.
\<close>

theorem sq_ring_fifo:
  assumes "sq_ok n (kr_memory ring)"
  shows "(case reserve_sqe (kr_memory ring) of
      (Inl e, m1) \<Rightarrow> length (sq_contents (kr_memory ring)) = 2 ^ n \<and> m1 = kr_memory ring \<and>
        classification e = resource_exhausted
    | (Inr r, m1) \<Rightarrow> length (sq_contents (kr_memory ring)) < 2 ^ n \<and>
        (let m2 = kr_memory (publish_sqe r (ring\<lparr>kr_memory := write_sqe r entry m1\<rparr>))
         in sq_ok n m2 \<and> sq_contents m2 = sq_contents (kr_memory ring) @ [entry] \<and>
            sq_array m2 ! unat (rv_index r) = rv_index r)) \<and>
    (unat (kr_pending_submissions ring) \<le> length (sq_contents (kr_memory ring)) \<longrightarrow>
      sq_contents (kr_memory (drop_pending_submissions ring)) =
        take (length (sq_contents (kr_memory ring)) - unat (kr_pending_submissions ring))
          (sq_contents (kr_memory ring)))"
proof -
  let ?m = "kr_memory ring"
  obtain r m1 where res: "reserve_sqe ?m = (r, m1)" by fastforce
  note spec = reserve_write [OF assms res, of entry]
  have drop: "unat (kr_pending_submissions ring) \<le> length (sq_contents ?m) \<longrightarrow>
      sq_contents (kr_memory (drop_pending_submissions ring)) =
        take (length (sq_contents ?m) - unat (kr_pending_submissions ring)) (sq_contents ?m)"
    using sq_drop [of "kr_pending_submissions ring" ?m]
    by (auto simp: drop_pending_submissions_def)
  show ?thesis
  proof (cases r)
    case (Inl e)
    then show ?thesis using spec res drop by simp
  next
    case (Inr rv)
    define m2 where "m2 = kr_memory (publish_sqe rv (ring\<lparr>kr_memory := write_sqe rv entry m1\<rparr>))"
    have room: "unat (sq_tail ?m - sq_head ?m) < 2 ^ n"
      and idx: "unat (rv_index rv) = slot (sq_head ?m) (mask n) (unat (sq_tail ?m - sq_head ?m))"
      and m2: "m2 = ?m\<lparr>sqes := (sqes ?m)[unat (rv_index rv) := entry],
          sq_array := (sq_array ?m)[unat (rv_index rv) := rv_index rv], sq_tail := sq_tail ?m + 1\<rparr>"
      using spec Inr by (auto simp: m2_def publish_sqe_def)
    have "n < 32" "length (sq_array ?m) = 2 ^ n" using assms by (simp_all add: sq_ok_def)
    moreover have "sq_ok n m2"
      using assms room unat_succ_tail [OF \<open>n < 32\<close> room] by (simp add: sq_ok_def m2)
    ultimately show ?thesis
      using drop res Inr room idx sq_append [OF assms room idx] slot_less
      by (simp add: m2_def [symmetric]) (simp add: m2)
  qed
qed

theorem sq_ring_fifo_witness:
  "length (sq_contents (kr_memory wrapped_ring)) < 2 ^ 1 \<and>
   sq_contents (kr_memory (publish_sqe \<lparr>rv_index = 0, rv_next_tail = 1\<rparr>
      (wrapped_ring\<lparr>kr_memory := write_sqe \<lparr>rv_index = 0, rv_next_tail = 1\<rparr> (zero_sqe\<lparr>sqe_user_data := 8\<rparr>)
         (snd (reserve_sqe (kr_memory wrapped_ring)))\<rparr>))) =
   [zero_sqe\<lparr>sqe_user_data := 7\<rparr>, zero_sqe\<lparr>sqe_user_data := 8\<rparr>]"
proof -
  have ok: "sq_ok 1 (kr_memory wrapped_ring)"
    by (simp add: sq_ok_def wrapped_ring_def wrapped_memory_def mask_eq_exp_minus_1)
  have "fst (reserve_sqe (kr_memory wrapped_ring)) = Inr \<lparr>rv_index = 0, rv_next_tail = 1\<rparr>"
    "sq_contents (kr_memory wrapped_ring) = [zero_sqe\<lparr>sqe_user_data := 7\<rparr>]"
    by (simp_all add: reserve_sqe_def wrapped_ring_def wrapped_memory_def sq_contents_def slot_def
        word_le_nat_alt)
  then show ?thesis
    using sq_ring_fifo [OF ok, of "zero_sqe\<lparr>sqe_user_data := 8\<rparr>"]
    by (auto simp: Let_def split: prod.splits)
qed

text \<open>
  C12. The completion ring is drained first-in first-out: as many completions as there is room
  for are taken from the front, in the order in which the kernel posted them and each once, also
  when the indices wrap.
\<close>

theorem cq_ring_fifo:
  assumes "cq_ok n m" and "drain_cqes room m = (batch, m')"
  shows "batch = take room (cq_contents m) \<and> cq_contents m' = drop room (cq_contents m) \<and> cq_ok n m'"
proof -
  define d where "d = unat (cq_tail m - cq_head m)"
  define c where "c = min room d"
  have n: "n < 32" "cq_ring_mask m = mask n" "d \<le> 2 ^ n" using assms(1) by (simp_all add: cq_ok_def d_def)
  have c: "(of_nat c :: uint32) \<le> cq_tail m - cq_head m" "unat (of_nat c :: uint32) = c"
  proof -
    have "d < 2 ^ 32" unfolding d_def using unsigned_less [of "cq_tail m - cq_head m"] by simp
    then have "c < 2 ^ 32" by (simp add: c_def)
    then have "take_bit 32 c = c" by (rule take_bit_nat_eq_self)
    then show "unat (of_nat c :: uint32) = c" unfolding unsigned_of_nat by simp
    then show "of_nat c \<le> cq_tail m - cq_head m" by (simp add: word_le_nat_alt c_def d_def)
  qed
  have m': "m' = (if c \<noteq> 0 then m\<lparr>cq_head := cq_head m + of_nat c\<rparr> else m)"
    and batch: "batch = map (\<lambda>i. cqes m ! slot (cq_head m) (mask n) i) [0..<c]"
    using assms(2) [unfolded drain_cqes_def Let_def, folded d_def, folded c_def] n(2)
    by (simp_all only: prod.inject slot_def)
  have shift: "slot (cq_head m + of_nat c) r i = slot (cq_head m) r (i + c)" for r i
    by (simp add: slot_def ac_simps)
  have left: "unat (cq_tail m - (cq_head m + of_nat c)) = d - c"
    using unat_sub [OF c(1)] c(2) by (simp add: d_def algebra_simps)
  have "cq_contents m' = map (\<lambda>i. cqes m ! slot (cq_head m) (mask n) (i + c)) [0..<d - c]"
    using left shift n by (simp add: cq_contents_def m' d_def [symmetric])
  also have "\<dots> = drop c (cq_contents m)"
    by (rule nth_equalityI) (simp_all add: cq_contents_def n d_def ac_simps)
  also have "\<dots> = drop room (cq_contents m)"
    by (simp add: c_def min_def cq_contents_def d_def)
  finally have "cq_contents m' = drop room (cq_contents m)" .
  moreover have "batch = take room (cq_contents m)"
    unfolding batch cq_contents_def take_map n(2) d_def [symmetric]
    by (cases "room \<le> d") (simp_all add: c_def)
  moreover have "cq_ok n m'"
    using assms(1) left n(3) by (auto simp: cq_ok_def m' d_def [symmetric])
  ultimately show ?thesis by blast
qed

theorem cq_ring_fifo_witness:
  "fst (drain_cqes 1 wrapped_memory) = [\<lparr>cqe_user_data = 5, cqe_res = 1\<rparr>] \<and>
   cq_contents (snd (drain_cqes 1 wrapped_memory)) = [\<lparr>cqe_user_data = 6, cqe_res = 2\<rparr>]"
proof -
  have ok: "cq_ok 1 wrapped_memory"
    by (simp add: cq_ok_def wrapped_memory_def mask_eq_exp_minus_1)
  have "cq_contents wrapped_memory = [\<lparr>cqe_user_data = 5, cqe_res = 1\<rparr>, \<lparr>cqe_user_data = 6, cqe_res = 2\<rparr>]"
    by (simp add: cq_contents_def wrapped_memory_def slot_def upt_rec)
  with cq_ring_fifo [OF ok prod.collapse [symmetric], of 1] show ?thesis by simp
qed

text \<open>
  User data is faithful: an identifier can be encoded exactly when it is below \<open>2 ^ 63\<close>,
  decoding gives back the identifier and whether the entry was a cancellation, and no
  operation shares its user data with a cancellation or with another operation.
\<close>

theorem user_data_roundtrip:
  "((\<exists>c. encode_operation_user_data i = Inr c) \<longleftrightarrow> unat i < 2 ^ 63) \<and>
   (encode_operation_user_data i = Inr c \<longrightarrow>
      decode_kernel_user_data c = \<lparr>dec_operation_id = i, dec_is_cancel = False\<rparr>) \<and>
   (encode_cancel_user_data i = Inr c \<longrightarrow>
      decode_kernel_user_data c = \<lparr>dec_operation_id = i, dec_is_cancel = True\<rparr>) \<and>
   (encode_operation_user_data i = Inr c \<longrightarrow> encode_cancel_user_data j \<noteq> Inr c)"
proof -
  have tag: "bit cancel_user_data_tag k \<longleftrightarrow> k = 63" for k
    unfolding cancel_user_data_tag_def bit_push_bit_iff by (auto simp: bit_1_iff)
  have and_tag: "x AND cancel_user_data_tag \<noteq> 0 \<longleftrightarrow> bit x 63" for x :: uint64
  proof (cases "bit x 63")
    case True
    then have "bit (x AND cancel_user_data_tag) 63" by (simp add: bit_and_iff tag)
    with True show ?thesis by auto
  next
    case False
    then have "x AND cancel_user_data_tag = 0" by (intro bit_word_eqI) (auto simp: bit_and_iff tag)
    with False show ?thesis by simp
  qed
  have fits: "\<not> bit x 63 \<longleftrightarrow> unat x < 2 ^ 63" for x :: uint64
  proof -
    have "bit x 63 \<longleftrightarrow> sint x < 0" using bit_last_iff [of x] by simp
    then show ?thesis using sint_neg_iff [of x] by linarith
  qed
  have keep: "x AND NOT cancel_user_data_tag = x" if "\<not> bit x 63" for x :: uint64
    using that by (intro bit_word_eqI) (auto simp: bit_and_iff bit_not_iff tag)
  have strip: "(x OR cancel_user_data_tag) AND NOT cancel_user_data_tag = x" if "\<not> bit x 63" for x :: uint64
    using that by (intro bit_word_eqI) (auto simp: bit_and_iff bit_or_iff bit_not_iff tag)
  have tagged: "bit (x OR cancel_user_data_tag) 63" for x :: uint64
    by (simp add: bit_or_iff tag)
  show ?thesis
    unfolding fits [symmetric]
    using keep strip tagged
    by (auto simp: encode_operation_user_data_def encode_cancel_user_data_def
        decode_kernel_user_data_def and_tag split: if_splits)
qed

theorem user_data_roundtrip_witness:
  "decode_kernel_user_data 7 = \<lparr>dec_operation_id = 7, dec_is_cancel = False\<rparr> \<and>
   decode_kernel_user_data 0x8000000000000007 = \<lparr>dec_operation_id = 7, dec_is_cancel = True\<rparr>"
proof -
  have "encode_operation_user_data 7 = Inr 7" "encode_cancel_user_data 7 = Inr 0x8000000000000007"
    by (simp_all add: encode_operation_user_data_def encode_cancel_user_data_def
        cancel_user_data_tag_def)
  with user_data_roundtrip [of 7 7] user_data_roundtrip [of 7 "0x8000000000000007"]
  show ?thesis by blast
qed

text \<open>A kernel that counts its calls and accepts every submission, for concrete runs.\<close>

definition counting_kernel :: "int uring_sys" where
  "counting_kernel = \<lparr>us_setup = (\<lambda>n k. (Inr (3, \<lparr>par_sq_entries = n, par_cq_entries = n,
       par_sq_off_array = 64, par_cq_off_cqes = 64, par_single_mmap = False\<rparr>), k + 1)),
     us_probe = (\<lambda>fd k. (Inl 22, k)),
     us_mmap = (\<lambda>n fd area k. if area = Off_sqes then (Inl 12, k) else (Inr (word_of_int k), k + 1)),
     us_munmap = (\<lambda>a n k. k - 1), us_mapped = (\<lambda>fd k. empty_memory),
     us_enter = (\<lambda>fd n flags mk. (Inr (uint n), mk)), us_register = (\<lambda>fd req k. (Inr (), k)),
     us_close = (\<lambda>fd k. k - 1), us_dupfd = (\<lambda>fd n k. (Inl 24, k)), us_iteration = (\<lambda>ids. ids)\<rparr>"

text \<open>
  The resources of the process a ring uses, each with its identity: an open descriptor, and a
  mapping by its address and length.
\<close>

datatype ring_resource = Fd int | Mapping uint64 size_t

text \<open>The resources a ring owns by what it recorded; with a single mapping both rings share it.\<close>

definition ring_resources :: "kernel_ring \<Rightarrow> ring_resource set" where
  "ring_resources ring =
     (case kr_sqes_mapping ring of Some a \<Rightarrow> {Mapping a (kr_sqes_mapping_size ring)} | None \<Rightarrow> {}) \<union>
     (case kr_cq_mapping ring of Some a \<Rightarrow> {Mapping a (kr_cq_mapping_size ring)} | None \<Rightarrow> {}) \<union>
     (case kr_sq_mapping ring of Some a \<Rightarrow> {Mapping a (kr_sq_mapping_size ring)} | None \<Rightarrow> {}) \<union>
     {Fd (kr_fd ring)}"

definition ring_mappings_ok :: "kernel_ring \<Rightarrow> bool" where
  "ring_mappings_ok ring \<longleftrightarrow> kr_fd ring \<ge> 0 \<and>
     (\<forall>a. kr_sqes_mapping ring = Some a \<longrightarrow> kr_cq_mapping ring \<noteq> Some a \<and> kr_sq_mapping ring \<noteq> Some a) \<and>
     (\<forall>a. kr_cq_mapping ring = Some a \<and> kr_sq_mapping ring = Some a \<longrightarrow>
        kr_cq_mapping_size ring = kr_sq_mapping_size ring)"

text \<open>The destructor releases each of them exactly once and nothing else.\<close>

lemma kr_destroy_releases:
  assumes munmap: "\<And>a n k. Mapping a n \<in> held k \<Longrightarrow> held (us_munmap sys a n k) = held k - {Mapping a n}"
    and close: "\<And>fd k. Fd fd \<in> held k \<Longrightarrow> held (us_close sys fd k) = held k - {Fd fd}"
    and ok: "ring_mappings_ok ring" and own: "ring_resources ring \<subseteq> held k"
  shows "held (kr_destroy sys ring k) = held k - ring_resources ring"
proof -
  define unmap where "unmap m n k = (case m of Some a \<Rightarrow> us_munmap sys a n k | None \<Rightarrow> k)" for m n k
  define res where "res m n = (case m of Some a \<Rightarrow> {Mapping a n} | None \<Rightarrow> {})" for m n
  have step: "held (unmap m n k) = held k - res m n" if "res m n \<subseteq> held k" for m n k
    using that munmap by (cases m) (simp_all add: unmap_def res_def)
  define cq where "cq = (if kr_cq_mapping ring = kr_sq_mapping ring then None else kr_cq_mapping ring)"
  define k1 where "k1 = unmap (kr_sqes_mapping ring) (kr_sqes_mapping_size ring) k"
  define k2 where "k2 = unmap cq (kr_cq_mapping_size ring) k1"
  define k3 where "k3 = unmap (kr_sq_mapping ring) (kr_sq_mapping_size ring) k2"
  let ?sqes = "res (kr_sqes_mapping ring) (kr_sqes_mapping_size ring)"
  let ?cq = "res cq (kr_cq_mapping_size ring)"
  let ?sq = "res (kr_sq_mapping ring) (kr_sq_mapping_size ring)"
  have destroy: "kr_destroy sys ring k = us_close sys (kr_fd ring) k3"
    using ok by (auto simp: kr_destroy_def ring_mappings_ok_def k1_def k2_def k3_def cq_def unmap_def
        Let_def split: option.splits)
  have all: "ring_resources ring = ?sqes \<union> ?cq \<union> ?sq \<union> {Fd (kr_fd ring)}"
    using ok by (auto simp: ring_resources_def ring_mappings_ok_def cq_def res_def split: option.splits)
  have disjoint: "?sqes \<inter> ?cq = {}" "(?sqes \<union> ?cq) \<inter> ?sq = {}"
    "Fd (kr_fd ring) \<notin> ?sqes \<union> ?cq \<union> ?sq"
    using ok by (auto simp: ring_mappings_ok_def cq_def res_def split: option.splits)
  have h1: "held k1 = held k - ?sqes" unfolding k1_def using own all by (intro step) blast
  have "?cq \<subseteq> held k1" using own all disjoint(1) h1 by blast
  then have h2: "held k2 = held k1 - ?cq" unfolding k2_def by (rule step)
  have "?sq \<subseteq> held k2" using own all disjoint(2) h1 h2 by blast
  then have h3: "held k3 = held k2 - ?sq" unfolding k3_def by (rule step)
  have "Fd (kr_fd ring) \<in> held k3" using own all disjoint(3) h1 h2 h3 by blast
  then have "held (us_close sys (kr_fd ring) k3) = held k3 - {Fd (kr_fd ring)}" by (rule close)
  then show ?thesis unfolding destroy all h3 h2 h1 by blast
qed

text \<open>Mapping the queues adds exactly the mappings the ring records, whether it succeeds or not.\<close>

lemma map_queues_owns:
  assumes fresh: "\<And>n fd area k a k'. us_mmap sys n fd area k = (Inr a, k') \<Longrightarrow>
      (\<forall>m. Mapping a m \<notin> held k) \<and> held k' = insert (Mapping a n) (held k)"
    and failed: "\<And>n fd area k e k'. us_mmap sys n fd area k = (Inl e, k') \<Longrightarrow> held k' = held k"
    and none: "kr_sq_mapping ring = None" "kr_cq_mapping ring = None" "kr_sqes_mapping ring = None"
    and fd: "kr_fd ring \<ge> 0"
    and run: "map_queues sys ring k = (r, ring', k')"
  shows "ring_mappings_ok ring'" and "held k' = held k \<union> (ring_resources ring' - {Fd (kr_fd ring)})"
    and "ring_resources ring' \<inter> held k \<subseteq> {Fd (kr_fd ring)}" and "kr_fd ring' = kr_fd ring"
proof -
  obtain a b where sizes: "ring_mapping_sizes (kr_params ring) = (a, b)" by fastforce
  have single: "par_single_mmap (kr_params ring) \<Longrightarrow> b = a"
    using sizes by (auto simp: ring_mapping_sizes_def Let_def)
  obtain r1 k1 where sq: "us_mmap sys a (kr_fd ring) Off_sq_ring k = (r1, k1)" by fastforce
  obtain r2 k2 where cq: "(if par_single_mmap (kr_params ring) then (Inr (projr r1), k1)
      else us_mmap sys b (kr_fd ring) Off_cq_ring k1) = (r2, k2)" by fastforce
  let ?n = "ucast (par_sq_entries (kr_params ring)) * 64"
  obtain r3 k3 where sqes: "us_mmap sys ?n (kr_fd ring) Off_sqes k2 = (r3, k3)" by fastforce
  let ?goal = "ring_mappings_ok ring' \<and> held k' = held k \<union> (ring_resources ring' - {Fd (kr_fd ring)}) \<and>
    ring_resources ring' \<inter> held k \<subseteq> {Fd (kr_fd ring)} \<and> kr_fd ring' = kr_fd ring"
  have ?goal
  proof (cases r1)
    case (Inl e)
    have "k' = k1 \<and> ring' = ring\<lparr>kr_sq_mapping_size := a, kr_cq_mapping_size := b, kr_sq_mapping := None\<rparr>"
      using run by (simp add: map_queues_def sizes sq Inl)
    then show ?thesis
      using failed sq Inl none fd by (auto simp: ring_mappings_ok_def ring_resources_def)
  next
    case (Inr x)
    note h1 = fresh [OF sq [unfolded Inr]]
    show ?thesis
    proof (cases r2)
      case (Inl e)
      then have multi: "\<not> par_single_mmap (kr_params ring)" using cq by auto
      then have "held k2 = held k1" using failed cq Inl by auto
      moreover have "k' = k2 \<and> ring' = ring\<lparr>kr_sq_mapping_size := a, kr_cq_mapping_size := b,
          kr_sq_mapping := Some x, kr_cq_mapping := None\<rparr>"
        using run cq multi by (simp add: map_queues_def sizes sq Inr Inl)
      ultimately show ?thesis
        using h1 none fd by (auto simp: ring_mappings_ok_def ring_resources_def)
    next
      case (Inr y)
      have h2: "if par_single_mmap (kr_params ring) then y = x \<and> b = a \<and> held k2 = held k1
          else (\<forall>m. Mapping y m \<notin> held k1) \<and> held k2 = insert (Mapping y b) (held k1)"
        using cq fresh [of b "kr_fd ring" Off_cq_ring k1 y k2] \<open>r1 = Inr x\<close> Inr single
        by (auto split: if_splits)
      have run': "map_queues sys ring k = (case us_mmap sys ?n (kr_fd ring) Off_sqes k2 of
          (Inl e, k3) \<Rightarrow> (Inl (provider_failure e), ring\<lparr>kr_sq_mapping_size := a, kr_cq_mapping_size := b,
             kr_sq_mapping := Some x, kr_cq_mapping := Some y, kr_sqes_mapping_size := ?n,
             kr_sqes_mapping := None\<rparr>, k3)
        | (Inr z, k3) \<Rightarrow> (Inr (), ring\<lparr>kr_sq_mapping_size := a, kr_cq_mapping_size := b,
             kr_sq_mapping := Some x, kr_cq_mapping := Some y, kr_sqes_mapping_size := ?n,
             kr_sqes_mapping := Some z, kr_memory := us_mapped sys (kr_fd ring) k3\<rparr>, k3))"
        using cq \<open>r1 = Inr x\<close> Inr by (auto simp: map_queues_def sizes sq Let_def split: if_splits)
      show ?thesis
      proof (cases r3)
        case (Inl e)
        then show ?thesis
          using run run' sqes failed [of ?n "kr_fd ring" Off_sqes k2 e k3] h1 h2 none fd
          by (auto simp: ring_mappings_ok_def ring_resources_def split: if_splits)
      next
        case (Inr z)
        then show ?thesis
          using run run' sqes fresh [of ?n "kr_fd ring" Off_sqes k2 z k3] h1 h2 none fd
          by (auto simp: ring_mappings_ok_def ring_resources_def split: if_splits)
      qed
    qed
  qed
  then show "ring_mappings_ok ring'" "held k' = held k \<union> (ring_resources ring' - {Fd (kr_fd ring)})"
    "ring_resources ring' \<inter> held k \<subseteq> {Fd (kr_fd ring)}" "kr_fd ring' = kr_fd ring" by blast+
qed

text \<open>
  C13. Creating a ring leaks nothing and frees nothing it does not own. Resources have identities:
  a setup that succeeds opens a descriptor that was not open, a mapping that succeeds is at an
  address where nothing was mapped, unmapping a mapping that is there removes exactly that one and
  closing an open descriptor exactly that one; nothing is assumed of unmapping or closing anything
  else. Then a failed creation leaves the process's resources as they were, and a created ring
  owns its descriptor and mappings and nothing else, and its destruction restores exactly what was
  held before.
\<close>

theorem kernel_ring_no_leak:
  assumes "\<And>n k fd p k'. us_setup sys n k = (Inr (fd, p), k') \<Longrightarrow>
      fd \<ge> 0 \<and> Fd fd \<notin> held k \<and> held k' = insert (Fd fd) (held k)"
    and "\<And>n k e k'. us_setup sys n k = (Inl e, k') \<Longrightarrow> held k' = held k"
    and "\<And>n fd area k a k'. us_mmap sys n fd area k = (Inr a, k') \<Longrightarrow>
      (\<forall>m. Mapping a m \<notin> held k) \<and> held k' = insert (Mapping a n) (held k)"
    and "\<And>n fd area k e k'. us_mmap sys n fd area k = (Inl e, k') \<Longrightarrow> held k' = held k"
    and "\<And>a n k. Mapping a n \<in> held k \<Longrightarrow> held (us_munmap sys a n k) = held k - {Mapping a n}"
    and "\<And>fd k. Fd fd \<in> held k \<Longrightarrow> held (us_close sys fd k) = held k - {Fd fd}"
  shows "case kr_create sys requested k of
      (Inl _, k') \<Rightarrow> held k' = held k
    | (Inr ring, k') \<Rightarrow> held k' = held k \<union> ring_resources ring \<and> held k \<inter> ring_resources ring = {} \<and>
        held (kr_destroy sys ring k') = held k"
proof -
  have mapped: "held k' = held k \<union> ring_resources ring' \<and> held k \<inter> ring_resources ring' = {} \<and>
      held (kr_destroy sys ring' k') = held k"
    if opened: "us_setup sys n k = (Inr (kr_fd ring, p), k1)" and none: "kr_sq_mapping ring = None"
      "kr_cq_mapping ring = None" "kr_sqes_mapping ring = None"
      and run: "map_queues sys ring k1 = (r, ring', k')" for n p k1 ring r ring' k'
  proof -
    note s = assms(1) [OF opened]
    then have fd: "kr_fd ring \<ge> 0" by simp
    have own: "ring_mappings_ok ring'" "held k' = held k1 \<union> (ring_resources ring' - {Fd (kr_fd ring)})"
      "ring_resources ring' \<inter> held k1 \<subseteq> {Fd (kr_fd ring)}" "kr_fd ring' = kr_fd ring"
      by (rule map_queues_owns [where held = held and sys = sys, OF _ _ none fd run]; fact assms(3,4))+
    have "Fd (kr_fd ring) \<in> ring_resources ring'" using own(4) by (simp add: ring_resources_def)
    then have held: "held k' = held k \<union> ring_resources ring'" "held k \<inter> ring_resources ring' = {}"
      using own(2,3) s by auto
    then show ?thesis
      using kr_destroy_releases [where held = held and sys = sys, OF assms(5,6) own(1), of k'] by blast
  qed
  show ?thesis
  proof (cases "requested = 0 \<or> requested > UINT_MAX")
    case False
    obtain opened k1 where opened: "us_setup sys (of_nat requested) k = (opened, k1)" by fastforce
    show ?thesis
    proof (cases opened)
      case (Inl e)
      then show ?thesis using assms(2) opened False by (simp add: kr_create_def)
    next
      case (Inr fp)
      obtain fd p where fp: "fp = (fd, p)" by fastforce
      let ?ring = "\<lparr>kr_fd = fd, kr_params = p, kr_sq_mapping = None, kr_cq_mapping = None,
        kr_sqes_mapping = None, kr_sq_mapping_size = 0, kr_cq_mapping_size = 0, kr_sqes_mapping_size = 0,
        kr_memory = empty_memory, kr_pending_submissions = 0\<rparr>"
      obtain r ring k2 where run: "map_queues sys ?ring k1 = (r, ring, k2)" by (metis prod_cases3)
      have "us_setup sys (of_nat requested) k = (Inr (kr_fd ?ring, p), k1)" using opened Inr fp by simp
      note all = mapped [OF this _ _ _ run]
      show ?thesis using all opened Inr fp run False by (cases r) (simp_all add: kr_create_def)
    qed
  qed (simp add: kr_create_def)
qed

text \<open>A process whose state is the list of its resources, and whose entries mapping may fail.\<close>

definition resource_kernel :: "bool \<Rightarrow> ring_resource list uring_sys" where
  "resource_kernel fails = \<lparr>us_setup = (\<lambda>n k. if Fd 3 \<in> set k then (Inl 24, k) else
       (Inr (3, \<lparr>par_sq_entries = n, par_cq_entries = n, par_sq_off_array = 64, par_cq_off_cqes = 64,
          par_single_mmap = False\<rparr>), Fd 3 # k)),
     us_probe = (\<lambda>fd k. (Inl 22, k)),
     us_mmap = (\<lambda>n fd area k.
       let a = (case area of Off_sq_ring \<Rightarrow> 4096 | Off_cq_ring \<Rightarrow> 8192 | Off_sqes \<Rightarrow> 12288)
       in if fails \<and> area = Off_sqes \<or> (\<exists>m. Mapping a m \<in> set k) then (Inl 12, k)
          else (Inr a, Mapping a n # k)),
     us_munmap = (\<lambda>a n k. removeAll (Mapping a n) k), us_mapped = (\<lambda>fd k. empty_memory),
     us_enter = (\<lambda>fd n flags mk. (Inr (uint n), mk)), us_register = (\<lambda>fd req k. (Inr (), k)),
     us_close = (\<lambda>fd k. removeAll (Fd fd) k), us_dupfd = (\<lambda>fd n k. (Inl 24, k)),
     us_iteration = (\<lambda>ids. ids)\<rparr>"

theorem kernel_ring_no_leak_witness:
  "(\<exists>k'. kr_create (resource_kernel True) 8 [] = (Inl (provider_failure 12), k') \<and> set k' = {}) \<and>
   (\<exists>ring k'. kr_create (resource_kernel False) 8 [] = (Inr ring, k') \<and>
      set k' = {Fd 3, Mapping 4096 96, Mapping 8192 192, Mapping 12288 512} \<and>
      set (kr_destroy (resource_kernel False) ring k') = {})"
proof -
  have all: "case kr_create (resource_kernel fails) 8 [] of
      (Inl _, k') \<Rightarrow> set k' = set []
    | (Inr ring, k') \<Rightarrow> set k' = set [] \<union> ring_resources ring \<and> set [] \<inter> ring_resources ring = {} \<and>
        set (kr_destroy (resource_kernel fails) ring k') = set []" for fails
    by (rule kernel_ring_no_leak [where held = set])
      (auto simp: resource_kernel_def Let_def split: if_splits)
  have "fst (kr_create (resource_kernel True) 8 []) = Inl (provider_failure 12)"
    "\<exists>ring. fst (kr_create (resource_kernel False) 8 []) = Inr ring"
    "set (snd (kr_create (resource_kernel False) 8 [])) =
       {Fd 3, Mapping 4096 96, Mapping 8192 192, Mapping 12288 512}"
    by (auto simp: kr_create_def resource_kernel_def map_queues_def ring_mapping_sizes_def Let_def UINT_MAX_def)
  then show ?thesis using all [of True] all [of False]
    by (cases "kr_create (resource_kernel True) 8 []"; cases "kr_create (resource_kernel False) 8 []") auto
qed

end
