(* ===== verification/Io_Uring_Correct.thy ===== *)
theory Io_Uring_Correct
  imports Io_Uring_Accounting Io_Uring_Ring_Correct
begin

text \<open>
  The io_uring backend keeps the contract of the ledger in all three of its modes: every
  accepted operation is delivered exactly once, whatever the kernel posts. The invariant also
  shows that a queued operation can always be handed to the virtual backend, so the error
  branches of \<^verbatim>\<open>submit_to_fallback\<close>, which would forget the operation, are never taken.
\<close>

section \<open>Invariant\<close>

definition ur_outstanding :: "'r io_uring_backend \<Rightarrow> size_t list" where
  "ur_outstanding b = map op_id (ur_submission_queue b) @ kernel_ids b @ completion_ids b @
     vb_outstanding (ur_fallback b)"

definition queued_ok :: "'r virtual_backend \<Rightarrow> 'r backend_operation \<Rightarrow> bool" where
  "queued_ok f q \<longleftrightarrow> is_valid_backend_operation_shape q \<and> vb_is_current_handle (op_handle q) f"

definition ur_inv :: "'r io_uring_backend \<Rightarrow> bool" where
  "ur_inv b \<longleftrightarrow>
     ur_active_operation_ids b = set (ur_outstanding b) \<and> distinct (ur_outstanding b) \<and>
     0 \<notin> ur_active_operation_ids b \<and> vb_inv (ur_fallback b) \<and>
     (\<not> use_kernel_submission b \<longrightarrow> ur_kernel_operations b = []) \<and>
     (\<forall>q \<in> set (ur_submission_queue b). queued_ok (ur_fallback b) q) \<and>
     vb_stopped (ur_fallback b) = ur_closed b"

lemma ur_inv_create: "ur_inv (ur_create caps opts)"
  by (simp add: ur_inv_def ur_create_def ur_outstanding_def kernel_ids_def completion_ids_def
      vb_inv_init) (simp add: vb_init_def vb_outstanding_def)

text \<open>Steps that permute the outstanding operations.\<close>

definition rearranges :: "'r io_uring_backend \<Rightarrow> 'r io_uring_backend \<Rightarrow> bool" where
  "rearranges b b' \<longleftrightarrow> (ur_inv b \<longrightarrow> ur_inv b' \<and> mset (ur_outstanding b') = mset (ur_outstanding b))"

lemma rearranges_refl [simp, intro]: "rearranges b b"
  by (simp add: rearranges_def)

lemma rearranges_trans: "rearranges b b1 \<Longrightarrow> rearranges b1 b2 \<Longrightarrow> rearranges b b2"
  by (simp add: rearranges_def)

lemma rearrangesI:
  assumes "ur_inv b \<Longrightarrow> mset (ur_outstanding b') = mset (ur_outstanding b)"
    and "ur_active_operation_ids b' = ur_active_operation_ids b"
    and "ur_inv b \<Longrightarrow> vb_inv (ur_fallback b') \<and> (\<not> use_kernel_submission b' \<longrightarrow> ur_kernel_operations b' = []) \<and>
      (\<forall>q \<in> set (ur_submission_queue b'). queued_ok (ur_fallback b') q) \<and>
      vb_stopped (ur_fallback b') = ur_closed b'"
  shows "rearranges b b'"
proof -
  have "ur_inv b'" if "ur_inv b"
  proof -
    note eq = assms(1) [OF that]
    show ?thesis
      using that assms(2) assms(3) [OF that] mset_eq_setD [OF eq] mset_eq_imp_distinct_iff [OF eq]
      unfolding ur_inv_def by (elim conjE, intro conjI) simp_all
  qed
  with assms(1) show ?thesis unfolding rearranges_def by blast
qed

lemma kernel_moves_rearranges:
  assumes "kernel_moves b b'"
  shows "rearranges b b'"
proof (rule rearrangesI)
  note m = assms [unfolded kernel_moves_def same_interface_def]
  assume inv: "ur_inv b"
  then have "distinct (kernel_ids b)" by (simp add: ur_inv_def ur_outstanding_def)
  with m have "mset (kernel_ids b') + mset (completion_ids b') =
      mset (kernel_ids b) + mset (completion_ids b)" by simp
  with m show "mset (ur_outstanding b') = mset (ur_outstanding b)"
    by (simp add: ur_outstanding_def union_assoc [symmetric])
  show "vb_inv (ur_fallback b') \<and> (\<not> use_kernel_submission b' \<longrightarrow> ur_kernel_operations b' = []) \<and>
      (\<forall>q \<in> set (ur_submission_queue b'). queued_ok (ur_fallback b') q) \<and>
      vb_stopped (ur_fallback b') = ur_closed b'"
    using m inv by (simp add: ur_inv_def use_kernel_submission_def)
next
  show "ur_active_operation_ids b' = ur_active_operation_ids b"
    using assms by (simp add: kernel_moves_def same_interface_def)
qed

lemma vb_submit_succeeds:
  assumes "vb_inv f" and "\<not> vb_stopped f" and "queued_ok f q" and "op_id q \<noteq> 0"
    and "op_id q \<notin> set (vb_outstanding f)"
  shows "\<exists>f'. vb_submit q f = (Inr (), f') \<and> vb_inv f' \<and>
    mset (vb_outstanding f') = add_mset (op_id q) (mset (vb_outstanding f)) \<and>
    vb_registry f' = vb_registry f \<and> vb_stopped f' = vb_stopped f"
proof -
  have "\<exists>f'. vb_submit q f = (Inr (), f') \<and> vb_registry f' = vb_registry f \<and> vb_stopped f' = vb_stopped f"
    using assms by (simp add: vb_submit_def queued_ok_def vb_inv_def)
  then obtain f' where sub: "vb_submit q f = (Inr (), f')" "vb_registry f' = vb_registry f"
    "vb_stopped f' = vb_stopped f" by blast
  from vb_submit_spec [OF assms(1) this(1)] sub show ?thesis by simp
qed

lemma queued_ok_registry: "vb_registry f' = vb_registry f \<Longrightarrow> queued_ok f' q = queued_ok f q"
  by (simp add: queued_ok_def vb_is_current_handle_def)

text \<open>A queued operation moves to the virtual backend.\<close>

lemma move_to_fallback:
  assumes "ur_inv b" and "\<not> ur_closed b" and "ur_submission_queue b = xs @ q # ys"
  obtains f where "vb_submit q (ur_fallback b) = (Inr (), f)"
    and "rearranges b (b\<lparr>ur_fallback := f, ur_submission_queue := xs @ ys\<rparr>)"
    and "vb_registry f = vb_registry (ur_fallback b)"
proof -
  have "op_id q \<noteq> 0"
    using assms unfolding ur_inv_def ur_outstanding_def by (metis UnCI in_set_conv_decomp list.set_map
        imageI set_append)
  moreover have "op_id q \<notin> set (vb_outstanding (ur_fallback b))"
    using assms by (auto simp: ur_inv_def ur_outstanding_def)
  ultimately obtain f where f: "vb_submit q (ur_fallback b) = (Inr (), f)" "vb_inv f"
    "mset (vb_outstanding f) = add_mset (op_id q) (mset (vb_outstanding (ur_fallback b)))"
    "vb_registry f = vb_registry (ur_fallback b)" "vb_stopped f = vb_stopped (ur_fallback b)"
    using vb_submit_succeeds [of "ur_fallback b" q] assms by (auto simp: ur_inv_def)
  moreover have "rearranges b (b\<lparr>ur_fallback := f, ur_submission_queue := xs @ ys\<rparr>)"
    using assms f queued_ok_registry [OF f(4)]
    by (intro rearrangesI)
      (auto simp: ur_inv_def ur_outstanding_def kernel_ids_def completion_ids_def use_kernel_submission_def)
  ultimately show thesis using that by blast
qed

text \<open>A queued operation moves to the completion queue.\<close>

lemma move_to_completions:
  assumes "ur_submission_queue b = xs @ q # ys" and "bc_operation_id c = op_id q"
  shows "rearranges b (b\<lparr>ur_completion_queue := ur_completion_queue b @ [c],
    ur_submission_queue := xs @ ys\<rparr>)"
  using assms
  by (intro rearrangesI)
    (auto simp: ur_inv_def ur_outstanding_def kernel_ids_def completion_ids_def use_kernel_submission_def)

section \<open>Handles\<close>

lemma register_keeps_current:
  "vb_is_current_handle t f \<Longrightarrow> vb_is_current_handle t (snd (vb_register_handle h f))"
  by (auto simp: vb_register_handle_def vb_is_current_handle_def reg_register_def reg_is_current_def
      reg_lookup_def Let_def to_native_token_def split: if_splits prod.splits sum.splits option.splits)

lemma close_keeps_current:
  assumes "vb_is_current_handle t f" and "t \<noteq> token"
  shows "vb_is_current_handle t (snd (vb_close_handle token f))"
  using assms
  by (auto simp: vb_close_handle_def reg_close_def vb_is_current_handle_def reg_is_current_def
      to_native_token_def vb_complete_pending_def complete_loop_eq split: option.splits if_splits)

section \<open>Flushing\<close>

lemma kernel_moves_queue:
  "kernel_moves b b1 \<Longrightarrow> kernel_moves (b\<lparr>ur_submission_queue := qs\<rparr>) (b1\<lparr>ur_submission_queue := qs\<rparr>)"
  by (simp add: kernel_moves_def same_interface_def kernel_ids_def completion_ids_def)

lemma move_to_kernel:
  assumes "ur_submission_queue b = q # qs" and "use_kernel_submission b"
  shows "rearranges b ((emplaced q b)\<lparr>ur_submission_queue := qs\<rparr>)"
proof -
  have "kernel_ids ((emplaced q b)\<lparr>ur_submission_queue := qs\<rparr>) = kernel_ids b @ [op_id q]" if "ur_inv b"
    using that assms by (auto simp: ur_inv_def ur_outstanding_def kernel_ids_def emplaced_def ko_emplace_def)
  then show ?thesis
    using assms
    by (intro rearrangesI)
      (auto simp: ur_outstanding_def completion_ids_def ur_inv_def emplaced_def use_kernel_submission_def)
qed

lemma flush_loop_rearranges:
  assumes "flush_loop sys n flushed s = Some (r, s')" and "n \<le> length (ur_submission_queue (fst s))"
    and "ur_inv (fst s)" and "\<not> ur_closed (fst s)"
  shows "rearranges (fst s) (fst s')"
  using assms
proof (induction n arbitrary: flushed s)
  case 0
  then show ?case by simp
next
  case (Suc n)
  obtain b k where s: "s = (b, k)" by fastforce
  obtain q qs where queue: "ur_submission_queue b = q # qs"
    using Suc.prems(2) s by (cases "ur_submission_queue b") auto
  have inv: "ur_inv b" "\<not> ur_closed b" using Suc.prems(3,4) s by simp_all
  have step: "rearranges (fst s) (fst s')"
    if "rearranges b (b1\<lparr>ur_submission_queue := qs\<rparr>)" and "\<not> ur_closed b1"
      and "flush_loop sys n m (b1\<lparr>ur_submission_queue := qs\<rparr>, k1) = Some (r, s')" for b1 k1 m
  proof -
    have "ur_inv (b1\<lparr>ur_submission_queue := qs\<rparr>)" using that(1) inv(1) by (simp add: rearranges_def)
    then have "rearranges (b1\<lparr>ur_submission_queue := qs\<rparr>) (fst s')"
      using Suc.IH [OF that(3)] that(2) Suc.prems(2) s queue by simp
    then show ?thesis using that(1) rearranges_trans s by auto
  qed
  show ?case
  proof (cases "use_kernel_submission b")
    case False
    obtain f where f: "vb_submit q (ur_fallback b) = (Inr (), f)"
      "rearranges b (b\<lparr>ur_fallback := f, ur_submission_queue := qs\<rparr>)"
      using move_to_fallback [OF inv, of "[]" q qs] queue by auto
    from f(1) have "flush_loop sys n (flushed + 1)
        ((b\<lparr>ur_fallback := f\<rparr>)\<lparr>ur_submission_queue := qs\<rparr>, k) = Some (r, s')"
      using Suc.prems(1) False by (simp add: s queue submit_to_fallback_def)
    from step [OF _ _ this] f(2) inv(2) show ?thesis by simp
  next
    case True
    then obtain r1 b1 k1 where sub: "submit_to_kernel sys q (b, k) = Some (r1, b1, k1)"
      using Suc.prems(1) by (auto simp: s queue bind_eq_Some_conv)
    note spec = submit_to_kernel_spec [OF sub]
    show ?thesis
    proof (cases r1)
      case (Inl e)
      then show ?thesis
        using Suc.prems(1) True sub spec kernel_moves_rearranges by (auto simp: s queue)
    next
      case (Inr u)
      then have moves: "kernel_moves (emplaced q b) b1" using spec by simp
      then have q1: "ur_submission_queue b1 = q # qs" "\<not> ur_closed b1"
        using queue inv(2) by (simp_all add: kernel_moves_def same_interface_def emplaced_def)
      have "rearranges b (b1\<lparr>ur_submission_queue := qs\<rparr>)"
        using move_to_kernel [OF queue True] kernel_moves_rearranges [OF kernel_moves_queue [OF moves]]
        by (rule rearranges_trans)
      moreover note q1(2)
      moreover have "flush_loop sys n (flushed + 1) (b1\<lparr>ur_submission_queue := qs\<rparr>, k1) = Some (r, s')"
        using Suc.prems(1) True sub Inr q1 by (simp add: s queue)
      ultimately show ?thesis by (rule step)
    qed
  qed
qed

lemma flush_batch_rearranges:
  assumes "flush_submission_batch sys s = Some (r, s')" and "\<not> ur_closed (fst s)"
  shows "rearranges (fst s) (fst s')"
  using flush_loop_rearranges assms
  by (cases s) (fastforce simp: flush_submission_batch_def rearranges_def)

lemma update_commute:
  "b\<lparr>ur_fallback := f, ur_submission_queue := qs\<rparr> = b\<lparr>ur_submission_queue := qs, ur_fallback := f\<rparr>"
  by simp

lemma flush_queued_loop_spec:
  assumes "ur_inv (b\<lparr>ur_submission_queue := kept @ qs\<rparr>)" and "\<not> ur_closed b"
  shows "\<exists>b'. flush_queued_loop token kept qs b = (Inr (), b') \<and>
    rearranges (b\<lparr>ur_submission_queue := kept @ qs\<rparr>) b' \<and>
    ur_submission_queue b' = kept @ filter (\<lambda>q. op_handle q \<noteq> token) qs \<and>
    vb_registry (ur_fallback b') = vb_registry (ur_fallback b)"
  using assms
proof (induction qs arbitrary: kept b)
  case Nil
  then show ?case by simp
next
  case (Cons q qs)
  show ?case
  proof (cases "op_handle q = token")
    case False
    then show ?thesis using Cons.IH [of "kept @ [q]" b] Cons.prems by simp
  next
    case True
    let ?b = "b\<lparr>ur_submission_queue := kept @ q # qs\<rparr>"
    obtain f where f: "vb_submit q (ur_fallback b) = (Inr (), f)"
      "rearranges ?b (b\<lparr>ur_fallback := f, ur_submission_queue := kept @ qs\<rparr>)"
      "vb_registry f = vb_registry (ur_fallback b)"
      using move_to_fallback [OF Cons.prems(1), of kept q qs] Cons.prems(2) by auto
    let ?c = "b\<lparr>ur_submission_queue := kept @ qs, ur_fallback := f\<rparr>"
    have re: "rearranges ?b ?c" using f(2) unfolding update_commute .
    have same: "?c\<lparr>ur_submission_queue := kept @ qs\<rparr> = ?c" by simp
    have "ur_inv ?c" using Cons.prems(1) re unfolding rearranges_def by blast
    then have "ur_inv (?c\<lparr>ur_submission_queue := kept @ qs\<rparr>)" unfolding same .
    from Cons.IH [OF this, unfolded same] Cons.prems(2) obtain b' where
      loop: "flush_queued_loop token kept qs ?c = (Inr (), b')" and "rearranges ?c b'"
      "ur_submission_queue b' = kept @ filter (\<lambda>q. op_handle q \<noteq> token) qs"
      "vb_registry (ur_fallback b') = vb_registry (ur_fallback ?c)" by auto
    then show ?thesis
      using True f(1,3) rearranges_trans [OF re] by (auto simp: submit_to_fallback_def loop)
  qed
qed

lemma complete_queued_loop_spec:
  "rearranges (b\<lparr>ur_submission_queue := kept @ qs\<rparr>) (complete_queued_loop token res kept qs b) \<and>
   ur_submission_queue (complete_queued_loop token res kept qs b) =
     kept @ filter (\<lambda>q. generation token \<noteq> 0 \<and> op_handle q \<noteq> token) qs \<and>
   ur_fallback (complete_queued_loop token res kept qs b) = ur_fallback b"
proof (induction qs arbitrary: kept b)
  case Nil
  then show ?case by simp
next
  case (Cons q qs)
  show ?case
  proof (cases "generation token = 0 \<or> op_handle q = token")
    case False
    then show ?thesis using Cons [of "kept @ [q]" b] by simp
  next
    case True
    let ?c = "b\<lparr>ur_completion_queue := ur_completion_queue b @ [make_completion (op_id q) res]\<rparr>"
    have "rearranges (b\<lparr>ur_submission_queue := kept @ q # qs\<rparr>) (?c\<lparr>ur_submission_queue := kept @ qs\<rparr>)"
      using move_to_completions [of "b\<lparr>ur_submission_queue := kept @ q # qs\<rparr>" kept q qs] by simp
    then show ?thesis
      using True Cons [of kept ?c] rearranges_trans by auto
  qed
qed

section \<open>Draining the virtual backend\<close>

text \<open>Completions drained from the virtual backend move to the completion queue.\<close>

lemma drain_fallback_step:
  assumes "vb_drain_completions out (ur_fallback b) = (Inr drained, out', f)" and "length out < 2 ^ 64"
  shows "rearranges b (b\<lparr>ur_fallback := f, ur_completion_queue := ur_completion_queue b @ take (unat drained) out'\<rparr>) \<and>
    vb_registry f = vb_registry (ur_fallback b) \<and>
    vb_pending f = vb_pending (ur_fallback b) \<and> (drained = 0 \<longleftrightarrow> vb_completions (ur_fallback b) = [])"
proof -
  let ?f = "ur_fallback b"
  define n where "n = min (length out) (length (vb_completions ?f))"
  have out: "out \<noteq> []" using assms(1) by (auto simp: vb_drain_completions_def)
  note eq = vb_drain_completions_eq [OF out n_def]
  have n: "unat (of_nat n :: size_t) = n"
  proof -
    have "n < 2 ^ 64" using assms(2) by (simp add: n_def)
    then have "take_bit 64 n = n" by (rule take_bit_nat_eq_self)
    then show ?thesis unfolding unsigned_of_nat by simp
  qed
  have d: "drained = of_nat n" and out': "take (unat drained) out' = take n (vb_completions ?f)"
    and f: "f = ?f\<lparr>vb_active_ids := vb_active_ids ?f - set (map bc_operation_id (take n (vb_completions ?f))),
      vb_completions := drop n (vb_completions ?f)\<rparr>"
    using assms(1) eq n by (auto simp: n_def)
  have "vb_inv f" "mset (vb_outstanding ?f) = mset (vb_outstanding f) + mset (map bc_operation_id (take n (vb_completions ?f)))"
    if "vb_inv ?f"
    using vb_step_spec [OF that, of "Drain out"] eq n
    by (auto simp: f n_def [symmetric]) (simp_all add: n_def)
  moreover have "queued_ok f q = queued_ok ?f q" for q by (rule queued_ok_registry) (simp add: f)
  moreover have "vb_stopped f = vb_stopped ?f" by (simp add: f)
  ultimately have "rearranges b (b\<lparr>ur_fallback := f, ur_completion_queue := ur_completion_queue b @ take (unat drained) out'\<rparr>)"
    unfolding out'
    by (intro rearrangesI) (auto simp: ur_inv_def ur_outstanding_def kernel_ids_def completion_ids_def
        use_kernel_submission_def)
  moreover have "drained = 0 \<longleftrightarrow> n = 0" using n d by auto
  moreover have "n = 0 \<longleftrightarrow> vb_completions ?f = []" using out by (auto simp: n_def min_def)
  ultimately show ?thesis by (simp add: f)
qed

lemma observe_fallback_rearranges:
  "rearranges b (snd (observe_fallback_completions b))"
proof -
  define n where "n = min (unat (of_nat (length (vb_completions (ur_fallback b))) :: size_t))
    (completion_batch_limit (ur_options b))"
  show ?thesis
  proof (cases "n = 0")
    case True
    then show ?thesis
      by (auto simp: observe_fallback_completions_def vb_poll_def Let_def n_def)
  next
    case False
    obtain r batch f where dr: "vb_drain_completions (replicate n empty_completion) (ur_fallback b) = (r, batch, f)"
      by (metis prod_cases3)
    then obtain drained where r: "r = Inr drained"
      using False by (auto simp: vb_drain_completions_def Let_def split: prod.splits)
    have "unat (of_nat (length (vb_completions (ur_fallback b))) :: size_t) < 2 ^ 64"
      using unsigned_less [of "of_nat (length (vb_completions (ur_fallback b))) :: size_t"] by simp
    then have "length (replicate n empty_completion) < 2 ^ 64" by (simp add: n_def)
    from drain_fallback_step [OF dr [unfolded r] this] show ?thesis
      using False dr r
      by (simp add: observe_fallback_completions_def vb_poll_def Let_def n_def [symmetric])
  qed
qed

lemma observe_batch_rearranges:
  assumes "observe_completion_batch sys s = Some (r, s')"
  shows "rearranges (fst s) (fst s')"
proof (cases "use_kernel_submission (fst s)")
  case True
  then show ?thesis
    using assms kernel_moves_rearranges [OF observe_kernel_moves [of sys s r s']]
    by (simp add: observe_completion_batch_def)
next
  case False
  then show ?thesis
    using assms observe_fallback_rearranges [of "fst s"]
    by (auto simp: observe_completion_batch_def split: prod.splits)
qed

lemma drain_loop_length:
  assumes "n \<le> length (vb_completions f)" and "index + n \<le> length out"
  shows "length (fst (vb_drain_loop n index out f)) = length out"
  using vb_drain_loop_eq [OF assms] assms by simp

lemma drain_fallback_loop_spec:
  assumes "batch \<noteq> []" and "length batch < 2 ^ 64"
  shows "\<exists>b'. drain_fallback_loop batch b = (Inr (), b') \<and> rearranges b b' \<and>
    vb_completions (ur_fallback b') = [] \<and> vb_pending (ur_fallback b') = vb_pending (ur_fallback b) \<and>
    ur_submission_queue b' = ur_submission_queue b \<and> ur_closed b' = ur_closed b"
  using assms
proof (induction batch b rule: drain_fallback_loop.induct)
  case (1 batch b)
  obtain r batch' f where dr0: "vb_drain_completions batch (ur_fallback b) = (r, batch', f)"
    by (metis prod_cases3)
  moreover have "\<exists>drained. r = Inr drained"
    using dr0 "1.prems"(1) by (auto simp: vb_drain_completions_def Let_def split: prod.splits)
  ultimately obtain drained where dr: "vb_drain_completions batch (ur_fallback b) = (Inr drained, batch', f)"
    by blast
  let ?b = "b\<lparr>ur_fallback := f, ur_completion_queue := ur_completion_queue b @ take (unat drained) batch'\<rparr>"
  note step = drain_fallback_step [OF dr "1.prems"(2)]
  have len: "length batch' = length batch"
    using dr vb_drain_completions_eq [OF "1.prems"(1) refl, of "ur_fallback b"] by auto
  show ?case
  proof (cases "drained = 0")
    case True
    then have "f = ur_fallback b"
      using dr step vb_drain_completions_eq [OF "1.prems"(1) refl, of "ur_fallback b"] by auto
    then show ?thesis
      using True step dr by (subst drain_fallback_loop.simps) auto
  next
    case False
    have "batch' \<noteq> []" "length batch' < 2 ^ 64" using len "1.prems" by auto
    from "1.IH" [OF dr [symmetric] refl refl False this] obtain b' where
      "drain_fallback_loop batch' ?b = (Inr (), b')" "rearranges ?b b'"
      "vb_completions (ur_fallback b') = []" "vb_pending (ur_fallback b') = vb_pending f"
      "ur_submission_queue b' = ur_submission_queue b" "ur_closed b' = ur_closed b" by auto
    then show ?thesis
      using False step dr rearranges_trans by (subst drain_fallback_loop.simps) auto
  qed
qed

lemma close_queue_loop_eq [simp]:
  "close_queue_loop qs cs = cs @ map (\<lambda>q. make_completion (op_id q) closed_completion) qs"
  by (induction qs arbitrary: cs) auto

section \<open>Calls\<close>

datatype 'r uring_op =
    Ur_register size_t
  | Ur_submit "'r backend_operation"
  | Ur_cancel size_t cancellation_reason
  | Ur_close backend_handle_token
  | Ur_poll
  | Ur_drain "backend_completion list"
  | Ur_wake
  | Ur_shutdown
  | Ur_register_buffers "byte_span list"
  | Ur_unregister_buffers
  | Ur_register_files "backend_handle_token list"
  | Ur_unregister_files
  | Ur_kernel "kernel_ring \<Rightarrow> kernel_ring"
  | Ur_test "io_uring_test_kernel \<Rightarrow> io_uring_test_kernel"

text \<open>A call that does not return leaves the state as the caller last saw it.\<close>

definition after_call :: "('v \<times> 's) option \<Rightarrow> 's \<Rightarrow> 's" where
  "after_call outcome s = (case outcome of None \<Rightarrow> s | Some (_, s') \<Rightarrow> s')"

text \<open>
  One call, or one asynchronous step of the kernel (\<open>Ur_kernel\<close>: the ring memory changes at
  will) or of the test that drives the test kernel.
\<close>

fun ur_step :: "'o uring_sys \<Rightarrow> 'r uring_op \<Rightarrow> ('r, 'o) ur_state \<Rightarrow>
    size_t list \<times> size_t list \<times> ('r, 'o) ur_state" where
  "ur_step sys (Ur_register h) (b, k) = ([], [], snd (ur_register_handle h b), k)"
| "ur_step sys (Ur_submit operation) (b, k) =
     (let (r, b') = ur_submit operation b
      in (case r of Inl _ \<Rightarrow> [] | Inr _ \<Rightarrow> [op_id operation], [], b', k))"
| "ur_step sys (Ur_cancel i reason) s = ([], [], after_call (ur_cancel sys i reason s) s)"
| "ur_step sys (Ur_close token) s = ([], [], after_call (ur_close_handle sys token s) s)"
| "ur_step sys Ur_poll s = ([], [], after_call (ur_poll sys s) s)"
| "ur_step sys (Ur_drain out) (b, k) =
     (let (r, out', b') = ur_drain_completions out b
      in ([], case r of Inl _ \<Rightarrow> [] | Inr n \<Rightarrow> map bc_operation_id
                 (take (min (length out) (length (ur_completion_queue b))) out'), b', k))"
| "ur_step sys Ur_wake (b, k) = ([], [], snd (ur_wake b), k)"
| "ur_step sys Ur_shutdown s = ([], [], after_call (ur_shutdown sys s) s)"
| "ur_step sys (Ur_register_buffers buffers) s = ([], [], snd (ur_register_buffers sys buffers s))"
| "ur_step sys Ur_unregister_buffers s = ([], [], snd (ur_unregister_buffers sys s))"
| "ur_step sys (Ur_register_files files) s = ([], [], snd (ur_register_files sys files s))"
| "ur_step sys Ur_unregister_files s = ([], [], snd (ur_unregister_files sys s))"
| "ur_step sys (Ur_kernel g) (b, k) =
     ([], [], b\<lparr>ur_kernel_ring := map_option (\<lambda>ring. ring\<lparr>kr_memory := kr_memory (g ring)\<rparr>)
        (ur_kernel_ring b)\<rparr>, k)"
| "ur_step sys (Ur_test g) (b, k) = ([], [], b\<lparr>ur_test_kernel := map_option g (ur_test_kernel b)\<rparr>, k)"

lemma rearranges_fallback:
  assumes "vb_inv (ur_fallback b) \<Longrightarrow> mset (vb_outstanding f) = mset (vb_outstanding (ur_fallback b)) \<and> vb_inv f"
    and "vb_stopped f = vb_stopped (ur_fallback b)"
    and "\<And>q. q \<in> set (ur_submission_queue b) \<Longrightarrow> vb_is_current_handle (op_handle q) (ur_fallback b) \<Longrightarrow>
      vb_is_current_handle (op_handle q) f"
  shows "rearranges b (b\<lparr>ur_fallback := f\<rparr>)"
  using assms
  by (intro rearrangesI)
    (auto simp: ur_inv_def ur_outstanding_def kernel_ids_def completion_ids_def use_kernel_submission_def
      queued_ok_def)

lemma fallback_frame_rearranges:
  "rearranges b (b\<lparr>ur_fallback := snd (vb_register_handle h (ur_fallback b))\<rparr>)"
  "rearranges b (b\<lparr>ur_fallback := snd (vb_cancel i reason (ur_fallback b))\<rparr>)"
  "rearranges b (b\<lparr>ur_fallback := snd (vb_wake (ur_fallback b))\<rparr>)"
proof -
  have frame: "rearranges b (b\<lparr>ur_fallback := f\<rparr>)"
    if "vb_pending f = vb_pending (ur_fallback b)" "vb_completions f = vb_completions (ur_fallback b)"
      "vb_active_ids f = vb_active_ids (ur_fallback b)" "vb_stopped f = vb_stopped (ur_fallback b)"
      "\<And>t. vb_is_current_handle t (ur_fallback b) \<Longrightarrow> vb_is_current_handle t f" for f
    using that vb_frame [of "ur_fallback b" f]
    by (intro rearranges_fallback) (auto simp: vb_outstanding_def)
  show "rearranges b (b\<lparr>ur_fallback := snd (vb_register_handle h (ur_fallback b))\<rparr>)"
    by (rule frame) (simp_all add: register_keeps_current)
  have "vb_registry (snd (vb_cancel i reason (ur_fallback b))) = vb_registry (ur_fallback b)"
    "vb_registry (snd (vb_wake (ur_fallback b))) = vb_registry (ur_fallback b)"
    by (simp_all add: vb_cancel_def vb_wake_def split: option.split)
  then show "rearranges b (b\<lparr>ur_fallback := snd (vb_cancel i reason (ur_fallback b))\<rparr>)"
    "rearranges b (b\<lparr>ur_fallback := snd (vb_wake (ur_fallback b))\<rparr>)"
    by (auto intro!: frame simp: vb_is_current_handle_def)
qed

lemma erase_first_split:
  assumes "i \<in> set (map op_id qs)"
  obtains xs q ys where "qs = xs @ q # ys" and "op_id q = i" and "erase_first i qs = xs @ ys"
  using assms
proof (induction qs arbitrary: thesis)
  case (Cons q qs)
  show ?case
  proof (cases "op_id q = i")
    case True
    then show ?thesis using Cons.prems(1) [of "[]" q qs] by simp
  next
    case False
    then obtain xs q' ys where "qs = xs @ q' # ys" "op_id q' = i" "erase_first i qs = xs @ ys"
      using Cons.IH Cons.prems(2) by auto
    then show ?thesis using Cons.prems(1) [of "q # xs" q' ys] False by simp
  qed
qed simp

lemma ur_cancel_rearranges:
  assumes "ur_cancel sys i reason s = Some (r, s')"
  shows "rearranges (fst s) (fst s')"
proof -
  obtain b k where s: "s = (b, k)" by fastforce
  show ?thesis
  proof (cases "i \<in> set (map op_id (ur_submission_queue b))")
    case True
    obtain xs q ys where "ur_submission_queue b = xs @ q # ys" "op_id q = i"
      "erase_first i (ur_submission_queue b) = xs @ ys" using erase_first_split [OF True] .
    from move_to_completions [OF this(1), of "make_completion i (cancelled_completion reason)"] this
    show ?thesis using assms True by (auto simp: s ur_cancel_def split: if_splits)
  next
    case False
    have modify: "kernel_moves b (b\<lparr>ur_kernel_operations := ko_modify i g (ur_kernel_operations b)\<rparr>)" for g
      by simp
    show ?thesis
      using assms False modify fallback_frame_rearranges(2) [of b i reason]
      by (auto simp: s ur_cancel_def cancel_in_fallback_def Let_def bind_eq_Some_conv
          dest!: request_cancellation_moves intro: kernel_moves_rearranges
          kernel_moves_rearranges [OF kernel_moves_trans [OF modify]] split: if_splits option.splits prod.splits)
  qed
qed

lemma close_in_fallback_rearranges:
  assumes "\<And>q. q \<in> set (ur_submission_queue b) \<Longrightarrow> op_handle q \<noteq> token"
  shows "rearranges b (fst (snd (close_in_fallback token (b, k))))"
proof -
  let ?f = "snd (vb_close_handle token (ur_fallback b))"
  have "rearranges b (b\<lparr>ur_fallback := ?f\<rparr>)"
  proof (rule rearranges_fallback)
    assume "vb_inv (ur_fallback b)"
    from vb_step_spec [OF this, of "Close_handle token"]
    show "mset (vb_outstanding ?f) = mset (vb_outstanding (ur_fallback b)) \<and> vb_inv ?f" by simp
  next
    show "vb_stopped ?f = vb_stopped (ur_fallback b)"
      by (auto simp: vb_close_handle_def vb_complete_pending_def complete_loop_eq
          split: prod.split sum.split)
  next
    fix q
    assume "q \<in> set (ur_submission_queue b)" "vb_is_current_handle (op_handle q) (ur_fallback b)"
    then show "vb_is_current_handle (op_handle q) ?f" using assms close_keeps_current by blast
  qed
  then show ?thesis by (simp add: close_in_fallback_def case_prod_beta Let_def)
qed

lemma ur_close_rearranges:
  assumes "ur_close_handle sys token s = Some (r, s')"
  shows "rearranges (fst s) (fst s')"
proof -
  obtain b k where s: "s = (b, k)" by fastforce
  show ?thesis
  proof (cases "ur_closed b \<or> \<not> available (ur_capabilities b) \<or> \<not> vb_is_current_handle token (ur_fallback b)")
    case True
    then show ?thesis using assms by (auto simp: s ur_close_handle_def split: if_splits)
  next
    case open_b: False
    obtain r1 b1 k1 where rel: "release_registered_files_for sys token (b, k) = (r1, b1, k1)"
      by (metis prod_cases3)
    then have m1: "kernel_moves b b1" using release_moves(3) [OF rel] by simp
    note r1 = kernel_moves_rearranges [OF m1]
    have closed1: "\<not> ur_closed b1" using m1 open_b by (simp add: kernel_moves_def same_interface_def)
    show ?thesis
    proof (cases "isl r1")
      case True
      then show ?thesis using assms open_b rel r1 by (auto simp: s ur_close_handle_def split: sum.splits)
    next
      case ok: False
      show ?thesis
      proof (cases "use_kernel_submission b1")
        case True
        then have "request_kernel_cancellations_for sys token (b1, k1) \<noteq> None"
          using assms open_b rel ok
          by (cases r1; cases "request_kernel_cancellations_for sys token (b1, k1)")
            (auto simp: s ur_close_handle_def)
        then obtain r2 b2 k2 where can: "request_kernel_cancellations_for sys token (b1, k1) = Some (r2, b2, k2)"
          by auto
        have r2: "rearranges b b2"
          using r1 kernel_moves_rearranges request_cancellations_moves [OF can] rearranges_trans by fastforce
        define b3 where "b3 = complete_queued_submissions_for token closed_completion b2"
        have b3: "rearranges b2 b3" "\<And>q. q \<in> set (ur_submission_queue b3) \<Longrightarrow> op_handle q \<noteq> token"
          using complete_queued_loop_spec [of "[]" "ur_submission_queue b2" b2 token closed_completion]
          by (auto simp: b3_def complete_queued_submissions_for_def)
        note r3 = close_in_fallback_rearranges [of b3 token k2, OF b3(2)]
        have "fst s' = b2 \<or> fst s' = fst (snd (close_in_fallback token (b3, k2)))"
          using assms open_b rel ok True can
          by (auto simp: s ur_close_handle_def b3_def split: sum.splits)
        then show ?thesis using r2 b3(1) r3 rearranges_trans by (metis fst_conv s)
      next
        case False
        have "rearranges b1 (fst s')" if inv: "ur_inv b1"
        proof -
          obtain b2 where fl: "flush_queued_submissions_for token b1 = (Inr (), b2)" "rearranges b1 b2"
            "ur_submission_queue b2 = filter (\<lambda>q. op_handle q \<noteq> token) (ur_submission_queue b1)"
            using flush_queued_loop_spec [of "[]" "ur_submission_queue b1" b1 token] inv closed1
            by (auto simp: flush_queued_submissions_for_def)
          have "fst s' = fst (snd (close_in_fallback token (b2, k1)))"
            using assms open_b rel ok False fl(1)
            by (auto simp: s ur_close_handle_def split: sum.splits)
          then show ?thesis
            using fl(2,3) close_in_fallback_rearranges [of b2 token k1] rearranges_trans by auto
        qed
        then have "rearranges b1 (fst s')" by (auto simp: rearranges_def)
        then show ?thesis using r1 rearranges_trans s by auto
      qed
    qed
  qed
qed

lemma ur_poll_rearranges:
  assumes "ur_poll sys s = Some (r, s')"
  shows "rearranges (fst s) (fst s')"
proof -
  obtain b k where s: "s = (b, k)" by fastforce
  show ?thesis
  proof (cases "ur_closed b \<or> \<not> available (ur_capabilities b)")
    case True
    then show ?thesis
      using assms observe_batch_rearranges [of sys "(b, k)" r s']
      by (auto simp: s ur_poll_def split: if_splits)
  next
    case False
    then obtain r1 s1 where fl: "flush_submission_batch sys (b, k) = Some (r1, s1)"
      using assms by (auto simp: s ur_poll_def bind_eq_Some_conv)
    have r1: "rearranges b (fst s1)" using flush_batch_rearranges [OF fl] False by simp
    show ?thesis
    proof (cases r1)
      case (Inl e)
      then show ?thesis using assms False fl r1 by (auto simp: s ur_poll_def)
    next
      case (Inr n)
      then obtain r2 b2 k2 where ob: "observe_completion_batch sys s1 = Some (r2, b2, k2)"
        using assms False fl by (auto simp: s ur_poll_def bind_eq_Some_conv)
      then have "fst s' = b2" using assms False fl Inr by (auto simp: s ur_poll_def split: sum.splits)
      then show ?thesis using r1 observe_batch_rearranges [OF ob] rearranges_trans s by fastforce
    qed
  qed
qed

lemma finish_shutdown_spec:
  assumes "\<not> vb_stopped (ur_fallback b)"
  shows "\<exists>b'. finish_shutdown (b\<lparr>ur_closed := True\<rparr>) = (Inr (), b') \<and> rearranges b b' \<and>
    ur_closed b' \<and> ur_submission_queue b' = [] \<and> vb_outstanding (ur_fallback b') = []"
proof -
  define f where "f = snd (vb_shutdown (ur_fallback b))"
  have f: "vb_shutdown (ur_fallback b) = (Inr (), f)" by (simp add: f_def vb_shutdown_def)
  let ?c = "b\<lparr>ur_closed := True, ur_fallback := f\<rparr>"
  have pending: "vb_pending f = []" using assms by (simp add: f_def vb_shutdown_def)
  have stopped: "vb_stopped f" by (simp add: f_def vb_shutdown_def)
  have reg: "vb_registry f = vb_registry (ur_fallback b)" by (simp add: f_def vb_shutdown_def)
  have "mset (vb_outstanding f) = mset (vb_outstanding (ur_fallback b)) \<and> vb_inv f"
    if "vb_inv (ur_fallback b)"
    using vb_step_spec [OF that, of Shutdown] by (simp add: f_def)
  then have c: "rearranges b ?c"
    using stopped queued_ok_registry [OF reg]
    by (intro rearrangesI) (auto simp: ur_inv_def ur_outstanding_def kernel_ids_def completion_ids_def
        use_kernel_submission_def)
  obtain b1 where d: "drain_fallback_completions ?c = (Inr (), b1)" "rearranges ?c b1"
    "vb_completions (ur_fallback b1) = []" "vb_pending (ur_fallback b1) = vb_pending f"
    "ur_submission_queue b1 = ur_submission_queue b" "ur_closed b1"
    using drain_fallback_loop_spec [of "replicate 32 empty_completion" ?c]
    by (auto simp: drain_fallback_completions_def)
  let ?d = "b1\<lparr>ur_completion_queue := close_queue_loop (ur_submission_queue b1) (ur_completion_queue b1),
    ur_submission_queue := []\<rparr>"
  have "rearranges b1 ?d"
    by (intro rearrangesI) (auto simp: ur_inv_def ur_outstanding_def kernel_ids_def completion_ids_def
        use_kernel_submission_def comp_def)
  moreover have "finish_shutdown (b\<lparr>ur_closed := True\<rparr>) = (Inr (), ?d)"
    using f d(1) by (simp add: finish_shutdown_def)
  ultimately show ?thesis
    using rearranges_trans [OF rearranges_trans [OF c d(2)]] d pending
    by (intro exI [of _ ?d]) (simp add: vb_outstanding_def)
qed

lemma ur_shutdown_rearranges:
  assumes "ur_shutdown sys s = Some (r, s')"
  shows "rearranges (fst s) (fst s')"
proof -
  obtain b k where s: "s = (b, k)" by fastforce
  show ?thesis
  proof (cases "ur_closed b")
    case True
    then show ?thesis using assms by (simp add: s ur_shutdown_def)
  next
    case open_b: False
    obtain r1 b1 k1 where rel: "release_registered_resources sys (b, k) = (r1, b1, k1)" by (metis prod_cases3)
    then have m1: "kernel_moves b b1" using release_all_moves [OF rel] by simp
    show ?thesis
    proof (cases "isl r1")
      case True
      then show ?thesis
        using assms open_b rel kernel_moves_rearranges [OF m1]
        by (auto simp: s ur_shutdown_def split: sum.splits)
    next
      case ok: False
      define cancel where "cancel = (if use_kernel_submission b1
        then request_kernel_cancellations_for sys \<lparr>native_handle = 0, generation = 0\<rparr> (b1, k1)
        else Some (Inr (), b1, k1))"
      have "cancel \<noteq> None"
        using assms open_b rel ok
        by (cases r1; cases cancel) (auto simp: s ur_shutdown_def cancel_def [symmetric])
      then obtain r2 b2 k2 where can: "cancel = Some (r2, b2, k2)" by auto
      have m2: "kernel_moves b1 b2"
        using can request_cancellations_moves [of sys _ "(b1, k1)" r2 "(b2, k2)"]
        by (auto simp: cancel_def split: if_splits)
      note m = kernel_moves_trans [OF m1 m2]
      have s': "fst s' = b2 \<or> fst s' = snd (finish_shutdown (b2\<lparr>ur_closed := True\<rparr>))"
        using assms open_b rel ok can
        by (auto simp: s ur_shutdown_def cancel_def [symmetric] split: sum.splits prod.splits)
      have "rearranges b2 (fst s')" if "ur_inv b2"
      proof -
        have "\<not> vb_stopped (ur_fallback b2)"
          using that m open_b by (simp add: ur_inv_def kernel_moves_def same_interface_def)
        from finish_shutdown_spec [OF this] s' show ?thesis by auto
      qed
      then have "rearranges b2 (fst s')" by (auto simp: rearranges_def)
      then show ?thesis using kernel_moves_rearranges [OF m] rearranges_trans s by auto
    qed
  qed
qed

section \<open>The ledger\<close>

lemma ur_submit_spec:
  assumes "ur_inv b" and "ur_submit operation b = (r, b')"
  shows "ur_inv b' \<and> mset (ur_outstanding b') =
    mset (ur_outstanding b) + mset (case r of Inl _ \<Rightarrow> [] | Inr _ \<Rightarrow> [op_id operation])"
proof (cases r)
  case (Inl e)
  then show ?thesis using assms by (auto simp: ur_submit_def split: if_splits sum.splits)
next
  case (Inr u)
  then have b': "b' = b\<lparr>ur_active_operation_ids := insert (op_id operation) (ur_active_operation_ids b),
      ur_submission_queue := ur_submission_queue b @ [operation]\<rparr>"
    and ok: "op_id operation \<notin> ur_active_operation_ids b" "op_id operation \<noteq> 0"
      "queued_ok (ur_fallback b) operation"
    using assms(2) by (auto simp: ur_submit_def queued_ok_def split: if_splits sum.splits)
  have m: "mset (ur_outstanding b') = mset (op_id operation # ur_outstanding b)"
    by (simp add: b' ur_outstanding_def kernel_ids_def completion_ids_def)
  have "ur_active_operation_ids b' = set (ur_outstanding b')" "distinct (ur_outstanding b')"
    using assms(1) ok mset_eq_setD [OF m] mset_eq_imp_distinct_iff [OF m] by (simp_all add: ur_inv_def b')
  then have "ur_inv b'"
    using assms(1) ok by (auto simp: ur_inv_def use_kernel_submission_def) (auto simp: b')
  then show ?thesis using Inr m by simp
qed

lemma ur_drain_loop_eq:
  assumes "n \<le> length (ur_completion_queue b)" and "index + n \<le> length out"
  shows "ur_drain_loop n index out b =
    (take index out @ take n (ur_completion_queue b) @ drop (index + n) out,
     b\<lparr>ur_active_operation_ids := ur_active_operation_ids b -
          set (map bc_operation_id (take n (ur_completion_queue b))),
       ur_completion_queue := drop n (ur_completion_queue b)\<rparr>)"
  using assms
proof (induction n arbitrary: index out b)
  case (Suc n)
  obtain c cs where cs: "ur_completion_queue b = c # cs"
    using Suc.prems(1) by (cases "ur_completion_queue b") auto
  have "take (Suc index) (out[index := c]) = take index out @ [c]"
    using Suc.prems by (simp add: take_Suc_conv_app_nth)
  then show ?case
    using Suc cs by (simp add: Let_def Diff_insert2 [symmetric] insert_Diff_if)
qed simp

lemma ur_drain_spec:
  assumes "ur_inv b" and "ur_drain_completions out b = (r, out', b')"
    and "n = min (length out) (length (ur_completion_queue b))"
  shows "ur_inv b' \<and> mset (ur_outstanding b) = mset (ur_outstanding b') +
    mset (case r of Inl _ \<Rightarrow> [] | Inr _ \<Rightarrow> map bc_operation_id (take n out'))"
proof (cases r)
  case (Inl e)
  then show ?thesis using assms by (auto simp: ur_drain_completions_def Let_def split: if_splits prod.splits)
next
  case (Inr m)
  let ?cq = "ur_completion_queue b"
  have out': "take n out' = take n ?cq"
    and b': "b' = b\<lparr>ur_active_operation_ids := ur_active_operation_ids b -
          set (map bc_operation_id (take n ?cq)), ur_completion_queue := drop n ?cq\<rparr>"
    using assms(2,3) Inr ur_drain_loop_eq [of n b 0 out]
    by (auto simp: ur_drain_completions_def Let_def split: if_splits)
  have split: "completion_ids b = map bc_operation_id (take n ?cq) @ map bc_operation_id (drop n ?cq)"
    by (simp add: completion_ids_def map_append [symmetric] del: map_append)
  have "mset (ur_outstanding b) = mset (ur_outstanding b') + mset (map bc_operation_id (take n ?cq))"
    unfolding ur_outstanding_def split by (simp add: b' kernel_ids_def completion_ids_def)
  moreover have "ur_inv b'"
    using assms(1) unfolding ur_inv_def ur_outstanding_def split
    by (auto simp: b' kernel_ids_def completion_ids_def use_kernel_submission_def)
  ultimately show ?thesis using Inr out' by simp
qed

lemma after_call_rearranges:
  assumes "\<And>r s'. outcome = Some (r, s') \<Longrightarrow> rearranges (fst s) (fst s')"
  shows "rearranges (fst s) (fst (after_call outcome s))"
  using assms by (auto simp: after_call_def split: option.split)

lemma calls_rearrange:
  "rearranges (fst s) (fst (after_call (ur_cancel sys i reason s) s))"
  "rearranges (fst s) (fst (after_call (ur_close_handle sys token s) s))"
  "rearranges (fst s) (fst (after_call (ur_poll sys s) s))"
  "rearranges (fst s) (fst (after_call (ur_shutdown sys s) s))"
  by (rule after_call_rearranges, erule ur_cancel_rearranges ur_close_rearranges ur_poll_rearranges
      ur_shutdown_rearranges)+

lemma registrations_rearrange:
  "rearranges (fst s) (fst (snd (ur_register_buffers sys buffers s)))"
  "rearranges (fst s) (fst (snd (ur_register_files sys files s)))"
  "rearranges (fst s) (fst (snd (ur_unregister_buffers sys s)))"
  "rearranges (fst s) (fst (snd (ur_unregister_files sys s)))"
  by (rule kernel_moves_rearranges, rule registration_moves, rule prod.collapse [symmetric])+

lemma environment_rearranges:
  "rearranges b (b\<lparr>ur_kernel_ring := r\<rparr>)" "rearranges b (b\<lparr>ur_test_kernel := tk\<rparr>)"
  by (rule kernel_moves_rearranges, simp)+

lemma ur_step_spec:
  assumes "ur_inv (fst s)" and "ur_step sys op s = (a, d, s')"
  shows "ur_inv (fst s') \<and>
    mset (ur_outstanding (fst s)) + mset a = mset (ur_outstanding (fst s')) + mset d"
proof -
  obtain b k where s: "s = (b, k)" by fastforce
  have quiet: ?thesis if "a = []" "d = []" "rearranges (fst s) (fst s')"
    using that assms(1) by (simp add: rearranges_def)
  show ?thesis
  proof (cases op)
    case (Ur_register h)
    then show ?thesis
      using assms(2) quiet fallback_frame_rearranges(1) [of b h]
      by (auto simp: s ur_register_handle_def case_prod_beta Let_def split: if_splits)
  next
    case (Ur_submit operation)
    then show ?thesis
      using assms ur_submit_spec [of b operation] by (auto simp: s split: prod.splits)
  next
    case (Ur_cancel i reason)
    then show ?thesis
      using assms(2) quiet calls_rearrange(1) [of s sys i reason] by auto
  next
    case (Ur_close token)
    then show ?thesis
      using assms(2) quiet calls_rearrange(2) [of s sys token] by auto
  next
    case Ur_poll
    then show ?thesis
      using assms(2) quiet calls_rearrange(3) [of s sys] by auto
  next
    case (Ur_drain out)
    then show ?thesis
      using assms ur_drain_spec [OF _ _ refl, of b out] by (auto simp: s split: prod.splits)
  next
    case Ur_wake
    then show ?thesis
      using assms(2) quiet fallback_frame_rearranges(3) [of b]
      by (auto simp: s ur_wake_def case_prod_beta Let_def split: if_splits)
  next
    case Ur_shutdown
    then show ?thesis
      using assms(2) quiet calls_rearrange(4) [of s sys] by auto
  next
    case (Ur_register_buffers buffers)
    then show ?thesis using assms(2) quiet registrations_rearrange(1) [of s sys buffers] by auto
  next
    case Ur_unregister_buffers
    then show ?thesis using assms(2) quiet registrations_rearrange(3) [of s sys] by auto
  next
    case (Ur_register_files files)
    then show ?thesis using assms(2) quiet registrations_rearrange(2) [of s sys files] by auto
  next
    case Ur_unregister_files
    then show ?thesis using assms(2) quiet registrations_rearrange(4) [of s sys] by auto
  next
    case (Ur_kernel g)
    then show ?thesis using assms(2) quiet environment_rearranges(1) [of b] by (auto simp: s)
  next
    case (Ur_test g)
    then show ?thesis using assms(2) quiet environment_rearranges(2) [of b] by (auto simp: s)
  qed
qed

interpretation ur: operation_ledger "ur_step sys" "\<lambda>s. ur_outstanding (fst s)" "\<lambda>s. ur_inv (fst s)" for sys
  by unfold_locales (blast dest: ur_step_spec, blast dest: ur_step_spec, simp add: ur_inv_def)

section \<open>Theorems\<close>

text \<open>
  C10. The io_uring backend delivers every accepted operation exactly once, with kernel
  submission, with a test kernel and with the virtual fallback alike: after any sequence of calls
  on a new backend, with the kernel posting arbitrary, duplicate or stale queue entries at any
  time and system calls failing at will, the accepted identifiers are the delivered ones together
  with those still queued, in the kernel, completed or in the fallback, each exactly once; and
  the identifiers that the backend holds active are exactly the outstanding ones.
\<close>

theorem io_uring_exactly_once:
  assumes "b0 = ur_create caps opts \<or> b0 = attach_io_uring_test_kernel tk (ur_create caps opts)"
    and "ledger_run (ur_step sys) ops (b0, k) = (accepted, delivered, b, k')"
  shows "mset accepted = mset delivered + mset (map op_id (ur_submission_queue b)) +
      mset (map fst (ur_kernel_operations b)) + mset (map bc_operation_id (ur_completion_queue b)) +
      mset (vb_outstanding (ur_fallback b)) \<and>
    distinct (map op_id (ur_submission_queue b) @ map fst (ur_kernel_operations b) @
      map bc_operation_id (ur_completion_queue b) @ vb_outstanding (ur_fallback b)) \<and>
    ur_active_operation_ids b = set (ur_outstanding b)"
proof -
  have inv: "ur_inv b0"
    using assms(1) ur_inv_create [of caps opts] environment_rearranges(2) [of "ur_create caps opts" "Some tk"]
    by (auto simp: attach_io_uring_test_kernel_def rearranges_def)
  have "ur_outstanding b0 = []"
    using assms(1)
    by (auto simp: attach_io_uring_test_kernel_def ur_create_def ur_outstanding_def kernel_ids_def
        completion_ids_def vb_init_def vb_outstanding_def)
  then show ?thesis
    using ur.run_exactly_once [of "(b0, k)" sys ops accepted delivered "(b, k')"]
      ur.run_balance [of "(b0, k)" sys ops accepted delivered "(b, k')"] inv assms(2)
    by (simp add: ur_outstanding_def kernel_ids_def completion_ids_def ur_inv_def union_assoc)
qed

text \<open>A read is submitted, handed to the test kernel, completed by it with four bytes and drained.\<close>

definition sample_read :: "unit backend_operation" where
  "sample_read = \<lparr>op_id = 9, op_kind = op_read, op_target = target_socket, op_scheduler = (),
     op_handle = \<lparr>native_handle = 5, generation = 1\<rparr>, op_read_buffer = \<lparr>span_data = 64, span_size = 8\<rparr>,
     op_write_buffer = \<lparr>span_data = 0, span_size = 0\<rparr>,
     op_socket_address = \<lparr>span_data = 0, span_size = 0\<rparr>, op_offset = 0\<rparr>"

definition idle_test_kernel :: io_uring_test_kernel where
  "idle_test_kernel = \<lparr>tk_cancel_submission_failures = 0, tk_completions = [],
     tk_submitted_cancel_operation_ids = [], tk_submissions = [], tk_register_buffers_calls = 0,
     tk_unregister_buffers_calls = 0, tk_register_files_calls = 0, tk_unregister_files_calls = 0,
     tk_register_buffers_provider_failures = 0, tk_register_files_provider_failures = 0\<rparr>"

definition sample_options :: io_uring_backend_options where
  "sample_options = \<lparr>submission_queue_capacity = 4, submit_batch_limit = 2,
     completion_batch_limit = 2, enable_kernel_submission = True\<rparr>"

definition sample_capabilities :: io_uring_capabilities where
  "sample_capabilities = capabilities_from_io_uring_probe_opcodes
     [opcode_read, opcode_write, opcode_accept, opcode_connect, opcode_fsync, opcode_async_cancel]"

lemmas sample_defs = sample_read_def idle_test_kernel_def sample_options_def sample_capabilities_def
  capabilities_from_io_uring_probe_opcodes_def opcode_read_def opcode_write_def opcode_accept_def
  opcode_connect_def opcode_fsync_def opcode_async_cancel_def

theorem io_uring_exactly_once_witness:
  "\<exists>b k. ledger_run (ur_step counting_kernel)
      [Ur_register 5, Ur_submit sample_read, Ur_poll,
       Ur_test (\<lambda>tk. tk\<lparr>tk_completions := [\<lparr>tc_kind = Test_operation, tc_operation_id = 9, tc_result = 4\<rparr>]\<rparr>),
       Ur_poll, Ur_drain [empty_completion]]
      (attach_io_uring_test_kernel idle_test_kernel (ur_create sample_capabilities sample_options), 0) =
      ([9], [9], b, k) \<and>
    ur_active_operation_ids b = {}"
proof -
  let ?b0 = "attach_io_uring_test_kernel idle_test_kernel (ur_create sample_capabilities sample_options)"
  let ?ops = "[Ur_register 5, Ur_submit sample_read, Ur_poll,
       Ur_test (\<lambda>tk. tk\<lparr>tk_completions := [\<lparr>tc_kind = Test_operation, tc_operation_id = 9, tc_result = 4\<rparr>]\<rparr>),
       Ur_poll, Ur_drain [empty_completion]]"
  obtain b k where run: "ledger_run (ur_step counting_kernel) ?ops (?b0, 0) = ([9], [9], b, k)"
    by (simp add: attach_io_uring_test_kernel_def ur_create_def normalize_options_def
        ur_register_handle_def vb_register_handle_def vb_init_def reg_register_def reg_lookup_def Let_def
        to_backend_token_def ur_submit_def kernel_submit_check_def sample_defs
        use_kernel_submission_def encode_operation_user_data_def cancel_user_data_tag_def
        validate_kernel_operation_def native_handle_as_fd_def INT_MAX_def span_size_as_u32_def UINT_MAX_def
        is_valid_backend_operation_shape_def is_socket_backend_operation_def supports_operation_def
        vb_is_current_handle_def reg_is_current_def to_native_token_def
        after_call_def ur_poll_def flush_submission_batch_def submit_to_kernel_def submit_to_test_kernel_def
        observe_completion_batch_def observe_kernel_completions_def observe_test_kernel_completions_def
        retry_missing_kernel_cancellations_def counting_kernel_def ko_emplace_def new_kernel_operation_def
        retry_required_def io_uring_cancel_retry_required_def observe_test_entry_def test_completion_def
        result_class_def io_uring_completion_result_for_def ko_erase_def
        ur_drain_completions_def empty_completion_def make_completion_def)
  have "mset [9] = mset [9] + mset (ur_outstanding b)"
    using io_uring_exactly_once [OF disjI2 [OF refl] run]
    by (simp add: ur_outstanding_def kernel_ids_def completion_ids_def)
  then have "ur_outstanding b = []" by simp
  then show ?thesis using run io_uring_exactly_once [OF disjI2 [OF refl] run] by auto
qed

end
