(* ===== verification/Iocp_Backend.thy ===== *)
theory Iocp_Backend
  imports Backend Os_Calls
begin

text \<open>
  \<^verbatim>\<open>include/voris/io/backends/iocp_backend.hpp\<close> and \<^verbatim>\<open>src/backends_iocp_backend.cpp\<close>, the Windows
  build on 64-bit machines. The completion port and the other system calls are the record
  \<open>iocp_sys\<close> over an opaque system state; a failing call is \<open>Inl code\<close>. An \<^verbatim>\<open>OVERLAPPED\<close> is known by
  its address, which the allocation of an operation's storage returns; the null pointer is 0.
  The hash table of operations is an association list. The list of submitted identifiers is
  a list; the iterator that the code keeps for an identifier designates its entry, so erasing
  through the iterator removes that entry. The stack of free associations has its top first.
\<close>

unbundle bit_operations_syntax

section \<open>Completion keys\<close>

record overlapped_operation_lifetime =
  ol_submitted :: bool
  ol_cancellation_requested :: bool
  ol_completion_observed :: bool

definition storage_retained :: "overlapped_operation_lifetime \<Rightarrow> bool" where
  "storage_retained l \<longleftrightarrow> ol_submitted l \<and> \<not> ol_completion_observed l"

definition iocp_completion_key_low_mask :: uint64 where
  "iocp_completion_key_low_mask = push_bit 32 1 - 1"

definition iocp_wake_completion_key :: uint64 where
  "iocp_wake_completion_key = - 1"

definition iocp_max_completion_batch_limit :: nat where
  "iocp_max_completion_batch_limit = 256"

definition iocp_max_native_packet_capacity :: nat where
  "iocp_max_native_packet_capacity = 1024"

definition iocp_max_association_count :: nat where
  "iocp_max_association_count = 32768"

definition iocp_status_success :: uint64 where "iocp_status_success = 0"
definition iocp_status_operation_aborted :: uint64 where "iocp_status_operation_aborted = 995"
definition iocp_status_cancelled :: uint64 where "iocp_status_cancelled = 0xC0000120"

record iocp_completion_key_token =
  key_association_id :: size_t
  key_generation :: size_t

record iocp_native_completion_packet =
  pk_bytes_transferred :: size_t
  pk_completion_key :: iocp_completion_key_token
  pk_raw_completion_key :: uint64
  pk_handle :: backend_handle_token
  pk_overlapped :: uint64
  pk_internal_status :: uint64

definition is_iocp_wake_completion_key :: "uint64 \<Rightarrow> bool" where
  "is_iocp_wake_completion_key key \<longleftrightarrow> key = iocp_wake_completion_key"

definition pack_iocp_completion_key :: "iocp_completion_key_token \<Rightarrow> uint64 io_result" where
  "pack_iocp_completion_key token =
     (if key_association_id token = 0 \<or> key_generation token = 0 \<or>
         key_association_id token > iocp_completion_key_low_mask \<or>
         key_generation token > iocp_completion_key_low_mask
      then Inl (make_error_diagnostic invalid_state
                  ''IOCP completion key cannot encode association token'')
      else
        (let key = push_bit 32 (key_generation token) OR key_association_id token
         in if is_iocp_wake_completion_key key
            then Inl (make_error_diagnostic invalid_state
                        ''IOCP completion key conflicts with wake sentinel'')
            else Inr key))"

definition unpack_iocp_completion_key :: "uint64 \<Rightarrow> iocp_completion_key_token io_result" where
  "unpack_iocp_completion_key key =
     (if is_iocp_wake_completion_key key
      then Inl (make_error_diagnostic invalid_state ''IOCP wake sentinel is not an association token'')
      else
        (let token = \<lparr>key_association_id = key AND iocp_completion_key_low_mask,
                      key_generation = drop_bit 32 key\<rparr>
         in if key_association_id token = 0 \<or> key_generation token = 0
            then Inl (make_error_diagnostic invalid_state
                        ''IOCP completion key is not an association token'')
            else Inr token))"

section \<open>State\<close>

type_synonym dword = uint32

record iocp_backend_options =
  io_completion_batch_limit :: nat
  io_native_packet_capacity :: nat
  io_association_capacity :: nat

record association_entry =
  as_id :: size_t
  as_token :: backend_handle_token
  as_generation :: size_t
  as_open :: bool
  as_reusable :: bool
  as_bump_generation_on_reuse :: bool

record 'r operation_storage =
  st_operation :: "'r backend_operation"
  st_completion_key :: iocp_completion_key_token
  st_cancellation :: "cancellation_reason option"
  st_cancel_requested :: bool
  st_close_requested :: bool
  st_native_submitted :: bool
  st_overlapped :: uint64

record 'r iocp_backend =
  ic_options :: iocp_backend_options
  ic_fallback :: "'r virtual_backend"
  ic_native_packets :: "iocp_native_completion_packet list"
  ic_completion_queue :: "backend_completion list"
  ic_operations :: "(size_t \<times> 'r operation_storage) list"
  ic_operation_submission_order :: "size_t list"
  ic_operation_id_by_overlapped :: "uint64 \<rightharpoonup> size_t"
  ic_active_operation_ids :: "size_t set"
  ic_associations :: "association_entry list"
  ic_free_association_ids :: "size_t list"
  ic_association_by_native_handle :: "size_t \<rightharpoonup> size_t"
  ic_completion_port :: "uint64 option"
  ic_stopped :: bool
  ic_initialization_error :: "vio_error option"
  ic_cancel_request_count :: size_t

record overlapped_entry =
  oe_completion_key :: uint64
  oe_overlapped :: uint64
  oe_internal :: uint64
  oe_bytes_transferred :: uint32

record 'o iocp_sys =
  is_create_port :: "'o \<Rightarrow> (dword + uint64) \<times> 'o"
  is_associate :: "size_t \<Rightarrow> uint64 \<Rightarrow> uint64 \<Rightarrow> 'o \<Rightarrow> (dword + unit) \<times> 'o"
  is_post :: "uint64 \<Rightarrow> dword \<Rightarrow> uint64 \<Rightarrow> uint64 \<Rightarrow> 'o \<Rightarrow> (dword + unit) \<times> 'o"
  is_get_queued :: "uint64 \<Rightarrow> nat \<Rightarrow> 'o \<Rightarrow> (dword + overlapped_entry list) \<times> 'o"
  is_cancel_io :: "size_t \<Rightarrow> uint64 \<Rightarrow> 'o \<Rightarrow> (dword + unit) \<times> 'o"
  is_close_port :: "uint64 \<Rightarrow> 'o \<Rightarrow> 'o"
  is_new_storage :: "'o \<Rightarrow> uint64 \<times> 'o"

type_synonym ('r, 'o) ic_state = "'r iocp_backend \<times> 'o"

definition WAIT_TIMEOUT :: dword where "WAIT_TIMEOUT = 258"
definition ERROR_NOT_FOUND :: dword where "ERROR_NOT_FOUND = 1168"
definition ERROR_INVALID_HANDLE :: dword where "ERROR_INVALID_HANDLE = 6"

definition iocp_provider_failure :: "dword \<Rightarrow> vio_error" where
  "iocp_provider_failure code = make_error_provider backend_failure (uint code) []"

definition provider_failure_status :: "uint64 \<Rightarrow> vio_error" where
  "provider_failure_status code = make_error_provider backend_failure (sint code) []"

definition iocp_invalid_state :: "string \<Rightarrow> vio_error" where
  "iocp_invalid_state msg = make_error_diagnostic invalid_state msg"

definition iocp_cancelled_completion :: "cancellation_reason \<Rightarrow> void_result" where
  "iocp_cancelled_completion reason = Inl (make_error_diagnostic cancelled
     (''IOCP operation cancelled: '' @ reason_to_string reason))"

definition iocp_status_is_cancelled :: "uint64 \<Rightarrow> bool" where
  "iocp_status_is_cancelled status \<longleftrightarrow>
     status = iocp_status_operation_aborted \<or> status = iocp_status_cancelled"

definition zero_token :: backend_handle_token where
  "zero_token = \<lparr>native_handle = 0, generation = 0\<rparr>"

definition ic_normalize_options :: "iocp_backend_options \<Rightarrow> iocp_backend_options" where
  "ic_normalize_options opts =
     (let batch = min (if io_completion_batch_limit opts = 0 then 1 else io_completion_batch_limit opts)
                    iocp_max_completion_batch_limit
      in \<lparr>io_completion_batch_limit = batch,
          io_native_packet_capacity = min (if io_native_packet_capacity opts = 0 then batch
                                           else io_native_packet_capacity opts)
                                        iocp_max_native_packet_capacity,
          io_association_capacity = min (if io_association_capacity opts = 0 then 1
                                         else io_association_capacity opts)
                                      iocp_max_association_count\<rparr>)"

definition ic_create ::
  "'o iocp_sys \<Rightarrow> iocp_backend_options \<Rightarrow> 'o \<Rightarrow> ('r, 'o) ic_state" where
  "ic_create sys opts k =
     (let b = \<lparr>ic_options = ic_normalize_options opts, ic_fallback = vb_init, ic_native_packets = [],
               ic_completion_queue = [], ic_operations = [], ic_operation_submission_order = [],
               ic_operation_id_by_overlapped = Map.empty, ic_active_operation_ids = {},
               ic_associations = [], ic_free_association_ids = [],
               ic_association_by_native_handle = Map.empty, ic_completion_port = None,
               ic_stopped = False, ic_initialization_error = None, ic_cancel_request_count = 0\<rparr>
      in case is_create_port sys k of
           (Inl code, k1) \<Rightarrow> (b\<lparr>ic_initialization_error := Some (iocp_provider_failure code)\<rparr>, k1)
         | (Inr port, k1) \<Rightarrow> (b\<lparr>ic_completion_port := Some port\<rparr>, k1))"

definition close_owned_port :: "'o iocp_sys \<Rightarrow> ('r, 'o) ic_state \<Rightarrow> ('r, 'o) ic_state" where
  "close_owned_port sys = (\<lambda>(b, k).
     case ic_completion_port b of
       Some port \<Rightarrow> (b\<lparr>ic_completion_port := None\<rparr>, is_close_port sys port k)
     | None \<Rightarrow> (b, k))"

definition ic_initialization_result :: "'r iocp_backend \<Rightarrow> void_result" where
  "ic_initialization_result b =
     (case ic_initialization_error b of Some e \<Rightarrow> Inl e | None \<Rightarrow> Inr ())"

section \<open>Associations\<close>

text \<open>The loop of \<^verbatim>\<open>create_association\<close> over the free identifiers; \<open>None\<close> when none can be reused.\<close>

fun reuse_association ::
  "backend_handle_token \<Rightarrow> size_t list \<Rightarrow> association_entry list \<Rightarrow>
     iocp_completion_key_token io_result option \<times> size_t list \<times> association_entry list" where
  "reuse_association token [] entries = (None, [], entries)"
| "reuse_association token (i # free) entries =
     (if i = 0 \<or> unat i > length entries then reuse_association token free entries
      else
        (let index = unat i - 1; entry = entries ! index
         in if as_open entry \<or> \<not> as_reusable entry then reuse_association token free entries
            else if as_bump_generation_on_reuse entry \<and>
                    as_generation entry \<ge> iocp_completion_key_low_mask
            then reuse_association token free
                   (entries[index := entry\<lparr>as_reusable := False, as_bump_generation_on_reuse := False\<rparr>])
            else
              (let gen = (if as_bump_generation_on_reuse entry then as_generation entry + 1
                          else if as_generation entry = 0 then 1 else as_generation entry);
                   key = \<lparr>key_association_id = i, key_generation = gen\<rparr>;
                   entry1 = entry\<lparr>as_generation := gen, as_reusable := False,
                                  as_bump_generation_on_reuse := False\<rparr>
               in case pack_iocp_completion_key key of
                    Inl e \<Rightarrow> (Some (Inl e), free, entries[index := entry1])
                  | Inr _ \<Rightarrow> (Some (Inr key), free,
                              entries[index := entry1\<lparr>as_token := token, as_open := True\<rparr>]))))"

definition create_association ::
  "backend_handle_token \<Rightarrow> 'r iocp_backend \<Rightarrow>
     iocp_completion_key_token io_result \<times> 'r iocp_backend" where
  "create_association token b =
     (case reuse_association token (ic_free_association_ids b) (ic_associations b) of
        (Some (Inl e), free, entries) \<Rightarrow>
          (Inl e, b\<lparr>ic_free_association_ids := free, ic_associations := entries\<rparr>)
      | (Some (Inr key), free, entries) \<Rightarrow>
          (Inr key, b\<lparr>ic_free_association_ids := free, ic_associations := entries,
                      ic_association_by_native_handle := (ic_association_by_native_handle b)
                        (native_handle token \<mapsto> key_association_id key)\<rparr>)
      | (None, free, entries) \<Rightarrow>
          (let b1 = b\<lparr>ic_free_association_ids := free, ic_associations := entries\<rparr>
           in if length entries \<ge> io_association_capacity (ic_options b)
              then (Inl (make_error_diagnostic resource_exhausted ''IOCP association table is full''), b1)
              else
                (let key = \<lparr>key_association_id = of_nat (length entries) + 1, key_generation = 1\<rparr>
                 in case pack_iocp_completion_key key of
                      Inl e \<Rightarrow> (Inl e, b1)
                    | Inr _ \<Rightarrow>
                        (Inr key,
                         b1\<lparr>ic_associations := entries @
                              [\<lparr>as_id = key_association_id key, as_token = token,
                                as_generation = key_generation key, as_open = True,
                                as_reusable = False, as_bump_generation_on_reuse = False\<rparr>],
                            ic_association_by_native_handle := (ic_association_by_native_handle b)
                              (native_handle token \<mapsto> key_association_id key)\<rparr>))))"

definition rollback_association ::
  "iocp_completion_key_token \<Rightarrow> 'r iocp_backend \<Rightarrow> 'r iocp_backend" where
  "rollback_association key b =
     (let i = key_association_id key
      in if i = 0 \<or> unat i > length (ic_associations b) then b
         else
           (let index = unat i - 1; entry = ic_associations b ! index;
                h = native_handle (as_token entry);
                entry1 = entry\<lparr>as_open := False, as_token := zero_token,
                               as_bump_generation_on_reuse := False\<rparr>
            in if as_generation entry \<noteq> key_generation key then b
               else b\<lparr>ic_association_by_native_handle :=
                        (if ic_association_by_native_handle b h = Some i
                         then (ic_association_by_native_handle b)(h := None)
                         else ic_association_by_native_handle b),
                      ic_associations := (ic_associations b)[index := entry1\<lparr>as_reusable := True\<rparr>],
                      ic_free_association_ids :=
                        (if as_reusable entry then ic_free_association_ids b
                         else i # ic_free_association_ids b)\<rparr>))"

definition close_association :: "backend_handle_token \<Rightarrow> 'r iocp_backend \<Rightarrow> 'r iocp_backend" where
  "close_association token b =
     (case ic_association_by_native_handle b (native_handle token) of
        None \<Rightarrow> b
      | Some i \<Rightarrow>
          if i = 0 \<or> unat i > length (ic_associations b)
          then b\<lparr>ic_association_by_native_handle :=
                   (ic_association_by_native_handle b)(native_handle token := None)\<rparr>
          else
            (let index = unat i - 1; entry = ic_associations b ! index;
                 entry1 = entry\<lparr>as_open := False, as_token := zero_token\<rparr>
             in if as_token entry \<noteq> token then b
                else
                  (let b1 = b\<lparr>ic_association_by_native_handle :=
                                (ic_association_by_native_handle b)(native_handle token := None)\<rparr>
                   in if as_generation entry < iocp_completion_key_low_mask
                      then b1\<lparr>ic_associations := (ic_associations b)[index :=
                                entry1\<lparr>as_bump_generation_on_reuse := True, as_reusable := True\<rparr>],
                              ic_free_association_ids :=
                                (if as_reusable entry then ic_free_association_ids b
                                 else i # ic_free_association_ids b)\<rparr>
                      else b1\<lparr>ic_associations := (ic_associations b)[index :=
                                entry1\<lparr>as_reusable := False, as_bump_generation_on_reuse := False\<rparr>]\<rparr>)))"

definition completion_key_for ::
  "backend_handle_token \<Rightarrow> 'r iocp_backend \<Rightarrow> iocp_completion_key_token io_result" where
  "completion_key_for token b =
     (case ic_association_by_native_handle b (native_handle token) of
        None \<Rightarrow> Inl (iocp_invalid_state ''IOCP handle token has no association'')
      | Some i \<Rightarrow>
          if i = 0 \<or> unat i > length (ic_associations b)
          then Inl (iocp_invalid_state ''IOCP association id is not current'')
          else
            (let entry = ic_associations b ! (unat i - 1)
             in if \<not> as_open entry \<or> as_token entry \<noteq> token \<or>
                   \<not> vb_is_current_handle token (ic_fallback b)
                then Inl (iocp_invalid_state ''IOCP handle token is not current'')
                else Inr \<lparr>key_association_id = i, key_generation = as_generation entry\<rparr>))"

definition current_handle_for ::
  "iocp_completion_key_token \<Rightarrow> 'r iocp_backend \<Rightarrow> backend_handle_token option" where
  "current_handle_for key b =
     (let i = key_association_id key
      in if i = 0 \<or> unat i > length (ic_associations b) then None
         else
           (let entry = ic_associations b ! (unat i - 1)
            in if \<not> as_open entry \<or> as_generation entry \<noteq> key_generation key \<or>
                  \<not> vb_is_current_handle (as_token entry) (ic_fallback b)
               then None else Some (as_token entry)))"

end
