(* ===== verification/Iocp_Operations.thy ===== *)
theory Iocp_Operations
  imports Iocp_Backend
begin

text \<open>
  The operations of \<^verbatim>\<open>iocp_backend\<close>: storage of submitted operations, cancellation, observation
  of completion packets, and the backend interface, together with the helpers of the
  namespace \<^verbatim>\<open>detail\<close> that tests and adapters call.
\<close>

section \<open>Storage\<close>

definition storage_erase :: "size_t \<Rightarrow> (size_t \<times> 'v) list \<Rightarrow> (size_t \<times> 'v) list" where
  "storage_erase i table = filter (\<lambda>entry. fst entry \<noteq> i) table"

definition storage_modify :: "size_t \<Rightarrow> ('v \<Rightarrow> 'v) \<Rightarrow> (size_t \<times> 'v) list \<Rightarrow> (size_t \<times> 'v) list" where
  "storage_modify i f table = map (\<lambda>(j, v). if j = i then (j, f v) else (j, v)) table"

definition maybe_close_stopped_port :: "'o iocp_sys \<Rightarrow> ('r, 'o) ic_state \<Rightarrow> ('r, 'o) ic_state" where
  "maybe_close_stopped_port sys = (\<lambda>(b, k).
     if ic_stopped b \<and> ic_operations b = []
     then close_owned_port sys
            (b\<lparr>ic_native_packets := [], ic_association_by_native_handle := Map.empty,
               ic_associations := [], ic_free_association_ids := []\<rparr>, k)
     else (b, k))"

definition erase_operation_storage ::
  "'o iocp_sys \<Rightarrow> size_t \<Rightarrow> ('r, 'o) ic_state \<Rightarrow> ('r, 'o) ic_state" where
  "erase_operation_storage sys i = (\<lambda>(b, k).
     case map_of (ic_operations b) i of
       None \<Rightarrow> (b, k)
     | Some storage \<Rightarrow>
         maybe_close_stopped_port sys
           (b\<lparr>ic_operation_id_by_overlapped :=
                (ic_operation_id_by_overlapped b)(st_overlapped storage := None),
              ic_operations := storage_erase i (ic_operations b),
              ic_operation_submission_order := remove1 i (ic_operation_submission_order b)\<rparr>, k))"

definition complete_operation_storage ::
  "'o iocp_sys \<Rightarrow> 'r operation_storage \<Rightarrow> void_result \<Rightarrow> ('r, 'o) ic_state \<Rightarrow> ('r, 'o) ic_state" where
  "complete_operation_storage sys storage res = (\<lambda>(b, k).
     let i = op_id (st_operation storage)
     in erase_operation_storage sys i
          (b\<lparr>ic_completion_queue := ic_completion_queue b @ [make_completion i res]\<rparr>, k))"

text \<open>The completion that a packet produces for an operation.\<close>

definition native_completion ::
  "'r operation_storage \<Rightarrow> size_t \<Rightarrow> uint64 \<Rightarrow> 'r iocp_backend \<Rightarrow> backend_completion" where
  "native_completion storage bytes_transferred status b =
     (let i = op_id (st_operation storage);
          completion = make_completion i (Inr ());
          handle_current = vb_is_current_handle (op_handle (st_operation storage)) (ic_fallback b)
      in if iocp_status_is_cancelled status \<and> st_cancellation storage \<noteq> None
         then completion\<lparr>bc_result := iocp_cancelled_completion (the (st_cancellation storage))\<rparr>
         else if st_close_requested storage \<or> ic_stopped b \<or> \<not> handle_current
         then completion\<lparr>bc_result := closed_completion\<rparr>
         else if iocp_status_is_cancelled status
         then completion\<lparr>bc_result := iocp_cancelled_completion
                (case st_cancellation storage of Some reason \<Rightarrow> reason | None \<Rightarrow> backend_abort)\<rparr>
         else if status \<noteq> iocp_status_success
         then completion\<lparr>bc_result := Inl (provider_failure_status status)\<rparr>
         else
           (case op_kind (st_operation storage) of
              op_read \<Rightarrow> completion\<lparr>bc_bytes_transferred := bytes_transferred\<rparr>
            | op_write \<Rightarrow> completion\<lparr>bc_bytes_transferred := bytes_transferred\<rparr>
            | op_accept \<Rightarrow> completion\<lparr>bc_accepted_native_handle := bytes_transferred\<rparr>
            | op_connect \<Rightarrow> completion
            | op_fsync \<Rightarrow> completion
            | op_close \<Rightarrow> completion\<lparr>bc_result := Inl (iocp_invalid_state
                            ''unexpected non-I/O IOCP completion'')\<rparr>
            | op_wake \<Rightarrow> completion\<lparr>bc_result := Inl (iocp_invalid_state
                           ''unexpected non-I/O IOCP completion'')\<rparr>))"

definition complete_native_operation ::
  "'o iocp_sys \<Rightarrow> 'r operation_storage \<Rightarrow> size_t \<Rightarrow> uint64 \<Rightarrow> ('r, 'o) ic_state \<Rightarrow> ('r, 'o) ic_state"
  where
  "complete_native_operation sys storage bytes_transferred status = (\<lambda>(b, k).
     erase_operation_storage sys (op_id (st_operation storage))
       (b\<lparr>ic_completion_queue := ic_completion_queue b @
            [native_completion storage bytes_transferred status b]\<rparr>, k))"

definition observe_native_packet ::
  "'o iocp_sys \<Rightarrow> iocp_native_completion_packet \<Rightarrow> ('r, 'o) ic_state \<Rightarrow> ('r, 'o) ic_state" where
  "observe_native_packet sys packet = (\<lambda>(b, k).
     if pk_overlapped packet = 0 then (b, k)
     else
       (case ic_operation_id_by_overlapped b (pk_overlapped packet) of
          None \<Rightarrow> (b, k)
        | Some i \<Rightarrow>
            (case map_of (ic_operations b) i of
               None \<Rightarrow> (b\<lparr>ic_operation_id_by_overlapped :=
                            (ic_operation_id_by_overlapped b)(pk_overlapped packet := None)\<rparr>, k)
             | Some storage \<Rightarrow>
                 if key_association_id (st_completion_key storage) \<noteq>
                      key_association_id (pk_completion_key packet) \<or>
                    key_generation (st_completion_key storage) \<noteq>
                      key_generation (pk_completion_key packet)
                 then (b, k)
                 else complete_native_operation sys storage (pk_bytes_transferred packet)
                        (pk_internal_status packet) (b, k))))"

section \<open>Cancellation and closing\<close>

definition request_cancel_for ::
  "'o iocp_sys \<Rightarrow> size_t \<Rightarrow> 'r operation_storage \<Rightarrow> ('r, 'o) ic_state \<Rightarrow>
     void_result \<times> ('r, 'o) ic_state" where
  "request_cancel_for sys i storage = (\<lambda>(b, k).
     if st_cancel_requested storage then (Inr (), b, k)
     else if \<not> st_native_submitted storage then (Inr (), b, k)
     else
       (case is_cancel_io sys (native_handle (op_handle (st_operation storage)))
               (st_overlapped storage) k of
          (outcome, k1) \<Rightarrow>
            if isl outcome \<and> projl outcome \<noteq> ERROR_NOT_FOUND \<and> projl outcome \<noteq> ERROR_INVALID_HANDLE
            then (Inl (iocp_provider_failure (projl outcome)), b, k1)
            else (Inr (), b\<lparr>ic_operations := storage_modify i
                               (\<lambda>st. st\<lparr>st_cancel_requested := True\<rparr>) (ic_operations b),
                            ic_cancel_request_count := ic_cancel_request_count b + 1\<rparr>, k1)))"

text \<open>The second loop of \<^verbatim>\<open>mark_close_requested\<close> and \<^verbatim>\<open>mark_shutdown_requested\<close>.\<close>

fun close_each ::
  "'o iocp_sys \<Rightarrow> size_t list \<Rightarrow> vio_error option \<Rightarrow> ('r, 'o) ic_state \<Rightarrow>
     vio_error option \<times> ('r, 'o) ic_state" where
  "close_each sys [] first_error s = (first_error, s)"
| "close_each sys (i # ids) first_error (b, k) =
     (case map_of (ic_operations b) i of
        None \<Rightarrow> close_each sys ids first_error (b, k)
      | Some storage0 \<Rightarrow>
          (let storage = storage0\<lparr>st_close_requested := True\<rparr>;
               b1 = b\<lparr>ic_operations := storage_modify i
                        (\<lambda>st. st\<lparr>st_close_requested := True\<rparr>) (ic_operations b)\<rparr>
           in if \<not> st_native_submitted storage
              then close_each sys ids first_error
                     (complete_operation_storage sys storage closed_completion (b1, k))
              else (case request_cancel_for sys i storage (b1, k) of
                      (r, s1) \<Rightarrow> close_each sys ids
                        (case r of Inl e \<Rightarrow> if first_error = None then Some e else first_error
                         | Inr _ \<Rightarrow> first_error) s1)))"

definition first_error_result :: "vio_error option \<Rightarrow> void_result" where
  "first_error_result first_error = (case first_error of Some e \<Rightarrow> Inl e | None \<Rightarrow> Inr ())"

definition mark_close_requested ::
  "'o iocp_sys \<Rightarrow> backend_handle_token \<Rightarrow> ('r, 'o) ic_state \<Rightarrow> void_result \<times> ('r, 'o) ic_state" where
  "mark_close_requested sys token = (\<lambda>(b, k).
     let ids = filter (\<lambda>i. case map_of (ic_operations b) i of
                             None \<Rightarrow> False
                           | Some storage \<Rightarrow> op_handle (st_operation storage) = token)
                 (ic_operation_submission_order b);
         (first_error, s1) = close_each sys ids None (b, k)
     in (first_error_result first_error, s1))"

definition mark_shutdown_requested ::
  "'o iocp_sys \<Rightarrow> ('r, 'o) ic_state \<Rightarrow> void_result \<times> ('r, 'o) ic_state" where
  "mark_shutdown_requested sys = (\<lambda>(b, k).
     let ids = filter (\<lambda>i. map_of (ic_operations b) i \<noteq> None) (ic_operation_submission_order b);
         (first_error, s1) = close_each sys ids None (b, k)
     in (first_error_result first_error, s1))"

section \<open>Observation\<close>

text \<open>The loop over the queued packets; \<open>room\<close> counts down from the batch limit.\<close>

fun observe_queued_loop ::
  "'o iocp_sys \<Rightarrow> nat \<Rightarrow> nat \<Rightarrow> ('r, 'o) ic_state \<Rightarrow> nat \<times> ('r, 'o) ic_state" where
  "observe_queued_loop sys 0 observed s = (observed, s)"
| "observe_queued_loop sys (Suc room) observed (b, k) =
     (case ic_native_packets b of
        [] \<Rightarrow> (observed, b, k)
      | packet # packets \<Rightarrow>
          observe_queued_loop sys room (Suc observed)
            (observe_native_packet sys packet (b\<lparr>ic_native_packets := packets\<rparr>, k)))"

definition observe_queued_native_packets ::
  "'o iocp_sys \<Rightarrow> ('r, 'o) ic_state \<Rightarrow> nat \<times> ('r, 'o) ic_state" where
  "observe_queued_native_packets sys s =
     observe_queued_loop sys (io_completion_batch_limit (ic_options (fst s))) 0 s"

text \<open>One entry that the completion port returned.\<close>

definition observe_entry ::
  "'o iocp_sys \<Rightarrow> overlapped_entry \<Rightarrow> ('r, 'o) ic_state \<Rightarrow> ('r, 'o) ic_state" where
  "observe_entry sys entry s =
     (if is_iocp_wake_completion_key (oe_completion_key entry) \<and> oe_overlapped entry = 0 then s
      else (case unpack_iocp_completion_key (oe_completion_key entry) of
        Inl _ \<Rightarrow> s
      | Inr key \<Rightarrow>
          observe_native_packet sys
            \<lparr>pk_bytes_transferred = ucast (oe_bytes_transferred entry), pk_completion_key = key,
             pk_raw_completion_key = oe_completion_key entry,
             pk_handle = (case current_handle_for key (fst s) of Some t \<Rightarrow> t | None \<Rightarrow> zero_token),
             pk_overlapped = oe_overlapped entry, pk_internal_status = oe_internal entry\<rparr> s))"

definition observe_native_completions ::
  "'o iocp_sys \<Rightarrow> ('r, 'o) ic_state \<Rightarrow> size_t io_result \<times> ('r, 'o) ic_state" where
  "observe_native_completions sys = (\<lambda>(b, k).
     if ic_completion_port b = None then (Inl (make_error closed None []), b, k)
     else
       (case observe_queued_native_packets sys (b, k) of
          (queued_observed, b1, k1) \<Rightarrow>
            if queued_observed \<ge> io_completion_batch_limit (ic_options b1)
            then (Inr (of_nat queued_observed), b1, k1)
            else
              (case ic_completion_port b1 of
                 None \<Rightarrow> (Inr (of_nat queued_observed), b1, k1)
               | Some port \<Rightarrow>
                   (case is_get_queued sys port
                           (io_completion_batch_limit (ic_options b1) - queued_observed) k1 of
                      (Inl code, k2) \<Rightarrow>
                        (if code = WAIT_TIMEOUT then Inr (of_nat queued_observed)
                         else Inl (iocp_provider_failure code), b1, k2)
                    | (Inr entries, k2) \<Rightarrow>
                        (Inr (of_nat queued_observed + of_nat (length entries)),
                         fold (observe_entry sys) entries (b1, k2))))))"

section \<open>Helpers of the namespace detail\<close>

definition queue_iocp_test_packet ::
  "iocp_completion_key_token \<Rightarrow> size_t \<Rightarrow> uint64 \<Rightarrow> uint64 \<Rightarrow> 'r iocp_backend \<Rightarrow>
     void_result \<times> 'r iocp_backend" where
  "queue_iocp_test_packet key bytes_transferred overlapped status b =
     (if length (ic_native_packets b) \<ge> io_native_packet_capacity (ic_options b)
      then (Inl (make_error_diagnostic resource_exhausted ''IOCP native packet queue is full''), b)
      else (case pack_iocp_completion_key key of
        Inl e \<Rightarrow> (Inl e, b)
      | Inr raw_key \<Rightarrow>
          (Inr (), b\<lparr>ic_native_packets := ic_native_packets b @
             [\<lparr>pk_bytes_transferred = bytes_transferred, pk_completion_key = key,
               pk_raw_completion_key = raw_key,
               pk_handle = (case current_handle_for key b of Some t \<Rightarrow> t | None \<Rightarrow> zero_token),
               pk_overlapped = overlapped, pk_internal_status = status\<rparr>]\<rparr>)))"

definition iocp_overlapped_for :: "size_t \<Rightarrow> 'r iocp_backend \<Rightarrow> uint64 io_result" where
  "iocp_overlapped_for i b =
     (case map_of (ic_operations b) i of
        None \<Rightarrow> Inl (iocp_invalid_state ''IOCP operation id has no active storage'')
      | Some storage \<Rightarrow> Inr (st_overlapped storage))"

definition mark_iocp_operation_native_submitted ::
  "size_t \<Rightarrow> 'r iocp_backend \<Rightarrow> void_result \<times> 'r iocp_backend" where
  "mark_iocp_operation_native_submitted i b =
     (case map_of (ic_operations b) i of
        None \<Rightarrow> (Inl (iocp_invalid_state ''IOCP operation id has no active storage''), b)
      | Some _ \<Rightarrow> (Inr (), b\<lparr>ic_operations := storage_modify i
                     (\<lambda>st. st\<lparr>st_native_submitted := True\<rparr>) (ic_operations b)\<rparr>))"

text \<open>The packets that fill the output and those that stay.\<close>

definition drain_iocp_native_packets ::
  "nat \<Rightarrow> 'r iocp_backend \<Rightarrow> iocp_native_completion_packet list io_result \<times> 'r iocp_backend" where
  "drain_iocp_native_packets room b =
     (if room = 0
      then (Inl (iocp_invalid_state ''native packet drain output must not be empty''), b)
      else (let n = min room (length (ic_native_packets b))
            in (Inr (take n (ic_native_packets b)),
                b\<lparr>ic_native_packets := drop n (ic_native_packets b)\<rparr>)))"

definition iocp_operation_storage_count :: "'r iocp_backend \<Rightarrow> nat" where
  "iocp_operation_storage_count b = length (ic_operations b)"

definition iocp_active_operation_id_count :: "'r iocp_backend \<Rightarrow> nat" where
  "iocp_active_operation_id_count b = card (ic_active_operation_ids b)"

definition iocp_cancel_request_count :: "'r iocp_backend \<Rightarrow> size_t" where
  "iocp_cancel_request_count b = ic_cancel_request_count b"

definition iocp_native_packet_count :: "'r iocp_backend \<Rightarrow> nat" where
  "iocp_native_packet_count b = length (ic_native_packets b)"

definition post_iocp_test_packet ::
  "'o iocp_sys \<Rightarrow> iocp_completion_key_token \<Rightarrow> size_t \<Rightarrow> uint64 \<Rightarrow> ('r, 'o) ic_state \<Rightarrow>
     void_result \<times> ('r, 'o) ic_state" where
  "post_iocp_test_packet sys key bytes_transferred overlapped = (\<lambda>(b, k).
     if ic_stopped b then (closed_error, b, k)
     else (case ic_initialization_result b of
       Inl e \<Rightarrow> (Inl e, b, k)
     | Inr _ \<Rightarrow>
         (case pack_iocp_completion_key key of
            Inl e \<Rightarrow> (Inl e, b, k)
          | Inr raw_key \<Rightarrow>
              (case is_post sys (the (ic_completion_port b)) (ucast bytes_transferred) raw_key
                      overlapped k of
                 (Inl code, k1) \<Rightarrow> (Inl (iocp_provider_failure code), b, k1)
               | (Inr _, k1) \<Rightarrow> (Inr (), b, k1)))))"

section \<open>The backend interface\<close>

definition ic_register_handle ::
  "'o iocp_sys \<Rightarrow> size_t \<Rightarrow> ('r, 'o) ic_state \<Rightarrow>
     backend_handle_token io_result \<times> ('r, 'o) ic_state" where
  "ic_register_handle sys h = (\<lambda>(b, k).
     if ic_stopped b then (Inl (make_error closed None []), b, k)
     else (case ic_initialization_result b of
       Inl e \<Rightarrow> (Inl e, b, k)
     | Inr _ \<Rightarrow>
         (case vb_register_handle h (ic_fallback b) of
            (Inl e, f) \<Rightarrow> (Inl e, b\<lparr>ic_fallback := f\<rparr>, k)
          | (Inr token, f) \<Rightarrow>
              (let undo = (\<lambda>b. b\<lparr>ic_fallback := snd (vb_close_handle token (ic_fallback b))\<rparr>)
               in case create_association token (b\<lparr>ic_fallback := f\<rparr>) of
                    (Inl e, b1) \<Rightarrow> (Inl e, undo b1, k)
                  | (Inr key, b1) \<Rightarrow>
                      (case pack_iocp_completion_key key of
                         Inl e \<Rightarrow> (Inl e, undo (rollback_association key b1), k)
                       | Inr raw_key \<Rightarrow>
                           (case is_associate sys h (the (ic_completion_port b1)) raw_key k of
                              (Inl code, k1) \<Rightarrow> (Inl (iocp_provider_failure code),
                                                 undo (rollback_association key b1), k1)
                            | (Inr _, k1) \<Rightarrow> (Inr token, b1, k1)))))))"

definition validate_operation_for_submit :: "'r backend_operation \<Rightarrow> 'r iocp_backend \<Rightarrow> void_result" where
  "validate_operation_for_submit operation b =
     (if op_id operation = 0 then Inl (iocp_invalid_state ''operation id must be non-zero'')
      else if \<not> is_valid_backend_operation_shape operation
      then Inl (iocp_invalid_state ''IOCP submit received an invalid operation target'')
      else if \<not> vb_is_current_handle (op_handle operation) (ic_fallback b)
      then Inl (iocp_invalid_state ''operation handle token is not current'')
      else if op_id operation \<in> ic_active_operation_ids b
      then Inl (iocp_invalid_state ''operation id is already active'')
      else Inr ())"

definition ic_submit ::
  "'o iocp_sys \<Rightarrow> 'r backend_operation \<Rightarrow> ('r, 'o) ic_state \<Rightarrow> void_result \<times> ('r, 'o) ic_state" where
  "ic_submit sys operation = (\<lambda>(b, k).
     if ic_stopped b then (closed_error, b, k)
     else (case ic_initialization_result b of
       Inl e \<Rightarrow> (Inl e, b, k)
     | Inr _ \<Rightarrow>
         (case validate_operation_for_submit operation b of
            Inl e \<Rightarrow> (Inl e, b, k)
          | Inr _ \<Rightarrow>
              (case completion_key_for (op_handle operation) b of
                 Inl e \<Rightarrow> (Inl e, b, k)
               | Inr key \<Rightarrow>
                   (case is_new_storage sys k of
                      (overlapped, k1) \<Rightarrow>
                        (let i = op_id operation;
                             storage = \<lparr>st_operation = operation, st_completion_key = key,
                                        st_cancellation = None, st_cancel_requested = False,
                                        st_close_requested = False, st_native_submitted = False,
                                        st_overlapped = overlapped\<rparr>
                         in (Inr (),
                             b\<lparr>ic_active_operation_ids := insert i (ic_active_operation_ids b),
                               ic_operation_id_by_overlapped :=
                                 (ic_operation_id_by_overlapped b)(overlapped \<mapsto> i),
                               ic_operations := (if i \<in> set (map fst (ic_operations b))
                                 then ic_operations b else ic_operations b @ [(i, storage)]),
                               ic_operation_submission_order :=
                                 ic_operation_submission_order b @ [i]\<rparr>, k1)))))))"

definition ic_cancel ::
  "'o iocp_sys \<Rightarrow> size_t \<Rightarrow> cancellation_reason \<Rightarrow> ('r, 'o) ic_state \<Rightarrow>
     void_result \<times> ('r, 'o) ic_state" where
  "ic_cancel sys i reason = (\<lambda>(b, k).
     if ic_stopped b then (closed_error, b, k)
     else (case ic_initialization_result b of
       Inl e \<Rightarrow> (Inl e, b, k)
     | Inr _ \<Rightarrow>
         if i = 0 then (Inl (iocp_invalid_state ''operation id must be non-zero''), b, k)
         else (case map_of (ic_operations b) i of
           None \<Rightarrow> (Inl (iocp_invalid_state ''operation id is not active''), b, k)
         | Some storage0 \<Rightarrow>
             if st_close_requested storage0 then (closed_error, b, k)
             else
               (let record_reason = (\<lambda>st. if st_cancellation st = None
                                           then st\<lparr>st_cancellation := Some reason\<rparr> else st);
                    storage = record_reason storage0;
                    b1 = b\<lparr>ic_operations := storage_modify i record_reason (ic_operations b)\<rparr>
                in if \<not> st_native_submitted storage
                   then (Inr (), complete_operation_storage sys storage
                           (iocp_cancelled_completion (the (st_cancellation storage))) (b1, k))
                   else request_cancel_for sys i storage (b1, k)))))"

definition ic_close_handle ::
  "'o iocp_sys \<Rightarrow> backend_handle_token \<Rightarrow> ('r, 'o) ic_state \<Rightarrow> void_result \<times> ('r, 'o) ic_state" where
  "ic_close_handle sys token = (\<lambda>(b, k).
     if ic_stopped b then (closed_error, b, k)
     else (case ic_initialization_result b of
       Inl e \<Rightarrow> (Inl e, b, k)
     | Inr _ \<Rightarrow>
         if \<not> vb_is_current_handle token (ic_fallback b)
         then (Inl (iocp_invalid_state ''backend handle token is not current''), b, k)
         else
           (case mark_close_requested sys token (b, k) of
              (marked, b1, k1) \<Rightarrow>
                (case vb_close_handle token (ic_fallback b1) of
                   (Inl e, f) \<Rightarrow> (Inl e, b1\<lparr>ic_fallback := f\<rparr>, k1)
                 | (Inr _, f) \<Rightarrow> (marked, close_association token (b1\<lparr>ic_fallback := f\<rparr>), k1)))))"

definition ic_poll :: "'o iocp_sys \<Rightarrow> ('r, 'o) ic_state \<Rightarrow> size_t io_result \<times> ('r, 'o) ic_state" where
  "ic_poll sys = (\<lambda>(b, k).
     if ic_completion_queue b \<noteq> [] then (Inr (of_nat (length (ic_completion_queue b))), b, k)
     else if ic_stopped b \<and> ic_operations b = [] \<and> ic_completion_port b = None
     then (Inl (make_error closed None []), b, k)
     else (case ic_initialization_error b of
       Some e \<Rightarrow> (Inl e, b, k)
     | None \<Rightarrow> observe_native_completions sys (b, k)))"

fun ic_drain_loop ::
  "nat \<Rightarrow> nat \<Rightarrow> backend_completion list \<Rightarrow> 'r iocp_backend \<Rightarrow>
     backend_completion list \<times> 'r iocp_backend" where
  "ic_drain_loop 0 index out b = (out, b)"
| "ic_drain_loop (Suc n) index out b =
     (let c = hd (ic_completion_queue b)
      in ic_drain_loop n (Suc index) (out[index := c])
           (b\<lparr>ic_active_operation_ids := ic_active_operation_ids b - {bc_operation_id c},
              ic_completion_queue := tl (ic_completion_queue b)\<rparr>))"

definition ic_drain_completions ::
  "backend_completion list \<Rightarrow> 'r iocp_backend \<Rightarrow>
     size_t io_result \<times> backend_completion list \<times> 'r iocp_backend" where
  "ic_drain_completions out b =
     (if out = []
      then (Inl (make_error_diagnostic invalid_state ''completion drain output must not be empty''),
            out, b)
      else
        (let count = min (length out) (length (ic_completion_queue b));
             (out', b') = ic_drain_loop count 0 out b
         in (Inr (of_nat count), out', b')))"

definition ic_wake :: "'o iocp_sys \<Rightarrow> ('r, 'o) ic_state \<Rightarrow> void_result \<times> ('r, 'o) ic_state" where
  "ic_wake sys = (\<lambda>(b, k).
     if ic_stopped b then (closed_error, b, k)
     else (case ic_initialization_result b of
       Inl e \<Rightarrow> (Inl e, b, k)
     | Inr _ \<Rightarrow>
         (case is_post sys (the (ic_completion_port b)) 0 iocp_wake_completion_key 0 k of
            (Inl code, k1) \<Rightarrow> (Inl (iocp_provider_failure code), b, k1)
          | (Inr _, k1) \<Rightarrow> (Inr (), b, k1))))"

definition ic_shutdown :: "'o iocp_sys \<Rightarrow> ('r, 'o) ic_state \<Rightarrow> void_result \<times> ('r, 'o) ic_state" where
  "ic_shutdown sys = (\<lambda>(b, k).
     if ic_stopped b then (Inr (), b, k)
     else
       (case mark_shutdown_requested sys (b, k) of
          (marked, b1, k1) \<Rightarrow>
            (case vb_shutdown (ic_fallback b1) of
               (drained, f) \<Rightarrow>
                 (case maybe_close_stopped_port sys (b1\<lparr>ic_stopped := True, ic_fallback := f\<rparr>, k1) of
                    s2 \<Rightarrow> (case marked of Inl e \<Rightarrow> Inl e | Inr _ \<Rightarrow> drained, s2)))))"

definition ic_destroy :: "'o iocp_sys \<Rightarrow> ('r, 'o) ic_state \<Rightarrow> 'o" where
  "ic_destroy sys s = snd (close_owned_port sys s)"

end
