(* ===== verification/Iocp_Correct.thy ===== *)
theory Iocp_Correct
  imports Iocp_Operations Ledger
begin

text \<open>
  The IOCP backend keeps the contract of the ledger, whatever packets the completion port
  returns and whichever system call fails. The same accounting shows that the storage of an
  operation whose \<^verbatim>\<open>OVERLAPPED\<close> the system holds is kept until its packet was dequeued, that
  the completion port stays open as long as an operation is stored, and that the key of a
  closed association is never current again.
\<close>

section \<open>Invariant\<close>

definition ic_outstanding :: "'r iocp_backend \<Rightarrow> size_t list" where
  "ic_outstanding b = map fst (ic_operations b) @ map bc_operation_id (ic_completion_queue b)"

definition ic_inv :: "'r iocp_backend \<Rightarrow> bool" where
  "ic_inv b \<longleftrightarrow>
     ic_active_operation_ids b = set (ic_outstanding b) \<and> distinct (ic_outstanding b) \<and>
     0 \<notin> set (ic_outstanding b) \<and>
     ic_operation_submission_order b = map fst (ic_operations b) \<and>
     (\<forall>i st. map_of (ic_operations b) i = Some st \<longrightarrow> op_id (st_operation st) = i) \<and>
     (\<forall>a i. ic_operation_id_by_overlapped b a = Some i \<longrightarrow>
        (\<exists>st. map_of (ic_operations b) i = Some st \<and> st_overlapped st = a)) \<and>
     (ic_initialization_error b \<noteq> None \<longrightarrow> ic_operations b = []) \<and>
     (ic_completion_port b = None \<longleftrightarrow>
        ic_initialization_error b \<noteq> None \<or> ic_stopped b \<and> ic_operations b = []) \<and>
     io_association_capacity (ic_options b) \<le> iocp_max_association_count \<and>
     vb_stopped (ic_fallback b) = ic_stopped b"

lemma ic_invD:
  assumes "ic_inv b"
  shows "ic_active_operation_ids b = set (ic_outstanding b)" "distinct (ic_outstanding b)"
    "0 \<notin> set (ic_outstanding b)" "distinct (map fst (ic_operations b))"
    "ic_operation_submission_order b = map fst (ic_operations b)"
    "ic_initialization_error b \<noteq> None \<Longrightarrow> ic_operations b = []"
    "ic_completion_port b = None \<longleftrightarrow>
       ic_initialization_error b \<noteq> None \<or> ic_stopped b \<and> ic_operations b = []"
    "map_of (ic_operations b) i = Some st \<Longrightarrow> op_id (st_operation st) = i"
    "io_association_capacity (ic_options b) \<le> iocp_max_association_count"
    "vb_stopped (ic_fallback b) = ic_stopped b"
proof -
  show dist: "distinct (ic_outstanding b)" using assms unfolding ic_inv_def by blast
  then show "distinct (map fst (ic_operations b))" by (simp add: ic_outstanding_def)
  show "ic_active_operation_ids b = set (ic_outstanding b)" "0 \<notin> set (ic_outstanding b)"
    using assms unfolding ic_inv_def by (blast, blast)
  show "map_of (ic_operations b) i = Some st \<Longrightarrow> op_id (st_operation st) = i"
    using assms unfolding ic_inv_def by blast
qed (use assms in \<open>unfold ic_inv_def, blast\<close>)+

lemma ic_inv_index:
  assumes "ic_inv b" and "ic_operation_id_by_overlapped b a = Some i"
  obtains st where "map_of (ic_operations b) i = Some st" and "st_overlapped st = a"
  using assms unfolding ic_inv_def by blast

lemma ic_inv_create: "ic_inv (fst (ic_create sys opts k))"
  by (simp add: ic_create_def ic_inv_def ic_outstanding_def ic_normalize_options_def vb_init_def
      Let_def split: prod.split sum.split)

text \<open>
  Terminal arbitration: a recorded reason of cancellation stays, and after the close request
  no reason is recorded.
\<close>

definition settles :: "'r operation_storage \<Rightarrow> 'r operation_storage \<Rightarrow> bool" where
  "settles st st' \<longleftrightarrow> (st_close_requested st \<longrightarrow> st_close_requested st') \<and>
     (st_cancellation st \<noteq> None \<or> st_close_requested st \<longrightarrow> st_cancellation st' = st_cancellation st)"

lemma settles_refl [simp, intro]: "settles st st"
  by (simp add: settles_def)

lemma settles_trans: "settles st st1 \<Longrightarrow> settles st1 st2 \<Longrightarrow> settles st st2"
  unfolding settles_def by metis

text \<open>The storage of a natively submitted operation is still held, unless \<open>P\<close> allows to free it.\<close>

definition still_held :: "'r operation_storage \<Rightarrow> 'r operation_storage \<Rightarrow> bool" where
  "still_held st st' \<longleftrightarrow> st_native_submitted st' \<and> st_operation st' = st_operation st \<and>
     st_overlapped st' = st_overlapped st \<and> st_completion_key st' = st_completion_key st \<and>
     settles st st'"

lemma still_held_refl: "st_native_submitted st \<Longrightarrow> still_held st st"
  by (simp add: still_held_def)

lemma still_held_trans: "still_held st st1 \<Longrightarrow> still_held st1 st2 \<Longrightarrow> still_held st st2"
  by (auto simp: still_held_def intro: settles_trans)

definition ic_retains :: "(uint64 \<Rightarrow> iocp_completion_key_token \<Rightarrow> bool) \<Rightarrow> 'r iocp_backend \<Rightarrow>
    'r iocp_backend \<Rightarrow> bool" where
  "ic_retains P b b' \<longleftrightarrow>
     (\<forall>i st. map_of (ic_operations b) i = Some st \<longrightarrow> st_native_submitted st \<longrightarrow>
        \<not> P (st_overlapped st) (st_completion_key st) \<longrightarrow>
        (\<exists>st'. map_of (ic_operations b') i = Some st' \<and> still_held st st'))"

lemma ic_retainsI:
  assumes "\<And>i st. map_of (ic_operations b) i = Some st \<Longrightarrow> st_native_submitted st \<Longrightarrow>
    \<not> P (st_overlapped st) (st_completion_key st) \<Longrightarrow>
    \<exists>st'. map_of (ic_operations b') i = Some st' \<and> still_held st st'"
  shows "ic_retains P b b'"
  using assms by (simp add: ic_retains_def)

lemma ic_retainsE:
  assumes "ic_retains P b b'" and "map_of (ic_operations b) i = Some st" and "st_native_submitted st"
    and "\<not> P (st_overlapped st) (st_completion_key st)"
  obtains st' where "map_of (ic_operations b') i = Some st'" and "still_held st st'"
  using assms unfolding ic_retains_def by blast

text \<open>Steps that permute the outstanding operations.\<close>

definition ic_moves :: "(uint64 \<Rightarrow> iocp_completion_key_token \<Rightarrow> bool) \<Rightarrow> 'r iocp_backend \<Rightarrow>
    'r iocp_backend \<Rightarrow> bool" where
  "ic_moves P b b' \<longleftrightarrow>
     (ic_inv b \<longrightarrow> ic_inv b' \<and> mset (ic_outstanding b') = mset (ic_outstanding b) \<and> ic_retains P b b')"

abbreviation no_packet :: "uint64 \<Rightarrow> iocp_completion_key_token \<Rightarrow> bool" where
  "no_packet \<equiv> \<lambda>_ _. False"

lemma ic_retains_refl [simp, intro]: "ic_retains P b b"
  by (simp add: ic_retains_def still_held_refl)

lemma ic_retains_trans:
  assumes "ic_retains P b b1" and "ic_retains P b1 b2"
  shows "ic_retains P b b2"
proof (rule ic_retainsI)
  fix i st
  assume st: "map_of (ic_operations b) i = Some st" "st_native_submitted st"
    "\<not> P (st_overlapped st) (st_completion_key st)"
  obtain st1 where st1: "map_of (ic_operations b1) i = Some st1" "still_held st st1"
    using ic_retainsE [OF assms(1) st] .
  then have "st_native_submitted st1" "\<not> P (st_overlapped st1) (st_completion_key st1)"
    using st(3) by (simp_all add: still_held_def)
  then obtain st2 where "map_of (ic_operations b2) i = Some st2" "still_held st1 st2"
    using ic_retainsE [OF assms(2) st1(1)] by blast
  then show "\<exists>st'. map_of (ic_operations b2) i = Some st' \<and> still_held st st'"
    using still_held_trans [OF st1(2)] by (intro exI conjI)
qed

lemma ic_moves_refl [simp, intro]: "ic_moves P b b"
  by (simp add: ic_moves_def)

lemma ic_moves_trans: "ic_moves P b b1 \<Longrightarrow> ic_moves P b1 b2 \<Longrightarrow> ic_moves P b b2"
  unfolding ic_moves_def using ic_retains_trans [of P b b1 b2] by simp

lemma ic_moves_mono:
  assumes "ic_moves P b b'" and "\<And>a key. P a key \<Longrightarrow> Q a key"
  shows "ic_moves Q b b'"
  using assms(1) assms(2) unfolding ic_moves_def ic_retains_def by blast

lemma ic_moves_no_packet: "ic_moves no_packet b b' \<Longrightarrow> ic_moves P b b'"
  by (erule ic_moves_mono) simp

section \<open>Elementary moves\<close>

lemma ic_moves_frame:
  assumes "ic_operations b' = ic_operations b" and "ic_completion_queue b' = ic_completion_queue b"
    and "ic_operation_submission_order b' = ic_operation_submission_order b"
    and "ic_operation_id_by_overlapped b' = ic_operation_id_by_overlapped b"
    and "ic_active_operation_ids b' = ic_active_operation_ids b"
    and "ic_completion_port b' = ic_completion_port b" and "ic_stopped b' = ic_stopped b"
    and "ic_initialization_error b' = ic_initialization_error b" and "ic_options b' = ic_options b"
    and "vb_stopped (ic_fallback b') = vb_stopped (ic_fallback b)"
  shows "ic_moves P b b'"
  using ic_retains_refl [of P b] unfolding ic_moves_def ic_inv_def ic_outstanding_def ic_retains_def assms
  by blast

lemma storage_modify_keys [simp]: "map fst (storage_modify i f table) = map fst table"
  by (induction table) (auto simp: storage_modify_def)

lemma map_of_storage_modify [simp]:
  "map_of (storage_modify i f table) j =
     (if j = i then map_option f (map_of table j) else map_of table j)"
  by (induction table) (auto simp: storage_modify_def)

lemma storage_modify_Nil_iff [simp]: "storage_modify i f table = [] \<longleftrightarrow> table = []"
  by (simp add: storage_modify_def)

lemma map_of_storage_erase [simp]:
  "map_of (storage_erase i table) j = (if j = i then None else map_of table j)"
  by (induction table) (auto simp: storage_erase_def)

lemma storage_erase_keys: "map fst (storage_erase i table) = filter (\<lambda>j. j \<noteq> i) (map fst table)"
  by (simp add: storage_erase_def filter_map comp_def)

lemma ic_moves_modify:
  assumes "\<And>st. st_operation (f st) = st_operation st" and "\<And>st. st_overlapped (f st) = st_overlapped st"
    and "\<And>st. st_completion_key (f st) = st_completion_key st"
    and "\<And>st. st_native_submitted st \<Longrightarrow> st_native_submitted (f st)"
    and "\<And>st. map_of (ic_operations b) i = Some st \<Longrightarrow> settles st (f st)"
  shows "ic_moves P b (b\<lparr>ic_operations := storage_modify i f (ic_operations b)\<rparr>)"
proof -
  let ?b' = "b\<lparr>ic_operations := storage_modify i f (ic_operations b)\<rparr>"
  have some: "map_of (ic_operations ?b') j = Some st' \<longleftrightarrow>
      (\<exists>st. map_of (ic_operations b) j = Some st \<and> st' = (if j = i then f st else st))" for j st'
    by auto
  have out: "ic_outstanding ?b' = ic_outstanding b" by (simp add: ic_outstanding_def)
  have "ic_inv ?b'" if "ic_inv b"
  proof -
    have "op_id (st_operation st) = j" if "map_of (ic_operations ?b') j = Some st" for j st
      using that ic_invD(8) [OF \<open>ic_inv b\<close>, of j] assms(1) unfolding some by auto
    moreover have "\<exists>st. map_of (ic_operations ?b') j = Some st \<and> st_overlapped st = a"
      if "ic_operation_id_by_overlapped b a = Some j" for a j
      using ic_inv_index [OF \<open>ic_inv b\<close> that] assms(2) unfolding some by metis
    ultimately show ?thesis using ic_invD(1-7,9,10) [OF that] unfolding ic_inv_def out by simp
  qed
  moreover have "ic_retains P b ?b'"
    by (rule ic_retainsI) (use assms in \<open>auto simp: still_held_def\<close>)
  ultimately show ?thesis by (simp add: ic_moves_def out)
qed

lemma storage_erase_keys_remove1:
  "distinct (map fst table) \<Longrightarrow> map fst (storage_erase i table) = remove1 i (map fst table)"
  by (induction table) (auto simp: storage_erase_def remove1_idem)

lemma erase_operation_storage_fields:
  assumes "map_of (ic_operations b) i = Some st"
    and "b' = fst (erase_operation_storage sys i (b\<lparr>ic_completion_queue := q\<rparr>, k))"
  shows "ic_operations b' = storage_erase i (ic_operations b)" "ic_completion_queue b' = q"
    "ic_operation_submission_order b' = remove1 i (ic_operation_submission_order b)"
    "ic_operation_id_by_overlapped b' = (ic_operation_id_by_overlapped b)(st_overlapped st := None)"
    "ic_active_operation_ids b' = ic_active_operation_ids b"
    "ic_stopped b' = ic_stopped b" "ic_initialization_error b' = ic_initialization_error b"
    "ic_completion_port b' = (if ic_stopped b \<and> storage_erase i (ic_operations b) = [] then None
       else ic_completion_port b)"
    "ic_fallback b' = ic_fallback b" "ic_options b' = ic_options b"
    "\<not> ic_stopped b \<Longrightarrow> ic_associations b' = ic_associations b \<and>
       ic_association_by_native_handle b' = ic_association_by_native_handle b \<and>
       ic_free_association_ids b' = ic_free_association_ids b"
  using assms by (auto simp: erase_operation_storage_def maybe_close_stopped_port_def
      close_owned_port_def split: option.split)

text \<open>A stored operation moves to the completion queue.\<close>

lemma finish_operation_inv:
  assumes inv: "ic_inv b" and st: "map_of (ic_operations b) i = Some st" and "bc_operation_id c = i"
    and b': "b' = fst (erase_operation_storage sys i
      (b\<lparr>ic_completion_queue := ic_completion_queue b @ [c]\<rparr>, k))"
  shows "ic_inv b' \<and> mset (ic_outstanding b') = mset (ic_outstanding b)"
proof -
  note fields = erase_operation_storage_fields [OF st b']
  have mem: "i \<in> set (map fst (ic_operations b))"
    using st by (metis map_of_eq_None_iff option.distinct(1) list.set_map)
  have dist: "distinct (map fst (ic_operations b))"
    using inv by (simp add: ic_inv_def ic_outstanding_def)
  note keys = storage_erase_keys_remove1 [OF dist, of i]
  have out: "mset (ic_outstanding b') = mset (ic_outstanding b)"
    using mem assms(3) by (simp add: ic_outstanding_def keys fields(1,2))
  have index: "\<exists>st'. map_of (ic_operations b') j = Some st' \<and> st_overlapped st' = a"
    if "ic_operation_id_by_overlapped b' a = Some j" for a j
  proof -
    from that have a: "a \<noteq> st_overlapped st" "ic_operation_id_by_overlapped b a = Some j"
      by (auto simp: fields(4) split: if_splits)
    then obtain st' where "map_of (ic_operations b) j = Some st'" "st_overlapped st' = a"
      using inv by (blast elim: ic_inv_index)
    with a st show ?thesis by (auto simp: fields(1))
  qed
  have ids: "op_id (st_operation st') = j" if "map_of (ic_operations b') j = Some st'" for j st'
    using ic_invD(8) [OF inv] that by (auto simp: fields(1) split: if_splits)
  have port: "ic_completion_port b' = None \<longleftrightarrow>
      ic_initialization_error b' \<noteq> None \<or> ic_stopped b' \<and> ic_operations b' = []"
    "ic_initialization_error b' = None"
    using ic_invD(6,7) [OF inv] mem by (auto simp: fields(1,6,7,8))
  have "set (ic_outstanding b') = set (ic_outstanding b)" "distinct (ic_outstanding b')"
    using mset_eq_setD [OF out] mset_eq_imp_distinct_iff [OF out] inv by (simp_all add: ic_inv_def)
  moreover have "ic_operation_submission_order b' = map fst (ic_operations b')"
    using inv by (simp add: ic_inv_def fields(1,3) keys)
  ultimately have "ic_inv b'"
    using ic_invD(1,3,9,10) [OF inv] index ids port unfolding ic_inv_def
    by (simp add: fields(5,6,9,10))
  with out show ?thesis by simp
qed

lemma finish_operation_moves:
  assumes st: "map_of (ic_operations b) i = Some st" and c: "bc_operation_id c = i"
    and P: "st_native_submitted st \<Longrightarrow> P (st_overlapped st) (st_completion_key st)"
  shows "ic_moves P b (fst (erase_operation_storage sys i
      (b\<lparr>ic_completion_queue := ic_completion_queue b @ [c]\<rparr>, k)))" (is "ic_moves P b ?b'")
proof -
  have "ic_retains P b ?b'"
    by (rule ic_retainsI, unfold erase_operation_storage_fields(1) [OF st refl])
      (use st P in \<open>auto simp: still_held_refl\<close>)
  then show ?thesis using finish_operation_inv [OF _ st c refl, of sys k] unfolding ic_moves_def by blast
qed

section \<open>Calls that move operations\<close>

lemma map_of_some_inv_key:
  "ic_inv b \<Longrightarrow> map_of (ic_operations b) i = Some st \<Longrightarrow> op_id (st_operation st) = i"
  by (rule ic_invD)

lemma complete_operation_storage_moves:
  assumes "map_of (ic_operations b) i = Some st" and "\<not> st_native_submitted st"
    and "op_id (st_operation storage) = i"
  shows "ic_moves P b (fst (complete_operation_storage sys storage res (b, k)))"
  using finish_operation_moves [of b i st "make_completion i res" P sys k] assms
  by (simp add: complete_operation_storage_def Let_def)

lemma native_completion_id [simp]:
  "bc_operation_id (native_completion storage n status b) = op_id (st_operation storage)"
  by (simp add: native_completion_def Let_def split: backend_operation_kind.split)

lemma observe_native_packet_moves:
  "ic_moves (\<lambda>a key. a = pk_overlapped p \<and> key = pk_completion_key p) b
     (fst (observe_native_packet sys p (b, k)))" (is "ic_moves ?P b ?b'")
proof (cases "ic_operation_id_by_overlapped b (pk_overlapped p)")
  case None
  then show ?thesis by (simp add: observe_native_packet_def)
next
  case (Some i)
  have "ic_moves ?P b ?b'" if inv: "ic_inv b"
  proof -
    obtain st where st: "map_of (ic_operations b) i = Some st" "st_overlapped st = pk_overlapped p"
      using ic_inv_index [OF inv Some] .
    note id = map_of_some_inv_key [OF inv st(1)]
    show ?thesis
      using finish_operation_moves [OF st(1), of _ ?P sys k] Some st id
      by (auto simp: observe_native_packet_def complete_native_operation_def)
  qed
  then show ?thesis unfolding ic_moves_def by blast
qed

lemma request_cancel_for_moves: "ic_moves P b (fst (snd (request_cancel_for sys i storage (b, k))))"
proof -
  let ?b1 = "b\<lparr>ic_operations := storage_modify i (\<lambda>st. st\<lparr>st_cancel_requested := True\<rparr>) (ic_operations b)\<rparr>"
  have "ic_moves P b (?b1\<lparr>ic_cancel_request_count := ic_cancel_request_count b + 1\<rparr>)"
    by (rule ic_moves_trans [OF ic_moves_modify ic_moves_frame]) (simp_all add: settles_def)
  then show ?thesis by (auto simp: request_cancel_for_def split: prod.split)
qed

lemma close_one_moves:
  assumes "map_of (ic_operations b) i = Some st"
  defines "b1 \<equiv> b\<lparr>ic_operations := storage_modify i (\<lambda>st. st\<lparr>st_close_requested := True\<rparr>) (ic_operations b)\<rparr>"
    and "st1 \<equiv> st\<lparr>st_close_requested := True\<rparr>"
  shows "\<not> st_native_submitted st \<Longrightarrow> ic_moves P b (fst (complete_operation_storage sys st1 res (b1, k)))"
    and "ic_moves P b (fst (snd (request_cancel_for sys i st1 (b1, k))))"
proof -
  have b1: "ic_moves P b b1" unfolding b1_def by (rule ic_moves_modify) (simp_all add: settles_def)
  then show "ic_moves P b (fst (snd (request_cancel_for sys i st1 (b1, k))))"
    by (rule ic_moves_trans [OF _ request_cancel_for_moves])
  assume native: "\<not> st_native_submitted st"
  have "ic_moves P b (fst (complete_operation_storage sys st1 res (b1, k)))" if "ic_inv b"
    using map_of_some_inv_key [OF that assms(1)] assms(1) native
    by (intro ic_moves_trans [OF b1 complete_operation_storage_moves [of b1 i st1]])
      (simp_all add: b1_def st1_def)
  then show "ic_moves P b (fst (complete_operation_storage sys st1 res (b1, k)))"
    unfolding ic_moves_def by blast
qed

lemma close_each_moves: "ic_moves P (fst s) (fst (snd (close_each sys ids first s)))"
proof (induction sys ids first s rule: close_each.induct)
  case (1 sys first s)
  then show ?case by simp
next
  case (2 sys i ids first b k)
  show ?case
  proof (cases "map_of (ic_operations b) i")
    case None
    then show ?thesis using "2.IH"(1) by simp
  next
    case (Some st)
    let ?st1 = "st\<lparr>st_close_requested := True\<rparr>"
    let ?b1 = "b\<lparr>ic_operations := storage_modify i (\<lambda>st. st\<lparr>st_close_requested := True\<rparr>) (ic_operations b)\<rparr>"
    show ?thesis
    proof (cases "st_native_submitted st")
      case True
      obtain r s1 where rc: "request_cancel_for sys i ?st1 (?b1, k) = (r, s1)" by (rule prod.exhaust)
      show ?thesis
        using "2.IH"(3) [OF Some refl refl _ rc [symmetric]] close_one_moves(2) [OF Some, of P sys k] True
        by (auto simp: Some rc Let_def intro: ic_moves_trans)
    next
      case False
      show ?thesis
        using "2.IH"(2) [OF Some refl refl] close_one_moves(1) [OF Some False, of P sys closed_completion k] False
        by (auto simp: Some Let_def intro: ic_moves_trans)
    qed
  qed
qed

lemma mark_requested_moves:
  "ic_moves P (fst s) (fst (snd (mark_close_requested sys token s)))"
  "ic_moves P (fst s) (fst (snd (mark_shutdown_requested sys s)))"
  using close_each_moves [of P s sys]
  by (simp_all add: mark_close_requested_def mark_shutdown_requested_def Let_def case_prod_beta)

section \<open>Observation\<close>

lemma observe_native_packet_packets:
  "set (ic_native_packets (fst (observe_native_packet sys p (b, k)))) \<subseteq> set (ic_native_packets b)"
  by (auto simp: observe_native_packet_def complete_native_operation_def erase_operation_storage_def
      maybe_close_stopped_port_def close_owned_port_def split: option.splits if_splits)

abbreviation packet_in :: "iocp_native_completion_packet set \<Rightarrow> uint64 \<Rightarrow> iocp_completion_key_token \<Rightarrow> bool" where
  "packet_in ps a key \<equiv> \<exists>p \<in> ps. pk_overlapped p = a \<and> pk_completion_key p = key"

lemma observe_queued_loop_moves:
  assumes "set (ic_native_packets (fst s)) \<subseteq> ps"
  shows "ic_moves (packet_in ps) (fst s) (fst (snd (observe_queued_loop sys room n s)))"
  using assms
proof (induction sys room n s rule: observe_queued_loop.induct)
  case (1 sys n s)
  then show ?case by simp
next
  case (2 sys room n b k)
  show ?case
  proof (cases "ic_native_packets b")
    case Nil
    then show ?thesis by simp
  next
    case (Cons p packets)
    let ?b1 = "b\<lparr>ic_native_packets := packets\<rparr>"
    have first: "ic_moves (packet_in ps) b (fst (observe_native_packet sys p (?b1, k)))"
      using "2.prems" Cons
      by (intro ic_moves_trans [OF ic_moves_frame ic_moves_mono [OF observe_native_packet_moves]]) auto
    have "set (ic_native_packets (fst (observe_native_packet sys p (?b1, k)))) \<subseteq> ps"
      using observe_native_packet_packets [of sys p ?b1 k] "2.prems" Cons by auto
    from "2.IH" [OF Cons this] first show ?thesis by (simp add: Cons ic_moves_trans)
  qed
qed

text \<open>The association key and address that an entry of the completion port carries.\<close>

definition entry_matches :: "overlapped_entry \<Rightarrow> uint64 \<Rightarrow> iocp_completion_key_token \<Rightarrow> bool" where
  "entry_matches e a key \<longleftrightarrow> oe_overlapped e = a \<and> unpack_iocp_completion_key (oe_completion_key e) = Inr key"

lemma observe_entries_moves:
  "ic_moves (\<lambda>a key. \<exists>e \<in> set entries. entry_matches e a key) (fst s)
     (fst (fold (observe_entry sys) entries s))"
proof (induction entries arbitrary: s)
  case Nil
  then show ?case by simp
next
  case (Cons e entries)
  let ?P = "\<lambda>a key. \<exists>e' \<in> set (e # entries). entry_matches e' a key"
  have "ic_moves ?P (fst s) (fst (observe_entry sys e s))"
  proof (cases "unpack_iocp_completion_key (oe_completion_key e)")
    case (Inl err)
    then show ?thesis by (simp add: observe_entry_def)
  next
    case (Inr key)
    obtain b k where s: "s = (b, k)" by fastforce
    have "ic_moves ?P b (fst (observe_native_packet sys p (b, k)))"
      if "pk_overlapped p = oe_overlapped e" "pk_completion_key p = key" for p
      using that Inr by (intro ic_moves_mono [OF observe_native_packet_moves]) (auto simp: entry_matches_def)
    then show ?thesis using Inr by (simp add: observe_entry_def s)
  qed
  then show ?case
    using ic_moves_mono [OF Cons.IH [of "observe_entry sys e s"], of ?P] ic_moves_trans by force
qed

text \<open>The entries that one \<^verbatim>\<open>poll\<close> takes from the completion port, after the queued packets.\<close>

definition dequeued_entries :: "'o iocp_sys \<Rightarrow> ('r, 'o) ic_state \<Rightarrow> overlapped_entry list" where
  "dequeued_entries sys s =
     (case observe_queued_native_packets sys s of
        (observed, b1, k1) \<Rightarrow>
          (case ic_completion_port b1 of
             None \<Rightarrow> []
           | Some port \<Rightarrow>
               (case fst (is_get_queued sys port
                            (io_completion_batch_limit (ic_options b1) - observed) k1) of
                  Inl _ \<Rightarrow> [] | Inr entries \<Rightarrow> entries)))"

definition packet_observed :: "'o iocp_sys \<Rightarrow> ('r, 'o) ic_state \<Rightarrow> uint64 \<Rightarrow> iocp_completion_key_token \<Rightarrow> bool" where
  "packet_observed sys s a key \<longleftrightarrow>
     packet_in (set (ic_native_packets (fst s))) a key \<or>
     (\<exists>e \<in> set (dequeued_entries sys s). entry_matches e a key)"

lemma observe_native_completions_moves:
  "ic_moves (packet_observed sys s) (fst s) (fst (snd (observe_native_completions sys s)))"
proof -
  obtain b k where s: "s = (b, k)" by fastforce
  obtain n b1 k1 where q: "observe_queued_native_packets sys s = (n, b1, k1)" by (metis prod_cases3)
  have "ic_moves (packet_in (set (ic_native_packets b))) b b1"
    using observe_queued_loop_moves [of s "set (ic_native_packets b)" sys
        "io_completion_batch_limit (ic_options b)" 0] q
    by (simp add: observe_queued_native_packets_def s)
  then have first: "ic_moves (packet_observed sys s) b b1"
    by (rule ic_moves_mono) (simp add: packet_observed_def s)
  have "ic_moves (packet_observed sys s) b1 (fst (fold (observe_entry sys) entries (b1, k2)))"
    if "ic_completion_port b1 = Some port"
      "is_get_queued sys port (io_completion_batch_limit (ic_options b1) - n) k1 = (Inr entries, k2)"
    for port entries k2
    using that q ic_moves_mono [OF observe_entries_moves [of entries "(b1, k2)" sys],
        of "packet_observed sys s"]
    by (simp add: packet_observed_def dequeued_entries_def)
  then show ?thesis
    using first q
    by (auto simp: observe_native_completions_def s ic_moves_trans split: option.split prod.split sum.split)
qed

lemma ic_poll_moves: "ic_moves (packet_observed sys s) (fst s) (fst (snd (ic_poll sys s)))"
  using observe_native_completions_moves [of sys s]
  by (cases s) (simp add: ic_poll_def split: option.split)

section \<open>Remaining calls\<close>

lemma vb_close_stopped [simp]: "vb_stopped (snd (vb_close_handle token f)) = vb_stopped f"
  by (auto simp: vb_close_handle_def vb_complete_pending_def complete_loop_eq split: prod.split sum.split)

lemma association_moves:
  "ic_moves P b (snd (create_association token b))"
  "ic_moves P b (rollback_association key b)"
  "ic_moves P b (close_association token b)"
  "vb_stopped f = vb_stopped (ic_fallback b) \<Longrightarrow> ic_moves P b (b\<lparr>ic_fallback := f\<rparr>)"
  by (rule ic_moves_frame;
      auto simp: create_association_def rollback_association_def close_association_def Let_def
        split: option.split sum.split prod.split)+

lemma ic_register_moves: "ic_moves P (fst s) (fst (snd (ic_register_handle sys h s)))"
proof -
  obtain b k where s: "s = (b, k)" by fastforce
  let ?f = "snd (vb_register_handle h (ic_fallback b))"
  have b0: "ic_moves P b (b\<lparr>ic_fallback := ?f\<rparr>)" by (rule association_moves(4)) simp
  have created: "ic_moves P b b1" if "create_association token (b\<lparr>ic_fallback := ?f\<rparr>) = (r, b1)" for token r b1
    using association_moves(1) [of P "b\<lparr>ic_fallback := ?f\<rparr>" token] that
    by (auto intro: ic_moves_trans [OF b0])
  have undone: "ic_moves P b (b1\<lparr>ic_fallback := snd (vb_close_handle t (ic_fallback b1))\<rparr>)"
    if "ic_moves P b b1" for b1 t
    by (rule ic_moves_trans [OF that association_moves(4)]) simp
  note rolled = undone [OF ic_moves_trans [OF created association_moves(2)]]
  show ?thesis
  proof (cases "vb_register_handle h (ic_fallback b)")
    case (Pair r f)
    then have f: "?f = f" by simp
    show ?thesis
      using b0 created undone rolled Pair unfolding f
      by (simp add: s ic_register_handle_def Let_def split: sum.split prod.split)
  qed
qed

lemma ic_cancel_moves: "ic_moves P (fst s) (fst (snd (ic_cancel sys i reason s)))"
proof -
  obtain b k where s: "s = (b, k)" by fastforce
  define g :: "'a operation_storage \<Rightarrow> 'a operation_storage"
    where "g = (\<lambda>st. if st_cancellation st = None then st\<lparr>st_cancellation := Some reason\<rparr> else st)"
  let ?b1 = "b\<lparr>ic_operations := storage_modify i g (ic_operations b)\<rparr>"
  have b1: "ic_moves P b ?b1" if "map_of (ic_operations b) i = Some st" "\<not> st_close_requested st" for st
    using that by (intro ic_moves_modify) (auto simp: g_def settles_def)
  have rc: "ic_moves P b (fst (snd (request_cancel_for sys i (g st) (?b1, k))))"
    if "map_of (ic_operations b) i = Some st" "\<not> st_close_requested st" for st
    by (rule ic_moves_trans [OF b1 [OF that] request_cancel_for_moves])
  have co: "ic_moves P b (fst (complete_operation_storage sys (g st) res (?b1, k)))"
    if st: "map_of (ic_operations b) i = Some st" "\<not> st_close_requested st" "\<not> st_native_submitted (g st)"
    for st res
  proof -
    have "ic_moves P b (fst (complete_operation_storage sys (g st) res (?b1, k)))" if "ic_inv b"
      using map_of_some_inv_key [OF that] st
      by (intro ic_moves_trans [OF b1 [OF st(1,2)] complete_operation_storage_moves [of ?b1 i "g st"]])
        (auto simp: g_def)
    then show ?thesis unfolding ic_moves_def by blast
  qed
  show ?thesis
    using rc co by (simp add: s ic_cancel_def Let_def g_def [symmetric] split: option.split sum.split)
qed

lemma ic_close_moves: "ic_moves P (fst s) (fst (snd (ic_close_handle sys token s)))"
proof -
  obtain b k where s: "s = (b, k)" by fastforce
  obtain r b1 k1 where m: "mark_close_requested sys token (b, k) = (r, b1, k1)" by (metis prod_cases3)
  have b1: "ic_moves P b b1" using mark_requested_moves(1) [of P "(b, k)" sys token] m by simp
  let ?b2 = "b1\<lparr>ic_fallback := snd (vb_close_handle token (ic_fallback b1))\<rparr>"
  have b2: "ic_moves P b ?b2" by (rule ic_moves_trans [OF b1 association_moves(4)]) simp
  show ?thesis
    using m b2 ic_moves_trans [OF b2 association_moves(3)]
    by (cases "vb_close_handle token (ic_fallback b1)")
      (simp add: s ic_close_handle_def split: sum.split)
qed

lemma ic_shutdown_moves: "ic_moves P (fst s) (fst (snd (ic_shutdown sys s)))"
proof -
  obtain b k where s: "s = (b, k)" by fastforce
  obtain r b1 k1 where m: "mark_shutdown_requested sys (b, k) = (r, b1, k1)" by (metis prod_cases3)
  have b1: "ic_moves P b b1" using mark_requested_moves(2) [of P "(b, k)" sys] m by simp
  have "ic_moves P b1 (fst (maybe_close_stopped_port sys (b1\<lparr>ic_stopped := True, ic_fallback := f\<rparr>, k1)))"
    (is "ic_moves P b1 ?b2") if "vb_stopped f" for f
  proof -
    have "ic_operations ?b2 = ic_operations b1" "ic_outstanding ?b2 = ic_outstanding b1"
      "ic_active_operation_ids ?b2 = ic_active_operation_ids b1"
      "ic_operation_submission_order ?b2 = ic_operation_submission_order b1"
      "ic_operation_id_by_overlapped ?b2 = ic_operation_id_by_overlapped b1"
      "ic_initialization_error ?b2 = ic_initialization_error b1" "ic_stopped ?b2"
      "ic_completion_port ?b2 = (if ic_operations b1 = [] then None else ic_completion_port b1)"
      "ic_options ?b2 = ic_options b1" "ic_fallback ?b2 = f"
      by (auto simp: maybe_close_stopped_port_def close_owned_port_def ic_outstanding_def split: option.split)
    then show ?thesis
      using that ic_retains_refl [of P b1] unfolding ic_moves_def ic_inv_def ic_retains_def by auto
  qed
  moreover have "vb_stopped (snd (vb_shutdown f))" for f :: "'a virtual_backend"
    by (simp add: vb_shutdown_def)
  ultimately show ?thesis
    using m b1 by (auto simp: s ic_shutdown_def case_prod_beta intro: ic_moves_trans)
qed

section \<open>Submission and delivery\<close>

lemma ic_submit_spec:
  assumes inv: "ic_inv b" and "ic_submit sys operation (b, k) = (r, b', k')"
  shows "ic_inv b' \<and> ic_retains P b b' \<and>
    mset (ic_outstanding b') = mset (ic_outstanding b) + mset (case r of Inl _ \<Rightarrow> [] | Inr _ \<Rightarrow> [op_id operation])"
proof (cases r)
  case (Inl e)
  then have "b' = b"
    using assms(2) by (auto simp: ic_submit_def Let_def split: if_splits sum.splits prod.splits)
  then show ?thesis using inv Inl by simp
next
  case (Inr u)
  let ?i = "op_id operation"
  obtain key a where b': "b' = b\<lparr>ic_active_operation_ids := insert ?i (ic_active_operation_ids b),
      ic_operation_id_by_overlapped := (ic_operation_id_by_overlapped b)(a \<mapsto> ?i),
      ic_operations := (if ?i \<in> set (map fst (ic_operations b)) then ic_operations b
        else ic_operations b @ [(?i, \<lparr>st_operation = operation, st_completion_key = key,
          st_cancellation = None, st_cancel_requested = False, st_close_requested = False,
          st_native_submitted = False, st_overlapped = a\<rparr>)]),
      ic_operation_submission_order := ic_operation_submission_order b @ [?i]\<rparr>"
    and fresh: "?i \<noteq> 0" "?i \<notin> ic_active_operation_ids b"
    and live: "\<not> ic_stopped b" "ic_initialization_error b = None"
    using assms(2) Inr
    by (auto simp: ic_submit_def validate_operation_for_submit_def ic_initialization_result_def closed_error_def
        Let_def split: if_splits sum.splits prod.splits option.splits)
  have new: "?i \<notin> set (ic_outstanding b)" using fresh ic_invD(1) [OF inv] by simp
  then have none: "map_of (ic_operations b) ?i = None"
    by (simp add: ic_outstanding_def map_of_eq_None_iff)
  have lookup: "map_of (ic_operations b') j =
      (if j = ?i then Some \<lparr>st_operation = operation, st_completion_key = key,
          st_cancellation = None, st_cancel_requested = False, st_close_requested = False,
          st_native_submitted = False, st_overlapped = a\<rparr> else map_of (ic_operations b) j)" for j
    using new none by (simp add: b' ic_outstanding_def map_add_def split: option.split)
  have ids: "op_id (st_operation st) = j" if "map_of (ic_operations b') j = Some st" for j st
    using that ic_invD(8) [OF inv, of j st] by (auto simp: lookup split: if_splits)
  have index: "\<exists>st. map_of (ic_operations b') j = Some st \<and> st_overlapped st = a'"
    if "ic_operation_id_by_overlapped b' a' = Some j" for a' j
  proof (cases "a' = a")
    case True
    then show ?thesis using that unfolding lookup by (simp add: b')
  next
    case False
    then have "ic_operation_id_by_overlapped b a' = Some j" using that by (simp add: b')
    from ic_inv_index [OF inv this] show ?thesis using none by (metis lookup option.distinct(1))
  qed
  have out: "mset (ic_outstanding b') = add_mset ?i (mset (ic_outstanding b))"
    using new by (simp add: b' ic_outstanding_def)
  have "set (ic_outstanding b') = insert ?i (set (ic_outstanding b))"
    using mset_eq_setD [of "ic_outstanding b'" "?i # ic_outstanding b"] out by simp
  moreover have "distinct (ic_outstanding b')"
    using mset_eq_imp_distinct_iff [of "ic_outstanding b'" "?i # ic_outstanding b"] out new
      ic_invD(2) [OF inv] by simp
  moreover have "ic_operation_submission_order b' = map fst (ic_operations b')"
    "ic_completion_port b' = None \<longleftrightarrow>
       ic_initialization_error b' \<noteq> None \<or> ic_stopped b' \<and> ic_operations b' = []"
    "ic_active_operation_ids b' = insert ?i (set (ic_outstanding b))" "ic_initialization_error b' = None"
    "io_association_capacity (ic_options b') \<le> iocp_max_association_count"
    "vb_stopped (ic_fallback b') = ic_stopped b'"
    using new live ic_invD(1,5,7,9,10) [OF inv] by (auto simp: b' ic_outstanding_def)
  ultimately have "ic_inv b'"
    using ids index ic_invD(3) [OF inv] fresh(1) unfolding ic_inv_def by simp
  moreover have "ic_retains P b b'" using none by (auto simp: ic_retains_def lookup still_held_refl)
  ultimately show ?thesis using out Inr by simp
qed

lemma ic_drain_loop_eq:
  assumes "n \<le> length (ic_completion_queue b)" and "index + n \<le> length out"
  shows "ic_drain_loop n index out b =
    (take index out @ take n (ic_completion_queue b) @ drop (index + n) out,
     b\<lparr>ic_active_operation_ids := ic_active_operation_ids b -
          set (map bc_operation_id (take n (ic_completion_queue b))),
       ic_completion_queue := drop n (ic_completion_queue b)\<rparr>)"
  using assms
proof (induction n arbitrary: index out b)
  case 0
  then show ?case by simp
next
  case (Suc n)
  obtain c cs where cs: "ic_completion_queue b = c # cs"
    using Suc.prems(1) by (cases "ic_completion_queue b") auto
  have upd: "take (Suc index) (out[index := c]) = take index out @ [c]"
    using Suc.prems by (simp add: take_Suc_conv_app_nth)
  show ?case
    using Suc cs upd by (simp add: Let_def Diff_insert2 [symmetric] insert_Diff_if)
qed

lemma ic_drain_spec:
  assumes inv: "ic_inv b" and "ic_drain_completions out b = (r, out', b')"
    and "n = min (length out) (length (ic_completion_queue b))"
  shows "ic_inv b' \<and> ic_operations b' = ic_operations b \<and>
    mset (ic_outstanding b) = mset (ic_outstanding b') +
      mset (case r of Inl _ \<Rightarrow> [] | Inr _ \<Rightarrow> map bc_operation_id (take n out'))"
proof (cases "out = []")
  case True
  then show ?thesis using assms by (auto simp: ic_drain_completions_def)
next
  case False
  let ?q = "ic_completion_queue b"
  have eq: "r = Inr (of_nat n)" "out' = take n ?q @ drop n out"
    "b' = b\<lparr>ic_active_operation_ids := ic_active_operation_ids b - set (map bc_operation_id (take n ?q)),
       ic_completion_queue := drop n ?q\<rparr>"
    using assms(2,3) False by (auto simp: ic_drain_completions_def Let_def ic_drain_loop_eq)
  have q: "map bc_operation_id ?q = map bc_operation_id (take n ?q) @ map bc_operation_id (drop n ?q)"
    by (simp flip: map_append)
  have out: "ic_outstanding b' = map fst (ic_operations b) @ map bc_operation_id (drop n ?q)"
    by (simp add: eq(3) ic_outstanding_def)
  have set_out: "set (ic_outstanding b') = set (ic_outstanding b) - set (map bc_operation_id (take n ?q))"
    "distinct (ic_outstanding b')"
    using ic_invD(2) [OF inv] unfolding out unfolding ic_outstanding_def q by auto
  have "ic_inv b'"
    using inv set_out unfolding ic_inv_def by (simp add: eq(3) out [symmetric, unfolded eq(3)])
  moreover have "mset (ic_outstanding b) = mset (ic_outstanding b') + mset (map bc_operation_id (take n ?q))"
    unfolding out unfolding ic_outstanding_def q by simp
  ultimately show ?thesis by (simp add: eq assms(3))
qed

section \<open>Steps\<close>

datatype 'r iocp_op =
    Ic_register size_t
  | Ic_submit "'r backend_operation"
  | Ic_cancel size_t cancellation_reason
  | Ic_close backend_handle_token
  | Ic_poll
  | Ic_drain "backend_completion list"
  | Ic_wake
  | Ic_shutdown
  | Ic_queue_packet iocp_completion_key_token size_t uint64 uint64
  | Ic_mark_submitted size_t
  | Ic_drain_packets nat
  | Ic_post_packet iocp_completion_key_token size_t uint64

fun ic_step :: "'o iocp_sys \<Rightarrow> 'r iocp_op \<Rightarrow> ('r, 'o) ic_state \<Rightarrow>
    size_t list \<times> size_t list \<times> ('r, 'o) ic_state" where
  "ic_step sys (Ic_register h) s = ([], [], snd (ic_register_handle sys h s))"
| "ic_step sys (Ic_submit operation) s =
     (let (r, s') = ic_submit sys operation s
      in (case r of Inl _ \<Rightarrow> [] | Inr _ \<Rightarrow> [op_id operation], [], s'))"
| "ic_step sys (Ic_cancel i reason) s = ([], [], snd (ic_cancel sys i reason s))"
| "ic_step sys (Ic_close token) s = ([], [], snd (ic_close_handle sys token s))"
| "ic_step sys Ic_poll s = ([], [], snd (ic_poll sys s))"
| "ic_step sys (Ic_drain out) (b, k) =
     (let (r, out', b') = ic_drain_completions out b
      in ([], case r of Inl _ \<Rightarrow> [] | Inr _ \<Rightarrow> map bc_operation_id
                 (take (min (length out) (length (ic_completion_queue b))) out'), b', k))"
| "ic_step sys Ic_wake s = ([], [], snd (ic_wake sys s))"
| "ic_step sys Ic_shutdown s = ([], [], snd (ic_shutdown sys s))"
| "ic_step sys (Ic_queue_packet key n overlapped status) (b, k) =
     ([], [], snd (queue_iocp_test_packet key n overlapped status b), k)"
| "ic_step sys (Ic_mark_submitted i) (b, k) =
     ([], [], snd (mark_iocp_operation_native_submitted i b), k)"
| "ic_step sys (Ic_drain_packets room) (b, k) = ([], [], snd (drain_iocp_native_packets room b), k)"
| "ic_step sys (Ic_post_packet key n overlapped) s =
     ([], [], snd (post_iocp_test_packet sys key n overlapped s))"

lemma helper_moves:
  "ic_moves P (fst s) (fst (snd (ic_wake sys s)))"
  "ic_moves P b (snd (queue_iocp_test_packet key n overlapped status b))"
  "ic_moves P b (snd (mark_iocp_operation_native_submitted i b))"
  "ic_moves P b (snd (drain_iocp_native_packets room b))"
  "ic_moves P (fst s) (fst (snd (post_iocp_test_packet sys key n overlapped s)))"
proof -
  show "ic_moves P (fst s) (fst (snd (ic_wake sys s)))"
    by (cases s) (simp add: ic_wake_def split: sum.split prod.split)
  show "ic_moves P b (snd (queue_iocp_test_packet key n overlapped status b))"
    by (rule ic_moves_frame) (simp_all add: queue_iocp_test_packet_def split: sum.split)
  show "ic_moves P b (snd (mark_iocp_operation_native_submitted i b))"
    by (auto simp: mark_iocp_operation_native_submitted_def settles_def intro!: ic_moves_modify
        split: option.split)
  show "ic_moves P b (snd (drain_iocp_native_packets room b))"
    by (rule ic_moves_frame) (simp_all add: drain_iocp_native_packets_def Let_def)
  show "ic_moves P (fst s) (fst (snd (post_iocp_test_packet sys key n overlapped s)))"
    by (cases s) (simp add: post_iocp_test_packet_def split: sum.split prod.split)
qed

lemmas quiet_moves = helper_moves(2-4) helper_moves(1,5) [of _ "(b, k)", unfolded fst_conv]
  ic_register_moves [of _ "(b, k)", unfolded fst_conv] ic_cancel_moves [of _ "(b, k)", unfolded fst_conv]
  ic_close_moves [of _ "(b, k)", unfolded fst_conv] ic_shutdown_moves [of _ "(b, k)", unfolded fst_conv]
  for b k

text \<open>What a step may free: only \<^verbatim>\<open>poll\<close>, and only the storage whose packet it observes.\<close>

definition step_frees :: "'o iocp_sys \<Rightarrow> 'r iocp_op \<Rightarrow> ('r, 'o) ic_state \<Rightarrow> uint64 \<Rightarrow>
    iocp_completion_key_token \<Rightarrow> bool" where
  "step_frees sys op s a key \<longleftrightarrow> op = Ic_poll \<and> packet_observed sys s a key"

lemma ic_step_spec:
  assumes inv: "ic_inv (fst s)" and step: "ic_step sys op s = (a, d, s')"
  shows "ic_inv (fst s') \<and> ic_retains (step_frees sys op s) (fst s) (fst s') \<and>
    mset (ic_outstanding (fst s)) + mset a = mset (ic_outstanding (fst s')) + mset d"
proof -
  obtain b k where s: "s = (b, k)" by fastforce
  have quiet: ?thesis if "a = []" "d = []" "ic_moves (step_frees sys op s) (fst s) (fst s')"
    using that inv by (simp add: ic_moves_def)
  show ?thesis
  proof (cases op)
    case (Ic_submit operation)
    then show ?thesis
      using step inv ic_submit_spec [of b sys operation k]
      by (cases s') (auto simp: s split: prod.splits)
  next
    case (Ic_drain out)
    then obtain r out' b' where dr: "ic_drain_completions out b = (r, out', b')" "s' = (b', k)" "a = []"
      "d = (case r of Inl _ \<Rightarrow> [] | Inr _ \<Rightarrow> map bc_operation_id
         (take (min (length out) (length (ic_completion_queue b))) out'))"
      using step by (auto simp: s split: prod.splits)
    from ic_drain_spec [OF _ this(1) refl] show ?thesis using inv dr(2-4) by (auto simp: s ic_retains_def still_held_refl)
  next
    case Ic_poll
    then show ?thesis
      using step quiet ic_poll_moves [of sys s] ic_moves_mono [OF ic_poll_moves [of sys s], of "step_frees sys op s"]
      by (auto simp: step_frees_def)
  qed (rule quiet; use step in \<open>auto simp: s quiet_moves\<close>)+
qed

interpretation ic: operation_ledger "ic_step sys" "\<lambda>s. ic_outstanding (fst s)" "\<lambda>s. ic_inv (fst s)" for sys
  by unfold_locales (blast dest: ic_step_spec, blast dest: ic_step_spec, simp add: ic_invD)

end
