(* ===== verification/Iocp_Closing.thy ===== *)
theory Iocp_Closing
  imports Iocp_Correct
begin

text \<open>
  What closing a handle and shutting down do to the stored operations: those the system does
  not hold complete at once, in submission order; the others are marked and their
  cancellation is requested.
\<close>

definition held_natively :: "'r iocp_backend \<Rightarrow> size_t \<Rightarrow> bool" where
  "held_natively b i \<longleftrightarrow>
     (case map_of (ic_operations b) i of None \<Rightarrow> False | Some st \<Rightarrow> st_native_submitted st)"

definition on_handle :: "'r iocp_backend \<Rightarrow> backend_handle_token \<Rightarrow> size_t \<Rightarrow> bool" where
  "on_handle b token i \<longleftrightarrow>
     (case map_of (ic_operations b) i of None \<Rightarrow> False | Some st \<Rightarrow> op_handle (st_operation st) = token)"

lemma on_handle_stored: "on_handle b token i \<Longrightarrow> i \<in> set (map fst (ic_operations b))"
  by (auto simp: on_handle_def dest!: map_of_SomeD intro: rev_image_eqI split: option.splits)

text \<open>The parts of the state that closing operations leaves alone.\<close>

definition same_frame :: "'r iocp_backend \<Rightarrow> 'r iocp_backend \<Rightarrow> bool" where
  "same_frame b b' \<longleftrightarrow> ic_fallback b' = ic_fallback b \<and> ic_stopped b' = ic_stopped b \<and>
     ic_initialization_error b' = ic_initialization_error b \<and>
     (\<not> ic_stopped b \<longrightarrow> ic_associations b' = ic_associations b \<and>
        ic_association_by_native_handle b' = ic_association_by_native_handle b \<and>
        ic_free_association_ids b' = ic_free_association_ids b)"

lemma same_frame_refl [simp]: "same_frame b b"
  by (simp add: same_frame_def)

lemma same_frame_trans: "same_frame b b1 \<Longrightarrow> same_frame b1 b2 \<Longrightarrow> same_frame b b2"
  by (simp add: same_frame_def)

lemma request_cancel_for_effect:
  assumes "map_of (ic_operations b) i = Some st"
    and "b' = fst (snd (request_cancel_for sys i storage (b, k)))"
  shows "map fst (ic_operations b') = map fst (ic_operations b) \<and>
    (\<forall>j. j \<noteq> i \<longrightarrow> map_of (ic_operations b') j = map_of (ic_operations b) j) \<and>
    (\<exists>c. map_of (ic_operations b') i = Some (st\<lparr>st_cancel_requested := c\<rparr>)) \<and>
    ic_completion_queue b' = ic_completion_queue b \<and> same_frame b b'"
proof -
  have "b' = b \<or> b' = b\<lparr>ic_operations := storage_modify i (\<lambda>st. st\<lparr>st_cancel_requested := True\<rparr>) (ic_operations b),
      ic_cancel_request_count := ic_cancel_request_count b + 1\<rparr>"
    using assms(2) by (auto simp: request_cancel_for_def split: prod.splits if_splits)
  moreover have "\<exists>c. st = st\<lparr>st_cancel_requested := c\<rparr>"
    by (rule exI [of _ "st_cancel_requested st"]) simp
  ultimately show ?thesis using assms(1) by (auto simp: same_frame_def)
qed

text \<open>One round of the closing loop on operation \<open>i\<close>.\<close>

definition closes :: "size_t set \<Rightarrow> backend_completion list \<Rightarrow> 'r iocp_backend \<Rightarrow> 'r iocp_backend \<Rightarrow> bool" where
  "closes ids cs b b' \<longleftrightarrow>
     ic_completion_queue b' = ic_completion_queue b @ cs \<and>
     map fst (ic_operations b') =
       filter (\<lambda>j. j \<in> ids \<longrightarrow> held_natively b j) (map fst (ic_operations b)) \<and>
     (\<forall>j. j \<notin> ids \<longrightarrow> map_of (ic_operations b') j = map_of (ic_operations b) j) \<and>
     (\<forall>j st. j \<in> ids \<longrightarrow> map_of (ic_operations b) j = Some st \<longrightarrow> st_native_submitted st \<longrightarrow>
        (\<exists>c. map_of (ic_operations b') j =
           Some (st\<lparr>st_close_requested := True, st_cancel_requested := c\<rparr>))) \<and>
     same_frame b b'"

lemma closes_refl: "closes {} [] b b"
  by (simp add: closes_def)

lemma closes_trans:
  assumes "closes I cs b b1" and "closes J ds b1 b2" and "I \<inter> J = {}"
  shows "closes (I \<union> J) (cs @ ds) b b2"
proof -
  note first = assms(1) [unfolded closes_def] and second = assms(2) [unfolded closes_def]
  have held: "held_natively b1 j = held_natively b j" if "j \<in> J" for j
    using first that assms(3) by (auto simp: held_natively_def)
  have "map fst (ic_operations b2) =
      filter (\<lambda>j. j \<in> J \<longrightarrow> held_natively b1 j) (filter (\<lambda>j. j \<in> I \<longrightarrow> held_natively b j) (map fst (ic_operations b)))"
    using first second by simp
  also have "\<dots> = filter (\<lambda>j. j \<in> I \<union> J \<longrightarrow> held_natively b j) (map fst (ic_operations b))"
    unfolding filter_filter by (rule filter_cong) (auto simp: held)
  finally have keys: "map fst (ic_operations b2) = \<dots>" .
  have "\<exists>c. map_of (ic_operations b2) j = Some (st\<lparr>st_close_requested := True, st_cancel_requested := c\<rparr>)"
    if "j \<in> I \<union> J" "map_of (ic_operations b) j = Some st" "st_native_submitted st" for j st
  proof (cases "j \<in> I")
    case True
    then have "j \<notin> J" using assms(3) by blast
    then show ?thesis using first second that True by simp
  next
    case False
    then have "map_of (ic_operations b1) j = Some st" "j \<in> J" using first that by auto
    then show ?thesis using second that(3) by blast
  qed
  then show ?thesis
    using first second keys same_frame_trans [of b b1 b2] unfolding closes_def by simp
qed

lemma close_one_closes:
  assumes inv: "ic_inv b" and st: "map_of (ic_operations b) i = Some st"
  defines "b1 \<equiv> b\<lparr>ic_operations := storage_modify i (\<lambda>st. st\<lparr>st_close_requested := True\<rparr>) (ic_operations b)\<rparr>"
    and "st1 \<equiv> st\<lparr>st_close_requested := True\<rparr>"
  shows "\<not> st_native_submitted st \<Longrightarrow> closes {i} [make_completion i res] b
      (fst (complete_operation_storage sys st1 res (b1, k)))"
    and "st_native_submitted st \<Longrightarrow> closes {i} [] b (fst (snd (request_cancel_for sys i st1 (b1, k))))"
proof -
  have st1: "map_of (ic_operations b1) i = Some st1" "op_id (st_operation st1) = i"
    using st ic_invD(8) [OF inv st] by (simp_all add: b1_def st1_def)
  show "closes {i} [make_completion i res] b (fst (complete_operation_storage sys st1 res (b1, k)))"
    (is "closes _ _ b ?b'") if native: "\<not> st_native_submitted st"
  proof -
    have b': "?b' = fst (erase_operation_storage sys i
        (b1\<lparr>ic_completion_queue := ic_completion_queue b1 @ [make_completion i res]\<rparr>, k))"
      using st1(2) by (simp add: complete_operation_storage_def Let_def)
    note fields = erase_operation_storage_fields [OF st1(1) b']
    have "\<not> held_natively b i" using st native by (simp add: held_natively_def)
    then have "map fst (ic_operations ?b') =
        filter (\<lambda>j. j \<in> {i} \<longrightarrow> held_natively b j) (map fst (ic_operations b))"
      unfolding fields(1) storage_erase_keys by (auto simp: b1_def intro: filter_cong)
    then show ?thesis
      using fields st native by (simp add: closes_def same_frame_def b1_def)
  qed
  show "closes {i} [] b (fst (snd (request_cancel_for sys i st1 (b1, k))))" if "st_native_submitted st"
  proof -
    have held: "filter (\<lambda>j. j \<in> {i} \<longrightarrow> held_natively b j) (map fst (ic_operations b)) = map fst (ic_operations b)"
      using st that by (auto simp: filter_id_conv held_natively_def)
    show ?thesis
      unfolding closes_def held
      using request_cancel_for_effect [OF st1(1) refl, of sys st1 k] st
      by (auto simp: b1_def st1_def same_frame_def)
  qed
qed

lemma close_each_closes:
  assumes "ic_inv (fst s)" and "distinct ids" and "\<forall>i \<in> set ids. map_of (ic_operations (fst s)) i \<noteq> None"
  shows "closes (set ids) (map (\<lambda>i. make_completion i closed_completion)
      (filter (\<lambda>i. \<not> held_natively (fst s) i) ids)) (fst s) (fst (snd (close_each sys ids first s)))"
  using assms
proof (induction ids arbitrary: first s)
  case Nil
  then show ?case by (simp add: closes_refl)
next
  case (Cons i ids)
  obtain b k where s: "s = (b, k)" by fastforce
  obtain st where st: "map_of (ic_operations b) i = Some st" using Cons.prems(3) s by auto
  let ?st1 = "st\<lparr>st_close_requested := True\<rparr>"
  let ?b1 = "b\<lparr>ic_operations := storage_modify i (\<lambda>st. st\<lparr>st_close_requested := True\<rparr>) (ic_operations b)\<rparr>"
  have inv: "ic_inv b" using Cons.prems(1) s by simp
  have rest: "closes (set (i # ids)) (cs @ map (\<lambda>i. make_completion i closed_completion)
      (filter (\<lambda>i. \<not> held_natively b i) ids)) b (fst (snd (close_each sys ids first' s1)))"
    if one: "closes {i} cs b (fst s1)" and inv1: "ic_inv (fst s1)" for cs s1 first'
  proof -
    have other: "map_of (ic_operations (fst s1)) j = map_of (ic_operations b) j" if "j \<in> set ids" for j
      using one that Cons.prems(2) by (auto simp: closes_def)
    have "filter (\<lambda>i. \<not> held_natively (fst s1) i) ids = filter (\<lambda>i. \<not> held_natively b i) ids"
      by (rule filter_cong) (simp_all add: held_natively_def other)
    then show ?thesis
      using closes_trans [OF one Cons.IH [OF inv1, of first']] Cons.prems(2,3) other by (simp add: s)
  qed
  show ?case
  proof (cases "st_native_submitted st")
    case True
    obtain r s1 where rc: "request_cancel_for sys i ?st1 (?b1, k) = (r, s1)" by (rule prod.exhaust)
    have "closes {i} [] b (fst s1)" "ic_inv (fst s1)"
      using close_one_closes(2) [OF inv st True, of sys k] close_one_moves(2) [OF st, of no_packet sys k] inv
      by (simp_all add: rc ic_moves_def)
    from rest [OF this] show ?thesis using True st by (simp add: s rc Let_def held_natively_def)
  next
    case False
    let ?s1 = "complete_operation_storage sys ?st1 closed_completion (?b1, k)"
    have "closes {i} [make_completion i closed_completion] b (fst ?s1)" "ic_inv (fst ?s1)"
      using close_one_closes(1) [OF inv st False, of closed_completion sys k]
        close_one_moves(1) [OF st False, of no_packet sys closed_completion k] inv
      by (simp_all add: ic_moves_def)
    from rest [OF this] show ?thesis using False st by (simp add: s Let_def held_natively_def)
  qed
qed

end
