(* ===== verification/Iocp_Keys.thy ===== *)
theory Iocp_Keys
  imports Iocp_Closing
begin

text \<open>
  Completion keys: packing is a bijection onto the keys that are not the wake sentinel, and the
  key of a closed association is retired. A packet that arrives late, under a retired key, is
  therefore never attributed to another handle.
\<close>

section \<open>Packing\<close>

lemma low_mask: "iocp_completion_key_low_mask = mask 32"
  by (simp add: iocp_completion_key_low_mask_def mask_eq_decr_exp)

lemma le_low_mask_iff: "(w :: uint64) \<le> mask 32 \<longleftrightarrow> take_bit 32 w = w"
proof -
  have "take_bit 32 w = w \<longleftrightarrow> take_bit 32 (unat w) = unat w"
    by (metis unsigned_take_bit_eq word_unat_eq_iff)
  also have "\<dots> \<longleftrightarrow> unat w < 2 ^ 32"
    by (rule take_bit_nat_eq_self_iff)
  also have "\<dots> \<longleftrightarrow> w \<le> mask 32"
    by (simp add: word_le_nat_alt mask_eq_exp_minus_1) linarith
  finally show ?thesis by simp
qed
lemma pack_halves:
  fixes g i :: uint64
  assumes "g \<le> mask 32" and "i \<le> mask 32"
  shows "(push_bit 32 g OR i) AND mask 32 = i" "drop_bit 32 (push_bit 32 g OR i) = g"
proof -
  have bit: "n < 32" if "w \<le> mask 32" "bit w n" for w :: uint64 and n
    using that unfolding le_low_mask_iff by (metis bit_take_bit_iff)
  show "(push_bit 32 g OR i) AND mask 32 = i"
    using bit [OF assms(2)]
    by (intro bit_word_eqI) (auto simp: bit_simps)
  show "drop_bit 32 (push_bit 32 g OR i) = g"
    using bit [OF assms(1)] bit [OF assms(2)]
    by (intro bit_word_eqI) (fastforce simp: bit_simps)
qed
lemma unpack_halves:
  fixes raw :: uint64
  shows "push_bit 32 (drop_bit 32 raw) OR (raw AND mask 32) = raw"
    "raw AND mask 32 \<le> mask 32" "drop_bit 32 raw \<le> mask 32"
proof -
  show "push_bit 32 (drop_bit 32 raw) OR (raw AND mask 32) = raw"
    by (intro bit_word_eqI) (auto simp: bit_simps)
  show "raw AND mask 32 \<le> mask 32" by (rule word_and_le1)
  show "drop_bit 32 raw \<le> mask 32"
    unfolding le_low_mask_iff by (intro bit_word_eqI) (auto simp: bit_simps dest: bit_imp_le_length)
qed

lemma halves_sentinel:
  fixes g i :: uint64
  assumes "g \<le> mask 32" and "i \<le> mask 32"
  shows "push_bit 32 g OR i = iocp_wake_completion_key \<longleftrightarrow> g = mask 32 \<and> i = mask 32"
proof -
  have "drop_bit 32 iocp_wake_completion_key = mask 32" "iocp_wake_completion_key AND mask 32 = mask 32"
    by (simp_all add: iocp_wake_completion_key_def mask_eq_decr_exp)
  then show ?thesis using pack_halves [OF assms] unpack_halves(1) [of iocp_wake_completion_key] by metis
qed

lemma pack_inverse:
  "pack_iocp_completion_key key = Inr raw \<longleftrightarrow> unpack_iocp_completion_key raw = Inr key"
proof
  assume pack: "pack_iocp_completion_key key = Inr raw"
  then have raw: "raw = push_bit 32 (key_generation key) OR key_association_id key"
    "\<not> is_iocp_wake_completion_key raw" "key_generation key \<le> mask 32" "key_association_id key \<le> mask 32"
    "key_association_id key \<noteq> 0" "key_generation key \<noteq> 0"
    by (auto simp: pack_iocp_completion_key_def Let_def low_mask split: if_splits)
  from pack_halves [OF raw(3,4)] raw show "unpack_iocp_completion_key raw = Inr key"
    by (simp add: unpack_iocp_completion_key_def Let_def low_mask)
next
  assume "unpack_iocp_completion_key raw = Inr key"
  then have key: "\<not> is_iocp_wake_completion_key raw" "key_association_id key = raw AND mask 32"
    "key_generation key = drop_bit 32 raw" "key_association_id key \<noteq> 0" "key_generation key \<noteq> 0"
    by (auto simp: unpack_iocp_completion_key_def Let_def low_mask split: if_splits)
  then show "pack_iocp_completion_key key = Inr raw"
    using unpack_halves [of raw] by (simp add: pack_iocp_completion_key_def Let_def low_mask not_less [symmetric])
qed

text \<open>
  C17. Completion keys: a raw key is the packing of an association token exactly when it unpacks
  to that token. So packing loses nothing and different associations or generations get different
  raw keys. No token packs to the wake sentinel and the sentinel unpacks to none, so a wake packet
  is never taken for a completion of a handle. The tokens that can be packed are exactly those
  with both parts between 1 and \<^verbatim>\<open>0xFFFFFFFF\<close>, except the one that would be the sentinel; and the raw
  keys that are read as tokens are exactly those with both halves nonzero, except the sentinel.
\<close>

theorem iocp_completion_key_bijection:
  "(pack_iocp_completion_key key = Inr raw \<longleftrightarrow> unpack_iocp_completion_key raw = Inr key) \<and>
   pack_iocp_completion_key key \<noteq> Inr iocp_wake_completion_key \<and>
   isl (unpack_iocp_completion_key iocp_wake_completion_key) \<and>
   (isl (pack_iocp_completion_key key) \<longleftrightarrow>
      key_association_id key = 0 \<or> key_generation key = 0 \<or>
      key_association_id key > 0xFFFFFFFF \<or> key_generation key > 0xFFFFFFFF \<or>
      key_association_id key = 0xFFFFFFFF \<and> key_generation key = 0xFFFFFFFF) \<and>
   (isl (unpack_iocp_completion_key raw) \<longleftrightarrow>
      raw AND 0xFFFFFFFF = 0 \<or> drop_bit 32 raw = 0 \<or> raw = 0xFFFFFFFFFFFFFFFF)"
proof -
  have m: "(0xFFFFFFFF :: uint64) = mask 32" by (simp add: mask_eq_decr_exp)
  have wake: "isl (unpack_iocp_completion_key iocp_wake_completion_key)"
    by (simp add: unpack_iocp_completion_key_def is_iocp_wake_completion_key_def)
  then have "pack_iocp_completion_key key \<noteq> Inr iocp_wake_completion_key"
    using pack_inverse [of key iocp_wake_completion_key] by auto
  moreover have "isl (pack_iocp_completion_key key) \<longleftrightarrow>
      key_association_id key = 0 \<or> key_generation key = 0 \<or>
      key_association_id key > mask 32 \<or> key_generation key > mask 32 \<or>
      key_association_id key = mask 32 \<and> key_generation key = mask 32"
    using halves_sentinel [of "key_generation key" "key_association_id key"]
    by (auto simp: pack_iocp_completion_key_def Let_def low_mask is_iocp_wake_completion_key_def not_less)
  moreover have "isl (unpack_iocp_completion_key raw) \<longleftrightarrow>
      raw AND mask 32 = 0 \<or> drop_bit 32 raw = 0 \<or> raw = 0xFFFFFFFFFFFFFFFF"
    by (auto simp: unpack_iocp_completion_key_def Let_def low_mask is_iocp_wake_completion_key_def
        iocp_wake_completion_key_def)
  ultimately show ?thesis unfolding m using pack_inverse wake by blast
qed

section \<open>Retired keys\<close>

text \<open>The entry of an association identifier, if the table has it.\<close>

definition association_at :: "size_t \<Rightarrow> association_entry list \<Rightarrow> association_entry option" where
  "association_at i entries =
     (if i = 0 \<or> unat i > length entries then None else Some (entries ! (unat i - 1)))"

definition entry_past :: "size_t \<Rightarrow> association_entry \<Rightarrow> bool" where
  "entry_past g e \<longleftrightarrow> g < as_generation e \<or>
     as_generation e = g \<and> \<not> as_open e \<and> (as_bump_generation_on_reuse e \<or> \<not> as_reusable e)"

definition key_retired :: "iocp_completion_key_token \<Rightarrow> 'r iocp_backend \<Rightarrow> bool" where
  "key_retired key b \<longleftrightarrow> ic_stopped b \<and> ic_associations b = [] \<or>
     (\<exists>e. association_at (key_association_id key) (ic_associations b) = Some e \<and>
        entry_past (key_generation key) e)"

lemma key_retired_not_current: "key_retired key b \<Longrightarrow> current_handle_for key b = None"
  by (auto simp: key_retired_def association_at_def entry_past_def current_handle_for_def Let_def
      unat_eq_zero split: if_splits)

lemma association_at_update:
  assumes "0 < n" and "n \<le> length entries"
  shows "association_at i (entries[n - 1 := e]) =
    (if unat i = n then Some e else association_at i entries)"
proof -
  have "unat i - 1 = n - 1 \<longleftrightarrow> unat i = n" if "i \<noteq> 0"
    using that assms(1) unat_gt_0 [of i] by auto
  then show ?thesis
    using assms by (auto simp: association_at_def nth_list_update)
qed

lemma association_at_append:
  "association_at i entries = Some e \<Longrightarrow> association_at i (entries @ es) = Some e"
  using unat_gt_0 [of i] by (auto simp: association_at_def nth_append split: if_splits)

text \<open>A change of the table under which every retired key stays retired.\<close>

definition keeps_retired :: "association_entry list \<Rightarrow> association_entry list \<Rightarrow> bool" where
  "keeps_retired entries entries' \<longleftrightarrow>
     (\<forall>i g e. association_at i entries = Some e \<and> entry_past g e \<longrightarrow>
        (\<exists>e'. association_at i entries' = Some e' \<and> entry_past g e'))"

lemma keeps_retired_refl [simp, intro]: "keeps_retired entries entries"
  by (auto simp: keeps_retired_def)

lemma keeps_retired_trans: "keeps_retired es es1 \<Longrightarrow> keeps_retired es1 es2 \<Longrightarrow> keeps_retired es es2"
  unfolding keeps_retired_def by blast

lemma keeps_retired_append: "keeps_retired entries (entries @ es)"
  using association_at_append by (auto simp: keeps_retired_def)

lemma keeps_retired_update:
  assumes "i \<noteq> 0" and "unat i \<le> length entries"
    and "\<And>g. entry_past g (entries ! (unat i - 1)) \<Longrightarrow> entry_past g e'"
  shows "keeps_retired entries (entries[unat i - 1 := e'])"
proof -
  have "0 < unat i" using assms(1) by (simp add: unat_gt_0)
  then show ?thesis
    using assms association_at_update [of "unat i" entries _ e']
    by (auto simp: keeps_retired_def association_at_def)
qed

lemma entry_past_bump:
  fixes g :: size_t
  assumes "entry_past g e" and "\<not> as_open e" and "as_reusable e"
    and "as_bump_generation_on_reuse e \<Longrightarrow> as_generation e < iocp_completion_key_low_mask"
    and "gen = (if as_bump_generation_on_reuse e then as_generation e + 1
      else if as_generation e = 0 then 1 else as_generation e)"
  shows "g < gen"
proof (cases "as_bump_generation_on_reuse e")
  case True
  have "as_generation e < as_generation e + 1"
    using word_add_one_gt assms(4) [OF True] by (metis not_less word_order.extremum)
  then show ?thesis using assms True by (auto simp: entry_past_def)
next
  case False
  then show ?thesis using assms by (auto simp: entry_past_def)
qed

lemma reuse_association_keeps:
  assumes "reuse_association token free entries = (r, free', entries')"
  shows "keeps_retired entries entries' \<and>
    (\<forall>key. r = Some (Inr key) \<longrightarrow> (\<exists>e. association_at (key_association_id key) entries' = Some e \<and>
        as_open e \<and> as_generation e = key_generation key \<and> as_token e = token))"
  using assms
proof (induction token free entries rule: reuse_association.induct)
  case (1 token entries)
  then show ?case by auto
next
  case (2 token i free entries)
  let ?e = "entries ! (unat i - 1)"
  show ?case
  proof (cases "i = 0 \<or> unat i > length entries")
    case True
    then show ?thesis using 2 by simp
  next
    case valid: False
    show ?thesis
    proof (cases "as_open ?e \<or> \<not> as_reusable ?e")
      case True
      then show ?thesis using 2 valid by (simp add: Let_def)
    next
      case reusable: False
      show ?thesis
      proof (cases "as_bump_generation_on_reuse ?e \<and> as_generation ?e \<ge> iocp_completion_key_low_mask")
        case True
        let ?es1 = "entries[unat i - 1 := ?e\<lparr>as_reusable := False, as_bump_generation_on_reuse := False\<rparr>]"
        have "keeps_retired entries ?es1"
          using valid reusable by (intro keeps_retired_update) (auto simp: entry_past_def)
        then show ?thesis
          using "2.IH"(3) [OF valid refl refl reusable True] "2.prems" valid reusable True keeps_retired_trans
          by (auto simp: Let_def)
      next
        case False
        define gen where "gen = (if as_bump_generation_on_reuse ?e then as_generation ?e + 1
          else if as_generation ?e = 0 then 1 else as_generation ?e)"
        have past: "keeps_retired entries (entries[unat i - 1 := e'])" if "as_generation e' = gen" for e'
          using valid reusable False entry_past_bump [of _ ?e gen] that
          by (intro keeps_retired_update) (auto simp: gen_def entry_past_def)
        have "association_at i (entries[unat i - 1 := e']) = Some e'" for e'
          using valid association_at_update [of "unat i" entries i e'] by (simp add: unat_gt_0)
        moreover define e1 where "e1 = ?e\<lparr>as_generation := gen, as_reusable := False,
          as_bump_generation_on_reuse := False\<rparr>"
        define key where "key = \<lparr>key_association_id = i, key_generation = gen\<rparr>"
        have "(r, free', entries') = (case pack_iocp_completion_key key of
            Inl err \<Rightarrow> (Some (Inl err), free, entries[unat i - 1 := e1])
          | Inr _ \<Rightarrow> (Some (Inr key), free, entries[unat i - 1 := e1\<lparr>as_token := token, as_open := True\<rparr>]))"
          using "2.prems" [symmetric] unfolding reuse_association.simps Let_def gen_def [symmetric]
            if_not_P [OF valid] if_not_P [OF reusable] if_not_P [OF False] e1_def key_def by simp
        ultimately show ?thesis
          using past by (auto simp: e1_def key_def split: sum.splits)
      qed
    qed
  qed
qed

lemma create_association_keeps:
  assumes "create_association token b = (r, b')"
    and cap: "io_association_capacity (ic_options b) \<le> iocp_max_association_count"
  shows "keeps_retired (ic_associations b) (ic_associations b') \<and> ic_stopped b' = ic_stopped b \<and>
    (\<forall>key. r = Inr key \<longrightarrow> (\<exists>e. association_at (key_association_id key) (ic_associations b') = Some e \<and>
        as_open e \<and> as_generation e = key_generation key))"
proof -
  obtain r1 free entries
    where reuse: "reuse_association token (ic_free_association_ids b) (ic_associations b) = (r1, free, entries)"
    by (metis prod_cases3)
  note keeps = reuse_association_keeps [OF reuse]
  show ?thesis
  proof (cases r1)
    case (Some r2)
    then show ?thesis
      using assms reuse keeps by (cases r2) (auto simp: create_association_def)
  next
    case None
    have new: "association_at (of_nat (length entries) + 1) (entries @ [e]) = Some e"
      if "length entries < io_association_capacity (ic_options b)" for e
    proof -
      have small: "length entries < 32768" using that cap by (simp add: iocp_max_association_count_def)
      then have "unat (of_nat (Suc (length entries)) :: size_t) = Suc (length entries)"
        by (simp only: unsigned_of_nat) (simp add: take_bit_nat_eq_self)
      moreover have "(of_nat (length entries) + 1 :: size_t) = of_nat (Suc (length entries))" by simp
      ultimately show ?thesis by (auto simp: association_at_def simp del: of_nat_Suc)
    qed
    show ?thesis
      using assms reuse None keeps new keeps_retired_append [of entries] keeps_retired_trans
      by (auto simp: create_association_def Let_def split: if_splits sum.splits)
  qed
qed

lemma rollback_association_keeps:
  assumes "association_at (key_association_id key) (ic_associations b) = Some e"
    and "as_open e" and "as_generation e = key_generation key"
  shows "keeps_retired (ic_associations b) (ic_associations (rollback_association key b))"
  using assms
  by (auto simp: rollback_association_def association_at_def Let_def entry_past_def
      intro!: keeps_retired_update [unfolded One_nat_def] split: if_splits)

lemma close_association_keeps:
  "keeps_retired (ic_associations b) (ic_associations (close_association token b))"
  by (auto simp: close_association_def Let_def entry_past_def intro!: keeps_retired_update [unfolded One_nat_def]
      split: option.split)

text \<open>Closing an association retires its key.\<close>

lemma close_association_retires:
  assumes "completion_key_for token b = Inr key"
    and "ic_associations b1 = ic_associations b"
    and "ic_association_by_native_handle b1 = ic_association_by_native_handle b"
  shows "key_retired key (close_association token b1)"
proof -
  obtain i where i: "ic_association_by_native_handle b (native_handle token) = Some i" "i \<noteq> 0"
    "unat i \<le> length (ic_associations b)" "key_association_id key = i"
    "as_token (ic_associations b ! (unat i - 1)) = token"
    "key_generation key = as_generation (ic_associations b ! (unat i - 1))"
    using assms(1)
    by (auto simp: completion_key_for_def Let_def split: option.splits if_splits)
  have "association_at i ((ic_associations b)[unat i - 1 := e]) = Some e" for e
    using i(2,3) association_at_update [of "unat i" "ic_associations b" i e] by (simp add: unat_gt_0)
  then show ?thesis
    using i assms(2,3) by (auto simp: key_retired_def close_association_def Let_def entry_past_def)
qed

section \<open>Preservation by the calls\<close>

definition retires :: "'r iocp_backend \<Rightarrow> 'r iocp_backend \<Rightarrow> bool" where
  "retires b b' \<longleftrightarrow> (\<forall>key. key_retired key b \<longrightarrow> key_retired key b')"

lemma retires_refl [simp, intro]: "retires b b"
  by (simp add: retires_def)

lemma retires_trans: "retires b b1 \<Longrightarrow> retires b1 b2 \<Longrightarrow> retires b b2"
  by (simp add: retires_def)

lemma retires_table:
  assumes "\<not> ic_stopped b" and "keeps_retired (ic_associations b) (ic_associations b')"
  shows "retires b b'"
  using assms unfolding retires_def key_retired_def keeps_retired_def by blast

lemma retires_same:
  "ic_stopped b' = ic_stopped b \<Longrightarrow> ic_associations b' = ic_associations b \<Longrightarrow> retires b b'"
  by (simp add: retires_def key_retired_def)

lemma retires_stopped: "ic_stopped b' \<Longrightarrow> ic_associations b' = [] \<Longrightarrow> retires b b'"
  by (simp add: retires_def key_retired_def)

lemma maybe_close_retires: "retires b (fst (maybe_close_stopped_port sys (b, k)))"
proof (cases "ic_stopped b \<and> ic_operations b = []")
  case True
  then show ?thesis
    by (intro retires_stopped) (simp_all add: maybe_close_stopped_port_def close_owned_port_def
        split: option.split)
next
  case False
  then show ?thesis unfolding maybe_close_stopped_port_def by auto
qed

lemma erase_retires: "retires b (fst (erase_operation_storage sys i (b\<lparr>ic_completion_queue := q\<rparr>, k)))"
  by (auto simp: erase_operation_storage_def split: option.split
      intro: retires_same retires_trans [OF retires_same maybe_close_retires])

lemma observe_native_packet_retires: "retires (fst s) (fst (observe_native_packet sys p s))"
  by (cases s) (auto simp: observe_native_packet_def complete_native_operation_def erase_retires
      intro: retires_same split: option.split)

lemma observe_queued_loop_retires: "retires (fst s) (fst (snd (observe_queued_loop sys room n s)))"
proof (induction sys room n s rule: observe_queued_loop.induct)
  case (2 sys room n b k)
  have "retires b (fst (observe_native_packet sys p (b\<lparr>ic_native_packets := ps\<rparr>, k)))" for p ps
    using retires_trans [OF retires_same observe_native_packet_retires [of "(b\<lparr>ic_native_packets := ps\<rparr>, k)"]]
    by simp
  then show ?case using 2 by (cases "ic_native_packets b") (auto intro: retires_trans)
qed simp

lemma observe_entries_retires: "retires (fst s) (fst (fold (observe_entry sys) entries s))"
proof (induction entries arbitrary: s)
  case (Cons e entries)
  have "retires (fst s) (fst (observe_entry sys e s))"
    using observe_native_packet_retires [of s] by (simp add: observe_entry_def split: sum.split)
  from retires_trans [OF this Cons.IH] show ?case by simp
qed simp

lemma ic_poll_retires: "retires (fst s) (fst (snd (ic_poll sys s)))"
proof -
  obtain b k where s: "s = (b, k)" by fastforce
  obtain n b1 k1 where q: "observe_queued_native_packets sys s = (n, b1, k1)" by (metis prod_cases3)
  have first: "retires b b1"
    using observe_queued_loop_retires [of s sys "io_completion_batch_limit (ic_options b)" 0] q
    by (simp add: observe_queued_native_packets_def s)
  have "retires b (fst (fold (observe_entry sys) entries (b1, k2)))" for entries k2
    using first observe_entries_retires [of "(b1, k2)" sys entries] retires_trans by auto
  then show ?thesis
    using first q by (auto simp: ic_poll_def observe_native_completions_def s
        split: option.split prod.split sum.split)
qed

lemma ic_register_retires:
  assumes "ic_inv (fst s)"
  shows "retires (fst s) (fst (snd (ic_register_handle sys h s)))"
proof -
  obtain b k where s: "s = (b, k)" by fastforce
  show ?thesis
  proof (cases "ic_stopped b")
    case True
    then show ?thesis by (simp add: s ic_register_handle_def)
  next
    case open_b: False
    obtain r f where reg: "vb_register_handle h (ic_fallback b) = (r, f)" by fastforce
    have cap: "io_association_capacity (ic_options (b\<lparr>ic_fallback := f\<rparr>)) \<le> iocp_max_association_count"
      using ic_invD(9) [OF assms] by (simp add: s)
    have created: "retires b (b1\<lparr>ic_fallback := g\<rparr>)" "retires b b1"
      "r1 = Inr key \<Longrightarrow> retires b (rollback_association key b1\<lparr>ic_fallback := g\<rparr>)"
      if c: "create_association token (b\<lparr>ic_fallback := f\<rparr>) = (r1, b1)" for token r1 b1 g key
    proof -
      note keeps = create_association_keeps [OF c cap]
      show "retires b (b1\<lparr>ic_fallback := g\<rparr>)" "retires b b1"
        using keeps open_b by (auto intro!: retires_table)
      assume "r1 = Inr key"
      with keeps rollback_association_keeps [of key b1] keeps_retired_trans
      show "retires b (rollback_association key b1\<lparr>ic_fallback := g\<rparr>)"
        using open_b by (auto intro!: retires_table)
    qed
    have plain: "retires b (b\<lparr>ic_fallback := g\<rparr>)" for g by (simp add: retires_same)
    show ?thesis
      using reg created plain
      by (simp add: s ic_register_handle_def Let_def split: sum.split prod.split)
  qed
qed

lemma ic_cancel_retires: "retires (fst s) (fst (snd (ic_cancel sys i reason s)))"
proof -
  obtain b k where s: "s = (b, k)" by fastforce
  have modified: "retires b (b\<lparr>ic_operations := ops\<rparr>)"
    "retires b (b\<lparr>ic_operations := ops, ic_cancel_request_count := n\<rparr>)" for ops n
    by (simp_all add: retires_same)
  have erased: "retires b (fst (complete_operation_storage sys st res (b\<lparr>ic_operations := ops\<rparr>, k)))"
    for st res ops
    by (rule retires_trans [OF modified(1) [of ops]])
      (simp add: complete_operation_storage_def Let_def erase_retires)
  show ?thesis
    using modified erased
    by (simp add: s ic_cancel_def request_cancel_for_def Let_def split: option.split sum.split prod.split)
qed

text \<open>The identifiers that closing and shutting down select are stored operations.\<close>

lemma selected_ids:
  assumes "ic_inv b"
  shows "distinct (filter Q (ic_operation_submission_order b))"
  using ic_invD(4,5) [OF assms] by simp

lemma mark_close_requested_closes:
  assumes inv: "ic_inv b" and "mark_close_requested sys token (b, k) = (r, b', k')"
  shows "closes {i. on_handle b token i} (map (\<lambda>i. make_completion i closed_completion)
    (filter (\<lambda>i. on_handle b token i \<and> \<not> held_natively b i) (map fst (ic_operations b)))) b b'"
proof -
  let ?ids = "filter (on_handle b token) (ic_operation_submission_order b)"
  have "b' = fst (snd (close_each sys ?ids None (b, k)))"
    using assms(2) by (auto simp: mark_close_requested_def on_handle_def [abs_def] Let_def split: prod.splits)
  moreover have "\<exists>st. map_of (ic_operations b) i = Some st" if "on_handle b token i" for i
    using that by (auto simp: on_handle_def split: option.splits)
  moreover have "set ?ids = {i. on_handle b token i}"
    using on_handle_stored [of b token] ic_invD(5) [OF inv] by auto
  ultimately show ?thesis
    using close_each_closes [of "(b, k)" ?ids sys None] selected_ids [OF inv] inv ic_invD(5) [OF inv]
    by (simp add: conj_commute)
qed

lemma mark_shutdown_requested_closes:
  assumes inv: "ic_inv b" and "mark_shutdown_requested sys (b, k) = (r, b', k')"
  shows "closes (set (map fst (ic_operations b))) (map (\<lambda>i. make_completion i closed_completion)
    (filter (\<lambda>i. \<not> held_natively b i) (map fst (ic_operations b)))) b b'"
proof -
  let ?ids = "filter (\<lambda>i. map_of (ic_operations b) i \<noteq> None) (ic_operation_submission_order b)"
  have "?ids = map fst (ic_operations b)"
    using ic_invD(5) [OF inv] by (simp add: filter_id_conv map_of_eq_None_iff flip: not_None_eq)
  moreover have "b' = fst (snd (close_each sys ?ids None (b, k)))"
    using assms(2) by (auto simp: mark_shutdown_requested_def Let_def split: prod.splits)
  moreover have "\<forall>i \<in> set ?ids. map_of (ic_operations b) i \<noteq> None" by simp
  ultimately show ?thesis
    using close_each_closes [of "(b, k)" ?ids sys None] selected_ids [OF inv] inv by (metis fst_conv)
qed

lemma ic_close_retires:
  assumes inv: "ic_inv (fst s)"
  shows "retires (fst s) (fst (snd (ic_close_handle sys token s)))"
proof -
  obtain b k where s: "s = (b, k)" by fastforce
  obtain r b1 k1 where m: "mark_close_requested sys token (b, k) = (r, b1, k1)" by (metis prod_cases3)
  have "same_frame b b1"
    using mark_close_requested_closes [OF _ m] inv s unfolding closes_def by simp
  then have "ic_associations b1 = ic_associations b" if "\<not> ic_stopped b" using that by (simp add: same_frame_def)
  then have "retires b (b1\<lparr>ic_fallback := f\<rparr>)"
    "retires b (close_association token (b1\<lparr>ic_fallback := f\<rparr>))" if "\<not> ic_stopped b" for f
    using that close_association_keeps [of "b1\<lparr>ic_fallback := f\<rparr>" token] by (auto intro!: retires_table)
  then show ?thesis
    using m by (auto simp: s ic_close_handle_def split: sum.split prod.split)
qed

lemma ic_shutdown_retires:
  assumes inv: "ic_inv (fst s)"
  shows "retires (fst s) (fst (snd (ic_shutdown sys s)))"
proof -
  obtain b k where s: "s = (b, k)" by fastforce
  obtain r b1 k1 where m: "mark_shutdown_requested sys (b, k) = (r, b1, k1)" by (metis prod_cases3)
  have "same_frame b b1"
    using mark_shutdown_requested_closes [OF _ m] inv s unfolding closes_def by simp
  then have "retires b (fst (maybe_close_stopped_port sys (b1\<lparr>ic_stopped := True, ic_fallback := f\<rparr>, k1)))"
    if "\<not> ic_stopped b" for f
    using that
    by (intro retires_trans [OF retires_table maybe_close_retires]) (simp_all add: same_frame_def)
  then show ?thesis
    using m by (auto simp: s ic_shutdown_def split: prod.split)
qed

lemma helper_retires:
  "retires (fst s) (fst (snd (ic_submit sys operation s)))"
  "retires b (snd (snd (ic_drain_completions out b)))"
  "retires (fst s) (fst (snd (ic_wake sys s)))"
  "retires b (snd (queue_iocp_test_packet key n overlapped status b))"
  "retires b (snd (mark_iocp_operation_native_submitted i b))"
  "retires b (snd (drain_iocp_native_packets room b))"
  "retires (fst s) (fst (snd (post_iocp_test_packet sys key n overlapped s)))"
proof -
  show "retires (fst s) (fst (snd (ic_submit sys operation s)))"
    by (cases s) (auto simp: ic_submit_def Let_def intro: retires_same split: sum.split prod.split)
  show "retires b (snd (snd (ic_drain_completions out b)))"
    by (simp add: ic_drain_completions_def Let_def ic_drain_loop_eq retires_same split: prod.split)
  show "retires (fst s) (fst (snd (ic_wake sys s)))"
    by (cases s) (simp add: ic_wake_def split: sum.split prod.split)
  show "retires b (snd (queue_iocp_test_packet key n overlapped status b))"
    by (simp add: queue_iocp_test_packet_def retires_same split: sum.split)
  show "retires b (snd (mark_iocp_operation_native_submitted i b))"
    by (simp add: mark_iocp_operation_native_submitted_def retires_same split: option.split)
  show "retires b (snd (drain_iocp_native_packets room b))"
    by (simp add: drain_iocp_native_packets_def Let_def retires_same)
  show "retires (fst s) (fst (snd (post_iocp_test_packet sys key n overlapped s)))"
    by (cases s) (simp add: post_iocp_test_packet_def split: sum.split prod.split)
qed

lemma ic_step_retires:
  assumes "ic_inv (fst s)" and "ic_step sys op s = (a, d, s')"
  shows "retires (fst s) (fst s')"
proof -
  obtain b k where s: "s = (b, k)" by fastforce
  note calls = ic_register_retires [OF assms(1), of sys] ic_close_retires [OF assms(1), of sys]
    ic_shutdown_retires [OF assms(1), of sys] ic_cancel_retires [of s sys] ic_poll_retires [of s sys]
    helper_retires(1,3,7) [of s sys] helper_retires(2,4-6) [of b]
  show ?thesis
  proof (cases op)
    case (Ic_submit operation)
    then show ?thesis using assms(2) helper_retires(1) [of s sys operation] by (auto split: prod.splits)
  next
    case (Ic_drain out)
    then show ?thesis using assms(2) helper_retires(2) [of b out] by (auto simp: s split: prod.splits)
  qed (use assms(2) calls in \<open>auto simp: s\<close>)
qed

lemma run_retires:
  assumes "ic_inv (fst s)" and "ledger_run (ic_step sys) ops s = (as, ds, s')"
  shows "retires (fst s) (fst s')"
  using assms
proof (induction ops arbitrary: s as ds)
  case (Cons op ops)
  obtain a d s1 as1 ds1 where st: "ic_step sys op s = (a, d, s1)"
    and run: "ledger_run (ic_step sys) ops s1 = (as1, ds1, s')"
    using Cons.prems(2) by (auto simp: Let_def split: prod.splits)
  have "ic_inv (fst s1)" using ic_step_spec [OF Cons.prems(1) st] by blast
  then show ?case
    using Cons.IH [OF _ run] ic_step_retires [OF Cons.prems(1) st] retires_trans by blast
qed simp

end
