(* ===== verification/Iocp_Contract.thy ===== *)
theory Iocp_Contract
  imports Iocp_Keys
begin

text \<open>
  The theorems on the IOCP backend, for every state that a new backend reaches by any sequence
  of calls, with a completion port that returns what it likes.
\<close>

lemma reachable_inv:
  assumes "ledger_run (ic_step sys) ops (ic_create sys opts k0) = (as, ds, s)"
  shows "ic_inv (fst s)"
  using ic.run_balance [OF ic_inv_create assms] by blast

lemma close_current:
  assumes "vb_stopped f0 = stopped" and "\<not> stopped" and "vb_is_current_handle token f0"
  obtains f where "vb_close_handle token f0 = (Inr (), f)" and "\<not> vb_is_current_handle token f"
  using assms
  by (auto simp: vb_close_handle_def reg_close_def vb_is_current_handle_def reg_is_current_def
      vb_complete_pending_def complete_loop_eq split: option.splits if_splits)

section \<open>A scripted completion port\<close>

text \<open>
  The port of the witnesses: the state is the list of entries the port returns next and the
  address of the next storage; cancellation requests find nothing.
\<close>

definition scripted_port :: "(overlapped_entry list \<times> uint64) iocp_sys" where
  "scripted_port = \<lparr>
     is_create_port = (\<lambda>k. (Inr 1, k)),
     is_associate = (\<lambda>h port raw k. (Inr (), k)),
     is_post = (\<lambda>port n raw overlapped (es, a). (Inr (), es @
        [\<lparr>oe_completion_key = raw, oe_overlapped = overlapped, oe_internal = 0,
          oe_bytes_transferred = n\<rparr>], a)),
     is_get_queued = (\<lambda>port n (es, a). if es = [] then (Inl WAIT_TIMEOUT, es, a)
        else (Inr (take n es), drop n es, a)),
     is_cancel_io = (\<lambda>h overlapped k. (Inl ERROR_NOT_FOUND, k)),
     is_close_port = (\<lambda>port k. k),
     is_new_storage = (\<lambda>(es, a). (a, es, a + 64))\<rparr>"

definition port_options :: iocp_backend_options where
  "port_options = \<lparr>io_completion_batch_limit = 4, io_native_packet_capacity = 4,
     io_association_capacity = 4\<rparr>"

definition port_read :: "size_t \<Rightarrow> unit backend_operation" where
  "port_read i = \<lparr>op_id = i, op_kind = op_read, op_target = target_socket, op_scheduler = (),
     op_handle = \<lparr>native_handle = 5, generation = 1\<rparr>, op_read_buffer = \<lparr>span_data = 64, span_size = 8\<rparr>,
     op_write_buffer = \<lparr>span_data = 0, span_size = 0\<rparr>,
     op_socket_address = \<lparr>span_data = 0, span_size = 0\<rparr>, op_offset = 0\<rparr>"

definition port_calls :: "unit iocp_op list" where
  "port_calls = [Ic_register 5, Ic_submit (port_read 9), Ic_submit (port_read 10), Ic_mark_submitted 9]"

definition port_storage :: "size_t \<Rightarrow> bool \<Rightarrow> uint64 \<Rightarrow> unit operation_storage" where
  "port_storage i native overlapped = \<lparr>st_operation = port_read i,
     st_completion_key = \<lparr>key_association_id = 1, key_generation = 1\<rparr>, st_cancellation = None,
     st_cancel_requested = False, st_close_requested = False, st_native_submitted = native,
     st_overlapped = overlapped\<rparr>"

definition port_backend :: "unit iocp_backend" where
  "port_backend = \<lparr>ic_options = port_options,
     ic_fallback = snd (vb_register_handle 5 vb_init),
     ic_native_packets = [], ic_completion_queue = [],
     ic_operations = [(9, port_storage 9 True 4096), (10, port_storage 10 False 4160)],
     ic_operation_submission_order = [9, 10],
     ic_operation_id_by_overlapped = [4096 \<mapsto> 9, 4160 \<mapsto> 10],
     ic_active_operation_ids = {10, 9},
     ic_associations = [\<lparr>as_id = 1, as_token = \<lparr>native_handle = 5, generation = 1\<rparr>,
       as_generation = 1, as_open = True, as_reusable = False, as_bump_generation_on_reuse = False\<rparr>],
     ic_free_association_ids = [], ic_association_by_native_handle = [5 \<mapsto> 1],
     ic_completion_port = Some 1, ic_stopped = False, ic_initialization_error = None,
     ic_cancel_request_count = 0\<rparr>"

lemmas port_eval = port_calls_def port_read_def port_options_def scripted_port_def ic_create_def
  ic_normalize_options_def iocp_max_completion_batch_limit_def iocp_max_native_packet_capacity_def
  iocp_max_association_count_def vb_init_def ic_register_handle_def ic_initialization_result_def
  vb_register_handle_def reg_register_def reg_lookup_def to_backend_token_def create_association_def
  pack_iocp_completion_key_def iocp_completion_key_low_mask_def is_iocp_wake_completion_key_def
  iocp_wake_completion_key_def ic_submit_def validate_operation_for_submit_def
  is_valid_backend_operation_shape_def is_socket_backend_operation_def vb_is_current_handle_def
  reg_is_current_def to_native_token_def completion_key_for_def
  mark_iocp_operation_native_submitted_def storage_modify_def Let_def

text \<open>A handle, two reads of which the system holds the first.\<close>

lemma port_run:
  "ledger_run (ic_step scripted_port) port_calls (ic_create scripted_port port_options ([], 4096)) =
    ([9, 10], [], port_backend, [], 4224)"
  by (simp add: port_eval port_backend_def port_storage_def)

section \<open>Theorems\<close>

text \<open>
  C14. The IOCP backend delivers every accepted operation exactly once: after any sequence of calls
  on a new backend, with the completion port returning arbitrary, duplicate or stale packets and
  system calls failing at will, the accepted identifiers are the delivered ones together with
  those still stored or completed, each exactly once; the identifiers held active are exactly the
  outstanding ones, and the completion port is open as long as an operation is stored.
\<close>

theorem iocp_exactly_once:
  assumes "ledger_run (ic_step sys) ops (ic_create sys opts k) = (accepted, delivered, b, k')"
  shows "mset accepted = mset delivered + mset (map fst (ic_operations b)) +
      mset (map bc_operation_id (ic_completion_queue b)) \<and>
    distinct (map fst (ic_operations b) @ map bc_operation_id (ic_completion_queue b)) \<and>
    ic_active_operation_ids b = fst ` set (ic_operations b) \<union> bc_operation_id ` set (ic_completion_queue b) \<and>
    (ic_operations b \<noteq> [] \<longrightarrow> ic_completion_port b \<noteq> None)"
proof -
  have "ic_outstanding (fst (ic_create sys opts k)) = []"
    by (simp add: ic_create_def ic_outstanding_def Let_def split: prod.split sum.split)
  note run = ic.run_exactly_once [OF ic_inv_create this assms]
  have inv: "ic_inv b" using reachable_inv [OF assms] by simp
  have "ic_completion_port b \<noteq> None" if "ic_operations b \<noteq> []"
    using that ic_invD(6,7) [OF inv] by metis
  moreover have "ic_active_operation_ids b = set (ic_outstanding b)" using inv by (rule ic_invD)
  ultimately show ?thesis using run by (simp add: ic_outstanding_def add.assoc)
qed

theorem iocp_exactly_once_witness:
  "mset [9, 10] = mset (map fst (ic_operations port_backend)) +
      mset (map bc_operation_id (ic_completion_queue port_backend)) \<and>
    ic_completion_port port_backend \<noteq> None"
proof -
  have "ic_operations port_backend \<noteq> []" by (simp add: port_backend_def)
  then show ?thesis using iocp_exactly_once [OF port_run] by simp
qed

text \<open>
  C15. Storage that the system holds is never freed early: an operation marked as submitted to the
  system keeps its storage, with the same \<^verbatim>\<open>OVERLAPPED\<close> address, through every call, cancelling it,
  closing its handle and shutting down included. Only a \<^verbatim>\<open>poll\<close> that observes a packet with
  that address and the completion key of the operation releases it. Meanwhile the terminal
  state is settled once: the first reason of cancellation is kept, a close request stays, and a
  cancellation after it records no reason.
\<close>

theorem iocp_storage_retained:
  assumes "ledger_run (ic_step sys) ops (ic_create sys opts k0) = (as, ds, s)"
    and "map_of (ic_operations (fst s)) i = Some st" and "st_native_submitted st"
    and "ic_step sys op s = (a, d, s')"
  shows "(\<exists>st'. map_of (ic_operations (fst s')) i = Some st' \<and> st_native_submitted st' \<and>
      st_operation st' = st_operation st \<and> st_overlapped st' = st_overlapped st \<and>
      (st_close_requested st \<longrightarrow> st_close_requested st') \<and>
      (st_cancellation st \<noteq> None \<or> st_close_requested st \<longrightarrow>
         st_cancellation st' = st_cancellation st)) \<or>
    op = Ic_poll \<and> packet_observed sys s (st_overlapped st) (st_completion_key st)"
proof -
  have "ic_retains (step_frees sys op s) (fst s) (fst s')"
    using ic_step_spec [OF reachable_inv [OF assms(1)] assms(4)] by blast
  with assms(2,3) show ?thesis unfolding ic_retains_def step_frees_def still_held_def settles_def by blast
qed

theorem iocp_storage_retained_witness:
  "\<exists>st'. map_of (ic_operations (fst (snd (snd (ic_step scripted_port
      (Ic_close \<lparr>native_handle = 5, generation = 1\<rparr>) (port_backend, [], 4224)))))) 9 = Some st' \<and>
    st_overlapped st' = 4096"
proof -
  have st: "map_of (ic_operations (fst (port_backend, [] :: overlapped_entry list, 4224 :: uint64))) 9 =
      Some (port_storage 9 True 4096)" "st_native_submitted (port_storage 9 True 4096)"
    by (simp_all add: port_backend_def port_storage_def)
  obtain a d s' where step: "ic_step scripted_port (Ic_close \<lparr>native_handle = 5, generation = 1\<rparr>)
      (port_backend, [], 4224) = (a, d, s')" by (metis prod_cases3)
  show ?thesis
    using iocp_storage_retained [OF port_run st step] unfolding step by (auto simp: port_storage_def)
qed

text \<open>
  Closing a handle: on a running backend and a current handle token, the operations on the
  handle that the system does not hold complete with \<^verbatim>\<open>closed\<close>, in submission order, after the
  completions that were already queued; those it holds stay stored and are marked to complete as
  closed; operations on other handles are untouched; and the token is no longer current.
\<close>

theorem iocp_close_handle:
  assumes "ledger_run (ic_step sys) ops (ic_create sys opts k0) = (as, ds, b, k)"
    and "\<not> ic_stopped b" and "ic_initialization_error b = None"
    and "vb_is_current_handle token (ic_fallback b)"
    and "ic_close_handle sys token (b, k) = (r, b', k')"
  shows "ic_completion_queue b' = ic_completion_queue b @ map (\<lambda>i. make_completion i closed_completion)
      (filter (\<lambda>i. on_handle b token i \<and> \<not> held_natively b i) (map fst (ic_operations b))) \<and>
    map fst (ic_operations b') =
      filter (\<lambda>i. on_handle b token i \<longrightarrow> held_natively b i) (map fst (ic_operations b)) \<and>
    (\<forall>i st'. map_of (ic_operations b') i = Some st' \<longrightarrow>
      (if on_handle b token i then st_close_requested st' else map_of (ic_operations b) i = Some st')) \<and>
    \<not> vb_is_current_handle token (ic_fallback b')"
proof -
  have inv: "ic_inv b" using reachable_inv [OF assms(1)] by simp
  obtain m b1 k1 where m: "mark_close_requested sys token (b, k) = (m, b1, k1)" by (metis prod_cases3)
  note cl = mark_close_requested_closes [OF inv m, unfolded closes_def]
  have fb: "ic_fallback b1 = ic_fallback b" using cl by (simp add: same_frame_def)
  obtain f where f: "vb_close_handle token (ic_fallback b) = (Inr (), f)" "\<not> vb_is_current_handle token f"
    using assms(2,4) ic_invD(10) [OF inv] by (elim close_current)
  have b': "b' = close_association token (b1\<lparr>ic_fallback := f\<rparr>)"
    using assms(2-5) m f fb by (simp add: ic_close_handle_def ic_initialization_result_def)
  have same: "ic_operations b' = ic_operations b1" "ic_completion_queue b' = ic_completion_queue b1"
    "ic_fallback b' = f"
    by (auto simp: b' close_association_def Let_def split: option.split)
  have marked: "if on_handle b token i then st_close_requested st' else map_of (ic_operations b) i = Some st'"
    if st': "map_of (ic_operations b') i = Some st'" for i st'
  proof (cases "on_handle b token i")
    case True
    have "i \<in> set (map fst (ic_operations b'))"
      using st' by (metis map_of_eq_None_iff option.distinct(1) list.set_map)
    then have "held_natively b i" using cl True same(1) by simp
    then obtain st where "map_of (ic_operations b) i = Some st" "st_native_submitted st"
      by (auto simp: held_natively_def split: option.splits)
    with cl True st' same(1) show ?thesis by fastforce
  next
    case False
    then show ?thesis using cl st' same(1) by simp
  qed
  have "ic_completion_queue b' = ic_completion_queue b @ map (\<lambda>i. make_completion i closed_completion)
      (filter (\<lambda>i. on_handle b token i \<and> \<not> held_natively b i) (map fst (ic_operations b)))"
    "map fst (ic_operations b') =
      filter (\<lambda>i. on_handle b token i \<longrightarrow> held_natively b i) (map fst (ic_operations b))"
    using cl unfolding same(1,2) by simp_all
  with marked f(2) show ?thesis unfolding same(3) by blast
qed

theorem iocp_close_handle_witness:
  "ic_completion_queue (fst (snd (ic_close_handle scripted_port \<lparr>native_handle = 5, generation = 1\<rparr>
      (port_backend, [], 4224)))) = [make_completion 10 closed_completion]"
proof -
  let ?t = "\<lparr>native_handle = 5, generation = 1\<rparr>"
  obtain r b' k' where close: "ic_close_handle scripted_port ?t (port_backend, [], 4224) = (r, b', k')"
    by (metis prod_cases3)
  have live: "\<not> ic_stopped port_backend" "ic_initialization_error port_backend = None"
    "vb_is_current_handle ?t (ic_fallback port_backend)"
    by (simp_all add: port_backend_def port_eval)
  have stored: "ic_completion_queue port_backend = []" "map fst (ic_operations port_backend) = [9, 10]"
    "\<not> held_natively port_backend 10" "held_natively port_backend 9" "on_handle port_backend ?t 10"
    by (simp_all add: port_backend_def held_natively_def on_handle_def port_storage_def port_read_def)
  show ?thesis using iocp_close_handle [OF port_run live close] close stored by simp
qed

text \<open>
  C16. A completion key is never reused: once the handle of an association was closed, no later
  sequence of calls makes its completion key current again, although association identifiers
  are recycled: reuse moves to the next generation, and an association whose generation cannot
  grow is never reused. A late packet is therefore never attributed to another handle.
\<close>

theorem iocp_key_never_reused:
  assumes "ledger_run (ic_step sys) ops (ic_create sys opts k0) = (as, ds, b, k)"
    and "\<not> ic_stopped b" and "ic_initialization_error b = None"
    and "completion_key_for token b = Inr key"
    and "ic_close_handle sys token (b, k) = (r, s1)"
    and "ledger_run (ic_step sys) ops' s1 = (as', ds', s2)"
  shows "current_handle_for key (fst s2) = None"
proof -
  have inv: "ic_inv b" using reachable_inv [OF assms(1)] by simp
  obtain m b1 k1 where m: "mark_close_requested sys token (b, k) = (m, b1, k1)" by (metis prod_cases3)
  note cl = mark_close_requested_closes [OF inv m, unfolded closes_def]
  have current: "vb_is_current_handle token (ic_fallback b)"
    using assms(4) by (auto simp: completion_key_for_def Let_def split: option.splits if_splits)
  obtain f where f: "vb_close_handle token (ic_fallback b) = (Inr (), f)"
    using assms(2) current ic_invD(10) [OF inv] by (elim close_current)
  have frame: "ic_fallback b1 = ic_fallback b" "ic_associations b1 = ic_associations b"
    "ic_association_by_native_handle b1 = ic_association_by_native_handle b"
    using cl assms(2) by (simp_all add: same_frame_def)
  have "fst s1 = close_association token (b1\<lparr>ic_fallback := f\<rparr>)"
    using assms(2,3,5) m f frame(1) current by (auto simp: ic_close_handle_def ic_initialization_result_def)
  then have "key_retired key (fst s1)"
    using close_association_retires [OF assms(4), of "b1\<lparr>ic_fallback := f\<rparr>"] frame by simp
  moreover have "ic_inv (fst s1)"
    using ic_step_spec [of "(b, k)" sys "Ic_close token"] assms(5) inv by simp
  ultimately have "key_retired key (fst s2)"
    using run_retires [OF _ assms(6)] by (simp add: retires_def)
  then show ?thesis by (rule key_retired_not_current)
qed

theorem iocp_key_never_reused_witness:
  "\<exists>s. ledger_run (ic_step scripted_port) [Ic_register 6]
      (snd (ic_close_handle scripted_port \<lparr>native_handle = 5, generation = 1\<rparr> (port_backend, [], 4224))) =
      ([], [], s) \<and>
    current_handle_for \<lparr>key_association_id = 1, key_generation = 1\<rparr> (fst s) = None \<and>
    current_handle_for \<lparr>key_association_id = 1, key_generation = 2\<rparr> (fst s) =
      Some \<lparr>native_handle = 6, generation = 1\<rparr>"
proof -
  let ?t = "\<lparr>native_handle = 5, generation = 1\<rparr>"
  let ?close = "ic_close_handle scripted_port ?t (port_backend, [], 4224)"
  let ?s = "snd (ic_register_handle scripted_port 6 (snd ?close))"
  have live: "\<not> ic_stopped port_backend" "ic_initialization_error port_backend = None"
    "completion_key_for ?t port_backend = Inr \<lparr>key_association_id = 1, key_generation = 1\<rparr>"
    by (simp_all add: port_backend_def port_eval)
  have close: "?close = (fst ?close, snd ?close)" by simp
  have run: "ledger_run (ic_step scripted_port) [Ic_register 6] (snd ?close) = ([], [], ?s)" by simp
  have "current_handle_for \<lparr>key_association_id = 1, key_generation = 1\<rparr> (fst ?s) = None"
    by (rule iocp_key_never_reused [OF port_run live close run])
  moreover have "current_handle_for \<lparr>key_association_id = 1, key_generation = 2\<rparr> (fst ?s) =
      Some \<lparr>native_handle = 6, generation = 1\<rparr>"
    by (simp add: port_backend_def port_storage_def port_eval ic_close_handle_def mark_close_requested_def
        request_cancel_for_def complete_operation_storage_def erase_operation_storage_def
        maybe_close_stopped_port_def storage_erase_def vb_close_handle_def reg_close_def
        vb_complete_pending_def close_association_def current_handle_for_def ERROR_NOT_FOUND_def
        first_error_result_def zero_token_def) (simp add: word_le_nat_alt)
  ultimately show ?thesis using run by auto
qed


end
