(* ===== verification/Task_Ownership.thy ===== *)
theory Task_Ownership
  imports Prelude
begin

text \<open>
  Ownership of coroutine frames by the objects of \<^verbatim>\<open>include/voris/io/task.hpp\<close>: constructors,
  move operations and destructors of \<^verbatim>\<open>task<void>\<close> and of its awaiter; \<^verbatim>\<open>task<T>\<close> has the same code.
  Only what the operations do to handles and frames is modelled here, each read or write of a
  promise being an access to its frame. The objects are a store from
  object identities to their member \<^verbatim>\<open>handle_\<close>, so that aliasing, a move from an object to itself
  included, is explicit. Destroying or reading a frame that does not exist is undefined
  behaviour and makes a step return \<open>None\<close>. The results that the frames hold are the subject of
  \<open>Vio_Task\<close>. A move leaves its source with a null handle; a \<^verbatim>\<open>shared_ptr\<close> likewise.
\<close>

type_synonym frame = nat

datatype task_object = Task_object nat | Awaiter nat

text \<open>
  \<open>tw_handle\<close> is defined on the live objects, \<open>tw_state\<close> is the member \<^verbatim>\<open>continuation_state_\<close> of an
  awaiter, named by the frame it belongs to. The last three fields record history: the frames
  created, those whose task was awaited, and the order of destruction.
\<close>

record task_world =
  tw_handle :: "task_object \<rightharpoonup> frame option"
  tw_state :: "nat \<rightharpoonup> frame"
  tw_frames :: "frame set"
  tw_detached :: "frame set"
  tw_created :: "frame set"
  tw_awaited :: "frame set"
  tw_destroyed :: "frame list"

definition tw_init :: task_world where
  "tw_init = \<lparr>tw_handle = Map.empty, tw_state = Map.empty, tw_frames = {}, tw_detached = {},
     tw_created = {}, tw_awaited = {}, tw_destroyed = []\<rparr>"

definition is_live :: "task_object \<Rightarrow> task_world \<Rightarrow> bool" where
  "is_live ob w \<longleftrightarrow> tw_handle w ob \<noteq> None"

definition handle_of :: "task_object \<Rightarrow> task_world \<Rightarrow> frame option" where
  "handle_of ob w = (case tw_handle w ob of None \<Rightarrow> None | Some h \<Rightarrow> h)"

definition set_handle :: "task_object \<Rightarrow> frame option \<Rightarrow> task_world \<Rightarrow> task_world" where
  "set_handle ob h w = w\<lparr>tw_handle := (tw_handle w)(ob \<mapsto> h)\<rparr>"

definition end_lifetime :: "task_object \<Rightarrow> task_world \<Rightarrow> task_world" where
  "end_lifetime ob w = w\<lparr>tw_handle := (tw_handle w)(ob := None)\<rparr>"

text \<open>Access to the promise in a frame, and destruction of a frame.\<close>

definition frame_access :: "frame option \<Rightarrow> task_world \<Rightarrow> task_world option" where
  "frame_access h w = (case h of None \<Rightarrow> None | Some f \<Rightarrow> if f \<in> tw_frames w then Some w else None)"

definition frame_destroy :: "frame \<Rightarrow> task_world \<Rightarrow> task_world option" where
  "frame_destroy f w =
     (if f \<in> tw_frames w
      then Some (w\<lparr>tw_frames := tw_frames w - {f}, tw_destroyed := tw_destroyed w @ [f]\<rparr>)
      else None)"

section \<open>Task objects\<close>

text \<open>Calling a coroutine allocates a frame; \<^verbatim>\<open>get_return_object\<close> wraps its handle.\<close>

definition task_get_return_object :: "nat \<Rightarrow> frame \<Rightarrow> task_world \<Rightarrow> task_world option" where
  "task_get_return_object x f w =
     Some (set_handle (Task_object x) (Some f)
       (w\<lparr>tw_frames := insert f (tw_frames w), tw_created := insert f (tw_created w)\<rparr>))"

definition task_default_construct :: "nat \<Rightarrow> task_world \<Rightarrow> task_world option" where
  "task_default_construct x w = Some (set_handle (Task_object x) None w)"

definition task_object_destroy :: "nat \<Rightarrow> task_world \<Rightarrow> task_world option" where
  "task_object_destroy x w =
     (case handle_of (Task_object x) w of
        None \<Rightarrow> Some w
      | Some f \<Rightarrow> map_option (set_handle (Task_object x) None) (frame_destroy f w))"

definition task_move_construct :: "nat \<Rightarrow> nat \<Rightarrow> task_world \<Rightarrow> task_world option" where
  "task_move_construct x other w =
     (let h = handle_of (Task_object other) w
      in Some (set_handle (Task_object x) h (set_handle (Task_object other) None w)))"

definition task_move_assign :: "nat \<Rightarrow> nat \<Rightarrow> task_world \<Rightarrow> task_world option" where
  "task_move_assign x other w =
     (if x \<noteq> other
      then (case task_object_destroy x w of
              None \<Rightarrow> None
            | Some w1 \<Rightarrow>
                (let h = handle_of (Task_object other) w1
                 in Some (set_handle (Task_object x) h (set_handle (Task_object other) None w1))))
      else Some w)"

definition task_destructor :: "nat \<Rightarrow> task_world \<Rightarrow> task_world option" where
  "task_destructor x w = map_option (end_lifetime (Task_object x)) (task_object_destroy x w)"

definition task_object_is_ready :: "nat \<Rightarrow> task_world \<Rightarrow> task_world option" where
  "task_object_is_ready x w =
     (if handle_of (Task_object x) w = None then Some w
      else frame_access (handle_of (Task_object x) w) w)"

definition task_object_take_result :: "nat \<Rightarrow> task_world \<Rightarrow> task_world option" where
  "task_object_take_result x w =
     (case handle_of (Task_object x) w of
        None \<Rightarrow> Some w
      | Some f \<Rightarrow>
          (case frame_access (Some f) (set_handle (Task_object x) None w) of
             None \<Rightarrow> None
           | Some w1 \<Rightarrow> frame_destroy f w1))"

section \<open>Awaiters\<close>

text \<open>\<^verbatim>\<open>operator co_await\<close> moves the handle into an awaiter, which reads the promise.\<close>

definition awaiter_construct :: "nat \<Rightarrow> frame option \<Rightarrow> task_world \<Rightarrow> task_world option" where
  "awaiter_construct a h w =
     (case h of
        None \<Rightarrow> Some (set_handle (Awaiter a) None (w\<lparr>tw_state := (tw_state w)(a := None)\<rparr>))
      | Some f \<Rightarrow>
          map_option (\<lambda>w1. set_handle (Awaiter a) (Some f)
              (w1\<lparr>tw_state := (tw_state w1)(a \<mapsto> f), tw_awaited := insert f (tw_awaited w1)\<rparr>))
            (frame_access h w))"

definition task_operator_co_await :: "nat \<Rightarrow> nat \<Rightarrow> task_world \<Rightarrow> task_world option" where
  "task_operator_co_await x a w =
     awaiter_construct a (handle_of (Task_object x) w) (set_handle (Task_object x) None w)"

definition awaiter_move_construct :: "nat \<Rightarrow> nat \<Rightarrow> task_world \<Rightarrow> task_world option" where
  "awaiter_move_construct a other w =
     (let h = handle_of (Awaiter other) w; st = tw_state w other
      in Some (set_handle (Awaiter a) h (set_handle (Awaiter other) None
           (w\<lparr>tw_state := (tw_state w)(other := None, a := st)\<rparr>))))"

definition awaiter_object_detach :: "nat \<Rightarrow> task_world \<Rightarrow> task_world" where
  "awaiter_object_detach a w =
     (case tw_state w a of
        None \<Rightarrow> w
      | Some f \<Rightarrow> w\<lparr>tw_detached := insert f (tw_detached w), tw_state := (tw_state w)(a := None)\<rparr>)"

definition awaiter_destructor :: "nat \<Rightarrow> task_world \<Rightarrow> task_world option" where
  "awaiter_destructor a w =
     (let w1 = awaiter_object_detach a w
      in map_option (end_lifetime (Awaiter a))
           (case handle_of (Awaiter a) w1 of None \<Rightarrow> Some w1 | Some f \<Rightarrow> frame_destroy f w1))"

text \<open>The start of a \<^verbatim>\<open>co_await\<close> expression: \<^verbatim>\<open>await_ready\<close>, and \<^verbatim>\<open>await_suspend\<close> when that is false.\<close>

definition awaiter_await_ready :: "bool \<Rightarrow> nat \<Rightarrow> task_world \<Rightarrow> bool \<times> task_world option" where
  "awaiter_await_ready done_flag a w =
     (if handle_of (Awaiter a) w = None then (True, Some w)
      else (done_flag, frame_access (handle_of (Awaiter a) w) w))"

definition awaiter_await_suspend :: "nat \<Rightarrow> task_world \<Rightarrow> task_world option" where
  "awaiter_await_suspend a w = frame_access (handle_of (Awaiter a) w) w"

definition awaiter_begin :: "bool \<Rightarrow> nat \<Rightarrow> task_world \<Rightarrow> task_world option" where
  "awaiter_begin done_flag a w =
     (case awaiter_await_ready done_flag a w of
        (_, None) \<Rightarrow> None
      | (True, Some w1) \<Rightarrow> Some w1
      | (False, Some w1) \<Rightarrow> awaiter_await_suspend a w1)"

definition awaiter_await_resume :: "nat \<Rightarrow> task_world \<Rightarrow> task_world option" where
  "awaiter_await_resume a w =
     (case handle_of (Awaiter a) w of
        None \<Rightarrow> Some w
      | Some f \<Rightarrow>
          (case frame_access (Some f) (set_handle (Awaiter a) None w) of
             None \<Rightarrow> None
           | Some w1 \<Rightarrow> map_option (awaiter_object_detach a) (frame_destroy f w1)))"

section \<open>Programs\<close>

datatype ownership_op =
    Call nat frame
  | Default_construct nat
  | Move_construct nat nat
  | Move_assign nat nat
  | Destroy_task nat
  | Is_ready nat
  | Take_result nat
  | Co_await nat nat
  | Awaiter_move nat nat
  | Await_begin bool nat
  | Await_resume nat
  | Destroy_awaiter nat

text \<open>The object lifetimes that the language guarantees: new objects are new, others are live.\<close>

fun op_allowed :: "ownership_op \<Rightarrow> task_world \<Rightarrow> bool" where
  "op_allowed (Call x f) w \<longleftrightarrow> \<not> is_live (Task_object x) w \<and> f \<notin> tw_created w"
| "op_allowed (Default_construct x) w \<longleftrightarrow> \<not> is_live (Task_object x) w"
| "op_allowed (Move_construct x y) w \<longleftrightarrow> \<not> is_live (Task_object x) w \<and> is_live (Task_object y) w"
| "op_allowed (Move_assign x y) w \<longleftrightarrow> is_live (Task_object x) w \<and> is_live (Task_object y) w"
| "op_allowed (Destroy_task x) w \<longleftrightarrow> is_live (Task_object x) w"
| "op_allowed (Is_ready x) w \<longleftrightarrow> is_live (Task_object x) w"
| "op_allowed (Take_result x) w \<longleftrightarrow> is_live (Task_object x) w"
| "op_allowed (Co_await x a) w \<longleftrightarrow> is_live (Task_object x) w \<and> \<not> is_live (Awaiter a) w"
| "op_allowed (Awaiter_move a b) w \<longleftrightarrow> \<not> is_live (Awaiter a) w \<and> is_live (Awaiter b) w"
| "op_allowed (Await_begin r a) w \<longleftrightarrow> is_live (Awaiter a) w"
| "op_allowed (Await_resume a) w \<longleftrightarrow> is_live (Awaiter a) w"
| "op_allowed (Destroy_awaiter a) w \<longleftrightarrow> is_live (Awaiter a) w"

fun op_step :: "ownership_op \<Rightarrow> task_world \<Rightarrow> task_world option" where
  "op_step (Call x f) w = task_get_return_object x f w"
| "op_step (Default_construct x) w = task_default_construct x w"
| "op_step (Move_construct x y) w = task_move_construct x y w"
| "op_step (Move_assign x y) w = task_move_assign x y w"
| "op_step (Destroy_task x) w = task_destructor x w"
| "op_step (Is_ready x) w = task_object_is_ready x w"
| "op_step (Take_result x) w = task_object_take_result x w"
| "op_step (Co_await x a) w = task_operator_co_await x a w"
| "op_step (Awaiter_move a b) w = awaiter_move_construct a b w"
| "op_step (Await_begin r a) w = awaiter_begin r a w"
| "op_step (Await_resume a) w = awaiter_await_resume a w"
| "op_step (Destroy_awaiter a) w = awaiter_destructor a w"

text \<open>A step that the language does not admit is not taken.\<close>

fun ownership_run :: "ownership_op list \<Rightarrow> task_world \<Rightarrow> task_world option" where
  "ownership_run [] w = Some w"
| "ownership_run (op # ops) w =
     (if op_allowed op w
      then (case op_step op w of None \<Rightarrow> None | Some w1 \<Rightarrow> ownership_run ops w1)
      else ownership_run ops w)"

section \<open>Invariant\<close>

abbreviation holds :: "task_world \<Rightarrow> task_object \<Rightarrow> frame \<Rightarrow> bool" where
  "holds w ob f \<equiv> tw_handle w ob = Some (Some f)"

definition holders :: "task_world \<Rightarrow> (task_object \<times> frame) set" where
  "holders w = {(ob, f). holds w ob f}"

definition owned :: "task_world \<Rightarrow> bool" where
  "owned w \<longleftrightarrow> tw_frames w = snd ` holders w \<and> inj_on snd (holders w) \<and>
     tw_created w = tw_frames w \<union> set (tw_destroyed w) \<and>
     tw_frames w \<inter> set (tw_destroyed w) = {} \<and> distinct (tw_destroyed w)"

definition awaits_ok :: "task_world \<Rightarrow> bool" where
  "awaits_ok w \<longleftrightarrow>
     (\<forall>a. tw_state w a \<noteq> None \<longrightarrow> is_live (Awaiter a) w) \<and>
     (\<forall>f \<in> tw_awaited w. f \<in> tw_detached w \<or> (\<exists>a. tw_state w a = Some f))"

lemma owned_init: "owned tw_init \<and> awaits_ok tw_init"
  by (simp add: owned_def awaits_ok_def tw_init_def holders_def)

lemma handle_of_holds: "handle_of ob w = Some f \<longleftrightarrow> holds w ob f"
  by (simp add: handle_of_def split: option.split)

lemma handle_of_None: "handle_of ob w = None \<longleftrightarrow> tw_handle w ob = None \<or> tw_handle w ob = Some None"
  by (auto simp: handle_of_def split: option.split)

lemma held_access: "owned w \<Longrightarrow> holds w ob f \<Longrightarrow> f \<in> tw_frames w"
  by (force simp: owned_def holders_def)

lemma owned_irrelevant [simp]:
  "owned (w\<lparr>tw_state := st\<rparr>) = owned w" "owned (w\<lparr>tw_detached := ds\<rparr>) = owned w"
  "owned (w\<lparr>tw_awaited := as\<rparr>) = owned w"
  by (simp_all add: owned_def holders_def)

lemma owned_detach [simp]: "owned (awaiter_object_detach a w) = owned w"
  by (simp add: awaiter_object_detach_def owned_def holders_def split: option.split)

lemma handle_detach [simp]: "tw_handle (awaiter_object_detach a w) = tw_handle w"
  "tw_frames (awaiter_object_detach a w) = tw_frames w"
  by (simp_all add: awaiter_object_detach_def split: option.split)

text \<open>An object gives up its frame, which is destroyed.\<close>

lemma owned_release:
  assumes own: "owned w" and held: "holds w ob f" and "h = None \<or> h = Some None"
    and "tw_handle w' = (tw_handle w)(ob := h)" and "tw_frames w' = tw_frames w - {f}"
    and "tw_created w' = tw_created w" and "tw_destroyed w' = tw_destroyed w @ [f]"
  shows "owned w'"
proof -
  have H: "holders w' = holders w - {(ob, f)}"
    using held assms(3,4) by (auto simp: holders_def split: if_splits)
  have in_H: "(ob, f) \<in> holders w" using held by (simp add: holders_def)
  have inj: "inj_on snd (holders w)" using own by (simp add: owned_def)
  have "snd ` (holders w - {(ob, f)}) = snd ` holders w - {f}"
    using inj_on_image_set_diff [OF inj, of "holders w" "{(ob, f)}"] in_H by simp
  moreover have "f \<in> tw_frames w" using own in_H by (force simp: owned_def)
  moreover have "inj_on snd (holders w - {(ob, f)})" using inj by (rule inj_on_subset) blast
  ultimately show ?thesis using own assms(5-7) unfolding owned_def H by auto
qed

lemma owned_holders:
  assumes "owned w" and "snd ` holders w' = snd ` holders w" and "inj_on snd (holders w')"
    and "tw_frames w' = tw_frames w" and "tw_created w' = tw_created w" and "tw_destroyed w' = tw_destroyed w"
  shows "owned w'"
  using assms unfolding owned_def by metis

text \<open>A frame moves from one object to another that holds none.\<close>

lemma owned_transfer:
  assumes own: "owned w" and "ob1 \<noteq> ob2" and "handle_of ob2 w = None" and "handle_of ob1 w = Some f"
    and "tw_handle w' = (tw_handle w)(ob1 \<mapsto> None, ob2 \<mapsto> Some f)" and "tw_frames w' = tw_frames w"
    and "tw_created w' = tw_created w" and "tw_destroyed w' = tw_destroyed w"
  shows "owned w'"
proof -
  have held: "holds w ob1 f" "\<And>g. \<not> holds w ob2 g"
    using assms(3,4) handle_of_holds [of ob1 w f] handle_of_holds [of ob2 w] by auto
  have H: "holders w' = insert (ob2, f) (holders w - {(ob1, f)})"
    using held assms(2,5) by (auto simp: holders_def split: if_splits)
  have in_H: "(ob1, f) \<in> holders w" using held by (simp add: holders_def)
  have inj: "inj_on snd (holders w)" using own by (simp add: owned_def)
  have diff: "snd ` (holders w - {(ob1, f)}) = snd ` holders w - {f}"
    using inj_on_image_set_diff [OF inj, of "holders w" "{(ob1, f)}"] in_H by simp
  have "snd ` holders w' = snd ` holders w" using diff in_H unfolding H by force
  moreover have "inj_on snd (holders w - {(ob1, f)})" using inj by (rule inj_on_subset) blast
  then have "inj_on snd (holders w')" unfolding H using diff by (simp add: inj_on_insert) blast
  ultimately show ?thesis using owned_holders [OF own] assms(6-8) by simp
qed

lemma owned_null:
  assumes own: "owned w" and "handle_of ob w = None" and "h = None \<or> h = Some None"
    and "tw_handle w' = (tw_handle w)(ob := h)" and "tw_frames w' = tw_frames w"
    and "tw_created w' = tw_created w" and "tw_destroyed w' = tw_destroyed w"
  shows "owned w'"
proof -
  have "holders w' = holders w"
    using assms(2-4) unfolding handle_of_None by (auto simp: holders_def split: if_splits)
  then show ?thesis using owned_holders [OF own] own assms(5-7) by (simp add: owned_def)
qed

lemma owned_create:
  assumes own: "owned w" and "f \<notin> tw_created w" and "handle_of ob w = None"
    and "tw_handle w' = (tw_handle w)(ob \<mapsto> Some f)" and "tw_frames w' = insert f (tw_frames w)"
    and "tw_created w' = insert f (tw_created w)" and "tw_destroyed w' = tw_destroyed w"
  shows "owned w'"
proof -
  have H: "holders w' = insert (ob, f) (holders w)"
    using assms(3,4) unfolding handle_of_None by (auto simp: holders_def split: if_splits)
  have "f \<notin> snd ` holders w" using own assms(2) by (simp add: owned_def)
  then have "inj_on snd (holders w')" using own unfolding H by (simp add: owned_def) blast
  then show ?thesis using own assms(2,5-7) unfolding owned_def H by auto
qed

lemma not_live_handle: "\<not> is_live ob w \<Longrightarrow> handle_of ob w = None"
  by (simp add: is_live_def handle_of_def)

section \<open>Every step is safe\<close>

lemmas ownership_defs = task_get_return_object_def task_default_construct_def task_move_construct_def
  task_destructor_def task_object_is_ready_def task_object_take_result_def task_operator_co_await_def
  awaiter_construct_def awaiter_move_construct_def awaiter_destructor_def awaiter_begin_def
  awaiter_await_ready_def awaiter_await_suspend_def awaiter_await_resume_def
  set_handle_def end_lifetime_def frame_access_def frame_destroy_def

lemma task_object_destroy_owned:
  assumes "owned w"
  shows "\<exists>w'. task_object_destroy x w = Some w' \<and> owned w' \<and> handle_of (Task_object x) w' = None \<and>
    (\<forall>ob. ob \<noteq> Task_object x \<longrightarrow> tw_handle w' ob = tw_handle w ob)"
proof (cases "handle_of (Task_object x) w")
  case None
  then show ?thesis using assms by (auto simp: task_object_destroy_def)
next
  case (Some f)
  then have held: "holds w (Task_object x) f" by (simp add: handle_of_holds)
  let ?w' = "set_handle (Task_object x) None
    (w\<lparr>tw_frames := tw_frames w - {f}, tw_destroyed := tw_destroyed w @ [f]\<rparr>)"
  have "owned ?w'" by (rule owned_release [OF assms held, of "Some None"]) (simp_all add: set_handle_def)
  then show ?thesis
    using Some held_access [OF assms held]
    by (auto simp: task_object_destroy_def frame_destroy_def set_handle_def handle_of_def)
qed

text \<open>Moving the handle of one object to another that holds none.\<close>

lemma owned_move:
  assumes "owned w" and "ob1 \<noteq> ob2" and "handle_of ob2 w = None"
    and "tw_handle w' = (tw_handle w)(ob1 \<mapsto> None, ob2 \<mapsto> handle_of ob1 w)"
    and "tw_frames w' = tw_frames w" and "tw_created w' = tw_created w" and "tw_destroyed w' = tw_destroyed w"
  shows "owned w'"
proof (cases "handle_of ob1 w")
  case None
  let ?w1 = "w\<lparr>tw_handle := (tw_handle w)(ob1 \<mapsto> None)\<rparr>"
  have "owned ?w1" by (rule owned_null [OF assms(1) None, of "Some None"]) simp_all
  moreover have "handle_of ob2 ?w1 = None" using assms(2,3) by (simp add: handle_of_def)
  ultimately show ?thesis
    by (rule owned_null [of ?w1 ob2 "Some None"]) (use assms(4-7) None in simp_all)
next
  case (Some f)
  show ?thesis by (rule owned_transfer [OF assms(1-3) Some]) (use assms(4-7) Some in simp_all)
qed

lemma access_held:
  assumes "owned w" and "handle_of ob w = Some f" and "tw_frames w' = tw_frames w"
  shows "frame_access (Some f) w' = Some w'"
  using assms held_access [of w ob f] by (simp add: frame_access_def handle_of_holds)

text \<open>Reading the result and destroying the frame of an object that gives up its handle.\<close>

lemma consume_held:
  assumes own: "owned w" and h: "handle_of ob w = Some f"
  shows "\<exists>w'. frame_destroy f (set_handle ob None w) = Some w' \<and> owned w'"
proof -
  have held: "holds w ob f" using h by (simp add: handle_of_holds)
  show ?thesis
    using held_access [OF own held]
    by (auto simp: frame_destroy_def set_handle_def intro!: owned_release [OF own held, of "Some None"])
qed

lemma op_step_owned:
  assumes own: "owned w" and allowed: "op_allowed op w"
  shows "\<exists>w'. op_step op w = Some w' \<and> owned w'"
proof (cases op)
  case (Call x f)
  then show ?thesis
    using allowed by (auto intro!: owned_create [OF own, of f "Task_object x"] not_live_handle
        simp: task_get_return_object_def set_handle_def)
next
  case (Default_construct x)
  then show ?thesis
    using allowed by (auto intro!: owned_null [OF own, of "Task_object x" "Some None"] not_live_handle
        simp: task_default_construct_def set_handle_def)
next
  case (Move_construct x y)
  then have "Task_object y \<noteq> Task_object x" using allowed by auto
  then show ?thesis
    using Move_construct allowed owned_move [OF own, of "Task_object y" "Task_object x"] not_live_handle
    by (auto simp: task_move_construct_def set_handle_def Let_def)
next
  case (Move_assign x y)
  show ?thesis
  proof (cases "x = y")
    case True
    then show ?thesis using Move_assign own by (simp add: task_move_assign_def)
  next
    case False
    obtain w1 where w1: "task_object_destroy x w = Some w1" "owned w1" "handle_of (Task_object x) w1 = None"
      using task_object_destroy_owned [OF own] by blast
    show ?thesis
      using Move_assign False w1(1) owned_move [OF w1(2) _ w1(3), of "Task_object y"]
      by (auto simp: task_move_assign_def set_handle_def Let_def)
  qed
next
  case (Destroy_task x)
  obtain w1 where w1: "task_object_destroy x w = Some w1" "owned w1" "handle_of (Task_object x) w1 = None"
    using task_object_destroy_owned [OF own] by blast
  have "owned (end_lifetime (Task_object x) w1)"
    by (rule owned_null [OF w1(2,3), of None]) (simp_all add: end_lifetime_def)
  then show ?thesis using Destroy_task w1(1) by (simp add: task_destructor_def)
next
  case (Is_ready x)
  then show ?thesis
    using own access_held [OF own, of "Task_object x" _ w]
    by (cases "handle_of (Task_object x) w") (auto simp: task_object_is_ready_def)
next
  case (Take_result x)
  then show ?thesis
    using own consume_held [OF own, of "Task_object x"]
      access_held [OF own, of "Task_object x" _ "set_handle (Task_object x) None w"]
    by (auto simp: task_object_take_result_def set_handle_def split: option.split)
next
  case (Co_await x a)
  let ?w1 = "set_handle (Task_object x) None w"
  have move: "owned w'" if "tw_handle w' = (tw_handle w)(Task_object x \<mapsto> None, Awaiter a \<mapsto> handle_of (Task_object x) w)"
    "tw_frames w' = tw_frames w" "tw_created w' = tw_created w" "tw_destroyed w' = tw_destroyed w" for w'
    using owned_move [OF own _ _ that] Co_await allowed not_live_handle by simp
  show ?thesis
  proof (cases "handle_of (Task_object x) w")
    case None
    then show ?thesis
      using Co_await by (auto intro!: move simp: task_operator_co_await_def awaiter_construct_def set_handle_def)
  next
    case (Some f)
    then show ?thesis
      using Co_await access_held [OF own Some, of ?w1]
      by (auto intro!: move simp: task_operator_co_await_def awaiter_construct_def set_handle_def)
  qed
next
  case (Awaiter_move a b)
  then have "Awaiter b \<noteq> Awaiter a" using allowed by auto
  then show ?thesis
    using Awaiter_move allowed owned_move [OF own, of "Awaiter b" "Awaiter a"] not_live_handle
    by (auto simp: awaiter_move_construct_def set_handle_def Let_def)
next
  case (Await_begin r a)
  then show ?thesis
    using own access_held [OF own, of "Awaiter a" _ w]
    by (cases "handle_of (Awaiter a) w")
      (auto simp: awaiter_begin_def awaiter_await_ready_def awaiter_await_suspend_def split: bool.split)
next
  case (Await_resume a)
  then show ?thesis
    using own consume_held [OF own, of "Awaiter a"]
      access_held [OF own, of "Awaiter a" _ "set_handle (Awaiter a) None w"]
    by (auto simp: awaiter_await_resume_def set_handle_def split: option.split)
next
  case (Destroy_awaiter a)
  let ?w1 = "awaiter_object_detach a w"
  have own1: "owned ?w1" using own by simp
  show ?thesis
  proof (cases "handle_of (Awaiter a) ?w1")
    case None
    then have "owned (end_lifetime (Awaiter a) ?w1)"
      by (rule owned_null [OF own1, of _ None]) (simp_all add: end_lifetime_def)
    then show ?thesis using Destroy_awaiter None by (simp add: awaiter_destructor_def Let_def)
  next
    case (Some f)
    then have held: "holds ?w1 (Awaiter a) f" by (simp only: handle_of_holds)
    show ?thesis
      using Destroy_awaiter Some held_access [OF own1 held]
      by (auto simp: awaiter_destructor_def Let_def frame_destroy_def end_lifetime_def
          intro!: owned_release [OF own1 held, of None])
  qed
qed

section \<open>Continuation states of awaiters\<close>

lemma awaits_ok_frame:
  assumes "awaits_ok w" and "tw_state w' = tw_state w" and "tw_awaited w' = tw_awaited w"
    and "tw_detached w' = tw_detached w"
    and "\<And>a. is_live (Awaiter a) w \<Longrightarrow> is_live (Awaiter a) w'"
  shows "awaits_ok w'"
  using assms by (auto simp: awaits_ok_def)

lemma awaits_ok_detach: "awaits_ok w \<Longrightarrow> awaits_ok (awaiter_object_detach a w)"
  by (auto simp: awaits_ok_def awaiter_object_detach_def is_live_def split: option.split)
    (metis option.inject)

lemma detach_clears: "tw_state (awaiter_object_detach a w) a = None"
  by (simp add: awaiter_object_detach_def split: option.split)

lemma op_step_awaits:
  assumes ok: "awaits_ok w" and allowed: "op_allowed op w" and step: "op_step op w = Some w'"
  shows "awaits_ok w'"
proof (cases op)
  case (Co_await x a)
  have "tw_state w a = None" using ok allowed Co_await by (auto simp: awaits_ok_def)
  then show ?thesis
    using ok step Co_await
    by (auto simp: task_operator_co_await_def awaiter_construct_def awaits_ok_def set_handle_def
        frame_access_def is_live_def split: option.splits if_splits) (metis option.distinct(1))+
next
  case (Awaiter_move a b)
  then have ab: "a \<noteq> b" "tw_state w a = None" using ok allowed by (auto simp: awaits_ok_def)
  have "\<exists>c. ((tw_state w)(b := None, a := tw_state w b)) c = Some f" if "tw_state w c = Some f" for c f
  proof (cases "c = b")
    case True
    then show ?thesis using that by (intro exI [of _ a]) simp
  next
    case False
    moreover have "c \<noteq> a" using that ab(2) by auto
    ultimately show ?thesis using that by (intro exI [of _ c]) simp
  qed
  then show ?thesis
    using ok step Awaiter_move
    by (fastforce simp: awaiter_move_construct_def awaits_ok_def set_handle_def is_live_def Let_def)
next
  case (Await_resume a)
  show ?thesis
  proof (cases "handle_of (Awaiter a) w")
    case None
    then show ?thesis using ok step Await_resume by (simp add: awaiter_await_resume_def)
  next
    case (Some f)
    then obtain w1 where w1: "w' = awaiter_object_detach a w1" "tw_state w1 = tw_state w"
      "tw_awaited w1 = tw_awaited w" "tw_detached w1 = tw_detached w"
      "tw_handle w1 = (tw_handle w)(Awaiter a \<mapsto> None)"
      using step Await_resume
      by (auto simp: awaiter_await_resume_def frame_access_def frame_destroy_def set_handle_def
          split: if_splits)
    have "awaits_ok w1" by (rule awaits_ok_frame [OF ok w1(2-4)]) (simp add: is_live_def w1(5))
    then show ?thesis using w1(1) awaits_ok_detach by simp
  qed
next
  case (Destroy_awaiter a)
  have ok1: "awaits_ok (awaiter_object_detach a w)" using ok by (rule awaits_ok_detach)
  have w': "tw_state w' = tw_state (awaiter_object_detach a w)"
    "tw_awaited w' = tw_awaited (awaiter_object_detach a w)"
    "tw_detached w' = tw_detached (awaiter_object_detach a w)"
    "tw_handle w' = (tw_handle w)(Awaiter a := None)"
    using step Destroy_awaiter
    by (auto simp: awaiter_destructor_def Let_def end_lifetime_def frame_destroy_def
        split: option.splits if_splits)
  show ?thesis
    using ok1 detach_clears [of a w] unfolding awaits_ok_def w'(1-3) is_live_def w'(4) by fastforce
qed (use step in \<open>auto intro!: awaits_ok_frame [OF ok] simp: ownership_defs task_move_assign_def
  task_object_destroy_def is_live_def Let_def split: option.splits if_splits bool.splits\<close>)

lemma ownership_run_ok:
  assumes "owned w" and "awaits_ok w"
  shows "\<exists>w'. ownership_run ops w = Some w' \<and> owned w' \<and> awaits_ok w'"
  using assms
proof (induction ops arbitrary: w)
  case (Cons op ops)
  show ?case
  proof (cases "op_allowed op w")
    case True
    then obtain w1 where w1: "op_step op w = Some w1" "owned w1"
      using op_step_owned [OF Cons.prems(1)] by blast
    with Cons.IH [OF w1(2) op_step_awaits [OF Cons.prems(2) True w1(1)]] True show ?thesis by simp
  next
    case False
    then show ?thesis using Cons by simp
  qed
qed simp

section \<open>Theorem\<close>

text \<open>
  C32. Coroutine frames are owned: no program of constructions, moves, assignments, awaits and
  destructions of task objects and awaiters, moving a task onto itself included, reads or
  destroys a frame that does not exist. Every frame ever created is either destroyed, once, or
  held by exactly one live object, so none leaks; and when the awaiter of an awaited frame is
  gone, the frame's continuation state is detached, so a late completion resumes nobody.
\<close>

theorem task_frames_owned_once:
  "\<exists>w. ownership_run ops tw_init = Some w \<and> distinct (tw_destroyed w) \<and>
    (\<forall>f. f \<in> tw_created w \<longrightarrow>
       (if f \<in> set (tw_destroyed w) then \<forall>ob. tw_handle w ob \<noteq> Some (Some f)
        else \<exists>!ob. tw_handle w ob = Some (Some f))) \<and>
    (\<forall>f. f \<in> tw_awaited w \<longrightarrow> f \<in> tw_detached w \<or>
       (\<exists>a. tw_state w a = Some f \<and> is_live (Awaiter a) w))"
proof -
  obtain w where run: "ownership_run ops tw_init = Some w" and own: "owned w" and ok: "awaits_ok w"
    using ownership_run_ok owned_init by blast
  have held: "f \<in> tw_frames w \<longleftrightarrow> (\<exists>ob. holds w ob f)" for f
    using own unfolding owned_def holders_def by (auto simp: image_iff)
  have unique: "ob = ob'" if "holds w ob f" "holds w ob' f" for ob ob' f
    using own that unfolding owned_def inj_on_def holders_def by fastforce
  have split: "tw_created w = tw_frames w \<union> set (tw_destroyed w)" "tw_frames w \<inter> set (tw_destroyed w) = {}"
    "distinct (tw_destroyed w)" using own by (auto simp: owned_def)
  have "if f \<in> set (tw_destroyed w) then \<forall>ob. tw_handle w ob \<noteq> Some (Some f)
      else \<exists>!ob. tw_handle w ob = Some (Some f)" if "f \<in> tw_created w" for f
    using that split held unique by (auto split: if_splits)
  moreover have "f \<in> tw_detached w \<or> (\<exists>a. tw_state w a = Some f \<and> is_live (Awaiter a) w)"
    if "f \<in> tw_awaited w" for f
    using ok that unfolding awaits_ok_def by (metis option.distinct(1))
  ultimately show ?thesis using run split(3) by blast
qed

theorem task_frames_owned_once_witness:
  "\<exists>w. ownership_run [Call 1 10, Call 2 11, Move_assign 1 2, Move_assign 1 1, Co_await 1 5,
      Await_begin False 5, Await_resume 5, Destroy_awaiter 5, Destroy_task 1, Destroy_task 2] tw_init = Some w \<and>
    tw_destroyed w = [10, 11] \<and> (\<forall>ob. tw_handle w ob \<noteq> Some (Some 11)) \<and> 11 \<in> tw_detached w"
proof -
  let ?ops = "[Call 1 10, Call 2 11, Move_assign 1 2, Move_assign 1 1, Co_await 1 5,
      Await_begin False 5, Await_resume 5, Destroy_awaiter 5, Destroy_task 1, Destroy_task 2]"
  obtain w where w: "ownership_run ?ops tw_init = Some w" "tw_destroyed w = [10, 11]"
    "11 \<in> tw_created w" "11 \<in> tw_awaited w" "tw_state w = Map.empty"
    by (simp add: ownership_defs task_move_assign_def task_object_destroy_def tw_init_def is_live_def
        handle_of_def Let_def awaiter_object_detach_def)
  then show ?thesis using task_frames_owned_once [of ?ops] by auto
qed

end
