(* ===== verification/Rendezvous.thy ===== *)
theory Rendezvous
  imports Vio_Error
begin

text \<open>
  The protocol between a producer of one result and the coroutine that awaits it, which
  \<^verbatim>\<open>task.hpp\<close>, \<^verbatim>\<open>when_any.hpp\<close> and \<^verbatim>\<open>file.cpp\<close> each implement with a mutex of their own: the
  producer publishes the result and, if it finds a continuation, schedules its resumption;
  the awaiting side first asks whether it is ready (\<open>Await\<close>, \<^verbatim>\<open>await_ready\<close>) and, in a second
  critical section, installs its continuation (\<open>Install\<close>, \<^verbatim>\<open>await_suspend\<close>), or it detaches; a
  scheduled resumption first claims the continuation. Each critical section is one operation,
  so the interleavings of the threads are the sequences of operations; in particular the result
  may be published between \<open>Await\<close> and \<open>Install\<close>.

  An awaiting coroutine awaits once, which is why a second \<open>Await\<close> does nothing; \<open>Install\<close> follows
  an \<open>Await\<close> that was not ready; a resumption runs only after it has been scheduled. The awaiter
  lives in the frame of the awaiting coroutine, which is not destroyed while that coroutine runs:
  \<open>Detach\<close> does nothing between \<open>Await\<close> and \<open>Install\<close>. Scheduling itself succeeds: where
  \<^verbatim>\<open>trampoline::schedule_system\<close> fails, the three implementations call \<^verbatim>\<open>std::terminate\<close>.
\<close>

section \<open>Runs\<close>

datatype ('r, 'k) rendezvous_op = Publish 'r | Await 'k | Install | Detach | Resume

record ('s, 'k) rendezvous_run =
  rr_state :: 's
  rr_awaited :: "'k option"
  rr_installing :: bool
  rr_suspended :: bool
  rr_jobs :: nat
  rr_resumed :: "'k list"

definition rr_init :: "'s \<Rightarrow> ('s, 'k) rendezvous_run" where
  "rr_init s = \<lparr>rr_state = s, rr_awaited = None, rr_installing = False, rr_suspended = False,
     rr_jobs = 0, rr_resumed = []\<rparr>"

fun rendezvous_step ::
  "('r \<Rightarrow> 's \<Rightarrow> bool \<times> 's) \<Rightarrow> ('s \<Rightarrow> bool) \<Rightarrow> ('k \<Rightarrow> 's \<Rightarrow> bool \<times> bool \<times> 's) \<Rightarrow>
     ('s \<Rightarrow> 's) \<Rightarrow> ('s \<Rightarrow> 'k option \<times> 's) \<Rightarrow> ('r, 'k) rendezvous_op \<Rightarrow>
     ('s, 'k) rendezvous_run \<Rightarrow> ('s, 'k) rendezvous_run" where
  "rendezvous_step publish ready install detach claim (Publish r) g =
     (case publish r (rr_state g) of
        (scheduled, s) \<Rightarrow> g\<lparr>rr_state := s, rr_jobs := rr_jobs g + of_bool scheduled\<rparr>)"
| "rendezvous_step publish ready install detach claim (Await k) g =
     (if rr_awaited g \<noteq> None then g
      else g\<lparr>rr_awaited := Some k, rr_installing := \<not> ready (rr_state g)\<rparr>)"
| "rendezvous_step publish ready install detach claim Install g =
     (if \<not> rr_installing g then g
      else (case install (the (rr_awaited g)) (rr_state g) of
              (suspended, scheduled, s) \<Rightarrow>
                g\<lparr>rr_state := s, rr_installing := False, rr_suspended := suspended,
                  rr_jobs := rr_jobs g + of_bool scheduled\<rparr>))"
| "rendezvous_step publish ready install detach claim Detach g =
     (if rr_installing g then g else g\<lparr>rr_state := detach (rr_state g)\<rparr>)"
| "rendezvous_step publish ready install detach claim Resume g =
     (if rr_jobs g = 0 then g
      else (case claim (rr_state g) of
              (None, s) \<Rightarrow> g\<lparr>rr_state := s, rr_jobs := rr_jobs g - 1\<rparr>
            | (Some k, s) \<Rightarrow>
                g\<lparr>rr_state := s, rr_jobs := rr_jobs g - 1, rr_resumed := rr_resumed g @ [k]\<rparr>))"

definition rendezvous_steps ::
  "('r \<Rightarrow> 's \<Rightarrow> bool \<times> 's) \<Rightarrow> ('s \<Rightarrow> bool) \<Rightarrow> ('k \<Rightarrow> 's \<Rightarrow> bool \<times> bool \<times> 's) \<Rightarrow>
     ('s \<Rightarrow> 's) \<Rightarrow> ('s \<Rightarrow> 'k option \<times> 's) \<Rightarrow> ('r, 'k) rendezvous_op list \<Rightarrow>
     ('s, 'k) rendezvous_run \<Rightarrow> ('s, 'k) rendezvous_run" where
  "rendezvous_steps publish ready install detach claim ops g =
     fold (rendezvous_step publish ready install detach claim) ops g"

text \<open>The first result published in a run.\<close>

fun first_published :: "('r, 'k) rendezvous_op list \<Rightarrow> 'r option" where
  "first_published [] = None"
| "first_published (Publish r # ops) = Some r"
| "first_published (op # ops) = first_published ops"

section \<open>The contract\<close>

text \<open>
  \<open>publish\<close> reports whether it scheduled a resumption, \<open>install\<close> whether the caller suspends and
  whether a resumption was scheduled on the spot, \<open>claim\<close> the continuation taken. The law of
  \<open>install\<close> covers a result published since \<open>ready\<close> was asked.
\<close>

locale rendezvous =
  fixes publish :: "'r \<Rightarrow> 's \<Rightarrow> bool \<times> 's"
    and ready :: "'s \<Rightarrow> bool"
    and install :: "'k \<Rightarrow> 's \<Rightarrow> bool \<times> bool \<times> 's"
    and detach :: "'s \<Rightarrow> 's"
    and claim :: "'s \<Rightarrow> 'k option \<times> 's"
    and waiting :: "'s \<Rightarrow> 'k option"
    and published :: "'s \<Rightarrow> bool"
    and detached :: "'s \<Rightarrow> bool"
    and ok :: "'s \<Rightarrow> bool"
  assumes publish_law: "\<lbrakk>ok s; publish r s = (scheduled, s')\<rbrakk> \<Longrightarrow>
      ok s' \<and> waiting s' = waiting s \<and> detached s' = detached s \<and>
      (published s \<longrightarrow> published s') \<and> (\<not> detached s \<longrightarrow> published s') \<and>
      (scheduled \<longrightarrow> waiting s \<noteq> None \<and> published s') \<and>
      (\<not> published s \<and> waiting s \<noteq> None \<longrightarrow> scheduled)"
    and ready_law: "\<lbrakk>ok s; ready s\<rbrakk> \<Longrightarrow> published s \<or> detached s"
    and install_law: "\<lbrakk>ok s; waiting s = None; install k s = (suspended, scheduled, s')\<rbrakk> \<Longrightarrow>
      ok s' \<and> detached s' = detached s \<and> (published s \<longrightarrow> published s') \<and>
      (if suspended \<and> \<not> detached s
       then waiting s' = Some k \<and> published s' = published s \<and> scheduled = published s
       else waiting s' = None \<and> \<not> scheduled) \<and>
      (\<not> suspended \<longrightarrow> published s' \<or> detached s')"
    and detach_law: "ok s \<Longrightarrow> ok (detach s) \<and> waiting (detach s) = None \<and> detached (detach s) \<and>
      (published s \<longrightarrow> published (detach s))"
    and claim_law: "\<lbrakk>ok s; claim s = (c, s')\<rbrakk> \<Longrightarrow>
      c = waiting s \<and> ok s' \<and> waiting s' = None \<and> published s' = published s \<and>
      detached s' = detached s"
    and detached_law: "\<lbrakk>ok s; detached s\<rbrakk> \<Longrightarrow> waiting s = None"
begin

definition run_inv :: "('s, 'k) rendezvous_run \<Rightarrow> bool" where
  "run_inv g \<longleftrightarrow> ok (rr_state g) \<and>
     (\<not> rr_suspended g \<longrightarrow> waiting (rr_state g) = None \<and> rr_resumed g = []) \<and>
     (rr_suspended g \<or> rr_installing g \<longrightarrow> rr_awaited g \<noteq> None) \<and>
     (rr_installing g \<longrightarrow> \<not> rr_suspended g) \<and>
     (rr_resumed g \<noteq> [] \<longrightarrow> waiting (rr_state g) = None \<and> published (rr_state g) \<and>
        rr_resumed g = [the (rr_awaited g)]) \<and>
     (waiting (rr_state g) \<noteq> None \<longrightarrow> waiting (rr_state g) = rr_awaited g) \<and>
     (rr_suspended g \<and> rr_resumed g = [] \<and> \<not> detached (rr_state g) \<longrightarrow>
        waiting (rr_state g) \<noteq> None) \<and>
     (waiting (rr_state g) \<noteq> None \<and> published (rr_state g) \<longrightarrow> 0 < rr_jobs g) \<and>
     (0 < rr_jobs g \<longrightarrow> published (rr_state g)) \<and>
     (rr_awaited g \<noteq> None \<and> \<not> rr_suspended g \<and> \<not> rr_installing g \<longrightarrow>
        published (rr_state g) \<or> detached (rr_state g))"

lemma run_inv_init:
  assumes "ok s" and "waiting s = None"
  shows "run_inv (rr_init s)"
  using assms by (simp add: run_inv_def rr_init_def)

lemma run_inv_step:
  assumes inv: "run_inv g"
  shows "run_inv (rendezvous_step publish ready install detach claim op g)"
proof (cases op)
  case (Publish r)
  obtain b s where p: "publish r (rr_state g) = (b, s)" by fastforce
  have ok: "ok (rr_state g)" using inv by (simp add: run_inv_def)
  from publish_law [OF ok p]
  have l: "ok s" "waiting s = waiting (rr_state g)" "detached s = detached (rr_state g)"
    and pub: "published (rr_state g) \<Longrightarrow> published s"
    and job: "b \<Longrightarrow> published s" "\<lbrakk>\<not> b; waiting (rr_state g) \<noteq> None\<rbrakk> \<Longrightarrow> published (rr_state g)"
    by auto
  show ?thesis
    using inv unfolding run_inv_def Publish
    by (simp add: p l) (use pub job in \<open>metis option.distinct(1)\<close>)
next
  case (Await k)
  show ?thesis
  proof (cases "rr_awaited g")
    case None
    then have "ok (rr_state g)" "\<not> rr_suspended g" "\<not> rr_installing g" "waiting (rr_state g) = None"
        "rr_resumed g = []" "0 < rr_jobs g \<longrightarrow> published (rr_state g)"
      using inv by (auto simp: run_inv_def)
    then show ?thesis using ready_law None unfolding run_inv_def Await by auto
  qed (simp add: Await inv)
next
  case Install
  show ?thesis
  proof (cases "rr_installing g")
    case True
    obtain k where k: "rr_awaited g = Some k" using inv True by (auto simp: run_inv_def)
    have ok: "ok (rr_state g)" "waiting (rr_state g) = None" "rr_resumed g = []"
      and jobs: "0 < rr_jobs g \<longrightarrow> published (rr_state g)"
      using inv True by (auto simp: run_inv_def)
    obtain b c s where p: "install k (rr_state g) = (b, c, s)" by (metis prod_cases3)
    note l = install_law [OF ok(1,2) p]
    show ?thesis
    proof (cases "b \<and> \<not> detached (rr_state g)")
      case True
      then show ?thesis using l ok(3) jobs k \<open>rr_installing g\<close> unfolding run_inv_def Install by (auto simp: p)
    next
      case False
      then show ?thesis using l ok(3) jobs k \<open>rr_installing g\<close> unfolding run_inv_def Install by (auto simp: p)
    qed
  qed (simp add: Install inv)
next
  case Detach
  have ok: "ok (rr_state g)" using inv by (simp add: run_inv_def)
  show ?thesis using inv detach_law [OF ok] unfolding run_inv_def Detach by auto
next
  case Resume
  have ok: "ok (rr_state g)" using inv by (simp add: run_inv_def)
  obtain c s where p: "claim (rr_state g) = (c, s)" by fastforce
  note l = claim_law [OF ok p]
  show ?thesis
  proof (cases "rr_jobs g")
    case (Suc n)
    then have pub: "published (rr_state g)" using inv by (simp add: run_inv_def)
    show ?thesis
    proof (cases c)
      case None
      then show ?thesis using l inv Suc pub unfolding run_inv_def Resume by (auto simp: p)
    next
      case (Some k)
      then have w: "waiting (rr_state g) = Some k" using l by simp
      then have "rr_suspended g" "\<not> rr_installing g" "rr_resumed g = []" "rr_awaited g = Some k"
        using inv by (auto simp: run_inv_def)
      moreover have "claim (rr_state g) = (Some k, s)" using p Some by simp
      ultimately show ?thesis using l Suc pub unfolding run_inv_def Resume by simp
    qed
  qed (use inv in \<open>simp add: Resume\<close>)
qed

lemma run_inv_steps:
  "run_inv g \<Longrightarrow> run_inv (rendezvous_steps publish ready install detach claim ops g)"
  unfolding rendezvous_steps_def by (induction ops arbitrary: g) (simp_all add: run_inv_step)

text \<open>
  The awaiting coroutine is resumed at most once, and only after publication; it is not left
  suspended: with the result published, nobody detached and no resumption outstanding it has
  been resumed; an await that is over and did not suspend finds a result (or is abandoned).
\<close>

lemma resumed_once:
  assumes "ok s" and "waiting s = None"
    and "g = rendezvous_steps publish ready install detach claim ops (rr_init s)"
  shows "rr_resumed g \<noteq> [] \<Longrightarrow> rr_suspended g \<and> rr_awaited g \<noteq> None \<and>
      rr_resumed g = [the (rr_awaited g)] \<and> published (rr_state g)"
    and "\<lbrakk>rr_suspended g; published (rr_state g); \<not> detached (rr_state g); rr_jobs g = 0\<rbrakk> \<Longrightarrow>
      rr_resumed g = [the (rr_awaited g)]"
    and "\<lbrakk>rr_awaited g \<noteq> None; \<not> rr_suspended g; \<not> rr_installing g\<rbrakk> \<Longrightarrow>
      published (rr_state g) \<or> detached (rr_state g)"
proof -
  have inv: "run_inv g" using run_inv_steps [OF run_inv_init [OF assms(1,2)]] assms(3) by simp
  show "rr_resumed g \<noteq> [] \<Longrightarrow> rr_suspended g \<and> rr_awaited g \<noteq> None \<and>
      rr_resumed g = [the (rr_awaited g)] \<and> published (rr_state g)"
    using inv unfolding run_inv_def by metis
  show "\<lbrakk>rr_suspended g; published (rr_state g); \<not> detached (rr_state g); rr_jobs g = 0\<rbrakk> \<Longrightarrow>
      rr_resumed g = [the (rr_awaited g)]"
    using inv unfolding run_inv_def by (metis less_irrefl)
  show "\<lbrakk>rr_awaited g \<noteq> None; \<not> rr_suspended g; \<not> rr_installing g\<rbrakk> \<Longrightarrow>
      published (rr_state g) \<or> detached (rr_state g)"
    using inv unfolding run_inv_def by metis
qed

text \<open>Once detached, nothing is resumed any more.\<close>

lemma detached_stays:
  assumes "run_inv g" and "detached (rr_state g)"
  shows "detached (rr_state (rendezvous_step publish ready install detach claim op g)) \<and>
    rr_resumed (rendezvous_step publish ready install detach claim op g) = rr_resumed g"
proof -
  have ok: "ok (rr_state g)" and w: "waiting (rr_state g) = None"
    using assms detached_law by (auto simp: run_inv_def)
  show ?thesis
  proof (cases op)
    case (Publish r)
    then show ?thesis
      using assms(2) publish_law [OF ok, of r] by (cases "publish r (rr_state g)") auto
  next
    case (Await k)
    then show ?thesis using assms(2) by simp
  next
    case Install
    then show ?thesis
      using assms(2) install_law [OF ok w, of "the (rr_awaited g)"]
      by (cases "install (the (rr_awaited g)) (rr_state g)") auto
  next
    case Detach
    then show ?thesis using assms(2) detach_law [OF ok] by simp
  next
    case Resume
    then show ?thesis
      using assms(2) claim_law [OF ok] w by (cases "claim (rr_state g)") auto
  qed
qed

lemma detached_final:
  assumes "run_inv g" and "detached (rr_state g)"
  shows "rr_resumed (rendezvous_steps publish ready install detach claim ops g) = rr_resumed g"
  using assms
proof (induction ops arbitrary: g)
  case Nil
  then show ?case by (simp add: rendezvous_steps_def)
next
  case (Cons op ops)
  have "rendezvous_steps publish ready install detach claim (op # ops) g =
      rendezvous_steps publish ready install detach claim ops
        (rendezvous_step publish ready install detach claim op g)"
    by (simp add: rendezvous_steps_def)
  then show ?case
    using Cons.IH [OF run_inv_step [OF Cons.prems(1)]] detached_stays [OF Cons.prems] by simp
qed

end

end
