(* ===== verification/Vio_Task.thy ===== *)
theory Vio_Task
  imports Scheduler Rendezvous
begin

text \<open>
  \<^verbatim>\<open>include/voris/io/task.hpp\<close> and \<^verbatim>\<open>when_all.hpp\<close>. A task is one coroutine frame with its
  promise and the continuation state that outlives the frame; \<open>tk_handle\<close> says that the owner,
  the task object or the awaiter it was moved into, still has the frame. What the coroutine's
  body does is user code: it ends with one of the \<open>outcome\<close>s. Storing the outcome and the final
  suspension that publishes it are one step of the coroutine's thread. \<^verbatim>\<open>task<void>\<close> repeats the
  code of \<^verbatim>\<open>task<T>\<close> and is the instance \<open>'a = unit\<close>.
\<close>

type_synonym coroutine_handle = nat

section \<open>The continuation state\<close>

datatype task_continuation_install_result = Suspend | Ready | Already_consumed

record task_continuation_state =
  tc_continuation :: "coroutine_handle option"
  tc_scheduler :: "scheduler_id option"
  tc_completed :: bool
  tc_detached :: bool
  tc_consumed :: bool

definition tc_detach ::
  "'e task_continuation_state_scheme \<Rightarrow> 'e task_continuation_state_scheme" where
  "tc_detach st = st\<lparr>tc_continuation := None, tc_scheduler := None, tc_detached := True\<rparr>"

definition tc_install ::
  "coroutine_handle \<Rightarrow> scheduler_id \<Rightarrow> 'e task_continuation_state_scheme \<Rightarrow>
     task_continuation_install_result \<times> 'e task_continuation_state_scheme" where
  "tc_install next next_scheduler st =
     (if tc_consumed st then (Already_consumed, st)
      else
        (let st1 = st\<lparr>tc_consumed := True\<rparr>
         in if tc_completed st1 \<or> tc_detached st1 then (Ready, st1)
            else (Suspend, st1\<lparr>tc_continuation := Some next, tc_scheduler := Some next_scheduler\<rparr>)))"

definition tc_publish_completed ::
  "'e task_continuation_state_scheme \<Rightarrow>
     scheduler_id option \<times> 'e task_continuation_state_scheme" where
  "tc_publish_completed st =
     (let st1 = st\<lparr>tc_completed := True\<rparr>
      in (if tc_detached st1 \<or> tc_continuation st1 = None \<or> tc_scheduler st1 = None then None
          else tc_scheduler st1, st1))"

definition tc_claim ::
  "'e task_continuation_state_scheme \<Rightarrow>
     (coroutine_handle \<times> scheduler_id) option \<times> 'e task_continuation_state_scheme" where
  "tc_claim st =
     (if tc_detached st \<or> tc_continuation st = None \<or> tc_scheduler st = None then (None, st)
      else (Some (the (tc_continuation st), the (tc_scheduler st)),
            st\<lparr>tc_continuation := None, tc_scheduler := None\<rparr>))"

definition tc_mark_completed ::
  "'e task_continuation_state_scheme \<Rightarrow> 'e task_continuation_state_scheme" where
  "tc_mark_completed st = st\<lparr>tc_completed := True\<rparr>"

text \<open>The claimed coroutine runs with the scheduler it was installed with as the current one.\<close>

definition resume_task_continuation ::
  "(coroutine_handle \<Rightarrow> 'e thread_state_scheme \<Rightarrow> 'e thread_state_scheme) \<Rightarrow>
     task_continuation_state \<Rightarrow> 'e thread_state_scheme \<Rightarrow>
     task_continuation_state \<times> 'e thread_state_scheme" where
  "resume_task_continuation resume st t =
     (case tc_claim st of
        (None, st') \<Rightarrow> (st', t)
      | (Some (continuation, scheduler), st') \<Rightarrow>
          (st', in_scheduler_scope scheduler (resume continuation) t))"

section \<open>Promise and task\<close>

record 'a task_cell = task_continuation_state +
  tk_creation_scheduler :: "scheduler_id option"
  tk_result :: "'a io_result option"
  tk_handle :: bool
  tk_awaiter :: bool

definition invalid_result :: "string \<Rightarrow> 'a io_result" where
  "invalid_result d = Inl (make_error_diagnostic invalid_state d)"

definition promise_set_invalid_state :: "string \<Rightarrow> 'a task_cell \<Rightarrow> 'a task_cell" where
  "promise_set_invalid_state d c =
     (if tk_result c = None then tc_mark_completed (c\<lparr>tk_result := Some (invalid_result d)\<rparr>) else c)"

definition promise_has_result :: "'a task_cell \<Rightarrow> bool" where
  "promise_has_result c = tc_completed c"

definition promise_install_continuation ::
  "coroutine_handle \<Rightarrow> scheduler_id \<Rightarrow> 'a task_cell \<Rightarrow> bool \<times> 'a task_cell" where
  "promise_install_continuation next scheduler c =
     (case tc_install next scheduler c of
        (Already_consumed, c') \<Rightarrow> (False, promise_set_invalid_state ''task awaited more than once'' c')
      | (installed, c') \<Rightarrow> (installed = Suspend, c'))"

definition promise_take_result :: "'a task_cell \<Rightarrow> 'a io_result" where
  "promise_take_result c =
     (if \<not> promise_has_result c \<or> tk_result c = None then invalid_result ''task has not completed''
      else the (tk_result c))"

text \<open>Creation, and \<^verbatim>\<open>task_initial_awaiter\<close>: without a current scheduler the body never starts.\<close>

definition task_create :: "scheduler_id option \<Rightarrow> 'a task_cell" where
  "task_create current =
     \<lparr>tc_continuation = None, tc_scheduler = None, tc_completed = False, tc_detached = False,
      tc_consumed = False, tk_creation_scheduler = current, tk_result = None, tk_handle = True,
      tk_awaiter = False\<rparr>"

definition task_initial_suspend :: "'a task_cell \<Rightarrow> bool \<times> 'a task_cell" where
  "task_initial_suspend c =
     (if tk_creation_scheduler c \<noteq> None then (True, c)
      else (False, promise_set_invalid_state ''task created without a current scheduler'' c))"

datatype 'a outcome = Return_value 'a | Return_result "'a io_result" | Threw

fun outcome_result :: "'a outcome \<Rightarrow> 'a io_result" where
  "outcome_result (Return_value v) = Inr v"
| "outcome_result (Return_result r) = r"
| "outcome_result Threw = invalid_result ''unhandled coroutine exception''"

text \<open>\<^verbatim>\<open>task_final_awaiter::await_suspend\<close>, with the scheduler the resumption goes to.\<close>

definition task_final_suspend :: "'a task_cell \<Rightarrow> scheduler_id option \<times> 'a task_cell" where
  "task_final_suspend c = tc_publish_completed c"

definition task_complete :: "'a outcome \<Rightarrow> 'a task_cell \<Rightarrow> scheduler_id option \<times> 'a task_cell" where
  "task_complete r c = task_final_suspend (c\<lparr>tk_result := Some (outcome_result r)\<rparr>)"

definition task_is_ready :: "'a task_cell \<Rightarrow> bool" where
  "task_is_ready c \<longleftrightarrow> \<not> tk_handle c \<or> promise_has_result c"

definition task_destroy :: "'a task_cell \<Rightarrow> 'a task_cell" where
  "task_destroy c = c\<lparr>tk_handle := False\<rparr>"

definition task_take_result :: "'a task_cell \<Rightarrow> 'a io_result \<times> 'a task_cell" where
  "task_take_result c =
     (if \<not> tk_handle c then (invalid_result ''empty task'', c)
      else (promise_take_result c, task_destroy c))"

section \<open>The awaiter\<close>

definition task_co_await :: "'a task_cell \<Rightarrow> 'a task_cell" where
  "task_co_await c = c\<lparr>tk_awaiter := tk_handle c\<rparr>"

definition awaiter_detach :: "'a task_cell \<Rightarrow> 'a task_cell" where
  "awaiter_detach c = (if tk_awaiter c then (tc_detach c)\<lparr>tk_awaiter := False\<rparr> else c)"

definition awaiter_destroy :: "'a task_cell \<Rightarrow> 'a task_cell" where
  "awaiter_destroy c =
     (let c1 = awaiter_detach c in if tk_handle c1 then task_destroy c1 else c1)"

definition task_await_ready :: "'a task_cell \<Rightarrow> bool" where
  "task_await_ready c \<longleftrightarrow> \<not> tk_handle c \<or> promise_has_result c"

definition task_await_suspend ::
  "scheduler_id option \<Rightarrow> coroutine_handle \<Rightarrow> 'a task_cell \<Rightarrow> bool \<times> 'a task_cell" where
  "task_await_suspend current continuation c =
     (case current of
        None \<Rightarrow> (False, promise_set_invalid_state ''await without a current scheduler'' c)
      | Some scheduler \<Rightarrow> promise_install_continuation continuation scheduler c)"

definition task_await_resume :: "'a task_cell \<Rightarrow> 'a io_result \<times> 'a task_cell" where
  "task_await_resume c =
     (if \<not> tk_handle c then (invalid_result ''empty task'', c)
      else (promise_take_result c, awaiter_detach (task_destroy c)))"

section \<open>The rendezvous of a task with its awaiter\<close>

text \<open>
  The operations in the shape of the rendezvous: the coroutine completes while its frame
  exists; \<^verbatim>\<open>co_await\<close> asks \<open>await_ready\<close> first and installs the continuation in a critical section
  of its own; the awaiting coroutine is named by its handle and the scheduler current where it
  awaits.
\<close>

type_synonym awaiting = "coroutine_handle \<times> scheduler_id option"

definition task_publish :: "'a outcome \<Rightarrow> 'a task_cell \<Rightarrow> bool \<times> 'a task_cell" where
  "task_publish r c =
     (if tk_handle c then (case task_complete r c of (s, c') \<Rightarrow> (s \<noteq> None, c')) else (False, c))"

definition task_await_install :: "awaiting \<Rightarrow> 'a task_cell \<Rightarrow> bool \<times> bool \<times> 'a task_cell" where
  "task_await_install k c =
     (case task_await_suspend (snd k) (fst k) c of (suspended, c') \<Rightarrow> (suspended, False, c'))"

definition task_claim :: "'a task_cell \<Rightarrow> awaiting option \<times> 'a task_cell" where
  "task_claim c =
     (case tc_claim c of
        (None, c') \<Rightarrow> (None, c')
      | (Some (h, s), c') \<Rightarrow> (Some (h, Some s), c'))"

definition task_waiting :: "'a task_cell \<Rightarrow> awaiting option" where
  "task_waiting c = map_option (\<lambda>h. (h, tc_scheduler c)) (tc_continuation c)"

definition task_ok :: "'a task_cell \<Rightarrow> bool" where
  "task_ok c \<longleftrightarrow> (tc_continuation c = None \<longleftrightarrow> tc_scheduler c = None) \<and>
     (tc_detached c \<longrightarrow> tc_continuation c = None) \<and>
     (tk_handle c \<longleftrightarrow> \<not> tc_detached c) \<and> (tk_awaiter c \<longleftrightarrow> \<not> tc_detached c) \<and>
     (tc_completed c \<longleftrightarrow> tk_result c \<noteq> None)"

lemmas task_op_defs = task_publish_def task_complete_def task_final_suspend_def
  tc_publish_completed_def task_await_install_def task_await_ready_def task_await_suspend_def
  promise_has_result_def promise_set_invalid_state_def promise_install_continuation_def
  tc_install_def tc_mark_completed_def tc_detach_def tc_claim_def task_claim_def
  awaiter_detach_def awaiter_destroy_def task_destroy_def Let_def

interpretation tk: rendezvous task_publish task_await_ready task_await_install awaiter_destroy task_claim
  task_waiting tc_completed tc_detached task_ok
proof
  fix r b and s s' :: "'a task_cell"
  assume "task_ok s" "task_publish r s = (b, s')"
  then show "task_ok s' \<and> task_waiting s' = task_waiting s \<and> tc_detached s' = tc_detached s \<and>
      (tc_completed s \<longrightarrow> tc_completed s') \<and> (\<not> tc_detached s \<longrightarrow> tc_completed s') \<and>
      (b \<longrightarrow> task_waiting s \<noteq> None \<and> tc_completed s') \<and>
      (\<not> tc_completed s \<and> task_waiting s \<noteq> None \<longrightarrow> b)"
    by (auto simp: task_ok_def task_op_defs task_waiting_def split: if_splits)
next
  fix s :: "'a task_cell"
  assume "task_ok s" "task_await_ready s"
  then show "tc_completed s \<or> tc_detached s" by (auto simp: task_ok_def task_op_defs)
next
  fix k b d and s s' :: "'a task_cell"
  assume "task_ok s" "task_waiting s = None" "task_await_install k s = (b, d, s')"
  then show "task_ok s' \<and> tc_detached s' = tc_detached s \<and>
      (tc_completed s \<longrightarrow> tc_completed s') \<and>
      (if b \<and> \<not> tc_detached s
       then task_waiting s' = Some k \<and> tc_completed s' = tc_completed s \<and> d = tc_completed s
       else task_waiting s' = None \<and> \<not> d) \<and>
      (\<not> b \<longrightarrow> tc_completed s' \<or> tc_detached s')"
    by (cases k) (auto simp: task_ok_def task_op_defs task_waiting_def split: if_splits option.splits)
next
  fix s :: "'a task_cell"
  assume "task_ok s"
  then show "task_ok (awaiter_destroy s) \<and> task_waiting (awaiter_destroy s) = None \<and>
      tc_detached (awaiter_destroy s) \<and> (tc_completed s \<longrightarrow> tc_completed (awaiter_destroy s))"
    by (auto simp: task_ok_def task_op_defs task_waiting_def)
next
  fix c and s s' :: "'a task_cell"
  assume "task_ok s" "task_claim s = (c, s')"
  then show "c = task_waiting s \<and> task_ok s' \<and> task_waiting s' = None \<and>
      tc_completed s' = tc_completed s \<and> tc_detached s' = tc_detached s"
    by (auto simp: task_ok_def task_op_defs task_waiting_def split: if_splits)
next
  fix s :: "'a task_cell"
  assume "task_ok s" "tc_detached s"
  then show "task_waiting s = None" by (simp add: task_ok_def task_waiting_def)
qed

text \<open>A task that has been created under a scheduler and is being awaited.\<close>

definition task_begin :: "scheduler_id \<Rightarrow> 'a task_cell" where
  "task_begin scheduler = task_co_await (snd (task_initial_suspend (task_create (Some scheduler))))"

abbreviation task_run ::
  "('a outcome, awaiting) rendezvous_op list \<Rightarrow> ('a task_cell, awaiting) rendezvous_run \<Rightarrow>
     ('a task_cell, awaiting) rendezvous_run" where
  "task_run \<equiv> rendezvous_steps task_publish task_await_ready task_await_install awaiter_destroy task_claim"

lemma task_begin_ok: "task_ok (task_begin c)" "task_waiting (task_begin c) = None"
  by (simp_all add: task_begin_def task_create_def task_initial_suspend_def task_co_await_def
      task_ok_def task_waiting_def)

text \<open>Where a result comes from, when the awaiting side has a scheduler.\<close>

definition result_from :: "'a outcome set \<Rightarrow> ('a task_cell, awaiting) rendezvous_run \<Rightarrow> bool" where
  "result_from R g \<longleftrightarrow>
     (\<forall>r. tk_result (rr_state g) = Some r \<longrightarrow> r \<in> outcome_result ` R) \<and>
     (\<forall>k. rr_awaited g = Some k \<longrightarrow> snd k \<noteq> None) \<and>
     (rr_awaited g = None \<or> rr_installing g \<longrightarrow> \<not> tc_consumed (rr_state g))"

abbreviation task_step ::
  "('a outcome, awaiting) rendezvous_op \<Rightarrow> ('a task_cell, awaiting) rendezvous_run \<Rightarrow>
     ('a task_cell, awaiting) rendezvous_run" where
  "task_step \<equiv>
     rendezvous_step task_publish task_await_ready task_await_install awaiter_destroy task_claim"

lemma result_from_step:
  assumes "result_from R g" and "tk.run_inv g" and "\<And>r. op = Publish r \<Longrightarrow> r \<in> R"
    and "\<And>k. op = Await k \<Longrightarrow> snd k \<noteq> None"
  shows "result_from R (task_step op g)"
proof (cases op)
  case (Publish r)
  then show ?thesis
    using assms(1) assms(3) [of r] by (auto simp: result_from_def task_op_defs)
next
  case (Await k)
  then show ?thesis using assms(1,4) by (auto simp: result_from_def task_op_defs)
next
  case Install
  show ?thesis
  proof (cases "rr_installing g")
    case True
    then obtain k sch where "rr_awaited g = Some k" "snd k = Some sch"
      using assms(1,2) by (auto simp: result_from_def tk.run_inv_def)
    then show ?thesis using assms(1) Install True by (auto simp: result_from_def task_op_defs)
  qed (use assms(1) Install in simp)
next
  case Detach
  then show ?thesis using assms(1) by (auto simp: result_from_def task_op_defs)
next
  case Resume
  then show ?thesis
    using assms(1) by (auto simp: result_from_def task_op_defs split: option.splits)
qed

lemma result_from_run:
  assumes "\<forall>k. Await k \<in> set ops \<longrightarrow> snd k \<noteq> None" and "\<forall>r. Publish r \<in> set ops \<longrightarrow> r \<in> R"
    and "result_from R g" and "tk.run_inv g"
  shows "result_from R (task_run ops g)"
  using assms unfolding rendezvous_steps_def
proof (induction ops arbitrary: g)
  case (Cons op ops)
  then show ?case
    using result_from_step [of R g op] tk.run_inv_step [of g op]
    by (auto simp del: rendezvous_step.simps)
qed simp

section \<open>Awaiting all of several tasks\<close>

text \<open>
  \<^verbatim>\<open>when_all_impl\<close> awaits its tasks from left to right (the braces of the tuple fix the order) and
  collects the results. Between two suspensions the coroutine consumes every task at the front
  that is ready. The tuple's element types are one type here.
\<close>

fun when_all_advance ::
  "'a io_result list \<Rightarrow> 'a task_cell list \<Rightarrow> 'a io_result list \<times> 'a task_cell list" where
  "when_all_advance results [] = (results, [])"
| "when_all_advance results (c # cs) =
     (if task_await_ready c
      then when_all_advance (results @ [fst (task_await_resume (task_co_await c))]) cs
      else (results, c # cs))"

text \<open>
  The parent is suspended on the front task: it goes on exactly when that one completes. The
  children complete in any order, each by its number.
\<close>

definition when_all_complete ::
  "nat \<Rightarrow> 'a outcome \<Rightarrow> 'a io_result list \<times> 'a task_cell list \<Rightarrow>
     'a io_result list \<times> 'a task_cell list" where
  "when_all_complete i r p =
     (case p of (results, cs) \<Rightarrow>
        if i < length results \<or> i \<ge> length results + length cs then (results, cs)
        else
          (let j = i - length results;
               cs' = cs[j := snd (task_publish r (cs ! j))]
           in if j = 0 then when_all_advance results cs' else (results, cs')))"

definition when_all_run ::
  "(nat \<times> 'a outcome) list \<Rightarrow> 'a task_cell list \<Rightarrow> 'a io_result list \<times> 'a task_cell list" where
  "when_all_run events cs =
     fold (\<lambda>(i, r). when_all_complete i r) events (when_all_advance [] cs)"

text \<open>
  Invariant: with \<open>M\<close> the completions so far, the results are those of a prefix of the tasks,
  and a remaining task is ready, with its result, exactly if it has completed.
\<close>

definition child_matches :: "'a outcome option \<Rightarrow> 'a task_cell \<Rightarrow> bool" where
  "child_matches m c \<longleftrightarrow> tk_handle c \<and> tk_result c = map_option outcome_result m \<and>
     tc_completed c = (m \<noteq> None)"

definition when_all_inv ::
  "(nat \<rightharpoonup> 'a outcome) \<Rightarrow> nat \<Rightarrow> 'a io_result list \<times> 'a task_cell list \<Rightarrow> bool" where
  "when_all_inv M n p \<longleftrightarrow> (case p of (results, cs) \<Rightarrow>
     length results + length cs = n \<and>
     (\<forall>i < length results. \<exists>r. M i = Some r \<and> results ! i = outcome_result r) \<and>
     (\<forall>j < length cs. child_matches (M (length results + j)) (cs ! j)))"

definition front_pending :: "'a io_result list \<times> 'a task_cell list \<Rightarrow> bool" where
  "front_pending p \<longleftrightarrow> (case snd p of [] \<Rightarrow> True | c # cs \<Rightarrow> \<not> task_await_ready c)"

lemma when_all_advance_inv:
  "when_all_inv M n (results, cs) \<Longrightarrow>
   when_all_inv M n (when_all_advance results cs) \<and> front_pending (when_all_advance results cs)"
proof (induction results cs rule: when_all_advance.induct)
  case (1 results)
  then show ?case by (simp add: front_pending_def)
next
  case (2 results c cs)
  show ?case
  proof (cases "task_await_ready c")
    case True
    have c: "child_matches (M (length results)) c"
      and cs: "\<forall>j < length cs. child_matches (M (Suc (length results + j))) (cs ! j)"
      using 2(2) by (simp_all add: when_all_inv_def All_less_Suc2)
    then obtain r where r: "M (length results) = Some r"
      using True by (auto simp: task_await_ready_def promise_has_result_def child_matches_def)
    have res: "fst (task_await_resume (task_co_await c)) = outcome_result r"
      using c r by (simp add: task_await_resume_def task_co_await_def promise_take_result_def
          promise_has_result_def child_matches_def)
    have "when_all_inv M n (results @ [outcome_result r], cs)"
      using 2(2) r cs by (simp add: when_all_inv_def nth_append All_less_Suc)
    then show ?thesis using 2(1) [OF True] True res by simp
  next
    case False
    then show ?thesis using 2(2) by (simp add: front_pending_def)
  qed
qed

lemma when_all_complete_inv:
  assumes inv: "when_all_inv M n p" and pending: "front_pending p" and "i < n" and "M i = None"
  shows "when_all_inv (M(i \<mapsto> r)) n (when_all_complete i r p) \<and>
    front_pending (when_all_complete i r p)"
proof -
  obtain results cs where p: "p = (results, cs)" by fastforce
  have "\<forall>k < length results. M k \<noteq> None" using inv by (auto simp: p when_all_inv_def)
  then have i: "length results \<le> i" using \<open>M i = None\<close> not_le by blast
  then obtain j where j: "i = length results + j" using le_Suc_ex by blast
  have len: "length results + length cs = n" using inv by (simp add: p when_all_inv_def)
  then have "j < length cs" using assms(3) j by simp
  let ?cs = "cs[j := snd (task_publish r (cs ! j))]"
  have "child_matches (Some r) (snd (task_publish r (cs ! j)))"
    using inv \<open>j < length cs\<close> \<open>M i = None\<close> j
    by (auto simp: p when_all_inv_def child_matches_def task_op_defs)
  then have inv': "when_all_inv (M(i \<mapsto> r)) n (results, ?cs)"
    using inv j by (auto simp: p when_all_inv_def nth_list_update)
  have step: "when_all_complete i r p =
      (if j = 0 then when_all_advance results ?cs else (results, ?cs))"
    using j len assms(3) by (simp add: when_all_complete_def p)
  have "j \<noteq> 0 \<Longrightarrow> front_pending (results, ?cs)"
    using pending by (cases cs; cases j) (auto simp: front_pending_def p)
  then show ?thesis using when_all_advance_inv [OF inv'] inv' unfolding step by (cases "j = 0") simp_all
qed

lemma when_all_run_inv:
  assumes "\<forall>(i, r) \<in> set events. i < n" and "distinct (map fst events)"
    and "when_all_inv M n p" and "front_pending p" and "\<forall>(i, r) \<in> set events. M i = None"
  shows "when_all_inv (M ++ map_of events) n (fold (\<lambda>(i, r). when_all_complete i r) events p) \<and>
    front_pending (fold (\<lambda>(i, r). when_all_complete i r) events p)"
  using assms
proof (induction events arbitrary: M p)
  case Nil
  then show ?case by simp
next
  case (Cons e es)
  obtain i r where e: "e = (i, r)" by fastforce
  have "i \<notin> dom (map_of es)" using Cons.prems(2) by (simp add: e dom_map_of_conv_image_fst)
  then have upd: "M ++ map_of (e # es) = M(i \<mapsto> r) ++ map_of es"
    by (simp add: e map_add_upd_left)
  have step: "when_all_inv (M(i \<mapsto> r)) n (when_all_complete i r p)"
    "front_pending (when_all_complete i r p)"
    using when_all_complete_inv [OF Cons.prems(3,4), of i r] Cons.prems(1,5) by (auto simp: e)
  have "\<forall>(j, r') \<in> set es. (M(i \<mapsto> r)) j = None"
    using Cons.prems(2,5) by (force simp: e)
  moreover have "\<forall>(i, r) \<in> set es. i < n" "distinct (map fst es)" using Cons.prems(1,2) by simp_all
  ultimately show ?case
    using Cons.IH [OF _ _ step] unfolding upd by (simp only: e fold_simps prod.case)
qed

section \<open>Theorems\<close>



text \<open>
  \<^verbatim>\<open>when_all\<close> delivers in argument order whatever the order of completion: for tasks that
  complete at most once each, in any order, the coroutine has consumed exactly the results of
  the longest prefix of completed tasks; it is finished exactly when all have completed, and then
  its result is the list of all outcomes by position.
\<close>

theorem when_all_in_order:
  assumes "\<forall>c \<in> set cs. tk_handle c \<and> tk_result c = None \<and> \<not> tc_completed c"
    and "\<forall>(i, r) \<in> set events. i < length cs" and "distinct (map fst events)"
    and "when_all_run events cs = (results, pending)"
  shows "results = map (\<lambda>i. outcome_result (the (map_of events i))) [0..<length results] \<and>
    (\<forall>i < length results. i \<in> fst ` set events) \<and>
    length results + length pending = length cs \<and>
    (pending \<noteq> [] \<longrightarrow> length results \<notin> fst ` set events) \<and>
    (pending = [] \<longleftrightarrow> {..<length cs} \<subseteq> fst ` set events)"
proof -
  have start: "when_all_inv Map.empty (length cs) ([], cs)"
    using assms(1) by (simp add: when_all_inv_def child_matches_def)
  have "when_all_inv (map_of events) (length cs) (results, pending)"
    and front: "front_pending (results, pending)"
    using when_all_run_inv [OF assms(2,3) conjunct1 [OF when_all_advance_inv [OF start]]
        conjunct2 [OF when_all_advance_inv [OF start]]] assms(4)
    by (simp_all add: when_all_run_def)
  then have inv: "length results + length pending = length cs"
    "\<forall>i < length results. \<exists>r. map_of events i = Some r \<and> results ! i = outcome_result r"
    "\<forall>j < length pending. child_matches (map_of events (length results + j)) (pending ! j)"
    by (simp_all add: when_all_inv_def)
  have dom: "map_of events i \<noteq> None \<longleftrightarrow> i \<in> fst ` set events" for i
    by (simp add: map_of_eq_None_iff)
  have p: "pending \<noteq> [] \<Longrightarrow> map_of events (length results) = None"
    using front inv(3) by (cases pending) (auto simp: front_pending_def task_await_ready_def
        promise_has_result_def child_matches_def All_less_Suc2)
  have r: "\<forall>i < length results. i \<in> fst ` set events" using inv(2) dom by (metis option.distinct(1))
  have "results = map (\<lambda>i. outcome_result (the (map_of events i))) [0..<length results]"
    using inv(2) by (intro nth_equalityI) auto
  moreover have "pending = [] \<longleftrightarrow> {..<length cs} \<subseteq> fst ` set events"
  proof
    assume "pending = []"
    then show "{..<length cs} \<subseteq> fst ` set events" using r inv(1) by auto
  next
    assume sub: "{..<length cs} \<subseteq> fst ` set events"
    show "pending = []"
    proof (rule ccontr)
      assume "pending \<noteq> []"
      then have "length results \<in> {..<length cs}" using inv(1) by (auto simp: neq_Nil_conv)
      moreover have "length results \<notin> fst ` set events" using p [OF \<open>pending \<noteq> []\<close>] dom by blast
      ultimately show False using sub by blast
    qed
  qed
  ultimately show ?thesis using p r inv(1) dom by blast
qed

theorem when_all_in_order_witness:
  "when_all_run [(1, Return_value (8 :: nat)), (0, Return_value 3)] [task_create (Some 1),
     task_create (Some 1)] = ([Inr 3, Inr 8], [])"
proof -
  let ?cs = "[task_create (Some 1), task_create (Some 1)] :: nat task_cell list"
  let ?ev = "[(1, Return_value (8 :: nat)), (0, Return_value 3)]"
  obtain results pending where run: "when_all_run ?ev ?cs = (results, pending)" by fastforce
  have "length ?cs = 2" by simp
  have "results = map (\<lambda>i. outcome_result (the (map_of ?ev i))) [0..<length results] \<and>
      length results + length pending = 2 \<and> pending = []"
    using when_all_in_order [OF _ _ _ run] by (auto simp: task_create_def less_2_cases_iff)
  then have r: "results = map (\<lambda>i. outcome_result (the (map_of ?ev i))) [0..<length results]"
    and p: "pending = []" and "length results + length pending = 2"
    by blast+
  then have "length results = 2" by (simp only: p list.size)
  with r have "results = [Inr 3, Inr 8]" by (simp add: upt_rec)
  then show ?thesis using run p by simp
qed

end
