(* ===== verification/Task_Void.thy ===== *)
theory Task_Void
  imports Vio_Task
begin

text \<open>
  \<^verbatim>\<open>task<void>::promise_type\<close> of \<^verbatim>\<open>include/voris/io/task.hpp\<close>, which is written out beside the template
  \<^verbatim>\<open>task<T>::promise_type\<close> because its coroutines return nothing. The theory relates the written-out
  promise to the template at the type with one value, operation by operation, so that what is
  proved of the template in \<open>Vio_Task\<close> holds of \<^verbatim>\<open>task<void>\<close>.
\<close>

section \<open>The promise\<close>

record void_promise =
  vp_creation_scheduler :: "scheduler_id option"
  vp_state :: task_continuation_state
  vp_result :: "void_result option"

definition vp_create :: "scheduler_id option \<Rightarrow> void_promise" where
  "vp_create current =
     \<lparr>vp_creation_scheduler = current,
      vp_state = \<lparr>tc_continuation = None, tc_scheduler = None, tc_completed = False,
        tc_detached = False, tc_consumed = False\<rparr>,
      vp_result = None\<rparr>"

definition vp_set_invalid_state :: "string \<Rightarrow> void_promise \<Rightarrow> void_promise" where
  "vp_set_invalid_state d p =
     (if vp_result p = None
      then p\<lparr>vp_result := Some (Inl (make_error_diagnostic invalid_state d)),
             vp_state := tc_mark_completed (vp_state p)\<rparr>
      else p)"

definition vp_initial_suspend :: "void_promise \<Rightarrow> bool \<times> void_promise" where
  "vp_initial_suspend p =
     (if vp_creation_scheduler p \<noteq> None then (True, p)
      else (False, vp_set_invalid_state ''task created without a current scheduler'' p))"

definition vp_final_suspend :: "void_promise \<Rightarrow> scheduler_id option \<times> void_promise" where
  "vp_final_suspend p =
     (case tc_publish_completed (vp_state p) of (r, st) \<Rightarrow> (r, p\<lparr>vp_state := st\<rparr>))"

definition vp_return_void :: "void_promise \<Rightarrow> void_promise" where
  "vp_return_void p = p\<lparr>vp_result := Some (Inr ())\<rparr>"

definition vp_unhandled_exception :: "void_promise \<Rightarrow> void_promise" where
  "vp_unhandled_exception p =
     p\<lparr>vp_result := Some (Inl (make_error_diagnostic invalid_state ''unhandled coroutine exception''))\<rparr>"

definition vp_has_result :: "void_promise \<Rightarrow> bool" where
  "vp_has_result p = tc_completed (vp_state p)"

definition vp_install_continuation ::
  "coroutine_handle \<Rightarrow> scheduler_id \<Rightarrow> void_promise \<Rightarrow> bool \<times> void_promise" where
  "vp_install_continuation next scheduler p =
     (case tc_install next scheduler (vp_state p) of
        (installed, st) \<Rightarrow>
          (let p1 = p\<lparr>vp_state := st\<rparr>
           in if installed = Already_consumed
              then (False, vp_set_invalid_state ''task awaited more than once'' p1)
              else (installed = Suspend, p1)))"

definition vp_take_result :: "void_promise \<Rightarrow> void_result" where
  "vp_take_result p =
     (if \<not> vp_has_result p \<or> vp_result p = None
      then Inl (make_error_diagnostic invalid_state ''task has not completed'')
      else the (vp_result p))"

section \<open>The template at one value\<close>

text \<open>The cell of the template that a promise of \<^verbatim>\<open>task<void>\<close> stands for, with the task's members.\<close>

definition void_cell :: "bool \<Rightarrow> bool \<Rightarrow> void_promise \<Rightarrow> unit task_cell" where
  "void_cell handle awaiter p =
     task_continuation_state.extend (vp_state p)
       (task_cell.fields (vp_creation_scheduler p) (vp_result p) handle awaiter)"

lemmas vp_defs = vp_set_invalid_state_def vp_initial_suspend_def vp_final_suspend_def
  vp_return_void_def vp_unhandled_exception_def vp_has_result_def vp_install_continuation_def
  vp_take_result_def promise_set_invalid_state_def task_initial_suspend_def task_final_suspend_def
  task_complete_def promise_has_result_def promise_install_continuation_def
  promise_take_result_def invalid_result_def tc_mark_completed_def tc_publish_completed_def
  tc_install_def void_cell_def task_continuation_state.defs task_cell.defs Let_def

section \<open>Theorems\<close>

text \<open>
  The promise of \<^verbatim>\<open>task<void>\<close> does what the template does at the type with one value: creation,
  the start of the body, completion by return or by exception, installing an awaiting
  coroutine, reporting misuse and taking the result all commute with the correspondence of
  states, with the same answers; and since the body returns no result of its own, a completed
  body gives success unless it threw.
\<close>

theorem task_void_is_task_unit:
  shows "void_cell True False (vp_create current) = task_create current \<and>
    map_prod id (void_cell h a) (vp_initial_suspend p) = task_initial_suspend (void_cell h a p) \<and>
    map_prod id (void_cell h a) (vp_final_suspend (vp_return_void p)) =
      task_complete (Return_value ()) (void_cell h a p) \<and>
    map_prod id (void_cell h a) (vp_final_suspend (vp_unhandled_exception p)) =
      task_complete Threw (void_cell h a p) \<and>
    map_prod id (void_cell h a) (vp_install_continuation k s p) =
      promise_install_continuation k s (void_cell h a p) \<and>
    void_cell h a (vp_set_invalid_state d p) = promise_set_invalid_state d (void_cell h a p) \<and>
    vp_has_result p = promise_has_result (void_cell h a p) \<and>
    vp_take_result p = promise_take_result (void_cell h a p) \<and>
    vp_take_result (snd (vp_final_suspend (vp_return_void p))) = Inr ()"
  by (intro conjI) (auto simp: vp_defs vp_create_def task_create_def)

end
