(* ===== verification/When_Any.thy ===== *)
theory When_Any
  imports Vio_Task Cancel_State
begin

text \<open>
  \<^verbatim>\<open>include/voris/io/when_any.hpp\<close>: the state shared by the observers of the children and the
  awaiting parent, the awaiter, and the composition. The result types of the children are one
  type here, so the variant is the winner's index with its value. Cancelling the losers runs
  their callbacks (the parameter \<open>exec\<close>) outside the mutex; a callback that makes a child finish
  publishes into a state that has its winner, which does nothing.
\<close>

section \<open>The shared state\<close>

record ('a, 'c) when_any_state =
  wa_winner :: "'a io_result option"
  wa_winner_index :: nat
  wa_parent :: "coroutine_handle option"
  wa_parent_scheduler :: "scheduler_id option"
  wa_losers_source :: "'c cancellation_state"
  wa_detached :: bool

type_synonym 'a when_any_result = "nat \<times> 'a io_result"

definition invalid_when_any_result :: "string \<Rightarrow> 'a when_any_result" where
  "invalid_when_any_result d = (0, invalid_result d)"

definition wa_create :: "'c cancellation_state \<Rightarrow> ('a, 'c) when_any_state" where
  "wa_create losers = \<lparr>wa_winner = None, wa_winner_index = 0, wa_parent = None,
     wa_parent_scheduler = None, wa_losers_source = losers, wa_detached = False\<rparr>"

definition cancel_losers ::
  "bool \<Rightarrow> ('c, unit) callback_exec \<Rightarrow> ('a, 'c) when_any_state \<Rightarrow> ('a, 'c) when_any_state" where
  "cancel_losers bound exec s =
     s\<lparr>wa_losers_source := snd (request_cancellation bound exec manual (wa_losers_source s))\<rparr>"

definition wa_publish ::
  "bool \<Rightarrow> ('c, unit) callback_exec \<Rightarrow> 'a when_any_result \<Rightarrow> ('a, 'c) when_any_state \<Rightarrow>
     bool \<times> ('a, 'c) when_any_state" where
  "wa_publish bound exec ir s =
     (if wa_winner s \<noteq> None then (False, s)
      else
        (let s1 = s\<lparr>wa_winner_index := fst ir, wa_winner := Some (snd ir)\<rparr>;
             scheduler = (if \<not> wa_detached s1 \<and> wa_parent s1 \<noteq> None
                          then wa_parent_scheduler s1 else None)
         in (scheduler \<noteq> None, cancel_losers bound exec s1)))"

definition wa_has_winner :: "('a, 'c) when_any_state \<Rightarrow> bool" where
  "wa_has_winner s \<longleftrightarrow> wa_winner s \<noteq> None"

definition wa_install_parent ::
  "coroutine_handle \<Rightarrow> scheduler_id \<Rightarrow> ('a, 'c) when_any_state \<Rightarrow> bool \<times> ('a, 'c) when_any_state" where
  "wa_install_parent continuation scheduler s =
     (if wa_detached s \<or> wa_winner s \<noteq> None then (False, s)
      else (True, s\<lparr>wa_parent := Some continuation, wa_parent_scheduler := Some scheduler\<rparr>))"

definition wa_publish_invalid ::
  "bool \<Rightarrow> ('c, unit) callback_exec \<Rightarrow> string \<Rightarrow> ('a, 'c) when_any_state \<Rightarrow>
     ('a, 'c) when_any_state" where
  "wa_publish_invalid bound exec d s =
     (if wa_winner s \<noteq> None then s
      else cancel_losers bound exec (s\<lparr>wa_winner_index := 0, wa_winner := Some (invalid_result d)\<rparr>))"

definition wa_detach_parent :: "('a, 'c) when_any_state \<Rightarrow> ('a, 'c) when_any_state" where
  "wa_detach_parent s = s\<lparr>wa_detached := True, wa_parent := None, wa_parent_scheduler := None\<rparr>"

definition wa_take_winner :: "('a, 'c) when_any_state \<Rightarrow> 'a when_any_result" where
  "wa_take_winner s =
     (case wa_winner s of
        None \<Rightarrow> invalid_when_any_result ''when_any resumed without a winner''
      | Some r \<Rightarrow> (wa_winner_index s, r))"

definition wa_claim_parent ::
  "('a, 'c) when_any_state \<Rightarrow> (coroutine_handle \<times> scheduler_id) option \<times> ('a, 'c) when_any_state" where
  "wa_claim_parent s =
     (if wa_detached s \<or> wa_parent s = None \<or> wa_parent_scheduler s = None then (None, s)
      else (Some (the (wa_parent s), the (wa_parent_scheduler s)),
            s\<lparr>wa_parent := None, wa_parent_scheduler := None\<rparr>))"

definition wa_resume_parent ::
  "(coroutine_handle \<Rightarrow> 'e thread_state_scheme \<Rightarrow> 'e thread_state_scheme) \<Rightarrow>
     ('a, 'c) when_any_state \<Rightarrow> 'e thread_state_scheme \<Rightarrow>
     ('a, 'c) when_any_state \<times> 'e thread_state_scheme" where
  "wa_resume_parent resume s t =
     (case wa_claim_parent s of
        (None, s') \<Rightarrow> (s', t)
      | (Some (continuation, scheduler), s') \<Rightarrow>
          (s', in_scheduler_scope scheduler (resume continuation) t))"

section \<open>The awaiter of the winner\<close>

definition wa_await_ready :: "('a, 'c) when_any_state option \<Rightarrow> bool" where
  "wa_await_ready st = (case st of None \<Rightarrow> True | Some s \<Rightarrow> wa_has_winner s)"

definition wa_await_suspend ::
  "bool \<Rightarrow> ('c, unit) callback_exec \<Rightarrow> scheduler_id option \<Rightarrow> coroutine_handle \<Rightarrow>
     ('a, 'c) when_any_state option \<Rightarrow> bool \<times> ('a, 'c) when_any_state option" where
  "wa_await_suspend bound exec current continuation st =
     (case st of
        None \<Rightarrow> (False, None)
      | Some s \<Rightarrow>
          (case current of
             None \<Rightarrow>
               (False, Some (wa_publish_invalid bound exec
                               ''when_any await without a current scheduler'' s))
           | Some scheduler \<Rightarrow>
               (case wa_install_parent continuation scheduler s of (b, s') \<Rightarrow> (b, Some s'))))"

definition wa_await_resume :: "('a, 'c) when_any_state option \<Rightarrow> 'a when_any_result" where
  "wa_await_resume st =
     (case st of
        None \<Rightarrow> invalid_when_any_result ''empty when_any awaiter''
      | Some s \<Rightarrow> wa_take_winner s)"

section \<open>The rendezvous of the winner with the parent\<close>

text \<open>
  The parent asks for a winner first (\<open>wa_has_winner\<close>, through \<open>wa_await_ready\<close>) and installs itself
  in a second critical section, where the winner may have arrived.
\<close>

definition wa_ready :: "('a, 'c) when_any_state \<Rightarrow> bool" where
  "wa_ready s = wa_await_ready (Some s)"

definition wa_await_install ::
  "bool \<Rightarrow> ('c, unit) callback_exec \<Rightarrow> awaiting \<Rightarrow> ('a, 'c) when_any_state \<Rightarrow>
     bool \<times> bool \<times> ('a, 'c) when_any_state" where
  "wa_await_install bound exec k s =
     (case wa_await_suspend bound exec (snd k) (fst k) (Some s) of
        (suspended, s') \<Rightarrow> (suspended, False, the s'))"

definition wa_claim :: "('a, 'c) when_any_state \<Rightarrow> awaiting option \<times> ('a, 'c) when_any_state" where
  "wa_claim s =
     (case wa_claim_parent s of
        (None, s') \<Rightarrow> (None, s')
      | (Some (h, sch), s') \<Rightarrow> (Some (h, Some sch), s'))"

definition wa_waiting :: "('a, 'c) when_any_state \<Rightarrow> awaiting option" where
  "wa_waiting s = map_option (\<lambda>h. (h, wa_parent_scheduler s)) (wa_parent s)"

definition wa_ok :: "('a, 'c) when_any_state \<Rightarrow> bool" where
  "wa_ok s \<longleftrightarrow> (wa_parent s = None \<longleftrightarrow> wa_parent_scheduler s = None) \<and>
     (wa_detached s \<longrightarrow> wa_parent s = None)"

lemmas wa_op_defs = wa_publish_def cancel_losers_def wa_await_install_def wa_ready_def wa_await_ready_def
  wa_has_winner_def wa_await_suspend_def wa_install_parent_def wa_publish_invalid_def
  wa_detach_parent_def wa_claim_def wa_claim_parent_def Let_def

interpretation wa: rendezvous "wa_publish bound exec" wa_ready "wa_await_install bound exec"
  wa_detach_parent wa_claim
  wa_waiting wa_has_winner wa_detached wa_ok
  for bound and exec :: "('c, unit) callback_exec"
proof
  fix r b and s s' :: "('a, 'c) when_any_state"
  assume "wa_ok s" "wa_publish bound exec r s = (b, s')"
  then show "wa_ok s' \<and> wa_waiting s' = wa_waiting s \<and> wa_detached s' = wa_detached s \<and>
      (wa_has_winner s \<longrightarrow> wa_has_winner s') \<and> (\<not> wa_detached s \<longrightarrow> wa_has_winner s') \<and>
      (b \<longrightarrow> wa_waiting s \<noteq> None \<and> wa_has_winner s') \<and>
      (\<not> wa_has_winner s \<and> wa_waiting s \<noteq> None \<longrightarrow> b)"
    by (auto simp: wa_ok_def wa_op_defs wa_waiting_def split: if_splits)
next
  fix s :: "('a, 'c) when_any_state"
  assume "wa_ok s" "wa_ready s"
  then show "wa_has_winner s \<or> wa_detached s" by (simp add: wa_op_defs)
next
  fix k b d and s s' :: "('a, 'c) when_any_state"
  assume "wa_ok s" "wa_waiting s = None" "wa_await_install bound exec k s = (b, d, s')"
  then show "wa_ok s' \<and> wa_detached s' = wa_detached s \<and>
      (wa_has_winner s \<longrightarrow> wa_has_winner s') \<and>
      (if b \<and> \<not> wa_detached s
       then wa_waiting s' = Some k \<and> wa_has_winner s' = wa_has_winner s \<and> d = wa_has_winner s
       else wa_waiting s' = None \<and> \<not> d) \<and>
      (\<not> b \<longrightarrow> wa_has_winner s' \<or> wa_detached s')"
    by (cases k) (auto simp: wa_ok_def wa_op_defs wa_waiting_def split: if_splits option.splits)
next
  fix s :: "('a, 'c) when_any_state"
  assume "wa_ok s"
  then show "wa_ok (wa_detach_parent s) \<and> wa_waiting (wa_detach_parent s) = None \<and>
      wa_detached (wa_detach_parent s) \<and> (wa_has_winner s \<longrightarrow> wa_has_winner (wa_detach_parent s))"
    by (auto simp: wa_ok_def wa_op_defs wa_waiting_def)
next
  fix c and s s' :: "('a, 'c) when_any_state"
  assume "wa_ok s" "wa_claim s = (c, s')"
  then show "c = wa_waiting s \<and> wa_ok s' \<and> wa_waiting s' = None \<and>
      wa_has_winner s' = wa_has_winner s \<and> wa_detached s' = wa_detached s"
    by (auto simp: wa_ok_def wa_op_defs wa_waiting_def split: if_splits)
next
  fix s :: "('a, 'c) when_any_state"
  assume "wa_ok s" "wa_detached s"
  then show "wa_waiting s = None" by (simp add: wa_ok_def wa_waiting_def)
qed

abbreviation wa_run ::
  "bool \<Rightarrow> ('c, unit) callback_exec \<Rightarrow> ('a when_any_result, awaiting) rendezvous_op list \<Rightarrow>
     (('a, 'c) when_any_state, awaiting) rendezvous_run \<Rightarrow>
     (('a, 'c) when_any_state, awaiting) rendezvous_run" where
  "wa_run bound exec \<equiv> 
     rendezvous_steps (wa_publish bound exec) wa_ready (wa_await_install bound exec) wa_detach_parent wa_claim"

definition winner_of :: "('a, 'c) when_any_state \<Rightarrow> 'a when_any_result option" where
  "winner_of s = map_option (Pair (wa_winner_index s)) (wa_winner s)"

lemma winner_of_resume:
  "winner_of s = Some ir \<Longrightarrow> wa_await_resume (Some s) = ir"
  "winner_of s = None \<longleftrightarrow> \<not> wa_has_winner s"
  by (auto simp: winner_of_def wa_await_resume_def wa_take_winner_def wa_has_winner_def)

text \<open>An installing parent awaits on a scheduler.\<close>

definition installs_scheduled :: "('s, awaiting) rendezvous_run \<Rightarrow> bool" where
  "installs_scheduled g \<longleftrightarrow> (rr_installing g \<longrightarrow> snd (the (rr_awaited g)) \<noteq> None)"

lemma installs_scheduled_step:
  assumes "\<And>k. op = Await k \<Longrightarrow> snd k \<noteq> None" and "installs_scheduled g"
  shows "installs_scheduled (rendezvous_step publish ready install detach claim op g)"
  using assms by (cases op) (auto simp: installs_scheduled_def split: prod.splits option.splits)

lemma wa_step_winner:
  assumes "installs_scheduled g"
    and "g' = rendezvous_step (wa_publish bound exec) wa_ready (wa_await_install bound exec)
    wa_detach_parent wa_claim op g"
  shows "(winner_of (rr_state g) \<noteq> None \<longrightarrow>
        winner_of (rr_state g') = winner_of (rr_state g) \<and>
        wa_losers_source (rr_state g') = wa_losers_source (rr_state g)) \<and>
    (winner_of (rr_state g) = None \<longrightarrow>
        winner_of (rr_state g') = first_published [op] \<and>
        wa_losers_source (rr_state g') =
          (if first_published [op] = None then wa_losers_source (rr_state g)
           else snd (request_cancellation bound exec manual (wa_losers_source (rr_state g)))))"
  using assms by (cases op) (auto simp: winner_of_def wa_op_defs installs_scheduled_def
      split: option.splits if_splits)

lemma wa_run_winner:
  assumes "\<forall>k. Await k \<in> set ops \<longrightarrow> snd k \<noteq> None" and "installs_scheduled g"
    and "g' = wa_run bound exec ops g"
  shows "(winner_of (rr_state g) \<noteq> None \<longrightarrow>
        winner_of (rr_state g') = winner_of (rr_state g) \<and>
        wa_losers_source (rr_state g') = wa_losers_source (rr_state g)) \<and>
    (winner_of (rr_state g) = None \<longrightarrow>
        winner_of (rr_state g') = first_published ops \<and>
        wa_losers_source (rr_state g') =
          (if first_published ops = None then wa_losers_source (rr_state g)
           else snd (request_cancellation bound exec manual (wa_losers_source (rr_state g)))))"
  using assms
proof (induction ops arbitrary: g)
  case Nil
  then show ?case by (simp add: rendezvous_steps_def)
next
  case (Cons op ops)
  let ?g1 = "rendezvous_step (wa_publish bound exec) wa_ready (wa_await_install bound exec)
    wa_detach_parent wa_claim op g"
  have run: "g' = wa_run bound exec ops ?g1" using Cons.prems(3) by (simp add: rendezvous_steps_def)
  have head: "first_published (op # ops) =
      (case first_published [op] of None \<Rightarrow> first_published ops | Some r \<Rightarrow> Some r)"
    by (cases op) simp_all
  have scheduled: "snd k \<noteq> None" if "op = Await k" for k
    using Cons.prems(1) that by (metis list.set_intros(1))
  have "\<forall>k. Await k \<in> set ops \<longrightarrow> snd k \<noteq> None" using Cons.prems(1) by simp
  note IH = Cons.IH [OF this installs_scheduled_step [OF scheduled Cons.prems(2)] run]
  note step = wa_step_winner [where op = op and bound = bound and exec = exec, OF Cons.prems(2) refl]
  show ?case
    using step IH unfolding head by (cases "winner_of (rr_state g)"; cases "first_published [op]") auto
qed

section \<open>The composition\<close>

text \<open>
  \<^verbatim>\<open>when_any_impl\<close> starts one observer per child, from left to right; an observer whose child is
  ready runs to its end at once, the others suspend on their child. When the winner is known the
  parent awaits the observers from left to right, as \<^verbatim>\<open>when_all\<close> does, and returns the winner.
\<close>

record ('a, 'c) when_any_frame =
  wf_state :: "('a, 'c) when_any_state"
  wf_children :: "'a task_cell list"
  wf_observers :: "unit task_cell list"

definition observer_finish ::
  "bool \<Rightarrow> ('c, unit) callback_exec \<Rightarrow> nat \<Rightarrow> 'a task_cell \<Rightarrow> unit task_cell \<Rightarrow>
     ('a, 'c) when_any_state \<Rightarrow> unit task_cell \<times> ('a, 'c) when_any_state" where
  "observer_finish bound exec i child observer s =
     (snd (task_publish (Return_value ()) observer),
      snd (wa_publish bound exec (i, fst (task_await_resume (task_co_await child))) s))"

fun make_when_any_observers ::
  "bool \<Rightarrow> ('c, unit) callback_exec \<Rightarrow> scheduler_id \<Rightarrow> nat \<Rightarrow> 'a task_cell list \<Rightarrow>
     ('a, 'c) when_any_state \<Rightarrow> unit task_cell list \<times> ('a, 'c) when_any_state" where
  "make_when_any_observers bound exec current i [] s = ([], s)"
| "make_when_any_observers bound exec current i (child # children) s =
     (let observer = task_create (Some current);
          (observer', s1) = (if task_await_ready child
                             then observer_finish bound exec i child observer s else (observer, s));
          (observers, s2) = make_when_any_observers bound exec current (i + 1) children s1
      in (observer' # observers, s2))"

definition when_any_start ::
  "bool \<Rightarrow> ('c, unit) callback_exec \<Rightarrow> scheduler_id \<Rightarrow> 'c cancellation_state \<Rightarrow>
     'a task_cell list \<Rightarrow> ('a, 'c) when_any_frame" where
  "when_any_start bound exec current losers children =
     (let (observers, s) = make_when_any_observers bound exec current 0 children (wa_create losers)
      in \<lparr>wf_state = s, wf_children = children, wf_observers = observers\<rparr>)"

text \<open>Child \<open>i\<close> completes: its observer is resumed with the result.\<close>

definition when_any_child_done ::
  "bool \<Rightarrow> ('c, unit) callback_exec \<Rightarrow> nat \<Rightarrow> 'a outcome \<Rightarrow> ('a, 'c) when_any_frame \<Rightarrow>
     ('a, 'c) when_any_frame" where
  "when_any_child_done bound exec i r f =
     (let child = snd (task_publish r (wf_children f ! i));
          (observer, s) = observer_finish bound exec i child (wf_observers f ! i) (wf_state f)
      in f\<lparr>wf_state := s, wf_children := (wf_children f)[i := child],
           wf_observers := (wf_observers f)[i := observer]\<rparr>)"

definition when_any_impl_result :: "('a, 'c) when_any_frame \<Rightarrow> 'a when_any_result option" where
  "when_any_impl_result f =
     (if wa_has_winner (wf_state f) \<and> snd (when_all_advance [] (wf_observers f)) = []
      then Some (wa_await_resume (Some (wf_state f))) else None)"

lemma when_all_advance_Nil:
  "snd (when_all_advance results cs) = [] \<longleftrightarrow> (\<forall>c \<in> set cs. task_await_ready c)"
  by (induction results cs rule: when_all_advance.induct) simp_all

definition frame_matches ::
  "(nat \<times> 'a outcome) list \<Rightarrow> nat \<Rightarrow> ('a, 'c) when_any_frame \<Rightarrow> bool" where
  "frame_matches events n f \<longleftrightarrow> length (wf_children f) = n \<and> length (wf_observers f) = n \<and>
     (\<forall>i < n. child_matches (map_of events i) (wf_children f ! i) \<and>
        child_matches (map_option (\<lambda>_. Return_value ()) (map_of events i)) (wf_observers f ! i)) \<and>
     winner_of (wf_state f) =
       (case rev events of [] \<Rightarrow> None | (i, r) # _ \<Rightarrow> Some (i, outcome_result r))"

lemma observers_pending:
  assumes "\<forall>c \<in> set children. child_matches None c"
  shows "make_when_any_observers bound exec current i children s =
    (replicate (length children) (task_create (Some current)), s)"
  using assms
  by (induction children arbitrary: i)
    (auto simp: child_matches_def task_await_ready_def promise_has_result_def)

lemma frame_matches_start:
  assumes "\<forall>c \<in> set children. child_matches None c"
  shows "frame_matches [] (length children) (when_any_start bound exec current losers children)"
proof -
  have "when_any_start bound exec current losers children =
      \<lparr>wf_state = wa_create losers, wf_children = children,
       wf_observers = replicate (length children) (task_create (Some current))\<rparr>"
    by (simp add: when_any_start_def observers_pending [OF assms])
  then show ?thesis
    using assms by (simp add: frame_matches_def winner_of_def wa_create_def child_matches_def
        task_create_def)
qed

lemma frame_matches_done:
  assumes f: "frame_matches events n f" and i: "i < n" and fresh: "i \<notin> fst ` set events"
  shows "frame_matches ((i, r) # events) n (when_any_child_done bound exec i r f)"
proof -
  have none: "map_of events i = None" using fresh by (simp add: map_of_eq_None_iff)
  then have m: "child_matches None (wf_children f ! i)" "child_matches None (wf_observers f ! i)"
    using f i by (auto simp: frame_matches_def)
  then have m': "child_matches (Some r) (snd (task_publish r (wf_children f ! i)))"
    "child_matches (Some (Return_value ()))
       (snd (task_publish (Return_value ()) (wf_observers f ! i)))"
    by (auto simp: child_matches_def task_op_defs)
  then have res: "fst (task_await_resume (task_co_await (snd (task_publish r (wf_children f ! i))))) =
      outcome_result r"
    by (simp add: child_matches_def task_await_resume_def task_co_await_def
        promise_take_result_def promise_has_result_def)
  have win: "winner_of (snd (wa_publish bound exec (i, outcome_result r) (wf_state f))) =
      (case rev ((i, r) # events) of [] \<Rightarrow> None | (i, r) # _ \<Rightarrow> Some (i, outcome_result r))"
    using f by (cases "rev events")
      (auto simp: frame_matches_def winner_of_def wa_op_defs split: option.splits)
  show ?thesis
    using f m' win i unfolding frame_matches_def when_any_child_done_def observer_finish_def
    by (auto simp: Let_def res nth_list_update)
qed

lemma frame_matches_run:
  assumes "\<forall>(i, r) \<in> set events. i < n" and "distinct (map fst (events @ before))"
    and "frame_matches before n f"
  shows "frame_matches (rev events @ before) n
    (fold (\<lambda>(i, r). when_any_child_done bound exec i r) events f)"
  using assms
proof (induction events arbitrary: f before)
  case (Cons e es)
  obtain i r where e: "e = (i, r)" by fastforce
  have "frame_matches ((i, r) # before) n (when_any_child_done bound exec i r f)"
    using Cons.prems by (intro frame_matches_done) (auto simp: e)
  then show ?case using Cons.IH [of "(i, r) # before"] Cons.prems(1,2) by (auto simp: e)
qed simp

section \<open>Theorems\<close>



text \<open>
  The whole \<^verbatim>\<open>when_any\<close> coroutine: for children that are pending at the start and complete in
  any order, it returns exactly when all of them have completed, and returns the index and the
  outcome of the one that completed first.
\<close>

theorem when_any_returns_first:
  assumes "\<forall>c \<in> set children. tk_handle c \<and> tk_result c = None \<and> \<not> tc_completed c"
    and "\<forall>(i, r) \<in> set events. i < length children" and "distinct (map fst events)"
    and "f = fold (\<lambda>(i, r). when_any_child_done bound exec i r) events
               (when_any_start bound exec current losers children)"
  shows "when_any_impl_result f =
    (if events \<noteq> [] \<and> {..<length children} \<subseteq> fst ` set events
     then Some (fst (hd events), outcome_result (snd (hd events))) else None)"
proof -
  have "\<forall>c \<in> set children. child_matches None c" using assms(1) by (simp add: child_matches_def)
  from frame_matches_run [OF assms(2) _ frame_matches_start [OF this]]
  have f: "frame_matches (rev events) (length children) f" using assms(3,4) by simp
  have "\<forall>i < length children. task_await_ready (wf_observers f ! i) \<longleftrightarrow> i \<in> fst ` set events"
    using f by (auto simp: frame_matches_def child_matches_def task_await_ready_def
        promise_has_result_def map_of_eq_None_iff simp flip: not_None_eq)
  then have obs: "(\<forall>c \<in> set (wf_observers f). task_await_ready c) \<longleftrightarrow>
      {..<length children} \<subseteq> fst ` set events"
    using f unfolding frame_matches_def all_set_conv_all_nth by auto
  have win: "winner_of (wf_state f) =
      (case events of [] \<Rightarrow> None | (i, r) # _ \<Rightarrow> Some (i, outcome_result r))"
    using f by (simp add: frame_matches_def)
  show ?thesis
    using obs win by (cases events) (auto simp: when_any_impl_result_def when_all_advance_Nil
        winner_of_resume(1) simp flip: winner_of_resume(2))
qed

theorem when_any_returns_first_witness:
  "when_any_impl_result (fold (\<lambda>(i, r). when_any_child_done True (\<lambda>c r s. s) i r)
     [(1, Return_value (8 :: nat)), (0, Threw)]
     (when_any_start True (\<lambda>c r s. s) 3 (cs_init :: nat cancellation_state)
        [task_create (Some 3), task_create (Some 3)])) = Some (1, Inr 8)"
  by (subst when_any_returns_first [OF _ _ _ refl]) (auto simp: task_create_def less_2_cases_iff)

end
