(* ===== verification/Async_Scope.thy ===== *)
theory Async_Scope
  imports Vio_Task Cancel_State
begin

text \<open>
  \<^verbatim>\<open>include/voris/io/async_scope.hpp\<close> and \<^verbatim>\<open>src/async_scope.cpp\<close>: a scope owns the tasks spawned
  into it, collects their errors and joins them. The children's result types are one type here;
  the optional error sink is the list of its errors. Children complete between the calls.
\<close>

section \<open>Operations\<close>

type_synonym background_error_sink = "vio_error list"

record ('a, 'c) async_scope =
  sc_stop_source :: "'c cancellation_state"
  sc_sink :: "background_error_sink option"
  sc_errors :: "vio_error list"
  sc_children :: "'a task_cell list"

definition sink_record :: "vio_error \<Rightarrow> background_error_sink \<Rightarrow> background_error_sink" where
  "sink_record e sink = sink @ [e]"

definition sc_create :: "background_error_sink option \<Rightarrow> ('a, 'c) async_scope" where
  "sc_create sink = \<lparr>sc_stop_source = cs_init, sc_sink = sink, sc_errors = [], sc_children = []\<rparr>"

definition sc_stop_requested :: "('a, 'c) async_scope \<Rightarrow> bool" where
  "sc_stop_requested s = token_cancellation_requested True (sc_stop_source s)"

definition sc_pending_count :: "('a, 'c) async_scope \<Rightarrow> nat" where
  "sc_pending_count s = length (sc_children s)"

definition sc_request_stop ::
  "('c, unit) callback_exec \<Rightarrow> cancellation_reason \<Rightarrow> ('a, 'c) async_scope \<Rightarrow>
     bool \<times> ('a, 'c) async_scope" where
  "sc_request_stop exec reason s =
     (case request_cancellation True exec reason (sc_stop_source s) of
        (b, c) \<Rightarrow> (b, s\<lparr>sc_stop_source := c\<rparr>))"

definition child_finish :: "'a task_cell \<Rightarrow> void_result" where
  "child_finish c = (case fst (task_take_result c) of Inl e \<Rightarrow> Inl e | Inr _ \<Rightarrow> Inr ())"

definition record_error :: "vio_error \<Rightarrow> ('a, 'c) async_scope \<Rightarrow> ('a, 'c) async_scope" where
  "record_error e s =
     s\<lparr>sc_errors := sc_errors s @ [e], sc_sink := map_option (sink_record e) (sc_sink s)\<rparr>"

definition observe_child_result ::
  "void_result \<Rightarrow> ('a, 'c) async_scope \<Rightarrow> void_result \<times> ('a, 'c) async_scope" where
  "observe_child_result result s =
     (case result of Inr _ \<Rightarrow> (Inr (), s) | Inl e \<Rightarrow> (Inl e, record_error e s))"

definition sc_spawn ::
  "'a task_cell \<Rightarrow> ('a, 'c) async_scope \<Rightarrow> void_result \<times> ('a, 'c) async_scope" where
  "sc_spawn child s =
     (if sc_stop_requested s
      then (Inl (make_error_diagnostic cancelled ''scope is stopping''), s)
      else if task_is_ready child then observe_child_result (child_finish child) s
      else (Inr (), s\<lparr>sc_children := sc_children s @ [child]\<rparr>))"

text \<open>The loop over the children: what it keeps, and the scope with the results observed.\<close>

fun sc_join_loop ::
  "'a task_cell list \<Rightarrow> ('a, 'c) async_scope \<Rightarrow> 'a task_cell list \<times> ('a, 'c) async_scope" where
  "sc_join_loop [] s = ([], s)"
| "sc_join_loop (child # rest) s =
     (if \<not> task_is_ready child
      then (case sc_join_loop rest s of (kept, s') \<Rightarrow> (child # kept, s'))
      else sc_join_loop rest (snd (observe_child_result (child_finish child) s)))"

definition sc_join :: "('a, 'c) async_scope \<Rightarrow> void_result \<times> ('a, 'c) async_scope" where
  "sc_join s =
     (case sc_join_loop (sc_children s) s of
        (kept, s1) \<Rightarrow>
          (let s2 = s1\<lparr>sc_children := kept\<rparr>
           in (if sc_children s2 \<noteq> []
               then Inl (make_error_diagnostic invalid_state ''scope has pending tasks'')
               else case sc_errors s2 of e # _ \<Rightarrow> Inl e | [] \<Rightarrow> Inr (), s2)))"

section \<open>What is observed\<close>

text \<open>
  The specification speaks of the results the children's coroutines left in their frames: the
  errors among them, in order. A child without a frame counts as the error of an empty task.
\<close>

definition result_errors :: "'a task_cell \<Rightarrow> vio_error list" where
  "result_errors c =
     (if \<not> tk_handle c then [make_error_diagnostic invalid_state ''empty task'']
      else case tk_result c of
        None \<Rightarrow> [make_error_diagnostic invalid_state ''task has not completed'']
      | Some (Inl e) \<Rightarrow> [e]
      | Some (Inr _) \<Rightarrow> [])"

definition child_errors :: "'a task_cell list \<Rightarrow> vio_error list" where
  "child_errors cs = concat (map result_errors cs)"

text \<open>What \<^verbatim>\<open>finish\<close> reports of a finished child is exactly that.\<close>

lemma child_finish_result:
  assumes "task_is_ready c"
  shows "child_finish c = (case result_errors c of [] \<Rightarrow> Inr () | e # _ \<Rightarrow> Inl e)"
    and "result_errors c = [] \<or> (\<exists>e. result_errors c = [e])"
  using assms
  by (auto simp: child_finish_def task_take_result_def promise_take_result_def invalid_result_def
      task_is_ready_def promise_has_result_def result_errors_def split: option.splits sum.splits)

definition with_errors :: "vio_error list \<Rightarrow> ('a, 'c) async_scope \<Rightarrow> ('a, 'c) async_scope" where
  "with_errors es s = s\<lparr>sc_errors := sc_errors s @ es, sc_sink := map_option (\<lambda>l. l @ es) (sc_sink s)\<rparr>"

lemma observe_child_result_errors:
  assumes "task_is_ready c"
  shows "snd (observe_child_result (child_finish c) s) = with_errors (child_errors [c]) s"
  using child_finish_result [OF assms]
  by (cases "sc_sink s")
    (auto simp: observe_child_result_def record_error_def sink_record_def with_errors_def
      child_errors_def)

lemma with_errors_append: "with_errors es' (with_errors es s) = with_errors (es @ es') s"
  by (cases "sc_sink s") (simp_all add: with_errors_def)

lemma child_errors_Cons: "child_errors (c # cs) = child_errors [c] @ child_errors cs"
  by (simp add: child_errors_def)

lemma sc_join_loop_eq:
  "sc_join_loop cs s =
     (filter (\<lambda>c. \<not> task_is_ready c) cs, with_errors (child_errors (filter task_is_ready cs)) s)"
proof (induction cs arbitrary: s)
  case Nil
  then show ?case by (cases "sc_sink s") (simp_all add: with_errors_def child_errors_def)
next
  case (Cons c cs)
  show ?case
  proof (cases "task_is_ready c")
    case True
    then show ?thesis
      by (simp add: Cons.IH observe_child_result_errors with_errors_append
          child_errors_Cons [of c "filter task_is_ready cs"])
  qed (simp add: Cons.IH)
qed

lemma with_errors_frame [simp]:
  "sc_errors (with_errors es s) = sc_errors s @ es"
  "sc_sink (with_errors es s) = map_option (\<lambda>l. l @ es) (sc_sink s)"
  "sc_stop_source (with_errors es s) = sc_stop_source s"
  by (simp_all add: with_errors_def)

section \<open>Theorems\<close>

text \<open>
  C34. Joining a scope: exactly the finished children are consumed, each once and in the order of
  spawning, the pending ones stay; every error among the results the children's coroutines left
  goes to the scope's list and to the sink, in that order, and none is dropped; the result is
  success exactly when nothing is pending and no error was ever recorded, and the first recorded
  error when nothing is pending; a further join without progress observes nothing.
\<close>

theorem scope_join_observes_all:
  assumes "sc_join s = (result, s')"
  shows "sc_children s' = filter (\<lambda>c. \<not> task_is_ready c) (sc_children s) \<and>
    sc_errors s' = sc_errors s @ child_errors (filter task_is_ready (sc_children s)) \<and>
    sc_sink s' = map_option (\<lambda>l. l @ child_errors (filter task_is_ready (sc_children s))) (sc_sink s) \<and>
    (result = Inr () \<longleftrightarrow> sc_children s' = [] \<and> sc_errors s' = []) \<and>
    (sc_children s' = [] \<and> sc_errors s' \<noteq> [] \<longrightarrow> result = Inl (hd (sc_errors s'))) \<and>
    sc_join s' = (result, s')"
proof -
  let ?es = "child_errors (filter task_is_ready (sc_children s))"
  let ?kept = "filter (\<lambda>c. \<not> task_is_ready c) (sc_children s)"
  have s': "s' = (with_errors ?es s)\<lparr>sc_children := ?kept\<rparr>"
    and r: "result = (if sc_children s' \<noteq> []
        then Inl (make_error_diagnostic invalid_state ''scope has pending tasks'')
        else case sc_errors s' of e # _ \<Rightarrow> Inl e | [] \<Rightarrow> Inr ())"
    using assms by (auto simp: sc_join_def sc_join_loop_eq Let_def)
  have idle: "filter task_is_ready (sc_children s') = []"
    "filter (\<lambda>c. \<not> task_is_ready c) (sc_children s') = sc_children s'"
    by (simp_all add: s')
  have "with_errors [] s' = s'" by (cases "sc_sink s'") (simp_all add: with_errors_def)
  then have again: "sc_join s' = (result, s')"
    by (simp add: sc_join_def sc_join_loop_eq idle child_errors_def r)
  have res: "result = Inr () \<longleftrightarrow> sc_children s' = [] \<and> sc_errors s' = []"
    "sc_children s' = [] \<and> sc_errors s' \<noteq> [] \<longrightarrow> result = Inl (hd (sc_errors s'))"
    unfolding r by (cases "sc_errors s'"; simp)+
  show ?thesis using again res by (simp add: s')
qed

theorem scope_join_observes_all_witness:
  "sc_join (sc_create (Some []) \<lparr>sc_children := [task_create (Some 1),
       snd (task_complete (Threw :: nat outcome) (task_create (Some 1)))]\<rparr> :: (nat, nat) async_scope)
     = (Inl (make_error_diagnostic invalid_state ''scope has pending tasks''),
        sc_create (Some [make_error_diagnostic invalid_state ''unhandled coroutine exception''])
          \<lparr>sc_errors := [make_error_diagnostic invalid_state ''unhandled coroutine exception''],
           sc_children := [task_create (Some 1)]\<rparr>)"
proof -
  let ?done = "snd (task_complete (Threw :: nat outcome) (task_create (Some 1)))"
  let ?s = "sc_create (Some []) \<lparr>sc_children := [task_create (Some 1), ?done]\<rparr> :: (nat, nat) async_scope"
  obtain result s' where j: "sc_join ?s = (result, s')" by fastforce
  have "child_finish ?done = Inl (make_error_diagnostic invalid_state ''unhandled coroutine exception'')"
    "task_is_ready ?done" "\<not> task_is_ready (task_create (Some 1) :: nat task_cell)"
    by (simp_all add: child_finish_def task_take_result_def promise_take_result_def
        promise_has_result_def task_complete_def task_final_suspend_def tc_publish_completed_def
        task_create_def invalid_result_def Let_def task_is_ready_def)
  then show ?thesis
    using scope_join_observes_all [OF j] j
    by (simp add: sc_join_def sc_create_def observe_child_result_def record_error_def
        sink_record_def)
qed

text \<open>
  Spawning into a scope: once stopping was requested every spawn is refused with
  \<^verbatim>\<open>cancelled\<close> and changes nothing; before that the child is owned by the scope, or, if it is
  already finished, its error is recorded and returned at once. A first stop request is accepted
  and leaves the children alone.
\<close>

theorem scope_spawn_correct:
  assumes "cs_inv (sc_stop_source s)"
  shows "(sc_stop_requested s \<longrightarrow>
      (\<exists>e. sc_spawn child s = (Inl e, s) \<and> classification e = cancelled)) \<and>
    (\<not> sc_stop_requested s \<and> \<not> task_is_ready child \<longrightarrow>
      sc_spawn child s = (Inr (), s\<lparr>sc_children := sc_children s @ [child]\<rparr>)) \<and>
    (\<not> sc_stop_requested s \<and> task_is_ready child \<longrightarrow>
      sc_spawn child s = (child_finish child, with_errors (child_errors [child]) s) \<and>
      child_finish child = (case child_errors [child] of [] \<Rightarrow> Inr () | e # _ \<Rightarrow> Inl e)) \<and>
    (\<not> sc_stop_requested s \<longrightarrow> fst (sc_request_stop exec reason s)) \<and>
    sc_children (snd (sc_request_stop exec reason s)) = sc_children s"
proof -
  have req: "sc_stop_requested s \<longleftrightarrow> cs_requested (sc_stop_source s)"
    by (simp add: sc_stop_requested_def token_cancellation_requested_def with_state_lock_def)
  have fin: "fst (observe_child_result (child_finish child) s) = child_finish child"
    by (simp add: observe_child_result_def split: sum.split)
  have "\<not> cs_requested (sc_stop_source s) \<Longrightarrow>
      fst (request_cancellation True exec reason (sc_stop_source s))"
    using request_first [OF assms, of exec reason] by (metis fst_conv)
  then show ?thesis
    using fin observe_child_result_errors [of child s] child_finish_result(1) [of child] req
    by (auto simp: child_errors_def sc_spawn_def sc_request_stop_def prod_eq_iff split: prod.splits)
qed

theorem scope_spawn_correct_witness:
  "sc_spawn (task_create (Some 1) :: nat task_cell) (sc_create None :: (nat, nat) async_scope) =
     (Inr (), (sc_create None)\<lparr>sc_children := [task_create (Some 1)]\<rparr>)"
proof -
  let ?s = "sc_create None :: (nat, nat) async_scope" and ?c = "task_create (Some 1) :: nat task_cell"
  have "cs_inv (sc_stop_source ?s)" using cs_inv_init by (simp add: sc_create_def)
  moreover have "\<not> sc_stop_requested ?s" "\<not> task_is_ready ?c"
    by (simp_all add: sc_create_def sc_stop_requested_def token_cancellation_requested_def
        with_state_lock_def cs_init_def task_is_ready_def task_create_def promise_has_result_def)
  ultimately show ?thesis using scope_spawn_correct [of ?s ?c] by (simp add: sc_create_def)
qed

end
