(* ===== verification/File_Operation.thy ===== *)
theory File_Operation
  imports Vio_Task Executors
begin

text \<open>
  \<^verbatim>\<open>src/file.cpp\<close>, \<^verbatim>\<open>blocking_file_operation\<close>: an operation that runs on the blocking executor and
  resumes its awaiter on the scheduler captured at submission. The executor's worker publishes
  the result; the awaiting coroutine installs itself or detaches.
\<close>

section \<open>Operation state\<close>

text \<open>What the work closure does: it returns a result or throws.\<close>

datatype 'a work_outcome = Work_returned "'a io_result" | Work_threw

record 'a operation_state =
  fo_scheduler :: scheduler_id
  fo_result :: "'a io_result option"
  fo_continuation :: "coroutine_handle option"
  fo_submitted :: bool
  fo_detached :: bool

definition fo_init :: "scheduler_id \<Rightarrow> 'a operation_state" where
  "fo_init scheduler = \<lparr>fo_scheduler = scheduler, fo_result = None, fo_continuation = None,
     fo_submitted = True, fo_detached = False\<rparr>"

definition fo_complete_submit_failure :: "vio_error \<Rightarrow> 'a operation_state \<Rightarrow> 'a operation_state" where
  "fo_complete_submit_failure e s =
     (let s1 = s\<lparr>fo_submitted := False\<rparr>
      in if fo_result s1 = None then s1\<lparr>fo_result := Some (Inl e)\<rparr> else s1)"

text \<open>The constructor, with what the executor answered to the submission.\<close>

definition fo_create :: "void_result \<Rightarrow> scheduler_id \<Rightarrow> 'a operation_state" where
  "fo_create submitted scheduler =
     (case submitted of
        Inr _ \<Rightarrow> fo_init scheduler
      | Inl e \<Rightarrow> fo_complete_submit_failure e (fo_init scheduler))"

definition fo_ready_inline :: "'a operation_state \<Rightarrow> bool" where
  "fo_ready_inline s \<longleftrightarrow> \<not> fo_submitted s \<and> fo_result s \<noteq> None"

text \<open>\<^verbatim>\<open>install\<close>: whether the caller suspends, and whether a resumption is scheduled at once.\<close>

definition fo_install :: "coroutine_handle \<Rightarrow> 'a operation_state \<Rightarrow> bool \<times> bool \<times> 'a operation_state" where
  "fo_install next s =
     (if fo_detached s then (True, False, s)
      else (let s1 = s\<lparr>fo_continuation := Some next\<rparr> in (True, fo_result s1 \<noteq> None, s1)))"

definition fo_detach :: "'a operation_state \<Rightarrow> 'a operation_state" where
  "fo_detach s = s\<lparr>fo_detached := True, fo_continuation := None\<rparr>"

definition fo_take_result :: "'a operation_state \<Rightarrow> 'a io_result" where
  "fo_take_result s =
     (case fo_result s of
        None \<Rightarrow> Inl (make_error_diagnostic invalid_state ''file operation has not completed'')
      | Some r \<Rightarrow> r)"

definition fo_invoke_work :: "'a work_outcome option \<Rightarrow> 'a io_result" where
  "fo_invoke_work work =
     (case work of
        None \<Rightarrow> Inl (make_error_diagnostic invalid_state ''missing blocking file operation'')
      | Some (Work_returned r) \<Rightarrow> r
      | Some Work_threw \<Rightarrow> Inl (make_error_diagnostic invalid_state ''blocking file operation threw''))"

definition fo_publish :: "'a io_result \<Rightarrow> 'a operation_state \<Rightarrow> bool \<times> 'a operation_state" where
  "fo_publish r s =
     (if fo_result s \<noteq> None then (False, s)
      else (let s1 = s\<lparr>fo_result := Some r\<rparr>
            in (\<not> fo_detached s1 \<and> fo_continuation s1 \<noteq> None, s1)))"

definition fo_run :: "'a work_outcome option \<Rightarrow> 'a operation_state \<Rightarrow> bool \<times> 'a operation_state" where
  "fo_run work s = fo_publish (fo_invoke_work work) s"

definition fo_claim :: "'a operation_state \<Rightarrow> coroutine_handle option \<times> 'a operation_state" where
  "fo_claim s =
     (if fo_detached s \<or> fo_continuation s = None then (None, s)
      else (fo_continuation s, s\<lparr>fo_continuation := None\<rparr>))"

definition fo_resume_if_claimed ::
  "(coroutine_handle \<Rightarrow> 'e thread_state_scheme \<Rightarrow> 'e thread_state_scheme) \<Rightarrow>
     'a operation_state \<Rightarrow> 'e thread_state_scheme \<Rightarrow>
     'a operation_state \<times> 'e thread_state_scheme" where
  "fo_resume_if_claimed resume s t =
     (case fo_claim s of
        (None, s') \<Rightarrow> (s', t)
      | (Some next, s') \<Rightarrow> (s', in_scheduler_scope (fo_scheduler s) (resume next) t))"

section \<open>The rendezvous\<close>

text \<open>
  \<^verbatim>\<open>await_ready\<close> is \<open>fo_ready_inline\<close> and \<^verbatim>\<open>await_suspend\<close> is \<open>fo_install\<close>, each under the lock once.
\<close>

definition fo_done :: "'a operation_state \<Rightarrow> bool" where
  "fo_done s \<longleftrightarrow> fo_result s \<noteq> None"

definition fo_ok :: "'a operation_state \<Rightarrow> bool" where
  "fo_ok s \<longleftrightarrow> (fo_detached s \<longrightarrow> fo_continuation s = None)"

lemmas fo_op_defs = fo_run_def fo_publish_def fo_ready_inline_def fo_install_def
  fo_detach_def fo_claim_def fo_done_def fo_ok_def Let_def

interpretation fo: rendezvous fo_run fo_ready_inline fo_install fo_detach fo_claim fo_continuation fo_done fo_detached fo_ok
  by unfold_locales (auto simp: fo_op_defs split: if_splits)

abbreviation fo_steps ::
  "('a work_outcome option, coroutine_handle) rendezvous_op list \<Rightarrow>
     ('a operation_state, coroutine_handle) rendezvous_run \<Rightarrow>
     ('a operation_state, coroutine_handle) rendezvous_run" where
  "fo_steps \<equiv> rendezvous_steps fo_run fo_ready_inline fo_install fo_detach fo_claim"

lemma fo_create_ok: "fo_ok (fo_create submitted sch)" "fo_continuation (fo_create submitted sch) = None"
  by (simp_all add: fo_create_def fo_init_def fo_complete_submit_failure_def fo_ok_def Let_def
      split: sum.split)

text \<open>The first run of the work fixes the result, unless the submission failed.\<close>

lemma fo_result_stable:
  assumes "fo_result (rr_state g) = Some r"
  shows "fo_result (rr_state (rendezvous_step fo_run fo_ready_inline fo_install fo_detach fo_claim op g)) = Some r"
  using assms by (cases op) (auto simp: fo_op_defs split: option.splits)

lemma fo_steps_stable:
  "fo_result (rr_state g) = Some r \<Longrightarrow> fo_result (rr_state (fo_steps ops g)) = Some r"
  unfolding rendezvous_steps_def
  by (induction ops arbitrary: g) (simp_all add: fo_result_stable)

text \<open>A refused submission stays with the executor's error, and awaiting it never suspends.\<close>

definition submit_failed :: "vio_error \<Rightarrow> ('a operation_state, coroutine_handle) rendezvous_run \<Rightarrow> bool" where
  "submit_failed e g \<longleftrightarrow> fo_result (rr_state g) = Some (Inl e) \<and> \<not> fo_submitted (rr_state g) \<and>
     \<not> rr_suspended g \<and> \<not> rr_installing g"

lemma submit_failed_steps: "submit_failed e g \<Longrightarrow> submit_failed e (fo_steps ops g)"
  unfolding rendezvous_steps_def
proof (induction ops arbitrary: g)
  case (Cons op ops)
  have "submit_failed e (rendezvous_step fo_run fo_ready_inline fo_install fo_detach fo_claim op g)"
    using Cons.prems by (cases op) (auto simp: submit_failed_def fo_op_defs split: option.splits)
  then show ?case using Cons.IH by simp
qed simp

lemma fo_steps_result:
  assumes "fo_result (rr_state g) = None"
  shows "fo_result (rr_state (fo_steps ops g)) = map_option fo_invoke_work (first_published ops)"
  using assms
proof (induction ops arbitrary: g)
  case Nil
  then show ?case by (simp add: rendezvous_steps_def)
next
  case (Cons op ops)
  let ?g1 = "rendezvous_step fo_run fo_ready_inline fo_install fo_detach fo_claim op g"
  have steps: "fo_steps (op # ops) g = fo_steps ops ?g1" by (simp add: rendezvous_steps_def)
  show ?case
  proof (cases "first_published [op]")
    case None
    then have "fo_result (rr_state ?g1) = None" "first_published (op # ops) = first_published ops"
      using Cons.prems by (cases op; auto simp: fo_op_defs split: option.splits)+
    then show ?thesis unfolding steps using Cons.IH by simp
  next
    case (Some w)
    then have "op = Publish w" by (cases op) auto
    then have "fo_result (rr_state ?g1) = Some (fo_invoke_work w)"
      using Cons.prems by (simp add: fo_op_defs)
    then show ?thesis unfolding steps using fo_steps_stable \<open>op = Publish w\<close> by simp
  qed
qed

section \<open>Theorems\<close>

text \<open>
  A blocking file operation and its awaiter meet exactly once, in every interleaving of the
  worker, the awaiting coroutine, its destruction and the resumption: a refused submission is
  delivered inline, as the executor's error, without suspending; otherwise the result is the one
  of the first run of the work (an exception becomes \<^verbatim>\<open>invalid_state\<close>), the awaiter is resumed at
  most once and only with a result present, and is not left suspended when there is one.
\<close>

theorem file_operation_completes_once:
  assumes "g = fo_steps ops (rr_init (fo_create submitted scheduler))"
  shows "(case submitted of
       Inl e \<Rightarrow> fo_take_result (rr_state g) = Inl e \<and> \<not> rr_suspended g
     | Inr _ \<Rightarrow> fo_result (rr_state g) = map_option fo_invoke_work (first_published ops)) \<and>
    (rr_resumed g \<noteq> [] \<longrightarrow> rr_resumed g = [the (rr_awaited g)] \<and> fo_done (rr_state g)) \<and>
    (rr_suspended g \<and> fo_done (rr_state g) \<and> \<not> fo_detached (rr_state g) \<and> rr_jobs g = 0 \<longrightarrow>
       rr_resumed g = [the (rr_awaited g)])"
proof -
  note once = fo.resumed_once [OF fo_create_ok assms]
  have "case submitted of
       Inl e \<Rightarrow> fo_take_result (rr_state g) = Inl e \<and> \<not> rr_suspended g
     | Inr _ \<Rightarrow> fo_result (rr_state g) = map_option fo_invoke_work (first_published ops)"
  proof (cases submitted)
    case (Inl e)
    have "submit_failed e (rr_init (fo_create submitted scheduler))"
      by (simp add: Inl submit_failed_def rr_init_def fo_create_def fo_init_def
          fo_complete_submit_failure_def Let_def)
    then have "submit_failed e g" using submit_failed_steps assms by blast
    then show ?thesis by (simp add: Inl submit_failed_def fo_take_result_def)
  next
    case (Inr u)
    have "fo_result (rr_state (rr_init (fo_create submitted scheduler) ::
        ('a operation_state, nat) rendezvous_run)) = None"
      by (simp add: Inr rr_init_def fo_create_def fo_init_def)
    then show ?thesis using fo_steps_result assms Inr by simp
  qed
  then show ?thesis using once by argo
qed

theorem file_operation_completes_once_witness:
  "rr_resumed (fo_steps [Publish (Some (Work_returned (Inr (5 :: nat)))), Await 7, Install, Resume]
     (rr_init (fo_create (Inr ()) 2))) = [7]"
proof -
  let ?ops = "[Publish (Some (Work_returned (Inr (5 :: nat)))), Await 7, Install, Resume]"
  let ?g = "fo_steps ?ops (rr_init (fo_create (Inr ()) 2))"
  have "rr_suspended ?g \<and> fo_done (rr_state ?g) \<and> \<not> fo_detached (rr_state ?g) \<and>
      rr_jobs ?g = 0 \<and> rr_awaited ?g = Some 7"
    by (simp add: rendezvous_steps_def rr_init_def fo_create_def fo_init_def fo_op_defs)
  then show ?thesis
    using conjunct2 [OF conjunct2 [OF file_operation_completes_once [OF refl, of ?ops "Inr ()" 2]]]
    by (metis option.sel)
qed

end
