(* ===== verification/File_Pipeline.thy ===== *)
theory File_Pipeline
  imports File_Operation
begin

text \<open>
  The composition of \<^verbatim>\<open>src/file.cpp\<close> and \<^verbatim>\<open>src/blocking_executor.cpp\<close>: any number of blocking
  file operations on one executor that also serves other work. A client constructs an
  operation, which submits it; a worker takes it, runs it and publishes its result; the
  awaiting coroutine installs itself, detaches or is resumed. The end of the work and the
  publication are one step: between them the worker touches only its own frame.
\<close>

section \<open>System\<close>

datatype executor_work = File_work nat | Other_work nat

abbreviation file_job :: "nat \<Rightarrow> executor_work continuation" where
  "file_job i \<equiv> Some (File_work i)"

fun is_file_job :: "executor_work continuation \<Rightarrow> bool" where
  "is_file_job (Some (File_work i)) = True"
| "is_file_job k = False"

text \<open>
  The executor with its workers, the operations by number, and the runs of their work with
  what each run did, in order.
\<close>

record 'a pipeline =
  pl_exec :: "executor_work executor_sys"
  pl_ops :: "nat \<rightharpoonup> ('a operation_state, coroutine_handle) rendezvous_run"
  pl_runs :: "(nat \<times> 'a work_outcome) list"

definition pl_init :: "nat \<Rightarrow> nat \<Rightarrow> 'a pipeline" where
  "pl_init worker_count queue_limit =
     \<lparr>pl_exec = es_init worker_count queue_limit, pl_ops = Map.empty, pl_runs = []\<rparr>"

text \<open>The constructor of operation \<open>i\<close>: it submits its run and records a refusal.\<close>

definition blocking_file_operation ::
  "nat \<Rightarrow> scheduler_id \<Rightarrow> executor_work blocking_executor \<Rightarrow>
     void_result \<times> 'a operation_state \<times> executor_work blocking_executor" where
  "blocking_file_operation i scheduler executor =
     (case be_submit executor (file_job i) of
        (submitted, executor') \<Rightarrow> (submitted, fo_create submitted scheduler, executor'))"

abbreviation fo_step ::
  "('a work_outcome option, coroutine_handle) rendezvous_op \<Rightarrow>
     ('a operation_state, coroutine_handle) rendezvous_run \<Rightarrow>
     ('a operation_state, coroutine_handle) rendezvous_run" where
  "fo_step \<equiv> rendezvous_step fo_run fo_ready_inline fo_install fo_detach fo_claim"

datatype pipeline_actor = Client | Worker

inductive pipeline_step :: "'a pipeline \<Rightarrow> pipeline_actor \<Rightarrow> 'a pipeline \<Rightarrow> bool" where
  construct:
    "\<lbrakk>pl_ops p i = None;
      blocking_file_operation i sch (es_state (pl_exec p)) = (submitted, s, x)\<rbrakk> \<Longrightarrow>
     pipeline_step p Client
       (p\<lparr>pl_exec := (pl_exec p)\<lparr>es_state := x,
              es_accepted := es_accepted (pl_exec p) @ (if isl submitted then [] else [file_job i])\<rparr>,
          pl_ops := (pl_ops p)(i \<mapsto> rr_init s)\<rparr>)"
| coroutine:
    "\<lbrakk>pl_ops p i = Some g; op = Await k \<or> op = Install \<or> op = Detach \<or> op = Resume\<rbrakk> \<Longrightarrow>
     pipeline_step p Client (p\<lparr>pl_ops := (pl_ops p)(i \<mapsto> fo_step op g)\<rparr>)"
| client_other:
    "\<lbrakk>executor_step (pl_exec p) x; es_workers x = es_workers (pl_exec p);
      filter is_file_job (es_accepted x) = filter is_file_job (es_accepted (pl_exec p))\<rbrakk> \<Longrightarrow>
     pipeline_step p Client (p\<lparr>pl_exec := x\<rparr>)"
| worker_other:
    "\<lbrakk>executor_step (pl_exec p) x; es_workers x \<noteq> es_workers (pl_exec p);
      filter is_file_job (es_completed x) = filter is_file_job (es_completed (pl_exec p))\<rbrakk> \<Longrightarrow>
     pipeline_step p Worker (p\<lparr>pl_exec := x\<rparr>)"
| worker_run:
    "\<lbrakk>j < length (es_workers (pl_exec p)); es_workers (pl_exec p) ! j = Working (file_job i);
      pl_ops p i = Some g\<rbrakk> \<Longrightarrow>
     pipeline_step p Worker
       (p\<lparr>pl_exec := (pl_exec p)\<lparr>es_workers := (es_workers (pl_exec p))[j := Waiting],
              es_completed := es_completed (pl_exec p) @ [file_job i]\<rparr>,
          pl_ops := (pl_ops p)(i \<mapsto> fo_step (Publish (Some outcome)) g),
          pl_runs := pl_runs p @ [(i, outcome)]\<rparr>)"

inductive pipeline_run :: "'a pipeline \<Rightarrow> pipeline_actor list \<Rightarrow> 'a pipeline \<Rightarrow> bool" for p0 where
  initial: "pipeline_run p0 [] p0"
| step: "\<lbrakk>pipeline_run p0 as p; pipeline_step p a p'\<rbrakk> \<Longrightarrow> pipeline_run p0 (as @ [a]) p'"

section \<open>Operations under the executor\<close>

lemma fo_step_submitted: "fo_submitted (rr_state (fo_step op g)) = fo_submitted (rr_state g)"
  by (cases op) (auto simp: fo_op_defs split: option.splits)

lemma fo_step_result:
  "op = Await k \<or> op = Install \<or> op = Detach \<or> op = Resume \<Longrightarrow>
     fo_result (rr_state (fo_step op g)) = fo_result (rr_state g)"
  by (cases op) (auto simp: fo_op_defs split: option.splits)

lemma fo_step_publish:
  "fo_result (rr_state g) = None \<Longrightarrow>
     fo_result (rr_state (fo_step (Publish w) g)) = Some (fo_invoke_work w)"
  by (simp add: fo_op_defs)

lemma submit_failed_step: "submit_failed e g \<Longrightarrow> submit_failed e (fo_step op g)"
  using submit_failed_steps [of e g "[op]"] by (simp add: rendezvous_steps_def)

lemma submit_failed_create: "submit_failed e (rr_init (fo_create (Inl e) sch))"
  by (simp add: submit_failed_def rr_init_def fo_create_def fo_init_def
      fo_complete_submit_failure_def Let_def)

lemma be_submit_cases:
  assumes "be_submit s k = (r, s')"
  shows "(r = Inr () \<and> s' = s\<lparr>be_queue := be_queue s @ [k]\<rparr> \<and> \<not> be_shutting_down s) \<or>
    (\<exists>e. r = Inl e \<and> s' = s \<and> classification e \<in> {closed, resource_exhausted})"
  using assms by (auto simp: be_submit_def make_error_diagnostic_def split: if_splits)

section \<open>Invariant\<close>

abbreviation accepted_count :: "'a pipeline \<Rightarrow> nat \<Rightarrow> nat" where
  "accepted_count p i \<equiv> count (mset (es_accepted (pl_exec p))) (file_job i)"

abbreviation completed_count :: "'a pipeline \<Rightarrow> nat \<Rightarrow> nat" where
  "completed_count p i \<equiv> count (mset (es_completed (pl_exec p))) (file_job i)"

definition pl_op_inv ::
  "'a pipeline \<Rightarrow> nat \<Rightarrow> ('a operation_state, coroutine_handle) rendezvous_run \<Rightarrow> bool" where
  "pl_op_inv p i g \<longleftrightarrow> fo.run_inv g \<and>
     (if accepted_count p i = 0
      then (\<exists>e. submit_failed e g \<and> classification e \<in> {closed, resource_exhausted})
      else fo_submitted (rr_state g) \<and>
           fo_result (rr_state g) = map_option (\<lambda>w. fo_invoke_work (Some w)) (map_of (pl_runs p) i))"

definition pl_inv :: "'a pipeline \<Rightarrow> bool" where
  "pl_inv p \<longleftrightarrow> es_inv (pl_exec p) \<and> es_workers (pl_exec p) \<noteq> [] \<and>
     (\<forall>i. accepted_count p i \<le> of_bool (pl_ops p i \<noteq> None)) \<and>
     (\<forall>i. count (mset (map fst (pl_runs p))) i = completed_count p i) \<and>
     (\<forall>i g. pl_ops p i = Some g \<longrightarrow> pl_op_inv p i g)"

lemma pl_invD:
  assumes "pl_inv p"
  shows "es_inv (pl_exec p)" "es_workers (pl_exec p) \<noteq> []"
    "accepted_count p i \<le> of_bool (pl_ops p i \<noteq> None)"
    "count (mset (map fst (pl_runs p))) i = completed_count p i"
    "pl_ops p i = Some g \<Longrightarrow> pl_op_inv p i g"
  using assms by (simp_all add: pl_inv_def)

lemma pl_accepted_once: "pl_inv p \<Longrightarrow> accepted_count p i \<le> 1"
  by (rule order_trans [OF pl_invD(3)]) simp_all

lemma file_job_filter:
  "filter is_file_job ks = filter is_file_job ls \<Longrightarrow>
     count (mset ks) (file_job i) = count (mset ls) (file_job i)"
  by (metis count_filter_mset is_file_job.simps(1) mset_filter)

lemma executor_step_logs:
  assumes "executor_step x x'"
  shows "es_workers x' = es_workers x \<and> es_completed x' = es_completed x \<or>
    es_workers x' \<noteq> es_workers x \<and> es_accepted x' = es_accepted x"
  using assms
proof cases
  case (take j k s)
  then have "es_workers x' ! j \<noteq> es_workers x ! j" by simp
  then show ?thesis using take by auto
next
  case (return j s)
  then have "es_workers x' ! j \<noteq> es_workers x ! j" by simp
  then show ?thesis using return by auto
next
  case (work_done j k)
  then have "(es_workers x)[j := Waiting] \<noteq> es_workers x"
    by (metis nth_list_update_eq worker_state.distinct(1))
  then show ?thesis using work_done by simp
qed simp_all

lemma es_accepted_count:
  assumes "es_inv x"
  shows "count (mset (es_accepted x)) k =
    count (mset (es_completed x)) k + count (es_running x) k + count (mset (be_queue (es_state x))) k"
  using assms by (simp add: es_inv_def)

lemma es_running_worker:
  assumes "j < length (es_workers x)" and "es_workers x ! j = Working k"
  shows "0 < count (es_running x) k"
proof -
  have "Working k \<in> set (es_workers x)" using assms nth_mem by metis
  then have "k \<in># (\<Sum>w \<leftarrow> es_workers x. mset (worker_item w))" by (auto intro!: bexI [of _ "Working k"])
  then show ?thesis by (simp add: es_running_def)
qed

lemma pl_op_inv_cong:
  assumes "accepted_count p' i = accepted_count p i"
    and "map_of (pl_runs p') i = map_of (pl_runs p) i"
  shows "pl_op_inv p' i g = pl_op_inv p i g"
  by (simp add: pl_op_inv_def assms)

lemma pl_op_inv_coroutine:
  assumes "pl_op_inv p i g" and "op = Await k \<or> op = Install \<or> op = Detach \<or> op = Resume"
  shows "pl_op_inv p i (fo_step op g)"
proof -
  have "fo.run_inv (fo_step op g)" using assms(1) unfolding pl_op_inv_def by (intro fo.run_inv_step) blast
  then show ?thesis
    using assms(1) fo_step_result [OF assms(2), of g] fo_step_submitted [of op g]
      submit_failed_step [of _ g op]
    unfolding pl_op_inv_def by (metis (no_types, lifting))
qed

lemma map_of_runs: "map_of (pl_runs p) i = None \<longleftrightarrow> count (mset (map fst (pl_runs p))) i = 0"
  by (simp add: map_of_eq_None_iff count_eq_zero_iff)

lemma pl_inv_init: "pl_inv (pl_init n limit)"
  using es_inv_init [of n limit]
  by (auto simp: pl_inv_def pl_init_def es_init_def normalized_worker_count_def)

text \<open>Constructing an operation.\<close>

lemma pl_inv_construct:
  assumes inv: "pl_inv p" and fresh: "pl_ops p i = None"
    and op: "blocking_file_operation i sch (es_state (pl_exec p)) = (submitted, s, x)"
    and p': "p' = p\<lparr>pl_exec := (pl_exec p)\<lparr>es_state := x,
              es_accepted := es_accepted (pl_exec p) @ (if isl submitted then [] else [file_job i])\<rparr>,
          pl_ops := (pl_ops p)(i \<mapsto> rr_init s)\<rparr>"
  shows "pl_inv p'"
proof -
  have sub: "be_submit (es_state (pl_exec p)) (file_job i) = (submitted, x)"
    and s: "s = fo_create submitted sch"
    using op by (auto simp: blocking_file_operation_def split: prod.splits)
  have none: "accepted_count p i = 0" using pl_invD(3) [OF inv, of i] fresh by simp
  then have unrun: "map_of (pl_runs p) i = None"
    using es_accepted_count [OF pl_invD(1) [OF inv], of "file_job i"] pl_invD(4) [OF inv, of i]
    by (simp add: map_of_runs)
  have run: "fo.run_inv (rr_init s)" unfolding s by (rule fo.run_inv_init) (rule fo_create_ok)+
  have es: "es_inv (pl_exec p')"
    using executor_step.submit_ok [of "pl_exec p" "file_job i" x]
      executor_step.submit_fail [of "pl_exec p" "file_job i" _ x] sub
      es_inv_step [OF pl_invD(1) [OF inv]] by (cases submitted) (auto simp: p')
  have new: "pl_op_inv p' i (rr_init s)"
    using be_submit_cases [OF sub]
  proof (elim disjE exE conjE)
    assume "submitted = Inr ()"
    then show ?thesis
      using run unrun by (simp add: pl_op_inv_def p' s fo_create_def fo_init_def rr_init_def)
  next
    fix e assume "submitted = Inl e" "classification e \<in> {closed, resource_exhausted}"
    then show ?thesis
      using run none submit_failed_create [of e sch] by (auto simp: pl_op_inv_def p' s)
  qed
  have "pl_op_inv p' j g" if "pl_ops p' j = Some g" for j g
  proof (cases "j = i")
    case False
    then have "pl_op_inv p j g" using that pl_invD(5) [OF inv, of j g] by (simp add: p')
    then show ?thesis using False by (subst pl_op_inv_cong [where p = p]) (auto simp: p')
  qed (use that new in \<open>simp add: p'\<close>)
  moreover have "accepted_count p' j \<le> of_bool (pl_ops p' j \<noteq> None)" for j
    using pl_invD(3) [OF inv, of j] pl_accepted_once [OF inv, of j] none
    by (cases "j = i") (auto simp: p' simp del: count_mset_0_iff)
  ultimately show ?thesis
    using es pl_invD(2,4) [OF inv] unfolding pl_inv_def by (simp add: p')
qed

text \<open>Steps of the executor that concern no file operation, or take one.\<close>

lemma pl_inv_other:
  assumes inv: "pl_inv p" and step: "executor_step (pl_exec p) x"
    and acc: "\<And>i. count (mset (es_accepted x)) (file_job i) = accepted_count p i"
    and com: "\<And>i. count (mset (es_completed x)) (file_job i) = completed_count p i"
  shows "pl_inv (p\<lparr>pl_exec := x\<rparr>)"
proof -
  have "length (es_workers x) = length (es_workers (pl_exec p))"
    using es_workers_length executor_reachable.step [OF executor_reachable.initial step] by blast
  then have "es_workers x \<noteq> []" using pl_invD(2) [OF inv] by force
  moreover have "pl_op_inv (p\<lparr>pl_exec := x\<rparr>) i g" if "pl_ops p i = Some g" for i g
    using pl_invD(5) [OF inv that] by (subst pl_op_inv_cong [where p = p]) (simp_all add: acc)
  ultimately show ?thesis
    using es_inv_step [OF pl_invD(1) [OF inv] step] pl_invD(3,4) [OF inv]
    unfolding pl_inv_def by (simp add: acc com)
qed

text \<open>A worker runs a file operation: it is the first run of that operation.\<close>

lemma worker_run_first:
  assumes inv: "pl_inv p"
    and j: "j < length (es_workers (pl_exec p))" "es_workers (pl_exec p) ! j = Working (file_job i)"
  shows "\<exists>g. pl_ops p i = Some g \<and> fo_result (rr_state g) = None \<and>
    accepted_count p i = 1 \<and> map_of (pl_runs p) i = None"
proof -
  have acc: "accepted_count p i = 1" "completed_count p i = 0"
    using es_accepted_count [OF pl_invD(1) [OF inv], of "file_job i"] es_running_worker [OF j]
      pl_accepted_once [OF inv, of i] by linarith+
  then have unrun: "map_of (pl_runs p) i = None"
    using pl_invD(4) [OF inv, of i] by (simp add: map_of_runs)
  obtain g where "pl_ops p i = Some g"
    using pl_invD(3) [OF inv, of i] acc(1) by (cases "pl_ops p i") auto
  then show ?thesis using pl_invD(5) [OF inv] acc unrun by (fastforce simp: pl_op_inv_def)
qed

lemma pl_inv_worker_run:
  assumes inv: "pl_inv p"
    and j: "j < length (es_workers (pl_exec p))" "es_workers (pl_exec p) ! j = Working (file_job i)"
    and g: "pl_ops p i = Some g"
    and p': "p' = p\<lparr>pl_exec := (pl_exec p)\<lparr>es_workers := (es_workers (pl_exec p))[j := Waiting],
              es_completed := es_completed (pl_exec p) @ [file_job i]\<rparr>,
          pl_ops := (pl_ops p)(i \<mapsto> fo_step (Publish (Some outcome)) g),
          pl_runs := pl_runs p @ [(i, outcome)]\<rparr>"
  shows "pl_inv p'"
proof -
  have first: "fo_result (rr_state g) = None" "accepted_count p i = 1" "map_of (pl_runs p) i = None"
    using worker_run_first [OF inv j] g by auto
  have es: "es_inv (pl_exec p')"
    using es_inv_step [OF pl_invD(1) [OF inv] executor_step.work_done [OF j]] by (simp add: p')
  have "fo.run_inv (fo_step (Publish (Some outcome)) g)" "fo_submitted (rr_state g)"
    using pl_invD(5) [OF inv g] first(2) fo.run_inv_step
    by (auto simp: pl_op_inv_def simp del: rendezvous_step.simps)
  then have new: "pl_op_inv p' i (fo_step (Publish (Some outcome)) g)"
    using first fo_step_publish [OF first(1)] fo_step_submitted [of "Publish (Some outcome)" g]
    unfolding pl_op_inv_def by (simp add: p' map_add_def)
  have "pl_op_inv p' k h" if "pl_ops p' k = Some h" for k h
  proof (cases "k = i")
    case False
    then have "pl_op_inv p k h" using that pl_invD(5) [OF inv, of k h] by (simp add: p')
    then show ?thesis
      using False by (subst pl_op_inv_cong [where p = p]) (auto simp: p' map_add_def split: option.split)
  qed (use that new in \<open>simp add: p'\<close>)
  then show ?thesis
    using es pl_invD(2,3,4) [OF inv] pl_accepted_once [OF inv, of i] g
    unfolding pl_inv_def by (auto simp: p')
qed

lemma pl_inv_step:
  assumes inv: "pl_inv p" and "pipeline_step p a p'"
  shows "pl_inv p'"
  using assms(2)
proof cases
  case (construct i sch submitted s x)
  then show ?thesis using pl_inv_construct [OF inv] by blast
next
  case (coroutine i g op k)
  have "pl_op_inv p i (fo_step op g)"
    using pl_op_inv_coroutine [OF pl_invD(5) [OF inv]] coroutine by blast
  then have "pl_op_inv p j h" if "pl_ops p' j = Some h" for j h
    using that coroutine pl_invD(5) [OF inv, of j h] by (cases "j = i") simp_all
  then have "pl_op_inv p' j h" if "pl_ops p' j = Some h" for j h
    using that coroutine by (subst pl_op_inv_cong [where p = p]) auto
  then show ?thesis
    using pl_invD(1-4) [OF inv] pl_accepted_once [OF inv, of i] coroutine
    unfolding pl_inv_def by (auto simp del: rendezvous_step.simps)
next
  case (client_other x)
  then show ?thesis
    using pl_inv_other [OF inv, of x] executor_step_logs [of "pl_exec p" x] file_job_filter by metis
next
  case (worker_other x)
  then show ?thesis
    using pl_inv_other [OF inv, of x] executor_step_logs [of "pl_exec p" x] file_job_filter by metis
next
  case (worker_run j i g outcome)
  then show ?thesis using pl_inv_worker_run [OF inv] by blast
qed

lemma pl_inv_run:
  assumes "pipeline_run (pl_init n limit) as p"
  shows "pl_inv p"
  using assms by induction (auto intro: pl_inv_init pl_inv_step)

section \<open>Draining\<close>

lemma pl_result_cases:
  assumes inv: "pl_inv p" and g: "pl_ops p i = Some g"
  shows "case map_of (pl_runs p) i of
      Some w \<Rightarrow> fo_result (rr_state g) = Some (fo_invoke_work (Some w))
    | None \<Rightarrow> fo_result (rr_state g) = None \<and> accepted_count p i = 1 \<or>
        (\<exists>e. fo_take_result (rr_state g) = Inl e \<and>
           classification e \<in> {closed, resource_exhausted} \<and> \<not> rr_suspended g)"
proof (cases "accepted_count p i = 0")
  case True
  then have "map_of (pl_runs p) i = None"
    using es_accepted_count [OF pl_invD(1) [OF inv], of "file_job i"] pl_invD(4) [OF inv, of i]
    by (simp add: map_of_runs)
  moreover obtain e where "submit_failed e g" "classification e \<in> {closed, resource_exhausted}"
    using True pl_invD(5) [OF inv g] by (auto simp: pl_op_inv_def)
  ultimately show ?thesis by (auto simp: submit_failed_def fo_take_result_def)
next
  case False
  then have "accepted_count p i = 1" using pl_accepted_once [OF inv, of i] by linarith
  then show ?thesis using pl_invD(5) [OF inv g] by (simp add: pl_op_inv_def split: option.split)
qed

lemma pl_pending:
  assumes inv: "pl_inv p" and g: "pl_ops p i = Some g" and none: "fo_result (rr_state g) = None"
  shows "count (es_running (pl_exec p)) (file_job i) +
    count (mset (be_queue (es_state (pl_exec p)))) (file_job i) = 1"
proof -
  have "map_of (pl_runs p) i = None" "accepted_count p i = 1"
    using pl_result_cases [OF inv g] none by (auto simp: fo_take_result_def split: option.splits)
  then have "completed_count p i = 0" "accepted_count p i = 1"
    using pl_invD(4) [OF inv, of i] map_of_runs [of p i] by simp_all
  then show ?thesis
    using es_accepted_count [OF pl_invD(1) [OF inv], of "file_job i"] by linarith
qed

lemma pl_result_running:
  assumes inv: "pl_inv p" and g: "pl_ops p i = Some g"
  shows "case map_of (pl_runs p) i of
      Some w \<Rightarrow> fo_result (rr_state g) = Some (fo_invoke_work (Some w))
    | None \<Rightarrow> fo_result (rr_state g) = None \<and>
          count (es_running (pl_exec p)) (file_job i) +
          count (mset (be_queue (es_state (pl_exec p)))) (file_job i) = 1 \<or>
        (\<exists>e. fo_take_result (rr_state g) = Inl e \<and>
           classification e \<in> {closed, resource_exhausted} \<and> \<not> rr_suspended g)"
proof (cases "map_of (pl_runs p) i")
  case None
  then show ?thesis
    unfolding None option.case using pl_result_cases [OF inv g, unfolded None option.case]
      pl_pending [OF inv g] by blast
next
  case (Some w)
  then show ?thesis using pl_result_cases [OF inv g] by simp
qed

lemma pl_drained:
  assumes inv: "pl_inv p" and g: "pl_ops p i = Some g"
    and all: "\<forall>w \<in> set (es_workers (pl_exec p)). w = Returned"
  shows "fo_done (rr_state g)"
proof (rule ccontr)
  assume "\<not> fo_done (rr_state g)"
  then have "0 < count (es_running (pl_exec p)) (file_job i) +
      count (mset (be_queue (es_state (pl_exec p)))) (file_job i)"
    using pl_pending [OF inv g] by (simp add: fo_done_def)
  moreover have "completed_count p i = accepted_count p i"
    using es_drained [OF pl_invD(1,2) [OF inv] all] by simp
  ultimately show False
    using es_accepted_count [OF pl_invD(1) [OF inv], of "file_job i"] by linarith
qed

lemma pipeline_progress:
  assumes inv: "pl_inv p" and stop: "be_shutting_down (es_state (pl_exec p))"
    and live: "\<exists>w \<in> set (es_workers (pl_exec p)). w \<noteq> Returned"
  shows "\<exists>p'. pipeline_step p Worker p'"
proof -
  obtain x where x: "executor_step (pl_exec p) x" "es_workers x \<noteq> es_workers (pl_exec p)"
    using executor_progress [OF stop live] by blast
  have other: ?thesis if "filter is_file_job (es_completed x) = filter is_file_job (es_completed (pl_exec p))"
    using pipeline_step.worker_other [OF x that] by blast
  show ?thesis
  proof (cases "\<exists>j i. j < length (es_workers (pl_exec p)) \<and>
      es_workers (pl_exec p) ! j = Working (file_job i)")
    case True
    then show ?thesis using worker_run_first [OF inv] pipeline_step.worker_run by metis
  next
    case False
    then have nf: "\<not> is_file_job k" if "j < length (es_workers (pl_exec p))"
      "es_workers (pl_exec p) ! j = Working k" for j k
      using that by (cases k rule: is_file_job.cases) auto
    from x(1) have "filter is_file_job (es_completed x) = filter is_file_job (es_completed (pl_exec p))"
      by cases (use nf in auto)
    then show ?thesis by (rule other)
  qed
qed

lemma pipeline_step_moves:
  assumes "pipeline_step p a p'" and stop: "be_shutting_down (es_state (pl_exec p))"
  shows "be_shutting_down (es_state (pl_exec p')) \<and>
    es_moves (pl_exec p') + of_bool (a = Worker) \<le> es_moves (pl_exec p)"
  using assms(1)
proof cases
  case (construct i sch submitted s x)
  then have "be_submit (es_state (pl_exec p)) (file_job i) = (submitted, x)"
    by (auto simp: blocking_file_operation_def split: prod.splits)
  then have "x = es_state (pl_exec p)" using stop by (simp add: be_submit_def)
  then show ?thesis using construct stop by (simp add: es_moves_def)
next
  case (client_other x)
  then show ?thesis using executor_step_moves [of "pl_exec p" x] stop by simp
next
  case (worker_other x)
  then show ?thesis using executor_step_moves [of "pl_exec p" x] stop by (simp add: Suc_le_eq)
next
  case (worker_run j i g outcome)
  then show ?thesis
    using worker_moves_update [of j "es_workers (pl_exec p)" Waiting] stop by (simp add: es_moves_def)
qed (use stop in simp_all)

lemma pipeline_run_moves:
  assumes "pipeline_run p as p'" and stop: "be_shutting_down (es_state (pl_exec p))"
  shows "be_shutting_down (es_state (pl_exec p')) \<and>
    es_moves (pl_exec p') + count_list as Worker \<le> es_moves (pl_exec p)"
  using assms(1)
proof induction
  case (step as q a q')
  then show ?case using pipeline_step_moves [OF step.hyps(2)] by auto
qed (use stop in simp)

lemma pl_inv_run_from:
  assumes "pipeline_run p as p'" and "pl_inv p"
  shows "pl_inv p'"
  using assms by induction (auto intro: pl_inv_step)

section \<open>An execution\<close>

text \<open>
  One worker and one operation, whose work runs between the awaiter's two critical sections;
  then the executor shuts down.
\<close>

lemma pipeline_example:
  "\<exists>p g. pipeline_run (pl_init 1 1) [Client, Client, Worker, Worker, Client, Client] p \<and>
     be_shutting_down (es_state (pl_exec p)) \<and> be_queue (es_state (pl_exec p)) = [] \<and>
     es_workers (pl_exec p) = [Waiting] \<and> pl_ops p 0 = Some g \<and> rr_awaited g = Some 7 \<and>
     rr_suspended g \<and> \<not> fo_detached (rr_state g) \<and> rr_jobs g = 1 \<and>
     pl_runs p = [(0, Work_returned (Inr (5 :: nat)))]"
proof -
  let ?x = "\<lambda>q sh ws acc com. \<lparr>es_state = \<lparr>be_queue_limit = 1, be_queue = q, be_shutting_down = sh\<rparr>,
    es_workers = ws, es_accepted = acc, es_completed = com\<rparr>"
  let ?k = "file_job 0"
  let ?g0 = "rr_init (fo_init 2) :: (nat operation_state, coroutine_handle) rendezvous_run"
  let ?g1 = "fo_step (Await 7) ?g0"
  let ?w = "Work_returned (Inr 5) :: nat work_outcome"
  let ?g2 = "fo_step (Publish (Some ?w)) ?g1"
  let ?g3 = "fo_step Install ?g2"
  let ?p = "\<lambda>x g rs. \<lparr>pl_exec = x, pl_ops = [0 \<mapsto> g], pl_runs = rs\<rparr>"
  have "pipeline_step (pl_init 1 1) Client (?p (?x [?k] False [Waiting] [?k] []) ?g0 [])"
    using pipeline_step.construct [of "pl_init 1 1" 0 2 "Inr ()" "fo_init 2"
        "\<lparr>be_queue_limit = 1, be_queue = [?k], be_shutting_down = False\<rparr>"]
    by (simp add: pl_init_def es_init_def be_create_def normalized_worker_count_def
        blocking_file_operation_def be_submit_def fo_create_def)
  note r1 = pipeline_run.step [OF pipeline_run.initial this]
  have "pipeline_step (?p (?x [?k] False [Waiting] [?k] []) ?g0 []) Client
      (?p (?x [?k] False [Waiting] [?k] []) ?g1 [])"
    using pipeline_step.coroutine [of "?p (?x [?k] False [Waiting] [?k] []) ?g0 []" 0 ?g0 "Await 7"]
    by (simp del: rendezvous_step.simps)
  note r2 = pipeline_run.step [OF r1 this]
  have "pipeline_step (?p (?x [?k] False [Waiting] [?k] []) ?g1 []) Worker
      (?p (?x [] False [Working ?k] [?k] []) ?g1 [])"
    using pipeline_step.worker_other [of "?p (?x [?k] False [Waiting] [?k] []) ?g1 []"
        "?x [] False [Working ?k] [?k] []"]
      executor_step.take [of 0 "?x [?k] False [Waiting] [?k] []" ?k
        "\<lparr>be_queue_limit = 1, be_queue = [], be_shutting_down = False\<rparr>"]
    by (simp add: be_take_def be_wait_predicate_def del: rendezvous_step.simps)
  note r3 = pipeline_run.step [OF r2 this]
  have "pipeline_step (?p (?x [] False [Working ?k] [?k] []) ?g1 []) Worker
      (?p (?x [] False [Waiting] [?k] [?k]) ?g2 [(0, ?w)])"
    using pipeline_step.worker_run [of 0 "?p (?x [] False [Working ?k] [?k] []) ?g1 []" 0 ?g1 ?w]
    by (simp del: rendezvous_step.simps)
  note r4 = pipeline_run.step [OF r3 this]
  have "pipeline_step (?p (?x [] False [Waiting] [?k] [?k]) ?g2 [(0, ?w)]) Client
      (?p (?x [] False [Waiting] [?k] [?k]) ?g3 [(0, ?w)])"
    using pipeline_step.coroutine [of "?p (?x [] False [Waiting] [?k] [?k]) ?g2 [(0, ?w)]" 0 ?g2 Install]
    by (simp del: rendezvous_step.simps)
  note r5 = pipeline_run.step [OF r4 this]
  have "pipeline_step (?p (?x [] False [Waiting] [?k] [?k]) ?g3 [(0, ?w)]) Client
      (?p (?x [] True [Waiting] [?k] [?k]) ?g3 [(0, ?w)])"
    using pipeline_step.client_other [of "?p (?x [] False [Waiting] [?k] [?k]) ?g3 [(0, ?w)]"
        "?x [] True [Waiting] [?k] [?k]"]
      executor_step.shutdown [of "?x [] False [Waiting] [?k] [?k]"]
    by (simp add: be_request_shutdown_def del: rendezvous_step.simps)
  note r6 = pipeline_run.step [OF r5 this]
  have "rr_awaited ?g3 = Some 7 \<and> rr_suspended ?g3 \<and> \<not> fo_detached (rr_state ?g3) \<and> rr_jobs ?g3 = 1"
    by (simp add: rr_init_def fo_init_def fo_op_defs)
  then show ?thesis
    using r6 by (intro exI [of _ "?p (?x [] True [Waiting] [?k] [?k]) ?g3 [(0, ?w)]"] exI [of _ ?g3])
      (simp del: rendezvous_step.simps)
qed

section \<open>Theorems\<close>

text \<open>
  C35. File operations on a shared executor complete exactly once, in every interleaving of
  clients, workers, other work and shutdown: the work of an operation is run at most once, and
  its result is what that run did; an operation that was not run is queued or running exactly
  once, or was refused, and then holds the executor's error and never suspended its awaiter;
  its awaiter is resumed at most once and only with a result. When all workers have returned,
  every operation has its result, and an awaiter still attached whose scheduled resumption has
  run was resumed.
\<close>

theorem file_pipeline_exactly_once:
  assumes "pipeline_run (pl_init n limit) as p" and "pl_ops p i = Some g"
  shows "count_list (map fst (pl_runs p)) i \<le> 1 \<and>
    (case map_of (pl_runs p) i of
       Some w \<Rightarrow> fo_result (rr_state g) = Some (fo_invoke_work (Some w))
     | None \<Rightarrow> fo_result (rr_state g) = None \<and>
           count (es_running (pl_exec p)) (file_job i) +
           count (mset (be_queue (es_state (pl_exec p)))) (file_job i) = 1 \<or>
         (\<exists>e. fo_take_result (rr_state g) = Inl e \<and>
            classification e \<in> {closed, resource_exhausted} \<and> \<not> rr_suspended g)) \<and>
    (rr_resumed g \<noteq> [] \<longrightarrow> rr_resumed g = [the (rr_awaited g)] \<and> fo_done (rr_state g)) \<and>
    ((\<forall>w \<in> set (es_workers (pl_exec p)). w = Returned) \<longrightarrow>
       fo_done (rr_state g) \<and>
       (rr_suspended g \<and> \<not> fo_detached (rr_state g) \<and> rr_jobs g = 0 \<longrightarrow>
          rr_resumed g = [the (rr_awaited g)]))"
proof -
  have inv: "pl_inv p" using pl_inv_run assms(1) .
  have run: "fo.run_inv g" using pl_invD(5) [OF inv assms(2)] by (simp add: pl_op_inv_def)
  have "completed_count p i \<le> 1"
    using es_accepted_count [OF pl_invD(1) [OF inv], of "file_job i"] pl_accepted_once [OF inv, of i]
    by linarith
  then have "count_list (map fst (pl_runs p)) i \<le> 1"
    using pl_invD(4) [OF inv, of i] by (simp add: count_mset del: mset_map)
  moreover have "rr_resumed g \<noteq> [] \<longrightarrow> rr_resumed g = [the (rr_awaited g)] \<and> fo_done (rr_state g)"
    using run unfolding fo.run_inv_def by blast
  moreover have "rr_suspended g \<and> fo_done (rr_state g) \<and> \<not> fo_detached (rr_state g) \<and> rr_jobs g = 0 \<longrightarrow>
      rr_resumed g = [the (rr_awaited g)]"
    using run unfolding fo.run_inv_def by (metis less_irrefl)
  moreover note pl_result_running [OF inv assms(2)] pl_drained [OF inv assms(2)]
  ultimately show ?thesis by blast
qed

theorem file_pipeline_exactly_once_witness:
  "\<exists>(p :: nat pipeline) g. pipeline_run (pl_init 1 1) [Client, Client, Worker, Worker, Client, Client] p \<and>
     pl_ops p 0 = Some g \<and> fo_result (rr_state g) = Some (Inr 5)"
proof -
  obtain p :: "nat pipeline" and g
    where run: "pipeline_run (pl_init 1 1) [Client, Client, Worker, Worker, Client, Client] p"
      and g: "pl_ops p 0 = Some g" and rs: "pl_runs p = [(0, Work_returned (Inr 5))]"
    using pipeline_example by blast
  have "fo_result (rr_state g) = Some (Inr 5)"
    using conjunct1 [OF conjunct2 [OF file_pipeline_exactly_once [OF run g]]]
    by (simp add: rs fo_invoke_work_def)
  then show ?thesis using run g by blast
qed

text \<open>
  C36. Shutting the executor down drains the file operations: from the moment shutdown is
  requested, however clients and workers interleave, the workers move at most twice per queued
  item and worker; as long as some worker has not returned, a worker can move; and when none
  can, all have returned and every operation has its result.
\<close>

theorem file_pipeline_drains:
  assumes "pipeline_run (pl_init n limit) as p" and "be_shutting_down (es_state (pl_exec p))"
    and "pipeline_run p bs p'"
  shows "count_list bs Worker \<le>
      2 * length (be_queue (es_state (pl_exec p))) + 2 * length (es_workers (pl_exec p)) \<and>
    ((\<exists>w \<in> set (es_workers (pl_exec p')). w \<noteq> Returned) \<longrightarrow> (\<exists>p''. pipeline_step p' Worker p'')) \<and>
    ((\<nexists>p''. pipeline_step p' Worker p'') \<longrightarrow> (\<forall>i g. pl_ops p' i = Some g \<longrightarrow> fo_done (rr_state g)))"
proof -
  have inv: "pl_inv p'" using pl_inv_run_from [OF assms(3) pl_inv_run [OF assms(1)]] .
  note moves = pipeline_run_moves [OF assms(3,2)]
  have bound: "count_list bs Worker \<le>
      2 * length (be_queue (es_state (pl_exec p))) + 2 * length (es_workers (pl_exec p))"
    using moves es_moves_bound [of "pl_exec p"] by linarith
  have live: "(\<exists>w \<in> set (es_workers (pl_exec p')). w \<noteq> Returned) \<longrightarrow> (\<exists>p''. pipeline_step p' Worker p'')"
    using pipeline_progress [OF inv] moves by blast
  moreover have "\<forall>i g. pl_ops p' i = Some g \<longrightarrow> fo_done (rr_state g)"
    if "\<nexists>p''. pipeline_step p' Worker p''"
    using pl_drained [OF inv] live that by blast
  ultimately show ?thesis using bound by blast
qed

theorem file_pipeline_drains_witness:
  "\<exists>(p :: nat pipeline) p'. pipeline_run (pl_init 1 1) [Client, Client, Worker, Worker, Client, Client] p \<and>
     be_shutting_down (es_state (pl_exec p)) \<and> pipeline_step p Worker p'"
proof -
  obtain p :: "nat pipeline"
    where run: "pipeline_run (pl_init 1 1) [Client, Client, Worker, Worker, Client, Client] p"
      and stop: "be_shutting_down (es_state (pl_exec p))" and ws: "es_workers (pl_exec p) = [Waiting]"
    using pipeline_example by blast
  show ?thesis
    using conjunct1 [OF conjunct2 [OF file_pipeline_drains [OF run stop pipeline_run.initial]]] run stop
    by (auto simp: ws)
qed

end
