(* ===== verification/Vio_File.thy ===== *)
theory Vio_File
  imports File_Operation
begin

text \<open>
  \<^verbatim>\<open>include/voris/io/file.hpp\<close> and \<^verbatim>\<open>src/file.cpp\<close>: files on \<^verbatim>\<open>std::fstream\<close> and \<^verbatim>\<open>std::filesystem\<close>.
  The disk maps paths to their bytes. A stream has the write it has buffered and not yet handed
  to the operating system: seeking, flushing and closing write it out, and the stream may write it
  out earlier. What the operating system decides is the \<open>device\<close>: which writes and resizes it
  accepts, which files may be opened, when a full buffer spills, and its error codes. Allocation
  failures of the read buffer are not modelled. A null \<^verbatim>\<open>state_\<close> is \<open>None\<close>.
\<close>

type_synonym path = string
type_synonym disk = "path \<rightharpoonup> byte list"

section \<open>Streams and the file system\<close>

datatype ios_flag = ios_binary | ios_in | ios_out | ios_trunc

record device =
  dv_accepts :: "path \<Rightarrow> nat \<Rightarrow> byte list \<Rightarrow> bool"
  dv_spills :: "byte list \<Rightarrow> bool"
  dv_openable :: "path \<Rightarrow> bool"
  dv_resizable :: "path \<Rightarrow> nat \<Rightarrow> bool"
  dv_error :: "path \<Rightarrow> int \<times> string"

record file_stream =
  fs_open :: bool
  fs_flags :: "ios_flag set"
  fs_failed :: bool
  fs_pending :: "(nat \<times> byte list) option"

record file_state =
  fl_path :: path
  fl_stream :: file_stream

text \<open>A write past the end fills the gap with zero bytes.\<close>

definition write_bytes :: "nat \<Rightarrow> byte list \<Rightarrow> byte list \<Rightarrow> byte list" where
  "write_bytes off data content =
     take off content @ replicate (off - length content) 0 @ data @ drop (off + length data) content"

definition contents :: "path \<Rightarrow> disk \<Rightarrow> byte list" where
  "contents p d = (case d p of None \<Rightarrow> [] | Some bs \<Rightarrow> bs)"

text \<open>\<^verbatim>\<open>basic_filebuf::sync\<close>: whether the buffered write was handed over.\<close>

definition stream_sync :: "device \<Rightarrow> path \<Rightarrow> file_stream \<Rightarrow> disk \<Rightarrow> bool \<times> file_stream \<times> disk" where
  "stream_sync dev p st d =
     (case fs_pending st of
        None \<Rightarrow> (True, st, d)
      | Some (off, data) \<Rightarrow>
          if dv_accepts dev p off data
          then (True, st\<lparr>fs_pending := None\<rparr>, d(p \<mapsto> write_bytes off data (contents p d)))
          else (False, st, d))"

text \<open>\<^verbatim>\<open>clear()\<close> and \<^verbatim>\<open>seekg\<close> or \<^verbatim>\<open>seekp\<close> with the offset cast to the signed \<^verbatim>\<open>streamoff\<close>.\<close>

definition stream_seek ::
  "device \<Rightarrow> path \<Rightarrow> uint64 \<Rightarrow> file_stream \<Rightarrow> disk \<Rightarrow> file_stream \<times> disk" where
  "stream_seek dev p off st d =
     (let st1 = st\<lparr>fs_failed := False\<rparr>
      in if sint off < 0 then (st1\<lparr>fs_failed := True\<rparr>, d)
         else (case stream_sync dev p st1 d of
                 (done_, st2, d2) \<Rightarrow> (if done_ then st2 else st2\<lparr>fs_failed := True\<rparr>, d2)))"

definition stream_read ::
  "path \<Rightarrow> nat \<Rightarrow> nat \<Rightarrow> file_stream \<Rightarrow> disk \<Rightarrow> byte list \<times> file_stream" where
  "stream_read p off n st d =
     (if fs_failed st then ([], st)
      else (let data = take n (drop off (contents p d))
            in (data, if length data < n then st\<lparr>fs_failed := True\<rparr> else st)))"

definition stream_write ::
  "device \<Rightarrow> path \<Rightarrow> nat \<Rightarrow> byte list \<Rightarrow> file_stream \<Rightarrow> disk \<Rightarrow> file_stream \<times> disk" where
  "stream_write dev p off data st d =
     (if fs_failed st \<or> data = [] then (st, d)
      else if ios_out \<notin> fs_flags st then (st\<lparr>fs_failed := True\<rparr>, d)
      else
        (let st1 = st\<lparr>fs_pending := Some (off, data)\<rparr>
         in if dv_spills dev data
            then (case stream_sync dev p st1 d of
                    (done_, st2, d2) \<Rightarrow> (if done_ then st2 else st2\<lparr>fs_failed := True\<rparr>, d2))
            else (st1, d)))"

definition stream_close :: "device \<Rightarrow> path \<Rightarrow> file_stream \<Rightarrow> disk \<Rightarrow> file_stream \<times> disk" where
  "stream_close dev p st d =
     (case stream_sync dev p st d of
        (done_, st1, d1) \<Rightarrow>
          (st1\<lparr>fs_open := False, fs_pending := None, fs_failed := fs_failed st \<or> \<not> done_\<rparr>, d1))"

definition stream_flush :: "device \<Rightarrow> path \<Rightarrow> file_stream \<Rightarrow> disk \<Rightarrow> file_stream \<times> disk" where
  "stream_flush dev p st d =
     (case stream_sync dev p st d of
        (done_, st1, d1) \<Rightarrow> (if done_ then st1 else st1\<lparr>fs_failed := True\<rparr>, d1))"

section \<open>Operations of a file\<close>

datatype file_open_mode = Read_mode | Write_mode | Read_write_mode

fun to_openmode :: "file_open_mode \<Rightarrow> ios_flag set" where
  "to_openmode Read_mode = {ios_binary, ios_in}"
| "to_openmode Write_mode = {ios_binary, ios_in, ios_out, ios_trunc}"
| "to_openmode Read_write_mode = {ios_binary, ios_in, ios_out}"

text \<open>\<^verbatim>\<open>std::fstream(path, mode)\<close>: truncation creates a missing file, the other modes need it.\<close>

definition stream_open :: "device \<Rightarrow> path \<Rightarrow> ios_flag set \<Rightarrow> disk \<Rightarrow> file_stream \<times> disk" where
  "stream_open dev p flags d =
     (let st = \<lparr>fs_open = True, fs_flags = flags, fs_failed = False, fs_pending = None\<rparr>
      in if \<not> dv_openable dev p then (st\<lparr>fs_open := False, fs_failed := True\<rparr>, d)
         else if ios_trunc \<in> flags then (st, d(p \<mapsto> []))
         else if d p = None then (st\<lparr>fs_open := False, fs_failed := True\<rparr>, d)
         else (st, d))"

definition file_open :: "device \<Rightarrow> path \<Rightarrow> file_open_mode \<Rightarrow> disk \<Rightarrow> file_state option io_result \<times> disk" where
  "file_open dev p mode d =
     (case stream_open dev p (to_openmode mode) d of
        (st, d1) \<Rightarrow>
          if \<not> fs_open st then (Inl (make_error_diagnostic backend_failure ''file open failed''), d1)
          else (Inr (Some \<lparr>fl_path = p, fl_stream = st\<rparr>), d1))"

definition is_open_state :: "file_state option \<Rightarrow> bool" where
  "is_open_state state = (case state of None \<Rightarrow> False | Some f \<Rightarrow> fs_open (fl_stream f))"

definition close_state ::
  "device \<Rightarrow> file_state option \<Rightarrow> disk \<Rightarrow> void_result \<times> file_state option \<times> disk" where
  "close_state dev state d =
     (case state of
        None \<Rightarrow> (Inr (), None, d)
      | Some f \<Rightarrow>
          if fs_open (fl_stream f)
          then (case stream_close dev (fl_path f) (fl_stream f) d of
                  (st, d1) \<Rightarrow> (Inr (), Some (f\<lparr>fl_stream := st\<rparr>), d1))
          else (Inr (), Some f, d))"

definition read_at_state ::
  "device \<Rightarrow> uint64 \<Rightarrow> nat \<Rightarrow> file_state option \<Rightarrow> disk \<Rightarrow>
     byte list io_result \<times> file_state option \<times> disk" where
  "read_at_state dev off read_size state d =
     (case state of
        None \<Rightarrow> (Inl (make_error closed None []), None, d)
      | Some f \<Rightarrow>
          if \<not> fs_open (fl_stream f) then (Inl (make_error closed None []), Some f, d)
          else
            (case stream_seek dev (fl_path f) off (fl_stream f) d of
               (st1, d1) \<Rightarrow>
                 (case stream_read (fl_path f) (unat off) read_size st1 d1 of
                    (buffer, st2) \<Rightarrow> (Inr buffer, Some (f\<lparr>fl_stream := st2\<rparr>), d1))))"

definition write_at_state ::
  "device \<Rightarrow> uint64 \<Rightarrow> byte list \<Rightarrow> file_state option \<Rightarrow> disk \<Rightarrow>
     nat io_result \<times> file_state option \<times> disk" where
  "write_at_state dev off data state d =
     (case state of
        None \<Rightarrow> (Inl (make_error closed None []), None, d)
      | Some f \<Rightarrow>
          if \<not> fs_open (fl_stream f) then (Inl (make_error closed None []), Some f, d)
          else
            (case stream_seek dev (fl_path f) off (fl_stream f) d of
               (st1, d1) \<Rightarrow>
                 (case stream_write dev (fl_path f) (unat off) data st1 d1 of
                    (st2, d2) \<Rightarrow>
                      (if fs_failed st2
                       then Inl (make_error_diagnostic backend_failure ''file write failed'')
                       else Inr (length data), Some (f\<lparr>fl_stream := st2\<rparr>), d2))))"

definition size_path :: "device \<Rightarrow> path \<Rightarrow> disk \<Rightarrow> uint64 io_result" where
  "size_path dev p d =
     (case d p of
        None \<Rightarrow> Inl (make_error_provider backend_failure (fst (dv_error dev p)) (snd (dv_error dev p)))
      | Some bs \<Rightarrow> Inr (of_nat (length bs)))"

definition state_path :: "file_state option \<Rightarrow> path" where
  "state_path state = (case state of None \<Rightarrow> [] | Some f \<Rightarrow> fl_path f)"

definition size_state :: "device \<Rightarrow> file_state option \<Rightarrow> disk \<Rightarrow> uint64 io_result" where
  "size_state dev state d = size_path dev (state_path state) d"

definition resize_path :: "device \<Rightarrow> path \<Rightarrow> uint64 \<Rightarrow> disk \<Rightarrow> void_result \<times> disk" where
  "resize_path dev p new_size d =
     (let n = unat new_size
      in case d p of
           Some bs \<Rightarrow>
             if dv_resizable dev p n
             then (Inr (), d(p \<mapsto> take n bs @ replicate (n - length bs) 0))
             else (Inl (make_error_provider backend_failure (fst (dv_error dev p)) (snd (dv_error dev p))), d)
         | None \<Rightarrow>
             (Inl (make_error_provider backend_failure (fst (dv_error dev p)) (snd (dv_error dev p))), d))"

definition truncate_state ::
  "device \<Rightarrow> uint64 \<Rightarrow> file_state option \<Rightarrow> disk \<Rightarrow> void_result \<times> disk" where
  "truncate_state dev new_size state d = resize_path dev (state_path state) new_size d"

definition allocate_state ::
  "device \<Rightarrow> uint64 \<Rightarrow> file_state option \<Rightarrow> disk \<Rightarrow> void_result \<times> disk" where
  "allocate_state dev allocation_size state d =
     (case size_state dev state d of
        Inl e \<Rightarrow> (Inl e, d)
      | Inr current_size \<Rightarrow>
          if current_size \<ge> allocation_size then (Inr (), d)
          else truncate_state dev allocation_size state d)"

definition sync_data_state ::
  "device \<Rightarrow> file_state option \<Rightarrow> disk \<Rightarrow> void_result \<times> file_state option \<times> disk" where
  "sync_data_state dev state d =
     (case state of
        None \<Rightarrow> (Inl (make_error closed None []), None, d)
      | Some f \<Rightarrow>
          if \<not> fs_open (fl_stream f) then (Inl (make_error closed None []), Some f, d)
          else (case stream_flush dev (fl_path f) (fl_stream f) d of
                  (st, d1) \<Rightarrow> (Inr (), Some (f\<lparr>fl_stream := st\<rparr>), d1)))"

definition file_sync_all ::
  "device \<Rightarrow> file_state option \<Rightarrow> disk \<Rightarrow> void_result \<times> file_state option \<times> disk" where
  "file_sync_all dev state d = sync_data_state dev state d"

text \<open>Move assignment closes the file overwritten; the destructor closes.\<close>

definition file_move_assign ::
  "device \<Rightarrow> bool \<Rightarrow> file_state option \<Rightarrow> file_state option \<Rightarrow> disk \<Rightarrow>
     file_state option \<times> file_state option \<times> disk" where
  "file_move_assign dev same_object this other d =
     (if same_object then (this, other, d)
      else (case close_state dev this d of (_, _, d1) \<Rightarrow> (other, None, d1)))"

record sendfile_view =
  sv_source :: "file_state option"
  sv_offset :: uint64
  sv_length :: uint64

definition make_sendfile_view ::
  "file_state option \<Rightarrow> uint64 \<Rightarrow> uint64 \<Rightarrow> sendfile_view io_result" where
  "make_sendfile_view source off len =
     (if \<not> is_open_state source then Inl (make_error closed None [])
      else Inr \<lparr>sv_source = source, sv_offset = off, sv_length = len\<rparr>)"

section \<open>Asynchronous operations\<close>

text \<open>
  Each asynchronous operation needs a current scheduler and then submits a closure to the
  executor: \<open>Failed\<close> is the early return, \<open>Started\<close> the operation with its work, a function of
  the shared state and the disk at the time it runs.
\<close>

datatype 'a async_start =
    Failed vio_error
  | Started "'a operation_state" "file_state option \<Rightarrow> disk \<Rightarrow> 'a io_result \<times> file_state option \<times> disk"

definition async_start ::
  "'e thread_state_scheme \<Rightarrow> void_result \<Rightarrow>
     (file_state option \<Rightarrow> disk \<Rightarrow> 'a io_result \<times> file_state option \<times> disk) \<Rightarrow> 'a async_start" where
  "async_start t submitted work =
     (case require_current_scheduler t of
        Inl e \<Rightarrow> Failed e
      | Inr scheduler \<Rightarrow> Started (fo_create submitted scheduler) work)"

definition file_async_open ::
  "device \<Rightarrow> path \<Rightarrow> file_open_mode \<Rightarrow> 'e thread_state_scheme \<Rightarrow> void_result \<Rightarrow>
     file_state option async_start" where
  "file_async_open dev p mode t submitted =
     async_start t submitted (\<lambda>state d. case file_open dev p mode d of (r, d1) \<Rightarrow> (r, state, d1))"

definition file_async_close ::
  "device \<Rightarrow> 'e thread_state_scheme \<Rightarrow> void_result \<Rightarrow> unit async_start" where
  "file_async_close dev t submitted = async_start t submitted (close_state dev)"

definition file_async_read_at ::
  "device \<Rightarrow> uint64 \<Rightarrow> nat \<Rightarrow> 'e thread_state_scheme \<Rightarrow> void_result \<Rightarrow> byte list async_start" where
  "file_async_read_at dev off read_size t submitted =
     async_start t submitted (read_at_state dev off read_size)"

definition file_async_write_at ::
  "device \<Rightarrow> uint64 \<Rightarrow> byte list \<Rightarrow> 'e thread_state_scheme \<Rightarrow> void_result \<Rightarrow> nat async_start" where
  "file_async_write_at dev off data t submitted =
     async_start t submitted (write_at_state dev off data)"

section \<open>A file as an array of bytes\<close>

text \<open>The bytes a reader of the stream sees: the disk with the buffered write applied.\<close>

fun apply_pending :: "(nat \<times> byte list) option \<Rightarrow> byte list \<Rightarrow> byte list" where
  "apply_pending None bytes = bytes"
| "apply_pending (Some (off, data)) bytes = write_bytes off data bytes"

definition view :: "file_state \<Rightarrow> disk \<Rightarrow> byte list" where
  "view f d = apply_pending (fs_pending (fl_stream f)) (contents (fl_path f) d)"

datatype file_op = Write_at uint64 "byte list" | Read_at uint64 nat | Sync_data
datatype file_out = Wrote "nat io_result" | Got "byte list io_result" | Synced void_result

fun file_step ::
  "device \<Rightarrow> file_op \<Rightarrow> file_state option \<Rightarrow> disk \<Rightarrow> file_out \<times> file_state option \<times> disk" where
  "file_step dev (Write_at off data) state d =
     (case write_at_state dev off data state d of (r, s) \<Rightarrow> (Wrote r, s))"
| "file_step dev (Read_at off n) state d =
     (case read_at_state dev off n state d of (r, s) \<Rightarrow> (Got r, s))"
| "file_step dev Sync_data state d =
     (case sync_data_state dev state d of (r, s) \<Rightarrow> (Synced r, s))"

fun file_steps ::
  "device \<Rightarrow> file_op list \<Rightarrow> file_state option \<Rightarrow> disk \<Rightarrow> file_out list \<times> file_state option \<times> disk" where
  "file_steps dev [] state d = ([], state, d)"
| "file_steps dev (op # ops) state d =
     (case file_step dev op state d of
        (r, state1, d1) \<Rightarrow> (case file_steps dev ops state1 d1 of (rs, s) \<Rightarrow> (r # rs, s)))"

text \<open>
  The specification: a growing array of bytes. An offset that is negative as a \<^verbatim>\<open>streamoff\<close> is
  refused for writing and reads nothing.
\<close>

fun spec_step :: "file_op \<Rightarrow> byte list \<Rightarrow> file_out \<times> byte list" where
  "spec_step (Write_at off data) bytes =
     (if sint off < 0
      then (Wrote (Inl (make_error_diagnostic backend_failure ''file write failed'')), bytes)
      else (Wrote (Inr (length data)), if data = [] then bytes else write_bytes (unat off) data bytes))"
| "spec_step (Read_at off n) bytes =
     (Got (Inr (if sint off < 0 then [] else take n (drop (unat off) bytes))), bytes)"
| "spec_step Sync_data bytes = (Synced (Inr ()), bytes)"

fun spec_steps :: "file_op list \<Rightarrow> byte list \<Rightarrow> file_out list \<times> byte list" where
  "spec_steps [] bytes = ([], bytes)"
| "spec_steps (op # ops) bytes =
     (case spec_step op bytes of
        (r, bytes1) \<Rightarrow> (case spec_steps ops bytes1 of (rs, bytes') \<Rightarrow> (r # rs, bytes')))"

definition writable :: "file_state \<Rightarrow> bool" where
  "writable f \<longleftrightarrow> fs_open (fl_stream f) \<and> ios_out \<in> fs_flags (fl_stream f)"

text \<open>The only path an operation touches is the file's own.\<close>

definition same_elsewhere :: "path \<Rightarrow> disk \<Rightarrow> disk \<Rightarrow> bool" where
  "same_elsewhere p d d' \<longleftrightarrow> (\<forall>q. q \<noteq> p \<longrightarrow> d' q = d q)"

text \<open>
  The device takes the write the stream has buffered, and the writes a call makes. An offset is
  below \<^verbatim>\<open>2^63\<close> here, since a larger one never reaches the device.
\<close>

definition buffered_accepted :: "device \<Rightarrow> file_state \<Rightarrow> bool" where
  "buffered_accepted dev f \<longleftrightarrow>
     (case fs_pending (fl_stream f) of
        None \<Rightarrow> True | Some (off, data) \<Rightarrow> dv_accepts dev (fl_path f) off data)"

fun write_accepted :: "device \<Rightarrow> path \<Rightarrow> file_op \<Rightarrow> bool" where
  "write_accepted dev p (Write_at off data) \<longleftrightarrow> sint off < 0 \<or> dv_accepts dev p (unat off) data"
| "write_accepted dev p (Read_at off n) \<longleftrightarrow> True"
| "write_accepted dev p Sync_data \<longleftrightarrow> True"

lemma buffered_accepted_iff:
  "buffered_accepted dev f \<longleftrightarrow>
     (\<forall>off data. fs_pending (fl_stream f) = Some (off, data) \<longrightarrow> dv_accepts dev (fl_path f) off data)"
  by (auto simp: buffered_accepted_def split: option.splits)

lemma stream_sync_view:
  assumes "buffered_accepted dev f"
    and "stream_sync dev (fl_path f) (fl_stream f) d = (b, st, d')"
  shows "b" and "st = (fl_stream f)\<lparr>fs_pending := None\<rparr>" and "contents (fl_path f) d' = view f d"
    and "same_elsewhere (fl_path f) d d'"
  using assms by (auto simp: stream_sync_def view_def contents_def same_elsewhere_def
      buffered_accepted_iff split: option.splits)

lemma stream_seek_view:
  assumes "buffered_accepted dev f"
    and "stream_seek dev (fl_path f) off (fl_stream f) d = (st, d')"
  shows "sint off < 0 \<Longrightarrow> st = (fl_stream f)\<lparr>fs_failed := True\<rparr> \<and> d' = d"
    and "\<not> sint off < 0 \<Longrightarrow> st = (fl_stream f)\<lparr>fs_failed := False, fs_pending := None\<rparr> \<and>
      contents (fl_path f) d' = view f d \<and> same_elsewhere (fl_path f) d d'"
proof -
  show "sint off < 0 \<Longrightarrow> st = (fl_stream f)\<lparr>fs_failed := True\<rparr> \<and> d' = d"
    using assms(2) by (auto simp: stream_seek_def)
  let ?f = "f\<lparr>fl_stream := (fl_stream f)\<lparr>fs_failed := False\<rparr>\<rparr>"
  have v: "view ?f d = view f d" by (simp add: view_def)
  obtain b st1 d1 where s: "stream_sync dev (fl_path ?f) (fl_stream ?f) d = (b, st1, d1)"
    by (metis prod_cases3)
  have "buffered_accepted dev ?f" using assms(1) by (auto simp: buffered_accepted_iff split: option.splits)
  note l = stream_sync_view [OF this s, unfolded v]
  show "\<not> sint off < 0 \<Longrightarrow> st = (fl_stream f)\<lparr>fs_failed := False, fs_pending := None\<rparr> \<and>
      contents (fl_path f) d' = view f d \<and> same_elsewhere (fl_path f) d d'"
    using assms(2) s l by (simp add: stream_seek_def)
qed

lemma same_elsewhere_trans:
  "\<lbrakk>same_elsewhere p d d1; same_elsewhere p d1 d2\<rbrakk> \<Longrightarrow> same_elsewhere p d d2"
  "same_elsewhere p d d" "same_elsewhere p d (d(p \<mapsto> bs))"
  by (simp_all add: same_elsewhere_def)

lemma stream_write_view:
  assumes "dv_accepts dev p off data" and "\<not> fs_failed st" and "fs_pending st = None"
    and "ios_out \<in> fs_flags st" and "stream_write dev p off data st d = (st', d')"
  shows "\<not> fs_failed st' \<and> fs_open st' = fs_open st \<and> fs_flags st' = fs_flags st \<and>
    same_elsewhere p d d' \<and> buffered_accepted dev \<lparr>fl_path = p, fl_stream = st'\<rparr> \<and>
    view \<lparr>fl_path = p, fl_stream = st'\<rparr> d' =
      (if data = [] then contents p d else write_bytes off data (contents p d))"
  using assms
  by (auto simp: stream_write_def stream_sync_def view_def same_elsewhere_trans contents_def Let_def
      buffered_accepted_iff split: if_splits)

lemma file_step_refines:
  assumes acc: "buffered_accepted dev f" "write_accepted dev (fl_path f) op" and w: "writable f"
    and step: "file_step dev op (Some f) d = (r, state, d')"
  shows "\<exists>f'. state = Some f' \<and> writable f' \<and> fl_path f' = fl_path f \<and> buffered_accepted dev f' \<and>
    spec_step op (view f d) = (r, view f' d') \<and> same_elsewhere (fl_path f) d d'"
proof (cases op)
  case (Write_at off data)
  obtain st1 d1 where seek: "stream_seek dev (fl_path f) off (fl_stream f) d = (st1, d1)"
    by fastforce
  obtain st2 d2 where wr: "stream_write dev (fl_path f) (unat off) data st1 d1 = (st2, d2)"
    by fastforce
  note sk = stream_seek_view [OF acc(1) seek]
  have res: "r = Wrote (if fs_failed st2 then Inl (make_error_diagnostic backend_failure
      ''file write failed'') else Inr (length data))" "state = Some (f\<lparr>fl_stream := st2\<rparr>)" "d' = d2"
    using step w seek wr by (auto simp: Write_at write_at_state_def writable_def)
  show ?thesis
  proof (cases "sint off < 0")
    case True
    then have "st2 = (fl_stream f)\<lparr>fs_failed := True\<rparr>" "d2 = d"
      using sk(1) wr by (auto simp: stream_write_def)
    then show ?thesis
      using res w True acc(1)
      by (auto simp: Write_at writable_def view_def same_elsewhere_def buffered_accepted_iff
          split: option.splits)
  next
    case False
    then have st1: "\<not> fs_failed st1" "fs_pending st1 = None" "ios_out \<in> fs_flags st1" "fs_open st1"
      and d1: "contents (fl_path f) d1 = view f d" "same_elsewhere (fl_path f) d d1"
      using sk(2) w by (auto simp: writable_def)
    have "view (f\<lparr>fl_stream := st2\<rparr>) d2 = view \<lparr>fl_path = fl_path f, fl_stream = st2\<rparr> d2"
      by (simp add: view_def)
    moreover have "buffered_accepted dev (f\<lparr>fl_stream := st2\<rparr>) =
        buffered_accepted dev \<lparr>fl_path = fl_path f, fl_stream = st2\<rparr>"
      by (auto simp: buffered_accepted_iff split: option.splits)
    moreover have "dv_accepts dev (fl_path f) (unat off) data" using acc(2) False by (simp add: Write_at)
    ultimately show ?thesis
      using stream_write_view [OF _ st1(1-3) wr] st1(3,4) d1 res False same_elsewhere_trans(1)
      by (auto simp: Write_at writable_def)
  qed
next
  case (Read_at off n)
  obtain st1 d1 where seek: "stream_seek dev (fl_path f) off (fl_stream f) d = (st1, d1)"
    by fastforce
  obtain buf st2 where rd: "stream_read (fl_path f) (unat off) n st1 d1 = (buf, st2)" by fastforce
  have res: "r = Got (Inr buf)" "state = Some (f\<lparr>fl_stream := st2\<rparr>)" "d' = d1"
    using step w seek rd by (auto simp: Read_at read_at_state_def writable_def)
  show ?thesis
    using stream_seek_view [OF acc(1) seek] rd res w acc(1)
    by (cases "sint off < 0")
      (auto simp: Read_at stream_read_def Let_def writable_def view_def same_elsewhere_def
        buffered_accepted_iff split: if_splits)
next
  case Sync_data
  obtain b st1 d1 where s: "stream_sync dev (fl_path f) (fl_stream f) d = (b, st1, d1)"
    by (metis prod_cases3)
  note l = stream_sync_view [OF acc(1) s]
  show ?thesis
    using step w s l
    by (auto simp: Sync_data sync_data_state_def stream_flush_def writable_def view_def
        buffered_accepted_iff)
qed

lemma file_steps_refines:
  assumes "buffered_accepted dev f" and "\<forall>op \<in> set ops. write_accepted dev (fl_path f) op"
    and "writable f" and "file_steps dev ops (Some f) d = (rs, state, d')"
  shows "\<exists>f'. state = Some f' \<and> writable f' \<and> fl_path f' = fl_path f \<and> buffered_accepted dev f' \<and>
    spec_steps ops (view f d) = (rs, view f' d') \<and> same_elsewhere (fl_path f) d d'"
  using assms
proof (induction ops arbitrary: f d rs)
  case Nil
  then show ?case by (auto simp: same_elsewhere_def)
next
  case (Cons op ops)
  obtain r state1 d1 where st: "file_step dev op (Some f) d = (r, state1, d1)" by (metis prod_cases3)
  obtain rs1 where rs: "file_steps dev ops state1 d1 = (rs1, state, d')" "rs = r # rs1"
    using Cons.prems(4) st by (auto split: prod.splits)
  have "write_accepted dev (fl_path f) op" using Cons.prems(2) by simp
  from file_step_refines [OF Cons.prems(1) this Cons.prems(3) st] obtain f1
    where f1: "state1 = Some f1" "writable f1" "fl_path f1 = fl_path f" "buffered_accepted dev f1"
      "spec_step op (view f d) = (r, view f1 d1)" "same_elsewhere (fl_path f) d d1" by blast
  have "\<forall>op \<in> set ops. write_accepted dev (fl_path f1) op" using Cons.prems(2) f1(3) by simp
  from Cons.IH [OF f1(4) this f1(2) rs(1) [unfolded f1(1)]] obtain f'
    where "state = Some f'" "writable f'" "fl_path f' = fl_path f1" "buffered_accepted dev f'"
      "spec_steps ops (view f1 d1) = (rs1, view f' d')" "same_elsewhere (fl_path f1) d1 d'" by blast
  then show ?case using f1 rs(2) same_elsewhere_trans(1) by (auto split: prod.splits)
qed

lemma read_back:
  "take (length data) (drop off (write_bytes off data bytes)) = data"
  by (simp add: write_bytes_def)

lemma file_open_view:
  assumes "file_open dev p mode d = (Inr (Some f), d1)"
  shows "fl_path f = p" and "fs_open (fl_stream f)" and "buffered_accepted dev f"
    and "writable f \<longleftrightarrow> mode \<noteq> Read_mode"
    and "view f d1 = (if mode = Write_mode then [] else contents p d)" and "same_elsewhere p d d1"
  using assms by (cases mode; auto simp: file_open_def stream_open_def Let_def writable_def view_def
      contents_def same_elsewhere_def buffered_accepted_iff split: if_splits)+

section \<open>Theorems\<close>

text \<open>
  C38. A file opened for writing is an array of bytes, for the operations \<^verbatim>\<open>write_at\<close>, \<^verbatim>\<open>read_at\<close> and
  \<^verbatim>\<open>sync_data\<close>: in any sequence of these calls whose writes the device accepts when the stream
  hands them over, each call returns what the array specification returns, whatever the stream
  buffers or spills; closing leaves exactly the array's bytes on disk; no other file changes; and
  every later call answers \<^verbatim>\<open>closed\<close>. Writes the device refuses (\<open>sync_data_hides_failure\<close>) and
  \<^verbatim>\<open>truncate\<close> or \<^verbatim>\<open>allocate\<close> beside a buffered write (\<open>truncate_ignores_buffered_write\<close>) are outside of it.
\<close>

theorem file_refines_bytes:
  assumes "\<forall>op \<in> set ops. write_accepted dev p op" and "mode \<noteq> Read_mode"
    and "file_open dev p mode d = (Inr state, d1)"
    and "file_steps dev ops state d1 = (rs, state2, d2)"
    and "close_state dev state2 d2 = (r, state3, d3)"
  shows "\<exists>bytes. spec_steps ops (if mode = Write_mode then [] else contents p d) = (rs, bytes) \<and>
    contents p d3 = bytes \<and> same_elsewhere p d d3 \<and> r = Inr () \<and> \<not> is_open_state state3 \<and>
    file_step dev (Read_at off n) state3 d3 = (Got (Inl (make_error closed None [])), state3, d3) \<and>
    file_step dev (Write_at off data) state3 d3 = (Wrote (Inl (make_error closed None [])), state3, d3)"
proof -
  obtain f where f: "state = Some f"
    using assms(3) by (auto simp: file_open_def split: prod.splits if_splits)
  note op = file_open_view [OF assms(3) [unfolded f]]
  have acc: "\<forall>op \<in> set ops. write_accepted dev (fl_path f) op" using assms(1) op(1) by simp
  have "writable f" using op(4) assms(2) by simp
  from file_steps_refines [OF op(3) acc this assms(4) [unfolded f]] obtain f'
    where f': "state2 = Some f'" "writable f'" "fl_path f' = p" "buffered_accepted dev f'"
      "spec_steps ops (view f d1) = (rs, view f' d2)" "same_elsewhere p d1 d2"
    using op(1) by auto
  obtain b st d3' where s: "stream_sync dev (fl_path f') (fl_stream f') d2 = (b, st, d3')"
    by (metis prod_cases3)
  note l = stream_sync_view [OF f'(4) s]
  have "d3 = d3'" "r = Inr ()" and st3: "\<exists>f3. state3 = Some f3 \<and> \<not> fs_open (fl_stream f3)"
    using assms(5) f'(1,2) s by (auto simp: close_state_def writable_def stream_close_def)
  moreover have "same_elsewhere p d d3'"
    using op(6) f'(3,6) l(4) same_elsewhere_trans(1) by metis
  ultimately show ?thesis
    using f' l(3) op(5)
    by (auto simp: is_open_state_def read_at_state_def write_at_state_def)
qed

text \<open>A device that accepts everything and spills nothing.\<close>

definition plain_device :: device where
  "plain_device = \<lparr>dv_accepts = \<lambda>p off data. True, dv_spills = \<lambda>data. False,
     dv_openable = \<lambda>p. True, dv_resizable = \<lambda>p n. True, dv_error = \<lambda>p. (2, [])\<rparr>"

theorem file_refines_bytes_witness:
  "\<exists>state state2 state3 d1 d2 d3. file_open plain_device ''f'' Write_mode Map.empty = (Inr state, d1) \<and>
     file_steps plain_device [Write_at 1 [7, 8], Read_at 0 4] state d1 =
       ([Wrote (Inr 2), Got (Inr [0, 7, 8])], state2, d2) \<and>
     close_state plain_device state2 d2 = (Inr (), state3, d3) \<and> contents ''f'' d3 = [0, 7, 8]"
proof -
  obtain state d1 where o: "file_open plain_device ''f'' Write_mode Map.empty = (Inr state, d1)"
    by (simp add: file_open_def stream_open_def plain_device_def Let_def)
  obtain rs state2 d2 where s: "file_steps plain_device [Write_at 1 [7, 8], Read_at 0 4] state d1 =
      (rs, state2, d2)" by (metis prod_cases3)
  obtain r state3 d3 where c: "close_state plain_device state2 d2 = (r, state3, d3)"
    by (metis prod_cases3)
  have "\<forall>op \<in> set [Write_at 1 [7, 8], Read_at 0 4]. write_accepted plain_device ''f'' op"
    by (simp add: plain_device_def)
  from file_refines_bytes [OF this _ o s c, where off = 0 and n = 0 and data = "[]"]
  have "rs = [Wrote (Inr 2), Got (Inr [0, 7, 8])]"
    "contents ''f'' d3 = [0, 7, 8]" "r = Inr ()"
    by (auto simp: write_bytes_def numeral_2_eq_2)
  then show ?thesis using o s c by blast
qed

text \<open>
  Writing and reading back: after a successful \<^verbatim>\<open>write_at\<close> of some data, \<^verbatim>\<open>read_at\<close> of the same
  range returns exactly the data, before and after a flush; an offset with the top bit set, which
  is negative as a \<^verbatim>\<open>streamoff\<close>, makes the write fail and changes nothing.
\<close>

theorem file_write_read_roundtrip:
  assumes "buffered_accepted dev f" and "dv_accepts dev (fl_path f) (unat off) data"
    and "writable f" and "data \<noteq> []"
  shows "(unat off < 2 ^ 63 \<longrightarrow>
      (\<exists>s. file_steps dev [Write_at off data, Read_at off (length data), Sync_data,
             Read_at off (length data)] (Some f) d =
         ([Wrote (Inr (length data)), Got (Inr data), Synced (Inr ()), Got (Inr data)], s))) \<and>
    (2 ^ 63 \<le> unat off \<longrightarrow>
      (\<exists>e f' d'. write_at_state dev off data (Some f) d = (Inl e, Some f', d') \<and>
         classification e = backend_failure \<and> view f' d' = view f d))"
proof -
  let ?ops = "[Write_at off data, Read_at off (length data), Sync_data, Read_at off (length data)]"
  obtain rs state d1 where s: "file_steps dev ?ops (Some f) d = (rs, state, d1)" by (metis prod_cases3)
  obtain f1 where "spec_steps ?ops (view f d) = (rs, view f1 d1)"
    using file_steps_refines [OF assms(1) _ assms(3) s] assms(2) by auto
  then have "\<not> sint off < 0 \<Longrightarrow>
      rs = [Wrote (Inr (length data)), Got (Inr data), Synced (Inr ()), Got (Inr data)]"
    using assms(4) by (simp add: read_back)
  moreover obtain r state2 d2 where w: "file_step dev (Write_at off data) (Some f) d = (r, state2, d2)"
    by (metis prod_cases3)
  moreover obtain f2 where "state2 = Some f2" "spec_step (Write_at off data) (view f d) = (r, view f2 d2)"
    using file_step_refines [OF assms(1) _ assms(3) w] assms(2) by auto
  ultimately show ?thesis
    using s by (auto simp: sint_neg_iff not_le split: prod.splits if_splits)
qed

theorem file_write_read_roundtrip_witness:
  "\<exists>s. file_steps plain_device [Write_at 3 [9], Read_at 3 1, Sync_data, Read_at 3 1]
     (Some \<lparr>fl_path = ''f'', fl_stream = \<lparr>fs_open = True, fs_flags = to_openmode Write_mode,
        fs_failed = False, fs_pending = None\<rparr>\<rparr>) Map.empty =
     ([Wrote (Inr 1), Got (Inr [9]), Synced (Inr ()), Got (Inr [9])], s)"
proof -
  let ?f = "\<lparr>fl_path = ''f'', fl_stream = \<lparr>fs_open = True, fs_flags = to_openmode Write_mode,
        fs_failed = False, fs_pending = None\<rparr>\<rparr>"
  have "buffered_accepted plain_device ?f" "dv_accepts plain_device (fl_path ?f) (unat (3 :: uint64)) [9]"
    "writable ?f"
    by (simp_all add: plain_device_def writable_def buffered_accepted_iff)
  from file_write_read_roundtrip [OF this, of Map.empty] show ?thesis by simp
qed

text \<open>
  Two consequences of the buffering that the operations do not account for. \<^verbatim>\<open>truncate\<close> resizes the
  file by its path while a write may still be buffered in the stream: a file truncated to nothing
  has the written bytes again once the stream is flushed. \<^verbatim>\<open>sync_data\<close> and \<^verbatim>\<open>close\<close> report success
  although the flush failed and the write is lost.
\<close>

theorem truncate_ignores_buffered_write:
  "\<exists>f f1 f2 d1 d2 d3 d4. file_open plain_device ''f'' Write_mode Map.empty = (Inr f, d1) \<and>
     write_at_state plain_device 0 [7] f d1 = (Inr 1, f1, d2) \<and>
     truncate_state plain_device 0 f1 d2 = (Inr (), d3) \<and>
     sync_data_state plain_device f1 d3 = (Inr (), f2, d4) \<and> d4 ''f'' = Some [7]"
  by (simp add: file_open_def stream_open_def plain_device_def write_at_state_def stream_seek_def
      stream_sync_def stream_write_def truncate_state_def resize_path_def state_path_def
      sync_data_state_def stream_flush_def write_bytes_def contents_def Let_def)

theorem sync_data_hides_failure:
  assumes "dev = plain_device\<lparr>dv_accepts := \<lambda>p off data. False\<rparr>"
  shows "\<exists>f f1 f2 f3 d1 d2 d3 d4. file_open dev ''f'' Write_mode Map.empty = (Inr f, d1) \<and>
     write_at_state dev 0 [7] f d1 = (Inr 1, f1, d2) \<and>
     sync_data_state dev f1 d2 = (Inr (), f2, d3) \<and> close_state dev f2 d3 = (Inr (), f3, d4) \<and>
     d4 ''f'' = Some []"
  by (simp add: assms file_open_def stream_open_def plain_device_def write_at_state_def
      stream_seek_def stream_sync_def stream_write_def sync_data_state_def stream_flush_def
      close_state_def stream_close_def Let_def)

end
