(* ===== verification/Owners.thy ===== *)
theory Owners
  imports Prelude
begin

text \<open>
  Objects that own a resource through a pointer, as \<^verbatim>\<open>unique_ptr\<close>, moved file objects and
  registrations do: the pointers are a function from objects to the resource they point to,
  if any. The lemmas say what moving, dropping and acquiring do to ownership; the theories of
  the classes apply them to their own members.
\<close>

definition single_owner :: "('o \<Rightarrow> 'p option) \<Rightarrow> bool" where
  "single_owner f \<longleftrightarrow> (\<forall>x y p. f x = Some p \<and> f y = Some p \<longrightarrow> x = y)"

definition has_owner :: "('o \<Rightarrow> 'p option) \<Rightarrow> 'p \<Rightarrow> bool" where
  "has_owner f p \<longleftrightarrow> (\<exists>x. f x = Some p)"

lemma single_ownerD: "\<lbrakk>single_owner f; f x = Some p; f y = Some p\<rbrakk> \<Longrightarrow> x = y"
  by (simp add: single_owner_def)

lemma has_ownerI: "f x = Some p \<Longrightarrow> has_owner f p"
  by (auto simp: has_owner_def)

lemma unique_owner: "\<lbrakk>single_owner f; has_owner f p\<rbrakk> \<Longrightarrow> \<exists>!x. f x = Some p"
  by (auto simp: single_owner_def has_owner_def)

lemma no_owners [simp]: "single_owner (\<lambda>x. None)" "\<not> has_owner (\<lambda>x. None) p"
  by (simp_all add: single_owner_def has_owner_def)

text \<open>A move from \<open>y\<close> to an object \<open>x\<close> that points nowhere.\<close>

lemma single_owner_move:
  assumes "single_owner f"
  shows "single_owner (f(x := f y, y := None))"
  unfolding single_owner_def using single_ownerD [OF assms] by (simp split: if_splits) metis

lemma has_owner_move:
  assumes "f x = None" and "x \<noteq> y"
  shows "has_owner (f(x := f y, y := None)) p \<longleftrightarrow> has_owner f p"
proof
  assume "has_owner f p"
  then obtain z where "f z = Some p" by (auto simp: has_owner_def)
  then show "has_owner (f(x := f y, y := None)) p"
    using assms by (intro has_ownerI [of _ "if z = y then x else z"]) auto
qed (auto simp: has_owner_def split: if_splits)

text \<open>An object lets go of what it points to.\<close>

lemma single_owner_drop: "single_owner f \<Longrightarrow> single_owner (f(x := None))"
  by (auto simp: single_owner_def)

lemma has_owner_drop:
  assumes "single_owner f"
  shows "has_owner (f(x := None)) p \<longleftrightarrow> has_owner f p \<and> f x \<noteq> Some p"
proof
  assume "has_owner (f(x := None)) p"
  then obtain z where "z \<noteq> x" "f z = Some p" by (auto simp: has_owner_def split: if_splits)
  then show "has_owner f p \<and> f x \<noteq> Some p"
    using single_ownerD [OF assms] has_ownerI by metis
next
  assume "has_owner f p \<and> f x \<noteq> Some p"
  then obtain z where "f z = Some p" "f x \<noteq> Some p" by (auto simp: has_owner_def)
  then show "has_owner (f(x := None)) p" by (intro has_ownerI [of _ z]) auto
qed

text \<open>A new resource.\<close>

lemma single_owner_new:
  "\<lbrakk>single_owner f; \<not> has_owner f a\<rbrakk> \<Longrightarrow> single_owner (f(x := Some a))"
  by (auto simp: single_owner_def has_owner_def)

lemma has_owner_new: "f x = None \<Longrightarrow> has_owner (f(x := Some a)) p \<longleftrightarrow> p = a \<or> has_owner f p"
  by (auto simp: has_owner_def) (metis option.distinct(1))

lemmas owner_moves = single_owner_move has_owner_move
lemmas owner_drops = single_owner_drop has_owner_drop
lemmas owner_news = single_owner_new has_owner_new

end
