(* ===== verification/File_Objects.thy ===== *)
theory File_Objects
  imports Vio_File Owners
begin

text \<open>
  The objects of class \<^verbatim>\<open>file\<close> in \<^verbatim>\<open>src/file.cpp\<close>: a file object is a pointer to a shared state, moved
  from object to object, and closed by the destructor and by move assignment; an asynchronous
  operation copies the pointer into the closure it submits, which may run after the object was
  moved from, closed or destroyed. Objects, shared states and the pointers captured by closures
  are stores, so that sharing is explicit; a shared state exists as long as a pointer does, which
  is why none is removed.
\<close>

section \<open>Objects and states\<close>

record file_world =
  fw_states :: "nat \<rightharpoonup> file_state"
  fw_objs :: "nat \<rightharpoonup> nat option"
  fw_captured :: "nat \<rightharpoonup> nat option"
  fw_disk :: disk

definition fw_init :: "disk \<Rightarrow> file_world" where
  "fw_init d = \<lparr>fw_states = Map.empty, fw_objs = Map.empty, fw_captured = Map.empty, fw_disk = d\<rparr>"

definition state_pointer :: "nat \<Rightarrow> file_world \<Rightarrow> nat option" where
  "state_pointer x w = (case fw_objs w x of None \<Rightarrow> None | Some p \<Rightarrow> p)"

definition deref :: "nat option \<Rightarrow> file_world \<Rightarrow> file_state option" where
  "deref ptr w = (case ptr of None \<Rightarrow> None | Some s \<Rightarrow> fw_states w s)"

text \<open>A function of a shared state, run through a pointer to it.\<close>

definition on_state ::
  "(file_state option \<Rightarrow> disk \<Rightarrow> 'r \<times> file_state option \<times> disk) \<Rightarrow> nat option \<Rightarrow> file_world \<Rightarrow>
     'r \<times> file_world" where
  "on_state f ptr w =
     (case f (deref ptr w) (fw_disk w) of
        (r, st, d) \<Rightarrow>
          (r, case ptr of
                None \<Rightarrow> w\<lparr>fw_disk := d\<rparr>
              | Some s \<Rightarrow> w\<lparr>fw_states := (fw_states w)(s := st), fw_disk := d\<rparr>))"

section \<open>Operations of file objects\<close>

definition file_construct :: "nat \<Rightarrow> nat option \<Rightarrow> file_world \<Rightarrow> file_world" where
  "file_construct x ptr w = w\<lparr>fw_objs := (fw_objs w)(x \<mapsto> ptr)\<rparr>"

definition file_close :: "device \<Rightarrow> nat \<Rightarrow> file_world \<Rightarrow> void_result \<times> file_world" where
  "file_close dev x w = on_state (close_state dev) (state_pointer x w) w"

definition file_destructor :: "device \<Rightarrow> nat \<Rightarrow> file_world \<Rightarrow> file_world" where
  "file_destructor dev x w =
     (let w1 = snd (file_close dev x w) in w1\<lparr>fw_objs := (fw_objs w1)(x := None)\<rparr>)"

definition file_move_construct :: "nat \<Rightarrow> nat \<Rightarrow> file_world \<Rightarrow> file_world" where
  "file_move_construct x other w =
     (let p = state_pointer other w in file_construct x p (file_construct other None w))"

definition file_object_move_assign :: "device \<Rightarrow> nat \<Rightarrow> nat \<Rightarrow> file_world \<Rightarrow> file_world" where
  "file_object_move_assign dev x other w =
     (if x \<noteq> other
      then (let w1 = snd (file_close dev x w); p = state_pointer other w1
            in file_construct x p (file_construct other None w1))
      else w)"

text \<open>\<^verbatim>\<open>open\<close>, whose result is a new object \<open>x\<close> with a new state \<open>s\<close>.\<close>

definition file_open_object ::
  "device \<Rightarrow> nat \<Rightarrow> nat \<Rightarrow> path \<Rightarrow> file_open_mode \<Rightarrow> file_world \<Rightarrow> unit io_result \<times> file_world" where
  "file_open_object dev x s p mode w =
     (case file_open dev p mode (fw_disk w) of
        (Inl e, d) \<Rightarrow> (Inl e, w\<lparr>fw_disk := d\<rparr>)
      | (Inr st, d) \<Rightarrow>
          (Inr (), file_construct x (Some s) (w\<lparr>fw_states := (fw_states w)(s := st), fw_disk := d\<rparr>)))"

definition file_is_open :: "nat \<Rightarrow> file_world \<Rightarrow> bool" where
  "file_is_open x w = is_open_state (deref (state_pointer x w) w)"

definition file_read_at ::
  "device \<Rightarrow> nat \<Rightarrow> uint64 \<Rightarrow> nat \<Rightarrow> file_world \<Rightarrow> byte list io_result \<times> file_world" where
  "file_read_at dev x off read_size w = on_state (read_at_state dev off read_size) (state_pointer x w) w"

definition file_write_at ::
  "device \<Rightarrow> nat \<Rightarrow> uint64 \<Rightarrow> byte list \<Rightarrow> file_world \<Rightarrow> nat io_result \<times> file_world" where
  "file_write_at dev x off data w = on_state (write_at_state dev off data) (state_pointer x w) w"

definition file_size :: "device \<Rightarrow> nat \<Rightarrow> file_world \<Rightarrow> uint64 io_result" where
  "file_size dev x w = size_state dev (deref (state_pointer x w) w) (fw_disk w)"

definition file_truncate :: "device \<Rightarrow> nat \<Rightarrow> uint64 \<Rightarrow> file_world \<Rightarrow> void_result \<times> file_world" where
  "file_truncate dev x new_size w =
     (case truncate_state dev new_size (deref (state_pointer x w) w) (fw_disk w) of
        (r, d) \<Rightarrow> (r, w\<lparr>fw_disk := d\<rparr>))"

definition file_allocate :: "device \<Rightarrow> nat \<Rightarrow> uint64 \<Rightarrow> file_world \<Rightarrow> void_result \<times> file_world" where
  "file_allocate dev x allocation_size w =
     (case allocate_state dev allocation_size (deref (state_pointer x w) w) (fw_disk w) of
        (r, d) \<Rightarrow> (r, w\<lparr>fw_disk := d\<rparr>))"

definition file_sync_data :: "device \<Rightarrow> nat \<Rightarrow> file_world \<Rightarrow> void_result \<times> file_world" where
  "file_sync_data dev x w = on_state (sync_data_state dev) (state_pointer x w) w"

section \<open>Programs\<close>

text \<open>
  What a closure submitted by an asynchronous operation does to the state it captured. The
  closure of \<^verbatim>\<open>async_open\<close> captures none and is an \<open>Open_file\<close> of the program.
\<close>

datatype captured_work = Work_close | Work_read uint64 nat | Work_write uint64 "byte list"

datatype work_result = Closed_result void_result | Read_result "byte list io_result" | Write_result "nat io_result"

fun captured_effect ::
  "device \<Rightarrow> captured_work \<Rightarrow> file_state option \<Rightarrow> disk \<Rightarrow> work_result \<times> file_state option \<times> disk" where
  "captured_effect dev Work_close st d = map_prod Closed_result id (close_state dev st d)"
| "captured_effect dev (Work_read off n) st d = map_prod Read_result id (read_at_state dev off n st d)"
| "captured_effect dev (Work_write off data) st d = map_prod Write_result id (write_at_state dev off data st d)"

definition run_captured :: "device \<Rightarrow> captured_work \<Rightarrow> nat option \<Rightarrow> file_world \<Rightarrow> work_result \<times> file_world" where
  "run_captured dev work ptr w = on_state (captured_effect dev work) ptr w"

datatype file_object_op =
    Default_file nat
  | Open_file nat nat path file_open_mode
  | Move_file nat nat
  | Assign_file nat nat
  | Destroy_file nat
  | Close_file nat
  | Read_file nat uint64 nat
  | Write_file nat uint64 "byte list"
  | Truncate_file nat uint64
  | Allocate_file nat uint64
  | Sync_file nat
  | Capture nat nat
  | Run_captured nat captured_work

text \<open>The lifetimes the language guarantees; an operation that is not admitted is not taken.\<close>

fun fop_allowed :: "file_object_op \<Rightarrow> file_world \<Rightarrow> bool" where
  "fop_allowed (Default_file x) w \<longleftrightarrow> fw_objs w x = None"
| "fop_allowed (Open_file x s p mode) w \<longleftrightarrow> fw_objs w x = None \<and> fw_states w s = None"
| "fop_allowed (Move_file x y) w \<longleftrightarrow> fw_objs w x = None \<and> fw_objs w y \<noteq> None"
| "fop_allowed (Assign_file x y) w \<longleftrightarrow> fw_objs w x \<noteq> None \<and> fw_objs w y \<noteq> None"
| "fop_allowed (Destroy_file x) w \<longleftrightarrow> fw_objs w x \<noteq> None"
| "fop_allowed (Close_file x) w \<longleftrightarrow> fw_objs w x \<noteq> None"
| "fop_allowed (Read_file x off n) w \<longleftrightarrow> fw_objs w x \<noteq> None"
| "fop_allowed (Write_file x off data) w \<longleftrightarrow> fw_objs w x \<noteq> None"
| "fop_allowed (Truncate_file x n) w \<longleftrightarrow> fw_objs w x \<noteq> None"
| "fop_allowed (Allocate_file x n) w \<longleftrightarrow> fw_objs w x \<noteq> None"
| "fop_allowed (Sync_file x) w \<longleftrightarrow> fw_objs w x \<noteq> None"
| "fop_allowed (Capture x c) w \<longleftrightarrow> fw_objs w x \<noteq> None \<and> fw_captured w c = None"
| "fop_allowed (Run_captured c k) w \<longleftrightarrow> fw_captured w c \<noteq> None"

fun fop_step :: "device \<Rightarrow> file_object_op \<Rightarrow> file_world \<Rightarrow> file_world" where
  "fop_step dev (Default_file x) w = file_construct x None w"
| "fop_step dev (Open_file x s p mode) w = snd (file_open_object dev x s p mode w)"
| "fop_step dev (Move_file x y) w = file_move_construct x y w"
| "fop_step dev (Assign_file x y) w = file_object_move_assign dev x y w"
| "fop_step dev (Destroy_file x) w = file_destructor dev x w"
| "fop_step dev (Close_file x) w = snd (file_close dev x w)"
| "fop_step dev (Read_file x off n) w = snd (file_read_at dev x off n w)"
| "fop_step dev (Write_file x off data) w = snd (file_write_at dev x off data w)"
| "fop_step dev (Truncate_file x n) w = snd (file_truncate dev x n w)"
| "fop_step dev (Allocate_file x n) w = snd (file_allocate dev x n w)"
| "fop_step dev (Sync_file x) w = snd (file_sync_data dev x w)"
| "fop_step dev (Capture x c) w = w\<lparr>fw_captured := (fw_captured w)(c \<mapsto> state_pointer x w)\<rparr>"
| "fop_step dev (Run_captured c k) w = snd (run_captured dev k (the (fw_captured w c)) w)"

definition fop_run :: "device \<Rightarrow> file_object_op list \<Rightarrow> file_world \<Rightarrow> file_world" where
  "fop_run dev ops w = fold (\<lambda>op w. if fop_allowed op w then fop_step dev op w else w) ops w"

section \<open>Open streams have an owner\<close>

definition stream_open_at :: "file_world \<Rightarrow> nat \<Rightarrow> bool" where
  "stream_open_at w s \<longleftrightarrow> is_open_state (fw_states w s)"

definition closed_clean :: "file_state option \<Rightarrow> bool" where
  "closed_clean st = (case st of None \<Rightarrow> True | Some f \<Rightarrow> fs_open (fl_stream f) \<or> fs_pending (fl_stream f) = None)"

abbreviation pointers :: "file_world \<Rightarrow> nat \<Rightarrow> nat option" where
  "pointers w \<equiv> \<lambda>x. state_pointer x w"

definition fw_inv :: "file_world \<Rightarrow> bool" where
  "fw_inv w \<longleftrightarrow> single_owner (pointers w) \<and>
     (\<forall>s. stream_open_at w s \<longrightarrow> has_owner (pointers w) s) \<and>
     (\<forall>s. has_owner (pointers w) s \<longrightarrow> fw_states w s \<noteq> None) \<and>
     (\<forall>s. closed_clean (fw_states w s))"

text \<open>What every function of a shared state keeps: it opens nothing.\<close>

definition state_law :: "(file_state option \<Rightarrow> disk \<Rightarrow> 'r \<times> file_state option \<times> disk) \<Rightarrow> bool" where
  "state_law f \<longleftrightarrow> (\<forall>st d r st' d'. f st d = (r, st', d') \<longrightarrow>
     (st' = None \<longleftrightarrow> st = None) \<and> (is_open_state st' \<longrightarrow> is_open_state st) \<and>
     (closed_clean st \<longrightarrow> closed_clean st') \<and> (\<not> is_open_state st \<longrightarrow> st' = st \<and> d' = d))"

lemma stream_ops_keep:
  "stream_seek dev p off st d = (st', d') \<Longrightarrow> fs_open st' = fs_open st"
  "stream_read p n k st d = (bs, st') \<Longrightarrow> fs_open st' = fs_open st"
  "stream_write dev p n data st d = (st', d') \<Longrightarrow> fs_open st' = fs_open st"
  "stream_flush dev p st d = (st', d') \<Longrightarrow> fs_open st' = fs_open st"
  "stream_close dev p st d = (st', d') \<Longrightarrow> \<not> fs_open st' \<and> fs_pending st' = None"
  by (auto simp: stream_seek_def stream_read_def stream_write_def stream_flush_def stream_close_def
      stream_sync_def Let_def split: if_splits option.splits prod.splits)

lemma state_laws:
  "state_law (close_state dev)" "state_law (read_at_state dev off n)"
  "state_law (write_at_state dev off data)" "state_law (sync_data_state dev)"
  unfolding state_law_def close_state_def read_at_state_def write_at_state_def sync_data_state_def
  by (auto simp: is_open_state_def closed_clean_def stream_ops_keep
      split: option.splits prod.splits if_splits dest: stream_ops_keep)

lemma state_law_captured: "state_law (captured_effect dev k)"
  using state_laws [of dev]
  by (cases k) (simp_all add: state_law_def map_prod_def split: prod.splits)

lemma fw_invD:
  assumes "fw_inv w"
  shows "single_owner (pointers w)"
    and "stream_open_at w s \<Longrightarrow> has_owner (pointers w) s"
    and "has_owner (pointers w) s \<Longrightarrow> fw_states w s \<noteq> None"
    and "closed_clean (fw_states w s)"
  using assms unfolding fw_inv_def by blast+

lemma fw_invI:
  assumes "single_owner (pointers w)"
    and "\<And>s. stream_open_at w s \<Longrightarrow> has_owner (pointers w) s"
    and "\<And>s. has_owner (pointers w) s \<Longrightarrow> fw_states w s \<noteq> None"
    and "\<And>s. closed_clean (fw_states w s)"
  shows "fw_inv w"
  using assms unfolding fw_inv_def by blast

lemma on_state_objs:
  "fw_objs (snd (on_state f ptr w)) = fw_objs w" "state_pointer x (snd (on_state f ptr w)) = state_pointer x w"
  by (simp_all add: on_state_def state_pointer_def split: prod.split option.split)

lemma on_state_states:
  assumes "state_law f"
  shows "fw_states (snd (on_state f ptr w)) s = None \<longleftrightarrow> fw_states w s = None"
    and "stream_open_at (snd (on_state f ptr w)) s \<Longrightarrow> stream_open_at w s"
    and "closed_clean (fw_states w s) \<Longrightarrow> closed_clean (fw_states (snd (on_state f ptr w)) s)"
proof -
  obtain r st d where f: "f (deref ptr w) (fw_disk w) = (r, st, d)" by (metis prod_cases3)
  have law: "(st = None \<longleftrightarrow> deref ptr w = None) \<and> (is_open_state st \<longrightarrow> is_open_state (deref ptr w)) \<and>
      (closed_clean (deref ptr w) \<longrightarrow> closed_clean st)"
    using assms f unfolding state_law_def by blast
  show "fw_states (snd (on_state f ptr w)) s = None \<longleftrightarrow> fw_states w s = None"
    and "stream_open_at (snd (on_state f ptr w)) s \<Longrightarrow> stream_open_at w s"
    and "closed_clean (fw_states w s) \<Longrightarrow> closed_clean (fw_states (snd (on_state f ptr w)) s)"
    using law f by (auto simp: on_state_def stream_open_at_def deref_def split: option.splits if_splits)
qed

lemma fw_inv_on_state:
  assumes "fw_inv w" and "state_law f"
  shows "fw_inv (snd (on_state f ptr w))"
  unfolding fw_inv_def on_state_objs on_state_states(1) [OF assms(2)]
  using fw_invD [OF assms(1)] on_state_states(2,3) [OF assms(2)] by metis

lemma fw_inv_disk: "fw_inv (w\<lparr>fw_disk := d\<rparr>) = fw_inv w" "fw_inv (w\<lparr>fw_captured := m\<rparr>) = fw_inv w"
  by (simp_all add: fw_inv_def stream_open_at_def state_pointer_def)

text \<open>Closing an object's stream leaves it without an open stream, so the object may be dropped.\<close>

lemma file_close_closes:
  assumes "state_pointer x w = Some s"
  shows "\<not> stream_open_at (snd (file_close dev x w)) s"
proof (cases "fw_states w s")
  case (Some f)
  obtain r st d where c: "close_state dev (Some f) (fw_disk w) = (r, st, d)" by (metis prod_cases3)
  then have "\<not> is_open_state st"
    by (auto simp: close_state_def is_open_state_def stream_close_def split: if_splits prod.splits)
  then show ?thesis using assms Some c by (simp add: file_close_def on_state_def deref_def stream_open_at_def)
qed (use assms in \<open>simp add: file_close_def on_state_def deref_def close_state_def
      stream_open_at_def is_open_state_def\<close>)

lemma file_close_objs: "fw_objs (snd (file_close dev x w)) = fw_objs w"
  "state_pointer y (snd (file_close dev x w)) = state_pointer y w"
  by (simp_all add: file_close_def on_state_objs)

lemma file_construct_simps [simp]:
  "fw_states (file_construct x p w) = fw_states w"
  "stream_open_at (file_construct x p w) s = stream_open_at w s"
  by (simp_all add: file_construct_def stream_open_at_def)

lemma pointers_construct: "pointers (file_construct x p w) = (pointers w)(x := p)"
  by (simp add: file_construct_def state_pointer_def fun_eq_iff)

text \<open>An object without an open stream may let go of its pointer.\<close>

lemma fw_inv_drop:
  assumes inv: "fw_inv w" and idle: "\<And>s. state_pointer x w = Some s \<Longrightarrow> \<not> stream_open_at w s"
    and w': "pointers w' = (pointers w)(x := None)" "fw_states w' = fw_states w"
  shows "fw_inv w'"
proof (rule fw_invI; unfold w')
  note own = has_owner_drop [OF fw_invD(1) [OF inv], of x]
  show "single_owner ((pointers w)(x := None))" by (rule single_owner_drop [OF fw_invD(1) [OF inv]])
  show "has_owner ((pointers w)(x := None)) s" if "stream_open_at w' s" for s
    using that fw_invD(2) [OF inv, of s] idle [of s] unfolding own by (auto simp: stream_open_at_def w')
  show "fw_states w s \<noteq> None" if "has_owner ((pointers w)(x := None)) s" for s
    using that fw_invD(3) [OF inv, of s] unfolding own by blast
qed (rule fw_invD(4) [OF inv])

text \<open>A move to an object that points nowhere.\<close>

lemma fw_inv_move:
  assumes inv: "fw_inv w" and free: "state_pointer x w = None" and ne: "x \<noteq> y"
  shows "fw_inv (file_construct x (state_pointer y w) (file_construct y None w))"
proof -
  have p: "pointers (file_construct x (state_pointer y w) (file_construct y None w)) =
      (pointers w)(x := state_pointer y w, y := None)"
    using ne by (auto simp: pointers_construct fun_eq_iff)
  show ?thesis
    using fw_invD(2-4) [OF inv] unfolding fw_inv_def p
    by (simp add: has_owner_move [of "pointers w", OF free ne] single_owner_move [OF fw_invD(1) [OF inv], of x y])
qed

text \<open>Overwriting an object whose stream is closed is dropping its pointer and then moving.\<close>

lemma fw_inv_transfer:
  assumes inv: "fw_inv w" and ne: "x \<noteq> y"
    and idle: "\<And>s. state_pointer x w = Some s \<Longrightarrow> \<not> stream_open_at w s"
  shows "fw_inv (file_construct x (state_pointer y w) (file_construct y None w))"
proof -
  let ?w1 = "file_construct x None w"
  have "fw_inv ?w1" by (rule fw_inv_drop [OF inv idle]) (simp_all add: pointers_construct)
  moreover have "state_pointer x ?w1 = None" "state_pointer y ?w1 = state_pointer y w"
    using ne by (simp_all add: file_construct_def state_pointer_def)
  ultimately have "fw_inv (file_construct x (state_pointer y w) (file_construct y None ?w1))"
    using fw_inv_move [of ?w1 x y] ne by simp
  moreover have "file_construct x p (file_construct y None ?w1) = file_construct x p (file_construct y None w)" for p
    using ne by (simp add: file_construct_def fun_upd_twist)
  ultimately show ?thesis by simp
qed

lemma fw_inv_open:
  assumes inv: "fw_inv w" and new: "fw_objs w x = None" "fw_states w s = None"
  shows "fw_inv (snd (file_open_object dev x s p mode w))"
proof (cases "file_open dev p mode (fw_disk w)")
  case (Pair r d)
  show ?thesis
  proof (cases r)
    case (Inl e)
    then show ?thesis using Pair inv by (simp add: file_open_object_def fw_inv_disk)
  next
    case (Inr st)
    then obtain f where st: "st = Some f" "fs_open (fl_stream f)"
      using Pair by (auto simp: file_open_def split: prod.splits if_splits)
    have fresh: "\<not> has_owner (pointers w) s" using fw_invD(3) [OF inv, of s] new(2) by blast
    let ?w = "snd (file_open_object dev x s p mode w)"
    have ptr: "pointers ?w = (pointers w)(x := Some s)" and sts: "fw_states ?w = (fw_states w)(s \<mapsto> f)"
      using Pair Inr st by (simp_all add: file_open_object_def file_construct_def state_pointer_def fun_eq_iff)
    have own: "has_owner (pointers ?w) s' \<longleftrightarrow> s' = s \<or> has_owner (pointers w) s'" for s'
      unfolding ptr using has_owner_new [of "pointers w" x s s'] new(1) by (simp add: state_pointer_def)
    show ?thesis
    proof (rule fw_invI)
      show "single_owner (pointers ?w)"
        unfolding ptr by (rule single_owner_new [OF fw_invD(1) [OF inv] fresh])
      show "has_owner (pointers ?w) s'" if "stream_open_at ?w s'" for s'
        unfolding own using that fw_invD(2) [OF inv, of s'] by (auto simp: stream_open_at_def sts split: if_splits)
      show "closed_clean (fw_states ?w s')" for s'
        using fw_invD(4) [OF inv, of s'] st(2) by (simp add: sts closed_clean_def)
    next
      show "fw_states ?w s' \<noteq> None" if "has_owner (pointers ?w) s'" for s'
        using that fw_invD(3) [OF inv, of s'] unfolding own by (auto simp: sts)
    qed
  qed
qed

lemma fw_inv_step:
  assumes inv: "fw_inv w" and ok: "fop_allowed op w"
  shows "fw_inv (fop_step dev op w)"
proof (cases op)
  case (Default_file x)
  then show ?thesis
    using fw_inv_drop [OF inv, of x "file_construct x None w"] ok
    by (simp add: pointers_construct state_pointer_def [of x w])
next
  case (Open_file x s p mode)
  then show ?thesis using fw_inv_open [OF inv] ok by simp
next
  case (Move_file x y)
  then have "x \<noteq> y" "state_pointer x w = None" using ok by (auto simp: state_pointer_def)
  then show ?thesis
    using fw_inv_transfer [OF inv, of x y] by (simp add: Move_file file_move_construct_def Let_def)
next
  case (Assign_file x y)
  note closed = fw_inv_on_state [OF inv state_laws(1)]
  have "fw_inv (file_object_move_assign dev x y w)" if "x \<noteq> y"
    using fw_inv_transfer [OF _ that, of "snd (file_close dev x w)"] closed file_close_closes [of x w] that
    by (simp add: file_object_move_assign_def Let_def file_close_objs) (simp add: file_close_def)
  then show ?thesis using inv by (cases "x = y") (simp_all add: Assign_file file_object_move_assign_def)
next
  case (Destroy_file x)
  have "fw_inv (snd (file_close dev x w))"
    unfolding file_close_def by (rule fw_inv_on_state [OF inv state_laws(1)])
  from fw_inv_drop [OF this, of x "file_destructor dev x w"] show ?thesis
    using file_close_closes [of x w]
    by (simp add: Destroy_file file_destructor_def Let_def file_close_objs)
      (simp add: state_pointer_def fun_eq_iff file_close_objs)
qed (use inv in \<open>simp_all add: fw_inv_on_state state_laws state_law_captured fw_inv_disk file_close_def
      file_read_at_def file_write_at_def file_truncate_def file_allocate_def file_sync_data_def
      run_captured_def split: prod.split\<close>)

lemma fw_inv_run: "fw_inv w \<Longrightarrow> fw_inv (fop_run dev ops w)"
  unfolding fop_run_def by (induction ops arbitrary: w) (simp_all add: fw_inv_step)

lemma fw_inv_init: "fw_inv (fw_init d)"
  by (simp add: fw_inv_def fw_init_def stream_open_at_def is_open_state_def closed_clean_def state_pointer_def)

lemma pointer_live: "state_pointer x w = Some s \<longleftrightarrow> fw_objs w x = Some (Some s)"
  by (simp add: state_pointer_def split: option.split)

section \<open>Theorems\<close>

text \<open>
  C37. Open streams are owned: after any program over file objects, moves of an object to
  itself and closures that outlive their object included, every open stream belongs to exactly
  one live object; a stream that is not open holds no unwritten bytes. So when no object is left
  every stream is closed with nothing buffered, and a closure that runs after its file was
  closed, overwritten or destroyed reports \<^verbatim>\<open>closed\<close> (a close reports success) and changes
  neither the state nor the disk.
\<close>

theorem open_streams_owned:
  assumes "w = fop_run dev ops (fw_init d)"
  shows "(\<forall>s. stream_open_at w s \<longrightarrow> (\<exists>!x. fw_objs w x = Some (Some s))) \<and>
    (\<forall>s f. fw_states w s = Some f \<and> \<not> fs_open (fl_stream f) \<longrightarrow> fs_pending (fl_stream f) = None) \<and>
    (fw_objs w = Map.empty \<longrightarrow> (\<forall>s. \<not> stream_open_at w s)) \<and>
    (\<forall>c ptr. fw_captured w c = Some ptr \<and> (\<forall>x s. ptr = Some s \<longrightarrow> fw_objs w x \<noteq> Some (Some s)) \<longrightarrow>
       run_captured dev Work_close ptr w = (Closed_result (Inr ()), w) \<and>
       run_captured dev (Work_read off n) ptr w = (Read_result (Inl (make_error closed None [])), w) \<and>
       run_captured dev (Work_write off data) ptr w = (Write_result (Inl (make_error closed None [])), w))"
proof -
  have inv: "fw_inv w" using fw_inv_run [OF fw_inv_init] assms by simp
  have owner: "\<exists>!x. fw_objs w x = Some (Some s)" if "stream_open_at w s" for s
    using unique_owner [OF fw_invD(1) [OF inv] fw_invD(2) [OF inv that]] by (simp add: pointer_live)
  have clean: "fs_pending (fl_stream f) = None" if "fw_states w s = Some f" "\<not> fs_open (fl_stream f)" for s f
    using fw_invD(4) [OF inv, of s] that by (simp add: closed_clean_def)
  have late: "run_captured dev Work_close ptr w = (Closed_result (Inr ()), w) \<and>
       run_captured dev (Work_read off n) ptr w = (Read_result (Inl (make_error closed None [])), w) \<and>
       run_captured dev (Work_write off data) ptr w = (Write_result (Inl (make_error closed None [])), w)"
    if orphan: "\<forall>x s. ptr = Some s \<longrightarrow> fw_objs w x \<noteq> Some (Some s)" for ptr
  proof -
    have shut: "\<not> is_open_state (deref ptr w)"
      using fw_invD(2) [OF inv, of "the ptr"] orphan
      by (cases ptr) (auto simp: deref_def stream_open_at_def is_open_state_def has_owner_def pointer_live)
    have same: "(case ptr of None \<Rightarrow> w\<lparr>fw_disk := fw_disk w\<rparr>
        | Some s \<Rightarrow> w\<lparr>fw_states := (fw_states w)(s := v), fw_disk := fw_disk w\<rparr>) = w"
      if "deref ptr w = v" for v
      using that by (cases ptr) (auto simp: deref_def)
    show ?thesis
      using shut same
      by (cases "deref ptr w")
        (simp_all add: run_captured_def on_state_def is_open_state_def close_state_def
          read_at_state_def write_at_state_def)
  qed
  have "\<not> stream_open_at w s" if "fw_objs w = Map.empty" for s using owner [of s] that by auto
  then show ?thesis using owner clean late by blast
qed

theorem open_streams_owned_witness:
  "\<exists>w. w = fop_run plain_device [Open_file 1 0 ''f'' Write_mode, Write_file 1 0 [7], Capture 1 5,
        Move_file 2 1, Destroy_file 1, Destroy_file 2] (fw_init Map.empty) \<and>
     contents ''f'' (fw_disk w) = [7] \<and>
     run_captured plain_device (Work_write 0 [9]) (Some 0) w =
       (Write_result (Inl (make_error closed None [])), w)"
proof -
  let ?ops = "[Open_file 1 0 ''f'' Write_mode, Write_file 1 0 [7], Capture 1 5,
        Move_file 2 1, Destroy_file 1, Destroy_file 2]"
  let ?w = "fop_run plain_device ?ops (fw_init Map.empty)"
  have "fw_captured ?w 5 = Some (Some 0)" "fw_objs ?w = Map.empty" "contents ''f'' (fw_disk ?w) = [7]"
    by (simp_all add: fop_run_def fw_init_def file_open_object_def file_open_def stream_open_def
        plain_device_def file_write_at_def file_close_def on_state_def state_pointer_def deref_def
        write_at_state_def stream_seek_def stream_sync_def stream_write_def file_move_construct_def
        file_construct_def file_destructor_def close_state_def stream_close_def contents_def
        write_bytes_def Let_def fun_eq_iff)
  then show ?thesis
    using open_streams_owned [OF refl, of plain_device ?ops Map.empty 0 0 "[9]"] by auto
qed

end
