(* ===== verification/Cancel_Registration.thy ===== *)
theory Cancel_Registration
  imports Cancel_State Owners
begin

text \<open>
  \<^verbatim>\<open>cancellation_registration\<close>, \<^verbatim>\<open>cancellation_token\<close> and \<^verbatim>\<open>cancellation_source\<close> of \<^verbatim>\<open>src/cancellation.cpp\<close> as
  objects: a registration owns the slot of one callback, is moved, withdraws the callback when it
  is destroyed or overwritten, and may outlive the request. The registrations are a store from
  object identities to the slot they hold. The callbacks here only record that they ran; what
  callbacks do through the interface is the subject of \<open>Cancel_State\<close>.
\<close>

section \<open>Objects\<close>

record 'c logged_state = "'c cancellation_state" +
  cl_log :: "('c \<times> cancellation_reason) list"

definition log_callback :: "'c \<Rightarrow> cancellation_reason \<Rightarrow> 'c logged_state \<Rightarrow> 'c logged_state" where
  "log_callback c r s = s\<lparr>cl_log := cl_log s @ [(c, r)]\<rparr>"

record 'c registration_world =
  rg_state :: "'c logged_state"
  rg_objs :: "nat \<rightharpoonup> registration"

text \<open>A source creates the state that its tokens share.\<close>

definition source_create :: "'c logged_state" where
  "source_create = cancellation_state.extend cs_init (logged_state.fields [])"

definition rg_init :: "'c registration_world" where
  "rg_init = \<lparr>rg_state = source_create, rg_objs = Map.empty\<rparr>"

text \<open>Whether a source or token has a state; a source's token shares it.\<close>

definition source_can_request_cancellation :: "bool \<Rightarrow> bool" where
  "source_can_request_cancellation bound = bound"

definition source_token :: "bool \<Rightarrow> bool" where
  "source_token bound = bound"

definition token_can_be_cancelled :: "bool \<Rightarrow> bool" where
  "token_can_be_cancelled bound = bound"

definition source_cancellation_requested :: "bool \<Rightarrow> ('c, 'e) cancellation_state_scheme \<Rightarrow> bool" where
  "source_cancellation_requested bound s = token_cancellation_requested (source_token bound) s"

definition source_reason ::
  "bool \<Rightarrow> ('c, 'e) cancellation_state_scheme \<Rightarrow> cancellation_reason option" where
  "source_reason bound s = token_reason (source_token bound) s"

definition slot_of :: "nat \<Rightarrow> 'c registration_world \<Rightarrow> registration" where
  "slot_of x w = (case rg_objs w x of None \<Rightarrow> None | Some r \<Rightarrow> r)"

definition reg_construct :: "nat \<Rightarrow> registration \<Rightarrow> 'c registration_world \<Rightarrow> 'c registration_world" where
  "reg_construct x r w = w\<lparr>rg_objs := (rg_objs w)(x \<mapsto> r)\<rparr>"

definition reg_unregister :: "nat \<Rightarrow> 'c registration_world \<Rightarrow> 'c registration_world" where
  "reg_unregister x w =
     (reg_construct x None w)\<lparr>rg_state := cs_unregister (slot_of x w) (rg_state w)\<rparr>"

definition reg_move_construct :: "nat \<Rightarrow> nat \<Rightarrow> 'c registration_world \<Rightarrow> 'c registration_world" where
  "reg_move_construct x other w =
     (let r = slot_of other w in reg_construct x r (reg_construct other None w))"

definition reg_object_assign :: "nat \<Rightarrow> nat \<Rightarrow> 'c registration_world \<Rightarrow> 'c registration_world" where
  "reg_object_assign x other w =
     (if x \<noteq> other
      then (let w1 = reg_unregister x w; r = slot_of other w1
            in reg_construct x r (reg_construct other None w1))
      else w)"

definition reg_destructor :: "nat \<Rightarrow> 'c registration_world \<Rightarrow> 'c registration_world" where
  "reg_destructor x w =
     (let w1 = reg_unregister x w in w1\<lparr>rg_objs := (rg_objs w1)(x := None)\<rparr>)"

section \<open>Programs\<close>

datatype 'c registration_op =
    Default_registration nat
  | Register nat 'c
  | Move_registration nat nat
  | Assign_registration nat nat
  | Unregister nat
  | Destroy_registration nat
  | Request cancellation_reason

fun rgop_allowed :: "'c registration_op \<Rightarrow> 'c registration_world \<Rightarrow> bool" where
  "rgop_allowed (Default_registration x) w \<longleftrightarrow> rg_objs w x = None"
| "rgop_allowed (Register x c) w \<longleftrightarrow> rg_objs w x = None"
| "rgop_allowed (Move_registration x y) w \<longleftrightarrow> rg_objs w x = None \<and> rg_objs w y \<noteq> None"
| "rgop_allowed (Assign_registration x y) w \<longleftrightarrow> rg_objs w x \<noteq> None \<and> rg_objs w y \<noteq> None"
| "rgop_allowed (Unregister x) w \<longleftrightarrow> rg_objs w x \<noteq> None"
| "rgop_allowed (Destroy_registration x) w \<longleftrightarrow> rg_objs w x \<noteq> None"
| "rgop_allowed (Request r) w \<longleftrightarrow> True"

fun rgop_step :: "'c registration_op \<Rightarrow> 'c registration_world \<Rightarrow> 'c registration_world" where
  "rgop_step (Default_registration x) w = reg_construct x None w"
| "rgop_step (Register x c) w =
     (case register_callback True log_callback (Some c) (rg_state w) of
        (r, s) \<Rightarrow> reg_construct x r (w\<lparr>rg_state := s\<rparr>))"
| "rgop_step (Move_registration x y) w = reg_move_construct x y w"
| "rgop_step (Assign_registration x y) w = reg_object_assign x y w"
| "rgop_step (Unregister x) w = reg_unregister x w"
| "rgop_step (Destroy_registration x) w = reg_destructor x w"
| "rgop_step (Request r) w =
     w\<lparr>rg_state := snd (request_cancellation True log_callback r (rg_state w))\<rparr>"

definition rgop_run :: "'c registration_op list \<Rightarrow> 'c registration_world \<Rightarrow> 'c registration_world" where
  "rgop_run ops w = fold (\<lambda>op w. if rgop_allowed op w then rgop_step op w else w) ops w"

section \<open>Registered callbacks have an owner\<close>

abbreviation slots :: "'c registration_world \<Rightarrow> nat \<Rightarrow> nat option" where
  "slots w \<equiv> \<lambda>x. slot_of x w"

definition rg_inv :: "'c registration_world \<Rightarrow> bool" where
  "rg_inv w \<longleftrightarrow> cs_inv (rg_state w) \<and> single_owner (slots w) \<and>
     (\<forall>n. is_registered (rg_state w) n \<longrightarrow> has_owner (slots w) n) \<and>
     (\<forall>n. has_owner (slots w) n \<longrightarrow> cs_slots (rg_state w) n \<noteq> None)"

lemma rg_invD:
  assumes "rg_inv w"
  shows "cs_inv (rg_state w)" and "single_owner (slots w)"
    and "is_registered (rg_state w) n \<Longrightarrow> has_owner (slots w) n"
    and "has_owner (slots w) n \<Longrightarrow> cs_slots (rg_state w) n \<noteq> None"
  using assms unfolding rg_inv_def by blast+

lemma rg_invI:
  assumes "cs_inv (rg_state w)" and "single_owner (slots w)"
    and "\<And>n. is_registered (rg_state w) n \<Longrightarrow> has_owner (slots w) n"
    and "\<And>n. has_owner (slots w) n \<Longrightarrow> cs_slots (rg_state w) n \<noteq> None"
  shows "rg_inv w"
  using assms unfolding rg_inv_def by blast

lemma slot_of_simps [simp]:
  "slot_of y (reg_construct x r w) = (if y = x then r else slot_of y w)"
  "rg_state (reg_construct x r w) = rg_state w"
  "slot_of y (w\<lparr>rg_state := s\<rparr>) = slot_of y w"
  by (simp_all add: slot_of_def reg_construct_def)

lemma slots_construct: "slots (reg_construct x r w) = (slots w)(x := r)"
  by (simp add: fun_eq_iff)

lemma cs_unregister_None: "cs_unregister None s = s"
  by (simp add: cs_unregister_def)

lemma cs_unregister_registered:
  "is_registered (cs_unregister r s) n \<longleftrightarrow> is_registered s n \<and> r \<noteq> Some n"
  by (cases r) (auto simp: cs_unregister_Some cs_unregister_None)

lemma cs_unregister_slots: "cs_slots (cs_unregister r s) n = None \<longleftrightarrow> cs_slots s n = None"
  by (cases r) (simp_all add: cs_unregister_Some cs_unregister_None)

lemmas cs_unregister_effect = cs_unregister_registered cs_unregister_slots

text \<open>Withdrawing: the object is empty afterwards and the slot is not registered any more.\<close>

lemma rg_inv_unregister:
  assumes inv: "rg_inv w"
  shows "rg_inv (reg_unregister x w)"
proof (rule rg_invI)
  let ?w = "reg_unregister x w"
  have slot: "slots ?w = (slots w)(x := None)" by (simp add: reg_unregister_def fun_eq_iff)
  have st: "rg_state ?w = cs_unregister (slot_of x w) (rg_state w)" by (simp add: reg_unregister_def)
  note own = has_owner_drop [OF rg_invD(2) [OF inv], of x]
  show "cs_inv (rg_state ?w)" unfolding st by (rule cs_inv_unregister [OF rg_invD(1) [OF inv]])
  show "single_owner (slots ?w)" unfolding slot by (rule single_owner_drop [OF rg_invD(2) [OF inv]])
  show "has_owner (slots ?w) n" if "is_registered (rg_state ?w) n" for n
    using that rg_invD(3) [OF inv, of n] unfolding slot own st cs_unregister_effect by blast
  show "cs_slots (rg_state ?w) n \<noteq> None" if "has_owner (slots ?w) n" for n
    using that rg_invD(4) [OF inv, of n] unfolding slot own st cs_unregister_effect by blast
qed

text \<open>Moving to an empty object.\<close>

lemma rg_inv_transfer:
  assumes inv: "rg_inv w" and free: "slot_of x w = None" and ne: "x \<noteq> y"
  shows "rg_inv (reg_construct x (slot_of y w) (reg_construct y None w))"
proof -
  have slot: "slots (reg_construct x (slot_of y w) (reg_construct y None w)) =
      (slots w)(x := slot_of y w, y := None)"
    using ne by (auto simp: fun_eq_iff)
  show ?thesis
    using rg_invD(1,3,4) [OF inv] unfolding rg_inv_def slot
    by (simp add: has_owner_move [of "slots w", OF free ne] single_owner_move [OF rg_invD(2) [OF inv], of x y])
qed

lemma rg_inv_empty:
  assumes inv: "rg_inv w" and free: "slot_of x w = None" and v: "v = None \<or> v = Some None"
  shows "rg_inv (w\<lparr>rg_objs := (rg_objs w)(x := v)\<rparr>)"
proof -
  have "slot_of y (w\<lparr>rg_objs := (rg_objs w)(x := v)\<rparr>) = slot_of y w" for y
    using free v by (auto simp: slot_of_def)
  then show ?thesis using inv by (simp add: rg_inv_def)
qed

lemma log_callback_frame [simp]:
  "cs_requested (log_callback c r s) = cs_requested s" "cs_reason (log_callback c r s) = cs_reason s"
  "cs_callbacks (log_callback c r s) = cs_callbacks s" "cs_slots (log_callback c r s) = cs_slots s"
  "cs_next_slot (log_callback c r s) = cs_next_slot s" "cs_locked (log_callback c r s) = cs_locked s"
  by (simp_all add: log_callback_def)

lemma fold_log_frame:
  "cs_requested (fold (run_slot log_callback r) ns s) = cs_requested s \<and>
   cs_reason (fold (run_slot log_callback r) ns s) = cs_reason s \<and>
   cs_callbacks (fold (run_slot log_callback r) ns s) = cs_callbacks s \<and>
   cs_slots (fold (run_slot log_callback r) ns s) = cs_slots s \<and>
   cs_next_slot (fold (run_slot log_callback r) ns s) = cs_next_slot s"
proof (induction ns arbitrary: s)
  case (Cons n ns)
  have "cs_requested (run_slot log_callback r n s) = cs_requested s"
    "cs_reason (run_slot log_callback r n s) = cs_reason s"
    "cs_callbacks (run_slot log_callback r n s) = cs_callbacks s"
    "cs_slots (run_slot log_callback r n s) = cs_slots s"
    "cs_next_slot (run_slot log_callback r n s) = cs_next_slot s"
    by (simp_all add: run_slot_def split: option.split)
  then show ?case using Cons.IH [of "run_slot log_callback r n s"] by simp
qed simp

lemma request_effect:
  assumes inv: "cs_inv s"
  shows "cs_inv (snd (request_cancellation True log_callback r s)) \<and>
    \<not> is_registered (snd (request_cancellation True log_callback r s)) n \<and>
    (cs_slots (snd (request_cancellation True log_callback r s)) n = None \<longleftrightarrow> cs_slots s n = None)"
proof (cases "cs_requested s")
  case True
  then have "request_cancellation True log_callback r s = (False, s)" by (rule request_again)
  then show ?thesis using inv True by (auto simp: cs_inv_def)
next
  case False
  obtain s' where s': "request_cancellation True log_callback r s =
      (True, fold (run_slot log_callback r) (cs_callbacks s) s')" "cs_inv s'" "cs_requested s'"
    "\<And>k. map_option slot_callback (cs_slots s' k) = map_option slot_callback (cs_slots s k)"
    using request_first [OF inv False, of log_callback r] by blast
  let ?t = "fold (run_slot log_callback r) (cs_callbacks s) s'"
  note fr = fold_log_frame [of r "cs_callbacks s" s']
  have reg: "is_registered ?t = is_registered s'" using fr by (simp add: is_registered_def fun_eq_iff)
  have none: "\<not> is_registered s' n" for n using s'(2,3) by (auto simp: cs_inv_def)
  have "cs_inv ?t" using s'(2) fr unfolding cs_inv_def reg by simp
  moreover have "cs_slots ?t n = None \<longleftrightarrow> cs_slots s n = None"
    using fr s'(4) [of n] by (metis option.map_disc_iff)
  ultimately show ?thesis using s'(1) none reg by simp
qed

lemma rg_inv_register:
  assumes inv: "rg_inv w" and new: "rg_objs w x = None"
  shows "rg_inv (rgop_step (Register x c) w)"
proof -
  let ?s = "rg_state w"
  have free: "slot_of x w = None" using new by (simp add: slot_of_def)
  have fresh: "cs_slots ?s (cs_next_slot ?s) = None"
    using rg_invD(1) [OF inv] by (auto simp: cs_inv_def)
  obtain r s where reg: "register_callback True log_callback (Some c) ?s = (r, s)" by fastforce
  have w': "rgop_step (Register x c) w = reg_construct x r (w\<lparr>rg_state := s\<rparr>)" by (simp add: reg)
  show ?thesis
  proof (cases "cs_requested ?s")
    case False
    note p = register_pending [OF False, of log_callback c]
    have r: "r = Some (cs_next_slot ?s)" and inv': "cs_inv s"
      using reg p cs_inv_register_pending [OF rg_invD(1) [OF inv] False, of log_callback c] by auto
    have sl: "cs_slots s n = None \<longleftrightarrow> n \<noteq> cs_next_slot ?s \<and> cs_slots ?s n = None" for n
      using reg p by (cases "n = cs_next_slot ?s") auto
    have ireg: "is_registered s n \<longleftrightarrow> n = cs_next_slot ?s \<or> is_registered ?s n" for n
      using reg p by (cases "n = cs_next_slot ?s") (auto simp: is_registered_def)
    have noone: "\<not> has_owner (slots w) (cs_next_slot ?s)"
      using rg_invD(4) [OF inv] fresh by blast
    have slot: "slots (reg_construct x r (w\<lparr>rg_state := s\<rparr>)) = (slots w)(x := Some (cs_next_slot ?s))"
      by (simp add: fun_eq_iff r)
    have own: "has_owner ((slots w)(x := Some (cs_next_slot ?s))) n \<longleftrightarrow>
        n = cs_next_slot ?s \<or> has_owner (slots w) n" for n
      using has_owner_new [of "slots w" x "cs_next_slot ?s" n] free by simp
    show ?thesis
      unfolding w' rg_inv_def slot own
      using inv' single_owner_new [OF rg_invD(2) [OF inv] noone, of x] rg_invD(3,4) [OF inv]
      by (auto simp: ireg sl)
  next
    case True
    have none: "\<not> is_registered ?s n" for n using rg_invD(1) [OF inv] True by (auto simp: cs_inv_def)
    obtain q where q: "cs_reason ?s = Some q" using rg_invD(1) [OF inv] True by (auto simp: cs_inv_def)
    have s: "s = log_callback c q (?s\<lparr>cs_next_slot := cs_next_slot ?s + 1,
        cs_slots := (cs_slots ?s)(cs_next_slot ?s \<mapsto> \<lparr>slot_callback = Some c, slot_registered = False\<rparr>)\<rparr>)"
      and "r = None"
      using reg q True by (auto simp: register_callback_def with_state_lock_def set_registered_def Let_def)
    have st: "\<not> is_registered s n" for n
      using none [of n] unfolding s by (simp add: is_registered_def)
    have "{n. is_registered ?s n} = {}" "{n. is_registered s n} = {}" using none st by auto
    then have "cs_inv s"
      using rg_invD(1) [OF inv] unfolding cs_inv_def by (auto simp: s less_Suc_eq)
    moreover have "cs_slots ?s n \<noteq> None \<Longrightarrow> cs_slots s n \<noteq> None" for n by (simp add: s)
    moreover note st \<open>r = None\<close>
    ultimately show ?thesis
      unfolding w' rg_inv_def slots_construct
      using single_owner_drop [OF rg_invD(2) [OF inv], of x] rg_invD(4) [OF inv]
      by (auto simp: has_owner_drop [OF rg_invD(2) [OF inv]])
  qed
qed

lemma rg_inv_step:
  assumes inv: "rg_inv w" and ok: "rgop_allowed op w"
  shows "rg_inv (rgop_step op w)"
proof (cases op)
  case (Default_registration x)
  then show ?thesis
    using rg_inv_empty [OF inv, of x "Some None"] ok by (simp add: reg_construct_def slot_of_def)
next
  case (Register x c)
  then show ?thesis using rg_inv_register [OF inv] ok by simp
next
  case (Move_registration x y)
  then have "slot_of x w = None" "x \<noteq> y" using ok by (auto simp: slot_of_def)
  then show ?thesis
    using rg_inv_transfer [OF inv] by (simp add: Move_registration reg_move_construct_def Let_def)
next
  case (Assign_registration x y)
  have "rg_inv (reg_object_assign x y w)" if "x \<noteq> y"
    using rg_inv_transfer [OF rg_inv_unregister [OF inv], of x x y] that
    by (simp add: reg_object_assign_def Let_def reg_unregister_def)
  then show ?thesis using inv by (cases "x = y") (simp_all add: Assign_registration reg_object_assign_def)
next
  case (Unregister x)
  then show ?thesis using rg_inv_unregister [OF inv] by simp
next
  case (Destroy_registration x)
  then show ?thesis
    using rg_inv_empty [OF rg_inv_unregister [OF inv, of x], of x None]
    by (simp add: reg_destructor_def Let_def) (simp add: reg_unregister_def)
next
  case (Request r)
  note e = request_effect [OF rg_invD(1) [OF inv], of r]
  show ?thesis
    unfolding Request rg_inv_def using e rg_invD(2,4) [OF inv] by auto
qed

lemma rg_inv_run: "rg_inv w \<Longrightarrow> rg_inv (rgop_run ops w)"
  unfolding rgop_run_def by (induction ops arbitrary: w) (simp_all add: rg_inv_step)

lemma rg_inv_init: "rg_inv rg_init"
  by (simp add: rg_inv_def rg_init_def source_create_def cs_init_def cs_inv_def is_registered_def
      slot_of_def cancellation_state.defs logged_state.defs)

section \<open>Theorems\<close>

text \<open>
  C19. Registered callbacks are owned: after any program over registration objects and
  requests, moves of an object to itself included, each callback that is still registered is
  held by exactly one live object. So a request runs only callbacks whose object is alive, in
  registration order, and destroying or withdrawing a registration takes exactly its callback
  off the list: it is not run by any later request.
\<close>

theorem callbacks_owned:
  assumes "w = rgop_run ops rg_init"
  shows "distinct (cs_callbacks (rg_state w)) \<and>
    (\<forall>n. n \<in> set (cs_callbacks (rg_state w)) \<longleftrightarrow> is_registered (rg_state w) n) \<and>
    (\<forall>n. is_registered (rg_state w) n \<longrightarrow> (\<exists>!x. rg_objs w x = Some (Some n))) \<and>
    (\<forall>x. cs_callbacks (rg_state (reg_destructor x w)) =
       (case slot_of x w of None \<Rightarrow> cs_callbacks (rg_state w)
        | Some n \<Rightarrow> removeAll n (cs_callbacks (rg_state w)))) \<and>
    (rg_objs w = Map.empty \<longrightarrow> cs_callbacks (rg_state w) = [])"
proof -
  have inv: "rg_inv w" using rg_inv_run [OF rg_inv_init] assms by simp
  have list: "distinct (cs_callbacks (rg_state w))"
    "set (cs_callbacks (rg_state w)) = {n. is_registered (rg_state w) n}"
    using rg_invD(1) [OF inv] by (simp_all add: cs_inv_def)
  have obj: "slot_of x w = Some n \<longleftrightarrow> rg_objs w x = Some (Some n)" for x n
    by (simp add: slot_of_def split: option.split)
  have owner: "\<exists>!x. rg_objs w x = Some (Some n)" if "is_registered (rg_state w) n" for n
    using unique_owner [OF rg_invD(2) [OF inv] rg_invD(3) [OF inv that]] by (simp add: obj)
  have destroy: "cs_callbacks (rg_state (reg_destructor x w)) =
       (case slot_of x w of None \<Rightarrow> cs_callbacks (rg_state w)
        | Some n \<Rightarrow> removeAll n (cs_callbacks (rg_state w)))" for x
  proof (cases "slot_of x w")
    case (Some n)
    have "\<not> is_registered (rg_state w) n \<Longrightarrow> n \<notin> set (cs_callbacks (rg_state w))" using list(2) by simp
    then show ?thesis
      using Some by (auto simp: reg_destructor_def reg_unregister_def Let_def cs_unregister_Some)
  qed (simp add: reg_destructor_def reg_unregister_def Let_def cs_unregister_None)
  have "cs_callbacks (rg_state w) = []" if "rg_objs w = Map.empty"
  proof -
    have "\<not> is_registered (rg_state w) n" for n using owner [of n] that by auto
    then show ?thesis using list(2) by simp
  qed
  then show ?thesis using list owner destroy by auto
qed

theorem callbacks_owned_witness:
  "cs_callbacks (rg_state (reg_destructor 3 (rgop_run [Register 1 (7 :: nat), Register 2 8,
     Move_registration 3 1] rg_init))) = [1] \<and>
   cl_log (rg_state (rgop_run [Register 1 (7 :: nat), Register 2 8, Move_registration 3 1,
     Destroy_registration 1, Destroy_registration 3, Request manual] rg_init)) = [(8, manual)]"
proof -
  let ?w = "rgop_run [Register 1 (7 :: nat), Register 2 8, Move_registration 3 1] rg_init"
  have "slot_of 3 ?w = Some 0 \<and> cs_callbacks (rg_state ?w) = [0, 1]"
    by (simp add: rgop_run_def rg_init_def source_create_def cs_init_def cancellation_state.defs
        logged_state.defs register_callback_def with_state_lock_def reg_construct_def
        reg_move_construct_def slot_of_def Let_def)
  moreover note callbacks_owned [OF refl, of "[Register 1 (7 :: nat), Register 2 8, Move_registration 3 1]"]
  ultimately have "cs_callbacks (rg_state (reg_destructor 3 ?w)) = [1]" by simp
  moreover have "cl_log (rg_state (rgop_run [Register 1 (7 :: nat), Register 2 8, Move_registration 3 1,
     Destroy_registration 1, Destroy_registration 3, Request manual] rg_init)) = [(8, manual)]"
    by (simp add: rgop_run_def rg_init_def source_create_def cs_init_def cancellation_state.defs
        logged_state.defs register_callback_def with_state_lock_def reg_construct_def
        reg_move_construct_def slot_of_def reg_destructor_def reg_unregister_def cs_unregister_def
        is_registered_def set_registered_def request_cancellation_def run_slot_def log_callback_def
        Let_def)
  ultimately show ?thesis by simp
qed

end
