(* ===== verification/Move_Only_Function.thy ===== *)
theory Move_Only_Function
  imports Owners
begin

text \<open>
  \<^verbatim>\<open>detail::move_only_function\<close> of \<^verbatim>\<open>include/voris/io/detail/continuation.hpp\<close>: an object that owns a
  callable on the heap, or none. The objects and the heap of callables are stores, so that
  moves, a move of an object to itself included, and the end of a callable's life are explicit;
  a heap address is not used twice. A callable may change when it is called. Calling an
  object without a callable is undefined behaviour and yields \<open>None\<close>. The rest of the
  development uses a continuation as an optional work item, which is what this theory
  justifies: an object has at most one owner and is destroyed exactly once.
\<close>

section \<open>Objects\<close>

text \<open>
  What a function object is built from and stores: a pointer, which may be null, or an object.
  Calling a null pointer is undefined behaviour.
\<close>

datatype 'c callable_source = Function_pointer "'c option" | Function_object 'c

fun nullable_callable :: "'c callable_source \<Rightarrow> bool" where
  "nullable_callable (Function_pointer c) = True"
| "nullable_callable (Function_object c) = False"

definition equals_nullptr :: "'c callable_source \<Rightarrow> bool" where
  "equals_nullptr source \<longleftrightarrow> (case source of Function_pointer None \<Rightarrow> True | _ \<Rightarrow> False)"

record 'c function_world =
  mf_target :: "nat \<rightharpoonup> nat option"
  mf_heap :: "nat \<rightharpoonup> 'c callable_source"
  mf_created :: "nat list"
  mf_destroyed :: "nat list"

definition mf_init :: "'c function_world" where
  "mf_init = \<lparr>mf_target = Map.empty, mf_heap = Map.empty, mf_created = [], mf_destroyed = []\<rparr>"

definition target_of :: "nat \<Rightarrow> 'c function_world \<Rightarrow> nat option" where
  "target_of x w = (case mf_target w x of None \<Rightarrow> None | Some t \<Rightarrow> t)"

definition set_target :: "nat \<Rightarrow> nat option \<Rightarrow> 'c function_world \<Rightarrow> 'c function_world" where
  "set_target x t w = w\<lparr>mf_target := (mf_target w)(x \<mapsto> t)\<rparr>"

text \<open>\<^verbatim>\<open>unique_ptr\<close>: deleting what a pointer owns.\<close>

definition delete_target :: "nat option \<Rightarrow> 'c function_world \<Rightarrow> 'c function_world" where
  "delete_target t w =
     (case t of
        None \<Rightarrow> w
      | Some a \<Rightarrow> w\<lparr>mf_heap := (mf_heap w)(a := None), mf_destroyed := mf_destroyed w @ [a]\<rparr>)"

definition mf_default_construct :: "nat \<Rightarrow> 'c function_world \<Rightarrow> 'c function_world" where
  "mf_default_construct x w = set_target x None w"

text \<open>Construction from a callable, stored at the new address \<open>a\<close>.\<close>

definition mf_make_target :: "nat \<Rightarrow> nat \<Rightarrow> 'c callable_source \<Rightarrow> 'c function_world \<Rightarrow> 'c function_world" where
  "mf_make_target x a c w =
     set_target x (Some a) (w\<lparr>mf_heap := (mf_heap w)(a \<mapsto> c), mf_created := mf_created w @ [a]\<rparr>)"

definition mf_construct :: "nat \<Rightarrow> nat \<Rightarrow> 'c callable_source \<Rightarrow> 'c function_world \<Rightarrow> 'c function_world" where
  "mf_construct x a source w =
     (if nullable_callable source \<and> equals_nullptr source then set_target x None w
      else mf_make_target x a source w)"

definition mf_move_construct :: "nat \<Rightarrow> nat \<Rightarrow> 'c function_world \<Rightarrow> 'c function_world" where
  "mf_move_construct x other w =
     (let t = target_of other w in set_target x t (set_target other None w))"

text \<open>The defaulted assignment is \<^verbatim>\<open>reset(other.release())\<close>: the source lets go before the old target dies.\<close>

definition mf_move_assign :: "nat \<Rightarrow> nat \<Rightarrow> 'c function_world \<Rightarrow> 'c function_world" where
  "mf_move_assign x other w =
     (let t = target_of other w; w1 = set_target other None w; old = target_of x w1
      in delete_target old (set_target x t w1))"

definition mf_destructor :: "nat \<Rightarrow> 'c function_world \<Rightarrow> 'c function_world" where
  "mf_destructor x w =
     (let w1 = delete_target (target_of x w) w in w1\<lparr>mf_target := (mf_target w1)(x := None)\<rparr>)"

definition mf_operator_bool :: "nat \<Rightarrow> 'c function_world \<Rightarrow> bool" where
  "mf_operator_bool x w \<longleftrightarrow> target_of x w \<noteq> None"

definition mf_call ::
  "('c \<Rightarrow> 'r \<times> 'c) \<Rightarrow> nat \<Rightarrow> 'c function_world \<Rightarrow> ('r \<times> 'c function_world) option" where
  "mf_call invoke x w =
     (case target_of x w of
        None \<Rightarrow> None
      | Some a \<Rightarrow>
          (case mf_heap w a of
             None \<Rightarrow> None
           | Some (Function_pointer None) \<Rightarrow> None
           | Some (Function_pointer (Some c)) \<Rightarrow> Some (fst (invoke c), w)
           | Some (Function_object c) \<Rightarrow>
               (case invoke c of
                  (r, c') \<Rightarrow> Some (r, w\<lparr>mf_heap := (mf_heap w)(a \<mapsto> Function_object c')\<rparr>))))"

section \<open>Programs\<close>

datatype 'c function_op =
    Default_function nat
  | Make_function nat nat "'c callable_source"
  | Move_function nat nat
  | Assign_function nat nat
  | Destroy_function nat
  | Call_function nat

fun mfop_allowed :: "'c function_op \<Rightarrow> 'c function_world \<Rightarrow> bool" where
  "mfop_allowed (Default_function x) w \<longleftrightarrow> mf_target w x = None"
| "mfop_allowed (Make_function x a c) w \<longleftrightarrow> mf_target w x = None \<and> a \<notin> set (mf_created w)"
| "mfop_allowed (Move_function x y) w \<longleftrightarrow> mf_target w x = None \<and> mf_target w y \<noteq> None"
| "mfop_allowed (Assign_function x y) w \<longleftrightarrow> mf_target w x \<noteq> None \<and> mf_target w y \<noteq> None"
| "mfop_allowed (Destroy_function x) w \<longleftrightarrow> mf_target w x \<noteq> None"
| "mfop_allowed (Call_function x) w \<longleftrightarrow> mf_target w x \<noteq> None \<and> mf_operator_bool x w"

fun mfop_step :: "('c \<Rightarrow> 'r \<times> 'c) \<Rightarrow> 'c function_op \<Rightarrow> 'c function_world \<Rightarrow> 'c function_world option" where
  "mfop_step invoke (Default_function x) w = Some (mf_default_construct x w)"
| "mfop_step invoke (Make_function x a c) w = Some (mf_construct x a c w)"
| "mfop_step invoke (Move_function x y) w = Some (mf_move_construct x y w)"
| "mfop_step invoke (Assign_function x y) w = Some (mf_move_assign x y w)"
| "mfop_step invoke (Destroy_function x) w = Some (mf_destructor x w)"
| "mfop_step invoke (Call_function x) w = map_option snd (mf_call invoke x w)"

text \<open>A program over live objects; \<open>None\<close> is undefined behaviour.\<close>

fun mfop_run ::
  "('c \<Rightarrow> 'r \<times> 'c) \<Rightarrow> 'c function_op list \<Rightarrow> 'c function_world \<Rightarrow> 'c function_world option" where
  "mfop_run invoke [] w = Some w"
| "mfop_run invoke (op # ops) w =
     (if mfop_allowed op w
      then (case mfop_step invoke op w of None \<Rightarrow> None | Some w1 \<Rightarrow> mfop_run invoke ops w1)
      else mfop_run invoke ops w)"

section \<open>Ownership\<close>

abbreviation targets :: "'c function_world \<Rightarrow> nat \<Rightarrow> nat option" where
  "targets w \<equiv> \<lambda>x. target_of x w"

definition mf_inv :: "'c function_world \<Rightarrow> bool" where
  "mf_inv w \<longleftrightarrow> single_owner (targets w) \<and>
     (\<forall>a. mf_heap w a \<noteq> None \<longleftrightarrow> has_owner (targets w) a) \<and>
     (\<forall>a. mf_heap w a \<noteq> Some (Function_pointer None)) \<and>
     distinct (mf_created w) \<and> distinct (mf_destroyed w) \<and>
     (\<forall>a. a \<in> set (mf_created w) \<longleftrightarrow> a \<in> set (mf_destroyed w) \<or> has_owner (targets w) a) \<and>
     (\<forall>a. a \<in> set (mf_destroyed w) \<longrightarrow> \<not> has_owner (targets w) a)"

lemma mf_invD:
  assumes "mf_inv w"
  shows "single_owner (targets w)" and "mf_heap w a \<noteq> None \<longleftrightarrow> has_owner (targets w) a"
    and "distinct (mf_created w)" and "distinct (mf_destroyed w)"
    and "a \<in> set (mf_created w) \<longleftrightarrow> a \<in> set (mf_destroyed w) \<or> has_owner (targets w) a"
    and "a \<in> set (mf_destroyed w) \<Longrightarrow> \<not> has_owner (targets w) a"
    and "mf_heap w a \<noteq> Some (Function_pointer None)"
  using assms unfolding mf_inv_def by blast+

lemma target_simps [simp]:
  "target_of y (set_target x t w) = (if y = x then t else target_of y w)"
  "mf_heap (set_target x t w) = mf_heap w" "mf_created (set_target x t w) = mf_created w"
  "mf_destroyed (set_target x t w) = mf_destroyed w"
  "target_of y (delete_target t w) = target_of y w"
  "mf_created (delete_target t w) = mf_created w"
  "target_of y (w\<lparr>mf_heap := h, mf_created := cs\<rparr>) = target_of y w"
  "target_of y (w\<lparr>mf_heap := h\<rparr>) = target_of y w"
  by (simp_all add: target_of_def set_target_def delete_target_def split: option.split)

lemma delete_target_simps:
  "mf_heap (delete_target t w) = (case t of None \<Rightarrow> mf_heap w | Some a \<Rightarrow> (mf_heap w)(a := None))"
  "mf_destroyed (delete_target t w) = (case t of None \<Rightarrow> mf_destroyed w | Some a \<Rightarrow> mf_destroyed w @ [a])"
  by (simp_all add: delete_target_def split: option.split)

text \<open>The invariant is about these observations only.\<close>

lemma mf_inv_cong:
  assumes "mf_inv w" and "single_owner (targets w')" and "\<And>a. has_owner (targets w') a = has_owner (targets w) a"
    and "\<And>a. mf_heap w' a \<noteq> None \<longleftrightarrow> mf_heap w a \<noteq> None" and "\<And>a. mf_heap w' a \<noteq> Some (Function_pointer None)"
    and "mf_created w' = mf_created w" and "mf_destroyed w' = mf_destroyed w"
  shows "mf_inv w'"
  using assms(1,2,5) unfolding mf_inv_def assms(3,4,6,7) by blast

lemma mf_inv_same:
  assumes "mf_inv w" and "targets w' = targets w" and "\<And>a. mf_heap w' a \<noteq> None \<longleftrightarrow> mf_heap w a \<noteq> None"
    and "\<And>a. mf_heap w' a \<noteq> Some (Function_pointer None)"
    and "mf_created w' = mf_created w" and "mf_destroyed w' = mf_destroyed w"
  shows "mf_inv w'"
  using assms(1,4) unfolding mf_inv_def assms(2,3,5,6) by blast

text \<open>An object lets go of its target, which dies.\<close>

lemma mf_inv_drop:
  assumes inv: "mf_inv w" and tg: "targets w' = (targets w)(x := None)"
    and heap: "mf_heap w' = mf_heap (delete_target (target_of x w) w)"
    and log: "mf_created w' = mf_created w" "mf_destroyed w' = mf_destroyed (delete_target (target_of x w) w)"
  shows "mf_inv w'"
proof -
  note own = has_owner_drop [OF mf_invD(1) [OF inv], of x]
  have single: "single_owner (targets w')" unfolding tg by (rule single_owner_drop [OF mf_invD(1) [OF inv]])
  show ?thesis
  proof (cases "target_of x w")
    case None
    then show ?thesis
      using single mf_invD(7) [OF inv]
      by (intro mf_inv_cong [OF inv]) (simp_all add: tg own heap log delete_target_simps)
  next
    case (Some a)
    then have "has_owner (targets w) a" by (rule has_ownerI)
    then have "a \<notin> set (mf_destroyed w)" "a \<in> set (mf_created w)" using mf_invD(5,6) [OF inv, of a] by auto
    then show ?thesis
      using single mf_invD(2-7) [OF inv] Some unfolding mf_inv_def
      by (auto simp: tg own heap log delete_target_simps)
  qed
qed

text \<open>A move from \<open>y\<close> to an object without a target.\<close>

lemma mf_inv_transfer:
  assumes inv: "mf_inv w" and free: "target_of x w = None" and ne: "x \<noteq> y"
    and tg: "targets w' = (targets w)(x := target_of y w, y := None)"
    and same: "mf_heap w' = mf_heap w" "mf_created w' = mf_created w" "mf_destroyed w' = mf_destroyed w"
  shows "mf_inv w'"
  by (rule mf_inv_cong [OF inv])
    (simp_all add: tg same mf_invD(7) [OF inv] single_owner_move [OF mf_invD(1) [OF inv], of x y]
      has_owner_move [of "targets w", OF free ne])

lemma mf_inv_make:
  assumes inv: "mf_inv w" and free: "target_of x w = None" and new: "a \<notin> set (mf_created w)"
    and valid: "c \<noteq> Function_pointer None"
  shows "mf_inv (mf_make_target x a c w)"
proof -
  let ?w = "mf_make_target x a c w"
  have tg: "targets ?w = (targets w)(x := Some a)" by (simp add: mf_make_target_def fun_eq_iff)
  have fresh: "\<not> has_owner (targets w) a" "a \<notin> set (mf_destroyed w)"
    using mf_invD(5) [OF inv, of a] new by auto
  have own: "has_owner (targets ?w) p \<longleftrightarrow> p = a \<or> has_owner (targets w) p" for p
    unfolding tg using has_owner_new [of "targets w" x a p] free by simp
  have "single_owner (targets ?w)"
    unfolding tg by (rule single_owner_new [OF mf_invD(1) [OF inv] fresh(1)])
  then show ?thesis
    using mf_invD(2-7) [OF inv] fresh new valid unfolding mf_inv_def own by (auto simp: mf_make_target_def)
qed

lemma mf_inv_assign:
  assumes inv: "mf_inv w"
  shows "mf_inv (mf_move_assign x y w)"
proof (cases "x = y")
  case True
  then show ?thesis
    by (intro mf_inv_same [OF inv])
      (simp_all add: mf_move_assign_def Let_def delete_target_simps fun_eq_iff mf_invD(7) [OF inv])
next
  case False
  let ?w1 = "delete_target (target_of x w) (set_target x None w)"
  have "mf_inv ?w1"
    by (rule mf_inv_drop [OF inv, of _ x])
      (simp_all add: delete_target_simps fun_eq_iff split: option.split)
  then show ?thesis
    by (rule mf_inv_transfer [OF _ _ False])
      (use False in \<open>simp_all add: mf_move_assign_def Let_def delete_target_simps fun_eq_iff split: option.split\<close>)
qed

lemma mf_inv_call:
  assumes inv: "mf_inv w" and "mf_operator_bool x w"
  shows "\<exists>r w'. mf_call invoke x w = Some (r, w') \<and> mf_inv w'"
proof -
  obtain a where a: "target_of x w = Some a" using assms(2) by (auto simp: mf_operator_bool_def)
  then have "has_owner (targets w) a" by (rule has_ownerI)
  then obtain c where c: "mf_heap w a = Some c" using mf_invD(2) [OF inv, of a] by auto
  show ?thesis
  proof (cases c)
    case (Function_pointer p)
    then obtain q where "p = Some q" using mf_invD(7) [OF inv, of a] c by (cases p) auto
    then show ?thesis using a c Function_pointer inv by (simp add: mf_call_def)
  next
    case (Function_object q)
    obtain r q' where i: "invoke q = (r, q')" by fastforce
    have "mf_inv (w\<lparr>mf_heap := (mf_heap w)(a \<mapsto> Function_object q')\<rparr>)"
      using mf_invD(7) [OF inv] by (intro mf_inv_same [OF inv]) (simp_all add: c)
    then show ?thesis using a c i Function_object by (simp add: mf_call_def)
  qed
qed

lemma mf_inv_step:
  assumes inv: "mf_inv w" and ok: "mfop_allowed op w"
  shows "\<exists>w'. mfop_step invoke op w = Some w' \<and> mf_inv w'"
proof -
  have empty: "mf_inv (set_target x None w)" if "mf_target w x = None" for x
    using that mf_invD(7) [OF inv]
    by (intro mf_inv_same [OF inv]) (simp_all add: fun_eq_iff target_of_def [of x w])
  show ?thesis
  proof (cases op)
    case (Default_function x)
    then show ?thesis using empty ok by (simp add: mf_default_construct_def)
  next
    case (Make_function x a source)
    then have "target_of x w = None" using ok by (simp add: target_of_def)
    then show ?thesis
      using mf_inv_make [OF inv, of x a source] empty ok
      by (auto simp: Make_function mf_construct_def equals_nullptr_def split: callable_source.splits option.splits)
  next
    case (Move_function x y)
    then have "target_of x w = None" "x \<noteq> y" using ok by (auto simp: target_of_def)
    from mf_inv_transfer [OF inv this, of "mf_move_construct x y w"] this show ?thesis
      by (simp add: Move_function mf_move_construct_def Let_def fun_eq_iff)
  next
    case (Assign_function x y)
    then show ?thesis using mf_inv_assign [OF inv] by simp
  next
    case (Destroy_function x)
    have "mf_inv (mf_destructor x w)"
      by (rule mf_inv_drop [OF inv, of _ x])
        (simp_all add: mf_destructor_def Let_def target_of_def delete_target_def fun_eq_iff split: option.split)
    then show ?thesis by (simp add: Destroy_function)
  next
    case (Call_function x)
    then show ?thesis using mf_inv_call [OF inv, of x invoke] ok by auto
  qed
qed

lemma mf_inv_run:
  "mf_inv w \<Longrightarrow> \<exists>w'. mfop_run invoke ops w = Some w' \<and> mf_inv w'"
proof (induction ops arbitrary: w)
  case (Cons op ops)
  then show ?case
    using mf_inv_step [OF Cons.prems, of op invoke] by (cases "mfop_allowed op w") auto
qed simp

lemma mf_inv_init: "mf_inv mf_init"
  by (simp add: mf_inv_def mf_init_def target_of_def)

section \<open>Theorems\<close>

text \<open>
  C39. Type-erased callables are used linearly: a program over live objects that tests an
  object before calling it never calls a dead callable or a null pointer; afterwards no callable
  is owned by two objects, each one created is either owned and alive or was destroyed, never twice, and when
  no object is left all have been destroyed.
\<close>

theorem callables_owned_once:
  shows "\<exists>w. mfop_run invoke ops mf_init = Some w \<and>
    (\<forall>x y a. target_of x w = Some a \<and> target_of y w = Some a \<longrightarrow> x = y) \<and>
    distinct (mf_created w) \<and> distinct (mf_destroyed w) \<and>
    (\<forall>a. a \<in> set (mf_created w) \<longleftrightarrow> a \<in> set (mf_destroyed w) \<or> (\<exists>x. target_of x w = Some a)) \<and>
    (\<forall>a. a \<in> set (mf_destroyed w) \<longrightarrow> (\<nexists>x. target_of x w = Some a)) \<and>
    (mf_target w = Map.empty \<longrightarrow> set (mf_destroyed w) = set (mf_created w))"
proof -
  obtain w where w: "mfop_run invoke ops mf_init = Some w" "mf_inv w"
    using mf_inv_run [OF mf_inv_init] by blast
  have "set (mf_destroyed w) = set (mf_created w)" if "mf_target w = Map.empty"
  proof -
    have "\<not> has_owner (targets w) a" for a using that by (simp add: has_owner_def target_of_def)
    then show ?thesis using mf_invD(5) [OF w(2)] by blast
  qed
  then show ?thesis
    using w(1) mf_invD(3-6) [OF w(2)] mf_invD(1) [OF w(2)]
    unfolding has_owner_def single_owner_def by (intro exI [of _ w]) blast
qed

theorem callables_owned_once_witness:
  "\<exists>w. mfop_run (\<lambda>n :: nat. (n, Suc n)) [Make_function 1 0 (Function_object 5), Call_function 1,
      Make_function 3 7 (Function_pointer None), Call_function 3, Destroy_function 3,
      Move_function 2 1, Assign_function 2 2, Destroy_function 1, Destroy_function 2] mf_init = Some w \<and>
    set (mf_destroyed w) = {0}"
proof -
  let ?ops = "[Make_function 1 0 (Function_object (5 :: nat)), Call_function 1,
      Make_function 3 7 (Function_pointer None), Call_function 3, Destroy_function 3,
      Move_function 2 1, Assign_function 2 2, Destroy_function 1, Destroy_function 2]"
  obtain w where w: "mfop_run (\<lambda>n. (n, Suc n)) ?ops mf_init = Some w"
    "mf_target w = Map.empty \<longrightarrow> set (mf_destroyed w) = set (mf_created w)"
    using callables_owned_once [of "\<lambda>n. (n, Suc n)" ?ops] by blast
  have "mf_target w = Map.empty" "mf_created w = [0]"
    using w(1) by (auto simp: mf_init_def equals_nullptr_def mf_construct_def mf_make_target_def set_target_def
        mf_operator_bool_def target_of_def mf_call_def mf_move_construct_def mf_move_assign_def
        mf_destructor_def delete_target_def Let_def)
  then show ?thesis using w by auto
qed

end
