(* ===== verification/Vio_Socket.thy ===== *)
theory Vio_Socket
  imports Fifo Os_Calls
begin

text \<open>
  \<^verbatim>\<open>include/voris/io/socket.hpp\<close>, \<^verbatim>\<open>src/socket.cpp\<close> and the \<^verbatim>\<open>detail/socket_*.hpp\<close> headers, the Linux
  build: the per-direction operation queue and the borrowed-handle helpers. The system calls are
  the record \<open>socket_sys\<close> over an opaque kernel state. A read returns the bytes it stored from the
  start of the buffer or buffers; the buffers are given by their contents. The retry loops may run
  for ever if the kernel keeps interrupting them, so they are partial.
\<close>

section \<open>Operation queue\<close>

datatype socket_operation_direction = Dir_read | Dir_write

record socket_operation_queue =
  sq_limit :: nat
  sq_reads :: "size_t list"
  sq_writes :: "size_t list"

definition sq_create :: "nat \<Rightarrow> socket_operation_queue" where
  "sq_create limit = \<lparr>sq_limit = limit, sq_reads = [], sq_writes = []\<rparr>"

definition sq_queue :: "socket_operation_direction \<Rightarrow> socket_operation_queue \<Rightarrow> size_t list" where
  "sq_queue direction q = (if direction = Dir_read then sq_reads q else sq_writes q)"

definition sq_set :: "socket_operation_direction \<Rightarrow> size_t list \<Rightarrow> socket_operation_queue \<Rightarrow>
    socket_operation_queue" where
  "sq_set direction xs q =
     (if direction = Dir_read then q\<lparr>sq_reads := xs\<rparr> else q\<lparr>sq_writes := xs\<rparr>)"

definition sq_enqueue ::
  "socket_operation_direction \<Rightarrow> socket_operation_queue \<Rightarrow> size_t \<Rightarrow>
     void_result \<times> socket_operation_queue" where
  "sq_enqueue direction q operation_id =
     (if length (sq_queue direction q) \<ge> sq_limit q
      then (Inl (make_error_diagnostic resource_exhausted ''socket operation queue is full''), q)
      else (Inr (), sq_set direction (sq_queue direction q @ [operation_id]) q))"

definition sq_pop ::
  "socket_operation_direction \<Rightarrow> socket_operation_queue \<Rightarrow> size_t option \<times> socket_operation_queue" where
  "sq_pop direction q =
     (case sq_queue direction q of
        [] \<Rightarrow> (None, q)
      | value # rest \<Rightarrow> (Some value, sq_set direction rest q))"

definition sq_size :: "socket_operation_direction \<Rightarrow> socket_operation_queue \<Rightarrow> nat" where
  "sq_size direction q = length (sq_queue direction q)"

lemma sq_set_queue [simp]:
  "sq_queue d (sq_set d' xs q) = (if d = d' then xs else sq_queue d q)"
  "sq_limit (sq_set d xs q) = sq_limit q"
  by (cases d; cases d'; simp add: sq_queue_def sq_set_def)+

interpretation sq: bounded_fifo "sq_enqueue d" "sq_pop d" "sq_queue d" sq_limit for d
  by unfold_locales (auto simp: sq_enqueue_def sq_pop_def split: list.splits)

text \<open>The two directions do not interfere.\<close>

lemma sq_directions_independent:
  "d \<noteq> d' \<Longrightarrow> sq_queue d (snd (sq_enqueue d' q i)) = sq_queue d q"
  "d \<noteq> d' \<Longrightarrow> sq_queue d (snd (sq_pop d' q)) = sq_queue d q"
  by (auto simp: sq_enqueue_def sq_pop_def split: list.split)

section \<open>Error policy\<close>

definition EINVAL :: errno where "EINVAL = 22"
definition EINPROGRESS :: errno where "EINPROGRESS = 115"
definition EALREADY :: errno where "EALREADY = 114"
definition ENETDOWN :: errno where "ENETDOWN = 100"
definition EPROTO :: errno where "EPROTO = 71"
definition ENOPROTOOPT :: errno where "ENOPROTOOPT = 92"
definition EHOSTDOWN :: errno where "EHOSTDOWN = 112"
definition ENONET :: errno where "ENONET = 64"
definition EHOSTUNREACH :: errno where "EHOSTUNREACH = 113"
definition EOPNOTSUPP :: errno where "EOPNOTSUPP = 95"
definition ENETUNREACH :: errno where "ENETUNREACH = 101"

lemmas errno_defs = EINTR_def EAGAIN_def EINPROGRESS_def EALREADY_def ENETDOWN_def EPROTO_def
  ENOPROTOOPT_def EHOSTDOWN_def ENONET_def EHOSTUNREACH_def EOPNOTSUPP_def ENETUNREACH_def

definition is_accept_retryable_pending_network_error :: "errno \<Rightarrow> bool" where
  "is_accept_retryable_pending_network_error code \<longleftrightarrow>
     code = ENETDOWN \<or> code = EPROTO \<or> code = ENOPROTOOPT \<or> code = EHOSTDOWN \<or> code = ENONET \<or>
     code = EHOSTUNREACH \<or> code = EOPNOTSUPP \<or> code = ENETUNREACH"

datatype socket_errno_action = Retry | In_progress | Provider_failure

definition is_socket_interrupted_errno :: "errno \<Rightarrow> bool" where
  "is_socket_interrupted_errno code \<longleftrightarrow> code = EINTR"

text \<open>On Linux \<^verbatim>\<open>EWOULDBLOCK\<close> is \<^verbatim>\<open>EAGAIN\<close>.\<close>

definition is_socket_would_block_errno :: "errno \<Rightarrow> bool" where
  "is_socket_would_block_errno code \<longleftrightarrow> code = EAGAIN"

definition is_socket_connect_in_progress_errno :: "errno \<Rightarrow> bool" where
  "is_socket_connect_in_progress_errno code \<longleftrightarrow>
     code = EINPROGRESS \<or> code = EALREADY \<or> is_socket_would_block_errno code"

definition classify_socket_transfer_errno :: "errno \<Rightarrow> socket_errno_action" where
  "classify_socket_transfer_errno code =
     (if is_socket_interrupted_errno code then Retry
      else if is_socket_would_block_errno code then In_progress else Provider_failure)"

definition classify_socket_accept_errno :: "errno \<Rightarrow> socket_errno_action" where
  "classify_socket_accept_errno code =
     (if is_socket_interrupted_errno code \<or> is_accept_retryable_pending_network_error code then Retry
      else if is_socket_would_block_errno code then In_progress else Provider_failure)"

definition classify_socket_connect_errno :: "errno \<Rightarrow> socket_errno_action" where
  "classify_socket_connect_errno code =
     (if is_socket_interrupted_errno code \<or> is_socket_connect_in_progress_errno code
      then In_progress else Provider_failure)"

section \<open>Transfer limits\<close>

definition max_safe_socket_io_size :: size_t where
  "max_safe_socket_io_size = 0x7ffff000"

definition cap_socket_io_size :: "size_t \<Rightarrow> size_t" where
  "cap_socket_io_size requested =
     (if requested < max_safe_socket_io_size then requested else max_safe_socket_io_size)"

record socket_iovec_plan =
  ip_iovec_count :: size_t
  ip_requested_size :: size_t

definition socket_iovec_plan_full :: "socket_iovec_plan \<Rightarrow> size_t \<Rightarrow> size_t \<Rightarrow> bool" where
  "socket_iovec_plan_full plan iovec_limit request_limit \<longleftrightarrow>
     ip_iovec_count plan \<ge> iovec_limit \<or> ip_requested_size plan \<ge> request_limit"

definition append_socket_iovec_segment ::
  "socket_iovec_plan \<Rightarrow> size_t \<Rightarrow> size_t \<Rightarrow> size_t \<Rightarrow> size_t \<times> socket_iovec_plan" where
  "append_socket_iovec_segment plan segment_size iovec_limit request_limit =
     (if segment_size = 0 \<or> socket_iovec_plan_full plan iovec_limit request_limit then (0, plan)
      else
        (let remaining = request_limit - ip_requested_size plan;
             accepted = (if segment_size < remaining then segment_size else remaining)
         in (accepted, plan\<lparr>ip_iovec_count := ip_iovec_count plan + 1,
                            ip_requested_size := ip_requested_size plan + accepted\<rparr>)))"

section \<open>Buffer chains\<close>

definition local_iovec_capacity :: size_t where
  "local_iovec_capacity = 1024"

definition IOV_MAX :: size_t where
  "IOV_MAX = 1024"

text \<open>The argument is what \<^verbatim>\<open>sysconf(_SC_IOV_MAX)\<close> answers, a signed \<^verbatim>\<open>long\<close>.\<close>

definition platform_iovec_limit :: "int \<Rightarrow> size_t" where
  "platform_iovec_limit runtime_limit =
     (let limit = min local_iovec_capacity IOV_MAX;
          limit' = (if runtime_limit > 0 then min limit (word_of_int runtime_limit) else limit)
      in max limit' 1)"

record iovec_chain =
  ic_entries :: "(byte list \<times> size_t) list"
  ic_plan :: socket_iovec_plan

fun build_chain_loop :: "size_t \<Rightarrow> byte list list \<Rightarrow> iovec_chain \<Rightarrow> iovec_chain" where
  "build_chain_loop iovec_limit [] chain = chain"
| "build_chain_loop iovec_limit (buffer # buffers) chain =
     (if buffer = [] then build_chain_loop iovec_limit buffers chain
      else if socket_iovec_plan_full (ic_plan chain) iovec_limit max_safe_socket_io_size then chain
      else
        (case append_socket_iovec_segment (ic_plan chain) (of_nat (length buffer)) iovec_limit
                max_safe_socket_io_size of
           (len, plan) \<Rightarrow>
             if len = 0 then chain\<lparr>ic_plan := plan\<rparr>
             else build_chain_loop iovec_limit buffers
                    (chain\<lparr>ic_entries := ic_entries chain @ [(buffer, len)], ic_plan := plan\<rparr>)))"

definition build_iovec_chain :: "int \<Rightarrow> byte list list \<Rightarrow> iovec_chain" where
  "build_iovec_chain runtime_limit buffers =
     build_chain_loop (platform_iovec_limit runtime_limit) buffers
       \<lparr>ic_entries = [], ic_plan = \<lparr>ip_iovec_count = 0, ip_requested_size = 0\<rparr>\<rparr>"

definition buffer_chain_is_empty :: "byte list list \<Rightarrow> bool" where
  "buffer_chain_is_empty buffers \<longleftrightarrow> (\<forall>b \<in> set buffers. b = [])"

definition total_size :: "byte list list \<Rightarrow> size_t" where
  "total_size buffers = (\<Sum>b \<leftarrow> buffers. of_nat (length b))"

text \<open>The segments an entry list stands for.\<close>

definition segments :: "iovec_chain \<Rightarrow> byte list list" where
  "segments chain = map (\<lambda>(b, n). take (unat n) b) (ic_entries chain)"

section \<open>The helpers\<close>

record 'o socket_sys =
  so_read :: "int \<Rightarrow> nat \<Rightarrow> 'o \<Rightarrow> (errno + byte list) \<times> 'o"
  so_readv :: "int \<Rightarrow> nat list \<Rightarrow> 'o \<Rightarrow> (errno + byte list) \<times> 'o"
  so_send :: "int \<Rightarrow> byte list \<Rightarrow> 'o \<Rightarrow> (errno + nat) \<times> 'o"
  so_sendmsg :: "int \<Rightarrow> byte list list \<Rightarrow> 'o \<Rightarrow> (errno + nat) \<times> 'o"
  so_accept4 :: "int \<Rightarrow> 'o \<Rightarrow> (errno + int) \<times> 'o"
  so_dupfd :: "int \<Rightarrow> int \<Rightarrow> 'o \<Rightarrow> (errno + int) \<times> 'o"
  so_close :: "int \<Rightarrow> 'o \<Rightarrow> 'o"
  so_connect :: "int \<Rightarrow> byte list \<Rightarrow> 'o \<Rightarrow> (errno + unit) \<times> 'o"
  so_error :: "int \<Rightarrow> 'o \<Rightarrow> (errno + int) \<times> 'o"
  so_iov_max :: int

definition validate_native_handle :: "size_t \<Rightarrow> void_result" where
  "validate_native_handle h =
     (if h = 0 then Inl (make_error_diagnostic invalid_state ''native socket handle must be non-zero'')
      else if h > INT_MAX
      then Inl (make_error_diagnostic invalid_state ''native socket handle does not fit int'')
      else Inr ())"

definition validate_socket_address :: "byte list \<Rightarrow> void_result" where
  "validate_socket_address address =
     (if address = []
      then Inl (make_error_diagnostic invalid_state ''remote socket address must be non-empty'')
      else if length address > 2 ^ 32 - 1
      then Inl (make_error_diagnostic invalid_state ''remote socket address does not fit socklen_t'')
      else Inr ())"

definition operation_in_progress_error :: vio_error where
  "operation_in_progress_error =
     make_error_diagnostic operation_in_progress ''socket operation is in progress''"

text \<open>The loop that \<^verbatim>\<open>read_some\<close> and \<^verbatim>\<open>write_some\<close> each have around their system call.\<close>

partial_function (option) transfer_loop ::
  "('o \<Rightarrow> (errno + 'v) \<times> 'o) \<Rightarrow> 'o \<Rightarrow> ('v io_result \<times> 'o) option" where
  "transfer_loop call k =
     (case call k of
        (Inr transferred, k1) \<Rightarrow> Some (Inr transferred, k1)
      | (Inl code, k1) \<Rightarrow>
          (case classify_socket_transfer_errno code of
             Retry \<Rightarrow> transfer_loop call k1
           | In_progress \<Rightarrow> Some (Inl operation_in_progress_error, k1)
           | Provider_failure \<Rightarrow> Some (Inl (provider_failure code), k1)))"

definition read_some ::
  "'o socket_sys \<Rightarrow> size_t \<Rightarrow> nat \<Rightarrow> 'o \<Rightarrow> (byte list io_result \<times> 'o) option" where
  "read_some sys h buffer_size k =
     (case validate_native_handle h of
        Inl e \<Rightarrow> Some (Inl e, k)
      | Inr _ \<Rightarrow>
          if buffer_size = 0 then Some (Inr [], k)
          else transfer_loop
                 (so_read sys (sint h) (unat (cap_socket_io_size (of_nat buffer_size)))) k)"

definition read_some_chain ::
  "'o socket_sys \<Rightarrow> size_t \<Rightarrow> byte list list \<Rightarrow> 'o \<Rightarrow> (byte list io_result \<times> 'o) option" where
  "read_some_chain sys h buffers k =
     (case validate_native_handle h of
        Inl e \<Rightarrow> Some (Inl e, k)
      | Inr _ \<Rightarrow>
          if buffer_chain_is_empty buffers then Some (Inr [], k)
          else
            (let chain = build_iovec_chain (so_iov_max sys) buffers
             in if ip_iovec_count (ic_plan chain) = 0 \<or> ip_requested_size (ic_plan chain) = 0
                then Some (Inr [], k)
                else transfer_loop (so_readv sys (sint h) (map length (segments chain))) k))"

definition write_some ::
  "'o socket_sys \<Rightarrow> size_t \<Rightarrow> byte list \<Rightarrow> 'o \<Rightarrow> (nat io_result \<times> 'o) option" where
  "write_some sys h buffer k =
     (case validate_native_handle h of
        Inl e \<Rightarrow> Some (Inl e, k)
      | Inr _ \<Rightarrow>
          if buffer = [] then Some (Inr 0, k)
          else transfer_loop (so_send sys (sint h)
                 (take (unat (cap_socket_io_size (of_nat (length buffer)))) buffer)) k)"

definition write_some_chain ::
  "'o socket_sys \<Rightarrow> size_t \<Rightarrow> byte list list \<Rightarrow> 'o \<Rightarrow> (nat io_result \<times> 'o) option" where
  "write_some_chain sys h buffers k =
     (case validate_native_handle h of
        Inl e \<Rightarrow> Some (Inl e, k)
      | Inr _ \<Rightarrow>
          if buffer_chain_is_empty buffers then Some (Inr 0, k)
          else
            (let chain = build_iovec_chain (so_iov_max sys) buffers
             in if ip_iovec_count (ic_plan chain) = 0 \<or> ip_requested_size (ic_plan chain) = 0
                then Some (Inr 0, k)
                else transfer_loop (so_sendmsg sys (sint h) (segments chain)) k))"

text \<open>
  A descriptor 0 from \<^verbatim>\<open>accept4\<close> is duplicated to a non-zero one, since the library uses 0 for
  no handle.
\<close>

partial_function (option) accept_loop ::
  "'o socket_sys \<Rightarrow> int \<Rightarrow> 'o \<Rightarrow> (size_t io_result \<times> 'o) option" where
  "accept_loop sys fd k =
     (case so_accept4 sys fd k of
        (Inr accepted, k1) \<Rightarrow>
          if accepted \<noteq> 0 then Some (Inr (word_of_int accepted), k1)
          else
            (case so_dupfd sys accepted 1 k1 of
               (Inl code, k2) \<Rightarrow> Some (Inl (provider_failure code), so_close sys accepted k2)
             | (Inr duplicate, k2) \<Rightarrow> Some (Inr (word_of_int duplicate), so_close sys accepted k2))
      | (Inl code, k1) \<Rightarrow>
          (case classify_socket_accept_errno code of
             Retry \<Rightarrow> accept_loop sys fd k1
           | In_progress \<Rightarrow> Some (Inl operation_in_progress_error, k1)
           | Provider_failure \<Rightarrow> Some (Inl (provider_failure code), k1)))"

definition accept_one :: "'o socket_sys \<Rightarrow> size_t \<Rightarrow> 'o \<Rightarrow> (size_t io_result \<times> 'o) option" where
  "accept_one sys h k =
     (case validate_native_handle h of
        Inl e \<Rightarrow> Some (Inl e, k)
      | Inr _ \<Rightarrow> accept_loop sys (sint h) k)"

definition start_connect :: "'o socket_sys \<Rightarrow> size_t \<Rightarrow> byte list \<Rightarrow> 'o \<Rightarrow> void_result \<times> 'o" where
  "start_connect sys h address k =
     (case validate_native_handle h of
        Inl e \<Rightarrow> (Inl e, k)
      | Inr _ \<Rightarrow>
          (case validate_socket_address address of
             Inl e \<Rightarrow> (Inl e, k)
           | Inr _ \<Rightarrow>
               (case so_connect sys (sint h) address k of
                  (Inr _, k1) \<Rightarrow> (Inr (), k1)
                | (Inl code, k1) \<Rightarrow>
                    (Inl (if classify_socket_connect_errno code = In_progress
                          then operation_in_progress_error else provider_failure code), k1))))"

definition finish_connect :: "'o socket_sys \<Rightarrow> size_t \<Rightarrow> 'o \<Rightarrow> void_result \<times> 'o" where
  "finish_connect sys h k =
     (case validate_native_handle h of
        Inl e \<Rightarrow> (Inl e, k)
      | Inr _ \<Rightarrow>
          (case so_error sys (sint h) k of
             (Inl code, k1) \<Rightarrow> (Inl (provider_failure code), k1)
           | (Inr socket_error, k1) \<Rightarrow>
               (if socket_error = 0 then Inr ()
                else if is_socket_connect_in_progress_errno socket_error
                then Inl operation_in_progress_error
                else Inl (provider_failure socket_error), k1)))"

section \<open>The chain is a prefix of the buffers\<close>

definition chain_inv :: "size_t \<Rightarrow> iovec_chain \<Rightarrow> bool" where
  "chain_inv limit c \<longleftrightarrow>
     length (ic_entries c) = unat (ip_iovec_count (ic_plan c)) \<and> ip_iovec_count (ic_plan c) \<le> limit \<and>
     ip_requested_size (ic_plan c) \<le> max_safe_socket_io_size \<and>
     (\<forall>(b, n) \<in> set (ic_entries c). unat n \<le> length b \<and> n \<noteq> 0) \<and>
     length (concat (segments c)) = unat (ip_requested_size (ic_plan c))"

lemma append_segment:
  assumes "append_socket_iovec_segment plan n iovec_limit request_limit = (len, plan')"
    and "n \<noteq> 0" and "\<not> socket_iovec_plan_full plan iovec_limit request_limit"
  shows "unat len = min (unat n) (unat request_limit - unat (ip_requested_size plan)) \<and> len \<noteq> 0 \<and>
    unat (ip_iovec_count plan') = Suc (unat (ip_iovec_count plan)) \<and>
    ip_iovec_count plan' \<le> iovec_limit \<and> ip_requested_size plan' \<le> request_limit \<and>
    unat (ip_requested_size plan') = unat (ip_requested_size plan) + unat len"
proof -
  let ?r = "request_limit - ip_requested_size plan"
  have lt: "ip_iovec_count plan < iovec_limit" "ip_requested_size plan < request_limit"
    using assms(3) by (auto simp: socket_iovec_plan_full_def)
  have r: "unat ?r = unat request_limit - unat (ip_requested_size plan)"
    using lt(2) by (simp add: unat_sub_if' word_less_nat_alt)
  have len: "len = (if n < ?r then n else ?r)"
    and plan': "plan' = plan\<lparr>ip_iovec_count := ip_iovec_count plan + 1,
      ip_requested_size := ip_requested_size plan + len\<rparr>"
    using assms by (auto simp: append_socket_iovec_segment_def Let_def)
  have ul: "unat len = min (unat n) (unat ?r)" by (simp add: len min_def word_less_nat_alt)
  have "?r \<noteq> 0" using lt(2) by auto
  then have nz: "len \<noteq> 0" using assms(2) by (simp add: len)
  have fit: "unat (ip_requested_size plan) + unat len \<le> unat request_limit"
    using ul r lt(2) by (simp add: word_less_nat_alt)
  have "unat request_limit < 2 ^ 64" using unsigned_less [of request_limit] by simp
  then have req: "unat (ip_requested_size plan') = unat (ip_requested_size plan) + unat len"
    using fit by (simp add: plan' unat_word_ariths)
  have cnt: "unat (ip_iovec_count plan') = Suc (unat (ip_iovec_count plan))"
    using lt(1) by (simp add: plan') (metis max_word_max linorder_not_less unat_add_one)
  show ?thesis
    using ul r nz cnt req fit lt by (simp add: word_le_nat_alt word_less_nat_alt)
qed

lemma chain_loop_full:
  "socket_iovec_plan_full (ic_plan c) limit max_safe_socket_io_size \<Longrightarrow>
   build_chain_loop limit buffers c = c"
  by (induction buffers) auto

lemma chain_loop_prefix:
  assumes "chain_inv limit c" and "\<forall>b \<in> set buffers. length b < 2 ^ 64"
  shows "chain_inv limit (build_chain_loop limit buffers c) \<and>
    (\<exists>rest. concat (segments c) @ concat buffers =
      concat (segments (build_chain_loop limit buffers c)) @ rest) \<and>
    (length (ic_entries c) + length (filter (\<lambda>b. b \<noteq> []) buffers) \<le> unat limit \<longrightarrow>
       concat (segments (build_chain_loop limit buffers c)) =
         take (unat max_safe_socket_io_size) (concat (segments c) @ concat buffers))"
  using assms
proof (induction limit buffers c rule: build_chain_loop.induct)
  case (1 limit chain)
  then show ?case by (auto simp: chain_inv_def word_le_nat_alt)
next
  case (2 limit buffer buffers c)
  show ?case
  proof (cases "buffer = []")
    case True
    then show ?thesis using 2 by simp
  next
    case ne: False
    show ?thesis
    proof (cases "socket_iovec_plan_full (ic_plan c) limit max_safe_socket_io_size")
      case full: True
      then have "build_chain_loop limit (buffer # buffers) c = c" using ne by simp
      moreover have "length (ic_entries c) + length (filter (\<lambda>b. b \<noteq> []) (buffer # buffers)) \<le> unat limit \<Longrightarrow>
          length (concat (segments c)) = unat max_safe_socket_io_size"
        using full ne 2(3) by (auto simp: socket_iovec_plan_full_def chain_inv_def word_le_nat_alt)
      ultimately show ?thesis using 2(3) by auto
    next
      case room: False
      obtain len plan where app: "append_socket_iovec_segment (ic_plan c) (of_nat (length buffer)) limit
          max_safe_socket_io_size = (len, plan)" by fastforce
      have u: "unat (of_nat (length buffer) :: size_t) = length buffer"
        using 2(4) by (simp add: unat_of_nat)
      then have nz: "(of_nat (length buffer) :: size_t) \<noteq> 0" using ne by force
      note l = append_segment [OF app nz room, unfolded u]
      let ?c = "c\<lparr>ic_entries := ic_entries c @ [(buffer, len)], ic_plan := plan\<rparr>"
      have seg: "concat (segments ?c) = concat (segments c) @ take (unat len) buffer"
        by (simp add: segments_def)
      have inv: "chain_inv limit ?c"
        using 2(3) l unfolding chain_inv_def seg by auto
      have step: "build_chain_loop limit (buffer # buffers) c = build_chain_loop limit buffers ?c"
        using ne room l by (simp add: app)
      note IH = 2(2) [OF ne room app [symmetric] _ inv]
      show ?thesis
      proof (cases "unat len = length buffer")
        case True
        then have eq: "concat (segments c) @ concat (buffer # buffers) =
            concat (segments ?c) @ concat buffers" by (simp add: seg)
        have n: "length (ic_entries c) + length (filter (\<lambda>b. b \<noteq> []) (buffer # buffers)) =
            length (ic_entries ?c) + length (filter (\<lambda>b. b \<noteq> []) buffers)" using ne by simp
        have "len \<noteq> 0" "\<forall>b \<in> set buffers. length b < 2 ^ 64" using l 2(4) by auto
        from IH [OF this] show ?thesis unfolding step eq n .
      next
        case False
        then have cap: "unat len = unat max_safe_socket_io_size - unat (ip_requested_size (ic_plan c))"
          "unat len \<le> length buffer" using l by auto
        then have "unat (ip_requested_size plan) = unat max_safe_socket_io_size"
          using l 2(3) by (auto simp: chain_inv_def word_le_nat_alt)
        then have "socket_iovec_plan_full (ic_plan ?c) limit max_safe_socket_io_size"
          by (simp add: socket_iovec_plan_full_def word_le_nat_alt)
        then have done_: "build_chain_loop limit buffers ?c = ?c" by (rule chain_loop_full)
        have "concat (segments c) @ concat (buffer # buffers) =
            concat (segments ?c) @ drop (unat len) buffer @ concat buffers" by (simp add: seg)
        moreover have "concat (segments ?c) =
            take (unat max_safe_socket_io_size) (concat (segments c) @ concat (buffer # buffers))"
          using 2(3) cap unfolding seg by (simp add: chain_inv_def word_le_nat_alt)
        ultimately show ?thesis using inv unfolding step done_ by blast
      qed
    qed
  qed
qed

lemma platform_iovec_limit_bounds:
  "1 \<le> platform_iovec_limit n" "platform_iovec_limit n \<le> 1024"
  by (auto simp: platform_iovec_limit_def local_iovec_capacity_def IOV_MAX_def Let_def)

text \<open>What the chain of the buffers stands for.\<close>

lemma build_iovec_chain_prefix:
  assumes "\<forall>b \<in> set buffers. length b < 2 ^ 64"
  shows "chain_inv (platform_iovec_limit n) (build_iovec_chain n buffers)"
    and "\<exists>rest. concat buffers = concat (segments (build_iovec_chain n buffers)) @ rest"
    and "length (filter (\<lambda>b. b \<noteq> []) buffers) \<le> unat (platform_iovec_limit n) \<Longrightarrow>
      concat (segments (build_iovec_chain n buffers)) =
        take (unat max_safe_socket_io_size) (concat buffers)"
proof -
  let ?c = "\<lparr>ic_entries = [], ic_plan = \<lparr>ip_iovec_count = 0, ip_requested_size = 0\<rparr>\<rparr>"
  have "chain_inv (platform_iovec_limit n) ?c" by (simp add: chain_inv_def segments_def)
  from chain_loop_prefix [OF this assms]
  show "chain_inv (platform_iovec_limit n) (build_iovec_chain n buffers)"
    and "\<exists>rest. concat buffers = concat (segments (build_iovec_chain n buffers)) @ rest"
    and "length (filter (\<lambda>b. b \<noteq> []) buffers) \<le> unat (platform_iovec_limit n) \<Longrightarrow>
      concat (segments (build_iovec_chain n buffers)) =
        take (unat max_safe_socket_io_size) (concat buffers)"
    by (simp_all add: build_iovec_chain_def segments_def)
qed

lemma cap_is_min:
  "n < 2 ^ 64 \<Longrightarrow> unat (cap_socket_io_size (of_nat n)) = min n (unat max_safe_socket_io_size)"
  by (auto simp: cap_socket_io_size_def word_less_nat_alt unat_of_nat min_def)

lemma chain_request_nonzero:
  assumes "\<forall>b \<in> set buffers. length b < 2 ^ 64" and "concat buffers \<noteq> []"
    and "length (filter (\<lambda>b. b \<noteq> []) buffers) \<le> unat (platform_iovec_limit n)"
  shows "ip_iovec_count (ic_plan (build_iovec_chain n buffers)) \<noteq> 0"
    and "ip_requested_size (ic_plan (build_iovec_chain n buffers)) \<noteq> 0"
proof -
  let ?c = "build_iovec_chain n buffers"
  note p = build_iovec_chain_prefix [OF assms(1), of n]
  have "concat (segments ?c) \<noteq> []"
    using p(3) [OF assms(3)] assms(2) by (simp add: max_safe_socket_io_size_def)
  then have "length (concat (segments ?c)) \<noteq> 0" "length (ic_entries ?c) \<noteq> 0"
    by (auto simp: segments_def simp del: concat_eq_Nil_conv)
  then show "ip_iovec_count (ic_plan ?c) \<noteq> 0" "ip_requested_size (ic_plan ?c) \<noteq> 0"
    using p(1) unfolding chain_inv_def by (metis unsigned_0)+
qed

lemma accept_loop_handle:
  assumes good: "\<And>v. \<lbrakk>0 < v; v < 2 ^ 31\<rbrakk> \<Longrightarrow> good (word_of_int v)"
    and acc: "\<forall>fd k v k'. so_accept4 sys fd k = (Inr v, k') \<longrightarrow> 0 \<le> v \<and> v < 2 ^ 31"
    and dup: "\<forall>fd n k v k'. so_dupfd sys fd n k = (Inr v, k') \<longrightarrow> n \<le> v \<and> v < 2 ^ 31"
    and run: "accept_loop sys fd k = Some y"
  shows "\<forall>a. fst y = Inr a \<longrightarrow> good a"
proof -
  let ?P = "\<lambda>sys' fd k y. sys' = sys \<longrightarrow> (\<forall>a. fst y = Inr a \<longrightarrow> good a)"
  have "?P sys fd k y"
  proof (rule accept_loop.raw_induct [where P = ?P, OF _ run])
    fix loop sys' fd k y
    assume IH: "\<And>sys' fd k y. loop sys' fd k = Some y \<Longrightarrow> ?P sys' fd k y"
      and body: "(case so_accept4 sys' fd k of
        (Inr accepted, k1) \<Rightarrow>
          if accepted \<noteq> 0 then Some (Inr (word_of_int accepted), k1)
          else
            (case so_dupfd sys' accepted 1 k1 of
               (Inl code, k2) \<Rightarrow> Some (Inl (provider_failure code), so_close sys' accepted k2)
             | (Inr duplicate, k2) \<Rightarrow> Some (Inr (word_of_int duplicate), so_close sys' accepted k2))
      | (Inl code, k1) \<Rightarrow>
          (case classify_socket_accept_errno code of
             Retry \<Rightarrow> loop sys' fd k1
           | In_progress \<Rightarrow> Some (Inl operation_in_progress_error, k1)
           | Provider_failure \<Rightarrow> Some (Inl (provider_failure code), k1))) = Some y"
    show "?P sys' fd k y"
    proof (cases "so_accept4 sys fd k")
      case (Pair r k1)
      show ?thesis
      proof (cases r)
        case (Inl code)
        then show ?thesis
          using IH [of sys fd k1 y] body Pair by (auto split: socket_errno_action.splits)
      next
        case (Inr v)
        then have v: "0 \<le> v" "v < 2 ^ 31" using acc Pair by auto
        show ?thesis
        proof (cases "v = 0")
          case True
          then show ?thesis
            using body Pair Inr dup good
            by (cases "so_dupfd sys 0 1 k1") (fastforce split: sum.splits)
        next
          case False
          then show ?thesis using body Pair Inr v good [of v] by auto
        qed
      qed
    qed
  qed
  then show ?thesis by blast
qed

section \<open>Theorems\<close>

text \<open>
  C40. A chained write is the write of the concatenation: on a kernel whose \<^verbatim>\<open>sendmsg\<close> sends the
  segments as \<^verbatim>\<open>send\<close> sends their concatenation, and whose \<^verbatim>\<open>readv\<close> reads as \<^verbatim>\<open>read\<close> into the total
  room, \<^verbatim>\<open>write_some\<close> and \<^verbatim>\<open>read_some\<close> on a buffer chain within the vector limit do exactly what they
  do on one contiguous buffer, with the same cap, results, errors and retries; beyond the limit
  the chain still stands for a prefix of the buffers, and never has more entries than its array
  or more bytes than the cap.
\<close>

theorem socket_chain_equivalent:
  assumes "\<forall>fd segs. so_sendmsg sys fd segs = so_send sys fd (concat segs)"
    and "\<forall>fd lens. so_readv sys fd lens = so_read sys fd (sum_list lens)"
    and "length (concat buffers) < 2 ^ 64"
  shows "(length (filter (\<lambda>b. b \<noteq> []) buffers) \<le> unat (platform_iovec_limit (so_iov_max sys)) \<longrightarrow>
      write_some_chain sys h buffers k = write_some sys h (concat buffers) k \<and>
      read_some_chain sys h buffers k = read_some sys h (length (concat buffers)) k) \<and>
    (\<exists>rest. concat buffers = concat (segments (build_iovec_chain n buffers)) @ rest) \<and>
    length (ic_entries (build_iovec_chain n buffers)) \<le> 1024 \<and>
    length (concat (segments (build_iovec_chain n buffers))) \<le> 0x7ffff000"
proof -
  have small: "\<forall>b \<in> set buffers. length b < 2 ^ 64"
  proof
    fix b
    assume "b \<in> set buffers"
    then have "length b \<le> length (concat buffers)"
      by (simp add: length_concat member_le_sum_list)
    then show "length b < 2 ^ 64" using assms(3) by simp
  qed
  note p = build_iovec_chain_prefix [OF small]
  have empty: "buffer_chain_is_empty buffers \<longleftrightarrow> concat buffers = []"
    by (auto simp: buffer_chain_is_empty_def)
  have "write_some_chain sys h buffers k = write_some sys h (concat buffers) k \<and>
      read_some_chain sys h buffers k = read_some sys h (length (concat buffers)) k"
    if "length (filter (\<lambda>b. b \<noteq> []) buffers) \<le> unat (platform_iovec_limit (so_iov_max sys))"
  proof (cases "concat buffers = []")
    case True
    then show ?thesis
      by (simp add: write_some_chain_def read_some_chain_def write_some_def read_some_def empty
          split: sum.split)
  next
    case False
    note nz = chain_request_nonzero [OF small False that]
    have lens: "sum_list (map length (segments (build_iovec_chain (so_iov_max sys) buffers))) =
        min (length (concat buffers)) (unat max_safe_socket_io_size)"
      using p(3) [OF that] by (simp flip: length_concat)
    show ?thesis
      using False nz
      by (simp add: write_some_chain_def read_some_chain_def write_some_def read_some_def empty
          assms(1,2) p(3) [OF that] lens cap_is_min [OF assms(3)] Let_def min.commute
          take_min_length
          split: sum.split del: concat_eq_Nil_conv)
  qed
  moreover have "length (ic_entries (build_iovec_chain n buffers)) \<le> 1024"
    "length (concat (segments (build_iovec_chain n buffers))) \<le> 0x7ffff000"
    using p(1) [of n] platform_iovec_limit_bounds(2) [of n]
    by (auto simp: chain_inv_def word_le_nat_alt max_safe_socket_io_size_def)
  ultimately show ?thesis using p(2) by blast
qed

text \<open>A kernel whose socket takes everything and has nothing to read.\<close>

definition sink_sys :: "unit socket_sys" where
  "sink_sys = \<lparr>so_read = \<lambda>fd n k. (Inl EAGAIN, k), so_readv = \<lambda>fd lens k. (Inl EAGAIN, k),
     so_send = \<lambda>fd bs k. (Inr (length bs), k), so_sendmsg = \<lambda>fd segs k. (Inr (length (concat segs)), k),
     so_accept4 = \<lambda>fd k. (Inr 0, k), so_dupfd = \<lambda>fd n k. (if n \<le> 5 then Inr 5 else Inl EINVAL, k), so_close = \<lambda>fd k. k,
     so_connect = \<lambda>fd a k. (Inl EINPROGRESS, k), so_error = \<lambda>fd k. (Inr 0, k), so_iov_max = 1024\<rparr>"

theorem socket_chain_equivalent_witness:
  "write_some_chain sink_sys 3 [[1, 2], [], [7]] () = write_some sink_sys 3 [1, 2, 7] ()"
proof -
  have "platform_iovec_limit (so_iov_max sink_sys) = 1024"
    by (simp add: platform_iovec_limit_def local_iovec_capacity_def IOV_MAX_def sink_sys_def)
  then show ?thesis
    using socket_chain_equivalent [of sink_sys "[[1, 2], [], [7]]" 3 "()"]
    by (simp add: sink_sys_def)
qed

text \<open>
  Accepted handles are usable: on a kernel whose descriptors are non-negative \<^verbatim>\<open>int\<close>s and whose
  \<^verbatim>\<open>F_DUPFD_CLOEXEC\<close> respects its minimum, a successful \<^verbatim>\<open>accept_one\<close> never returns the reserved
  handle 0, and the handle it returns passes the validation of every helper; a would-block from
  the kernel is reported as \<^verbatim>\<open>operation_in_progress\<close>.
\<close>

theorem accept_one_valid_handle:
  assumes "\<forall>fd k v k'. so_accept4 sys fd k = (Inr v, k') \<longrightarrow> 0 \<le> v \<and> v < 2 ^ 31"
    and "\<forall>fd n k v k'. so_dupfd sys fd n k = (Inr v, k') \<longrightarrow> n \<le> v \<and> v < 2 ^ 31"
    and "accept_one sys h k = Some (r, k')"
  shows "(\<forall>a. r = Inr a \<longrightarrow> a \<noteq> 0 \<and> validate_native_handle a = Inr ()) \<and>
    (validate_native_handle h = Inr () \<and> fst (so_accept4 sys (sint h) k) = Inl EAGAIN \<longrightarrow>
       r = Inl operation_in_progress_error)"
proof -
  have good: "word_of_int v \<noteq> (0 :: size_t) \<and> validate_native_handle (word_of_int v) = Inr ()"
    if "0 < v" "v < 2 ^ 31" for v :: int
  proof -
    have "uint (word_of_int v :: size_t) = v" using that by (simp add: uint_word_of_int)
    then show ?thesis
      using that by (auto simp: validate_native_handle_def INT_MAX_def word_less_def)
  qed
  note handle = accept_loop_handle [where good = "\<lambda>a. a \<noteq> 0 \<and> validate_native_handle a = Inr ()",
      OF good assms(1,2)]
  have "r = Inl operation_in_progress_error"
    if "validate_native_handle h = Inr ()" "fst (so_accept4 sys (sint h) k) = Inl EAGAIN"
    using assms(3) that
    by (cases "so_accept4 sys (sint h) k")
      (auto simp: accept_one_def accept_loop.simps [of sys "sint h" k] classify_socket_accept_errno_def
        is_socket_interrupted_errno_def is_accept_retryable_pending_network_error_def
        is_socket_would_block_errno_def errno_defs)
  then show ?thesis
    using assms(3) handle [of "sint h" k "(r, k')"]
    by (auto simp: accept_one_def split: sum.splits)
qed

theorem accept_one_valid_handle_witness:
  "accept_one sink_sys 3 () = Some (Inr 5, ()) \<and> validate_native_handle 5 = Inr ()"
proof -
  have r: "accept_one sink_sys 3 () = Some (Inr 5, ())"
    by (simp add: accept_one_def accept_loop.simps sink_sys_def validate_native_handle_def INT_MAX_def)
  have "\<forall>fd k v k'. so_accept4 sink_sys fd k = (Inr v, k') \<longrightarrow> 0 \<le> v \<and> v < 2 ^ 31"
    "\<forall>fd n k v k'. so_dupfd sink_sys fd n k = (Inr v, k') \<longrightarrow> n \<le> v \<and> v < 2 ^ 31"
    by (auto simp: sink_sys_def split: if_splits)
  from accept_one_valid_handle [OF this r] show ?thesis using r by simp
qed

end
