(* ===== verification/Example_Programs.thy ===== *)
theory Example_Programs
  imports Vio_Socket Vio_Task
begin

text \<open>
  The example programs \<^verbatim>\<open>examples/echo.cpp\<close> and \<^verbatim>\<open>examples/fan_out.cpp\<close>, run on the models of the
  components they use. A failed \<^verbatim>\<open>assert\<close> is the value \<open>None\<close>. The loops are stated for any input, of
  which the programs' own data are instances.
\<close>

section \<open>Echo\<close>

definition assert_that :: "bool \<Rightarrow> unit option" where
  "assert_that b = (if b then Some () else None)"

text \<open>One direction of a round: enqueue an operation, pop it, check that it is the same one.\<close>

definition echo_transfer ::
  "socket_operation_direction \<Rightarrow> size_t \<Rightarrow> socket_operation_queue \<Rightarrow> socket_operation_queue option" where
  "echo_transfer direction operation_id operations =
     (case sq_enqueue direction operations operation_id of
        (Inl _, _) \<Rightarrow> None
      | (Inr _, q1) \<Rightarrow>
          (case sq_pop direction q1 of
             (None, _) \<Rightarrow> None
           | (Some ready, q2) \<Rightarrow> if ready = operation_id then Some q2 else None))"

fun echo_loop ::
  "string list \<Rightarrow> size_t \<Rightarrow> string list \<Rightarrow> socket_operation_queue \<Rightarrow>
     (string list \<times> socket_operation_queue) option" where
  "echo_loop [] operation_id echoed operations = Some (echoed, operations)"
| "echo_loop (message # rest) operation_id echoed operations =
     (case echo_transfer Dir_read operation_id operations of
        None \<Rightarrow> None
      | Some q1 \<Rightarrow>
          (case echo_transfer Dir_write (operation_id + 1) q1 of
             None \<Rightarrow> None
           | Some q2 \<Rightarrow> echo_loop rest (operation_id + 2) (echoed @ [message]) q2))"

definition echo_messages :: "string list \<Rightarrow> string list option" where
  "echo_messages input =
     (case echo_loop input 1 [] (sq_create (unat (of_nat (length input) * 2 :: size_t))) of
        None \<Rightarrow> None
      | Some (echoed, operations) \<Rightarrow>
          (case assert_that (sq_size Dir_read operations = 0 \<and> sq_size Dir_write operations = 0) of
             None \<Rightarrow> None
           | Some _ \<Rightarrow> Some echoed))"

lemma echo_transfer_idle:
  assumes "sq_queue direction q = []" and "0 < sq_limit q"
  shows "\<exists>q'. echo_transfer direction i q = Some q' \<and> sq_limit q' = sq_limit q \<and>
    (\<forall>d. sq_queue d q' = sq_queue d q)"
  using assms by (auto simp: echo_transfer_def sq_enqueue_def sq_pop_def)

lemma echo_loop_idle:
  assumes "\<forall>d. sq_queue d q = []" and "input \<noteq> [] \<longrightarrow> 0 < sq_limit q"
  shows "\<exists>q'. echo_loop input i echoed q = Some (echoed @ input, q') \<and> (\<forall>d. sq_queue d q' = [])"
  using assms
proof (induction input arbitrary: i echoed q)
  case (Cons m input)
  then obtain q1 where q1: "echo_transfer Dir_read i q = Some q1" "sq_limit q1 = sq_limit q"
    "\<forall>d. sq_queue d q1 = []"
    using echo_transfer_idle [of Dir_read q i] by auto
  then obtain q2 where "echo_transfer Dir_write (i + 1) q1 = Some q2" "sq_limit q2 = sq_limit q1"
    "\<forall>d. sq_queue d q2 = []"
    using echo_transfer_idle [of Dir_write q1 "i + 1"] Cons.prems by auto
  then show ?case using Cons.IH [of q2 "i + 2" "echoed @ [m]"] Cons.prems q1 by simp
qed simp

section \<open>Fan-out\<close>

text \<open>\<^verbatim>\<open>worker\<close> returns without suspending, so its task is complete when the call returns.\<close>

definition fan_out_worker :: "scheduler_id \<Rightarrow> int \<Rightarrow> int task_cell" where
  "fan_out_worker current input =
     snd (task_complete (Return_value (input * 10)) (snd (task_initial_suspend (task_create (Some current)))))"

definition fan_out_total :: "scheduler_id \<Rightarrow> int list \<Rightarrow> int option" where
  "fan_out_total current inputs =
     (case when_all_run [] (map (fan_out_worker current) inputs) of
        (results, []) \<Rightarrow>
          if \<forall>r \<in> set results. \<not> isl r then Some (sum_list (map projr results)) else None
      | _ \<Rightarrow> None)"

lemma fan_out_advance:
  "when_all_advance results (map (fan_out_worker current) inputs) =
     (results @ map (\<lambda>n. Inr (n * 10)) inputs, [])"
  by (induction inputs arbitrary: results)
    (simp_all add: fan_out_worker_def task_complete_def task_final_suspend_def tc_publish_completed_def
      task_initial_suspend_def task_create_def task_await_ready_def promise_has_result_def
      task_await_resume_def task_co_await_def promise_take_result_def Let_def)

section \<open>Theorems\<close>

text \<open>
  The example programs run without a failed assertion: \<^verbatim>\<open>echo_messages\<close> returns exactly its
  input, for every input whose doubled length a \<^verbatim>\<open>size_t\<close> holds, and the fan-out over any inputs
  adds up all branch results, 30 for the program's own inputs.
\<close>

theorem examples_run:
  assumes "length input < 2 ^ 63"
  shows "echo_messages input = Some input \<and>
    fan_out_total current inputs = Some (10 * sum_list inputs) \<and> fan_out_total current [1, 2] = Some 30"
proof -
  have "unat (of_nat (length input) * 2 :: size_t) = length input * 2"
  proof -
    have "(of_nat (length input) * 2 :: size_t) = of_nat (length input * 2)" by simp
    moreover have "take_bit 64 (length input * 2) = length input * 2"
      using assms by (intro take_bit_nat_eq_self) simp
    ultimately show ?thesis by (simp only: unsigned_of_nat) simp
  qed
  then have "\<exists>q'. echo_loop input 1 [] (sq_create (unat (of_nat (length input) * 2 :: size_t))) =
      Some (input, q') \<and> (\<forall>d. sq_queue d q' = [])"
    using echo_loop_idle [of "sq_create (length input * 2)" input 1 "[]"]
    by (simp add: sq_create_def sq_queue_def)
  then have "echo_messages input = Some input"
    by (auto simp: echo_messages_def assert_that_def sq_size_def)
  moreover have "fan_out_total current inputs = Some (10 * sum_list inputs)" for inputs
  proof -
    have "sum_list (map (\<lambda>n. n * 10) inputs) = 10 * sum_list inputs" by (induction inputs) simp_all
    then show ?thesis
      using fan_out_advance [of "[]" current inputs]
      by (simp add: fan_out_total_def when_all_run_def comp_def)
  qed
  ultimately show ?thesis by simp
qed

theorem examples_run_witness:
  "echo_messages [''vio'', ''echo'', ''done''] = Some [''vio'', ''echo'', ''done''] \<and>
     fan_out_total 1 [1, 2] = Some 30"
  using examples_run [of "[''vio'', ''echo'', ''done'']" 1 "[]"] by simp

end
