(* ===== verification/Spec2Isabelle.thy ===== *)
theory Spec2Isabelle
  imports Timer_Heap_Correct Clock Kqueue_Backend Vio_Runtime Semaphore Async_Mutex Vio_Channel Executors
    Executor_Join Reservations Io_Uring_Correct Iocp_Contract Task_Ownership Task_Void When_Any
    Async_Scope File_Pipeline File_Objects Cancel_Registration Move_Only_Function Example_Programs
begin

text \<open>
  VIO is a C++ library for asynchronous input and output with coroutines. This development
  models its implementation, theory by theory, and proves what makes each part correct.

  \<^bold>\<open>The program and how its parts interact.\<close> A \<^verbatim>\<open>runtime\<close> owns shards. A \<^verbatim>\<open>shard\<close> is one worker
  thread with a mailbox of two lanes, a timer heap and a wake-up it parks on; other threads
  submit continuations to the mailbox and wake the worker. Coroutines (\<^verbatim>\<open>task\<close>, \<^verbatim>\<open>when_all\<close>,
  \<^verbatim>\<open>when_any\<close>, \<^verbatim>\<open>async_scope\<close>) suspend on awaiters and are resumed through the scheduler that was
  current where they suspended. Semaphores, mutexes, events and channels keep the suspended
  coroutines of one scheduler. Input and output goes through a \<^verbatim>\<open>backend\<close>: \<^verbatim>\<open>submit\<close> accepts an
  operation, the operating system completes it, \<^verbatim>\<open>poll\<close> observes that and \<^verbatim>\<open>drain_completions\<close>
  delivers the completion. There are five: the virtual backend, epoll, kqueue, io_uring and
  IOCP. Files run blocking calls on an executor; sockets are built over readiness calls.

  \<^bold>\<open>Conventions.\<close> A class is a record of its members, a method a function from the record to
  its result and the new record, an enumeration a datatype. \<^verbatim>\<open>std::expected\<close> is a sum with the
  error on the left. \<^verbatim>\<open>std::size_t\<close>, identifiers and generations are 64-bit words, so increments
  wrap; ring indices are 32-bit words. Limits compared with container sizes are naturals.
  User code (continuations, callbacks, coroutine bodies, clocks) and the operating system are
  parameters: a record of functions over an opaque state for each group of system calls, about
  which nothing is assumed unless a theorem says so. Concurrency is a relation or a function of
  explicit steps, one per critical section, that the theorems quantify over in any order.

  \<^bold>\<open>Interfaces.\<close> Contracts that several components share are locales, interpreted on each:
  \<^item> \<open>fifo_queue\<close> and \<open>bounded_fifo\<close> (theory \<open>Fifo\<close>): bounded queues, socket operation queues, the
    compute executor's queue, buffered channels;
  \<^item> \<open>work_source\<close> (\<open>Run_Loop\<close>): the loops that run queued work, of the two schedulers, the
    trampoline, the mailbox, the shard and the compute executor;
  \<^item> \<open>operation_ledger\<close> (\<open>Ledger\<close>) and \<open>backend_refinement\<close> (\<open>Backend_Refinement\<close>), a sublocale of
    it: every accepted operation is delivered exactly once; the virtual, io_uring and IOCP backends
    interpret the first, epoll and kqueue the second, which also says that they refine the
    virtual backend and names, by \<open>performs\<close>, the virtual calls that each of their calls makes;
  \<^item> \<open>permit_account\<close> (\<open>Waiter\<close>): permits of the semaphore and of the mutex;
  \<^item> \<open>rendezvous\<close> (\<open>Rendezvous\<close>): one producer and one awaiting coroutine, of tasks, \<^verbatim>\<open>when_any\<close> and
    blocking file operations. Asking whether the result is there (\<^verbatim>\<open>await_ready\<close>) and installing the
    coroutine (\<^verbatim>\<open>await_suspend\<close>) are two steps, and the producer may publish between them.

  \<^bold>\<open>Values and containers.\<close> \<open>Prelude\<close> has the shared lemmas and types. \<open>Vio_Error\<close>: \<^verbatim>\<open>error.hpp\<close>,
  the stable numbers and the order of errors. \<open>Bounded_Queue\<close>: \<^verbatim>\<open>detail/bounded_queue.hpp\<close>, FIFO
  within its capacity. \<open>Loop_Budget\<close>: \<^verbatim>\<open>loop_budget.hpp\<close>. \<open>Mailbox\<close>: \<^verbatim>\<open>detail/mailbox.hpp\<close>, the system
  lane first, nothing lost. \<open>Heap_Order\<close>, \<open>Timer_Heap\<close>, \<open>Timer_Heap_Correct\<close>: \<^verbatim>\<open>timer.cpp\<close>; heap
  order and index map are invariant, and the heap refines the sorted list of live timers.
  \<open>Clock\<close>: \<^verbatim>\<open>virtual_clock.hpp\<close>, \<^verbatim>\<open>deadline.cpp\<close>. \<open>Handle_Registry\<close>: \<^verbatim>\<open>native_handle_registry.cpp\<close>, a
  stale token is not current again within a period of the generation counter.

  \<^bold>\<open>Running work.\<close> \<open>Scheduler\<close>: \<^verbatim>\<open>scheduler.cpp\<close>, \<^verbatim>\<open>test_scheduler.hpp\<close>, \<^verbatim>\<open>trampoline.cpp\<close>. \<open>Cancel_State\<close>:
  \<^verbatim>\<open>cancellation.cpp\<close>, callbacks run exactly once, also when they unregister each other. \<open>Wakeup\<close>,
  \<open>Shard\<close>, \<open>Shard_Protocol\<close>: \<^verbatim>\<open>backend_wakeup.hpp\<close>, \<^verbatim>\<open>shard.cpp\<close>; the protocol of submitters, stoppers
  and worker loses no work and no wake-up, and a stopped worker exits. \<open>Vio_Runtime\<close>:
  \<^verbatim>\<open>runtime.cpp\<close>, \<^verbatim>\<open>runtime_options.cpp\<close>. \<open>Executors\<close>: \<^verbatim>\<open>compute_executor.hpp\<close>, \<^verbatim>\<open>blocking_executor.cpp\<close>;
  after shutdown the blocking workers drain the queue in a bounded number of moves.
  \<open>Executor_Join\<close>: concurrent \<^verbatim>\<open>shutdown\<close> and destruction of a blocking executor, from its workers too;
  no call waits forever once the workers have left their loops.

  \<^bold>\<open>Coroutines.\<close> \<open>Vio_Task\<close>: \<^verbatim>\<open>task.hpp\<close>, \<^verbatim>\<open>when_all.hpp\<close>; the awaiting coroutine is resumed once, with
  the result. \<open>Task_Ownership\<close>: the constructors, moves and destructors of \<^verbatim>\<open>task.hpp\<close>; no dead
  frame is used, none is destroyed twice or leaked. \<open>When_Any\<close>: \<^verbatim>\<open>when_any.hpp\<close>, the first result
  wins. \<open>Task_Void\<close>: the written-out promise of \<^verbatim>\<open>task<void>\<close> does what the template does.
  \<open>Async_Scope\<close>: \<^verbatim>\<open>async_scope.cpp\<close>, joining observes every error the children left. \<open>Waiter\<close>, \<open>Semaphore\<close>, \<open>Async_Mutex\<close>: \<^verbatim>\<open>async_semaphore.hpp\<close>,
  \<^verbatim>\<open>async_mutex.hpp\<close>; permits are conserved while no release exceeds the counter, and saturate
  beyond it, waiters are served in order, at most one holder. \<open>Vio_Channel\<close>: \<^verbatim>\<open>channel.hpp\<close>, \<^verbatim>\<open>manual_reset_event.hpp\<close>.

  \<^bold>\<open>Backends.\<close>
  \<^item> \<open>Backend\<close>: \<^verbatim>\<open>backend.hpp\<close>, \<^verbatim>\<open>backend.cpp\<close>, the virtual backend.
  \<^item> \<open>Os_Calls\<close>, \<open>Epoll_Backend\<close>, \<open>Kqueue_Backend\<close>: the readiness backends. They keep operations in a
    virtual backend and decide from kernel events which of its completions to make.
  \<^item> \<open>Io_Uring_Ring\<close>, \<open>Io_Uring_Ring_Correct\<close>: capabilities, user data and the rings in shared
    memory; the rings are FIFO queues even when their indices wrap, and creation and destruction
    leak nothing, descriptors and mappings being told apart by their identity.
  \<^item> \<open>Io_Uring_Backend\<close>, \<open>Io_Uring_Operations\<close>: registered buffers and files, submission, cancellation
    with retries, observation, shutdown, with kernel submission, the test kernel or the virtual
    fallback. \<open>Io_Uring_Accounting\<close>, \<open>Io_Uring_Correct\<close>: where operations can move; the ledger.
  \<^item> \<open>Iocp_Backend\<close>, \<open>Iocp_Operations\<close>: completion keys, associations, operation storage, packets.
    \<open>Iocp_Correct\<close>: the ledger, retained storage and the lifetime of the port. \<open>Iocp_Closing\<close>: what
    closing does to stored operations. \<open>Iocp_Keys\<close>: packing of keys, the wake sentinel, retired keys. \<open>Iocp_Contract\<close>: the
    theorems.

  \<^bold>\<open>Objects.\<close> Classes that are moved and whose destructor does something are modelled once more as
  objects in a store, so that moves, self-assignment, sharing and the end of a lifetime are
  explicit, and programs are any sequences of operations on live objects. \<open>Owners\<close> has what moving,
  dropping and acquiring do to ownership. \<open>Task_Ownership\<close> above is one of these theories.
  \<open>Move_Only_Function\<close>: \<^verbatim>\<open>detail/continuation.hpp\<close>, a callable has one owner and one end, and a null
  function pointer is never stored.
  \<open>Reservations\<close>: \<^verbatim>\<open>compute_executor::capacity_reservation\<close>, reserved slots are the objects that own one.
  \<open>Cancel_Registration\<close>: the registrations of \<^verbatim>\<open>cancellation.cpp\<close>, a registered callback has a live
  owner. \<open>File_Objects\<close>: the class \<^verbatim>\<open>file\<close>, an open stream has one owner, and a closure that outlives
  it finds the stream closed.

  \<^bold>\<open>Files and sockets.\<close> \<open>File_Operation\<close>, \<open>Vio_File\<close>: \<^verbatim>\<open>file.cpp\<close>; under \<^verbatim>\<open>write_at\<close>, \<^verbatim>\<open>read_at\<close> and
  \<^verbatim>\<open>sync_data\<close> a file behaves as an array of bytes whatever its stream buffers, if the device accepts
  the writes; that refused writes are not reported, and that \<^verbatim>\<open>truncate\<close> ignores buffered ones, is
  shown beside it. \<open>File_Pipeline\<close> composes file operations with the blocking executor:
  across submissions, workers, other work, awaiting coroutines and shutdown, each operation is run
  at most once, gets exactly one result, and shutdown leaves none without. \<open>Vio_Socket\<close>:
  \<^verbatim>\<open>socket.cpp\<close> and \<^verbatim>\<open>detail/socket_*.hpp\<close>; chained transfers equal contiguous ones. \<open>Example_Programs\<close>: the echo and fan-out programs under \<^verbatim>\<open>examples\<close>.

  \<^bold>\<open>Loops and termination.\<close> Loops over data are structural or have a measure. Loops that the
  kernel may keep running are partial functions into \<open>option\<close>: retrying an interrupted call,
  reading and writing event counters, changing filters, socket transfers and accepts, and running
  work that creates work. Theorems that such a loop returns name the condition, for instance
  that the event counter makes progress. Where an argument counts a loop down, it is the length
  of the queue or the limit that the code compares with, so the loop is never cut short.

  \<^bold>\<open>Not modelled.\<close> The version constants; benchmarks and tests; the example programs that copy a
  file, which waits against the wall clock, and that only start and stop a runtime; the stubs
  of a backend on platforms it does not support; the addresses that \<^verbatim>\<open>bind_offsets\<close> computes in
  the mapped rings, since the shared memory is a record of its fields. Allocation succeeds
  except where the code handles its failure. Data races are outside the model: what a mutex
  protects is one step.
\<close>

end
